(* ===== verification/Prelude.thy ===== *)
theory Prelude
  imports Main "HOL-Library.Monad_Syntax" "HOL-Library.List_Lexorder" "HOL-Library.Char_ord" "HOL-Library.Product_Lexorder"
begin

text \<open>
  Vocabulary shared by every component of the Flux development.

  A Go computation that may panic (index out of range, write to a nil map, nil dereference)
  has a result of type \<open>'a option\<close>; \<open>None\<close> is the panic. Go \<open>error\<close> values are ordinary
  values and are kept apart from panics.

  A Go map is a partial function. A \<open>range\<close> loop visits the keys of the map in an order the
  runtime chooses afresh each time: the order is an argument of the model, a function that
  yields an enumeration of the key set for every loop (named by a label), and theorems hold for
  each such function. \<open>for_keys\<close> is the loop with a body that cannot panic, \<open>for_keysM\<close>
  the loop with a body that can. Both look the key up again when they reach it, because an entry
  that the body deletes before it is reached is not produced.
\<close>

section \<open>Iteration orders\<close>

type_synonym 'k ordering = "string list \<Rightarrow> 'k set \<Rightarrow> 'k list"

definition ordering_ok :: "'k ordering \<Rightarrow> bool" where
  "ordering_ok ord \<longleftrightarrow> (\<forall>l A. finite A \<longrightarrow> distinct (ord l A) \<and> set (ord l A) = A)"

definition sorted_ordering :: "('k::linorder) ordering" where
  "sorted_ordering l A = sorted_list_of_set A"

lemma ordering_okD [simp]:
  assumes "ordering_ok ord" and "finite A"
  shows "distinct (ord l A)" and "set (ord l A) = A"
  using assms by (auto simp: ordering_ok_def)

lemma sorted_ordering_ok [simp]: "ordering_ok sorted_ordering"
  by (simp add: ordering_ok_def sorted_ordering_def)

section \<open>Range loops\<close>

fun for_keys :: "('s \<Rightarrow> 'k \<rightharpoonup> 'v) \<Rightarrow> ('k \<Rightarrow> 'v \<Rightarrow> 's \<Rightarrow> 's) \<Rightarrow> 'k list \<Rightarrow> 's \<Rightarrow> 's" where
  "for_keys get f [] s = s"
| "for_keys get f (k # ks) s =
     for_keys get f ks (case get s k of None \<Rightarrow> s | Some v \<Rightarrow> f k v s)"

fun for_keysM :: "('s \<Rightarrow> 'k \<rightharpoonup> 'v) \<Rightarrow> ('k \<Rightarrow> 'v \<Rightarrow> 's \<Rightarrow> 's option) \<Rightarrow> 'k list \<Rightarrow> 's \<Rightarrow> 's option" where
  "for_keysM get f [] s = Some s"
| "for_keysM get f (k # ks) s =
     (case get s k of
        None \<Rightarrow> for_keysM get f ks s
      | Some v \<Rightarrow> (case f k v s of None \<Rightarrow> None | Some s' \<Rightarrow> for_keysM get f ks s'))"

lemma for_keys_inv:
  assumes "P s" and "\<And>k v s. P s \<Longrightarrow> k \<in> set ks \<Longrightarrow> get s k = Some v \<Longrightarrow> P (f k v s)"
  shows "P (for_keys get f ks s)"
  using assms by (induction ks arbitrary: s) (auto split: option.split)

lemma for_keysM_inv:
  assumes "for_keysM get f ks s = Some s'" and "P s"
    and "\<And>k v s s'. P s \<Longrightarrow> k \<in> set ks \<Longrightarrow> get s k = Some v \<Longrightarrow> f k v s = Some s' \<Longrightarrow> P s'"
  shows "P s'"
  using assms
proof (induction ks arbitrary: s)
  case Nil
  then show ?case by simp
next
  case (Cons k ks)
  show ?case
  proof (cases "get s k")
    case None
    with Cons.prems(1) have "for_keysM get f ks s = Some s'" by simp
    then show ?thesis using Cons.IH Cons.prems(2,3) by (meson list.set_intros(2))
  next
    case (Some v)
    then obtain t where t: "f k v s = Some t" "for_keysM get f ks t = Some s'"
      using Cons.prems(1) by (simp split: option.splits)
    moreover have "P t" using Cons.prems(2,3) Some t(1) by (meson list.set_intros(1))
    ultimately show ?thesis using Cons.IH Cons.prems(3) by (meson list.set_intros(2))
  qed
qed

lemma for_keysM_total:
  assumes "\<And>k v s. k \<in> set ks \<Longrightarrow> get s k = Some v \<Longrightarrow> P s \<Longrightarrow> \<exists>s'. f k v s = Some s' \<and> P s'"
    and "P s"
  shows "\<exists>s'. for_keysM get f ks s = Some s' \<and> P s'"
  using assms
proof (induction ks arbitrary: s)
  case Nil
  then show ?case by simp
next
  case (Cons k ks)
  show ?case
  proof (cases "get s k")
    case None
    with Cons show ?thesis by simp
  next
    case (Some v)
    then obtain t where "f k v s = Some t" "P t"
      using Cons.prems by (metis list.set_intros(1))
    with Some Cons show ?thesis by simp
  qed
qed

text \<open>
  An invariant that also knows which keys have been visited: what a loop has established for
  the keys behind it.
\<close>

lemma for_keys_visited:
  assumes "P {} s"
    and "\<And>k v s done. P done s \<Longrightarrow> k \<in> set ks \<Longrightarrow> k \<notin> done \<Longrightarrow> done \<subseteq> set ks \<Longrightarrow>
           get s k = Some v \<Longrightarrow> P (insert k done) (f k v s)"
    and "\<And>k s done. P done s \<Longrightarrow> k \<in> set ks \<Longrightarrow> k \<notin> done \<Longrightarrow> done \<subseteq> set ks \<Longrightarrow>
           get s k = None \<Longrightarrow> P (insert k done) s"
    and "distinct ks"
  shows "P (set ks) (for_keys get f ks s)"
proof -
  have "P (D \<union> set xs) (for_keys get f xs s)"
    if "P D s" "set xs \<subseteq> set ks" "distinct xs" "D \<inter> set xs = {}" "D \<subseteq> set ks" for D xs s
    using that
  proof (induction xs arbitrary: D s)
    case Nil
    then show ?case by simp
  next
    case (Cons x xs)
    have "P (insert x D) (case get s x of None \<Rightarrow> s | Some v \<Rightarrow> f x v s)"
      using Cons.prems assms(2,3) by (auto split: option.split)
    from Cons.IH [OF this] Cons.prems show ?case by (simp split: option.split)
  qed
  from this [of "{}" s ks] assms(1,4) show ?thesis by simp
qed

lemma for_keysM_visited:
  assumes "for_keysM get f ks s = Some s'" and "P {} s"
    and "\<And>k v s s' done. P done s \<Longrightarrow> k \<in> set ks \<Longrightarrow> k \<notin> done \<Longrightarrow> done \<subseteq> set ks \<Longrightarrow>
           get s k = Some v \<Longrightarrow> f k v s = Some s' \<Longrightarrow> P (insert k done) s'"
    and "\<And>k s done. P done s \<Longrightarrow> k \<in> set ks \<Longrightarrow> k \<notin> done \<Longrightarrow> done \<subseteq> set ks \<Longrightarrow>
           get s k = None \<Longrightarrow> P (insert k done) s"
    and "distinct ks"
  shows "P (set ks) s'"
proof -
  have "P (D \<union> set xs) s'"
    if "for_keysM get f xs s = Some s'" "P D s" "set xs \<subseteq> set ks" "distinct xs"
      "D \<inter> set xs = {}" "D \<subseteq> set ks" for D xs s
    using that
  proof (induction xs arbitrary: D s)
    case Nil
    then show ?case by simp
  next
    case (Cons x xs)
    from Cons.prems have x: "x \<in> set ks" "x \<notin> D" by auto
    have "\<exists>t. P (insert x D) t \<and> for_keysM get f xs t = Some s'"
    proof (cases "get s x")
      case None
      then show ?thesis using Cons.prems x assms(4) by auto
    next
      case (Some v)
      then obtain t where "f x v s = Some t" "for_keysM get f xs t = Some s'"
        using Cons.prems(1) by (simp split: option.splits)
      then show ?thesis using Cons.prems x Some assms(3) by blast
    qed
    then obtain t where "P (insert x D) t" "for_keysM get f xs t = Some s'" by blast
    from Cons.IH [OF this(2,1)] Cons.prems show ?case by simp
  qed
  from this [of ks s "{}"] assms(1,2,5) show ?thesis by simp
qed

end
