(* ===== verification/GoStrings.thy ===== *)
theory GoStrings
  imports Prelude
begin

text \<open>
  The parts of Go's \<open>strings\<close> and \<open>strconv\<close> packages the program uses. A Go string is a
  sequence of bytes, here a list of \<open>char\<close>. Separators are single bytes in every call of the
  program.
\<close>

section \<open>strings\<close>

fun lastIndex :: "char \<Rightarrow> string \<Rightarrow> int" where
  "lastIndex c [] = -1"
| "lastIndex c (x # xs) =
     (let i = lastIndex c xs in if i \<ge> 0 then i + 1 else if x = c then 0 else -1)"

fun split_all :: "char \<Rightarrow> string \<Rightarrow> string list" where
  "split_all c [] = [[]]"
| "split_all c (x # xs) =
     (if x = c then [] # split_all c xs
      else (x # hd (split_all c xs)) # tl (split_all c xs))"

definition splitN2 :: "char \<Rightarrow> string \<Rightarrow> string list" where
  "splitN2 c s =
     (if c \<in> set s then [takeWhile (\<lambda>x. x \<noteq> c) s, tl (dropWhile (\<lambda>x. x \<noteq> c) s)] else [s])"

fun joinWith :: "char \<Rightarrow> string list \<Rightarrow> string" where
  "joinWith c [] = []"
| "joinWith c [s] = s"
| "joinWith c (s # ss) = s @ c # joinWith c ss"

lemma split_all_ne [simp]: "split_all c s \<noteq> []"
  by (induction s) auto

lemma split_all_no_sep [simp]: "c \<notin> set s \<Longrightarrow> split_all c s = [s]"
  by (induction s) auto

lemma split_all_append [simp]: "c \<notin> set a \<Longrightarrow> split_all c (a @ c # b) = a # split_all c b"
  by (induction a) auto

lemma join_split: "joinWith c (split_all c s) = s"
proof (induction s)
  case (Cons x xs)
  then show ?case
    by (cases "(c, split_all c xs)" rule: joinWith.cases) (auto split: if_splits)
qed simp

lemma splitN2_sep: "c \<notin> set a \<Longrightarrow> splitN2 c (a @ c # b) = [a, b]"
  by (induction a) (auto simp: splitN2_def)

lemma splitN2_no_sep: "c \<notin> set a \<Longrightarrow> splitN2 c a = [a]"
  by (simp add: splitN2_def)

lemma length_splitN2: "length (splitN2 c s) = (if c \<in> set s then 2 else 1)"
  by (simp add: splitN2_def)

lemma lastIndex_bounds: "-1 \<le> lastIndex c s \<and> lastIndex c s < int (length s)"
  by (induction s) (auto simp: Let_def)

lemma lastIndex_none: "lastIndex c s = -1 \<longleftrightarrow> c \<notin> set s"
proof (induction s)
  case (Cons x xs)
  then show ?case using lastIndex_bounds [of c xs] by (auto simp: Let_def)
qed simp

lemma lastIndex_sep:
  assumes "c \<notin> set b"
  shows "lastIndex c (a @ c # b) = int (length a)"
proof -
  have "lastIndex c b = -1" using assms lastIndex_none by metis
  then show ?thesis by (induction a) (auto simp: Let_def)
qed

lemma lastIndex_split:
  assumes "lastIndex c s \<noteq> -1"
  shows "\<exists>a b. s = a @ c # b \<and> c \<notin> set b \<and> lastIndex c s = int (length a)"
proof -
  from assms have "c \<in> set s" by (metis lastIndex_none)
  then obtain a b where "s = a @ c # b" "c \<notin> set b" by (metis split_list_last)
  then show ?thesis using lastIndex_sep by fastforce
qed

section \<open>strconv: decimal numbers\<close>

definition digit_char :: "nat \<Rightarrow> char" where
  "digit_char d = char_of (48 + d)"

definition is_digit :: "char \<Rightarrow> bool" where
  "is_digit c \<longleftrightarrow> 48 \<le> (of_char c :: nat) \<and> (of_char c :: nat) \<le> 57"

definition digit_val :: "char \<Rightarrow> nat" where
  "digit_val c = of_char c - 48"

fun nat_to_dec :: "nat \<Rightarrow> string" where
  "nat_to_dec n = (if n < 10 then [digit_char n] else nat_to_dec (n div 10) @ [digit_char (n mod 10)])"

declare nat_to_dec.simps [simp del]

definition itoa :: "int \<Rightarrow> string" where
  "itoa i = (if i < 0 then CHR ''-'' # nat_to_dec (nat (- i)) else nat_to_dec (nat i))"

fun dec_val :: "nat \<Rightarrow> string \<Rightarrow> nat" where
  "dec_val acc [] = acc"
| "dec_val acc (c # cs) = dec_val (acc * 10 + digit_val c) cs"

text \<open>
  \<open>strconv.Atoi\<close>: an optional sign, at least one digit, nothing but digits, and the value must
  fit a 64-bit \<open>int\<close>. \<open>None\<close> is the error result.
\<close>

definition atoi_unsigned :: "string \<Rightarrow> nat option" where
  "atoi_unsigned s = (if s \<noteq> [] \<and> list_all is_digit s then Some (dec_val 0 s) else None)"

definition atoi :: "string \<Rightarrow> int option" where
  "atoi s =
     (case s of
        [] \<Rightarrow> None
      | c # cs \<Rightarrow>
          (if c = CHR ''-'' then
             (case atoi_unsigned cs of None \<Rightarrow> None
              | Some n \<Rightarrow> if n \<le> 2 ^ 63 then Some (- int n) else None)
           else
             (case atoi_unsigned (if c = CHR ''+'' then cs else s) of None \<Rightarrow> None
              | Some n \<Rightarrow> if n < 2 ^ 63 then Some (int n) else None)))"

lemma of_char_digit [simp]: "d < 10 \<Longrightarrow> (of_char (digit_char d) :: nat) = 48 + d"
  by (simp add: digit_char_def)

lemma digit_val_char [simp]: "d < 10 \<Longrightarrow> digit_val (digit_char d) = d"
  by (simp add: digit_val_def)

lemma is_digit_char [simp]: "d < 10 \<Longrightarrow> is_digit (digit_char d)"
  by (simp add: is_digit_def)

lemma dec_val_append: "dec_val acc (xs @ ys) = dec_val (dec_val acc xs) ys"
  by (induction xs arbitrary: acc) auto

lemma nat_to_dec_digits: "list_all is_digit (nat_to_dec n)"
proof (induction n rule: nat_to_dec.induct)
  case (1 n)
  then show ?case by (subst nat_to_dec.simps) auto
qed

lemma nat_to_dec_ne [simp]: "nat_to_dec n \<noteq> []"
  by (subst nat_to_dec.simps) simp

lemma dec_val_nat_to_dec: "dec_val 0 (nat_to_dec n) = n"
proof (induction n rule: nat_to_dec.induct)
  case (1 n)
  then show ?case by (subst nat_to_dec.simps) (auto simp: dec_val_append)
qed

lemma atoi_unsigned_dec: "atoi_unsigned (nat_to_dec n) = Some n"
  by (simp add: atoi_unsigned_def nat_to_dec_digits dec_val_nat_to_dec)

lemma nat_to_dec_chars: "c \<in> set (nat_to_dec n) \<Longrightarrow> is_digit c"
  using nat_to_dec_digits by (auto simp: list_all_iff)

lemma hd_nat_to_dec: "is_digit (hd (nat_to_dec n))"
  by (rule nat_to_dec_chars [of _ n]) simp

lemma not_digit [simp]: "\<not> is_digit CHR ''-''" "\<not> is_digit CHR ''+''" "\<not> is_digit CHR '':''"
  "\<not> is_digit CHR ''.''" "\<not> is_digit CHR ''/''" "\<not> is_digit CHR ''[''" "\<not> is_digit CHR '']''"
  by (simp_all add: is_digit_def)

lemma atoi_itoa:
  assumes "- (2 ^ 63) \<le> i" and "i < 2 ^ 63"
  shows "atoi (itoa i) = Some i"
proof (cases "i < 0")
  case True
  have "nat (- i) \<le> 2 ^ 63" using assms by simp
  then show ?thesis using True by (simp add: itoa_def atoi_def atoi_unsigned_dec)
next
  case False
  obtain c cs where s: "nat_to_dec (nat i) = c # cs"
    by (cases "nat_to_dec (nat i)") auto
  moreover have "is_digit c" using hd_nat_to_dec [of "nat i"] s by simp
  ultimately have "c \<noteq> CHR ''-''" "c \<noteq> CHR ''+''" by auto
  moreover have "nat i < 2 ^ 63" using assms(2) False by simp
  ultimately show ?thesis
    using False s atoi_unsigned_dec [of "nat i"] by (simp add: itoa_def atoi_def)
qed

end
