(* ===== verification/GoNet.thy ===== *)
theory GoNet
  imports GoStrings
begin

text \<open>
  The parts of Go's \<open>net\<close> package the program uses, and \<open>common/netutil/netutil.go\<close>:
  IP addresses as byte strings, their equality across the 4-byte and 16-byte forms, parsing of
  dotted-quad and colon-hexadecimal addresses (the form of the Go releases of the repository's
  time: leading zeros are accepted), printing of IPv4 addresses, host:port splitting, and the
  comparable \<open>IPPort\<close> pair.
\<close>

section \<open>net.IP\<close>

type_synonym ip = string \<comment> \<open>the bytes of a \<open>net.IP\<close>; the nil slice is \<open>[]\<close>\<close>

definition v4InV6Prefix :: string where
  "v4InV6Prefix = replicate 10 (char_of (0::nat)) @ replicate 2 (char_of (255::nat))"

definition to4 :: "ip \<Rightarrow> ip option" where
  "to4 a =
     (if length a = 4 then Some a
      else if length a = 16 \<and> take 12 a = v4InV6Prefix then Some (drop 12 a)
      else None)"

definition ip_equal :: "ip \<Rightarrow> ip \<Rightarrow> bool" where
  "ip_equal a x =
     (if length a = length x then a = x
      else if length a = 4 \<and> length x = 16 then take 12 x = v4InV6Prefix \<and> a = drop 12 x
      else if length a = 16 \<and> length x = 4 then take 12 a = v4InV6Prefix \<and> x = drop 12 a
      else False)"

text \<open>A run of decimal digits at the front of a string: its value and the rest.\<close>

definition dtoi :: "string \<Rightarrow> (nat \<times> string) option" where
  "dtoi s =
     (let ds = takeWhile is_digit s; n = dec_val 0 ds
      in if ds = [] \<or> n \<ge> 16777215 then None else Some (n, dropWhile is_digit s))"

fun parseIPv4_bytes :: "nat \<Rightarrow> string \<Rightarrow> string \<Rightarrow> string option" where
  "parseIPv4_bytes 0 s out = (if s = [] then Some out else None)"
| "parseIPv4_bytes (Suc k) s out =
     (let s' = (if out = [] then Some s
                else case s of [] \<Rightarrow> None | c # cs \<Rightarrow> if c = CHR ''.'' then Some cs else None)
      in case s' of None \<Rightarrow> None
         | Some t \<Rightarrow>
             (case dtoi t of None \<Rightarrow> None
              | Some (n, r) \<Rightarrow> if n > 255 then None else parseIPv4_bytes k r (out @ [char_of n])))"

definition parseIPv4 :: "string \<Rightarrow> ip option" where
  "parseIPv4 s = map_option (\<lambda>b. v4InV6Prefix @ b) (parseIPv4_bytes 4 s [])"

definition is_hex :: "char \<Rightarrow> bool" where
  "is_hex c \<longleftrightarrow> is_digit c \<or> (97 \<le> (of_char c :: nat) \<and> (of_char c :: nat) \<le> 102) \<or>
     (65 \<le> (of_char c :: nat) \<and> (of_char c :: nat) \<le> 70)"

definition hex_val :: "char \<Rightarrow> nat" where
  "hex_val c =
     (if is_digit c then digit_val c
      else if 97 \<le> (of_char c :: nat) then of_char c - 87 else of_char c - 55)"

fun hex_num :: "nat \<Rightarrow> string \<Rightarrow> nat" where
  "hex_num acc [] = acc"
| "hex_num acc (c # cs) = hex_num (acc * 16 + hex_val c) cs"

definition xtoi :: "string \<Rightarrow> (nat \<times> string) option" where
  "xtoi s =
     (let ds = takeWhile is_hex s; n = hex_num 0 ds
      in if ds = [] \<or> n \<ge> 16777215 then None else Some (n, dropWhile is_hex s))"

text \<open>
  The loop of \<open>parseIPv6\<close>. The first argument bounds the number of 16-bit groups still to
  read (the loop condition \<open>j < IPv6len\<close>, \<open>j\<close> growing by two), \<open>out\<close> holds the bytes written
  so far and \<open>ell\<close> the position of the ellipsis. The result is the text left unread, the
  bytes and the ellipsis.
\<close>

fun parseIPv6_loop ::
  "nat \<Rightarrow> string \<Rightarrow> string \<Rightarrow> nat option \<Rightarrow> (string \<times> string \<times> nat option) option" where
  "parseIPv6_loop 0 s out ell = Some (s, out, ell)"
| "parseIPv6_loop (Suc k) s out ell =
     (case xtoi s of None \<Rightarrow> None
      | Some (n, r) \<Rightarrow>
          if n > 65535 then None
          else if r \<noteq> [] \<and> hd r = CHR ''.'' then
            (if ell = None \<and> length out \<noteq> 12 then None
             else if length out + 4 > 16 then None
             else case parseIPv4_bytes 4 s [] of None \<Rightarrow> None
                  | Some b \<Rightarrow> Some ([], out @ b, ell))
          else
            (let out' = out @ [char_of (n div 256), char_of (n mod 256)] in
             case r of
               [] \<Rightarrow> Some ([], out', ell)
             | c # cs \<Rightarrow>
                 if c \<noteq> CHR '':'' \<or> cs = [] then None
                 else if hd cs = CHR '':'' then
                   (if ell \<noteq> None then None
                    else if tl cs = [] then Some ([], out', Some (length out'))
                    else parseIPv6_loop k (tl cs) out' (Some (length out')))
                 else parseIPv6_loop k cs out' ell))"

definition parseIPv6_expand :: "string \<times> string \<times> nat option \<Rightarrow> ip option" where
  "parseIPv6_expand x =
     (case x of (rest, out, ell) \<Rightarrow>
        if rest \<noteq> [] then None
        else if length out < 16 then
          (case ell of None \<Rightarrow> None
           | Some e \<Rightarrow> Some (take e out @ replicate (16 - length out) (char_of (0::nat)) @ drop e out))
        else if ell \<noteq> None then None else Some out)"

definition parseIPv6 :: "string \<Rightarrow> ip option" where
  "parseIPv6 s =
     (if length s \<ge> 2 \<and> s ! 0 = CHR '':'' \<and> s ! 1 = CHR '':'' then
        (if length s = 2 then Some (replicate 16 (char_of (0::nat)))
         else Option.bind (parseIPv6_loop 8 (drop 2 s) [] (Some 0)) parseIPv6_expand)
      else Option.bind (parseIPv6_loop 8 s [] None) parseIPv6_expand)"

fun parseIP_scan :: "string \<Rightarrow> string \<Rightarrow> ip option" where
  "parseIP_scan s [] = None"
| "parseIP_scan s (c # cs) =
     (if c = CHR ''.'' then parseIPv4 s
      else if c = CHR '':'' then parseIPv6 s
      else parseIP_scan s cs)"

definition parseIP :: "string \<Rightarrow> ip option" where
  "parseIP s = parseIP_scan s s"

definition ipv4_string :: "ip \<Rightarrow> string" where
  "ipv4_string b =
     nat_to_dec (of_char (b ! 0)) @ CHR ''.'' # nat_to_dec (of_char (b ! 1)) @ CHR ''.'' #
     nat_to_dec (of_char (b ! 2)) @ CHR ''.'' # nat_to_dec (of_char (b ! 3))"

section \<open>IPPort\<close>

text \<open>\<open>IPPort\<close> keeps the address as a string so that it can be a map key.\<close>

record ipport =
  ipBytes :: ip
  ipPortNum :: int

definition newIPPort :: "ip \<Rightarrow> int \<Rightarrow> ipport" where
  "newIPPort a p = \<lparr>ipBytes = a, ipPortNum = p\<rparr>"

definition ipport_IP :: "ipport \<Rightarrow> ip option" where
  "ipport_IP a = (if length (ipBytes a) = 0 then None else Some (ipBytes a))"

definition ipport_Equal :: "ipport \<Rightarrow> ipport \<Rightarrow> bool" where
  "ipport_Equal a b \<longleftrightarrow> a = b"

definition ipport_LessThan :: "ipport \<Rightarrow> ipport \<Rightarrow> bool" where
  "ipport_LessThan a b =
     (if ipBytes a < ipBytes b then True
      else if ipBytes a = ipBytes b then ipPortNum a < ipPortNum b
      else False)"

section \<open>Equality and parsing\<close>

lemma length_v4InV6Prefix [simp]: "length v4InV6Prefix = 12"
  by (simp add: v4InV6Prefix_def)

text \<open>
  Two addresses are equal exactly when their 16-byte forms are, so the relation is an
  equivalence.
\<close>

definition ip_norm :: "ip \<Rightarrow> ip" where
  "ip_norm a = (if length a = 4 then v4InV6Prefix @ a else a)"

lemma append_eq_take_drop: "length p = 12 \<Longrightarrow> p @ a = x \<longleftrightarrow> take 12 x = p \<and> a = drop 12 x"
  by (metis append_eq_conv_conj)

lemma ip_equal_iff_norm: "ip_equal a b \<longleftrightarrow> ip_norm a = ip_norm b"
proof -
  have "v4InV6Prefix @ x = y \<longleftrightarrow> take 12 y = v4InV6Prefix \<and> x = drop 12 y" for x y
    by (simp add: append_eq_take_drop)
  moreover have "length (v4InV6Prefix @ x) = 16" if "length x = 4" for x :: ip
    using that by simp
  ultimately show ?thesis
    unfolding ip_equal_def ip_norm_def by (smt (verit, best) append_eq_append_conv)
qed

lemma ip_equal_refl [simp]: "ip_equal a a"
  by (simp add: ip_equal_iff_norm)

lemma ip_equal_sym: "ip_equal a b \<Longrightarrow> ip_equal b a"
  by (simp add: ip_equal_iff_norm)

lemma ip_equal_trans: "ip_equal a b \<Longrightarrow> ip_equal b c \<Longrightarrow> ip_equal a c"
  by (simp add: ip_equal_iff_norm)

lemma dtoi_dec:
  assumes "n < 16777215" and "r = [] \<or> \<not> is_digit (hd r)"
  shows "dtoi (nat_to_dec n @ r) = Some (n, r)"
proof -
  have d: "\<forall>c \<in> set (nat_to_dec n). is_digit c" using nat_to_dec_chars by blast
  have "takeWhile is_digit (nat_to_dec n @ r) = nat_to_dec n"
    using assms(2) d by (cases r) (auto simp: takeWhile_append)
  moreover have "dropWhile is_digit (nat_to_dec n @ r) = r"
    using assms(2) d by (cases r) (auto simp: dropWhile_append)
  ultimately show ?thesis using assms(1) by (simp add: dtoi_def dec_val_nat_to_dec)
qed

lemma byte_lt [simp]: "(of_char (c::char) :: nat) < 256"
  by (metis char_of_mod_256 mod_less_divisor of_char_of zero_less_numeral of_char_mod_256)

lemma parseIPv4_first:
  assumes "r = [] \<or> \<not> is_digit (hd r)"
  shows "parseIPv4_bytes (Suc k) (nat_to_dec (of_char c) @ r) [] = parseIPv4_bytes k r [c]"
proof -
  have "\<not> 255 < (of_char c :: nat)" "(of_char c :: nat) < 16777215"
    using byte_lt [of c] by linarith+
  then show ?thesis using assms by (simp add: dtoi_dec)
qed

lemma parseIPv4_next:
  assumes "r = [] \<or> \<not> is_digit (hd r)" and "out \<noteq> []"
  shows "parseIPv4_bytes (Suc k) (CHR ''.'' # nat_to_dec (of_char c) @ r) out
    = parseIPv4_bytes k r (out @ [c])"
proof -
  have "\<not> 255 < (of_char c :: nat)" "(of_char c :: nat) < 16777215"
    using byte_lt [of c] by linarith+
  then show ?thesis using assms by (simp add: dtoi_dec)
qed

lemma parseIPv4_bytes_string:
  assumes "length b = 4"
  shows "parseIPv4_bytes 4 (ipv4_string b) [] = Some b"
proof -
  obtain b0 b1 b2 b3 where b: "b = [b0, b1, b2, b3]"
    using assms by (auto simp: length_Suc_conv numeral_eq_Suc)
  have "parseIPv4_bytes (Suc (Suc (Suc (Suc 0)))) (ipv4_string b) [] = Some b"
    using parseIPv4_next [of "[]" "[b0, b1, b2]" 0 b3]
    by (simp add: b ipv4_string_def parseIPv4_first parseIPv4_next del: parseIPv4_bytes.simps(2))
  moreover have "Suc (Suc (Suc (Suc 0))) = 4" by simp
  ultimately show ?thesis by metis
qed

lemma parseIP_scan_dot: "CHR '':'' \<notin> set t \<Longrightarrow> CHR ''.'' \<in> set t \<Longrightarrow> parseIP_scan s t = parseIPv4 s"
  by (induction t) auto

lemma ipv4_string_chars: "CHR '':'' \<notin> set (ipv4_string b)" "CHR ''.'' \<in> set (ipv4_string b)"
  by (auto simp: ipv4_string_def dest: nat_to_dec_chars)

lemma parseIP_ipv4_string:
  assumes "length b = 4"
  shows "parseIP (ipv4_string b) = Some (v4InV6Prefix @ b)"
  using assms
  by (simp add: parseIP_def parseIP_scan_dot ipv4_string_chars parseIPv4_def parseIPv4_bytes_string)

section \<open>The order on addresses\<close>

text \<open>\<open>LessThan\<close> is the strict part of a linear order, by bytes and then by port.\<close>

instantiation ipport_ext :: (linorder) linorder
begin

definition less_eq_ipport_ext :: "'a ipport_scheme \<Rightarrow> 'a ipport_scheme \<Rightarrow> bool" where
  "less_eq_ipport_ext a b \<longleftrightarrow> ipBytes a < ipBytes b \<or>
     ipBytes a = ipBytes b \<and> (ipPortNum a < ipPortNum b \<or>
       ipPortNum a = ipPortNum b \<and> ipport.more a \<le> ipport.more b)"

definition less_ipport_ext :: "'a ipport_scheme \<Rightarrow> 'a ipport_scheme \<Rightarrow> bool" where
  "less_ipport_ext a b \<longleftrightarrow> a \<le> b \<and> \<not> b \<le> (a :: 'a ipport_scheme)"

instance
  by standard (auto simp: less_eq_ipport_ext_def less_ipport_ext_def)

end

lemma ipport_LessThan_less: "ipport_LessThan a b \<longleftrightarrow> a < b"
  by (auto simp: ipport_LessThan_def less_ipport_ext_def less_eq_ipport_ext_def)

end
