(* ===== verification/StoreData.thy ===== *)
theory StoreData
  imports GoNet
begin

text \<open>
  The data model of \<open>common/store/data.go\<close>: services, container rules, instances and label
  selectors. Embedding of \<open>Service\<close> in \<open>ServiceInfo\<close> is record extension. Maps that are nil
  when a query does not ask for them are empty maps here: the program never distinguishes the two.
\<close>

section \<open>Data\<close>

type_synonym label_map = "string \<rightharpoonup> string"

record host =
  hostAddr :: ip

record container_rule =
  Selector :: label_map
  ruleInstancePort :: int

record service =
  Address :: "ipport option"
  InstancePort :: int
  Protocol :: string

record inst =
  instHost :: host
  instContainerRule :: string
  instAddress :: "ipport option"
  instLabels :: label_map

record ingress_instance =
  Weight :: int

record service_info = service +
  Instances :: "string \<rightharpoonup> inst"
  ContainerRules :: "string \<rightharpoonup> container_rule"
  IngressInstances :: "ipport \<rightharpoonup> ingress_instance"

record query_opts =
  WithInstances :: bool
  WithContainerRules :: bool
  WithIngressInstances :: bool

record service_change =
  scName :: string
  scServiceDeleted :: bool

record host_change =
  hcName :: string
  hcHostDeparted :: bool

record service_update =
  suServices :: "string \<rightharpoonup> service_info option"
  suReset :: bool

definition selector_Empty :: "label_map \<Rightarrow> bool" where
  "selector_Empty sel \<longleftrightarrow> sel = Map.empty"

section \<open>Labels and selection\<close>

text \<open>
  \<open>Selector.Includes\<close> returns at the first label that differs. Reading a label may panic
  (the label functions of containers can), so the result is an option and the order in which
  the runtime visits the selector matters for panics.
\<close>

fun includes_keys :: "label_map \<Rightarrow> (string \<Rightarrow> string option) \<Rightarrow> string list \<Rightarrow> bool option" where
  "includes_keys sel label [] = Some True"
| "includes_keys sel label (k # ks) =
     (case sel k of
        None \<Rightarrow> includes_keys sel label ks
      | Some v \<Rightarrow>
          (case label k of
             None \<Rightarrow> None
           | Some x \<Rightarrow> if x \<noteq> v then Some False else includes_keys sel label ks))"

definition selector_Includes ::
  "string ordering \<Rightarrow> string list \<Rightarrow> label_map \<Rightarrow> (string \<Rightarrow> string option) \<Rightarrow> bool option" where
  "selector_Includes ord l sel label = includes_keys sel label (ord l (dom sel))"

definition rule_Includes ::
  "string ordering \<Rightarrow> string list \<Rightarrow> container_rule \<Rightarrow> (string \<Rightarrow> string option) \<Rightarrow> bool option" where
  "rule_Includes ord l spec label = selector_Includes ord l (Selector spec) label"

text \<open>\<open>Instance.Label\<close>. The printed form of the host address is an argument: it is only shown
  to the user and compared with user input.\<close>

definition instance_Label :: "(ip \<Rightarrow> string) \<Rightarrow> inst \<Rightarrow> string \<Rightarrow> string" where
  "instance_Label ip_str i k =
     (if k = ''host'' then ip_str (hostAddr (instHost i))
      else if k = ''state'' then
        (case instAddress i of None \<Rightarrow> ''no address'' | Some _ \<Rightarrow> ''live'')
      else if k = ''rule'' then instContainerRule i
      else (case instLabels i k of None \<Rightarrow> '''' | Some v \<Rightarrow> v))"

lemma includes_keys_total:
  assumes "\<And>k. k \<in> set ks \<Longrightarrow> k \<in> dom sel \<Longrightarrow> label k = Some (f k)"
  shows "includes_keys sel label ks = Some (\<forall>k \<in> set ks. \<forall>v. sel k = Some v \<longrightarrow> f k = v)"
  using assms
proof (induction ks)
  case Nil
  then show ?case by simp
next
  case (Cons k ks)
  have "label k = Some (f k)" if "sel k = Some v" for v
    using Cons.prems that by auto
  moreover have "includes_keys sel label ks = Some (\<forall>k \<in> set ks. \<forall>v. sel k = Some v \<longrightarrow> f k = v)"
    using Cons by simp
  ultimately show ?case by (auto split: option.split)
qed

lemma includes_keys_True:
  "includes_keys sel label ks = Some True \<longleftrightarrow>
     (\<forall>k \<in> set ks. \<forall>v. sel k = Some v \<longrightarrow> label k = Some v)"
  by (induction ks) (auto split: option.split)

text \<open>
  A rule includes a container exactly when every label of its selector has the wanted value,
  whatever the iteration order.
\<close>

lemma selector_Includes_True:
  assumes "ordering_ok ord" and "finite (dom sel)"
  shows "selector_Includes ord l sel label = Some True \<longleftrightarrow>
    (\<forall>k v. sel k = Some v \<longrightarrow> label k = Some v)"
  using assms by (auto simp: selector_Includes_def includes_keys_True dom_def)

lemma selector_Includes_total:
  assumes "ordering_ok ord" and "finite (dom sel)" and "\<And>k. k \<in> dom sel \<Longrightarrow> label k = Some (f k)"
  shows "selector_Includes ord l sel label = Some (\<forall>k v. sel k = Some v \<longrightarrow> f k = v)"
proof -
  have "includes_keys sel label (ord l (dom sel))
    = Some (\<forall>k \<in> set (ord l (dom sel)). \<forall>v. sel k = Some v \<longrightarrow> f k = v)"
    by (rule includes_keys_total) (use assms in auto)
  then show ?thesis using assms(1,2) by (auto simp: selector_Includes_def dom_def)
qed

end
