(* ===== verification/Extract.thy ===== *)
theory Extract
  imports StoreData
begin

text \<open>
  How the agent turns a container into an instance of a service
  (\<open>agent/sync_instances.go\<close>, lines 233 to 405): the labels of a container, the label map and
  the address of the extracted instance. The Docker client's container type is a record of the
  fields the agent reads.
\<close>

section \<open>Containers\<close>

record port_binding =
  HostIP :: string
  HostPort :: string

record docker_container =
  containerID :: string
  cfgImage :: string
  cfgLabels :: label_map
  cfgEnv :: "string list"
  networkMode :: string
  netPorts :: "string \<rightharpoonup> port_binding list"
  netIPAddress :: string

section \<open>Container labels\<close>

definition imageTag :: "string \<Rightarrow> string" where
  "imageTag img =
     (let colon = lastIndex CHR '':'' img in
      if colon = -1 then ''latest'' else drop (nat (colon + 1)) img)"

definition imageName :: "string \<Rightarrow> string" where
  "imageName img =
     (let colon = lastIndex CHR '':'' img in
      if colon = -1 then img else take (nat colon) img)"

text \<open>\<open>keyval[1]\<close> panics on an entry without an equals sign.\<close>

fun envValue :: "string list \<Rightarrow> string \<Rightarrow> string option" where
  "envValue [] key = Some ''''"
| "envValue (entry # env) key =
     (let keyval = split_all CHR ''='' entry in
      if keyval ! 0 = key then (if length keyval > 1 then Some (keyval ! 1) else None)
      else envValue env key)"

definition container_Label :: "docker_container \<Rightarrow> string \<Rightarrow> string option" where
  "container_Label c label =
     (if label = ''image'' then Some (imageName (cfgImage c))
      else if label = ''tag'' then Some (imageTag (cfgImage c))
      else if length label > 4 \<and> take 4 label = ''env.'' then envValue (cfgEnv c) (drop 4 label)
      else Some (case cfgLabels c label of None \<Rightarrow> '''' | Some v \<Rightarrow> v))"

fun add_env_labels :: "string list \<Rightarrow> label_map \<Rightarrow> label_map option" where
  "add_env_labels [] labels = Some labels"
| "add_env_labels (v # vs) labels =
     (let kv = splitN2 CHR ''='' v in
      if length kv > 1 then add_env_labels vs (labels(''env.'' @ kv ! 0 \<mapsto> kv ! 1)) else None)"

section \<open>Addresses\<close>

fun mapped_binding :: "ip \<Rightarrow> port_binding list \<Rightarrow> ipport option" where
  "mapped_binding hostIP [] = None"
| "mapped_binding hostIP (b # bs) =
     (if HostIP b = '''' \<or> HostIP b = ''0.0.0.0'' \<or>
         (case parseIP (HostIP b) of None \<Rightarrow> False | Some a \<Rightarrow> ip_equal a hostIP)
      then (case atoi (HostPort b) of None \<Rightarrow> None | Some p \<Rightarrow> Some (newIPPort hostIP p))
      else mapped_binding hostIP bs)"

definition mappedPortAddress :: "ip \<Rightarrow> docker_container \<Rightarrow> int \<Rightarrow> ipport option" where
  "mappedPortAddress hostIP c port =
     (case netPorts c (itoa port @ ''/tcp'') of
        None \<Rightarrow> None
      | Some bindings \<Rightarrow> mapped_binding hostIP bindings)"

definition fixedPortAddress :: "docker_container \<Rightarrow> int \<Rightarrow> ipport option" where
  "fixedPortAddress c port =
     (case parseIP (netIPAddress c) of None \<Rightarrow> None | Some a \<Rightarrow> Some (newIPPort a port))"

definition extractAddress ::
  "ip \<Rightarrow> string \<Rightarrow> docker_container \<Rightarrow> service_info \<Rightarrow> container_rule \<Rightarrow> ipport option" where
  "extractAddress hostIP network c svc rule =
     (let port = (if ruleInstancePort rule = 0 then InstancePort svc else ruleInstancePort rule) in
      if port = 0 then None
      else if networkMode c = ''host'' then Some (newIPPort hostIP port)
      else if network = ''local'' then mappedPortAddress hostIP c port
      else if network = ''global'' then fixedPortAddress c port
      else None)"

section \<open>Instances\<close>

text \<open>
  \<open>extractInstance\<close>: the outer option is the panic, the inner one the nil result for a rule
  that does not include the container. The \<open>ContainerRule\<close> field is left at its zero value.
\<close>

definition extractInstance ::
  "string ordering \<Rightarrow> string list \<Rightarrow> ip \<Rightarrow> string \<Rightarrow> docker_container \<Rightarrow> service_info
    \<Rightarrow> container_rule \<Rightarrow> inst option option" where
  "extractInstance ord l hostIP network c svc rule =
     (case rule_Includes ord l rule (container_Label c) of
        None \<Rightarrow> None
      | Some False \<Rightarrow> Some None
      | Some True \<Rightarrow>
          (let addr = extractAddress hostIP network c svc rule;
               labels0 = [''tag'' \<mapsto> imageTag (cfgImage c), ''image'' \<mapsto> imageName (cfgImage c)];
               labels1 = labels0 ++ cfgLabels c
           in case add_env_labels (cfgEnv c) labels1 of
                None \<Rightarrow> None
              | Some labels \<Rightarrow>
                  Some (Some \<lparr>instHost = \<lparr>hostAddr = hostIP\<rparr>, instContainerRule = '''',
                              instAddress = addr, instLabels = labels\<rparr>)))"

section \<open>Properties of extraction\<close>

definition env_ok :: "docker_container \<Rightarrow> bool" where
  "env_ok c \<longleftrightarrow> (\<forall>e \<in> set (cfgEnv c). CHR ''='' \<in> set e)"

text \<open>What a rule selects, without reference to an iteration order.\<close>

definition rule_selects :: "docker_container \<Rightarrow> container_rule \<Rightarrow> bool" where
  "rule_selects c rule \<longleftrightarrow> (\<forall>k v. Selector rule k = Some v \<longrightarrow> container_Label c k = Some v)"

lemma split_all_length_sep: "c \<in> set s \<Longrightarrow> length (split_all c s) > 1"
proof (induction s)
  case (Cons x xs)
  then show ?case by (cases "split_all c xs") auto
qed simp

lemma envValue_total:
  assumes "\<forall>e \<in> set env. CHR ''='' \<in> set e"
  shows "\<exists>v. envValue env key = Some v"
  using assms by (induction env) (auto simp: Let_def split_all_length_sep [simplified])

lemma container_Label_total: "env_ok c \<Longrightarrow> \<exists>v. container_Label c k = Some v"
  using envValue_total by (auto simp: container_Label_def env_ok_def)

lemma add_env_labels_total:
  assumes "\<forall>e \<in> set env. CHR ''='' \<in> set e"
  shows "\<exists>m. add_env_labels env labels = Some m"
  using assms by (induction env arbitrary: labels) (auto simp: Let_def length_splitN2)

lemma extractInstance_total:
  assumes "ordering_ok ord" and "finite (dom (Selector rule))" and "env_ok c"
  shows "\<exists>r. extractInstance ord l hostIP network c svc rule = Some r"
proof -
  have "container_Label c k = Some (the (container_Label c k))" for k
    using container_Label_total [OF assms(3), of k] by auto
  then have "\<exists>b. rule_Includes ord l rule (container_Label c) = Some b"
    unfolding rule_Includes_def
    using selector_Includes_total [OF assms(1,2), of "container_Label c" "\<lambda>k. the (container_Label c k)" l]
    by blast
  moreover obtain f where "add_env_labels (cfgEnv c) x = Some (f x)" for x
    using add_env_labels_total assms(3) unfolding env_ok_def by metis
  ultimately show ?thesis
    unfolding extractInstance_def by (auto simp: Let_def split: option.split bool.split)
qed

lemma extractInstance_Some_iff:
  assumes "ordering_ok ord" and "finite (dom (Selector rule))"
    and "extractInstance ord l hostIP network c svc rule = Some r"
  shows "r \<noteq> None \<longleftrightarrow> rule_selects c rule"
proof -
  have "rule_Includes ord l rule (container_Label c) = Some True \<longleftrightarrow> rule_selects c rule"
    using selector_Includes_True [OF assms(1,2)] by (simp add: rule_Includes_def rule_selects_def)
  then show ?thesis
    using assms(3) by (auto simp: extractInstance_def Let_def split: option.splits bool.splits)
qed

definition spec_instance :: "ip \<Rightarrow> string \<Rightarrow> docker_container \<Rightarrow> service_info \<Rightarrow> container_rule \<Rightarrow> inst" where
  "spec_instance hostIP network c svc rule =
     \<lparr>instHost = \<lparr>hostAddr = hostIP\<rparr>, instContainerRule = '''',
      instAddress = extractAddress hostIP network c svc rule,
      instLabels = the (add_env_labels (cfgEnv c)
        ([''tag'' \<mapsto> imageTag (cfgImage c), ''image'' \<mapsto> imageName (cfgImage c)] ++ cfgLabels c))\<rparr>"

lemma extractInstance_spec:
  assumes "ordering_ok ord" and "finite (dom (Selector rule))"
    and "extractInstance ord l hostIP network c svc rule = Some r"
  shows "r = (if rule_selects c rule then Some (spec_instance hostIP network c svc rule) else None)"
proof (cases r)
  case None
  then show ?thesis using extractInstance_Some_iff [OF assms] by simp
next
  case (Some i)
  then have "rule_selects c rule" using extractInstance_Some_iff [OF assms] by simp
  then show ?thesis using assms(3) Some
    by (auto simp: extractInstance_def spec_instance_def Let_def split: option.splits bool.splits)
qed

text \<open>The extracted instance does not depend on the iteration order.\<close>

lemma extractInstance_order:
  assumes "extractInstance ord l hostIP network c svc rule = Some (Some i)"
    and "extractInstance ord' l' hostIP network c svc rule = Some (Some j)"
  shows "i = j"
  using assms by (auto simp: extractInstance_def Let_def split: option.splits bool.splits)

lemma extractInstance_fields:
  assumes "extractInstance ord l hostIP network c svc rule = Some (Some i)"
  shows "hostAddr (instHost i) = hostIP" and "instContainerRule i = ''''"
    and "instAddress i = extractAddress hostIP network c svc rule"
  using assms by (auto simp: extractInstance_def Let_def split: option.splits bool.splits)

lemma imageName_Tag_no_colon: "CHR '':'' \<notin> set s \<Longrightarrow> imageName s = s \<and> imageTag s = ''latest''"
  by (simp add: imageName_def imageTag_def Let_def flip: lastIndex_none)

lemma imageName_Tag_colon:
  "CHR '':'' \<notin> set t \<Longrightarrow> imageName (n @ CHR '':'' # t) = n \<and> imageTag (n @ CHR '':'' # t) = t"
  by (simp add: imageName_def imageTag_def lastIndex_sep nat_add_distrib)

end
