(* ===== verification/SyncInstances.thy ===== *)
theory SyncInstances
  imports Extract
begin

text \<open>
  The agent's matcher (\<open>agent/sync_instances.go\<close>): it holds the known services and the
  known local containers, decides which containers are instances of which services, and emits
  instance updates. Operations follow the methods of \<open>syncInstances\<close> one by one.

  The Go code shares the \<open>instances\<close> maps between the local variables \<open>svc\<close> and \<open>cont\<close> and
  the entries of \<open>si.services\<close> and \<open>si.containers\<close>; here a write goes to the entry of the table.
  A nil table is \<open>None\<close>. The two reset channels have one slot and are sent to without blocking,
  so each is a flag that says whether a signal is pending.
\<close>

section \<open>State\<close>

type_synonym instance_key = "string \<times> string" \<comment> \<open>\<open>InstanceKey{Service, Instance}\<close>\<close>

record instance_update =
  iuInstances :: "instance_key \<rightharpoonup> inst option"
  iuReset :: bool

record container_update =
  cuContainers :: "string \<rightharpoonup> docker_container option"
  cuReset :: bool

record service_entry =
  svName :: string
  svInfo :: service_info
  svInstances :: "string \<rightharpoonup> inst"

record container_entry =
  ctContainer :: docker_container
  ctInstances :: "string set"

record sync_state =
  siHostIP :: ip
  siNetwork :: string
  siServices :: "(string \<rightharpoonup> service_entry) option"
  siContainers :: "(string \<rightharpoonup> container_entry) option"
  siUpdate :: instance_update
  siContainerReset :: bool
  siServiceReset :: bool

definition services_map :: "sync_state \<Rightarrow> string \<rightharpoonup> service_entry" where
  "services_map st = (case siServices st of None \<Rightarrow> Map.empty | Some m \<Rightarrow> m)"

definition containers_map :: "sync_state \<Rightarrow> string \<rightharpoonup> container_entry" where
  "containers_map st = (case siContainers st of None \<Rightarrow> Map.empty | Some m \<Rightarrow> m)"

section \<open>Operations\<close>

definition requestReset :: "sync_state \<Rightarrow> sync_state" where
  "requestReset st = st\<lparr>siContainerReset := True, siServiceReset := True\<rparr>"

definition updateInstance :: "string \<Rightarrow> string \<Rightarrow> inst option \<Rightarrow> sync_state \<Rightarrow> sync_state" where
  "updateInstance svcName instName i st =
     st\<lparr>siUpdate := (siUpdate st)
          \<lparr>iuInstances := (iuInstances (siUpdate st))((svcName, instName) \<mapsto> i)\<rparr>\<rparr>"

text \<open>A write to, or deletion from, the \<open>instances\<close> map of a service or of a container.\<close>

definition put_service_inst :: "string \<Rightarrow> string \<Rightarrow> inst option \<Rightarrow> sync_state \<Rightarrow> sync_state" where
  "put_service_inst svcName cid x st =
     st\<lparr>siServices := map_option (\<lambda>m. case m svcName of None \<Rightarrow> m
        | Some e \<Rightarrow> m(svcName \<mapsto> e\<lparr>svInstances := (svInstances e)(cid := x)\<rparr>)) (siServices st)\<rparr>"

definition put_container_inst :: "string \<Rightarrow> string \<Rightarrow> bool \<Rightarrow> sync_state \<Rightarrow> sync_state" where
  "put_container_inst cid svcName present st =
     st\<lparr>siContainers := map_option (\<lambda>m. case m cid of None \<Rightarrow> m
        | Some e \<Rightarrow> m(cid \<mapsto> e\<lparr>ctInstances :=
            (if present then insert svcName (ctInstances e) else ctInstances e - {svcName})\<rparr>))
        (siContainers st)\<rparr>"

definition attach :: "string \<Rightarrow> string \<Rightarrow> inst \<Rightarrow> sync_state \<Rightarrow> sync_state" where
  "attach svcName cid i st =
     updateInstance svcName cid (Some i)
       (put_container_inst cid svcName True (put_service_inst svcName cid (Some i) st))"

definition addInstances ::
  "string ordering \<Rightarrow> service_entry \<Rightarrow> docker_container \<Rightarrow> sync_state \<Rightarrow> sync_state option" where
  "addInstances ord svc cont st =
     (let rules = ContainerRules (svInfo svc) in
      for_keysM (\<lambda>_. rules)
        (\<lambda>rn rule s.
           case extractInstance ord [''selector'', containerID cont, svName svc, rn]
                  (siHostIP s) (siNetwork s) cont (svInfo svc) rule of
             None \<Rightarrow> None
           | Some None \<Rightarrow> Some s
           | Some (Some i) \<Rightarrow> Some (attach (svName svc) (containerID cont) i s))
        (ord [''rules'', containerID cont, svName svc] (dom rules)) st)"

definition addContainer ::
  "string ordering \<Rightarrow> docker_container \<Rightarrow> sync_state \<Rightarrow> sync_state option" where
  "addContainer ord cont st =
     (case siContainers st of
        None \<Rightarrow> Some st
      | Some cm \<Rightarrow>
          if cm (containerID cont) \<noteq> None then Some st
          else
            let st1 = st\<lparr>siContainers := Some (cm(containerID cont \<mapsto>
                          \<lparr>ctContainer = cont, ctInstances = {}\<rparr>))\<rparr>
            in for_keysM services_map (\<lambda>svcName svc s. addInstances ord svc cont s)
                 (ord [''services'', containerID cont] (dom (services_map st1))) st1)"

definition removeContainer :: "string ordering \<Rightarrow> string \<Rightarrow> sync_state \<Rightarrow> sync_state" where
  "removeContainer ord cid st =
     (case containers_map st cid of
        None \<Rightarrow> st
      | Some cont \<Rightarrow>
          let st1 = st\<lparr>siContainers := map_option (\<lambda>m. m(cid := None)) (siContainers st)\<rparr> in
          if siServices st1 = None then st1
          else fold (\<lambda>svcName s. updateInstance svcName cid None (put_service_inst svcName cid None s))
                 (ord [''instances'', cid] (ctInstances cont)) st1)"

definition clearInstances :: "sync_state \<Rightarrow> sync_state" where
  "clearInstances st =
     st\<lparr>siServices := map_option (\<lambda>m k. map_option (\<lambda>e. e\<lparr>svInstances := Map.empty\<rparr>) (m k)) (siServices st),
        siContainers := map_option (\<lambda>m k. map_option (\<lambda>e. e\<lparr>ctInstances := {}\<rparr>) (m k)) (siContainers st)\<rparr>"

definition set_reset :: "bool \<Rightarrow> sync_state \<Rightarrow> sync_state" where
  "set_reset b st = st\<lparr>siUpdate := (siUpdate st)\<lparr>iuReset := b\<rparr>\<rparr>"

definition processContainerUpdate ::
  "string ordering \<Rightarrow> container_update \<Rightarrow> sync_state \<Rightarrow> sync_state option" where
  "processContainerUpdate ord u st =
     (let st1 = (if cuReset u
                 then let s = clearInstances (st\<lparr>siContainers := Some Map.empty\<rparr>)
                      in set_reset (siServices s \<noteq> None) s
                 else st)
      in for_keysM (\<lambda>_. cuContainers u)
           (\<lambda>cid cont s. case cont of
               Some c \<Rightarrow> addContainer ord c s
             | None \<Rightarrow> Some (removeContainer ord cid s))
           (ord [''update''] (dom (cuContainers u))) st1)"

definition service_instances :: "sync_state \<Rightarrow> string \<Rightarrow> string \<rightharpoonup> inst" where
  "service_instances st svcName =
     (case services_map st svcName of None \<Rightarrow> Map.empty | Some e \<Rightarrow> svInstances e)"

definition updateService ::
  "string ordering \<Rightarrow> string \<Rightarrow> service_info \<Rightarrow> sync_state \<Rightarrow> sync_state option" where
  "updateService ord svcName svcInfo st =
     (case siServices st of
        None \<Rightarrow> Some st
      | Some m \<Rightarrow>
          let svc = \<lparr>svName = svcName, svInfo = svcInfo, svInstances = Map.empty\<rparr>;
              old = service_instances st svcName;
              st1 = st\<lparr>siServices := Some (m(svcName \<mapsto> svc))\<rparr>
          in case for_keysM containers_map (\<lambda>cid cont s. addInstances ord svc (ctContainer cont) s)
                    (ord [''containers'', svcName] (dom (containers_map st1))) st1 of
               None \<Rightarrow> None
             | Some st2 \<Rightarrow>
                 Some (fold (\<lambda>instName s.
                          if service_instances s svcName instName = None
                          then updateInstance svcName instName None s else s)
                        (ord [''old'', svcName] (dom old)) st2))"

definition removeService :: "string ordering \<Rightarrow> string \<Rightarrow> sync_state \<Rightarrow> sync_state" where
  "removeService ord svcName st =
     (case services_map st svcName of
        None \<Rightarrow> st
      | Some svc \<Rightarrow>
          let st1 = st\<lparr>siServices := map_option (\<lambda>m. m(svcName := None)) (siServices st)\<rparr> in
          if siContainers st1 = None then st1
          else fold (\<lambda>cid s. updateInstance svcName cid None (put_container_inst cid svcName False s))
                 (ord [''instances'', svcName] (dom (svInstances svc))) st1)"

definition processServiceUpdate ::
  "string ordering \<Rightarrow> service_update \<Rightarrow> sync_state \<Rightarrow> sync_state option" where
  "processServiceUpdate ord u st =
     (let st1 = (if suReset u
                 then let s = clearInstances (st\<lparr>siServices := Some Map.empty\<rparr>)
                      in set_reset (siContainers s \<noteq> None) s
                 else st)
      in for_keysM (\<lambda>_. suServices u)
           (\<lambda>svcName svcInfo s. case svcInfo of
               Some info \<Rightarrow> updateService ord svcName info s
             | None \<Rightarrow> Some (removeService ord svcName s))
           (ord [''update''] (dom (suServices u))) st1)"

section \<open>The event loop\<close>

datatype sync_event =
    ContainerUpdates container_update
  | ServiceUpdates service_update
  | InstanceUpdatesReset

definition empty_update :: instance_update where
  "empty_update = \<lparr>iuInstances = Map.empty, iuReset = False\<rparr>"

text \<open>The value of \<open>si\<close> when the loop of \<open>start\<close> is entered.\<close>

definition sync_start :: "ip \<Rightarrow> string \<Rightarrow> sync_state" where
  "sync_start hostIP network =
     requestReset \<lparr>siHostIP = hostIP, siNetwork = network, siServices = None, siContainers = None,
        siUpdate = empty_update, siContainerReset = False, siServiceReset = False\<rparr>"

definition handle_event :: "string ordering \<Rightarrow> sync_event \<Rightarrow> sync_state \<Rightarrow> sync_state option" where
  "handle_event ord ev st =
     (case ev of
        ContainerUpdates u \<Rightarrow> processContainerUpdate ord u st
      | ServiceUpdates u \<Rightarrow> processServiceUpdate ord u st
      | InstanceUpdatesReset \<Rightarrow> Some (requestReset (st\<lparr>siServices := None, siContainers := None\<rparr>)))"

text \<open>One iteration of the loop: the new state and the update sent, if one is sent.\<close>

definition sync_step ::
  "string ordering \<Rightarrow> sync_event \<Rightarrow> sync_state \<Rightarrow> (sync_state \<times> instance_update list) option" where
  "sync_step ord ev st =
     (case handle_event ord ev (st\<lparr>siUpdate := empty_update\<rparr>) of
        None \<Rightarrow> None
      | Some s \<Rightarrow>
          if iuInstances (siUpdate s) \<noteq> Map.empty \<or> iuReset (siUpdate s)
          then Some (s\<lparr>siUpdate := (siUpdate s)\<lparr>iuInstances := Map.empty\<rparr>\<rparr>, [siUpdate s])
          else Some (s, []))"

fun sync_run ::
  "(string ordering \<times> sync_event) list \<Rightarrow> sync_state \<Rightarrow> (sync_state \<times> instance_update list) option" where
  "sync_run [] st = Some (st, [])"
| "sync_run ((ord, ev) # evs) st =
     (case sync_step ord ev st of
        None \<Rightarrow> None
      | Some (st', out) \<Rightarrow>
          (case sync_run evs st' of
             None \<Rightarrow> None
           | Some (st'', outs) \<Rightarrow> Some (st'', out @ outs)))"

section \<open>Views of the state\<close>

text \<open>
  What the rest of the system sees of the state: the table of services without their instances,
  the containers, the back links from containers to services, and the instances as one map from
  instance keys. \<open>apply_update\<close> is the promise of an instance update to its consumer: a reset
  replaces the consumer's view, and a nil entry removes an instance.
\<close>

definition infos :: "sync_state \<Rightarrow> string \<rightharpoonup> service_info" where
  "infos st s = map_option svInfo (services_map st s)"

definition conts :: "sync_state \<Rightarrow> string \<rightharpoonup> docker_container" where
  "conts st c = map_option ctContainer (containers_map st c)"

definition linked :: "sync_state \<Rightarrow> string \<Rightarrow> string \<Rightarrow> bool" where
  "linked st s c \<longleftrightarrow> (case containers_map st c of None \<Rightarrow> False | Some e \<Rightarrow> s \<in> ctInstances e)"

definition inst_view :: "sync_state \<Rightarrow> instance_key \<rightharpoonup> inst" where
  "inst_view st k = service_instances st (fst k) (snd k)"

definition apply_update :: "(instance_key \<rightharpoonup> inst) \<Rightarrow> instance_update \<Rightarrow> instance_key \<rightharpoonup> inst" where
  "apply_update v u k =
     (case iuInstances u k of Some x \<Rightarrow> x | None \<Rightarrow> if iuReset u then None else v k)"

named_theorems sync_simps

lemmas sync_defs = services_map_def containers_map_def infos_def conts_def linked_def
  service_instances_def inst_view_def

lemma updateInstance_simps [sync_simps]:
  "siServices (updateInstance s c x st) = siServices st"
  "siContainers (updateInstance s c x st) = siContainers st"
  "siHostIP (updateInstance s c x st) = siHostIP st"
  "siNetwork (updateInstance s c x st) = siNetwork st"
  "iuReset (siUpdate (updateInstance s c x st)) = iuReset (siUpdate st)"
  "iuInstances (siUpdate (updateInstance s c x st)) = (iuInstances (siUpdate st))((s, c) \<mapsto> x)"
  "services_map (updateInstance s c x st) = services_map st"
  "containers_map (updateInstance s c x st) = containers_map st"
  "infos (updateInstance s c x st) = infos st"
  "conts (updateInstance s c x st) = conts st"
  "linked (updateInstance s c x st) = linked st"
  "inst_view (updateInstance s c x st) = inst_view st"
  "service_instances (updateInstance s c x st) = service_instances st"
  by (simp_all add: updateInstance_def sync_defs fun_eq_iff)

lemma put_service_inst_simps [sync_simps]:
  "siServices (put_service_inst s c x st) = None \<longleftrightarrow> siServices st = None"
  "siContainers (put_service_inst s c x st) = siContainers st"
  "siHostIP (put_service_inst s c x st) = siHostIP st"
  "siNetwork (put_service_inst s c x st) = siNetwork st"
  "siUpdate (put_service_inst s c x st) = siUpdate st"
  "containers_map (put_service_inst s c x st) = containers_map st"
  "infos (put_service_inst s c x st) = infos st"
  "conts (put_service_inst s c x st) = conts st"
  "linked (put_service_inst s c x st) = linked st"
  "services_map (put_service_inst s c x st) =
     (case services_map st s of None \<Rightarrow> services_map st
      | Some e \<Rightarrow> (services_map st)(s \<mapsto> e\<lparr>svInstances := (svInstances e)(c := x)\<rparr>))"
  by (auto simp: put_service_inst_def sync_defs fun_eq_iff split: option.split)

lemma inst_view_put_service [sync_simps]:
  "inst_view (put_service_inst s c x st) =
     (if infos st s = None then inst_view st else (inst_view st)((s, c) := x))"
  by (auto simp: put_service_inst_def sync_defs fun_eq_iff split: option.split)

lemma put_container_inst_simps [sync_simps]:
  "siContainers (put_container_inst c s b st) = None \<longleftrightarrow> siContainers st = None"
  "siServices (put_container_inst c s b st) = siServices st"
  "siHostIP (put_container_inst c s b st) = siHostIP st"
  "siNetwork (put_container_inst c s b st) = siNetwork st"
  "siUpdate (put_container_inst c s b st) = siUpdate st"
  "services_map (put_container_inst c s b st) = services_map st"
  "infos (put_container_inst c s b st) = infos st"
  "conts (put_container_inst c s b st) = conts st"
  "inst_view (put_container_inst c s b st) = inst_view st"
  "linked (put_container_inst c s b st) s' c' \<longleftrightarrow>
     (if s' = s \<and> c' = c \<and> conts st c \<noteq> None then b else linked st s' c')"
  "containers_map (put_container_inst c s b st) =
     (case containers_map st c of None \<Rightarrow> containers_map st
      | Some e \<Rightarrow> (containers_map st)(c \<mapsto> e\<lparr>ctInstances :=
          (if b then insert s (ctInstances e) else ctInstances e - {s})\<rparr>))"
  by (auto simp: put_container_inst_def sync_defs fun_eq_iff split: option.split)

lemma attach_simps [sync_simps]:
  "siServices (attach s c i st) = None \<longleftrightarrow> siServices st = None"
  "siContainers (attach s c i st) = None \<longleftrightarrow> siContainers st = None"
  "siHostIP (attach s c i st) = siHostIP st"
  "siNetwork (attach s c i st) = siNetwork st"
  "iuReset (siUpdate (attach s c i st)) = iuReset (siUpdate st)"
  "iuInstances (siUpdate (attach s c i st)) = (iuInstances (siUpdate st))((s, c) \<mapsto> Some i)"
  "infos (attach s c i st) = infos st"
  "conts (attach s c i st) = conts st"
  "linked (attach s c i st) s' c' \<longleftrightarrow> (s' = s \<and> c' = c \<and> conts st c \<noteq> None) \<or> linked st s' c'"
  "infos st s \<noteq> None \<Longrightarrow> inst_view (attach s c i st) = (inst_view st)((s, c) \<mapsto> i)"
  by (auto simp: attach_def sync_simps split: if_splits)

lemma attach_attach [sync_simps]: "attach s c j (attach s c i st) = attach s c j st"
  by (cases "siServices st"; cases "siContainers st")
    (auto simp: attach_def updateInstance_def put_service_inst_def put_container_inst_def
      fun_eq_iff split: option.split)

end
