(* ===== verification/SyncCorrect.thy ===== *)
theory SyncCorrect
  imports SyncInstances
begin

text \<open>
  Correctness of the matcher: the invariant of its tables, what each operation does to the view
  of instances, and that the stream of emitted updates keeps a consumer's view equal to it.
\<close>

section \<open>The invariant\<close>

definition info_ok :: "service_info \<Rightarrow> bool" where
  "info_ok info \<longleftrightarrow> finite (dom (ContainerRules info)) \<and>
     (\<forall>r rule. ContainerRules info r = Some rule \<longrightarrow> finite (dom (Selector rule)))"

text \<open>The pairs some rule selects, and the instance a selecting rule may give.\<close>

definition selected :: "sync_state \<Rightarrow> string \<Rightarrow> string \<Rightarrow> bool" where
  "selected st s c \<longleftrightarrow> (\<exists>info cont r rule. infos st s = Some info \<and> conts st c = Some cont \<and>
     ContainerRules info r = Some rule \<and> rule_selects cont rule)"

definition candidate :: "sync_state \<Rightarrow> string \<Rightarrow> string \<Rightarrow> inst \<Rightarrow> bool" where
  "candidate st s c i \<longleftrightarrow> (\<exists>info cont r rule. infos st s = Some info \<and> conts st c = Some cont \<and>
     ContainerRules info r = Some rule \<and> rule_selects cont rule \<and>
     i = spec_instance (siHostIP st) (siNetwork st) cont info rule)"

definition services_ok :: "sync_state \<Rightarrow> bool" where
  "services_ok st \<longleftrightarrow> (\<forall>s e. services_map st s = Some e \<longrightarrow>
     svName e = s \<and> info_ok (svInfo e) \<and> finite (dom (svInstances e)))"

definition containers_ok :: "sync_state \<Rightarrow> bool" where
  "containers_ok st \<longleftrightarrow> (\<forall>c e. containers_map st c = Some e \<longrightarrow>
     containerID (ctContainer e) = c \<and> finite (ctInstances e))"

text \<open>
  The tables are finite and keyed by name, every instance is linked from its container and comes
  from a rule that selects it, and every selected pair outside \<open>X\<close> has an instance. Between the
  steps of an operation \<open>X\<close> holds the pairs still to be looked at.
\<close>

definition sync_inv :: "instance_key set \<Rightarrow> sync_state \<Rightarrow> bool" where
  "sync_inv X st \<longleftrightarrow>
     finite (dom (infos st)) \<and> finite (dom (conts st)) \<and> services_ok st \<and> containers_ok st \<and>
     (\<forall>s c i. inst_view st (s, c) = Some i \<longrightarrow> linked st s c \<and> candidate st s c i) \<and>
     (\<forall>s c. (s, c) \<notin> X \<longrightarrow> selected st s c \<longrightarrow> inst_view st (s, c) \<noteq> None)"

definition tracked :: "instance_key set \<Rightarrow> (instance_key \<rightharpoonup> inst) \<Rightarrow> sync_state \<Rightarrow> bool" where
  "tracked Y v st \<longleftrightarrow> (\<forall>k. (k \<notin> Y \<or> inst_view st k \<noteq> None) \<longrightarrow>
     apply_update v (siUpdate st) k = inst_view st k)"

lemma trackedD: "tracked Y v st \<Longrightarrow> k \<notin> Y \<Longrightarrow> apply_update v (siUpdate st) k = inst_view st k"
  by (simp only: tracked_def) blast

lemma trackedI:
  "(\<And>k. k \<notin> Y \<or> inst_view st k \<noteq> None \<Longrightarrow> apply_update v (siUpdate st) k = inst_view st k)
    \<Longrightarrow> tracked Y v st"
  by (simp only: tracked_def) blast

lemma sync_inv_services:
  assumes "sync_inv X st" and "services_map st s = Some e"
  shows "svName e = s" and "info_ok (svInfo e)" and "finite (dom (svInstances e))"
  using assms by (auto simp: sync_inv_def services_ok_def)

lemma sync_inv_containers:
  assumes "sync_inv X st" and "containers_map st c = Some e"
  shows "containerID (ctContainer e) = c" and "finite (ctInstances e)"
  using assms by (auto simp: sync_inv_def containers_ok_def)

lemma sync_inv_linked:
  assumes "sync_inv X st" and "inst_view st (s, c) = Some i"
  shows "\<exists>e. containers_map st c = Some e \<and> s \<in> ctInstances e"
proof -
  have "linked st s c" using assms by (simp add: sync_inv_def)
  then show ?thesis by (simp add: linked_def split: option.splits)
qed

lemma sync_inv_mono: "sync_inv X st \<Longrightarrow> X \<subseteq> Y \<Longrightarrow> sync_inv Y st"
  unfolding sync_inv_def by blast

lemma dom_infos: "dom (infos st) = dom (services_map st)"
  by (auto simp: infos_def dom_def)

lemma dom_conts: "dom (conts st) = dom (containers_map st)"
  by (auto simp: conts_def dom_def)

section \<open>Matching one container against one service\<close>

lemma addInstances_result:
  assumes "ordering_ok ord" and "info_ok (svInfo svc)"
    and "addInstances ord svc cont st = Some st'"
  shows "(st' = st \<and> (\<forall>r rule. ContainerRules (svInfo svc) r = Some rule \<longrightarrow> \<not> rule_selects cont rule)) \<or>
    (\<exists>r rule. ContainerRules (svInfo svc) r = Some rule \<and> rule_selects cont rule \<and>
       st' = attach (svName svc) (containerID cont)
               (spec_instance (siHostIP st) (siNetwork st) cont (svInfo svc) rule) st)"
    (is "?none st' \<or> ?some st'")
proof -
  let ?rules = "ContainerRules (svInfo svc)"
  let ?P = "\<lambda>D s'. (s' = st \<and> (\<forall>r \<in> D. \<forall>rule. ?rules r = Some rule \<longrightarrow> \<not> rule_selects cont rule)) \<or> ?some s'"
  have fin: "finite (dom ?rules)" and sel: "?rules r = Some rule \<Longrightarrow> finite (dom (Selector rule))" for r rule
    using assms(2) by (auto simp: info_ok_def)
  have "?P (set (ord [''rules'', containerID cont, svName svc] (dom ?rules))) st'"
  proof (rule for_keysM_visited [OF assms(3) [unfolded addInstances_def Let_def]])
    fix r rule s s' D
    assume P: "?P D s" and r: "?rules r = Some rule"
      and step: "(case extractInstance ord [''selector'', containerID cont, svName svc, r]
          (siHostIP s) (siNetwork s) cont (svInfo svc) rule of
          None \<Rightarrow> None | Some None \<Rightarrow> Some s
        | Some (Some i) \<Rightarrow> Some (attach (svName svc) (containerID cont) i s)) = Some s'"
    obtain x where x: "extractInstance ord [''selector'', containerID cont, svName svc, r]
          (siHostIP s) (siNetwork s) cont (svInfo svc) rule = Some x"
      using step by (auto split: option.splits)
    have "siHostIP s = siHostIP st" "siNetwork s = siNetwork st"
      using P by (auto simp: sync_simps)
    then have "x = (if rule_selects cont rule
        then Some (spec_instance (siHostIP st) (siNetwork st) cont (svInfo svc) rule) else None)"
      using extractInstance_spec [OF assms(1) sel [OF r] x] by simp
    moreover have "attach (svName svc) (containerID cont) i s = attach (svName svc) (containerID cont) i st" for i
      using P by (auto simp: sync_simps)
    ultimately have "rule_selects cont rule \<and> s' = attach (svName svc) (containerID cont)
        (spec_instance (siHostIP st) (siNetwork st) cont (svInfo svc) rule) st
      \<or> \<not> rule_selects cont rule \<and> s' = s"
      using step x by (auto split: if_splits)
    then show "?P (insert r D) s'"
      using P r by (metis insert_iff option.inject)
  qed (use assms(1) fin in auto)
  then show ?thesis using assms(1) fin by auto
qed

lemma addInstances_total:
  assumes "ordering_ok ord" and "info_ok (svInfo svc)" and "env_ok cont"
  shows "\<exists>st'. addInstances ord svc cont st = Some st'"
proof -
  have "\<exists>s'. (case extractInstance ord l h n cont (svInfo svc) rule of
          None \<Rightarrow> None | Some None \<Rightarrow> Some s | Some (Some i) \<Rightarrow> Some (f i s)) = Some (s'::sync_state)"
    if "ContainerRules (svInfo svc) r = Some rule" for l h n r rule s f
  proof -
    have "finite (dom (Selector rule))" using assms(2) that by (auto simp: info_ok_def)
    from extractInstance_total [OF assms(1) this assms(3)] show ?thesis
      by (fastforce split: option.splits)
  qed
  then have "\<exists>s'. for_keysM (\<lambda>_. ContainerRules (svInfo svc))
      (\<lambda>r rule s. case extractInstance ord (l r) (siHostIP s) (siNetwork s) cont (svInfo svc) rule of
          None \<Rightarrow> None | Some None \<Rightarrow> Some s | Some (Some i) \<Rightarrow> Some (f i s)) ks st = Some s' \<and> True"
    for l f ks
    by (intro for_keysM_total) simp_all
  then show ?thesis
    unfolding addInstances_def Let_def by simp
qed

section \<open>Each operation keeps the invariant and tracks the view\<close>

text \<open>What no matching step changes.\<close>

definition same_tables :: "sync_state \<Rightarrow> sync_state \<Rightarrow> bool" where
  "same_tables st st' \<longleftrightarrow> infos st' = infos st \<and> conts st' = conts st \<and>
     siHostIP st' = siHostIP st \<and> siNetwork st' = siNetwork st \<and>
     iuReset (siUpdate st') = iuReset (siUpdate st) \<and>
     (siServices st' = None \<longleftrightarrow> siServices st = None) \<and>
     (siContainers st' = None \<longleftrightarrow> siContainers st = None)"

lemma same_tables_refl [simp]: "same_tables st st"
  by (simp add: same_tables_def)

lemma same_tables_trans: "same_tables a b \<Longrightarrow> same_tables b c \<Longrightarrow> same_tables a c"
  by (simp add: same_tables_def)

lemma same_tables_attach [simp]: "same_tables st (attach s c i st)"
  by (simp add: same_tables_def sync_simps)

lemma selected_same: "same_tables st st' \<Longrightarrow> selected st' = selected st"
  by (simp add: same_tables_def selected_def fun_eq_iff)

lemma candidate_same: "same_tables st st' \<Longrightarrow> candidate st' = candidate st"
  by (simp add: same_tables_def candidate_def fun_eq_iff)

lemma services_ok_put [simp]: "services_ok st \<Longrightarrow> services_ok (put_service_inst s c x st)"
  by (auto simp: services_ok_def sync_simps split: option.splits if_splits)

lemma services_ok_frame [simp]:
  "services_ok (updateInstance s c x st) = services_ok st"
  "services_ok (put_container_inst c s b st) = services_ok st"
  by (simp_all add: services_ok_def sync_simps)

lemma containers_ok_put [simp]: "containers_ok st \<Longrightarrow> containers_ok (put_container_inst c s b st)"
  by (auto simp: containers_ok_def sync_simps split: option.splits if_splits)

lemma containers_ok_frame [simp]:
  "containers_ok (updateInstance s c x st) = containers_ok st"
  "containers_ok (put_service_inst s c x st) = containers_ok st"
  by (simp_all add: containers_ok_def sync_simps)

lemma sync_inv_attach:
  assumes "sync_inv X st" and "candidate st s c i"
  shows "sync_inv (X - {(s, c)}) (attach s c i st)"
proof -
  have sc: "infos st s \<noteq> None" "conts st c \<noteq> None"
    using assms(2) by (auto simp: candidate_def)
  have "services_ok (attach s c i st)" "containers_ok (attach s c i st)"
    using assms(1) by (simp_all add: sync_inv_def attach_def)
  then show ?thesis
    using assms sc selected_same [OF same_tables_attach] candidate_same [OF same_tables_attach]
    by (auto simp: sync_inv_def sync_simps)
qed

lemma apply_update_upd:
  assumes "iuInstances u' = (iuInstances u)(k \<mapsto> x)" and "iuReset u' = iuReset u"
  shows "apply_update v u' = (apply_update v u)(k := x)"
  using assms by (auto simp: apply_update_def fun_eq_iff)

lemma tracked_attach:
  assumes "tracked Y v st" and "infos st s \<noteq> None"
  shows "tracked Y v (attach s c i st)"
proof -
  have "apply_update v (siUpdate (attach s c i st)) = (apply_update v (siUpdate st))((s, c) := Some i)"
    by (rule apply_update_upd) (simp_all add: sync_simps)
  then show ?thesis using assms by (auto simp: tracked_def sync_simps)
qed

text \<open>Matching a known container against a known service.\<close>

lemma addInstances_inv:
  assumes ord: "ordering_ok ord" and inv: "sync_inv X st" and tr: "tracked Y v st"
    and svc: "infos st (svName svc) = Some (svInfo svc)" and cont: "conts st (containerID cont) = Some cont"
    and step: "addInstances ord svc cont st = Some st'"
  shows "sync_inv (X - {(svName svc, containerID cont)}) st' \<and> tracked Y v st' \<and> same_tables st st' \<and>
    (\<forall>k. k \<noteq> (svName svc, containerID cont) \<longrightarrow> inst_view st' k = inst_view st k)"
proof -
  let ?k = "(svName svc, containerID cont)"
  have ok: "info_ok (svInfo svc)"
    using inv svc unfolding sync_inv_def services_ok_def infos_def
    by (metis map_option_eq_Some)
  from addInstances_result [OF ord ok step] show ?thesis
  proof
    assume "st' = st \<and> (\<forall>r rule. ContainerRules (svInfo svc) r = Some rule \<longrightarrow> \<not> rule_selects cont rule)"
    moreover from this have "\<not> selected st (svName svc) (containerID cont)"
      using svc cont by (auto simp: selected_def)
    ultimately show ?thesis using inv tr by (auto simp: sync_inv_def)
  next
    assume "\<exists>r rule. ContainerRules (svInfo svc) r = Some rule \<and> rule_selects cont rule \<and>
       st' = attach (svName svc) (containerID cont)
               (spec_instance (siHostIP st) (siNetwork st) cont (svInfo svc) rule) st"
    then obtain i where i: "candidate st (svName svc) (containerID cont) i"
      and st': "st' = attach (svName svc) (containerID cont) i st"
      using svc cont by (auto simp: candidate_def)
    then show ?thesis
      using sync_inv_attach [OF inv i] tracked_attach [OF tr] svc by (auto simp: sync_simps)
  qed
qed

text \<open>Adding a container: every service is looked at, so no pair is left over.\<close>

text \<open>A new container: its entry without links, then the instances of the services that select it.\<close>

lemma added_container:
  assumes inv: "sync_inv {} st" and tr: "tracked {} v st" and Some: "siContainers st = Some cm"
    and new: "cm (containerID cont) = None"
  defines "st1 \<equiv> st\<lparr>siContainers := Some (cm(containerID cont \<mapsto> \<lparr>ctContainer = cont, ctInstances = {}\<rparr>))\<rparr>"
  shows "sync_inv (UNIV \<times> {containerID cont}) st1" and "tracked {} v st1"
    and "conts st1 = (conts st)(containerID cont \<mapsto> cont)" and "infos st1 = infos st"
    and "siHostIP st1 = siHostIP st" and "siNetwork st1 = siNetwork st" and "siUpdate st1 = siUpdate st"
    and "siServices st1 = siServices st" and "siContainers st1 \<noteq> None"
proof -
  let ?id = "containerID cont"
  have cm: "containers_map st = cm" using Some by (simp add: containers_map_def)
  show v1: "infos st1 = infos st" "siHostIP st1 = siHostIP st" "siNetwork st1 = siNetwork st"
    "siUpdate st1 = siUpdate st" "siServices st1 = siServices st" "siContainers st1 \<noteq> None"
    by (simp_all add: st1_def sync_defs fun_eq_iff)
  have v2: "services_map st1 = services_map st" "inst_view st1 = inst_view st"
    by (simp_all add: st1_def sync_defs fun_eq_iff)
  show c1: "conts st1 = (conts st)(?id \<mapsto> cont)"
    using cm by (auto simp: st1_def conts_def containers_map_def fun_eq_iff)
  have l1: "linked st1 s c = linked st s c" for s c
    using cm new by (auto simp: st1_def linked_def containers_map_def split: option.split)
  have nolink: "inst_view st (s, ?id) = None" for s
    using sync_inv_linked [OF inv] new cm by (cases "inst_view st (s, ?id)") fastforce+
  have "containers_ok st1"
    using inv cm by (auto simp: sync_inv_def containers_ok_def st1_def containers_map_def)
  moreover have "candidate st1 s c i" if i: "inst_view st (s, c) = Some i" for s c i
  proof -
    from i nolink have "c \<noteq> ?id" by (metis option.distinct(1))
    with i inv show ?thesis by (auto simp: sync_inv_def candidate_def v1 v2 c1)
  qed
  ultimately show "sync_inv (UNIV \<times> {?id}) st1"
    using inv by (auto simp: sync_inv_def v1 v2 c1 l1 services_ok_def selected_def split: if_splits)
  show "tracked {} v st1" using tr by (simp add: tracked_def v1 v2)
qed

lemma container_visits_services:
  assumes ord: "ordering_ok ord" and inv: "sync_inv (UNIV \<times> {containerID cont}) st" and tr: "tracked X v st"
    and cont: "conts st (containerID cont) = Some cont"
    and loop: "for_keysM services_map (\<lambda>svcName svc t. addInstances ord svc cont t)
        (ord p (dom (services_map st))) st = Some st'"
  shows "sync_inv {} st' \<and> tracked X v st' \<and> same_tables st st'"
proof -
  let ?id = "containerID cont" and ?ks = "ord p (dom (services_map st))"
  let ?P = "\<lambda>D t. sync_inv ((UNIV - D) \<times> {?id}) t \<and> tracked X v t \<and> same_tables st t"
  have dom_eq: "dom (services_map t) = dom (services_map st)" if "same_tables st t" for t
    using that by (simp add: same_tables_def flip: dom_infos)
  have fin: "finite (dom (services_map st))"
    using inv by (simp add: sync_inv_def flip: dom_infos)
  have "?P (set ?ks) st'"
  proof (rule for_keysM_visited [OF loop])
    show "?P {} st" using inv tr by simp
  next
    fix k svc t t' D
    assume P: "?P D t" and svc: "services_map t k = Some svc" and st: "addInstances ord svc cont t = Some t'"
    have name: "svName svc = k" using P svc sync_inv_services(1) by blast
    have "infos t k = Some (svInfo svc)" using svc by (simp add: infos_def)
    moreover have "conts t ?id = Some cont" using P cont by (simp add: same_tables_def)
    ultimately have "sync_inv ((UNIV - D) \<times> {?id} - {(k, ?id)}) t' \<and> tracked X v t' \<and> same_tables t t'"
      using addInstances_inv [OF ord _ _ _ _ st] P name by metis
    moreover have "(UNIV - D) \<times> {?id} - {(k, ?id)} = (UNIV - insert k D) \<times> {?id}" by auto
    ultimately show "?P (insert k D) t'" using P same_tables_trans by metis
  next
    fix k t D
    assume "?P D t" and "k \<in> set ?ks" and "services_map t k = None"
    then show "?P (insert k D) t" using dom_eq [of t] ord fin by (metis domIff ordering_okD(2))
  qed (use ord fin in simp)
  moreover from this have "set ?ks = dom (infos st')"
    using ord fin dom_eq [of st'] by (simp add: dom_infos)
  ultimately have P: "sync_inv ((UNIV - dom (infos st')) \<times> {?id}) st'" "tracked X v st'" "same_tables st st'"
    by (simp_all only:)
  have "s \<in> dom (infos st')" if "selected st' s c" for s c
    using that by (auto simp: selected_def)
  then show ?thesis using P by (simp add: sync_inv_def)
qed

lemma addContainer_inv:
  assumes ord: "ordering_ok ord" and inv: "sync_inv {} st" and tr: "tracked {} v st"
    and step: "addContainer ord cont st = Some st'"
  shows "sync_inv {} st' \<and> tracked {} v st' \<and> infos st' = infos st \<and>
    siHostIP st' = siHostIP st \<and> siNetwork st' = siNetwork st \<and>
    iuReset (siUpdate st') = iuReset (siUpdate st) \<and>
    (siServices st' = None \<longleftrightarrow> siServices st = None) \<and>
    (siContainers st' = None \<longleftrightarrow> siContainers st = None) \<and>
    conts st' = (if siContainers st = None \<or> conts st (containerID cont) \<noteq> None then conts st
                 else (conts st)(containerID cont \<mapsto> cont))"
proof (cases "siContainers st")
  case None
  then show ?thesis using step inv tr by (simp add: addContainer_def)
next
  case (Some cm)
  let ?id = "containerID cont"
  have cm: "containers_map st = cm" using Some by (simp add: containers_map_def)
  show ?thesis
  proof (cases "cm ?id")
    case (Some e)
    then show ?thesis using step inv tr \<open>siContainers st = Some cm\<close> cm
      by (auto simp: addContainer_def conts_def)
  next
    case new: None
    define st1 where "st1 = st\<lparr>siContainers := Some (cm(?id \<mapsto> \<lparr>ctContainer = cont, ctInstances = {}\<rparr>))\<rparr>"
    have step1: "for_keysM services_map (\<lambda>svcName svc s. addInstances ord svc cont s)
        (ord [''services'', ?id] (dom (services_map st1))) st1 = Some st'"
      using step new Some by (simp add: addContainer_def st1_def Let_def)
    note a = added_container [OF inv tr Some new, folded st1_def]
    have "sync_inv {} st' \<and> tracked {} v st' \<and> same_tables st1 st'"
      using container_visits_services [OF ord a(1,2) _ step1] a(3) by simp
    moreover have "conts st ?id = None" using new cm by (simp add: conts_def)
    ultimately show ?thesis
      unfolding same_tables_def a(3-8) using a(9) Some by clarsimp
  qed
qed

text \<open>Removing a container: every linked service loses its instance.\<close>

lemma fold_detach_services:
  fixes ks :: "string list" and cid :: string
  defines "d \<equiv> fold (\<lambda>s st. updateInstance s cid None (put_service_inst s cid None st)) ks"
  shows "same_tables st (d st)" and "linked (d st) = linked st"
    and "inst_view (d st) = (\<lambda>k. if snd k = cid \<and> fst k \<in> set ks then None else inst_view st k)"
    and "iuInstances (siUpdate (d st)) =
       (\<lambda>k. if snd k = cid \<and> fst k \<in> set ks then Some None else iuInstances (siUpdate st) k)"
    and "services_ok st \<Longrightarrow> services_ok (d st)" and "containers_ok st \<Longrightarrow> containers_ok (d st)"
proof -
  have none: "infos st s = None \<Longrightarrow> inst_view st (s, c) = None" for s c and st :: sync_state
    by (simp add: infos_def inst_view_def service_instances_def)
  show "same_tables st (d st)" unfolding d_def
    by (induction ks arbitrary: st) (auto simp: same_tables_def sync_simps)
  show "linked (d st) = linked st" unfolding d_def
    by (induction ks arbitrary: st) (auto simp: sync_simps)
  show "inst_view (d st) = (\<lambda>k. if snd k = cid \<and> fst k \<in> set ks then None else inst_view st k)"
    unfolding d_def by (induction ks arbitrary: st) (auto simp: sync_simps fun_eq_iff none)
  show "iuInstances (siUpdate (d st)) =
       (\<lambda>k. if snd k = cid \<and> fst k \<in> set ks then Some None else iuInstances (siUpdate st) k)"
    unfolding d_def by (induction ks arbitrary: st) (auto simp: sync_simps fun_eq_iff)
  show "services_ok st \<Longrightarrow> services_ok (d st)" unfolding d_def
    by (induction ks arbitrary: st) (auto simp: sync_simps)
  show "containers_ok st \<Longrightarrow> containers_ok (d st)" unfolding d_def
    by (induction ks arbitrary: st) (auto simp: sync_simps)
qed

lemma removeContainer_inv:
  fixes cid :: string
  assumes ord: "ordering_ok ord" and inv: "sync_inv {} st" and tr: "tracked {} v st"
  defines "st' \<equiv> removeContainer ord cid st"
  shows "sync_inv {} st' \<and> tracked {} v st' \<and> infos st' = infos st \<and>
    conts st' = (conts st)(cid := None) \<and> siHostIP st' = siHostIP st \<and> siNetwork st' = siNetwork st \<and>
    iuReset (siUpdate st') = iuReset (siUpdate st) \<and>
    (siServices st' = None \<longleftrightarrow> siServices st = None) \<and>
    (siContainers st' = None \<longleftrightarrow> siContainers st = None)"
proof (cases "containers_map st cid")
  case None
  then have "(conts st)(cid := None) = conts st" by (auto simp: conts_def fun_eq_iff)
  then show ?thesis using None inv tr by (simp add: st'_def removeContainer_def)
next
  case (Some e)
  let ?ks = "ord [''instances'', cid] (ctInstances e)"
  define st1 where "st1 = st\<lparr>siContainers := map_option (\<lambda>m. m(cid := None)) (siContainers st)\<rparr>"
  have ks: "set ?ks = ctInstances e" using sync_inv_containers(2) [OF inv Some] ord by simp
  have v1: "services_map st1 = services_map st" "infos st1 = infos st" "inst_view st1 = inst_view st"
      "siUpdate st1 = siUpdate st" "siHostIP st1 = siHostIP st" "siNetwork st1 = siNetwork st"
      "siServices st1 = siServices st" "siContainers st1 = None \<longleftrightarrow> siContainers st = None"
    by (simp_all add: st1_def sync_defs fun_eq_iff)
  have c1: "containers_map st1 = (containers_map st)(cid := None)"
    by (auto simp: st1_def containers_map_def fun_eq_iff split: option.split)
  then have c1': "conts st1 = (conts st)(cid := None)"
    "linked st1 s c \<longleftrightarrow> c \<noteq> cid \<and> linked st s c" for s c
    by (auto simp: conts_def linked_def fun_eq_iff)
  have ok1: "services_ok st1" "containers_ok st1"
    using inv by (auto simp: sync_inv_def services_ok_def containers_ok_def v1 c1)
  have on_id: "s \<in> ctInstances e" if "inst_view st (s, cid) = Some i" for s i
    using sync_inv_linked [OF inv that] Some by auto
  define d where "d = fold (\<lambda>s st. updateInstance s cid None (put_service_inst s cid None st)) ?ks"
  note f = fold_detach_services [where ks = ?ks and cid = cid, folded d_def]
  have st': "st' = (if siServices st1 = None then st1 else d st1)"
    using Some by (simp add: st'_def removeContainer_def st1_def d_def Let_def)
  have view: "inst_view st' = (\<lambda>k. if snd k = cid then None else inst_view st k)"
  proof
    fix k
    have "fst k \<in> ctInstances e" if "inst_view st k = Some i" "snd k = cid" for i
      using on_id [of "fst k" i] that by auto
    moreover have "inst_view st k = None" if "siServices st1 = None"
      using that by (simp add: inst_view_def service_instances_def services_map_def v1)
    ultimately show "inst_view st' k = (if snd k = cid then None else inst_view st k)"
      using st' f(3) [of st1] ks v1(3) by (cases "inst_view st k") auto
  qed
  have same: "same_tables st1 st'" "linked st' = linked st1" "services_ok st'" "containers_ok st'"
    using st' f ok1 by auto
  have "finite (dom (conts st'))" "finite (dom (infos st'))"
    using inv same(1) by (auto simp: sync_inv_def same_tables_def c1' v1)
  moreover have "candidate st' s c i" if "inst_view st' (s, c) = Some i" for s c i
    using that inv same(1) view by (auto simp: sync_inv_def same_tables_def candidate_def c1' v1 split: if_splits)
  moreover have "inst_view st' (s, c) \<noteq> None" if "selected st' s c" for s c
    using that inv same(1) view
    by (auto simp: sync_inv_def same_tables_def selected_def c1' v1 split: if_splits)
  moreover have "linked st' s c" if "inst_view st' (s, c) = Some i" for s c i
    using that inv same(2) view by (auto simp: sync_inv_def c1' split: if_splits)
  ultimately have "sync_inv {} st'" using same by (simp add: sync_inv_def)
  moreover have "tracked {} v st'"
  proof -
    have "apply_update v (siUpdate st') k = inst_view st' k" for k
    proof (cases "siServices st1 = None")
      case True
      then have "inst_view st k = None" by (simp add: inst_view_def service_instances_def services_map_def v1)
      moreover from this have "apply_update v (siUpdate st) k = None" using trackedD [OF tr] by simp
      ultimately show ?thesis using True st' view v1(4) by simp
    next
      case False
      then have st'd: "st' = d st1" using st' by (simp only: if_False)
      have "apply_update v (siUpdate st) k = inst_view st k" using trackedD [OF tr] by simp
      moreover have "inst_view st' k = (if snd k = cid \<and> fst k \<in> ctInstances e then None else inst_view st k)"
        "iuInstances (siUpdate st') k =
           (if snd k = cid \<and> fst k \<in> ctInstances e then Some None else iuInstances (siUpdate st) k)"
        unfolding st'd f(3,4) ks v1 by simp_all
      moreover have "iuReset (siUpdate st') = iuReset (siUpdate st)"
        using same(1) v1 by (simp add: same_tables_def)
      ultimately show ?thesis by (simp add: apply_update_def split: if_splits)
    qed
    then show ?thesis by (simp add: tracked_def)
  qed
  ultimately show ?thesis using same(1) by (simp add: same_tables_def v1 c1')
qed

text \<open>
  Replacing a service: every container is looked at against the new definition, and an instance
  of the old definition that has no successor is withdrawn.
\<close>

lemma fold_withdraw:
  fixes svcName :: string
  defines "d \<equiv> fold (\<lambda>c st. if service_instances st svcName c = None
                          then updateInstance svcName c None st else st)"
  shows "same_tables st (d ks st)" and "linked (d ks st) = linked st"
    and "inst_view (d ks st) = inst_view st" and "services_map (d ks st) = services_map st"
    and "containers_map (d ks st) = containers_map st"
    and "iuInstances (siUpdate (d ks st)) =
       (\<lambda>k. if fst k = svcName \<and> snd k \<in> set ks \<and> inst_view st k = None then Some None
            else iuInstances (siUpdate st) k)"
proof -
  have sm: "services_map (d ks st) = services_map st" for ks st
    unfolding d_def by (induction ks arbitrary: st) (auto simp: sync_simps)
  show "services_map (d ks st) = services_map st" by (rule sm)
  show "same_tables st (d ks st)" "linked (d ks st) = linked st" "inst_view (d ks st) = inst_view st"
    "containers_map (d ks st) = containers_map st"
    unfolding d_def by (induction ks arbitrary: st) (auto simp: same_tables_def sync_simps)
  show "iuInstances (siUpdate (d ks st)) =
       (\<lambda>k. if fst k = svcName \<and> snd k \<in> set ks \<and> inst_view st k = None then Some None
            else iuInstances (siUpdate st) k)"
    unfolding d_def
    by (induction ks arbitrary: st) (auto simp: sync_simps inst_view_def fun_eq_iff)
qed

lemma sync_inv_transfer:
  assumes "sync_inv X st" and "same_tables st st'" and "linked st' = linked st"
    and "inst_view st' = inst_view st" and "services_map st' = services_map st"
    and "containers_map st' = containers_map st"
  shows "sync_inv X st'"
  using assms selected_same [OF assms(2)] candidate_same [OF assms(2)]
  by (simp add: sync_inv_def same_tables_def services_ok_def containers_ok_def)

text \<open>
  The three steps of updateService on a known table: the new entry without instances, the
  instances of the containers there are, and the withdrawal of the old ones that have no successor.
\<close>

lemma replaced_service:
  fixes s :: string
  assumes inv: "sync_inv {} st" and tr: "tracked {} v st" and ok: "info_ok info" and Some: "siServices st = Some m"
  defines "st1 \<equiv> st\<lparr>siServices := Some (m(s \<mapsto> \<lparr>svName = s, svInfo = info, svInstances = Map.empty\<rparr>))\<rparr>"
  shows "sync_inv ({s} \<times> UNIV) st1" and "tracked ({s} \<times> dom (service_instances st s)) v st1"
    and "conts st1 = conts st" and "siUpdate st1 = siUpdate st" and "siHostIP st1 = siHostIP st"
    and "siNetwork st1 = siNetwork st" and "siContainers st1 = siContainers st" and "siServices st1 \<noteq> None"
    and "infos st1 = (infos st)(s \<mapsto> info)"
proof -
  have m: "services_map st = m" using Some by (simp add: services_map_def)
  show v1: "conts st1 = conts st" "siUpdate st1 = siUpdate st" "siHostIP st1 = siHostIP st"
      "siNetwork st1 = siNetwork st" "siContainers st1 = siContainers st" "siServices st1 \<noteq> None"
      "infos st1 = (infos st)(s \<mapsto> info)"
    using m by (auto simp: st1_def sync_defs fun_eq_iff)
  have v2: "containers_map st1 = containers_map st" "linked st1 = linked st"
      "services_map st1 = (services_map st)(s \<mapsto> \<lparr>svName = s, svInfo = info, svInstances = Map.empty\<rparr>)"
    using m by (auto simp: st1_def sync_defs fun_eq_iff)
  have view1: "inst_view st1 k = (if fst k = s then None else inst_view st k)" for k
    by (simp add: inst_view_def service_instances_def v2)
  have "services_ok st1" using inv ok by (auto simp: sync_inv_def services_ok_def v1 v2)
  moreover have "candidate st1 s' c i" if "inst_view st1 (s', c) = Some i" for s' c i
    using that inv by (auto simp: sync_inv_def candidate_def v1 view1 split: if_splits)
  ultimately show "sync_inv ({s} \<times> UNIV) st1" using inv
    by (auto simp: sync_inv_def containers_ok_def v1 v2 view1 selected_def split: if_splits)
  show "tracked ({s} \<times> dom (service_instances st s)) v st1"
  proof (rule trackedI)
    fix k assume "k \<notin> {s} \<times> dom (service_instances st s) \<or> inst_view st1 k \<noteq> None"
    then have "inst_view st1 k = inst_view st k"
      using view1 [of k]
      by (cases k; cases "service_instances st s (snd k)") (auto simp: inst_view_def)
    then show "apply_update v (siUpdate st1) k = inst_view st1 k" using trackedD [OF tr] v1 by simp
  qed
qed

lemma service_visits_containers:
  assumes ord: "ordering_ok ord" and inv: "sync_inv ({svName svc} \<times> UNIV) st" and tr: "tracked X v st"
    and info: "infos st (svName svc) = Some (svInfo svc)"
    and loop: "for_keysM containers_map (\<lambda>cid cont t. addInstances ord svc (ctContainer cont) t)
        (ord p (dom (containers_map st))) st = Some st'"
  shows "sync_inv {} st' \<and> tracked X v st' \<and> same_tables st st'"
proof -
  let ?s = "svName svc" and ?ks = "ord p (dom (containers_map st))"
  let ?P = "\<lambda>D t. sync_inv ({?s} \<times> (UNIV - D)) t \<and> tracked X v t \<and> same_tables st t"
  have dom_eq: "dom (containers_map t) = dom (containers_map st)" if "same_tables st t" for t
    using that by (simp add: same_tables_def flip: dom_conts)
  have fin: "finite (dom (containers_map st))"
    using inv by (simp add: sync_inv_def flip: dom_conts)
  have "?P (set ?ks) st'"
  proof (rule for_keysM_visited [OF loop])
    show "?P {} st" using inv tr by simp
  next
    fix c cont t t' D
    assume P: "?P D t" and cont: "containers_map t c = Some cont"
      and st: "addInstances ord svc (ctContainer cont) t = Some t'"
    have name: "containerID (ctContainer cont) = c" using P cont sync_inv_containers(1) by blast
    have "conts t (containerID (ctContainer cont)) = Some (ctContainer cont)"
      using cont name by (simp add: conts_def)
    moreover have "infos t ?s = Some (svInfo svc)" using P info by (simp add: same_tables_def)
    ultimately have "sync_inv ({?s} \<times> (UNIV - D) - {(?s, c)}) t' \<and> tracked X v t' \<and> same_tables t t'"
      using addInstances_inv [OF ord _ _ _ _ st] P name by metis
    moreover have "{?s} \<times> (UNIV - D) - {(?s, c)} = {?s} \<times> (UNIV - insert c D)" by auto
    ultimately show "?P (insert c D) t'" using P same_tables_trans by metis
  next
    fix c t D
    assume "?P D t" and "c \<in> set ?ks" and "containers_map t c = None"
    then show "?P (insert c D) t" using dom_eq [of t] ord fin by (metis domIff ordering_okD(2))
  qed (use ord fin in simp)
  moreover from this have "set ?ks = dom (conts st')"
    using ord fin dom_eq [of st'] by (simp add: dom_conts)
  ultimately have P: "sync_inv ({?s} \<times> (UNIV - dom (conts st'))) st'" "tracked X v st'" "same_tables st st'"
    by (simp_all only:)
  have "c \<in> dom (conts st')" if "selected st' s' c" for s' c
    using that by (auto simp: selected_def)
  then show ?thesis using P by (simp add: sync_inv_def)
qed

lemma withdrawal_tracked:
  assumes ord: "ordering_ok ord" and fin: "finite D" and tr: "tracked ({s} \<times> D) v st"
  shows "tracked {} v (fold (\<lambda>c st. if service_instances st s c = None
                        then updateInstance s c None st else st) (ord p D) st)" (is "tracked {} v ?st'")
proof (rule trackedI)
  fix k :: instance_key
  note w = fold_withdraw [where svcName = s and ks = "ord p D"]
  have ks: "set (ord p D) = D" using ord fin by simp
  show "apply_update v (siUpdate ?st') k = inst_view ?st' k"
  proof (cases "fst k = s \<and> snd k \<in> D \<and> inst_view st k = None")
    case True
    then have "iuInstances (siUpdate ?st') k = Some None" using ks by (simp add: w(6))
    then show ?thesis using True by (simp add: apply_update_def w(3))
  next
    case False
    then have "apply_update v (siUpdate st) k = inst_view st k"
      using tr by (cases k) (auto simp: tracked_def)
    moreover have "iuInstances (siUpdate ?st') k = iuInstances (siUpdate st) k"
      using False ks by (auto simp: w(6))
    ultimately show ?thesis
      using w(1) [of st] by (simp add: apply_update_def w(3) same_tables_def split: if_splits)
  qed
qed

lemma updateService_inv:
  assumes ord: "ordering_ok ord" and inv: "sync_inv {} st" and tr: "tracked {} v st"
    and ok: "info_ok info" and step: "updateService ord s info st = Some st'"
  shows "sync_inv {} st' \<and> tracked {} v st' \<and> conts st' = conts st \<and>
    siHostIP st' = siHostIP st \<and> siNetwork st' = siNetwork st \<and>
    iuReset (siUpdate st') = iuReset (siUpdate st) \<and>
    (siServices st' = None \<longleftrightarrow> siServices st = None) \<and>
    (siContainers st' = None \<longleftrightarrow> siContainers st = None) \<and>
    infos st' = (if siServices st = None then infos st else (infos st)(s \<mapsto> info))"
proof (cases "siServices st")
  case None
  then show ?thesis using step inv tr by (simp add: updateService_def)
next
  case (Some m)
  let ?svc = "\<lparr>svName = s, svInfo = info, svInstances = Map.empty\<rparr>"
  let ?old = "service_instances st s"
  define st1 where "st1 = st\<lparr>siServices := Some (m(s \<mapsto> ?svc))\<rparr>"
  define withdraw where "withdraw = fold (\<lambda>c st. if service_instances st s c = None
                          then updateInstance s c None st else st) (ord [''old'', s] (dom ?old))"
  obtain st2 where loop: "for_keysM containers_map (\<lambda>cid cont t. addInstances ord ?svc (ctContainer cont) t)
        (ord [''containers'', s] (dom (containers_map st1))) st1 = Some st2"
    and st': "st' = withdraw st2"
    using step Some by (auto simp: updateService_def st1_def withdraw_def Let_def split: option.splits)
  note w = fold_withdraw [where svcName = s and ks = "ord [''old'', s] (dom ?old)", folded withdraw_def]
  note r = replaced_service [OF inv tr ok Some, where s = s, folded st1_def]
  have P: "sync_inv {} st2" "tracked ({s} \<times> dom ?old) v st2" "same_tables st1 st2"
    using service_visits_containers [OF ord _ r(2) _ loop] r(1,9) by simp_all
  have "finite (dom ?old)"
    using sync_inv_services(3) [OF inv] by (auto simp: service_instances_def split: option.split)
  then have "tracked {} v st'" unfolding st' withdraw_def by (rule withdrawal_tracked [OF ord _ P(2)])
  moreover have "sync_inv {} st'" unfolding st' by (rule sync_inv_transfer [OF P(1)]) (simp_all add: w)
  moreover have "same_tables st1 st'" using P(3) w(1) st' same_tables_trans by blast
  ultimately show ?thesis using Some by (simp add: same_tables_def r)
qed

text \<open>Removing a service withdraws all its instances.\<close>

lemma fold_unlink:
  fixes ks :: "string list" and svcName :: string
  defines "d \<equiv> fold (\<lambda>c st. updateInstance svcName c None (put_container_inst c svcName False st)) ks"
  shows "same_tables st (d st)" and "s \<noteq> svcName \<Longrightarrow> linked (d st) s c = linked st s c"
    and "inst_view (d st) = inst_view st"
    and "iuInstances (siUpdate (d st)) =
       (\<lambda>k. if fst k = svcName \<and> snd k \<in> set ks then Some None else iuInstances (siUpdate st) k)"
    and "services_ok (d st) = services_ok st" and "containers_ok st \<Longrightarrow> containers_ok (d st)"
proof -
  show "same_tables st (d st)" "inst_view (d st) = inst_view st" "services_ok (d st) = services_ok st"
    unfolding d_def by (induction ks arbitrary: st) (auto simp: same_tables_def sync_simps)
  show "s \<noteq> svcName \<Longrightarrow> linked (d st) s c = linked st s c" unfolding d_def
    by (induction ks arbitrary: st) (auto simp: sync_simps)
  show "iuInstances (siUpdate (d st)) =
       (\<lambda>k. if fst k = svcName \<and> snd k \<in> set ks then Some None else iuInstances (siUpdate st) k)"
    unfolding d_def by (induction ks arbitrary: st) (auto simp: sync_simps fun_eq_iff)
  show "containers_ok st \<Longrightarrow> containers_ok (d st)" unfolding d_def
    by (induction ks arbitrary: st) auto
qed

lemma removeService_inv:
  fixes s :: string
  assumes ord: "ordering_ok ord" and inv: "sync_inv {} st" and tr: "tracked {} v st"
  defines "st' \<equiv> removeService ord s st"
  shows "sync_inv {} st' \<and> tracked {} v st' \<and> conts st' = conts st \<and>
    infos st' = (infos st)(s := None) \<and> siHostIP st' = siHostIP st \<and> siNetwork st' = siNetwork st \<and>
    iuReset (siUpdate st') = iuReset (siUpdate st) \<and>
    (siServices st' = None \<longleftrightarrow> siServices st = None) \<and>
    (siContainers st' = None \<longleftrightarrow> siContainers st = None)"
proof (cases "services_map st s")
  case None
  then have "(infos st)(s := None) = infos st" by (auto simp: infos_def fun_eq_iff)
  then show ?thesis using None inv tr by (simp add: st'_def removeService_def)
next
  case (Some e)
  let ?ks = "ord [''instances'', s] (dom (svInstances e))"
  define st1 where "st1 = st\<lparr>siServices := map_option (\<lambda>m. m(s := None)) (siServices st)\<rparr>"
  define d where "d = fold (\<lambda>c st. updateInstance s c None (put_container_inst c s False st)) ?ks"
  note f = fold_unlink [where ks = ?ks and svcName = s, folded d_def]
  have ks: "set ?ks = dom (svInstances e)" using sync_inv_services(3) [OF inv Some] ord by simp
  have v1: "containers_map st1 = containers_map st" "conts st1 = conts st" "linked st1 = linked st"
      "siUpdate st1 = siUpdate st" "siHostIP st1 = siHostIP st" "siNetwork st1 = siNetwork st"
      "siContainers st1 = siContainers st" "siServices st1 = None \<longleftrightarrow> siServices st = None"
      "services_map st1 = (services_map st)(s := None)"
    by (auto simp: st1_def sync_defs fun_eq_iff split: option.split)
  then have v1': "infos st1 = (infos st)(s := None)"
      "inst_view st1 = (\<lambda>k. if fst k = s then None else inst_view st k)"
    by (auto simp: infos_def inst_view_def service_instances_def fun_eq_iff)
  have st': "st' = (if siContainers st1 = None then st1 else d st1)"
    using Some by (simp add: st'_def removeService_def st1_def d_def Let_def)
  have old: "inst_view st (s, c) = svInstances e c" for c
    using Some by (simp add: inst_view_def service_instances_def)
  have ok1: "services_ok st1" "containers_ok st1"
    using inv by (auto simp: sync_inv_def services_ok_def containers_ok_def v1)
  have same: "same_tables st1 st'" "inst_view st' = inst_view st1" "services_ok st'" "containers_ok st'"
    and link: "\<And>s' c. s' \<noteq> s \<Longrightarrow> linked st' s' c = linked st s' c"
    using st' f ok1 v1 by auto
  have "sync_inv {} st'"
  proof -
    have "finite (dom (conts st'))" "finite (dom (infos st'))"
      using inv same(1) by (auto simp: sync_inv_def same_tables_def v1 v1')
    moreover have "candidate st' s' c i" if "inst_view st' (s', c) = Some i" for s' c i
      using that inv same(1,2)
      by (auto simp: sync_inv_def same_tables_def candidate_def v1 v1' split: if_splits)
    moreover have "inst_view st' (s', c) \<noteq> None" if "selected st' s' c" for s' c
      using that inv same(1,2)
      by (auto simp: sync_inv_def same_tables_def selected_def v1 v1' split: if_splits)
    moreover have "linked st' s' c" if "inst_view st' (s', c) = Some i" for s' c i
      using that inv same(2) link by (auto simp: sync_inv_def v1' split: if_splits)
    ultimately show ?thesis using same(3,4) by (simp add: sync_inv_def)
  qed
  moreover have "tracked {} v st'"
  proof (rule trackedI)
    fix k :: instance_key
    obtain a c where k: "k = (a, c)" by (cases k)
    have st_k: "apply_update v (siUpdate st) k = inst_view st k" using trackedD [OF tr] by simp
    show "apply_update v (siUpdate st') k = inst_view st' k"
    proof (cases "siContainers st1 = None")
      case True
      then have "containers_map st c = None" by (simp add: containers_map_def v1)
      then have "inst_view st (s, c) = None"
        using sync_inv_linked [OF inv] by (cases "inst_view st (s, c)") fastforce+
      then show ?thesis using st_k True st' same(2) v1 v1' k by (auto simp: fun_eq_iff)
    next
      case False
      then have st'd: "st' = d st1" using st' by (simp only: if_False)
      have "iuInstances (siUpdate st') k =
          (if a = s \<and> c \<in> dom (svInstances e) then Some None else iuInstances (siUpdate st) k)"
        unfolding st'd f(4) ks v1 k by simp
      moreover have "iuReset (siUpdate st') = iuReset (siUpdate st)"
        using same(1) v1 by (simp add: same_tables_def)
      ultimately show ?thesis using st_k same(2) v1' k old
        by (cases "a = s"; cases "svInstances e c") (auto simp: apply_update_def split: if_splits)
    qed
  qed
  ultimately show ?thesis using same(1) by (simp add: same_tables_def v1 v1')
qed

section \<open>Whole updates\<close>

definition synced :: "sync_state \<Rightarrow> bool" where
  "synced st \<longleftrightarrow> siServices st \<noteq> None \<and> siContainers st \<noteq> None"

definition event_ok :: "sync_event \<Rightarrow> bool" where
  "event_ok ev = (case ev of
     ContainerUpdates u \<Rightarrow> finite (dom (cuContainers u))
   | ServiceUpdates u \<Rightarrow> finite (dom (suServices u)) \<and>
       (\<forall>s info. suServices u s = Some (Some info) \<longrightarrow> info_ok info)
   | InstanceUpdatesReset \<Rightarrow> True)"

definition keeps_null :: "sync_state \<Rightarrow> sync_state \<Rightarrow> bool" where
  "keeps_null st st' \<longleftrightarrow> siHostIP st' = siHostIP st \<and> siNetwork st' = siNetwork st \<and>
     iuReset (siUpdate st') = iuReset (siUpdate st) \<and>
     (siServices st' = None \<longleftrightarrow> siServices st = None) \<and>
     (siContainers st' = None \<longleftrightarrow> siContainers st = None)"

lemma synced_keeps: "keeps_null st st' \<Longrightarrow> synced st' = synced st"
  by (simp add: synced_def keeps_null_def)

lemma inst_view_unsynced:
  assumes "sync_inv X st" and "\<not> synced st"
  shows "inst_view st = Map.empty"
proof
  fix k :: instance_key
  obtain s c where k: "k = (s, c)" by (cases k)
  show "inst_view st k = None"
  proof (cases "siServices st")
    case None
    then show ?thesis by (simp add: inst_view_def service_instances_def services_map_def)
  next
    case (Some m)
    then have "containers_map st c = None" using assms(2) by (simp add: synced_def containers_map_def)
    then show ?thesis using sync_inv_linked [OF assms(1)] k
      by (cases "inst_view st (s, c)") fastforce+
  qed
qed

lemma container_loop_inv:
  assumes "ordering_ok ord" and "sync_inv {} st" and "tracked {} v st"
    and "for_keysM (\<lambda>_. m)
           (\<lambda>cid cont s. case cont of Some c \<Rightarrow> addContainer ord c s
             | None \<Rightarrow> Some (removeContainer ord cid s)) ks st = Some st'"
  shows "sync_inv {} st' \<and> tracked {} v st' \<and> infos st' = infos st \<and> keeps_null st st'"
proof (rule for_keysM_inv [OF assms(4)])
  show "sync_inv {} st \<and> tracked {} v st \<and> infos st = infos st \<and> keeps_null st st"
    using assms(2,3) by (simp add: keeps_null_def)
next
  fix k x t t'
  assume P: "sync_inv {} t \<and> tracked {} v t \<and> infos t = infos st \<and> keeps_null st t"
    and t': "(case x of Some c \<Rightarrow> addContainer ord c t | None \<Rightarrow> Some (removeContainer ord k t)) = Some t'"
  show "sync_inv {} t' \<and> tracked {} v t' \<and> infos t' = infos st \<and> keeps_null st t'"
  proof (cases x)
    case None
    then show ?thesis
      using removeContainer_inv [OF assms(1), of t v k] P t' by (simp add: keeps_null_def)
  next
    case (Some c)
    then show ?thesis
      using addContainer_inv [OF assms(1), of t v c t'] P t' by (simp add: keeps_null_def)
  qed
qed

lemma service_loop_inv:
  assumes "ordering_ok ord" and "sync_inv {} st" and "tracked {} v st"
    and "\<And>s info. m s = Some (Some info) \<Longrightarrow> info_ok info"
    and "for_keysM (\<lambda>_. m)
           (\<lambda>s x st. case x of Some info \<Rightarrow> updateService ord s info st
             | None \<Rightarrow> Some (removeService ord s st)) ks st = Some st'"
  shows "sync_inv {} st' \<and> tracked {} v st' \<and> conts st' = conts st \<and> keeps_null st st'"
proof (rule for_keysM_inv [OF assms(5)])
  show "sync_inv {} st \<and> tracked {} v st \<and> conts st = conts st \<and> keeps_null st st"
    using assms(2,3) by (simp add: keeps_null_def)
next
  fix k x t t'
  assume P: "sync_inv {} t \<and> tracked {} v t \<and> conts t = conts st \<and> keeps_null st t"
    and x: "m k = Some x"
    and t': "(case x of Some info \<Rightarrow> updateService ord k info t | None \<Rightarrow> Some (removeService ord k t)) = Some t'"
  show "sync_inv {} t' \<and> tracked {} v t' \<and> conts t' = conts st \<and> keeps_null st t'"
  proof (cases x)
    case None
    then show ?thesis
      using removeService_inv [OF assms(1), of t v k] P t' by (simp add: keeps_null_def)
  next
    case (Some info)
    then show ?thesis
      using updateService_inv [OF assms(1), of t v info k t'] P t' x assms(4) by (simp add: keeps_null_def)
  qed
qed

lemma reset_containers_inv:
  assumes "sync_inv X st" and "iuInstances (siUpdate st) = Map.empty"
  defines "s \<equiv> clearInstances (st\<lparr>siContainers := Some Map.empty\<rparr>)"
  defines "st1 \<equiv> set_reset (siServices s \<noteq> None) s"
  shows "sync_inv {} st1" and "inst_view st1 = Map.empty" and "infos st1 = infos st"
    and "conts st1 = Map.empty" and "siServices st1 = None \<longleftrightarrow> siServices st = None"
    and "siContainers st1 \<noteq> None" and "siHostIP st1 = siHostIP st" and "siNetwork st1 = siNetwork st"
    and "iuReset (siUpdate st1) \<longleftrightarrow> siServices st \<noteq> None" and "iuInstances (siUpdate st1) = Map.empty"
proof -
  show v: "inst_view st1 = Map.empty" "infos st1 = infos st" "conts st1 = Map.empty"
    "siServices st1 = None \<longleftrightarrow> siServices st = None" "siContainers st1 \<noteq> None"
    "siHostIP st1 = siHostIP st" "siNetwork st1 = siNetwork st"
    "iuReset (siUpdate st1) \<longleftrightarrow> siServices st \<noteq> None" "iuInstances (siUpdate st1) = Map.empty"
    using assms(2)
    by (auto simp: st1_def s_def set_reset_def clearInstances_def sync_defs fun_eq_iff option.map_comp
        o_def split: option.split)
  have "services_ok st1" "containers_ok st1"
    using assms(1)
    by (auto simp: st1_def s_def set_reset_def clearInstances_def sync_inv_def services_ok_def
        containers_ok_def services_map_def containers_map_def split: option.splits)
  then show "sync_inv {} st1"
    using assms(1) v by (simp add: sync_inv_def selected_def)
qed

lemma reset_services_inv:
  assumes "sync_inv X st" and "iuInstances (siUpdate st) = Map.empty"
  defines "s \<equiv> clearInstances (st\<lparr>siServices := Some Map.empty\<rparr>)"
  defines "st1 \<equiv> set_reset (siContainers s \<noteq> None) s"
  shows "sync_inv {} st1" and "inst_view st1 = Map.empty" and "conts st1 = conts st"
    and "infos st1 = Map.empty" and "siContainers st1 = None \<longleftrightarrow> siContainers st = None"
    and "siServices st1 \<noteq> None" and "siHostIP st1 = siHostIP st" and "siNetwork st1 = siNetwork st"
    and "iuReset (siUpdate st1) \<longleftrightarrow> siContainers st \<noteq> None" and "iuInstances (siUpdate st1) = Map.empty"
proof -
  show v: "inst_view st1 = Map.empty" "conts st1 = conts st" "infos st1 = Map.empty"
    "siContainers st1 = None \<longleftrightarrow> siContainers st = None" "siServices st1 \<noteq> None"
    "siHostIP st1 = siHostIP st" "siNetwork st1 = siNetwork st"
    "iuReset (siUpdate st1) \<longleftrightarrow> siContainers st \<noteq> None" "iuInstances (siUpdate st1) = Map.empty"
    using assms(2)
    by (auto simp: st1_def s_def set_reset_def clearInstances_def sync_defs fun_eq_iff option.map_comp
        o_def split: option.split)
  have "services_ok st1" "containers_ok st1"
    using assms(1)
    by (auto simp: st1_def s_def set_reset_def clearInstances_def sync_inv_def services_ok_def
        containers_ok_def services_map_def containers_map_def split: option.splits)
  then show "sync_inv {} st1"
    using assms(1) v by (simp add: sync_inv_def selected_def)
qed

text \<open>
  One event. Whatever the consumer held, once both tables are known it holds the matcher's view:
  a reset carries everything, and any other update is applied to a view that was right.
\<close>

lemma handle_container_update:
  assumes ord: "ordering_ok ord" and inv: "sync_inv {} st"
    and clear: "siUpdate st = empty_update" and v: "synced st \<Longrightarrow> v = inst_view st"
    and step: "processContainerUpdate ord u st = Some st'"
  shows "sync_inv {} st' \<and> (\<exists>w. tracked {} w st') \<and> (synced st' \<longrightarrow> apply_update v (siUpdate st') = inst_view st')"
proof (cases "cuReset u")
  case False
  let ?w = "inst_view st"
  have tr: "tracked {} ?w st" by (simp add: tracked_def clear empty_update_def apply_update_def)
  have r: "sync_inv {} st' \<and> tracked {} ?w st' \<and> keeps_null st st'"
  proof -
    have "for_keysM (\<lambda>_. cuContainers u)
           (\<lambda>cid cont s. case cont of Some c \<Rightarrow> addContainer ord c s
             | None \<Rightarrow> Some (removeContainer ord cid s))
           (ord [''update''] (dom (cuContainers u))) st = Some st'"
      using step False by (simp add: processContainerUpdate_def Let_def)
    from container_loop_inv [OF ord inv tr this] show ?thesis by blast
  qed
  moreover have "v = ?w" if "synced st'"
    using that r v synced_keeps by blast
  ultimately show ?thesis using trackedD [of "{}" ?w st'] by auto
next
  case True
  have e: "iuInstances (siUpdate st) = Map.empty" using clear by (simp add: empty_update_def)
  note r = reset_containers_inv [OF inv e]
  define st1 where "st1 = set_reset (siServices (clearInstances (st\<lparr>siContainers := Some Map.empty\<rparr>)) \<noteq> None)
      (clearInstances (st\<lparr>siContainers := Some Map.empty\<rparr>))"
  note r = r [folded st1_def]
  let ?w = "if siServices st = None then Map.empty else v"
  have tr: "tracked {} ?w st1"
    by (rule trackedI) (simp add: apply_update_def r)
  have q: "sync_inv {} st' \<and> tracked {} ?w st' \<and> keeps_null st1 st'"
  proof -
    have "for_keysM (\<lambda>_. cuContainers u)
           (\<lambda>cid cont s. case cont of Some c \<Rightarrow> addContainer ord c s
             | None \<Rightarrow> Some (removeContainer ord cid s))
           (ord [''update''] (dom (cuContainers u))) st1 = Some st'"
      using step True by (simp add: processContainerUpdate_def Let_def st1_def)
    from container_loop_inv [OF ord r(1) tr this] show ?thesis by blast
  qed
  moreover have "?w = v" if "synced st'"
    using that q r by (auto simp: synced_def keeps_null_def)
  ultimately show ?thesis using trackedD [of "{}" ?w st'] by auto
qed

lemma handle_service_update:
  assumes ord: "ordering_ok ord" and inv: "sync_inv {} st"
    and clear: "siUpdate st = empty_update" and v: "synced st \<Longrightarrow> v = inst_view st"
    and ok: "event_ok (ServiceUpdates u)"
    and step: "processServiceUpdate ord u st = Some st'"
  shows "sync_inv {} st' \<and> (\<exists>w. tracked {} w st') \<and> (synced st' \<longrightarrow> apply_update v (siUpdate st') = inst_view st')"
proof (cases "suReset u")
  case False
  let ?w = "inst_view st"
  have tr: "tracked {} ?w st" by (simp add: tracked_def clear empty_update_def apply_update_def)
  have r: "sync_inv {} st' \<and> tracked {} ?w st' \<and> keeps_null st st'"
  proof -
    have "for_keysM (\<lambda>_. suServices u)
           (\<lambda>s x st. case x of Some info \<Rightarrow> updateService ord s info st
             | None \<Rightarrow> Some (removeService ord s st)) (ord [''update''] (dom (suServices u))) st = Some st'"
      using step False by (simp add: processServiceUpdate_def Let_def)
    from service_loop_inv [OF ord inv tr _ this] ok show ?thesis by (auto simp: event_ok_def)
  qed
  moreover have "v = ?w" if "synced st'"
    using that r v synced_keeps by blast
  ultimately show ?thesis using trackedD [of "{}" ?w st'] by auto
next
  case True
  have e: "iuInstances (siUpdate st) = Map.empty" using clear by (simp add: empty_update_def)
  note r = reset_services_inv [OF inv e]
  define st1 where "st1 = set_reset (siContainers (clearInstances (st\<lparr>siServices := Some Map.empty\<rparr>)) \<noteq> None)
      (clearInstances (st\<lparr>siServices := Some Map.empty\<rparr>))"
  note r = r [folded st1_def]
  let ?w = "if siContainers st = None then Map.empty else v"
  have tr: "tracked {} ?w st1"
    by (rule trackedI) (simp add: apply_update_def r)
  have q: "sync_inv {} st' \<and> tracked {} ?w st' \<and> keeps_null st1 st'"
  proof -
    have "for_keysM (\<lambda>_. suServices u)
           (\<lambda>s x st. case x of Some info \<Rightarrow> updateService ord s info st
             | None \<Rightarrow> Some (removeService ord s st)) (ord [''update''] (dom (suServices u))) st1 = Some st'"
      using step True by (simp add: processServiceUpdate_def Let_def st1_def)
    from service_loop_inv [OF ord r(1) tr _ this] ok show ?thesis by (auto simp: event_ok_def)
  qed
  moreover have "?w = v" if "synced st'"
    using that q r by (auto simp: synced_def keeps_null_def)
  ultimately show ?thesis using trackedD [of "{}" ?w st'] by auto
qed

lemma sync_inv_cong:
  assumes "siServices st' = siServices st" and "siContainers st' = siContainers st"
    and "siHostIP st' = siHostIP st" and "siNetwork st' = siNetwork st"
  shows "sync_inv X st' = sync_inv X st" and "inst_view st' = inst_view st"
    and "infos st' = infos st" and "conts st' = conts st"
    and "synced st' = synced st"
proof -
  show e: "infos st' = infos st" "conts st' = conts st" "inst_view st' = inst_view st"
    "synced st' = synced st"
    using assms by (auto simp: sync_defs synced_def fun_eq_iff)
  have "linked st' = linked st" "services_map st' = services_map st" "containers_map st' = containers_map st"
    using assms by (auto simp: sync_defs fun_eq_iff)
  then show "sync_inv X st' = sync_inv X st"
    using assms(3,4) e by (simp add: sync_inv_def services_ok_def containers_ok_def selected_def candidate_def)
qed

lemma sync_inv_blank:
  assumes "siServices st = None" and "siContainers st = None"
  shows "sync_inv X st"
proof -
  have "infos st = Map.empty" "conts st = Map.empty" "inst_view st = Map.empty"
    using assms by (auto simp: sync_defs fun_eq_iff)
  then show ?thesis
    using assms by (simp add: sync_inv_def services_ok_def containers_ok_def selected_def
        services_map_def containers_map_def)
qed

lemma apply_no_update:
  assumes "iuInstances u = Map.empty" and "\<not> iuReset u"
  shows "apply_update v u = v"
  using assms by (simp add: apply_update_def fun_eq_iff)

lemma sync_step_inv:
  assumes ord: "ordering_ok ord" and inv: "sync_inv {} st" and ok: "event_ok ev"
    and v: "synced st \<Longrightarrow> v = inst_view st"
    and step: "sync_step ord ev st = Some (st', out)"
  shows "sync_inv {} st' \<and> (synced st' \<longrightarrow> foldl apply_update v out = inst_view st')"
proof -
  define st0 where "st0 = st\<lparr>siUpdate := empty_update\<rparr>"
  have c0: "sync_inv {} st0" "inst_view st0 = inst_view st" "synced st0 = synced st"
    using inv sync_inv_cong [of st0 st] by (simp_all add: st0_def)
  obtain s where s: "handle_event ord ev st0 = Some s"
    and out: "(st', out) = (if iuInstances (siUpdate s) \<noteq> Map.empty \<or> iuReset (siUpdate s)
          then (s\<lparr>siUpdate := (siUpdate s)\<lparr>iuInstances := Map.empty\<rparr>\<rparr>, [siUpdate s]) else (s, []))"
    using step by (auto simp: sync_step_def st0_def split: option.splits if_splits)
  have e0: "siUpdate st0 = empty_update" by (simp add: st0_def)
  have "sync_inv {} s \<and> (synced s \<longrightarrow> apply_update v (siUpdate s) = inst_view s)"
  proof (cases ev)
    case (ContainerUpdates u)
    then show ?thesis
      using handle_container_update [OF ord c0(1) e0] s v c0 by (simp add: handle_event_def)
  next
    case (ServiceUpdates u)
    then show ?thesis
      using handle_service_update [OF ord c0(1) e0] s v c0 ok by (simp add: handle_event_def)
  next
    case InstanceUpdatesReset
    then have "s = requestReset (st0\<lparr>siServices := None, siContainers := None\<rparr>)"
      using s by (simp add: handle_event_def)
    then show ?thesis
      by (simp add: requestReset_def synced_def sync_inv_blank)
  qed
  moreover have "sync_inv {} st' = sync_inv {} s" "inst_view st' = inst_view s" "synced st' = synced s"
    using out sync_inv_cong [of st' s] by (auto split: if_splits)
  moreover have "foldl apply_update v out = apply_update v (siUpdate s)"
    using out apply_no_update by (auto split: if_splits)
  ultimately show ?thesis by simp
qed

text \<open>Every entry of an update that is sent is what the matcher holds for the key.\<close>

lemma sync_step_entries:
  assumes ord: "ordering_ok ord" and inv: "sync_inv {} st" and ok: "event_ok ev"
    and step: "sync_step ord ev st = Some (st', out)" and u: "u \<in> set out" "iuInstances u k = Some x"
  shows "inst_view st' k = x"
proof -
  define st0 where "st0 = st\<lparr>siUpdate := empty_update\<rparr>"
  have c0: "sync_inv {} st0" "siUpdate st0 = empty_update"
    using inv sync_inv_cong [of st0 st] by (simp_all add: st0_def)
  obtain s where s: "handle_event ord ev st0 = Some s"
    and out: "(st', out) = (if iuInstances (siUpdate s) \<noteq> Map.empty \<or> iuReset (siUpdate s)
          then (s\<lparr>siUpdate := (siUpdate s)\<lparr>iuInstances := Map.empty\<rparr>\<rparr>, [siUpdate s]) else (s, []))"
    using step by (auto simp: sync_step_def st0_def split: option.splits if_splits)
  have "(\<exists>w. tracked {} w s) \<or> iuInstances (siUpdate s) = Map.empty"
  proof (cases ev)
    case (ContainerUpdates c)
    then show ?thesis
      using handle_container_update [OF ord c0, of "inst_view st0" c s] s by (simp add: handle_event_def)
  next
    case (ServiceUpdates c)
    then show ?thesis
      using handle_service_update [OF ord c0, of "inst_view st0" c s] s ok by (simp add: handle_event_def)
  next
    case InstanceUpdatesReset
    then show ?thesis using s c0(2) by (auto simp: handle_event_def requestReset_def empty_update_def)
  qed
  moreover have e: "iuInstances (siUpdate s) k = Some x" "inst_view st' = inst_view s"
    using out u sync_inv_cong(2) [of st' s] by (auto split: if_splits)
  ultimately obtain w where "tracked {} w s" by auto
  from trackedD [OF this, of k] e show ?thesis by (simp add: apply_update_def)
qed

text \<open>The configuration never changes.\<close>

lemma fold_keeps:
  assumes "\<And>x st. f (g x st) = f st"
  shows "f (fold g xs st) = f st"
  using assms by (induction xs arbitrary: st) auto

lemma for_keysM_keeps:
  assumes "for_keysM get f ks st = Some st'" and "\<And>k v st st'. f k v st = Some st' \<Longrightarrow> g st' = g st"
  shows "g st' = g st"
  by (rule for_keysM_inv [OF assms(1), where P = "\<lambda>s. g s = g st"]) (use assms(2) in auto)

lemma addInstances_host: "addInstances ord svc cont st = Some st' \<Longrightarrow> siHostIP st' = siHostIP st"
  unfolding addInstances_def Let_def
  by (erule for_keysM_keeps) (auto simp: sync_simps split: option.splits)

lemma removeContainer_host: "siHostIP (removeContainer ord cid st) = siHostIP st"
  by (auto simp: removeContainer_def Let_def sync_simps fold_keeps split: option.split)

lemma removeService_host: "siHostIP (removeService ord s st) = siHostIP st"
  by (auto simp: removeService_def Let_def sync_simps fold_keeps split: option.split)

lemma addContainer_host:
  assumes "addContainer ord cont st = Some st'"
  shows "siHostIP st' = siHostIP st"
proof -
  have "siHostIP st' = siHostIP s" if "for_keysM services_map (\<lambda>svcName svc s. addInstances ord svc cont s) ks s = Some st'" for ks s
    by (rule for_keysM_keeps [OF that]) (rule addInstances_host)
  with assms show ?thesis
    by (fastforce simp: addContainer_def Let_def split: option.splits if_splits)
qed

lemma updateService_host:
  assumes "updateService ord s info st = Some st'"
  shows "siHostIP st' = siHostIP st"
proof (cases "siServices st")
  case None
  then show ?thesis using assms by (simp add: updateService_def)
next
  case (Some m)
  let ?svc = "\<lparr>svName = s, svInfo = info, svInstances = Map.empty\<rparr>"
  let ?st1 = "st\<lparr>siServices := Some (m(s \<mapsto> ?svc))\<rparr>"
  obtain st2 ks where st2: "for_keysM containers_map (\<lambda>cid cont s. addInstances ord ?svc (ctContainer cont) s) ks ?st1 = Some st2"
    and st': "siHostIP st' = siHostIP st2"
    using assms Some by (auto simp: updateService_def Let_def sync_simps fold_keeps split: option.splits)
  have "siHostIP st2 = siHostIP ?st1"
    by (rule for_keysM_keeps [OF st2]) (rule addInstances_host)
  then show ?thesis using st' by simp
qed

lemma sync_step_host:
  assumes "sync_step ord ev st = Some (st', out)"
  shows "siHostIP st' = siHostIP st"
proof -
  obtain s where s: "handle_event ord ev (st\<lparr>siUpdate := empty_update\<rparr>) = Some s" and st': "siHostIP st' = siHostIP s"
    using assms by (auto simp: sync_step_def split: option.splits if_splits)
  have "siHostIP s = siHostIP st"
  proof (cases ev)
    case (ContainerUpdates u)
    from s [unfolded handle_event_def ContainerUpdates processContainerUpdate_def sync_event.case Let_def]
    have "siHostIP s = siHostIP (if cuReset u then
        set_reset (siServices (clearInstances ((st\<lparr>siUpdate := empty_update\<rparr>)\<lparr>siContainers := Some Map.empty\<rparr>)) \<noteq> None)
         (clearInstances ((st\<lparr>siUpdate := empty_update\<rparr>)\<lparr>siContainers := Some Map.empty\<rparr>)) else st\<lparr>siUpdate := empty_update\<rparr>)"
      by (rule for_keysM_keeps) (auto simp: removeContainer_host addContainer_host split: option.splits)
    then show ?thesis by (simp add: set_reset_def clearInstances_def split: if_splits)
  next
    case (ServiceUpdates u)
    from s [unfolded handle_event_def ServiceUpdates processServiceUpdate_def sync_event.case Let_def]
    have "siHostIP s = siHostIP (if suReset u then
        set_reset (siContainers (clearInstances ((st\<lparr>siUpdate := empty_update\<rparr>)\<lparr>siServices := Some Map.empty\<rparr>)) \<noteq> None)
         (clearInstances ((st\<lparr>siUpdate := empty_update\<rparr>)\<lparr>siServices := Some Map.empty\<rparr>)) else st\<lparr>siUpdate := empty_update\<rparr>)"
      by (rule for_keysM_keeps) (auto simp: removeService_host updateService_host split: option.splits)
    then show ?thesis by (simp add: set_reset_def clearInstances_def split: if_splits)
  next
    case InstanceUpdatesReset
    then show ?thesis using s by (auto simp: handle_event_def requestReset_def)
  qed
  then show ?thesis using st' by simp
qed

lemma sync_run_inv:
  assumes "sync_run evs st = Some (st', outs)" and "sync_inv {} st"
    and "\<And>ord ev. (ord, ev) \<in> set evs \<Longrightarrow> ordering_ok ord \<and> event_ok ev"
    and "synced st \<Longrightarrow> v = inst_view st"
  shows "sync_inv {} st' \<and> (synced st' \<longrightarrow> foldl apply_update v outs = inst_view st')"
  using assms
proof (induction evs arbitrary: st v outs)
  case Nil
  then show ?case by auto
next
  case (Cons x evs)
  obtain ord ev where x: "x = (ord, ev)" by (cases x)
  obtain st1 out outs1 where step: "sync_step ord ev st = Some (st1, out)"
    and rest: "sync_run evs st1 = Some (st', outs1)" and outs: "outs = out @ outs1"
    using Cons.prems(1) x by (auto split: option.splits)
  have "ordering_ok ord" "event_ok ev" using Cons.prems(3) x by auto
  with sync_step_inv [OF _ Cons.prems(2) _ Cons.prems(4) step]
  have "sync_inv {} st1" "synced st1 \<Longrightarrow> foldl apply_update v out = inst_view st1" by auto
  from Cons.IH [OF rest this(1) _ this(2)] Cons.prems(3) outs show ?case by auto
qed

lemma sync_start_inv: "sync_inv X (sync_start h n)" "\<not> synced (sync_start h n)"
  by (simp_all add: sync_start_def requestReset_def sync_inv_blank synced_def)

text \<open>Every instance an update brings is on the matcher's host.\<close>

lemma sync_run_hosts:
  assumes "sync_run evs st = Some (st', outs)" and "sync_inv {} st"
    and "\<And>ord ev. (ord, ev) \<in> set evs \<Longrightarrow> ordering_ok ord \<and> event_ok ev"
    and "u \<in> set outs" and "iuInstances u k = Some (Some i)"
  shows "hostAddr (instHost i) = siHostIP st"
  using assms
proof (induction evs arbitrary: st outs)
  case (Cons x evs)
  obtain ord ev where x: "x = (ord, ev)" by (cases x)
  obtain st1 out outs1 where step: "sync_step ord ev st = Some (st1, out)"
    and rest: "sync_run evs st1 = Some (st', outs1)" and outs: "outs = out @ outs1"
    using Cons.prems(1) x by (auto split: option.splits)
  have ok: "ordering_ok ord" "event_ok ev" using Cons.prems(3) x by auto
  have inv: "sync_inv {} st1"
    using sync_step_inv [OF ok(1) Cons.prems(2) ok(2) _ step, of "inst_view st"] by simp
  have host: "siHostIP st1 = siHostIP st" by (rule sync_step_host [OF step])
  show ?case
  proof (cases "u \<in> set outs1")
    case True
    have "hostAddr (instHost i) = siHostIP st1"
      by (rule Cons.IH [OF rest inv _ True Cons.prems(5)]) (use Cons.prems(3) in auto)
    then show ?thesis using host by simp
  next
    case False
    then have "inst_view st1 k = Some i"
      using sync_step_entries [OF ok(1) Cons.prems(2) ok(2) step] Cons.prems(4,5) outs by auto
    then have "candidate st1 (fst k) (snd k) i" using inv by (simp add: sync_inv_def)
    then show ?thesis using host by (auto simp: candidate_def spec_instance_def)
  qed
qed simp

text \<open>Updates are finite.\<close>

definition small :: "sync_state \<Rightarrow> bool" where
  "small st \<longleftrightarrow> finite (dom (iuInstances (siUpdate st)))"

lemma small_simps:
  "small (updateInstance s c x st) = small st" "small (put_service_inst s c x st) = small st"
  "small (put_container_inst c s b st) = small st" "small (st\<lparr>siServices := m\<rparr>) = small st"
  "small (st\<lparr>siContainers := m'\<rparr>) = small st" "small (attach s c i st) = small st"
  by (simp_all add: small_def sync_simps)

lemma fold_small:
  assumes "\<And>x st. small st \<Longrightarrow> small (g x st)" and "small st"
  shows "small (fold g xs st)"
  using assms by (induction xs arbitrary: st) auto

lemma addInstances_small: "addInstances ord svc cont st = Some st' \<Longrightarrow> small st \<Longrightarrow> small st'"
  unfolding addInstances_def Let_def
  by (erule for_keysM_inv [where P = small]) (auto simp: small_simps split: option.splits)

lemma removeContainer_small: "small st \<Longrightarrow> small (removeContainer ord cid st)"
  by (auto simp: removeContainer_def Let_def small_simps intro!: fold_small split: option.split)

lemma removeService_small: "small st \<Longrightarrow> small (removeService ord s st)"
  by (auto simp: removeService_def Let_def small_simps intro!: fold_small split: option.split)

lemma addContainer_small:
  assumes "addContainer ord cont st = Some st'" and "small st"
  shows "small st'"
proof -
  have "small st'" if "for_keysM services_map (\<lambda>svcName svc s. addInstances ord svc cont s) ks s = Some st'" "small s" for ks s
    by (rule for_keysM_inv [OF that(1), where P = small]) (use that(2) addInstances_small in auto)
  with assms show ?thesis
    by (fastforce simp: addContainer_def Let_def small_simps split: option.splits if_splits)
qed

lemma updateService_small:
  assumes "updateService ord s info st = Some st'" and "small st"
  shows "small st'"
proof (cases "siServices st")
  case None
  then show ?thesis using assms by (simp add: updateService_def)
next
  case (Some m)
  let ?svc = "\<lparr>svName = s, svInfo = info, svInstances = Map.empty\<rparr>"
  let ?st1 = "st\<lparr>siServices := Some (m(s \<mapsto> ?svc))\<rparr>"
  let ?g = "\<lambda>instName st. if service_instances st s instName = None then updateInstance s instName None st else st"
  obtain st2 ks xs where st2: "for_keysM containers_map (\<lambda>cid cont s. addInstances ord ?svc (ctContainer cont) s) ks ?st1 = Some st2"
    and st': "st' = fold ?g xs st2"
    using assms(1) Some by (auto simp: updateService_def Let_def split: option.splits)
  have "small st2"
    by (rule for_keysM_inv [OF st2, where P = small]) (use assms(2) addInstances_small in \<open>auto simp: small_simps\<close>)
  then show ?thesis unfolding st' by (intro fold_small) (simp_all add: small_simps)
qed

lemma sync_step_small:
  assumes "sync_step ord ev st = Some (st', out)" and "u \<in> set out"
  shows "finite (dom (iuInstances u))"
proof -
  let ?st = "st\<lparr>siUpdate := empty_update\<rparr>"
  obtain s where s: "handle_event ord ev ?st = Some s" and u: "u = siUpdate s"
    using assms by (auto simp: sync_step_def split: option.splits if_splits)
  have e: "small ?st" by (simp add: small_def empty_update_def)
  have "small s"
  proof (cases ev)
    case (ContainerUpdates c)
    from s [unfolded handle_event_def ContainerUpdates processContainerUpdate_def sync_event.case Let_def]
    show ?thesis
      by (rule for_keysM_inv [where P = small])
        (use e removeContainer_small addContainer_small in
          \<open>auto simp: small_def set_reset_def clearInstances_def split: option.splits\<close>)
  next
    case (ServiceUpdates c)
    from s [unfolded handle_event_def ServiceUpdates processServiceUpdate_def sync_event.case Let_def]
    show ?thesis
      by (rule for_keysM_inv [where P = small])
        (use e removeService_small updateService_small in
          \<open>auto simp: small_def set_reset_def clearInstances_def split: option.splits\<close>)
  next
    case InstanceUpdatesReset
    then show ?thesis using s e by (auto simp: handle_event_def requestReset_def small_def)
  qed
  then show ?thesis by (simp add: small_def u)
qed

lemma sync_run_small: "sync_run evs st = Some (st', outs) \<Longrightarrow> u \<in> set outs \<Longrightarrow> finite (dom (iuInstances u))"
proof (induction evs arbitrary: st outs)
  case (Cons x evs)
  then show ?case using sync_step_small by (cases x) (fastforce split: option.splits)
qed simp

end
