(* ===== verification/SyncProps.thy ===== *)
theory SyncProps
  imports SyncCorrect
begin

text \<open>
  The properties of the agent's matcher as theorems about runs of its event loop: completeness
  of the update stream, the matching criterion, the tables it holds, freedom from panics, the
  shape of reset updates, and two deviations the model shows.
\<close>

definition run_ok :: "(string ordering \<times> sync_event) list \<Rightarrow> bool" where
  "run_ok evs \<longleftrightarrow> (\<forall>(ord, ev) \<in> set evs. ordering_ok ord \<and> event_ok ev)"

lemma run_inv:
  assumes "sync_run evs (sync_start h n) = Some (st, outs)" and "run_ok evs"
  shows "sync_inv {} st \<and> (synced st \<longrightarrow> foldl apply_update v outs = inst_view st)"
  by (rule sync_run_inv [OF assms(1) sync_start_inv(1)])
    (use assms(2) sync_start_inv(2) in \<open>auto simp: run_ok_def\<close>)

section \<open>Totality\<close>

definition conts_env_ok :: "sync_state \<Rightarrow> bool" where
  "conts_env_ok st \<longleftrightarrow> (\<forall>c d. conts st c = Some d \<longrightarrow> env_ok d)"

definition event_env_ok :: "sync_event \<Rightarrow> bool" where
  "event_env_ok ev = (case ev of
     ContainerUpdates u \<Rightarrow> (\<forall>c d. cuContainers u c = Some (Some d) \<longrightarrow> env_ok d)
   | _ \<Rightarrow> True)"

lemma addInstances_frame:
  assumes "ordering_ok ord" and "info_ok (svInfo svc)" and "addInstances ord svc cont st = Some st'"
  shows "services_ok st \<Longrightarrow> services_ok st'" and "conts st' = conts st"
    and "services_map st' k = None \<longleftrightarrow> services_map st k = None"
    and "\<forall>k. iuInstances (siUpdate st) k \<noteq> Some None \<Longrightarrow> \<forall>k. iuInstances (siUpdate st') k \<noteq> Some None"
    and "infos st' = infos st"
    and "\<forall>k. k \<noteq> (svName svc, containerID cont) \<longrightarrow> iuInstances (siUpdate st') k = iuInstances (siUpdate st) k"
  using addInstances_result [OF assms]
  by (auto simp: sync_simps attach_def split: option.splits if_splits)

lemma addContainer_total:
  assumes "ordering_ok ord" and "services_ok st" and "env_ok cont"
  shows "\<exists>st'. addContainer ord cont st = Some st'"
proof -
  have "\<exists>st'. for_keysM services_map (\<lambda>svcName svc s. addInstances ord svc cont s) ks t = Some st'
      \<and> services_ok st'" if "services_ok t" for ks t
  proof (rule for_keysM_total)
    fix k svc s assume "services_map s k = Some svc" "services_ok s"
    moreover from this have "info_ok (svInfo svc)" by (simp add: services_ok_def)
    ultimately show "\<exists>s'. addInstances ord svc cont s = Some s' \<and> services_ok s'"
      using addInstances_total [OF assms(1) _ assms(3)] addInstances_frame(1) [OF assms(1)] by metis
  qed (rule that)
  moreover have "services_ok (st\<lparr>siContainers := x\<rparr>)" for x
    using assms(2) by (simp add: services_ok_def services_map_def)
  ultimately have "\<exists>st'. for_keysM services_map (\<lambda>svcName svc s. addInstances ord svc cont s) ks
      (st\<lparr>siContainers := x\<rparr>) = Some st'" for ks x
    by blast
  then show ?thesis
    unfolding addContainer_def Let_def by (auto split: option.split)
qed

lemma updateService_total:
  assumes "ordering_ok ord" and "info_ok info" and "conts_env_ok st"
  shows "\<exists>st'. updateService ord s info st = Some st'"
proof -
  have "\<exists>st'. for_keysM containers_map (\<lambda>cid cont t. addInstances ord svc (ctContainer cont) t) ks t = Some st'
      \<and> conts_env_ok st'" if "conts_env_ok t" "info_ok (svInfo svc)" for ks t svc
  proof (rule for_keysM_total)
    fix k cont t assume "containers_map t k = Some cont" "conts_env_ok t"
    moreover from this have "env_ok (ctContainer cont)"
      unfolding conts_env_ok_def conts_def by (metis option.simps(9))
    ultimately show "\<exists>t'. addInstances ord svc (ctContainer cont) t = Some t' \<and> conts_env_ok t'"
      using addInstances_total [OF assms(1) that(2)] addInstances_frame(2) [OF assms(1) that(2)]
      by (metis conts_env_ok_def)
  qed (rule that(1))
  moreover have "conts_env_ok (st\<lparr>siServices := x\<rparr>)" for x
    using assms(3) by (simp add: conts_env_ok_def conts_def containers_map_def)
  ultimately have "\<exists>st'. for_keysM containers_map (\<lambda>cid cont t. addInstances ord svc (ctContainer cont) t) ks
      (st\<lparr>siServices := x\<rparr>) = Some st'" if "info_ok (svInfo svc)" for ks svc x
    using that by blast
  note A = this [of "\<lparr>svName = s, svInfo = info, svInstances = Map.empty\<rparr>", simplified, OF assms(2)]
  show ?thesis
  proof (cases "siServices st")
    case None
    then show ?thesis by (simp add: updateService_def)
  next
    case (Some m)
    let ?st1 = "st\<lparr>siServices := Some (m(s \<mapsto> \<lparr>svName = s, svInfo = info, svInstances = Map.empty\<rparr>))\<rparr>"
    obtain st2 where "for_keysM containers_map (\<lambda>cid cont.
          addInstances ord \<lparr>svName = s, svInfo = info, svInstances = Map.empty\<rparr> (ctContainer cont))
        (ord [''containers'', s] (dom (containers_map ?st1))) ?st1 = Some st2"
      using A by blast
    then show ?thesis using Some by (simp add: updateService_def Let_def)
  qed
qed

lemma conts_env_ok_cong: "conts st' = conts st \<Longrightarrow> conts_env_ok st' = conts_env_ok st"
  by (simp add: conts_env_ok_def)

lemma container_loop_total:
  assumes ord: "ordering_ok ord" and "sync_inv {} st" and "tracked {} v st" and "conts_env_ok st"
    and m: "\<And>c d. m c = Some (Some d) \<Longrightarrow> env_ok d"
  shows "\<exists>st'. for_keysM (\<lambda>_. m)
           (\<lambda>cid cont s. case cont of Some c \<Rightarrow> addContainer ord c s
             | None \<Rightarrow> Some (removeContainer ord cid s)) ks st = Some st' \<and>
           (sync_inv {} st' \<and> tracked {} v st' \<and> conts_env_ok st')"
proof (rule for_keysM_total)
  fix k x t
  assume x: "m k = Some x" and P: "sync_inv {} t \<and> tracked {} v t \<and> conts_env_ok t"
  show "\<exists>t'. (case x of Some c \<Rightarrow> addContainer ord c t | None \<Rightarrow> Some (removeContainer ord k t)) = Some t'
      \<and> (sync_inv {} t' \<and> tracked {} v t' \<and> conts_env_ok t')"
  proof (cases x)
    case None
    then show ?thesis
      using removeContainer_inv [OF ord, of t v k] P by (auto simp: conts_env_ok_def)
  next
    case (Some c)
    then have e: "env_ok c" using m x by blast
    moreover have "services_ok t" using P by (simp add: sync_inv_def)
    ultimately obtain t' where t': "addContainer ord c t = Some t'"
      using addContainer_total [OF ord] by blast
    have "conts_env_ok t'"
      using addContainer_inv [OF ord _ _ t', of v] P e by (auto simp: conts_env_ok_def split: if_splits)
    then show ?thesis using addContainer_inv [OF ord _ _ t', of v] P Some t' by auto
  qed
qed (use assms in simp)

lemma service_loop_total:
  assumes ord: "ordering_ok ord" and "sync_inv {} st" and "tracked {} v st" and "conts_env_ok st"
    and m: "\<And>s info. m s = Some (Some info) \<Longrightarrow> info_ok info"
  shows "\<exists>st'. for_keysM (\<lambda>_. m)
           (\<lambda>s x st. case x of Some info \<Rightarrow> updateService ord s info st
             | None \<Rightarrow> Some (removeService ord s st)) ks st = Some st' \<and>
           (sync_inv {} st' \<and> tracked {} v st' \<and> conts_env_ok st')"
proof (rule for_keysM_total)
  fix k x t
  assume x: "m k = Some x" and P: "sync_inv {} t \<and> tracked {} v t \<and> conts_env_ok t"
  show "\<exists>t'. (case x of Some info \<Rightarrow> updateService ord k info t | None \<Rightarrow> Some (removeService ord k t)) = Some t'
      \<and> (sync_inv {} t' \<and> tracked {} v t' \<and> conts_env_ok t')"
  proof (cases x)
    case None
    then show ?thesis
      using removeService_inv [OF ord, of t v k] P by (simp add: conts_env_ok_def)
  next
    case (Some info)
    then have ok: "info_ok info" using m x by blast
    then obtain t' where t': "updateService ord k info t = Some t'"
      using updateService_total [OF ord] P by blast
    then have "sync_inv {} t' \<and> tracked {} v t' \<and> conts_env_ok t'"
      using updateService_inv [OF ord _ _ ok t', of v] P conts_env_ok_cong [of t' t] by blast
    then show ?thesis using Some t' by simp
  qed
qed (use assms in simp)

lemma handle_event_total:
  assumes ord: "ordering_ok ord" and inv: "sync_inv {} st" and clear: "siUpdate st = empty_update"
    and env: "conts_env_ok st" and ok: "event_ok ev" and eok: "event_env_ok ev"
  shows "\<exists>st'. handle_event ord ev st = Some st' \<and> conts_env_ok st'"
proof -
  have e: "iuInstances (siUpdate st) = Map.empty" using clear by (simp add: empty_update_def)
  have tr: "tracked {} (inst_view st) st"
    by (simp add: tracked_def clear empty_update_def apply_update_def)
  have trm: "tracked {} Map.empty t" if "inst_view t = Map.empty" "iuInstances (siUpdate t) = Map.empty" for t
    by (rule trackedI) (simp add: apply_update_def that)
  show ?thesis
  proof (cases ev)
    case (ContainerUpdates u)
    let ?r = "let s = clearInstances (st\<lparr>siContainers := Some Map.empty\<rparr>)
                in set_reset (siServices s \<noteq> None) s"
    have m: "\<And>c d. cuContainers u c = Some (Some d) \<Longrightarrow> env_ok d"
      using eok ContainerUpdates by (auto simp: event_env_ok_def)
    have "conts_env_ok ?r" using reset_containers_inv(4) [OF inv e] by (simp add: conts_env_ok_def Let_def)
    moreover have A: "\<exists>t'. for_keysM (\<lambda>_. cuContainers u)
           (\<lambda>cid cont s. case cont of Some c \<Rightarrow> addContainer ord c s
             | None \<Rightarrow> Some (removeContainer ord cid s)) ks t = Some t' \<and> conts_env_ok t'"
      if "sync_inv {} t" "tracked {} v t" "conts_env_ok t" for ks t v
      using container_loop_total [OF ord that, of "cuContainers u" ks] m by blast
    ultimately have "\<exists>t'. processContainerUpdate ord u st = Some t' \<and> conts_env_ok t'"
      using A [OF inv tr env] A [OF reset_containers_inv(1) [OF inv e] trm [OF reset_containers_inv(2,10) [OF inv e]]]
      unfolding processContainerUpdate_def Let_def by (cases "cuReset u") (simp_all only: if_True if_False)
    then show ?thesis using ContainerUpdates by (simp add: handle_event_def)
  next
    case (ServiceUpdates u)
    let ?r = "let s = clearInstances (st\<lparr>siServices := Some Map.empty\<rparr>)
                in set_reset (siContainers s \<noteq> None) s"
    have m: "\<And>s info. suServices u s = Some (Some info) \<Longrightarrow> info_ok info"
      using ok ServiceUpdates by (auto simp: event_ok_def)
    have "conts_env_ok ?r"
      using reset_services_inv(3) [OF inv e] env by (simp add: conts_env_ok_def Let_def)
    moreover have A: "\<exists>t'. for_keysM (\<lambda>_. suServices u)
           (\<lambda>s x st. case x of Some info \<Rightarrow> updateService ord s info st
             | None \<Rightarrow> Some (removeService ord s st)) ks t = Some t' \<and> conts_env_ok t'"
      if "sync_inv {} t" "tracked {} v t" "conts_env_ok t" for ks t v
      using service_loop_total [OF ord that, of "suServices u" ks] m by blast
    ultimately have "\<exists>t'. processServiceUpdate ord u st = Some t' \<and> conts_env_ok t'"
      using A [OF inv tr env] A [OF reset_services_inv(1) [OF inv e] trm [OF reset_services_inv(2,10) [OF inv e]]]
      unfolding processServiceUpdate_def Let_def by (cases "suReset u") (simp_all only: if_True if_False)
    then show ?thesis using ServiceUpdates by (simp add: handle_event_def)
  next
    case InstanceUpdatesReset
    then show ?thesis
      by (simp add: handle_event_def requestReset_def conts_env_ok_def conts_def containers_map_def)
  qed
qed

lemma sync_step_total:
  assumes "ordering_ok ord" and "sync_inv {} st" and "conts_env_ok st" and "event_ok ev" and "event_env_ok ev"
  shows "\<exists>st' out. sync_step ord ev st = Some (st', out) \<and> conts_env_ok st'"
proof -
  let ?st0 = "st\<lparr>siUpdate := empty_update\<rparr>"
  have c: "sync_inv {} ?st0 = sync_inv {} st" "conts ?st0 = conts st"
    by (rule sync_inv_cong; simp)+
  obtain s where s: "handle_event ord ev ?st0 = Some s" "conts_env_ok s"
    using handle_event_total [OF assms(1), of ?st0 ev] assms c by (auto simp: conts_env_ok_def)
  have "conts (s\<lparr>siUpdate := x\<rparr>) = conts s" for x
    by (rule sync_inv_cong) simp_all
  then show ?thesis using s by (auto simp: sync_step_def conts_env_ok_def)
qed

lemma sync_run_total:
  assumes "sync_inv {} st" and "conts_env_ok st" and "run_ok evs"
    and "\<forall>(ord, ev) \<in> set evs. event_env_ok ev"
  shows "\<exists>r. sync_run evs st = Some r"
  using assms
proof (induction evs arbitrary: st)
  case Nil
  then show ?case by simp
next
  case (Cons x evs)
  obtain ord ev where x: "x = (ord, ev)" by (cases x)
  have ok: "ordering_ok ord" "event_ok ev" "event_env_ok ev" "run_ok evs"
    using Cons.prems x by (auto simp: run_ok_def)
  obtain st1 out where step: "sync_step ord ev st = Some (st1, out)" "conts_env_ok st1"
    using sync_step_total [OF ok(1) Cons.prems(1,2) ok(2,3)] by blast
  have "sync_inv {} st1"
    using sync_step_inv [OF ok(1) Cons.prems(1) ok(2) _ step(1), of "inst_view st"] by simp
  then obtain r where "sync_run evs st1 = Some r"
    using Cons.IH [OF _ step(2) ok(4)] Cons.prems(4) by auto
  then show ?case using step(1) x by (auto split: prod.split)
qed

section \<open>Reset updates add only\<close>

definition no_nil :: "instance_update \<Rightarrow> bool" where
  "no_nil u \<longleftrightarrow> (\<forall>k. iuInstances u k \<noteq> Some None)"

definition event_ids_ok :: "sync_event \<Rightarrow> bool" where
  "event_ids_ok ev = (case ev of
     ContainerUpdates u \<Rightarrow> (\<forall>c d. cuContainers u c = Some (Some d) \<longrightarrow> containerID d = c)
   | _ \<Rightarrow> True)"

lemma addInstances_loop_no_nil:
  assumes "ordering_ok ord" and "services_ok st" and "no_nil (siUpdate st)"
    and "for_keysM services_map (\<lambda>svcName svc s. addInstances ord svc cont s) ks st = Some st'"
  shows "no_nil (siUpdate st')"
proof -
  have "services_ok st' \<and> no_nil (siUpdate st')"
  proof (rule for_keysM_inv [OF assms(4)])
    fix k svc s s'
    assume s: "services_ok s \<and> no_nil (siUpdate s)" and k: "services_map s k = Some svc"
      and step: "addInstances ord svc cont s = Some s'"
    have "info_ok (svInfo svc)" using s k by (auto simp: services_ok_def)
    from addInstances_frame(1,4) [OF assms(1) this step] s
    show "services_ok s' \<and> no_nil (siUpdate s')" by (simp add: no_nil_def)
  qed (use assms in simp)
  then show ?thesis by simp
qed

lemma addContainer_no_nil:
  assumes "ordering_ok ord" and "services_ok st" and "no_nil (siUpdate st)"
    and "addContainer ord cont st = Some st'"
  shows "no_nil (siUpdate st')"
proof -
  have "services_ok (st\<lparr>siContainers := x\<rparr>)" for x
    using assms(2) by (simp add: services_ok_def services_map_def)
  then have L: "no_nil (siUpdate st')"
    if "for_keysM services_map (\<lambda>svcName svc s. addInstances ord svc cont s) ks (st\<lparr>siContainers := x\<rparr>)
      = Some st'" for ks x
    using addInstances_loop_no_nil [OF assms(1) _ _ that] assms(3) by simp
  show ?thesis
  proof (cases "siContainers st")
    case None
    then show ?thesis using assms(3,4) by (simp add: addContainer_def)
  next
    case (Some cm)
    show ?thesis
    proof (cases "cm (containerID cont)")
      case None
      with assms(4) Some show ?thesis
        by (intro L [of _ "Some (cm(containerID cont \<mapsto> \<lparr>ctContainer = cont, ctInstances = {}\<rparr>))"])
          (simp add: addContainer_def Let_def)
    next
      case (Some e)
      then show ?thesis using assms(3,4) \<open>siContainers st = Some cm\<close> by (simp add: addContainer_def)
    qed
  qed
qed

lemma container_reset_no_nil:
  assumes ord: "ordering_ok ord" and "sync_inv {} st" and "tracked {} v st" and "conts st = Map.empty"
    and "no_nil (siUpdate st)" and fin: "finite (dom m)"
    and m: "\<And>c d. m c = Some (Some d) \<Longrightarrow> containerID d = c"
    and loop: "for_keysM (\<lambda>_. m)
           (\<lambda>cid cont s. case cont of Some c \<Rightarrow> addContainer ord c s
             | None \<Rightarrow> Some (removeContainer ord cid s)) (ord l (dom m)) st = Some st'"
  shows "no_nil (siUpdate st')"
proof -
  let ?P = "\<lambda>D t. sync_inv {} t \<and> tracked {} v t \<and> no_nil (siUpdate t) \<and> dom (conts t) \<subseteq> D"
  have "?P (set (ord l (dom m))) st'"
  proof (rule for_keysM_visited [OF loop])
    fix k x t t' D
    assume P: "?P D t" and new: "k \<notin> D" and x: "m k = Some x"
      and t': "(case x of Some c \<Rightarrow> addContainer ord c t | None \<Rightarrow> Some (removeContainer ord k t)) = Some t'"
    show "?P (insert k D) t'"
    proof (cases x)
      case None
      have "containers_map t k = None" using P new dom_conts by blast
      then have "t' = t" using t' None by (simp add: removeContainer_def)
      then show ?thesis using P by auto
    next
      case (Some c)
      then have c: "addContainer ord c t = Some t'" "containerID c = k" using t' m x by auto
      have "services_ok t" using P by (simp add: sync_inv_def)
      then have "no_nil (siUpdate t')" using addContainer_no_nil [OF ord _ _ c(1)] P by blast
      moreover have "sync_inv {} t' \<and> tracked {} v t' \<and> dom (conts t') \<subseteq> insert k (dom (conts t))"
        using addContainer_inv [OF ord _ _ c(1), of v] P c(2) by (auto split: if_splits)
      ultimately show ?thesis using P by blast
    qed
  qed (use assms in auto)
  then show ?thesis by simp
qed

lemma updateService_no_nil:
  assumes ord: "ordering_ok ord" and "info_ok info" and "no_nil (siUpdate st)"
    and new: "services_map st s = None" and step: "updateService ord s info st = Some st'"
  shows "no_nil (siUpdate st')"
proof (cases "siServices st")
  case None
  then show ?thesis using assms by (simp add: updateService_def)
next
  case (Some m)
  let ?svc = "\<lparr>svName = s, svInfo = info, svInstances = Map.empty\<rparr>"
  let ?st1 = "st\<lparr>siServices := Some (m(s \<mapsto> ?svc))\<rparr>"
  have "service_instances st s = Map.empty" using new by (simp add: service_instances_def)
  moreover have "ord l {} = []" for l using ordering_okD(2) [OF ord finite.emptyI] by simp
  ultimately have loop: "for_keysM containers_map (\<lambda>cid cont t. addInstances ord ?svc (ctContainer cont) t)
        (ord [''containers'', s] (dom (containers_map ?st1))) ?st1 = Some st'"
    using step Some by (auto simp: updateService_def Let_def split: option.splits)
  show ?thesis
  proof (rule for_keysM_inv [OF loop])
    show "no_nil (siUpdate ?st1)" using assms(3) by simp
  next
    fix k cont t t'
    assume "no_nil (siUpdate t)" "addInstances ord ?svc (ctContainer cont) t = Some t'"
    then show "no_nil (siUpdate t')"
      using addInstances_frame(4) [OF ord, of ?svc "ctContainer cont" t t'] assms(2) by (simp add: no_nil_def)
  qed
qed

lemma service_reset_no_nil:
  assumes ord: "ordering_ok ord" and "sync_inv {} st" and "tracked {} v st" and "infos st = Map.empty"
    and "no_nil (siUpdate st)" and fin: "finite (dom m)"
    and m: "\<And>s info. m s = Some (Some info) \<Longrightarrow> info_ok info"
    and loop: "for_keysM (\<lambda>_. m)
           (\<lambda>s x st. case x of Some info \<Rightarrow> updateService ord s info st
             | None \<Rightarrow> Some (removeService ord s st)) (ord l (dom m)) st = Some st'"
  shows "no_nil (siUpdate st')"
proof -
  let ?P = "\<lambda>D t. sync_inv {} t \<and> tracked {} v t \<and> no_nil (siUpdate t) \<and> dom (infos t) \<subseteq> D"
  have "?P (set (ord l (dom m))) st'"
  proof (rule for_keysM_visited [OF loop])
    fix k x t t' D
    assume P: "?P D t" and new: "k \<notin> D" and x: "m k = Some x"
      and t': "(case x of Some info \<Rightarrow> updateService ord k info t | None \<Rightarrow> Some (removeService ord k t)) = Some t'"
    have none: "services_map t k = None" using P new dom_infos by blast
    show "?P (insert k D) t'"
    proof (cases x)
      case None
      then have "t' = t" using t' none by (simp add: removeService_def)
      then show ?thesis using P by auto
    next
      case (Some info)
      then have i: "updateService ord k info t = Some t'" "info_ok info" using t' m x by auto
      then have "no_nil (siUpdate t')" using updateService_no_nil [OF ord i(2) _ none i(1)] P by blast
      moreover have "sync_inv {} t' \<and> tracked {} v t' \<and> dom (infos t') \<subseteq> insert k (dom (infos t))"
        using updateService_inv [OF ord _ _ i(2,1), of v] P by (auto split: if_splits)
      ultimately show ?thesis using P by blast
    qed
  qed (use assms in auto)
  then show ?thesis by simp
qed

lemma handle_event_reset:
  assumes ord: "ordering_ok ord" and inv: "sync_inv {} st" and clear: "siUpdate st = empty_update"
    and ok: "event_ok ev" "event_ids_ok ev" and step: "handle_event ord ev st = Some st'"
    and reset: "iuReset (siUpdate st')"
  shows "no_nil (siUpdate st')"
proof -
  have e: "iuInstances (siUpdate st) = Map.empty" using clear by (simp add: empty_update_def)
  have tr: "tracked {} (inst_view st) st"
    by (simp add: tracked_def clear empty_update_def apply_update_def)
  have trm: "tracked {} Map.empty t" if "inst_view t = Map.empty" "iuInstances (siUpdate t) = Map.empty" for t
    by (rule trackedI) (simp add: apply_update_def that)
  show ?thesis
  proof (cases ev)
    case (ContainerUpdates u)
    note step = step [unfolded handle_event_def ContainerUpdates sync_event.case processContainerUpdate_def Let_def]
    have "cuReset u"
    proof (rule ccontr)
      assume "\<not> cuReset u"
      with step container_loop_inv [OF ord inv tr] have "keeps_null st st'" by auto
      with reset clear show False by (simp add: keeps_null_def empty_update_def)
    qed
    note r = reset_containers_inv [OF inv e]
    show ?thesis
    proof (rule container_reset_no_nil [OF ord r(1) trm [OF r(2,10)] r(4)])
      show "for_keysM (\<lambda>_. cuContainers u) (\<lambda>cid cont s. case cont of Some c \<Rightarrow> addContainer ord c s
          | None \<Rightarrow> Some (removeContainer ord cid s)) (ord [''update''] (dom (cuContainers u)))
          (set_reset (siServices (clearInstances (st\<lparr>siContainers := Some Map.empty\<rparr>)) \<noteq> None)
             (clearInstances (st\<lparr>siContainers := Some Map.empty\<rparr>))) = Some st'"
        using step \<open>cuReset u\<close> by (simp only: if_True)
    qed (use ok ContainerUpdates r(10) in \<open>auto simp: event_ok_def event_ids_ok_def no_nil_def\<close>)
  next
    case (ServiceUpdates u)
    note step = step [unfolded handle_event_def ServiceUpdates sync_event.case processServiceUpdate_def Let_def]
    have m: "info_ok info" if "suServices u s = Some (Some info)" for s info
      using ok(1) ServiceUpdates that by (auto simp: event_ok_def)
    have "suReset u"
    proof (rule ccontr)
      assume "\<not> suReset u"
      with step service_loop_inv [where m = "suServices u", OF ord inv tr m] have "keeps_null st st'" by auto
      with reset clear show False by (simp add: keeps_null_def empty_update_def)
    qed
    note r = reset_services_inv [OF inv e]
    show ?thesis
    proof (rule service_reset_no_nil [OF ord r(1) trm [OF r(2,10)] r(4)])
      show "for_keysM (\<lambda>_. suServices u) (\<lambda>s x st. case x of Some info \<Rightarrow> updateService ord s info st
             | None \<Rightarrow> Some (removeService ord s st)) (ord [''update''] (dom (suServices u)))
          (set_reset (siContainers (clearInstances (st\<lparr>siServices := Some Map.empty\<rparr>)) \<noteq> None)
             (clearInstances (st\<lparr>siServices := Some Map.empty\<rparr>))) = Some st'"
        using step \<open>suReset u\<close> by (simp only: if_True)
    qed (use ok ServiceUpdates r(10) m in \<open>auto simp: event_ok_def no_nil_def\<close>)
  next
    case InstanceUpdatesReset
    then show ?thesis using step reset clear
      by (auto simp: handle_event_def requestReset_def empty_update_def)
  qed
qed

lemma sync_step_reset:
  assumes "ordering_ok ord" and "sync_inv {} st" and "event_ok ev" and "event_ids_ok ev"
    and "sync_step ord ev st = Some (st', out)" and "u \<in> set out" and "iuReset u"
  shows "no_nil u"
proof -
  let ?st0 = "st\<lparr>siUpdate := empty_update\<rparr>"
  have "sync_inv {} ?st0" using assms(2) sync_inv_cong(1) [of ?st0 st] by simp
  moreover obtain s where "handle_event ord ev ?st0 = Some s" "u = siUpdate s"
    using assms(5,6) by (auto simp: sync_step_def split: option.splits if_splits)
  ultimately show ?thesis using handle_event_reset [OF assms(1) _ _ assms(3,4)] assms(7) by auto
qed

lemma sync_run_reset:
  assumes "sync_run evs st = Some (st', outs)" and "sync_inv {} st" and "run_ok evs"
    and "\<forall>(ord, ev) \<in> set evs. event_ids_ok ev" and "u \<in> set outs" and "iuReset u"
  shows "no_nil u"
  using assms
proof (induction evs arbitrary: st outs)
  case Nil
  then show ?case by simp
next
  case (Cons x evs)
  obtain ord ev where x: "x = (ord, ev)" by (cases x)
  obtain st1 out outs1 where step: "sync_step ord ev st = Some (st1, out)"
    and rest: "sync_run evs st1 = Some (st', outs1)" and outs: "outs = out @ outs1"
    using Cons.prems(1) x by (auto split: option.splits)
  have ok: "ordering_ok ord" "event_ok ev" "event_ids_ok ev" "run_ok evs"
    using Cons.prems(3,4) x by (auto simp: run_ok_def)
  have inv1: "sync_inv {} st1"
    using sync_step_inv [OF ok(1) Cons.prems(2) ok(2) _ step, of "inst_view st"] by simp
  show ?case
    using Cons.prems(4-6) outs sync_step_reset [OF ok(1) Cons.prems(2) ok(2,3) step]
      Cons.IH [OF rest inv1 ok(4)] by auto
qed

section \<open>The tables\<close>

lemma service_table:
  assumes ord: "ordering_ok ord" and inv: "sync_inv {} st" and tr: "tracked {} v st"
    and known: "siServices st \<noteq> None" and fin: "finite (dom m)"
    and m: "\<And>s info. m s = Some (Some info) \<Longrightarrow> info_ok info"
    and loop: "for_keysM (\<lambda>_. m)
           (\<lambda>s x st. case x of Some info \<Rightarrow> updateService ord s info st
             | None \<Rightarrow> Some (removeService ord s st)) (ord l (dom m)) st = Some st'"
  shows "infos st' = (\<lambda>s. case m s of Some x \<Rightarrow> x | None \<Rightarrow> infos st s)"
proof -
  let ?P = "\<lambda>D t. sync_inv {} t \<and> tracked {} v t \<and> siServices t \<noteq> None \<and>
     infos t = (\<lambda>s. if s \<in> D then (case m s of Some x \<Rightarrow> x | None \<Rightarrow> infos st s) else infos st s)"
  have "?P (set (ord l (dom m))) st'"
  proof (rule for_keysM_visited [OF loop])
    fix k x t t' D
    assume P: "?P D t" and x: "m k = Some x"
      and t': "(case x of Some info \<Rightarrow> updateService ord k info t | None \<Rightarrow> Some (removeService ord k t)) = Some t'"
    show "?P (insert k D) t'"
    proof (cases x)
      case None
      then have t': "t' = removeService ord k t" using t' by simp
      show ?thesis
        using removeService_inv [OF ord, of t v k] P x None by (auto simp: t' fun_eq_iff)
    next
      case (Some info)
      then have i: "updateService ord k info t = Some t'" "info_ok info" using t' m x by auto
      show ?thesis
        using updateService_inv [OF ord _ _ i(2,1), of v] P x Some by (auto simp: fun_eq_iff)
    qed
  qed (use assms in auto)
  then have e: "infos st' = (\<lambda>s. if s \<in> set (ord l (dom m)) then (case m s of Some x \<Rightarrow> x | None \<Rightarrow> infos st s)
      else infos st s)" by blast
  have "set (ord l (dom m)) = dom m" using ord fin by simp
  then show ?thesis unfolding e by (auto simp: fun_eq_iff split: option.split)
qed

section \<open>Properties\<close>

text \<open>
  The agent's event loop never panics as long as every environment entry of every container
  it is told about has the form name=value.
\<close>

theorem sync_no_panic:
  assumes "run_ok evs" and "\<forall>(ord, ev) \<in> set evs. event_env_ok ev"
  shows "\<exists>st outs. sync_run evs (sync_start hostIP network) = Some (st, outs)"
proof -
  have "conts (sync_start hostIP network) = Map.empty"
    by (simp add: sync_start_def requestReset_def conts_def containers_map_def fun_eq_iff)
  then have "conts_env_ok (sync_start hostIP network)" by (simp add: conts_env_ok_def)
  from sync_run_total [OF sync_start_inv(1) this assms] show ?thesis by auto
qed

text \<open>
  C2: The agent's event loop runs through every sequence of container updates, service updates and
  reset requests without a panic, as long as every environment entry of every container it is told
  about has the form name=value. Whatever view of instances a consumer starts from, once the agent
  knows both the services and the containers, applying the updates it has sent leaves the consumer
  with exactly the agent's instances, for every map iteration order.
\<close>

theorem sync_updates_complete:
  assumes "run_ok evs"
  shows "((\<forall>(ord, ev) \<in> set evs. event_env_ok ev) \<longrightarrow>
      (\<exists>st outs. sync_run evs (sync_start hostIP network) = Some (st, outs))) \<and>
    (\<forall>st outs. sync_run evs (sync_start hostIP network) = Some (st, outs) \<longrightarrow>
       siServices st \<noteq> None \<longrightarrow> siContainers st \<noteq> None \<longrightarrow> foldl apply_update v outs = inst_view st)"
  using sync_no_panic [OF assms] run_inv [OF _ assms] by (auto simp: synced_def)

text \<open>
  C6: In every reachable state of the agent a container is an instance of a service exactly when
  some container rule of the service selects it, and the instance is the one extracted by such a
  rule.
\<close>

theorem sync_matches_rules:
  assumes "run_ok evs" and "sync_run evs (sync_start hostIP network) = Some (st, outs)"
  shows "(inst_view st (s, c) \<noteq> None \<longleftrightarrow> selected st s c) \<and>
    (\<forall>i. inst_view st (s, c) = Some i \<longrightarrow> candidate st s c i)"
proof -
  have inv: "sync_inv {} st" using run_inv [OF assms(2,1)] by simp
  moreover have "candidate st s c i \<Longrightarrow> selected st s c" for i
    by (auto simp: candidate_def selected_def)
  ultimately show ?thesis unfolding sync_inv_def by blast
qed

text \<open>
  An update marked as a reset never withdraws an instance, provided container updates are
  keyed by the containers' own IDs. (The server-side balancer dereferences every instance of a
  reset update without a nil check, so it relies on this.)
\<close>

theorem sync_reset_adds_only:
  assumes "run_ok evs" and "\<forall>(ord, ev) \<in> set evs. event_ids_ok ev"
    and "sync_run evs (sync_start hostIP network) = Some (st, outs)"
    and "u \<in> set outs" and "iuReset u"
  shows "iuInstances u k \<noteq> Some None"
  using sync_run_reset [OF assms(3) sync_start_inv(1) assms(1,2,4,5)]
  by (cases k) (simp add: no_nil_def)

text \<open>
  Processing a service update leaves the agent with exactly the services the update
  describes: named services take the new definition or go away, the others stay, or go away when
  the update is a reset.
\<close>

theorem sync_service_table:
  assumes "ordering_ok ord" and "event_ok (ServiceUpdates u)" and "sync_inv {} st"
    and "siUpdate st = empty_update" and "suReset u \<or> siServices st \<noteq> None"
    and "processServiceUpdate ord u st = Some st'"
  shows "infos st' = (\<lambda>s. case suServices u s of Some x \<Rightarrow> x
                          | None \<Rightarrow> if suReset u then None else infos st s)"
proof -
  have e: "iuInstances (siUpdate st) = Map.empty" using assms(4) by (simp add: empty_update_def)
  have tr: "tracked {} (inst_view st) st"
    by (simp add: tracked_def assms(4) empty_update_def apply_update_def)
  have m: "finite (dom (suServices u))" "\<And>s info. suServices u s = Some (Some info) \<Longrightarrow> info_ok info"
    using assms(2) by (auto simp: event_ok_def)
  note step = assms(6) [unfolded processServiceUpdate_def Let_def]
  show ?thesis
  proof (cases "suReset u")
    case False
    have "infos st' = (\<lambda>s. case suServices u s of Some x \<Rightarrow> x | None \<Rightarrow> infos st s)"
      by (rule service_table [OF assms(1,3) tr _ m]) (use step assms(5) False in auto)
    then show ?thesis using False by (simp add: fun_eq_iff split: option.split)
  next
    case True
    define st1 where "st1 = set_reset (siContainers (clearInstances (st\<lparr>siServices := Some Map.empty\<rparr>)) \<noteq> None)
        (clearInstances (st\<lparr>siServices := Some Map.empty\<rparr>))"
    note r = reset_services_inv [OF assms(3) e, folded st1_def]
    have t: "tracked {} Map.empty st1"
      by (rule trackedI) (simp only: apply_update_def r, simp)
    have s: "for_keysM (\<lambda>_. suServices u)
           (\<lambda>svcName svcInfo s. case svcInfo of
               Some info \<Rightarrow> updateService ord svcName info s
             | None \<Rightarrow> Some (removeService ord svcName s))
           (ord [''update''] (dom (suServices u))) st1 = Some st'"
      using step by (simp only: True if_True st1_def)
    from service_table [where m = "suServices u", OF assms(1) r(1) t r(6) m s]
    have "infos st' = (\<lambda>s. case suServices u s of Some x \<Rightarrow> x | None \<Rightarrow> infos st1 s)" .
    moreover have "infos st1 = Map.empty" by (rule r(4))
    ultimately show ?thesis by (simp add: True fun_eq_iff split: option.split)
  qed
qed

end
