(* ===== verification/SyncWitness.thy ===== *)
theory SyncWitness
  imports SyncProps
begin

text \<open>
  A concrete run of the agent's matcher, from its start over a container update and a service
  update to the instance update it emits; the properties of the matcher applied to that run; and
  closed runs that show three deviations of the code from its documentation.
\<close>

section \<open>A run\<close>

definition demo_container :: docker_container where
  "demo_container = \<lparr>containerID = ''c1'', cfgImage = ''nginx:1.9'', cfgLabels = Map.empty,
     cfgEnv = [''ROLE=web''], networkMode = ''host'', netPorts = Map.empty, netIPAddress = ''''\<rparr>"

definition demo_rule :: container_rule where
  "demo_rule = \<lparr>Selector = [''image'' \<mapsto> ''nginx''], ruleInstancePort = 0\<rparr>"

definition demo_service :: service_info where
  "demo_service = \<lparr>Address = None, InstancePort = 80, Protocol = ''http'', Instances = Map.empty,
     ContainerRules = [''default'' \<mapsto> demo_rule], IngressInstances = Map.empty\<rparr>"

definition demo_ip :: ip where
  "demo_ip = map char_of [10::nat, 0, 0, 1]"

definition demo_instance :: inst where
  "demo_instance = \<lparr>instHost = \<lparr>hostAddr = demo_ip\<rparr>, instContainerRule = '''',
     instAddress = Some \<lparr>ipBytes = demo_ip, ipPortNum = 80\<rparr>,
     instLabels = [''tag'' \<mapsto> ''1.9'', ''image'' \<mapsto> ''nginx'', ''env.ROLE'' \<mapsto> ''web'']\<rparr>"

definition demo_events :: "(string ordering \<times> sync_event) list" where
  "demo_events =
     [(sorted_ordering, ContainerUpdates \<lparr>cuContainers = [''c1'' \<mapsto> Some demo_container], cuReset = True\<rparr>),
      (sorted_ordering, ServiceUpdates \<lparr>suServices = [''web'' \<mapsto> Some demo_service], suReset = True\<rparr>)]"

lemma demo_includes: "extractInstance sorted_ordering l demo_ip n demo_container demo_service demo_rule
  = Some (Some demo_instance)"
  by (simp add: extractInstance_def rule_Includes_def selector_Includes_def sorted_ordering_def
     demo_container_def demo_service_def demo_rule_def container_Label_def imageName_def imageTag_def
     demo_instance_def extractAddress_def newIPPort_def splitN2_def)

definition demo_state :: "(string \<rightharpoonup> service_entry) option \<Rightarrow> string set \<Rightarrow> instance_update \<Rightarrow> sync_state" where
  "demo_state svcs insts u = \<lparr>siHostIP = demo_ip, siNetwork = ''local'', siServices = svcs,
     siContainers = Some [''c1'' \<mapsto> \<lparr>ctContainer = demo_container, ctInstances = insts\<rparr>],
     siUpdate = u, siContainerReset = True, siServiceReset = True\<rparr>"

lemma demo_step1:
  "sync_step sorted_ordering (snd (demo_events ! 0)) (sync_start demo_ip ''local'')
     = Some (demo_state None {} empty_update, [])"
  by (simp add: demo_events_def sync_step_def handle_event_def processContainerUpdate_def
    sync_start_def requestReset_def empty_update_def clearInstances_def set_reset_def
    sorted_ordering_def addContainer_def services_map_def demo_container_def demo_state_def)

lemma demo_addInstances:
  "addInstances sorted_ordering \<lparr>svName = ''web'', svInfo = demo_service, svInstances = m\<rparr> demo_container
     (demo_state (Some [''web'' \<mapsto> \<lparr>svName = ''web'', svInfo = demo_service, svInstances = Map.empty\<rparr>]) {} u) =
   Some (attach ''web'' ''c1'' demo_instance
     (demo_state (Some [''web'' \<mapsto> \<lparr>svName = ''web'', svInfo = demo_service, svInstances = Map.empty\<rparr>]) {} u))"
proof -
  have "ContainerRules demo_service = [''default'' \<mapsto> demo_rule]" "containerID demo_container = ''c1''"
    by (simp_all add: demo_service_def demo_container_def)
  then show ?thesis
    by (simp add: addInstances_def demo_state_def demo_includes sorted_ordering_def)
qed

abbreviation demo_entry :: "(string \<rightharpoonup> inst) \<Rightarrow> service_entry" where
  "demo_entry m \<equiv> \<lparr>svName = ''web'', svInfo = demo_service, svInstances = m\<rparr>"

lemma demo_reset:
  "clearInstances ((demo_state None {} u)\<lparr>siServices := Some Map.empty\<rparr>) = demo_state (Some Map.empty) {} u"
  by (auto simp: clearInstances_def demo_state_def fun_eq_iff)

lemma demo_attach:
  "attach ''web'' ''c1'' demo_instance (demo_state (Some [''web'' \<mapsto> demo_entry Map.empty]) {} u) =
   demo_state (Some [''web'' \<mapsto> demo_entry [''c1'' \<mapsto> demo_instance]]) {''web''}
     (u\<lparr>iuInstances := (iuInstances u)((''web'', ''c1'') \<mapsto> Some demo_instance)\<rparr>)"
  by (auto simp: attach_def updateInstance_def put_container_inst_def put_service_inst_def demo_state_def
    fun_eq_iff)

lemma demo_updateService:
  "updateService sorted_ordering ''web'' demo_service (demo_state (Some Map.empty) {} u) =
   Some (demo_state (Some [''web'' \<mapsto> demo_entry [''c1'' \<mapsto> demo_instance]]) {''web''}
     (u\<lparr>iuInstances := (iuInstances u)((''web'', ''c1'') \<mapsto> Some demo_instance)\<rparr>))"
proof -
  let ?st = "demo_state (Some [''web'' \<mapsto> demo_entry Map.empty]) {} u"
  have upd: "(demo_state (Some Map.empty) {} u)\<lparr>siServices := Some [''web'' \<mapsto> demo_entry Map.empty]\<rparr> = ?st"
    by (simp add: demo_state_def)
  have cm: "containers_map ?st = [''c1'' \<mapsto> \<lparr>ctContainer = demo_container, ctInstances = {}\<rparr>]"
    by (simp add: demo_state_def containers_map_def)
  have "siServices (demo_state (Some Map.empty) {} u) = Some Map.empty" by (simp add: demo_state_def)
  moreover have "service_instances (demo_state (Some Map.empty) {} u) ''web'' = Map.empty"
    by (simp add: demo_state_def service_instances_def services_map_def)
  ultimately show ?thesis
    unfolding updateService_def
    by (simp add: Let_def upd cm demo_addInstances demo_attach sorted_ordering_def)
qed

lemma demo_step2:
  "sync_step sorted_ordering (snd (demo_events ! 1)) (demo_state None {} empty_update) =
     Some (demo_state (Some [''web'' \<mapsto> demo_entry [''c1'' \<mapsto> demo_instance]]) {''web''}
             \<lparr>iuInstances = Map.empty, iuReset = True\<rparr>,
       [\<lparr>iuInstances = [(''web'', ''c1'') \<mapsto> Some demo_instance], iuReset = True\<rparr>])"
proof -
  have "(demo_state None {} empty_update)\<lparr>siUpdate := empty_update\<rparr> = demo_state None {} empty_update"
    by (simp add: demo_state_def)
  moreover have "set_reset (siContainers (demo_state (Some Map.empty) {} empty_update) \<noteq> None)
      (demo_state (Some Map.empty) {} empty_update) =
      demo_state (Some Map.empty) {} \<lparr>iuInstances = Map.empty, iuReset = True\<rparr>"
    by (simp add: demo_state_def set_reset_def empty_update_def)
  ultimately have "handle_event sorted_ordering (snd (demo_events ! 1))
      ((demo_state None {} empty_update)\<lparr>siUpdate := empty_update\<rparr>) =
    updateService sorted_ordering ''web'' demo_service
      (demo_state (Some Map.empty) {} \<lparr>iuInstances = Map.empty, iuReset = True\<rparr>)"
    by (simp add: demo_events_def handle_event_def processServiceUpdate_def Let_def demo_reset
      sorted_ordering_def split: option.split)
  then show ?thesis
    unfolding sync_step_def demo_updateService by (simp add: demo_state_def)
qed

lemma demo_run:
  "sync_run demo_events (sync_start demo_ip ''local'') =
     Some (demo_state (Some [''web'' \<mapsto> demo_entry [''c1'' \<mapsto> demo_instance]]) {''web''}
             \<lparr>iuInstances = Map.empty, iuReset = True\<rparr>,
       [\<lparr>iuInstances = [(''web'', ''c1'') \<mapsto> Some demo_instance], iuReset = True\<rparr>])"
  using demo_step1 demo_step2 by (simp add: demo_events_def)

abbreviation demo_final :: sync_state where
  "demo_final \<equiv> demo_state (Some [''web'' \<mapsto> demo_entry [''c1'' \<mapsto> demo_instance]]) {''web''}
     \<lparr>iuInstances = Map.empty, iuReset = True\<rparr>"

abbreviation demo_out :: instance_update where
  "demo_out \<equiv> \<lparr>iuInstances = [(''web'', ''c1'') \<mapsto> Some demo_instance], iuReset = True\<rparr>"

lemma demo_run_ok: "run_ok demo_events"
  by (simp add: run_ok_def demo_events_def event_ok_def info_ok_def demo_service_def demo_rule_def)

lemma demo_env_ok: "\<forall>(ord, ev) \<in> set demo_events. event_env_ok ev"
  by (simp add: demo_events_def event_env_ok_def env_ok_def demo_container_def)

lemma demo_ids_ok: "\<forall>(ord, ev) \<in> set demo_events. event_ids_ok ev"
  by (simp add: demo_events_def event_ids_ok_def demo_container_def)

section \<open>The properties at the run\<close>

theorem sync_updates_complete_witness:
  "(\<exists>st outs. sync_run demo_events (sync_start demo_ip ''local'') = Some (st, outs)) \<and>
    foldl apply_update Map.empty [demo_out] = inst_view demo_final"
proof -
  have "siServices demo_final \<noteq> None" "siContainers demo_final \<noteq> None" by (simp_all add: demo_state_def)
  then show ?thesis
    using sync_updates_complete [OF demo_run_ok, of demo_ip "''local''" Map.empty] demo_env_ok demo_run by blast
qed

theorem sync_matches_rules_witness:
  "inst_view demo_final (''web'', ''c1'') = Some demo_instance \<and> selected demo_final ''web'' ''c1'' \<and>
   candidate demo_final ''web'' ''c1'' demo_instance"
proof -
  have "inst_view demo_final (''web'', ''c1'') = Some demo_instance"
    by (simp add: demo_state_def inst_view_def service_instances_def services_map_def)
  then show ?thesis using sync_matches_rules [OF demo_run_ok demo_run, of "''web''" "''c1''"] by simp
qed

theorem sync_reset_adds_only_witness: "iuInstances demo_out (''web'', ''c1'') \<noteq> Some None"
  by (rule sync_reset_adds_only [OF demo_run_ok demo_ids_ok demo_run]) simp_all

theorem sync_service_table_witness:
  "\<exists>st'. processServiceUpdate sorted_ordering \<lparr>suServices = [''web'' \<mapsto> Some demo_service], suReset = True\<rparr>
     (demo_state None {} empty_update) = Some st' \<and> infos st' = [''web'' \<mapsto> demo_service]"
proof -
  let ?st = "demo_state None {} empty_update"
  let ?u = "\<lparr>suServices = [''web'' \<mapsto> Some demo_service], suReset = True\<rparr>"
  have "?st\<lparr>siUpdate := empty_update\<rparr> = ?st" by (simp add: demo_state_def)
  then obtain st' where st': "processServiceUpdate sorted_ordering ?u ?st = Some st'"
    using demo_step2 by (auto simp: sync_step_def handle_event_def demo_events_def split: option.splits)
  have "sync_run [demo_events ! 0] (sync_start demo_ip ''local'') = Some (?st, [])"
    using demo_step1 by (simp add: demo_events_def)
  moreover have "run_ok [demo_events ! 0]" using demo_run_ok by (simp add: run_ok_def demo_events_def)
  ultimately have inv: "sync_inv {} ?st" using run_inv by blast
  have ev: "event_ok (ServiceUpdates ?u)" using demo_run_ok by (simp add: run_ok_def demo_events_def)
  have "infos st' = [''web'' \<mapsto> demo_service]"
    by (subst sync_service_table [OF sorted_ordering_ok ev inv _ _ st']) (auto simp: demo_state_def fun_eq_iff)
  with st' show ?thesis by blast
qed

section \<open>A withdrawal of an instance that does not exist\<close>

text \<open>
  The service is replaced by one whose rule no longer matches the container: \<open>updateService\<close>
  withdraws the instance but leaves the service in the container's \<open>instances\<close> map. When the
  container later goes away, \<open>removeContainer\<close> withdraws the instance a second time.
\<close>

definition demo_service2 :: service_info where
  "demo_service2 = demo_service\<lparr>ContainerRules :=
     [''default'' \<mapsto> \<lparr>Selector = [''image'' \<mapsto> ''redis''], ruleInstancePort = 0\<rparr>]\<rparr>"

definition demo_more :: "(string ordering \<times> sync_event) list" where
  "demo_more =
     [(sorted_ordering, ServiceUpdates \<lparr>suServices = [''web'' \<mapsto> Some demo_service2], suReset = False\<rparr>),
      (sorted_ordering, ContainerUpdates \<lparr>cuContainers = [''c1'' \<mapsto> None], cuReset = False\<rparr>)]"

abbreviation demo_entry2 :: service_entry where
  "demo_entry2 \<equiv> \<lparr>svName = ''web'', svInfo = demo_service2, svInstances = Map.empty\<rparr>"

lemma demo_excludes:
  "extractInstance sorted_ordering l demo_ip n demo_container svc
     \<lparr>Selector = [''image'' \<mapsto> ''redis''], ruleInstancePort = 0\<rparr> = Some None"
  by (simp add: extractInstance_def rule_Includes_def selector_Includes_def sorted_ordering_def
     demo_container_def container_Label_def imageName_def)

lemma demo_step3:
  "sync_step sorted_ordering (snd (demo_more ! 0)) demo_final =
     Some (demo_state (Some [''web'' \<mapsto> demo_entry2]) {''web''} empty_update,
       [\<lparr>iuInstances = [(''web'', ''c1'') \<mapsto> None], iuReset = False\<rparr>])"
proof -
  let ?s = "\<lambda>u. demo_state (Some [''web'' \<mapsto> demo_entry2]) {''web''} u"
  let ?f = "demo_state (Some [''web'' \<mapsto> demo_entry [''c1'' \<mapsto> demo_instance]]) {''web''} empty_update"
  have a: "?f\<lparr>siServices := Some [''web'' \<mapsto> demo_entry2]\<rparr> = ?s empty_update" by (simp add: demo_state_def)
  have b: "demo_final\<lparr>siUpdate := empty_update\<rparr> = ?f" by (simp add: demo_state_def)
  have cm: "containers_map (?s u) = [''c1'' \<mapsto> \<lparr>ctContainer = demo_container, ctInstances = {''web''}\<rparr>]" for u
    by (simp add: demo_state_def containers_map_def)
  have f: "siServices ?f = Some [''web'' \<mapsto> demo_entry [''c1'' \<mapsto> demo_instance]]" by (simp add: demo_state_def)
  have old: "service_instances ?f ''web'' = [''c1'' \<mapsto> demo_instance]"
    by (simp add: demo_state_def service_instances_def services_map_def)
  have new: "service_instances (?s u) ''web'' = Map.empty" for u
    by (simp add: demo_state_def service_instances_def services_map_def)
  have rules: "ContainerRules demo_service2 =
      [''default'' \<mapsto> \<lparr>Selector = [''image'' \<mapsto> ''redis''], ruleInstancePort = 0\<rparr>]"
    by (simp add: demo_service2_def)
  have "siHostIP (?s u) = demo_ip" for u by (simp add: demo_state_def)
  then have add: "addInstances sorted_ordering demo_entry2 demo_container (?s u) = Some (?s u)" for u
    by (simp add: addInstances_def rules demo_excludes sorted_ordering_def)
  have "updateInstance ''web'' ''c1'' None (?s empty_update) =
      ?s \<lparr>iuInstances = [(''web'', ''c1'') \<mapsto> None], iuReset = False\<rparr>"
    by (simp add: updateInstance_def demo_state_def empty_update_def)
  then have "updateService sorted_ordering ''web'' demo_service2 ?f =
      Some (?s \<lparr>iuInstances = [(''web'', ''c1'') \<mapsto> None], iuReset = False\<rparr>)"
    unfolding updateService_def f old
    by (simp add: Let_def a cm add new sorted_ordering_def)
  then show ?thesis
    by (simp add: sync_step_def handle_event_def processServiceUpdate_def demo_more_def b sorted_ordering_def
       demo_state_def empty_update_def)
qed

lemma demo_step4:
  "\<exists>st. sync_step sorted_ordering (snd (demo_more ! 1))
       (demo_state (Some [''web'' \<mapsto> demo_entry2]) {''web''} empty_update) =
     Some (st, [\<lparr>iuInstances = [(''web'', ''c1'') \<mapsto> None], iuReset = False\<rparr>])"
proof -
  let ?s = "demo_state (Some [''web'' \<mapsto> demo_entry2]) {''web''} empty_update"
  have a: "?s\<lparr>siUpdate := empty_update\<rparr> = ?s" by (simp add: demo_state_def)
  have cm: "containers_map ?s ''c1'' = Some \<lparr>ctContainer = demo_container, ctInstances = {''web''}\<rparr>"
    by (simp add: demo_state_def containers_map_def)
  have "siUpdate (removeContainer sorted_ordering ''c1'' ?s) =
      \<lparr>iuInstances = [(''web'', ''c1'') \<mapsto> None], iuReset = False\<rparr>"
    unfolding removeContainer_def cm
    by (simp add: demo_state_def sorted_ordering_def updateInstance_def put_service_inst_def empty_update_def)
  then show ?thesis
    by (simp add: sync_step_def handle_event_def processContainerUpdate_def demo_more_def a sorted_ordering_def)
qed

text \<open>
  There is a run of the matcher, over ordinary updates, whose last instance update withdraws
  an instance that its consumers no longer have.
\<close>

theorem sync_stale_withdrawal:
  "\<exists>st out1 out2 out3. sync_run (demo_events @ demo_more) (sync_start demo_ip ''local'') =
     Some (st, [out1, out2, out3]) \<and>
     foldl apply_update Map.empty [out1, out2] (''web'', ''c1'') = None \<and>
     iuInstances out3 (''web'', ''c1'') = Some None"
proof -
  obtain st where st: "sync_step sorted_ordering (snd (demo_more ! 1))
       (demo_state (Some [''web'' \<mapsto> demo_entry2]) {''web''} empty_update) =
     Some (st, [\<lparr>iuInstances = [(''web'', ''c1'') \<mapsto> None], iuReset = False\<rparr>])"
    using demo_step4 by blast
  let ?o = "\<lparr>iuInstances = [(''web'', ''c1'') \<mapsto> None], iuReset = False\<rparr>"
  have "sync_run (demo_events @ demo_more) (sync_start demo_ip ''local'') = Some (st, [demo_out, ?o, ?o])"
    using st demo_step1 demo_step2 demo_step3 by (simp add: demo_events_def demo_more_def)
  then show ?thesis by (intro exI conjI) (auto simp: apply_update_def)
qed

section \<open>Labels of extracted instances\<close>

text \<open>
  Selecting on an environment label compares with the part of the value before its next
  equals sign, while the instance's label holds the whole value.
\<close>

theorem env_label_truncated:
  "container_Label (demo_container\<lparr>cfgEnv := [''OPTS=a=b'']\<rparr>) ''env.OPTS'' = Some ''a'' \<and>
   map_option (\<lambda>m. m ''env.OPTS'') (add_env_labels [''OPTS=a=b''] Map.empty) = Some (Some ''a=b'')"
  by (simp add: container_Label_def demo_container_def splitN2_def)

text \<open>
  The image of a container from a registry with a port and no tag is split at the port.
\<close>

theorem image_registry_port:
  "imageName ''registry:5000/nginx'' = ''registry'' \<and> imageTag ''registry:5000/nginx'' = ''5000/nginx''"
  by (simp add: imageName_def imageTag_def)

end
