(* ===== verification/Inmem.thy ===== *)
theory Inmem
  imports StoreData
begin

text \<open>
  The in-memory store (\<open>common/store/inmem/inmem.go\<close>), an implementation of \<open>store.Store\<close>. The
  operations take and return the store; what they send to watchers is appended to the store's
  log, in order, with the watcher that receives it. \<open>None\<close> is a panic: the code writes to the
  instance map of a service without looking whether the service is there.
\<close>

section \<open>State\<close>

datatype store_error =
    NotFound string
  | NoSuchInstance string string
  | NoSuchIngressInstance string ipport
  | NeverHadHeartbeats string
  | StoreError string

record session_host =
  shHost :: host
  shSession :: string

record session_instance =
  seInstance :: inst
  seSession :: string

record session_ingress =
  sgInstance :: ingress_instance
  sgSession :: string

text \<open>A watcher with the channel (and error sink) it was made with.\<close>

datatype watcher =
    ServiceWatcher nat query_opts
  | HostWatcher nat

datatype store_event =
    ServiceChanged nat service_change
  | HostChanged nat host_change
  | ErrorPosted nat store_error

record in_mem =
  imServices :: "string \<rightharpoonup> service"
  imGroupSpecs :: "string \<rightharpoonup> (string \<rightharpoonup> container_rule)"
  imInstances :: "string \<rightharpoonup> (string \<rightharpoonup> session_instance)"
  imIngress :: "string \<rightharpoonup> (ipport \<rightharpoonup> session_ingress)"
  imHosts :: "string \<rightharpoonup> session_host"
  imHeartbeats :: "string \<rightharpoonup> int"
  imTimers :: "string \<rightharpoonup> int"
  imWatchers :: "watcher list"
  imInjected :: "store_error option"
  imLog :: "store_event list"

definition NewInMem :: in_mem where
  "NewInMem = \<lparr>imServices = Map.empty, imGroupSpecs = Map.empty, imInstances = Map.empty,
     imIngress = Map.empty, imHosts = Map.empty, imHeartbeats = Map.empty, imTimers = Map.empty,
     imWatchers = [], imInjected = None, imLog = []\<rparr>"

section \<open>Watchers\<close>

definition watcher_chan :: "watcher \<Rightarrow> nat" where
  "watcher_chan w = (case w of ServiceWatcher ch _ \<Rightarrow> ch | HostWatcher ch \<Rightarrow> ch)"

definition addWatcher :: "watcher \<Rightarrow> in_mem \<Rightarrow> in_mem" where
  "addWatcher w s = s\<lparr>imWatchers := imWatchers s @ [w]\<rparr>"

text \<open>The cancellation of a watcher's context: the first equal watcher goes.\<close>

definition discardWatcher :: "watcher \<Rightarrow> in_mem \<Rightarrow> in_mem" where
  "discardWatcher w s = s\<lparr>imWatchers := remove1 w (imWatchers s)\<rparr>"

fun service_events :: "service_change \<Rightarrow> (query_opts \<Rightarrow> bool) option \<Rightarrow> watcher list \<Rightarrow> store_event list" where
  "service_events ev filt [] = []"
| "service_events ev filt (HostWatcher ch # ws) = service_events ev filt ws"
| "service_events ev filt (ServiceWatcher ch opts # ws) =
     (if (case filt of None \<Rightarrow> True | Some f \<Rightarrow> f opts)
      then ServiceChanged ch ev # service_events ev filt ws else service_events ev filt ws)"

definition fireServiceChange :: "string \<Rightarrow> bool \<Rightarrow> (query_opts \<Rightarrow> bool) option \<Rightarrow> in_mem \<Rightarrow> in_mem" where
  "fireServiceChange name deleted filt s =
     s\<lparr>imLog := imLog s @ service_events \<lparr>scName = name, scServiceDeleted = deleted\<rparr> filt (imWatchers s)\<rparr>"

fun host_events :: "host_change \<Rightarrow> watcher list \<Rightarrow> store_event list" where
  "host_events ev [] = []"
| "host_events ev (HostWatcher ch # ws) = HostChanged ch ev # host_events ev ws"
| "host_events ev (ServiceWatcher ch opts # ws) = host_events ev ws"

definition fireHostChange :: "string \<Rightarrow> bool \<Rightarrow> in_mem \<Rightarrow> in_mem" where
  "fireHostChange name departed s =
     s\<lparr>imLog := imLog s @ host_events \<lparr>hcName = name, hcHostDeparted = departed\<rparr> (imWatchers s)\<rparr>"

definition WatchServices :: "nat \<Rightarrow> query_opts \<Rightarrow> in_mem \<Rightarrow> in_mem" where
  "WatchServices ch opts s =
     (case imInjected s of
        Some e \<Rightarrow> s\<lparr>imLog := imLog s @ [ErrorPosted ch e]\<rparr>
      | None \<Rightarrow> addWatcher (ServiceWatcher ch opts) s)"

definition WatchHosts :: "nat \<Rightarrow> in_mem \<Rightarrow> in_mem" where
  "WatchHosts ch s = addWatcher (HostWatcher ch) s"

definition InjectError :: "store_error option \<Rightarrow> in_mem \<Rightarrow> in_mem" where
  "InjectError e s =
     (let s1 = s\<lparr>imInjected := e\<rparr> in
      case e of None \<Rightarrow> s1
      | Some err \<Rightarrow> s1\<lparr>imLog := imLog s1 @ map (\<lambda>w. ErrorPosted (watcher_chan w) err) (imWatchers s1)\<rparr>)"

definition Ping :: "in_mem \<Rightarrow> store_error option" where
  "Ping s = imInjected s"

section \<open>Hosts and sessions\<close>

definition RegisterHost :: "string \<Rightarrow> string \<Rightarrow> host \<Rightarrow> in_mem \<Rightarrow> in_mem" where
  "RegisterHost sess ident details s =
     fireHostChange ident False
       (s\<lparr>imHosts := (imHosts s)(ident \<mapsto> \<lparr>shHost = details, shSession = sess\<rparr>)\<rparr>)"

definition deleteHost :: "string \<Rightarrow> in_mem \<Rightarrow> in_mem" where
  "deleteHost ident s = fireHostChange ident True (s\<lparr>imHosts := (imHosts s)(ident := None)\<rparr>)"

definition DeregisterHost :: "string \<Rightarrow> in_mem \<Rightarrow> in_mem" where
  "DeregisterHost ident s = deleteHost ident s"

definition GetHosts :: "string ordering \<Rightarrow> in_mem \<Rightarrow> host list" where
  "GetHosts ord s = map (\<lambda>h. shHost (the (imHosts s h))) (ord [''hosts''] (dom (imHosts s)))"

definition Heartbeat :: "string \<Rightarrow> int \<Rightarrow> in_mem \<Rightarrow> in_mem" where
  "Heartbeat sess ttl s =
     (let count = (case imHeartbeats s sess of Some n \<Rightarrow> n + 1 | None \<Rightarrow> 0) in
      s\<lparr>imHeartbeats := (imHeartbeats s)(sess \<mapsto> count), imTimers := (imTimers s)(sess \<mapsto> ttl)\<rparr>)"

definition GetHeartbeat :: "string \<Rightarrow> in_mem \<Rightarrow> int \<times> store_error option" where
  "GetHeartbeat ident s =
     (case imHeartbeats s ident of Some n \<Rightarrow> (n, None) | None \<Rightarrow> (0, Some (NeverHadHeartbeats ident)))"

text \<open>Deleting the entries of a session from one map, and whether there were any.\<close>

definition drop_session ::
  "('v \<Rightarrow> string) \<Rightarrow> string \<Rightarrow> 'k list \<Rightarrow> ('k \<rightharpoonup> 'v) \<Rightarrow> ('k \<rightharpoonup> 'v) \<times> bool" where
  "drop_session sess_of sess ks m =
     for_keys (\<lambda>_. m) (\<lambda>k v (m', changed). if sess_of v = sess then (m'(k := None), True) else (m', changed))
       ks (m, False)"

definition end_hosts :: "string ordering \<Rightarrow> string \<Rightarrow> in_mem \<Rightarrow> in_mem" where
  "end_hosts ord sess s =
     for_keys imHosts (\<lambda>h host s. if shSession host = sess
         then fireHostChange h True (s\<lparr>imHosts := (imHosts s)(h := None)\<rparr>) else s)
       (ord [''hosts''] (dom (imHosts s))) s"

definition WithInstanceChanges :: "(query_opts \<Rightarrow> bool) option" where
  "WithInstanceChanges = Some WithInstances"

definition WithRuleChanges :: "(query_opts \<Rightarrow> bool) option" where
  "WithRuleChanges = Some WithContainerRules"

definition WithIngressInstanceChanges :: "(query_opts \<Rightarrow> bool) option" where
  "WithIngressInstanceChanges = Some WithIngressInstances"

definition end_instances :: "string ordering \<Rightarrow> string \<Rightarrow> in_mem \<Rightarrow> in_mem" where
  "end_instances ord sess s =
     for_keys imInstances (\<lambda>svc insts s.
         let (insts', changed) = drop_session seSession sess (ord [''instances'', svc] (dom insts)) insts;
             s1 = s\<lparr>imInstances := (imInstances s)(svc \<mapsto> insts')\<rparr>
         in if changed then fireServiceChange svc False WithInstanceChanges s1 else s1)
       (ord [''instances''] (dom (imInstances s))) s"

definition end_ingress :: "string ordering \<Rightarrow> ipport ordering \<Rightarrow> string \<Rightarrow> in_mem \<Rightarrow> in_mem" where
  "end_ingress ord aord sess s =
     for_keys imIngress (\<lambda>svc insts s.
         let (insts', changed) = drop_session sgSession sess (aord [''ingress'', svc] (dom insts)) insts;
             s1 = s\<lparr>imIngress := (imIngress s)(svc \<mapsto> insts')\<rparr>
         in if changed then fireServiceChange svc False WithIngressInstanceChanges s1 else s1)
       (ord [''ingress''] (dom (imIngress s))) s"

definition EndSession :: "string ordering \<Rightarrow> ipport ordering \<Rightarrow> string \<Rightarrow> in_mem \<Rightarrow> in_mem" where
  "EndSession ord aord sess s =
     end_ingress ord aord sess
       (end_instances ord sess
          (end_hosts ord sess (s\<lparr>imTimers := (imTimers s)(sess := None)\<rparr>)))"

section \<open>Services\<close>

definition CheckRegisteredService :: "string \<Rightarrow> in_mem \<Rightarrow> store_error option" where
  "CheckRegisteredService name s =
     (if imServices s name = None then Some (NotFound name) else imInjected s)"

definition AddService :: "string \<Rightarrow> service \<Rightarrow> in_mem \<Rightarrow> store_error option \<times> in_mem" where
  "AddService name svc s =
     (let s1 = s\<lparr>imServices := (imServices s)(name \<mapsto> svc),
                 imGroupSpecs := (imGroupSpecs s)(name \<mapsto> Map.empty),
                 imInstances := (imInstances s)(name \<mapsto> Map.empty),
                 imIngress := (imIngress s)(name \<mapsto> Map.empty)\<rparr>;
          s2 = fireServiceChange name False None s1
      in (imInjected s2, s2))"

definition RemoveService :: "string \<Rightarrow> in_mem \<Rightarrow> store_error option \<times> in_mem" where
  "RemoveService name s =
     (let s1 = s\<lparr>imServices := (imServices s)(name := None),
                 imGroupSpecs := (imGroupSpecs s)(name := None),
                 imInstances := (imInstances s)(name := None),
                 imIngress := (imIngress s)(name := None)\<rparr>;
          s2 = fireServiceChange name True None s1
      in (imInjected s2, s2))"

definition RemoveAllServices :: "string ordering \<Rightarrow> in_mem \<Rightarrow> store_error option \<times> in_mem" where
  "RemoveAllServices ord s =
     (let s1 = for_keys imServices (\<lambda>name _ s. snd (RemoveService name s))
                 (ord [''services''] (dom (imServices s))) s
      in (imInjected s1, s1))"

text \<open>Maps that a query does not ask for are nil, empty maps here.\<close>

definition makeServiceInfo :: "string \<Rightarrow> service \<Rightarrow> query_opts \<Rightarrow> in_mem \<Rightarrow> service_info" where
  "makeServiceInfo name svc opts s =
     \<lparr>Address = Address svc, InstancePort = InstancePort svc, Protocol = Protocol svc,
      Instances = (if WithInstances opts then
          (case imInstances s name of None \<Rightarrow> Map.empty | Some m \<Rightarrow> (\<lambda>n. map_option seInstance (m n)))
        else Map.empty),
      ContainerRules = (if WithContainerRules opts then
          (case imGroupSpecs s name of None \<Rightarrow> Map.empty | Some m \<Rightarrow> m)
        else Map.empty),
      IngressInstances = (if WithIngressInstances opts then
          (case imIngress s name of None \<Rightarrow> Map.empty | Some m \<Rightarrow> (\<lambda>n. map_option sgInstance (m n)))
        else Map.empty)\<rparr>"

definition GetService :: "string \<Rightarrow> query_opts \<Rightarrow> in_mem \<Rightarrow> service_info option \<times> store_error option" where
  "GetService name opts s =
     (case imServices s name of
        None \<Rightarrow> (None, Some (NotFound name))
      | Some svc \<Rightarrow> (Some (makeServiceInfo name svc opts s), imInjected s))"

definition GetAllServices :: "query_opts \<Rightarrow> in_mem \<Rightarrow> (string \<rightharpoonup> service_info) \<times> store_error option" where
  "GetAllServices opts s =
     ((\<lambda>name. map_option (\<lambda>svc. makeServiceInfo name svc opts s) (imServices s name)), imInjected s)"

section \<open>Instances and rules\<close>

definition AddInstance ::
  "string \<Rightarrow> string \<Rightarrow> string \<Rightarrow> inst \<Rightarrow> in_mem \<Rightarrow> (store_error option \<times> in_mem) option" where
  "AddInstance sess svc name i s =
     (case imInstances s svc of
        None \<Rightarrow> None
      | Some m \<Rightarrow>
          let s1 = fireServiceChange svc False WithInstanceChanges
                (s\<lparr>imInstances := (imInstances s)(svc \<mapsto> m(name \<mapsto> \<lparr>seInstance = i, seSession = sess\<rparr>))\<rparr>)
          in Some (imInjected s1, s1))"

definition RemoveInstance :: "string \<Rightarrow> string \<Rightarrow> in_mem \<Rightarrow> store_error option \<times> in_mem" where
  "RemoveInstance svc name s =
     (case imInstances s svc of
        None \<Rightarrow> (Some (NoSuchInstance svc name), s)
      | Some m \<Rightarrow>
          if m name = None then (Some (NoSuchInstance svc name), s)
          else let s1 = fireServiceChange svc False WithInstanceChanges
                     (s\<lparr>imInstances := (imInstances s)(svc \<mapsto> m(name := None))\<rparr>)
               in (imInjected s1, s1))"

definition SetContainerRule ::
  "string \<Rightarrow> string \<Rightarrow> container_rule \<Rightarrow> in_mem \<Rightarrow> store_error option \<times> in_mem" where
  "SetContainerRule svc name spec s =
     (case imGroupSpecs s svc of
        None \<Rightarrow> (Some (NotFound svc), s)
      | Some m \<Rightarrow>
          let s1 = fireServiceChange svc False WithRuleChanges
                (s\<lparr>imGroupSpecs := (imGroupSpecs s)(svc \<mapsto> m(name \<mapsto> spec))\<rparr>)
          in (imInjected s1, s1))"

definition RemoveContainerRule :: "string \<Rightarrow> string \<Rightarrow> in_mem \<Rightarrow> store_error option \<times> in_mem" where
  "RemoveContainerRule svc name s =
     (case imGroupSpecs s svc of
        None \<Rightarrow> (Some (NotFound svc), s)
      | Some m \<Rightarrow>
          let s1 = fireServiceChange svc False WithRuleChanges
                (s\<lparr>imGroupSpecs := (imGroupSpecs s)(svc \<mapsto> m(name := None))\<rparr>)
          in (imInjected s1, s1))"

definition AddIngressInstance ::
  "string \<Rightarrow> string \<Rightarrow> ipport \<Rightarrow> ingress_instance \<Rightarrow> in_mem \<Rightarrow> (store_error option \<times> in_mem) option" where
  "AddIngressInstance sess svc addr details s =
     (case imIngress s svc of
        None \<Rightarrow> None
      | Some m \<Rightarrow>
          let s1 = fireServiceChange svc False WithIngressInstanceChanges
                (s\<lparr>imIngress := (imIngress s)(svc \<mapsto> m(addr \<mapsto> \<lparr>sgInstance = details, sgSession = sess\<rparr>))\<rparr>)
          in Some (imInjected s1, s1))"

definition RemoveIngressInstance :: "string \<Rightarrow> ipport \<Rightarrow> in_mem \<Rightarrow> store_error option \<times> in_mem" where
  "RemoveIngressInstance svc addr s =
     (case imIngress s svc of
        None \<Rightarrow> (Some (NoSuchIngressInstance svc addr), s)
      | Some m \<Rightarrow>
          if m addr = None then (Some (NoSuchIngressInstance svc addr), s)
          else let s1 = fireServiceChange svc False WithIngressInstanceChanges
                     (s\<lparr>imIngress := (imIngress s)(svc \<mapsto> m(addr := None))\<rparr>)
               in (imInjected s1, s1))"

section \<open>The store as a state machine\<close>

datatype store_op =
    OpRegisterHost string string host
  | OpDeregisterHost string
  | OpHeartbeat string int
  | OpEndSession string
  | OpAddService string service
  | OpRemoveService string
  | OpRemoveAllServices
  | OpSetContainerRule string string container_rule
  | OpRemoveContainerRule string string
  | OpAddInstance string string string inst
  | OpRemoveInstance string string
  | OpAddIngressInstance string string ipport ingress_instance
  | OpRemoveIngressInstance string ipport
  | OpWatchServices nat query_opts
  | OpWatchHosts nat
  | OpDiscardWatcher watcher
  | OpInjectError "store_error option"

fun store_step :: "string ordering \<Rightarrow> ipport ordering \<Rightarrow> store_op \<Rightarrow> in_mem \<Rightarrow> in_mem option" where
  "store_step ord aord (OpRegisterHost sess ident h) s = Some (RegisterHost sess ident h s)"
| "store_step ord aord (OpDeregisterHost ident) s = Some (DeregisterHost ident s)"
| "store_step ord aord (OpHeartbeat sess ttl) s = Some (Heartbeat sess ttl s)"
| "store_step ord aord (OpEndSession sess) s = Some (EndSession ord aord sess s)"
| "store_step ord aord (OpAddService name svc) s = Some (snd (AddService name svc s))"
| "store_step ord aord (OpRemoveService name) s = Some (snd (RemoveService name s))"
| "store_step ord aord OpRemoveAllServices s = Some (snd (RemoveAllServices ord s))"
| "store_step ord aord (OpSetContainerRule svc name r) s = Some (snd (SetContainerRule svc name r s))"
| "store_step ord aord (OpRemoveContainerRule svc name) s = Some (snd (RemoveContainerRule svc name s))"
| "store_step ord aord (OpAddInstance sess svc name i) s = map_option snd (AddInstance sess svc name i s)"
| "store_step ord aord (OpRemoveInstance svc name) s = Some (snd (RemoveInstance svc name s))"
| "store_step ord aord (OpAddIngressInstance sess svc a d) s =
     map_option snd (AddIngressInstance sess svc a d s)"
| "store_step ord aord (OpRemoveIngressInstance svc a) s = Some (snd (RemoveIngressInstance svc a s))"
| "store_step ord aord (OpWatchServices ch opts) s = Some (WatchServices ch opts s)"
| "store_step ord aord (OpWatchHosts ch) s = Some (WatchHosts ch s)"
| "store_step ord aord (OpDiscardWatcher w) s = Some (discardWatcher w s)"
| "store_step ord aord (OpInjectError e) s = Some (InjectError e s)"

end
