(* ===== verification/InmemCorrect.thy ===== *)
theory InmemCorrect
  imports Inmem
begin

text \<open>
  What holds of the in-memory store: its four service tables stay in step, sessions end
  completely and without touching other sessions, and watchers hear of every change they can see.
\<close>

section \<open>Well-formed stores\<close>

definition inner_finite :: "('a \<rightharpoonup> ('k \<rightharpoonup> 'v)) \<Rightarrow> bool" where
  "inner_finite t \<longleftrightarrow> finite (dom t) \<and> (\<forall>a m. t a = Some m \<longrightarrow> finite (dom m))"

definition store_ok :: "in_mem \<Rightarrow> bool" where
  "store_ok s \<longleftrightarrow> dom (imGroupSpecs s) = dom (imServices s) \<and> dom (imInstances s) = dom (imServices s) \<and>
     dom (imIngress s) = dom (imServices s) \<and> inner_finite (imGroupSpecs s) \<and>
     inner_finite (imInstances s) \<and> inner_finite (imIngress s) \<and> finite (dom (imHosts s))"

lemma inner_finite_upd:
  "inner_finite t \<Longrightarrow> finite (dom m) \<Longrightarrow> inner_finite (t(a \<mapsto> m))"
  "inner_finite t \<Longrightarrow> inner_finite (t(a := None))"
  by (auto simp: inner_finite_def)

lemma inner_finiteD: "inner_finite t \<Longrightarrow> t a = Some m \<Longrightarrow> finite (dom m)"
  by (auto simp: inner_finite_def)

text \<open>What a service looks like to a query.\<close>

definition service_view :: "query_opts \<Rightarrow> in_mem \<Rightarrow> string \<rightharpoonup> service_info" where
  "service_view opts s name = fst (GetService name opts s)"

lemma service_view_eq: "service_view opts s = fst (GetAllServices opts s)"
  by (auto simp: service_view_def GetService_def GetAllServices_def fun_eq_iff split: option.split)

lemma fire_simps [simp]:
  "imServices (fireServiceChange n d f s) = imServices s" "imGroupSpecs (fireServiceChange n d f s) = imGroupSpecs s"
  "imInstances (fireServiceChange n d f s) = imInstances s" "imIngress (fireServiceChange n d f s) = imIngress s"
  "imHosts (fireServiceChange n d f s) = imHosts s" "imWatchers (fireServiceChange n d f s) = imWatchers s"
  "imInjected (fireServiceChange n d f s) = imInjected s" "imTimers (fireServiceChange n d f s) = imTimers s"
  "imHeartbeats (fireServiceChange n d f s) = imHeartbeats s"
  "imServices (fireHostChange n d s) = imServices s" "imGroupSpecs (fireHostChange n d s) = imGroupSpecs s"
  "imInstances (fireHostChange n d s) = imInstances s" "imIngress (fireHostChange n d s) = imIngress s"
  "imHosts (fireHostChange n d s) = imHosts s" "imWatchers (fireHostChange n d s) = imWatchers s"
  "imInjected (fireHostChange n d s) = imInjected s" "imTimers (fireHostChange n d s) = imTimers s"
  "imHeartbeats (fireHostChange n d s) = imHeartbeats s"
  by (simp_all add: fireServiceChange_def fireHostChange_def)

lemma fire_log:
  "imLog (fireServiceChange n d f s) = imLog s @ service_events \<lparr>scName = n, scServiceDeleted = d\<rparr> f (imWatchers s)"
  "imLog (fireHostChange n d s) = imLog s @ host_events \<lparr>hcName = n, hcHostDeparted = d\<rparr> (imWatchers s)"
  by (simp_all add: fireServiceChange_def fireHostChange_def)

lemma in_service_events:
  "e \<in> set (service_events ev filt ws) \<longleftrightarrow>
     (\<exists>ch opts. e = ServiceChanged ch ev \<and> ServiceWatcher ch opts \<in> set ws \<and>
        (case filt of None \<Rightarrow> True | Some f \<Rightarrow> f opts))"
  by (induction ev filt ws rule: service_events.induct) (auto split: option.splits)

section \<open>Ending a session\<close>

definition keep_others :: "('v \<Rightarrow> string) \<Rightarrow> string \<Rightarrow> ('k \<rightharpoonup> 'v) \<Rightarrow> 'k \<rightharpoonup> 'v" where
  "keep_others sess_of sess m k =
     (case m k of None \<Rightarrow> None | Some v \<Rightarrow> if sess_of v = sess then None else Some v)"

definition has_session :: "('v \<Rightarrow> string) \<Rightarrow> string \<Rightarrow> ('k \<rightharpoonup> 'v) \<Rightarrow> bool" where
  "has_session sess_of sess m \<longleftrightarrow> (\<exists>k v. m k = Some v \<and> sess_of v = sess)"

lemma drop_session_spec:
  assumes "ordering_ok ord" and "finite (dom m)"
  shows "drop_session sess_of sess (ord l (dom m)) m = (keep_others sess_of sess m, has_session sess_of sess m)"
proof -
  let ?P = "\<lambda>D r. r = ((\<lambda>k. if k \<in> D then keep_others sess_of sess m k else m k),
                      \<exists>k v. k \<in> D \<and> m k = Some v \<and> sess_of v = sess)"
  have "?P (set (ord l (dom m))) (drop_session sess_of sess (ord l (dom m)) m)"
    unfolding drop_session_def
  proof (rule for_keys_visited [where P = ?P])
    fix k v r D
    assume "?P D r" "m k = Some v"
    then show "?P (insert k D) ((\<lambda>(m', changed). if sess_of v = sess then (m'(k := None), True) else (m', changed)) r)"
      by (auto simp: keep_others_def fun_eq_iff split: option.splits)
  next
    fix k r D
    assume "?P D r" "m k = None"
    then show "?P (insert k D) r" by (auto simp: keep_others_def fun_eq_iff split: option.splits)
  qed (use assms in auto)
  moreover have "(if k \<in> dom m then keep_others sess_of sess m k else m k) = keep_others sess_of sess m k" for k
    by (auto simp: keep_others_def split: option.splits)
  ultimately show ?thesis
    using assms by (auto simp: has_session_def fun_eq_iff)
qed

lemma keep_others_dom: "dom (keep_others sess_of sess m) \<subseteq> dom m"
  by (auto simp: keep_others_def split: option.splits if_splits)

definition session_changes :: "string set \<Rightarrow> (query_opts \<Rightarrow> bool) option \<Rightarrow> in_mem \<Rightarrow> store_event set" where
  "session_changes D filt s =
     (\<Union>svc \<in> D. set (service_events \<lparr>scName = svc, scServiceDeleted = False\<rparr> filt (imWatchers s)))"

text \<open>The loop of \<open>EndSession\<close> over one of the tables, read by \<open>get\<close> and written by \<open>put\<close>.\<close>

lemma end_table_spec:
  fixes get :: "in_mem \<Rightarrow> string \<rightharpoonup> ('k \<rightharpoonup> 'v)" and put :: "(string \<rightharpoonup> ('k \<rightharpoonup> 'v)) \<Rightarrow> in_mem \<Rightarrow> in_mem"
    and sess_of :: "'v \<Rightarrow> string" and sess :: string
  assumes ord: "ordering_ok ord" "ordering_ok kord" and fin: "inner_finite (get s)"
    and get: "\<And>t s. get (put t s) = t" "\<And>s L. get (s\<lparr>imLog := L\<rparr>) = get s"
    and put: "\<And>t u s. put t (put u s) = put t s" "\<And>t s L. put t (s\<lparr>imLog := L\<rparr>) = (put t s)\<lparr>imLog := L\<rparr>"
      "\<And>t s. imLog (put t s) = imLog s" "\<And>t s. imWatchers (put t s) = imWatchers s" "\<And>s. put (get s) s = s"
  defines "keep \<equiv> \<lambda>svc. map_option (keep_others sess_of sess) (get s svc)"
  shows "\<exists>l. for_keys get (\<lambda>svc insts s.
         let (insts', changed) = drop_session sess_of sess (kord [lbl, svc] (dom insts)) insts;
             s1 = put ((get s)(svc \<mapsto> insts')) s
         in if changed then fireServiceChange svc False filt s1 else s1) (ord [lbl] (dom (get s))) s =
      put keep s\<lparr>imLog := imLog s @ l\<rparr> \<and>
    set l = session_changes {svc. \<exists>m. get s svc = Some m \<and> has_session sess_of sess m} filt s"
proof -
  let ?body = "\<lambda>svc insts s.
         let (insts', changed) = drop_session sess_of sess (kord [lbl, svc] (dom insts)) insts;
             s1 = put ((get s)(svc \<mapsto> insts')) s
         in if changed then fireServiceChange svc False filt s1 else s1"
  let ?hit = "\<lambda>D. {svc \<in> D. \<exists>m. get s svc = Some m \<and> has_session sess_of sess m}"
  let ?tbl = "\<lambda>D svc. if svc \<in> D then keep svc else get s svc"
  let ?P = "\<lambda>D s'. \<exists>l. s' = (put (?tbl D) s)\<lparr>imLog := imLog s @ l\<rparr> \<and> set l = session_changes (?hit D) filt s"
  have fd: "finite (dom (get s))" using fin by (simp add: inner_finite_def)
  have "?P (set (ord [lbl] (dom (get s)))) (for_keys get ?body (ord [lbl] (dom (get s))) s)"
  proof (rule for_keys_visited [where P = ?P])
    show "?P {} s" by (intro exI [of _ "[]"]) (simp add: session_changes_def put)
  next
    fix svc m s' D
    assume P: "?P D s'" and svc: "svc \<notin> D" and gets: "get s' svc = Some m"
    from P obtain l where l: "s' = (put (?tbl D) s)\<lparr>imLog := imLog s @ l\<rparr>"
      "set l = session_changes (?hit D) filt s" by blast
    have m: "get s svc = Some m" using gets svc l(1) by (simp add: get)
    have d: "drop_session sess_of sess (kord [lbl, svc] (dom m)) m =
      (keep_others sess_of sess m, has_session sess_of sess m)"
      by (rule drop_session_spec [OF ord(2) inner_finiteD [OF fin m]])
    have upd: "(?tbl D)(svc \<mapsto> keep_others sess_of sess m) = ?tbl (insert svc D)"
      using m by (auto simp: fun_eq_iff keep_def)
    have hit: "?hit (insert svc D) = (if has_session sess_of sess m then insert svc (?hit D) else ?hit D)"
      using m by auto
    let ?l = "if has_session sess_of sess m then
        l @ service_events \<lparr>scName = svc, scServiceDeleted = False\<rparr> filt (imWatchers s) else l"
    have "set ?l = session_changes (?hit (insert svc D)) filt s"
      unfolding hit using l(2) by (auto simp: session_changes_def)
    moreover have "?body svc m s' = (put (?tbl (insert svc D)) s)\<lparr>imLog := imLog s @ ?l\<rparr>"
      unfolding d l(1) upd [symmetric] by (simp add: fireServiceChange_def get put)
    ultimately show "?P (insert svc D) (?body svc m s')" by blast
  next
    fix svc s' D
    assume P: "?P D s'" and svc: "svc \<notin> D" and gets: "get s' svc = None"
    from P obtain l where l: "s' = (put (?tbl D) s)\<lparr>imLog := imLog s @ l\<rparr>"
      "set l = session_changes (?hit D) filt s" by blast
    have m: "get s svc = None" using gets svc l(1) by (simp add: get)
    then have "?tbl (insert svc D) = ?tbl D" "?hit (insert svc D) = ?hit D"
      by (auto simp: fun_eq_iff keep_def)
    then show "?P (insert svc D) s'" unfolding l(1) by (intro exI [of _ l]) (simp only: l(2) refl simp_thms)
  qed (use ord(1) fd in auto)
  moreover have "?tbl (dom (get s)) svc = keep svc" for svc
    by (cases "get s svc") (auto simp: keep_def)
  moreover have "?hit (dom (get s)) = {svc. \<exists>m. get s svc = Some m \<and> has_session sess_of sess m}"
    by auto
  ultimately show ?thesis using ord(1) fd by simp
qed

lemma end_instances_spec:
  assumes "ordering_ok ord" and "inner_finite (imInstances s)"
  shows "\<exists>l. end_instances ord sess s =
      s\<lparr>imInstances := (\<lambda>svc. map_option (keep_others seSession sess) (imInstances s svc)), imLog := imLog s @ l\<rparr> \<and>
    set l = session_changes {svc. \<exists>m. imInstances s svc = Some m \<and> has_session seSession sess m} WithInstanceChanges s"
  unfolding end_instances_def
  using end_table_spec [where get = imInstances and put = "\<lambda>t s. s\<lparr>imInstances := t\<rparr>" and sess_of = seSession
      and lbl = "''instances''" and filt = WithInstanceChanges and sess = sess, OF assms(1,1,2)] by simp

lemma end_ingress_spec:
  assumes "ordering_ok ord" and "ordering_ok aord" and "inner_finite (imIngress s)"
  shows "\<exists>l. end_ingress ord aord sess s =
      s\<lparr>imIngress := (\<lambda>svc. map_option (keep_others sgSession sess) (imIngress s svc)), imLog := imLog s @ l\<rparr> \<and>
    set l = session_changes {svc. \<exists>m. imIngress s svc = Some m \<and> has_session sgSession sess m} WithIngressInstanceChanges s"
  unfolding end_ingress_def
  using end_table_spec [where get = imIngress and put = "\<lambda>t s. s\<lparr>imIngress := t\<rparr>" and sess_of = sgSession
      and lbl = "''ingress''" and filt = WithIngressInstanceChanges and sess = sess, OF assms] by simp

lemma end_hosts_spec:
  assumes "ordering_ok ord" and "finite (dom (imHosts s))"
  shows "\<exists>l. end_hosts ord sess s = s\<lparr>imHosts := keep_others shSession sess (imHosts s), imLog := imLog s @ l\<rparr> \<and>
    set l = {HostChanged ch \<lparr>hcName = h, hcHostDeparted = True\<rparr> | ch h host.
      HostWatcher ch \<in> set (imWatchers s) \<and> imHosts s h = Some host \<and> shSession host = sess}"
proof -
  let ?tbl = "\<lambda>D h. if h \<in> D then keep_others shSession sess (imHosts s) h else imHosts s h"
  let ?ev = "\<lambda>D. {HostChanged ch \<lparr>hcName = h, hcHostDeparted = True\<rparr> | ch h host.
      HostWatcher ch \<in> set (imWatchers s) \<and> h \<in> D \<and> imHosts s h = Some host \<and> shSession host = sess}"
  let ?P = "\<lambda>D s'. \<exists>l. s' = s\<lparr>imHosts := ?tbl D, imLog := imLog s @ l\<rparr> \<and> set l = ?ev D"
  have ev: "set (host_events \<lparr>hcName = h, hcHostDeparted = True\<rparr> ws) =
      {HostChanged ch \<lparr>hcName = h, hcHostDeparted = True\<rparr> | ch. HostWatcher ch \<in> set ws}" for h ws
    by (induction "\<lparr>hcName = h, hcHostDeparted = True\<rparr>" ws rule: host_events.induct) auto
  have "?P (set (ord [''hosts''] (dom (imHosts s)))) (end_hosts ord sess s)"
    unfolding end_hosts_def
  proof (rule for_keys_visited [where P = ?P])
    show "?P {} s" by (intro exI [of _ "[]"]) simp
  next
    fix h host s' D
    assume P: "?P D s'" and h: "h \<notin> D" and gets: "imHosts s' h = Some host"
    from P obtain l where l: "s' = s\<lparr>imHosts := ?tbl D, imLog := imLog s @ l\<rparr>" "set l = ?ev D" by blast
    have host: "imHosts s h = Some host" using gets h l(1) by simp
    show "?P (insert h D) (if shSession host = sess
         then fireHostChange h True (s'\<lparr>imHosts := (imHosts s')(h := None)\<rparr>) else s')"
    proof (cases "shSession host = sess")
      case True
      let ?l = "l @ host_events \<lparr>hcName = h, hcHostDeparted = True\<rparr> (imWatchers s)"
      have "(?tbl D)(h := None) = ?tbl (insert h D)"
        using host True by (auto simp: fun_eq_iff keep_others_def)
      moreover have "set ?l = ?ev (insert h D)" unfolding set_append l(2) ev using host True by auto
      ultimately show ?thesis unfolding l(1) using True by (auto simp: fireHostChange_def)
    next
      case False
      then have "?tbl (insert h D) = ?tbl D" "?ev (insert h D) = ?ev D"
        using host by (auto simp: fun_eq_iff keep_others_def)
      then show ?thesis unfolding l(1) using False by (intro exI [of _ l]) (simp add: l(2))
    qed
  next
    fix h s' D
    assume P: "?P D s'" and h: "h \<notin> D" and gets: "imHosts s' h = None"
    from P obtain l where l: "s' = s\<lparr>imHosts := ?tbl D, imLog := imLog s @ l\<rparr>" "set l = ?ev D" by blast
    have "imHosts s h = None" using gets h l(1) by simp
    then have "?tbl (insert h D) = ?tbl D" "?ev (insert h D) = ?ev D"
      by (auto simp: fun_eq_iff keep_others_def)
    then show "?P (insert h D) s'" unfolding l(1) by (intro exI [of _ l]) (simp only: l(2) refl simp_thms)
  qed (use assms in auto)
  moreover have "?tbl (dom (imHosts s)) h = keep_others shSession sess (imHosts s) h" for h
    by (auto simp: keep_others_def split: option.split)
  moreover have "?ev (dom (imHosts s)) = {HostChanged ch \<lparr>hcName = h, hcHostDeparted = True\<rparr> | ch h host.
      HostWatcher ch \<in> set (imWatchers s) \<and> imHosts s h = Some host \<and> shSession host = sess}" by blast
  ultimately show ?thesis using assms by simp
qed

lemma EndSession_spec:
  assumes "ordering_ok ord" and "ordering_ok aord" and "store_ok s"
  shows "\<exists>l. EndSession ord aord sess s =
      s\<lparr>imInstances := (\<lambda>svc. map_option (keep_others seSession sess) (imInstances s svc)),
        imIngress := (\<lambda>svc. map_option (keep_others sgSession sess) (imIngress s svc)),
        imHosts := keep_others shSession sess (imHosts s),
        imTimers := (imTimers s)(sess := None), imLog := imLog s @ l\<rparr> \<and>
    set l = {HostChanged ch \<lparr>hcName = h, hcHostDeparted = True\<rparr> | ch h host.
        HostWatcher ch \<in> set (imWatchers s) \<and> imHosts s h = Some host \<and> shSession host = sess} \<union>
      session_changes {svc. \<exists>m. imInstances s svc = Some m \<and> has_session seSession sess m} WithInstanceChanges s \<union>
      session_changes {svc. \<exists>m. imIngress s svc = Some m \<and> has_session sgSession sess m} WithIngressInstanceChanges s"
proof -
  let ?s0 = "s\<lparr>imTimers := (imTimers s)(sess := None)\<rparr>"
  have ok: "inner_finite (imInstances s)" "inner_finite (imIngress s)" "finite (dom (imHosts s))"
    using assms(3) by (auto simp: store_ok_def)
  obtain l1 where l1: "end_hosts ord sess ?s0 = ?s0\<lparr>imHosts := keep_others shSession sess (imHosts s), imLog := imLog s @ l1\<rparr>"
    "set l1 = {HostChanged ch \<lparr>hcName = h, hcHostDeparted = True\<rparr> | ch h host.
        HostWatcher ch \<in> set (imWatchers s) \<and> imHosts s h = Some host \<and> shSession host = sess}"
    using end_hosts_spec [OF assms(1), of ?s0 sess] ok(3) by auto
  let ?s1 = "?s0\<lparr>imHosts := keep_others shSession sess (imHosts s), imLog := imLog s @ l1\<rparr>"
  obtain l2 where l2: "end_instances ord sess ?s1 =
      ?s1\<lparr>imInstances := (\<lambda>svc. map_option (keep_others seSession sess) (imInstances s svc)), imLog := imLog s @ l1 @ l2\<rparr>"
    "set l2 = session_changes {svc. \<exists>m. imInstances s svc = Some m \<and> has_session seSession sess m} WithInstanceChanges s"
    using end_instances_spec [OF assms(1), of ?s1 sess] ok(1) by (auto simp: session_changes_def)
  let ?s2 = "?s1\<lparr>imInstances := (\<lambda>svc. map_option (keep_others seSession sess) (imInstances s svc)), imLog := imLog s @ l1 @ l2\<rparr>"
  obtain l3 where l3: "end_ingress ord aord sess ?s2 =
      ?s2\<lparr>imIngress := (\<lambda>svc. map_option (keep_others sgSession sess) (imIngress s svc)), imLog := imLog s @ l1 @ l2 @ l3\<rparr>"
    "set l3 = session_changes {svc. \<exists>m. imIngress s svc = Some m \<and> has_session sgSession sess m} WithIngressInstanceChanges s"
    using end_ingress_spec [OF assms(1,2), of ?s2 sess] ok(2) by (auto simp: session_changes_def)
  show ?thesis
    unfolding EndSession_def l1(1) l2(1) l3(1)
    by (intro exI [of _ "l1 @ l2 @ l3"]) (simp add: l1(2) l2(2) l3(2) Un_assoc)
qed

section \<open>What an operation does\<close>

text \<open>
  The contract of an operation towards watchers: every change of a service a watcher's query can
  see is reported to it, and every report says correctly whether the service is deleted.
\<close>

definition reports :: "in_mem \<Rightarrow> in_mem \<Rightarrow> bool" where
  "reports s s' \<longleftrightarrow> (\<exists>l. imLog s' = imLog s @ l \<and>
     (\<forall>ch opts name. ServiceWatcher ch opts \<in> set (imWatchers s) \<longrightarrow>
        service_view opts s' name \<noteq> service_view opts s name \<longrightarrow>
        ServiceChanged ch \<lparr>scName = name, scServiceDeleted = (imServices s' name = None)\<rparr> \<in> set l) \<and>
     (\<forall>ch ev. ServiceChanged ch ev \<in> set l \<longrightarrow> scServiceDeleted ev = (imServices s' (scName ev) = None)))"

lemma service_view_cong:
  assumes "imServices s' n = imServices s n" and "WithInstances opts \<Longrightarrow> imInstances s' n = imInstances s n"
    and "WithContainerRules opts \<Longrightarrow> imGroupSpecs s' n = imGroupSpecs s n"
    and "WithIngressInstances opts \<Longrightarrow> imIngress s' n = imIngress s n"
  shows "service_view opts s' n = service_view opts s n"
  using assms by (simp add: service_view_def GetService_def makeServiceInfo_def split: option.split)

lemma reports_fire:
  assumes "imWatchers s1 = imWatchers s" and "imLog s1 = imLog s" and "d \<longleftrightarrow> imServices s1 n = None"
    and "\<And>opts name. name \<noteq> n \<or> \<not> (case filt of None \<Rightarrow> True | Some f \<Rightarrow> f opts) \<Longrightarrow>
           service_view opts s1 name = service_view opts s name"
  shows "reports s (fireServiceChange n d filt s1)"
proof -
  have v: "service_view opts (fireServiceChange n d filt s1) = service_view opts s1" for opts
    by (rule ext, rule service_view_cong) simp_all
  have "ServiceChanged ch \<lparr>scName = name, scServiceDeleted = (imServices s1 name = None)\<rparr>
      \<in> set (service_events \<lparr>scName = n, scServiceDeleted = d\<rparr> filt (imWatchers s))"
    if "ServiceWatcher ch opts \<in> set (imWatchers s)" "service_view opts s1 name \<noteq> service_view opts s name" for ch opts name
    using that assms(3) assms(4) [of name opts] by (cases "name = n") (auto simp: in_service_events)
  moreover have "scServiceDeleted ev \<longleftrightarrow> imServices s1 (scName ev) = None"
    if "ServiceChanged ch ev \<in> set (service_events \<lparr>scName = n, scServiceDeleted = d\<rparr> filt (imWatchers s))" for ch ev
    using that assms(3) by (auto simp: in_service_events)
  ultimately show ?thesis
    unfolding reports_def fire_log assms(1,2) v fire_simps by blast
qed

lemma reports_other:
  assumes "imServices s' = imServices s" and "imInstances s' = imInstances s" and "imGroupSpecs s' = imGroupSpecs s"
    and "imIngress s' = imIngress s" and "imLog s' = imLog s @ l" and "\<And>ch ev. ServiceChanged ch ev \<notin> set l"
  shows "reports s s'"
proof -
  have "service_view opts s' n = service_view opts s n" for opts n
    by (rule service_view_cong) (simp_all add: assms)
  then show ?thesis using assms(5,6) by (auto simp: reports_def)
qed

lemma host_events_no_service: "ServiceChanged ch ev \<notin> set (host_events hev ws)"
  by (induction hev ws rule: host_events.induct) auto

text \<open>The loop of \<open>RemoveAllServices\<close>.\<close>

definition drop_keys :: "'k set \<Rightarrow> ('k \<rightharpoonup> 'v) \<Rightarrow> 'k \<rightharpoonup> 'v" where
  "drop_keys D m k = (if k \<in> D then None else m k)"

definition without :: "string set \<Rightarrow> in_mem \<Rightarrow> in_mem" where
  "without D s = s\<lparr>imServices := drop_keys D (imServices s), imGroupSpecs := drop_keys D (imGroupSpecs s),
     imInstances := drop_keys D (imInstances s), imIngress := drop_keys D (imIngress s)\<rparr>"

lemma drop_keys_insert: "(drop_keys D m)(k := None) = drop_keys (insert k D) m"
  by (auto simp: drop_keys_def fun_eq_iff)

lemma drop_keys_empty: "drop_keys {} m = m"
  by (simp add: drop_keys_def fun_eq_iff)

lemma RemoveService_without:
  "snd (RemoveService n (without D s\<lparr>imLog := L\<rparr>)) =
     without (insert n D) s\<lparr>imLog := L @ service_events \<lparr>scName = n, scServiceDeleted = True\<rparr> None (imWatchers s)\<rparr>"
  by (simp add: RemoveService_def fireServiceChange_def without_def drop_keys_insert Let_def)

lemma RemoveAllServices_spec:
  assumes "ordering_ok ord" and "store_ok s"
  shows "\<exists>l. snd (RemoveAllServices ord s) = without (dom (imServices s)) s\<lparr>imLog := imLog s @ l\<rparr> \<and>
    set l = (\<Union>n \<in> dom (imServices s). set (service_events \<lparr>scName = n, scServiceDeleted = True\<rparr> None (imWatchers s)))"
proof -
  let ?P = "\<lambda>D s'. \<exists>l. s' = without D s\<lparr>imLog := imLog s @ l\<rparr> \<and>
    set l = (\<Union>n \<in> D. set (service_events \<lparr>scName = n, scServiceDeleted = True\<rparr> None (imWatchers s)))"
  have fin: "finite (dom (imServices s))" using assms(2) by (auto simp: store_ok_def inner_finite_def)
  have "?P (set (ord [''services''] (dom (imServices s))))
      (for_keys imServices (\<lambda>name _ s. snd (RemoveService name s)) (ord [''services''] (dom (imServices s))) s)"
  proof (rule for_keys_visited [where P = ?P])
    show "?P {} s" by (intro exI [of _ "[]"]) (simp add: without_def drop_keys_empty)
  next
    fix n v s' D
    assume "?P D s'"
    then obtain l where l: "s' = without D s\<lparr>imLog := imLog s @ l\<rparr>"
      "set l = (\<Union>n \<in> D. set (service_events \<lparr>scName = n, scServiceDeleted = True\<rparr> None (imWatchers s)))" by blast
    show "?P (insert n D) (snd (RemoveService n s'))"
      unfolding l(1) RemoveService_without
      by (intro exI [of _ "l @ service_events \<lparr>scName = n, scServiceDeleted = True\<rparr> None (imWatchers s)"])
        (auto simp: l(2))
  next
    fix n s' D
    assume P: "?P D s'" and n: "n \<in> set (ord [''services''] (dom (imServices s)))" "n \<notin> D" "imServices s' n = None"
    then obtain l where "s' = without D s\<lparr>imLog := imLog s @ l\<rparr>" by blast
    then have "imServices s n = None" using n(2,3) by (simp add: without_def drop_keys_def)
    then show "?P (insert n D) s'" using n(1) assms(1) fin by auto
  qed (use assms(1) fin in auto)
  then show ?thesis using assms(1) fin by (simp add: RemoveAllServices_def Let_def)
qed

lemma reports_RemoveAllServices:
  assumes "ordering_ok ord" and "store_ok s"
  shows "reports s (snd (RemoveAllServices ord s))"
proof -
  obtain l where l: "snd (RemoveAllServices ord s) = without (dom (imServices s)) s\<lparr>imLog := imLog s @ l\<rparr>"
    "set l = (\<Union>n \<in> dom (imServices s). set (service_events \<lparr>scName = n, scServiceDeleted = True\<rparr> None (imWatchers s)))"
    using RemoveAllServices_spec [OF assms] by blast
  let ?s = "without (dom (imServices s)) s\<lparr>imLog := imLog s @ l\<rparr>"
  have none: "imServices ?s n = None" for n by (auto simp: without_def drop_keys_def)
  then have "service_view opts ?s n = None" for opts n by (simp add: service_view_def GetService_def)
  moreover have "imServices s n \<noteq> None" if "None \<noteq> service_view opts s n" for opts n
    using that by (auto simp: service_view_def GetService_def split: option.splits)
  ultimately have "ServiceChanged ch \<lparr>scName = n, scServiceDeleted = (imServices ?s n = None)\<rparr> \<in> set l"
    if "ServiceWatcher ch opts \<in> set (imWatchers s)" "service_view opts ?s n \<noteq> service_view opts s n" for ch opts n
    using that none by (auto simp: l(2) in_service_events)
  moreover have "scServiceDeleted ev = (imServices ?s (scName ev) = None)" if "ServiceChanged ch ev \<in> set l" for ch ev
    using that none by (auto simp: l(2) in_service_events)
  ultimately show ?thesis unfolding l(1) reports_def by (intro exI [of _ l]) simp
qed

lemma reports_EndSession:
  assumes "ordering_ok ord" and "ordering_ok aord" and "store_ok s"
  shows "reports s (EndSession ord aord sess s)"
proof -
  let ?inst = "\<lambda>svc. map_option (keep_others seSession sess) (imInstances s svc)"
  let ?ing = "\<lambda>svc. map_option (keep_others sgSession sess) (imIngress s svc)"
  obtain l where l: "EndSession ord aord sess s = s\<lparr>imInstances := ?inst, imIngress := ?ing,
        imHosts := keep_others shSession sess (imHosts s),
        imTimers := (imTimers s)(sess := None), imLog := imLog s @ l\<rparr>" (is "_ = ?s")
    "set l = {HostChanged ch \<lparr>hcName = h, hcHostDeparted = True\<rparr> | ch h host.
        HostWatcher ch \<in> set (imWatchers s) \<and> imHosts s h = Some host \<and> shSession host = sess} \<union>
      session_changes {svc. \<exists>m. imInstances s svc = Some m \<and> has_session seSession sess m} WithInstanceChanges s \<union>
      session_changes {svc. \<exists>m. imIngress s svc = Some m \<and> has_session sgSession sess m} WithIngressInstanceChanges s"
    using EndSession_spec [OF assms] by blast
  have svc: "imServices s n \<noteq> None" if "imInstances s n \<noteq> None \<or> imIngress s n \<noteq> None" for n
    using that assms(3) by (auto simp: store_ok_def)
  have same_inst: "?inst n = imInstances s n" if "\<And>m. imInstances s n = Some m \<Longrightarrow> \<not> has_session seSession sess m" for n
    using that by (cases "imInstances s n") (auto simp: has_session_def keep_others_def fun_eq_iff split: option.split)
  have same_ing: "?ing n = imIngress s n" if "\<And>m. imIngress s n = Some m \<Longrightarrow> \<not> has_session sgSession sess m" for n
    using that by (cases "imIngress s n") (auto simp: has_session_def keep_others_def fun_eq_iff split: option.split)
  have "ServiceChanged ch \<lparr>scName = n, scServiceDeleted = (imServices ?s n = None)\<rparr> \<in> set l"
    if w: "ServiceWatcher ch opts \<in> set (imWatchers s)" and d: "service_view opts ?s n \<noteq> service_view opts s n" for ch opts n
  proof -
    have "(WithInstances opts \<and> ?inst n \<noteq> imInstances s n) \<or> (WithIngressInstances opts \<and> ?ing n \<noteq> imIngress s n)"
      using d service_view_cong [of ?s n s opts] by auto
    then consider m where "WithInstances opts" "imInstances s n = Some m" "has_session seSession sess m"
      | m where "WithIngressInstances opts" "imIngress s n = Some m" "has_session sgSession sess m"
      using same_inst same_ing by metis
    then show ?thesis
    proof cases
      case (1 m)
      then have "imServices s n \<noteq> None" using svc by blast
      then show ?thesis using 1 w unfolding l(2)
        by (auto simp: session_changes_def in_service_events WithInstanceChanges_def)
    next
      case (2 m)
      then have "imServices s n \<noteq> None" using svc by blast
      then show ?thesis using 2 w unfolding l(2)
        by (auto simp: session_changes_def in_service_events WithIngressInstanceChanges_def)
    qed
  qed
  moreover have "scServiceDeleted ev = (imServices ?s (scName ev) = None)" if "ServiceChanged ch ev \<in> set l" for ch ev
  proof -
    have "scServiceDeleted ev = False \<and> (imInstances s (scName ev) \<noteq> None \<or> imIngress s (scName ev) \<noteq> None)"
      using that unfolding l(2) by (auto simp: session_changes_def in_service_events)
    then show ?thesis using svc [of "scName ev"] by simp
  qed
  ultimately show ?thesis unfolding l(1) reports_def by (intro exI [of _ l]) simp
qed

lemma store_step_reports:
  assumes "ordering_ok ord" and "ordering_ok aord" and "store_ok s" and "store_step ord aord op s = Some s'"
  shows "reports s s'"
proof -
  have dom: "imServices s n = None \<longleftrightarrow> imInstances s n = None" "imServices s n = None \<longleftrightarrow> imGroupSpecs s n = None"
    "imServices s n = None \<longleftrightarrow> imIngress s n = None" for n
    using assms(3) unfolding store_ok_def by (metis domIff)+
  have self: "reports s s" by (rule reports_other [where l = "[]"]) auto
  show ?thesis
  proof (cases op)
    case (OpRegisterHost sess ident h)
    then show ?thesis using assms(4)
      by (auto simp: RegisterHost_def fire_log host_events_no_service intro!: reports_other)
  next
    case (OpDeregisterHost ident)
    then show ?thesis using assms(4)
      by (auto simp: DeregisterHost_def deleteHost_def fire_log host_events_no_service intro!: reports_other)
  next
    case (OpHeartbeat sess ttl)
    then show ?thesis using assms(4)
      by (auto simp: Heartbeat_def Let_def intro!: reports_other [where l = "[]"])
  next
    case (OpEndSession sess)
    then show ?thesis using assms(4) reports_EndSession [OF assms(1-3)] by auto
  next
    case (OpAddService name svc)
    then show ?thesis using assms(4)
      by (auto simp: AddService_def Let_def intro!: reports_fire service_view_cong)
  next
    case (OpRemoveService name)
    then show ?thesis using assms(4)
      by (auto simp: RemoveService_def Let_def intro!: reports_fire service_view_cong)
  next
    case OpRemoveAllServices
    then show ?thesis using assms(4) reports_RemoveAllServices [OF assms(1,3)] by auto
  next
    case (OpSetContainerRule svc name r)
    then show ?thesis using assms(4) self dom [of svc]
      by (auto simp: SetContainerRule_def Let_def WithRuleChanges_def split: option.splits
          intro!: reports_fire service_view_cong)
  next
    case (OpRemoveContainerRule svc name)
    then show ?thesis using assms(4) self dom [of svc]
      by (auto simp: RemoveContainerRule_def Let_def WithRuleChanges_def split: option.splits
          intro!: reports_fire service_view_cong)
  next
    case (OpAddInstance sess svc name i)
    then show ?thesis using assms(4) dom [of svc]
      by (auto simp: AddInstance_def Let_def WithInstanceChanges_def split: option.splits
          intro!: reports_fire service_view_cong)
  next
    case (OpRemoveInstance svc name)
    then show ?thesis using assms(4) self dom [of svc]
      by (auto simp: RemoveInstance_def Let_def WithInstanceChanges_def split: option.splits if_splits
          intro!: reports_fire service_view_cong)
  next
    case (OpAddIngressInstance sess svc a d)
    then show ?thesis using assms(4) dom [of svc]
      by (auto simp: AddIngressInstance_def Let_def WithIngressInstanceChanges_def split: option.splits
          intro!: reports_fire service_view_cong)
  next
    case (OpRemoveIngressInstance svc a)
    then show ?thesis using assms(4) self dom [of svc]
      by (auto simp: RemoveIngressInstance_def Let_def WithIngressInstanceChanges_def split: option.splits if_splits
          intro!: reports_fire service_view_cong)
  next
    case (OpWatchServices ch opts)
    show ?thesis
    proof (cases "imInjected s")
      case None
      then show ?thesis using assms(4) OpWatchServices
        by (auto simp: WatchServices_def addWatcher_def intro!: reports_other [where l = "[]"])
    next
      case (Some e)
      then show ?thesis using assms(4) OpWatchServices
        by (auto simp: WatchServices_def intro!: reports_other [where l = "[ErrorPosted ch e]"])
    qed
  next
    case (OpWatchHosts ch)
    then show ?thesis using assms(4)
      by (auto simp: WatchHosts_def addWatcher_def intro!: reports_other [where l = "[]"])
  next
    case (OpDiscardWatcher w)
    then show ?thesis using assms(4)
      by (auto simp: discardWatcher_def intro!: reports_other [where l = "[]"])
  next
    case (OpInjectError e)
    then show ?thesis using assms(4)
      by (cases e) (auto simp: InjectError_def intro!: reports_other [where l = "[]"] reports_other)
  qed
qed

section \<open>The tables stay in step\<close>

lemma inner_finite_map:
  assumes "inner_finite t" and "\<And>m. dom (f m) \<subseteq> dom m"
  shows "inner_finite (\<lambda>a. map_option f (t a))"
proof -
  have "dom (\<lambda>a. map_option f (t a)) = dom t" by auto
  moreover have "finite (dom (f m))" if "t a = Some m" for a m
    using that assms finite_subset [OF assms(2)] by (auto simp: inner_finite_def)
  ultimately show ?thesis using assms(1) by (auto simp: inner_finite_def)
qed

lemma inner_finite_drop: "inner_finite t \<Longrightarrow> inner_finite (drop_keys D t)"
  unfolding inner_finite_def
  by (auto simp: drop_keys_def split: if_splits elim: finite_subset [rotated])

lemma dom_drop: "dom (drop_keys D t) = dom t - D"
  by (auto simp: drop_keys_def split: if_splits)

lemma store_ok_upd:
  assumes "store_ok s"
  shows "imGroupSpecs s svc = Some m \<Longrightarrow> finite (dom m') \<Longrightarrow> store_ok (s\<lparr>imGroupSpecs := (imGroupSpecs s)(svc \<mapsto> m')\<rparr>)"
    and "imInstances s svc = Some mi \<Longrightarrow> finite (dom mi') \<Longrightarrow> store_ok (s\<lparr>imInstances := (imInstances s)(svc \<mapsto> mi')\<rparr>)"
    and "imIngress s svc = Some mg \<Longrightarrow> finite (dom mg') \<Longrightarrow> store_ok (s\<lparr>imIngress := (imIngress s)(svc \<mapsto> mg')\<rparr>)"
  using assms by (auto simp: store_ok_def inner_finite_upd insert_absorb domI)

lemma store_ok_cong:
  "store_ok s \<Longrightarrow> imServices s' = imServices s \<Longrightarrow> imInstances s' = imInstances s \<Longrightarrow> imGroupSpecs s' = imGroupSpecs s
     \<Longrightarrow> imIngress s' = imIngress s \<Longrightarrow> finite (dom (imHosts s')) \<Longrightarrow> store_ok s'"
  by (simp add: store_ok_def)

lemma store_ok_finite:
  assumes "store_ok s"
  shows "imGroupSpecs s svc = Some m \<Longrightarrow> finite (dom m)" "imInstances s svc = Some mi \<Longrightarrow> finite (dom mi)"
    "imIngress s svc = Some mg \<Longrightarrow> finite (dom mg)" "finite (dom (imHosts s))"
  using assms by (auto simp: store_ok_def inner_finite_def)

lemma store_ok_fire: "store_ok (fireServiceChange n d f s) = store_ok s" "store_ok (fireHostChange n d s) = store_ok s"
  by (simp_all add: store_ok_def)

lemma store_step_ok:
  assumes "ordering_ok ord" and "ordering_ok aord" and "store_ok s" and "store_step ord aord op s = Some s'"
  shows "store_ok s'"
proof -
  note fin = store_ok_finite [OF assms(3)] and upd = store_ok_upd [OF assms(3)]
  show ?thesis
  proof (cases op)
    case (OpEndSession sess)
    then have "s' = EndSession ord aord sess s" using assms(4) by simp
    then obtain l where "s' = s\<lparr>imInstances := (\<lambda>svc. map_option (keep_others seSession sess) (imInstances s svc)),
        imIngress := (\<lambda>svc. map_option (keep_others sgSession sess) (imIngress s svc)),
        imHosts := keep_others shSession sess (imHosts s),
        imTimers := (imTimers s)(sess := None), imLog := imLog s @ l\<rparr>"
      using EndSession_spec [OF assms(1-3), of sess] by blast
    moreover have "dom (\<lambda>svc. map_option (keep_others seSession sess) (imInstances s svc)) = dom (imInstances s)"
      "dom (\<lambda>svc. map_option (keep_others sgSession sess) (imIngress s svc)) = dom (imIngress s)" by auto
    ultimately show ?thesis
      using assms(3) finite_subset [OF keep_others_dom fin(4)]
        inner_finite_map [of "imInstances s" "keep_others seSession sess", OF _ keep_others_dom]
        inner_finite_map [of "imIngress s" "keep_others sgSession sess", OF _ keep_others_dom]
      by (simp add: store_ok_def)
  next
    case OpRemoveAllServices
    then obtain l where "s' = without (dom (imServices s)) s\<lparr>imLog := imLog s @ l\<rparr>"
      using assms(4) RemoveAllServices_spec [OF assms(1,3)] by auto
    then show ?thesis using assms(3) by (simp add: store_ok_def without_def dom_drop inner_finite_drop)
  next
    case (OpAddService name svc)
    then show ?thesis using assms(3,4)
      by (auto simp: AddService_def Let_def store_ok_fire) (simp add: store_ok_def inner_finite_upd)
  next
    case (OpRemoveService name)
    then show ?thesis using assms(3,4)
      by (auto simp: RemoveService_def Let_def store_ok_fire) (simp add: store_ok_def inner_finite_upd)
  next
    case (OpSetContainerRule svc name r)
    then show ?thesis using assms(3,4) fin upd
      by (auto simp: SetContainerRule_def Let_def store_ok_fire split: option.splits)
  next
    case (OpRemoveContainerRule svc name)
    then show ?thesis using assms(3,4) fin upd
      by (auto simp: RemoveContainerRule_def Let_def store_ok_fire split: option.splits)
  next
    case (OpAddInstance sess svc name i)
    then show ?thesis using assms(4) fin upd
      by (auto simp: AddInstance_def Let_def store_ok_fire split: option.splits)
  next
    case (OpRemoveInstance svc name)
    then show ?thesis using assms(3,4) fin upd
      by (auto simp: RemoveInstance_def Let_def store_ok_fire split: option.splits if_splits)
  next
    case (OpAddIngressInstance sess svc a d)
    then show ?thesis using assms(4) fin upd
      by (auto simp: AddIngressInstance_def Let_def store_ok_fire split: option.splits)
  next
    case (OpRemoveIngressInstance svc a)
    then show ?thesis using assms(3,4) fin upd
      by (auto simp: RemoveIngressInstance_def Let_def store_ok_fire split: option.splits if_splits)
  qed (use assms(3,4) fin(4) in \<open>auto simp: RegisterHost_def DeregisterHost_def deleteHost_def Heartbeat_def Let_def
        WatchServices_def WatchHosts_def addWatcher_def discardWatcher_def InjectError_def
        intro!: store_ok_cong [OF assms(3)] split: option.splits\<close>)
qed

lemma NewInMem_ok: "store_ok NewInMem"
  by (simp add: store_ok_def NewInMem_def inner_finite_def)

fun store_run :: "(string ordering \<times> ipport ordering \<times> store_op) list \<Rightarrow> in_mem \<Rightarrow> in_mem option" where
  "store_run [] s = Some s"
| "store_run ((ord, aord, op) # ops) s =
     (case store_step ord aord op s of None \<Rightarrow> None | Some s' \<Rightarrow> store_run ops s')"

definition store_run_ok :: "(string ordering \<times> ipport ordering \<times> store_op) list \<Rightarrow> bool" where
  "store_run_ok ops \<longleftrightarrow> (\<forall>(ord, aord, op) \<in> set ops. ordering_ok ord \<and> ordering_ok aord)"

lemma store_run_keeps:
  assumes "store_run ops s = Some s'" and "store_run_ok ops" and "store_ok s"
  shows "store_ok s'"
  using assms
proof (induction ops arbitrary: s)
  case (Cons x ops)
  obtain ord aord op where x: "x = (ord, aord, op)" by (cases x) auto
  then obtain t where t: "store_step ord aord op s = Some t" "store_run ops t = Some s'"
    using Cons.prems(1) by (auto split: option.splits)
  moreover have "ordering_ok ord" "ordering_ok aord" "store_run_ok ops"
    using Cons.prems(2) x by (auto simp: store_run_ok_def)
  ultimately show ?case using Cons.IH [OF t(2)] store_step_ok Cons.prems(3) by blast
qed simp

end
