(* ===== verification/Watch.thy ===== *)
theory Watch
  imports InmemCorrect
begin

text \<open>
  The service watch of \<open>common/store/watch.go\<close>: it registers with the store, queries all services
  once, and from then on turns each change notification into a service update by querying the
  service again. The store is an argument. The state machine \<open>watch_reach\<close> interleaves store
  operations with the watch: notifications wait in the channel while the store moves on.
\<close>

section \<open>The watch loop\<close>

text \<open>\<open>doInitialQuery\<close> and the body of the loop of \<open>run\<close>: an error ends the watch.\<close>

definition doInitialQuery ::
  "('s \<Rightarrow> (string \<rightharpoonup> service_info) \<times> 'e option) \<Rightarrow> 's \<Rightarrow> 'e + service_update" where
  "doInitialQuery getAll s =
     (case getAll s of
        (_, Some err) \<Rightarrow> Inl err
      | (svcs, None) \<Rightarrow> Inr \<lparr>suServices = (\<lambda>n. map_option Some (svcs n)), suReset = True\<rparr>)"

definition watch_change ::
  "(string \<Rightarrow> 's \<Rightarrow> service_info option \<times> 'e option) \<Rightarrow> service_change \<Rightarrow> 's \<Rightarrow> 'e + service_update" where
  "watch_change get change s =
     (if scServiceDeleted change then Inr \<lparr>suServices = [scName change \<mapsto> None], suReset = False\<rparr>
      else (case get (scName change) s of
              (_, Some err) \<Rightarrow> Inl err
            | (svc, None) \<Rightarrow> Inr \<lparr>suServices = [scName change \<mapsto> svc], suReset = False\<rparr>))"

text \<open>What a consumer of service updates knows after one more update.\<close>

definition apply_services :: "(string \<rightharpoonup> service_info) \<Rightarrow> service_update \<Rightarrow> string \<rightharpoonup> service_info" where
  "apply_services v u n = (case suServices u n of Some x \<Rightarrow> x | None \<Rightarrow> if suReset u then None else v n)"

text \<open>
  The reachable states, from a store the watch is registered with: the store, what the consumer
  knows (\<open>None\<close> before the initial query), and the notifications still in the channel.
\<close>

inductive watch_reach ::
  "('s \<Rightarrow> (string \<rightharpoonup> service_info) \<times> 'e option) \<Rightarrow> (string \<Rightarrow> 's \<Rightarrow> service_info option \<times> 'e option)
    \<Rightarrow> ('s \<Rightarrow> bool) \<Rightarrow> ('s \<Rightarrow> 's \<Rightarrow> bool) \<Rightarrow> ('s \<Rightarrow> 's \<Rightarrow> service_change list)
    \<Rightarrow> 's \<Rightarrow> (string \<rightharpoonup> service_info) option \<Rightarrow> service_change list \<Rightarrow> bool"
  for getAll get init step events where
  registered: "init s \<Longrightarrow> watch_reach getAll get init step events s None []"
| operation: "watch_reach getAll get init step events s v q \<Longrightarrow> step s s' \<Longrightarrow>
    watch_reach getAll get init step events s' v (q @ events s s')"
| initial: "watch_reach getAll get init step events s None q \<Longrightarrow> doInitialQuery getAll s = Inr u \<Longrightarrow>
    watch_reach getAll get init step events s (Some (apply_services v u)) q"
| change: "watch_reach getAll get init step events s (Some v) (c # q) \<Longrightarrow> watch_change get c s = Inr u \<Longrightarrow>
    watch_reach getAll get init step events s (Some (apply_services v u)) q"

section \<open>What a watch needs of its store\<close>

locale watched_store =
  fixes getAll :: "'s \<Rightarrow> (string \<rightharpoonup> service_info) \<times> 'e option"
    and get :: "string \<Rightarrow> 's \<Rightarrow> service_info option \<times> 'e option"
    and ok :: "'s \<Rightarrow> bool"
    and named :: "string \<Rightarrow> bool"
    and step :: "'s \<Rightarrow> 's \<Rightarrow> bool"
    and events :: "'s \<Rightarrow> 's \<Rightarrow> service_change list"
  assumes step_ok: "ok s \<Longrightarrow> step s s' \<Longrightarrow> ok s'"
    and get_all: "ok s \<Longrightarrow> named n \<Longrightarrow> get n s = (svc, None) \<Longrightarrow> svc = fst (getAll s) n"
    and told: "ok s \<Longrightarrow> step s s' \<Longrightarrow> fst (getAll s') n \<noteq> fst (getAll s) n \<Longrightarrow> \<exists>c \<in> set (events s s'). scName c = n"
    and flagged: "ok s \<Longrightarrow> step s s' \<Longrightarrow> c \<in> set (events s s') \<Longrightarrow>
      named (scName c) \<and> (scServiceDeleted c \<longleftrightarrow> fst (getAll s') (scName c) = None)"
begin

text \<open>The last notification of a service in the channel says whether it is deleted now.\<close>

definition last_right :: "'s \<Rightarrow> service_change list \<Rightarrow> bool" where
  "last_right s q \<longleftrightarrow> (\<forall>q1 c q2. q = q1 @ c # q2 \<longrightarrow> (\<forall>d \<in> set q2. scName d \<noteq> scName c) \<longrightarrow>
     (scServiceDeleted c \<longleftrightarrow> fst (getAll s) (scName c) = None))"

definition up_to_date :: "'s \<Rightarrow> (string \<rightharpoonup> service_info) \<Rightarrow> service_change list \<Rightarrow> bool" where
  "up_to_date s v q \<longleftrightarrow> (\<forall>n. (\<forall>c \<in> set q. scName c \<noteq> n) \<longrightarrow> v n = fst (getAll s) n)"

lemma last_right_step:
  assumes "last_right s q" and "ok s" and "step s s'"
  shows "last_right s' (q @ events s s')"
  unfolding last_right_def
proof (intro allI impI)
  fix q1 c q2
  assume split: "q @ events s s' = q1 @ c # q2" and fresh: "\<forall>d \<in> set q2. scName d \<noteq> scName c"
  from split consider us where "q = q1 @ c # us" "q2 = us @ events s s'"
    | "c \<in> set (events s s')"
    by (auto simp: append_eq_append_conv2 append_eq_Cons_conv)
  then show "scServiceDeleted c \<longleftrightarrow> fst (getAll s') (scName c) = None"
  proof cases
    case (1 us)
    then have "fst (getAll s') (scName c) = fst (getAll s) (scName c)"
      using fresh told [OF assms(2,3), of "scName c"] by auto
    then show ?thesis using assms(1) 1 fresh by (auto simp: last_right_def)
  next
    case 2
    then show ?thesis using flagged [OF assms(2,3)] by blast
  qed
qed

lemma last_right_tl: "last_right s (c # q) \<Longrightarrow> last_right s q"
  unfolding last_right_def by (metis append_Cons)

lemma reach_inv:
  assumes "watch_reach getAll get init step events s v q" and "\<And>s. init s \<Longrightarrow> ok s"
  shows "ok s \<and> last_right s q \<and> (\<forall>c \<in> set q. named (scName c)) \<and> (\<forall>w. v = Some w \<longrightarrow> up_to_date s w q)"
  using assms(1)
proof (induction rule: watch_reach.induct)
  case (registered s)
  then show ?case using assms(2) by (simp add: last_right_def)
next
  case (operation s v q s')
  have "up_to_date s' w (q @ events s s')" if "v = Some w" for w
    unfolding up_to_date_def
  proof (intro allI impI)
    fix n assume n: "\<forall>c \<in> set (q @ events s s'). scName c \<noteq> n"
    then have "fst (getAll s') n = fst (getAll s) n" using told [OF _ operation.hyps(2), of n] operation.IH by auto
    then show "w n = fst (getAll s') n" using operation.IH that n by (auto simp: up_to_date_def)
  qed
  then show ?case using operation last_right_step step_ok flagged by auto
next
  case (initial s q u v)
  then have "apply_services v u = fst (getAll s)"
    by (auto simp: doInitialQuery_def apply_services_def fun_eq_iff split: prod.splits option.splits)
  then show ?case using initial by (simp add: up_to_date_def)
next
  case (change s v c q u)
  have "apply_services v u n = fst (getAll s) n" if n: "\<forall>d \<in> set q. scName d \<noteq> n" for n
  proof (cases "n = scName c")
    case True
    have "scServiceDeleted c \<longleftrightarrow> fst (getAll s) (scName c) = None"
      using change.IH n True unfolding last_right_def by (metis append_Nil)
    then show ?thesis using change.hyps(2) True get_all [of s "scName c"] change.IH
      by (auto simp: watch_change_def apply_services_def split: if_splits prod.splits option.splits)
  next
    case False
    then have "apply_services v u n = v n" using change.hyps(2)
      by (auto simp: watch_change_def apply_services_def split: if_splits prod.splits option.splits)
    then show ?thesis using change.IH n False by (simp add: up_to_date_def)
  qed
  then show ?case using change.IH last_right_tl by (auto simp: up_to_date_def)
qed

lemma drained:
  assumes "watch_reach getAll get init step events s (Some v) []" and "\<And>s. init s \<Longrightarrow> ok s"
  shows "v = fst (getAll s)"
  using reach_inv [OF assms] by (auto simp: up_to_date_def)

end

section \<open>Watching the in-memory store\<close>

text \<open>
  The steps a watcher lives through: operations while it is registered. Its channel gets the
  notifications in the log.
\<close>

definition inmem_step :: "nat \<Rightarrow> query_opts \<Rightarrow> in_mem \<Rightarrow> in_mem \<Rightarrow> bool" where
  "inmem_step ch opts s s' \<longleftrightarrow> ServiceWatcher ch opts \<in> set (imWatchers s) \<and>
     (\<exists>ord aord op. ordering_ok ord \<and> ordering_ok aord \<and> store_step ord aord op s = Some s')"

definition channel_events :: "nat \<Rightarrow> in_mem \<Rightarrow> in_mem \<Rightarrow> service_change list" where
  "channel_events ch s s' =
     concat (map (\<lambda>e. case e of ServiceChanged c ev \<Rightarrow> if c = ch then [ev] else [] | _ \<Rightarrow> [])
       (drop (length (imLog s)) (imLog s')))"

lemma in_channel_events:
  "c \<in> set (channel_events ch s s') \<longleftrightarrow> ServiceChanged ch c \<in> set (drop (length (imLog s)) (imLog s'))"
  by (fastforce simp: channel_events_def split: store_event.splits if_splits)

lemma getAll_None: "fst (GetAllServices opts s) n = None \<longleftrightarrow> imServices s n = None"
  by (simp add: GetAllServices_def)

interpretation inmem_watch: watched_store "GetAllServices opts" "\<lambda>n. GetService n opts" store_ok "\<lambda>_. True"
    "inmem_step ch opts" "channel_events ch"
  for ch opts
proof (unfold_locales, goal_cases)
  case (1 s s')
  then show ?case using store_step_ok by (auto simp: inmem_step_def)
next
  case (2 s n svc)
  then show ?case by (metis service_view_def service_view_eq fst_conv)
next
  case (3 s s' n)
  then have "reports s s'" "ServiceWatcher ch opts \<in> set (imWatchers s)"
    using store_step_reports by (auto simp: inmem_step_def)
  then have "ServiceChanged ch \<lparr>scName = n, scServiceDeleted = (imServices s' n = None)\<rparr>
      \<in> set (drop (length (imLog s)) (imLog s'))"
    using 3(3) unfolding reports_def service_view_eq by auto
  then show ?case
    by (intro bexI [of _ "\<lparr>scName = n, scServiceDeleted = (imServices s' n = None)\<rparr>"])
      (simp_all add: in_channel_events)
next
  case (4 s s' c)
  then have "reports s s'" using store_step_reports by (auto simp: inmem_step_def)
  then show ?case using 4(3) by (auto simp: reports_def in_channel_events getAll_None)
qed

end
