(* ===== verification/StoreProps.thy ===== *)
theory StoreProps
  imports Watch
begin

text \<open>
  The properties of the in-memory store and of a watch on it, with a small store to apply them to.
\<close>

definition all_opts :: query_opts where
  "all_opts = \<lparr>WithInstances = True, WithContainerRules = True, WithIngressInstances = True\<rparr>"

definition web_service :: service where
  "web_service = \<lparr>Address = None, InstancePort = 80, Protocol = ''http''\<rparr>"

definition web_inst :: inst where
  "web_inst = \<lparr>instHost = \<lparr>hostAddr = ''''\<rparr>, instContainerRule = '''', instAddress = None, instLabels = Map.empty\<rparr>"

text \<open>A service with one instance, a watcher on everything.\<close>

definition web_ops :: "(string ordering \<times> ipport ordering \<times> store_op) list" where
  "web_ops = map (\<lambda>op. (sorted_ordering, sorted_ordering, op))
     [OpWatchServices 7 all_opts, OpAddService ''web'' web_service, OpAddInstance ''s1'' ''web'' ''i'' web_inst]"

definition web_store :: in_mem where
  "web_store = \<lparr>imServices = [''web'' \<mapsto> web_service], imGroupSpecs = [''web'' \<mapsto> Map.empty],
     imInstances = [''web'' \<mapsto> [''i'' \<mapsto> \<lparr>seInstance = web_inst, seSession = ''s1''\<rparr>]],
     imIngress = [''web'' \<mapsto> Map.empty], imHosts = Map.empty, imHeartbeats = Map.empty,
     imTimers = Map.empty, imWatchers = [ServiceWatcher 7 all_opts], imInjected = None,
     imLog = [ServiceChanged 7 \<lparr>scName = ''web'', scServiceDeleted = False\<rparr>,
              ServiceChanged 7 \<lparr>scName = ''web'', scServiceDeleted = False\<rparr>]\<rparr>"

lemma web_store_run: "store_run web_ops NewInMem = Some web_store"
  by (simp add: web_ops_def NewInMem_def WatchServices_def addWatcher_def AddService_def AddInstance_def
      fireServiceChange_def all_opts_def WithInstanceChanges_def web_store_def Let_def)

lemma web_run_ok: "store_run_ok web_ops"
  by (simp add: store_run_ok_def web_ops_def)

section \<open>Notifications\<close>

text \<open>
  C32: In every reachable state of the store, an operation that changes what a query with a
  watcher's options returns for a service notifies that watcher, and every notification says
  correctly whether the service still exists.
\<close>

theorem store_changes_reported:
  assumes "store_run ops NewInMem = Some s" and "store_run_ok ops"
    and "ordering_ok ord" and "ordering_ok aord" and "store_step ord aord op s = Some s'"
  shows "\<exists>l. imLog s' = imLog s @ l \<and>
    (\<forall>ch opts name. ServiceWatcher ch opts \<in> set (imWatchers s) \<longrightarrow>
       fst (GetService name opts s') \<noteq> fst (GetService name opts s) \<longrightarrow>
       ServiceChanged ch \<lparr>scName = name, scServiceDeleted = (imServices s' name = None)\<rparr> \<in> set l) \<and>
    (\<forall>ch ev. ServiceChanged ch ev \<in> set l \<longrightarrow> scServiceDeleted ev = (imServices s' (scName ev) = None))"
  using store_step_reports [OF assms(3,4) store_run_keeps [OF assms(1,2) NewInMem_ok] assms(5)]
  by (simp add: reports_def service_view_def)

theorem store_changes_reported_witness:
  "ServiceChanged 7 \<lparr>scName = ''web'', scServiceDeleted = True\<rparr> \<in> set (imLog (snd (RemoveService ''web'' web_store)))"
proof -
  let ?s = "snd (RemoveService ''web'' web_store)"
  have step: "store_step sorted_ordering sorted_ordering (OpRemoveService ''web'') web_store = Some ?s" by simp
  have views: "fst (GetService ''web'' all_opts ?s) = None" "fst (GetService ''web'' all_opts web_store) \<noteq> None"
    "imServices ?s ''web'' = None" "ServiceWatcher 7 all_opts \<in> set (imWatchers web_store)"
    by (simp_all add: GetService_def RemoveService_def Let_def web_store_def)
  obtain l where l: "imLog ?s = imLog web_store @ l"
    "\<forall>ch opts name. ServiceWatcher ch opts \<in> set (imWatchers web_store) \<longrightarrow>
       fst (GetService name opts ?s) \<noteq> fst (GetService name opts web_store) \<longrightarrow>
       ServiceChanged ch \<lparr>scName = name, scServiceDeleted = (imServices ?s name = None)\<rparr> \<in> set l"
    using store_changes_reported [OF web_store_run web_run_ok sorted_ordering_ok sorted_ordering_ok step] by blast
  have "ServiceChanged 7 \<lparr>scName = ''web'', scServiceDeleted = (imServices ?s ''web'' = None)\<rparr> \<in> set l"
    by (rule l(2) [rule_format, OF views(4)]) (metis views(1,2))
  then show ?thesis by (simp add: l(1) views(3))
qed

text \<open>
  C31: A watch of the store catches up: however operations, notifications and queries interleave,
  once its channel is empty the updates it has sent add up to exactly the services of the store.
\<close>

theorem watch_converges:
  assumes "watch_reach (GetAllServices opts) (\<lambda>n. GetService n opts) store_ok (inmem_step ch opts)
    (channel_events ch) s (Some v) []"
  shows "v = fst (GetAllServices opts s)"
  by (rule inmem_watch.drained [OF assms]) simp_all

definition web_watched :: in_mem where
  "web_watched = snd (RemoveService ''web'' web_store)"

lemma web_watch_step: "inmem_step 7 all_opts web_store web_watched"
proof -
  have "ServiceWatcher 7 all_opts \<in> set (imWatchers web_store)" by (simp add: web_store_def)
  moreover have "store_step sorted_ordering sorted_ordering (OpRemoveService ''web'') web_store = Some web_watched"
    by (simp add: web_watched_def)
  ultimately show ?thesis unfolding inmem_step_def using sorted_ordering_ok sorted_ordering_ok by blast
qed

lemma web_events: "channel_events 7 web_store web_watched = [\<lparr>scName = ''web'', scServiceDeleted = True\<rparr>]"
  by (simp add: channel_events_def web_watched_def RemoveService_def Let_def fireServiceChange_def web_store_def)

abbreviation web_watch :: "in_mem \<Rightarrow> (string \<rightharpoonup> service_info) option \<Rightarrow> service_change list \<Rightarrow> bool" where
  "web_watch \<equiv> watch_reach (GetAllServices all_opts) (\<lambda>n. GetService n all_opts) store_ok (inmem_step 7 all_opts)
    (channel_events 7)"

theorem watch_converges_witness:
  "\<exists>v. web_watch web_watched (Some v) [] \<and> v = fst (GetAllServices all_opts web_watched) \<and> v ''web'' = None"
proof -
  obtain u where u: "doInitialQuery (GetAllServices all_opts) web_store = (Inr u :: store_error + service_update)"
    by (simp add: doInitialQuery_def GetAllServices_def web_store_def)
  have "store_ok web_store" by (rule store_run_keeps [OF web_store_run web_run_ok NewInMem_ok])
  then have "web_watch web_store (Some (apply_services Map.empty u)) []"
    by (rule watch_reach.initial [OF watch_reach.registered u])
  from watch_reach.operation [OF this web_watch_step]
  have "web_watch web_watched (Some (apply_services Map.empty u)) [\<lparr>scName = ''web'', scServiceDeleted = True\<rparr>]"
    by (simp add: web_events)
  then obtain v where v: "web_watch web_watched (Some v) []"
    using watch_reach.change by (fastforce simp: watch_change_def)
  moreover have "fst (GetAllServices all_opts web_watched) ''web'' = None"
    by (simp add: GetAllServices_def web_watched_def RemoveService_def Let_def)
  ultimately show ?thesis using watch_converges [OF v] by auto
qed

text \<open>
  A service that is added and removed before the watch handles the first notification ends
  the watch with an error.
\<close>

theorem watch_ends_on_removed_service:
  "\<exists>s q. web_watch s (Some Map.empty) (\<lparr>scName = ''web'', scServiceDeleted = False\<rparr> # q) \<and>
     watch_change (\<lambda>n. GetService n all_opts) \<lparr>scName = ''web'', scServiceDeleted = False\<rparr> s =
       Inl (NotFound ''web'')"
proof -
  define s0 where "s0 = WatchServices 7 all_opts NewInMem"
  define s1 where "s1 = snd (AddService ''web'' web_service s0)"
  define s2 where "s2 = snd (RemoveService ''web'' s1)"
  have op0: "store_step sorted_ordering sorted_ordering (OpWatchServices 7 all_opts) NewInMem = Some s0" by (simp add: s0_def)
  have op1: "store_step sorted_ordering sorted_ordering (OpAddService ''web'' web_service) s0 = Some s1" by (simp add: s1_def)
  have op2: "store_step sorted_ordering sorted_ordering (OpRemoveService ''web'') s1 = Some s2" by (simp add: s2_def)
  have ok: "store_ok s0" "store_ok s1"
    using store_step_ok [OF sorted_ordering_ok sorted_ordering_ok NewInMem_ok op0]
      store_step_ok [OF sorted_ordering_ok sorted_ordering_ok _ op1] by blast+
  have w: "ServiceWatcher 7 all_opts \<in> set (imWatchers s0)" "ServiceWatcher 7 all_opts \<in> set (imWatchers s1)"
    by (simp_all add: s0_def s1_def WatchServices_def addWatcher_def AddService_def Let_def NewInMem_def)
  have steps: "inmem_step 7 all_opts s0 s1" "inmem_step 7 all_opts s1 s2"
    unfolding inmem_step_def using w op1 op2 sorted_ordering_ok sorted_ordering_ok by blast+
  have ev: "channel_events 7 s0 s1 = [\<lparr>scName = ''web'', scServiceDeleted = False\<rparr>]"
    by (simp add: s0_def s1_def channel_events_def AddService_def WatchServices_def addWatcher_def Let_def
        fireServiceChange_def NewInMem_def)
  have "doInitialQuery (GetAllServices all_opts) s0 =
      (Inr \<lparr>suServices = Map.empty, suReset = True\<rparr> :: store_error + service_update)"
    by (simp add: s0_def doInitialQuery_def GetAllServices_def WatchServices_def addWatcher_def NewInMem_def)
  then have "web_watch s0 (Some (apply_services Map.empty \<lparr>suServices = Map.empty, suReset = True\<rparr>)) []"
    by (rule watch_reach.initial [rotated]) (rule watch_reach.registered [of store_ok, OF ok(1)])
  moreover have "apply_services Map.empty \<lparr>suServices = Map.empty, suReset = True\<rparr> = Map.empty"
    by (simp add: apply_services_def fun_eq_iff)
  ultimately have "web_watch s0 (Some Map.empty) []" by simp
  from watch_reach.operation [OF watch_reach.operation [OF this steps(1)] steps(2)]
  have "web_watch s2 (Some Map.empty) (\<lparr>scName = ''web'', scServiceDeleted = False\<rparr> # channel_events 7 s1 s2)"
    by (simp add: ev)
  moreover have "watch_change (\<lambda>n. GetService n all_opts) \<lparr>scName = ''web'', scServiceDeleted = False\<rparr> s2 =
       Inl (NotFound ''web'')"
    by (simp add: s2_def watch_change_def GetService_def RemoveService_def Let_def)
  ultimately show ?thesis by blast
qed

section \<open>Sessions and services\<close>

text \<open>
  Ending a session removes its hosts, instances and ingress instances, all of them and
  nothing else: those of other sessions, services and rules stay as they are.
\<close>

theorem end_session_exact:
  fixes sess :: string
  assumes "store_run ops NewInMem = Some s" and "store_run_ok ops" and "ordering_ok ord" and "ordering_ok aord"
  defines "s' \<equiv> EndSession ord aord sess s"
  shows "imServices s' = imServices s \<and> imGroupSpecs s' = imGroupSpecs s \<and>
    imHosts s' = keep_others shSession sess (imHosts s) \<and>
    imInstances s' = (\<lambda>svc. map_option (keep_others seSession sess) (imInstances s svc)) \<and>
    imIngress s' = (\<lambda>svc. map_option (keep_others sgSession sess) (imIngress s svc))"
proof -
  have "store_ok s" by (rule store_run_keeps [OF assms(1,2) NewInMem_ok])
  from EndSession_spec [OF assms(3,4) this, of sess] show ?thesis by (auto simp: s'_def)
qed

theorem end_session_exact_witness:
  "imInstances (EndSession sorted_ordering sorted_ordering ''s1'' web_store) ''web'' = Some Map.empty"
proof -
  have "keep_others seSession ''s1'' [''i'' \<mapsto> \<lparr>seInstance = web_inst, seSession = ''s1''\<rparr>] = Map.empty"
    by (simp add: keep_others_def fun_eq_iff)
  then show ?thesis
    using end_session_exact [OF web_store_run web_run_ok sorted_ordering_ok sorted_ordering_ok, of "''s1''"]
    by (simp add: web_store_def)
qed

text \<open>
  In every reachable state, adding an instance panics exactly when its service is not in the
  store; otherwise a query that asks for instances finds it, and the other instances unchanged.
\<close>

theorem add_instance_panics:
  assumes "store_run ops NewInMem = Some s" and "store_run_ok ops"
  shows "case AddInstance sess svc name i s of
      None \<Rightarrow> imServices s svc = None
    | Some (err, s') \<Rightarrow> imServices s svc \<noteq> None \<and> err = imInjected s \<and>
        (\<forall>info opts. GetService svc opts s = (Some info, imInjected s) \<and> WithInstances opts \<longrightarrow>
           GetService svc opts s' = (Some (info\<lparr>Instances := (Instances info)(name \<mapsto> i)\<rparr>), err))"
proof -
  have ok: "store_ok s" by (rule store_run_keeps [OF assms NewInMem_ok])
  then have dom: "imInstances s svc = None \<longleftrightarrow> imServices s svc = None"
    unfolding store_ok_def by (metis domIff)
  show ?thesis
  proof (cases "imInstances s svc")
    case None
    then show ?thesis using dom by (simp add: AddInstance_def)
  next
    case (Some m)
    then obtain v where v: "imServices s svc = Some v" using dom by auto
    show ?thesis using Some v
      by (auto simp: AddInstance_def Let_def GetService_def makeServiceInfo_def fun_eq_iff)
  qed
qed

theorem add_instance_panics_witness: "AddInstance ''s1'' ''db'' ''i'' web_inst web_store = None"
proof -
  have "imServices web_store ''db'' = None" by (simp add: web_store_def)
  then show ?thesis
    using add_instance_panics [OF web_store_run web_run_ok, where sess = "''s1''" and svc = "''db''"
        and name = "''i''" and i = web_inst]
    by (cases "AddInstance ''s1'' ''db'' ''i'' web_inst web_store") auto
qed

end
