(* ===== verification/SetInstances.thy ===== *)
theory SetInstances
  imports SyncWitness StoreProps
begin

text \<open>
  The last stage of the agent (\<open>agent/set_instances.go\<close>): it applies instance updates to the
  store. The store is reached through the three operations of \<open>store.Store\<close> the code calls,
  a record of functions here; \<open>instance_store\<close> is what the code relies on them for. The in-memory
  store provides it, and so does the etcd store (theory \<open>EtcdInstances\<close>). The errors posted to the
  sink are collected in a list.
\<close>

section \<open>Operations\<close>

record ('err, 's) instance_ops =
  ioGetAllServices :: "'s \<Rightarrow> (string \<rightharpoonup> service_info) \<times> 'err option"
  ioAddInstance :: "string \<Rightarrow> string \<Rightarrow> inst \<Rightarrow> 's \<Rightarrow> ('err option \<times> 's) option"
  ioRemoveInstance :: "string \<Rightarrow> string \<Rightarrow> 's \<Rightarrow> 'err option \<times> 's"

text \<open>\<open>ErrorSink.Post\<close> ignores nil.\<close>

definition post :: "'err option \<Rightarrow> 'err list \<Rightarrow> 'err list" where
  "post e errs = (case e of None \<Rightarrow> errs | Some err \<Rightarrow> errs @ [err])"

definition removeInstance ::
  "('err, 's) instance_ops \<Rightarrow> instance_key \<Rightarrow> 'err list \<times> 's \<Rightarrow> 'err list \<times> 's" where
  "removeInstance ops key st =
     (let (e, s) = ioRemoveInstance ops (fst key) (snd key) (snd st) in (post e (fst st), s))"

text \<open>\<open>update.Instances[key] == nil\<close> holds of a missing key and of a nil entry.\<close>

definition wanted :: "instance_update \<Rightarrow> instance_key \<Rightarrow> bool" where
  "wanted u key \<longleftrightarrow> (case iuInstances u key of None \<Rightarrow> False | Some None \<Rightarrow> False | Some (Some _) \<Rightarrow> True)"

definition prune_instance ::
  "('err, 's) instance_ops \<Rightarrow> ip \<Rightarrow> instance_update \<Rightarrow> instance_key \<Rightarrow> inst \<Rightarrow> 'err list \<times> 's \<Rightarrow> 'err list \<times> 's" where
  "prune_instance ops hostIP u key i st =
     (if \<not> ip_equal hostIP (hostAddr (instHost i)) then st
      else if \<not> wanted u key then removeInstance ops key st else st)"

definition processReset ::
  "('err, 's) instance_ops \<Rightarrow> string ordering \<Rightarrow> ip \<Rightarrow> instance_update \<Rightarrow> 'err list \<times> 's \<Rightarrow> 'err list \<times> 's" where
  "processReset ops ord hostIP u st =
     (case ioGetAllServices ops (snd st) of
        (_, Some err) \<Rightarrow> (fst st @ [err], snd st)
      | (svcs, None) \<Rightarrow>
          for_keys (\<lambda>_. svcs)
            (\<lambda>svcName svc. for_keys (\<lambda>_. Instances svc)
               (\<lambda>instName inst. prune_instance ops hostIP u (svcName, instName) inst)
               (ord [''instances'', svcName] (dom (Instances svc))))
            (ord [''services''] (dom svcs)) st)"

definition processUpdate ::
  "('err, 's) instance_ops \<Rightarrow> string ordering \<Rightarrow> instance_key ordering \<Rightarrow> ip \<Rightarrow> instance_update
    \<Rightarrow> 'err list \<times> 's \<Rightarrow> ('err list \<times> 's) option" where
  "processUpdate ops ord kord hostIP u st =
     (let st1 = (if iuReset u then processReset ops ord hostIP u st else st) in
      for_keysM (\<lambda>_. iuInstances u)
        (\<lambda>key inst st. case inst of
            None \<Rightarrow> Some (removeInstance ops key st)
          | Some i \<Rightarrow>
              (case ioAddInstance ops (fst key) (snd key) i (snd st) of
                 None \<Rightarrow> None
               | Some (e, s) \<Rightarrow> Some (post e (fst st), s)))
        (kord [''update''] (dom (iuInstances u))) st1)"

text \<open>The loop over the updates that arrive.\<close>

fun set_instances ::
  "('err, 's) instance_ops \<Rightarrow> ip \<Rightarrow> (string ordering \<times> instance_key ordering \<times> instance_update) list
    \<Rightarrow> 'err list \<times> 's \<Rightarrow> ('err list \<times> 's) option" where
  "set_instances ops hostIP [] st = Some st"
| "set_instances ops hostIP ((ord, kord, u) # us) st =
     (case processUpdate ops ord kord hostIP u st of
        None \<Rightarrow> None
      | Some st' \<Rightarrow> set_instances ops hostIP us st')"

section \<open>What the agent relies on in the store\<close>

text \<open>The instances of a host among those of a store.\<close>

definition published :: "ip \<Rightarrow> (instance_key \<rightharpoonup> inst) \<Rightarrow> instance_key \<rightharpoonup> inst" where
  "published hostIP v k =
     (case v k of
        None \<Rightarrow> None
      | Some i \<Rightarrow> if ip_equal hostIP (hostAddr (instHost i)) then Some i else None)"

text \<open>
  \<open>view\<close> is what the queries show, \<open>key_ok\<close> and \<open>inst_ok\<close> are the keys and instances that the
  store can hold, \<open>known\<close> the services it has. A store may keep records that its queries hide:
  removing one of them succeeds too.
\<close>

locale instance_store =
  fixes ops :: "('err, 's) instance_ops"
    and ok :: "'s \<Rightarrow> bool"
    and known :: "'s \<Rightarrow> string \<Rightarrow> bool"
    and view :: "'s \<Rightarrow> instance_key \<rightharpoonup> inst"
    and key_ok :: "instance_key \<Rightarrow> bool"
    and inst_ok :: "inst \<Rightarrow> bool"
  assumes get_all: "ok s \<Longrightarrow> \<exists>svcs. ioGetAllServices ops s = (svcs, None) \<and> finite (dom svcs) \<and>
      (\<forall>n svc. svcs n = Some svc \<longrightarrow> finite (dom (Instances svc))) \<and>
      (\<forall>n m. view s (n, m) = (case svcs n of None \<Rightarrow> None | Some svc \<Rightarrow> Instances svc m))"
    and view_keys: "ok s \<Longrightarrow> view s k \<noteq> None \<Longrightarrow> key_ok k"
    and add: "ok s \<Longrightarrow> known s svc \<Longrightarrow> key_ok (svc, name) \<Longrightarrow> inst_ok i \<Longrightarrow> \<exists>s'. ioAddInstance ops svc name i s = Some (None, s') \<and>
      ok s' \<and> known s' = known s \<and> view s' = (view s)((svc, name) \<mapsto> i)"
    and remove: "ok s \<Longrightarrow> key_ok (svc, name) \<Longrightarrow> \<exists>e s'. ioRemoveInstance ops svc name s = (e, s') \<and> ok s' \<and>
      known s' = known s \<and> view s' = (view s)((svc, name) := None) \<and> (view s (svc, name) \<noteq> None \<longrightarrow> e = None)"
begin

definition on_host :: "ip \<Rightarrow> 's \<Rightarrow> instance_key \<Rightarrow> bool" where
  "on_host hostIP s k \<longleftrightarrow> (\<exists>i. view s k = Some i \<and> ip_equal hostIP (hostAddr (instHost i)))"

text \<open>The view after the reset has gone through the keys \<open>D\<close> .\<close>

definition pruned :: "ip \<Rightarrow> instance_update \<Rightarrow> 's \<Rightarrow> instance_key set \<Rightarrow> instance_key \<rightharpoonup> inst" where
  "pruned hostIP u s D k = (if k \<in> D \<and> on_host hostIP s k \<and> \<not> wanted u k then None else view s k)"

lemma removeInstance_spec:
  assumes "ok (snd st)" and "key_ok k"
  obtains st' where "removeInstance ops k st = st'" and "ok (snd st')" and "known (snd st') = known (snd st)"
    and "view (snd st') = (view (snd st))(k := None)" and "view (snd st) k \<noteq> None \<longrightarrow> fst st' = fst st"
proof -
  obtain e s' where r: "ioRemoveInstance ops (fst k) (snd k) (snd st) = (e, s')" "ok s'"
    "known s' = known (snd st)" "view s' = (view (snd st))((fst k, snd k) := None)"
    "view (snd st) (fst k, snd k) \<noteq> None \<longrightarrow> e = None"
    using remove [OF assms(1), of "fst k" "snd k"] assms(2) by auto
  show ?thesis by (rule that [OF refl]) (use r in \<open>auto simp: removeInstance_def post_def\<close>)
qed

lemma processReset_spec:
  assumes "ok s" and "ordering_ok ord"
  obtains s' where "processReset ops ord hostIP u (errs, s) = (errs, s')" and "ok s'" and "known s' = known s"
    and "view s' = pruned hostIP u s UNIV"
proof -
  obtain svcs where svcs: "ioGetAllServices ops s = (svcs, None)" "finite (dom svcs)"
    "\<And>n svc. svcs n = Some svc \<Longrightarrow> finite (dom (Instances svc))"
    "\<And>n m. view s (n, m) = (case svcs n of None \<Rightarrow> None | Some svc \<Rightarrow> Instances svc m)"
    using get_all [OF assms(1)] by auto
  let ?step = "\<lambda>n m. prune_instance ops hostIP u (n, m)"
  define P where "P D st \<longleftrightarrow> fst st = errs \<and> ok (snd st) \<and> known (snd st) = known s \<and>
      view (snd st) = pruned hostIP u s D" for D st
  have step: "P (insert (n, m) D) (?step n m i st)" if "P D st" "(n, m) \<notin> D" "view s (n, m) = Some i" for D n m i st
  proof (cases "ip_equal hostIP (hostAddr (instHost i)) \<and> \<not> wanted u (n, m)")
    case True
    then have e: "?step n m i st = removeInstance ops (n, m) st" by (simp add: prune_instance_def)
    have ok: "ok (snd st)" "view (snd st) (n, m) \<noteq> None" using that by (auto simp: P_def pruned_def)
    have key: "key_ok (n, m)" by (rule view_keys [OF assms(1)]) (simp add: that(3))
    obtain st' where st': "removeInstance ops (n, m) st = st'" "ok (snd st')" "known (snd st') = known (snd st)"
      "view (snd st') = (view (snd st))((n, m) := None)" "fst st' = fst st"
      using removeInstance_spec [OF ok(1) key] ok(2) by metis
    have "(pruned hostIP u s D)((n, m) := None) = pruned hostIP u s (insert (n, m) D)"
      using True that(3) by (auto simp: pruned_def fun_eq_iff on_host_def)
    then show ?thesis unfolding e st'(1) using st' that(1) by (simp add: P_def)
  next
    case False
    then have "?step n m i st = st" "pruned hostIP u s (insert (n, m) D) = pruned hostIP u s D"
      using that(3) by (auto simp: prune_instance_def pruned_def fun_eq_iff on_host_def)
    then show ?thesis using that(1) by (simp add: P_def)
  qed
  have inner: "P (D \<union> {n} \<times> dom (Instances svc))
      (for_keys (\<lambda>_. Instances svc) (?step n) (ord [''instances'', n] (dom (Instances svc))) st)"
    if "P D st" "\<And>m. (n, m) \<notin> D" "svcs n = Some svc" for D n svc st
  proof -
    have fin: "finite (dom (Instances svc))" by (rule svcs(3) [OF that(3)])
    have "P (D \<union> {n} \<times> set (ord [''instances'', n] (dom (Instances svc))))
      (for_keys (\<lambda>_. Instances svc) (?step n) (ord [''instances'', n] (dom (Instances svc))) st)"
    proof (rule for_keys_visited [where P = "\<lambda>V st. P (D \<union> {n} \<times> V) st"])
      fix m i st V assume "P (D \<union> {n} \<times> V) st" "m \<notin> V" "Instances svc m = Some i"
      then have "P (insert (n, m) (D \<union> {n} \<times> V)) (?step n m i st)"
        by (intro step) (use that(2,3) svcs(4) in auto)
      moreover have "D \<union> {n} \<times> insert m V = insert (n, m) (D \<union> {n} \<times> V)" by auto
      ultimately show "P (D \<union> {n} \<times> insert m V) (?step n m i st)" by simp
    qed (use that(1) assms(2) fin in auto)
    then show ?thesis using assms(2) fin by simp
  qed
  let ?keys = "\<lambda>V. {k. fst k \<in> V \<and> view s k \<noteq> None}"
  define r where "r = for_keys (\<lambda>_. svcs) (\<lambda>n svc. for_keys (\<lambda>_. Instances svc) (?step n)
         (ord [''instances'', n] (dom (Instances svc)))) (ord [''services''] (dom svcs)) (errs, s)"
  have r: "processReset ops ord hostIP u (errs, s) = r"
    by (simp add: processReset_def svcs(1) r_def)
  have "P (?keys (set (ord [''services''] (dom svcs)))) r"
    unfolding r_def
  proof (rule for_keys_visited [where P = "\<lambda>V st. P (?keys V) st"])
    show "P (?keys {}) (errs, s)" using assms(1) by (simp add: P_def pruned_def fun_eq_iff)
  next
    fix n svc st V assume "P (?keys V) st" "n \<notin> V" and n: "svcs n = Some svc"
    then have "P (?keys V \<union> {n} \<times> dom (Instances svc)) (for_keys (\<lambda>_. Instances svc) (?step n)
         (ord [''instances'', n] (dom (Instances svc))) st)" by (intro inner) auto
    moreover have "?keys (insert n V) = ?keys V \<union> {n} \<times> dom (Instances svc)"
      using n svcs(4) by auto
    ultimately show "P (?keys (insert n V)) (for_keys (\<lambda>_. Instances svc) (?step n)
         (ord [''instances'', n] (dom (Instances svc))) st)" by simp
  qed (use assms(2) svcs(2) in auto)
  then have P: "P (?keys (dom svcs)) r" using assms(2) svcs(2) by simp
  have "pruned hostIP u s (?keys (dom svcs)) = pruned hostIP u s UNIV"
    using svcs(4) by (auto simp: pruned_def fun_eq_iff on_host_def split: option.splits)
  with P show ?thesis
    by (intro that [of "snd r"]) (auto simp: P_def r prod_eq_iff)
qed

text \<open>
  What an update does to the store's view: it is applied, after a reset has removed this host's
  instances that it does not carry. No error is posted when it withdraws nothing that is missing.
\<close>

definition updated :: "ip \<Rightarrow> instance_update \<Rightarrow> 's \<Rightarrow> instance_key \<rightharpoonup> inst" where
  "updated hostIP u s k =
     (case iuInstances u k of
        Some x \<Rightarrow> x
      | None \<Rightarrow> if iuReset u \<and> on_host hostIP s k then None else view s k)"

lemma processUpdate_spec:
  assumes "ok s" and "ordering_ok ord" and "ordering_ok kord" and "finite (dom (iuInstances u))"
    and "\<And>k i. iuInstances u k = Some (Some i) \<Longrightarrow> known s (fst k) \<and> inst_ok i"
    and "\<And>k. iuInstances u k \<noteq> None \<Longrightarrow> key_ok k"
  obtains s' errs' where "processUpdate ops ord kord hostIP u (errs, s) = Some (errs', s')" and "ok s'"
    and "known s' = known s" and "view s' = updated hostIP u s"
    and "(\<forall>k. iuInstances u k = Some None \<longrightarrow> view s k \<noteq> None \<and> \<not> (iuReset u \<and> on_host hostIP s k)) \<longrightarrow> errs' = errs"
proof -
  define s1 where "s1 = snd (if iuReset u then processReset ops ord hostIP u (errs, s) else (errs, s))"
  define v where "v = (if iuReset u then pruned hostIP u s UNIV else view s)"
  have s1: "(if iuReset u then processReset ops ord hostIP u (errs, s) else (errs, s)) = (errs, s1)"
    "ok s1" "known s1 = known s" "view s1 = v"
  proof -
    obtain s' where "processReset ops ord hostIP u (errs, s) = (errs, s')" "ok s'" "known s' = known s"
      "view s' = pruned hostIP u s UNIV" by (rule processReset_spec [OF assms(1,2)])
    then show "(if iuReset u then processReset ops ord hostIP u (errs, s) else (errs, s)) = (errs, s1)"
      "ok s1" "known s1 = known s" "view s1 = v"
      using assms(1) by (auto simp: s1_def v_def)
  qed
  let ?body = "\<lambda>key inst st. case inst of
            None \<Rightarrow> Some (removeInstance ops key st)
          | Some i \<Rightarrow>
              (case ioAddInstance ops (fst key) (snd key) i (snd st) of
                 None \<Rightarrow> None
               | Some (e, s) \<Rightarrow> Some (post e (fst st), s))"
  let ?w = "\<lambda>D k. if k \<in> D then (case iuInstances u k of Some x \<Rightarrow> x | None \<Rightarrow> v k) else v k"
  define P where "P D st \<longleftrightarrow> ok (snd st) \<and> known (snd st) = known s \<and> view (snd st) = ?w D \<and>
      ((\<forall>k \<in> D. iuInstances u k = Some None \<longrightarrow> v k \<noteq> None) \<longrightarrow> fst st = errs)" for D st
  have total: "\<exists>st'. ?body k x st = Some st' \<and> P (insert k D) st'"
    if "P D st" "k \<notin> D" "iuInstances u k = Some x" for D k x st
  proof (cases x)
    case None
    have ok: "ok (snd st)" "key_ok k" and vk: "view (snd st) k = v k" using that assms(6) by (auto simp: P_def)
    obtain st' where st': "removeInstance ops k st = st'" "ok (snd st')" "known (snd st') = known (snd st)"
      "view (snd st') = (view (snd st))(k := None)" "view (snd st) k \<noteq> None \<longrightarrow> fst st' = fst st"
      by (rule removeInstance_spec [OF ok]) blast
    have "(?w D)(k := None) = ?w (insert k D)" using that(3) None by (auto simp: fun_eq_iff)
    then have "P (insert k D) st'"
      using st' that vk None by (auto simp: P_def)
    then show ?thesis using None st'(1) by simp
  next
    case (Some i)
    have ok: "ok (snd st)" "known (snd st) (fst k)" "key_ok (fst k, snd k)" "inst_ok i"
      using that(1,3) Some assms(5,6) by (auto simp: P_def)
    obtain s' where s': "ioAddInstance ops (fst k) (snd k) i (snd st) = Some (None, s')" "ok s'"
      "known s' = known (snd st)" "view s' = (view (snd st))((fst k, snd k) \<mapsto> i)"
      using add [OF ok] by blast
    have "(?w D)(k \<mapsto> i) = ?w (insert k D)" using that(3) Some by (auto simp: fun_eq_iff)
    then have "P (insert k D) (fst st, s')" using s' that(1) by (auto simp: P_def)
    then show ?thesis using Some s'(1) by (simp add: post_def)
  qed
  have loop: "\<exists>st'. for_keysM (\<lambda>_. iuInstances u) ?body ks st = Some st' \<and> P (D \<union> set ks) st'"
    if "P D st" "distinct ks" "D \<inter> set ks = {}" "set ks \<subseteq> dom (iuInstances u)" for ks D st
    using that
  proof (induction ks arbitrary: D st)
    case (Cons k ks)
    then obtain x where x: "iuInstances u k = Some x" by auto
    obtain st1 where "?body k x st = Some st1" "P (insert k D) st1"
      using total [OF Cons.prems(1) _ x] Cons.prems(3) by auto
    moreover from Cons.IH [OF this(2)] Cons.prems
    obtain st2 where "for_keysM (\<lambda>_. iuInstances u) ?body ks st1 = Some st2" "P (insert k D \<union> set ks) st2" by auto
    ultimately show ?case using x by simp
  qed simp
  have "P {} (errs, s1)" using s1 by (simp add: P_def)
  from loop [OF this, of "kord [''update''] (dom (iuInstances u))"] assms(3,4)
  obtain st' where st': "for_keysM (\<lambda>_. iuInstances u) ?body (kord [''update''] (dom (iuInstances u))) (errs, s1) = Some st'"
    "P (dom (iuInstances u)) st'" by auto
  have "processUpdate ops ord kord hostIP u (errs, s) = Some st'"
    using st'(1) by (simp add: processUpdate_def s1(1))
  moreover have "?w (dom (iuInstances u)) k = updated hostIP u s k" for k
    by (auto simp: updated_def v_def pruned_def wanted_def split: option.splits)
  moreover have "v k \<noteq> None" if "iuInstances u k = Some None" "view s k \<noteq> None" "\<not> (iuReset u \<and> on_host hostIP s k)" for k
    using that by (auto simp: v_def pruned_def)
  ultimately show ?thesis
    using st'(2) by (intro that [of "fst st'" "snd st'"]) (auto simp: P_def)
qed

text \<open>This host's part of the store follows the updates, and the rest stays.\<close>

lemma published_on: "published hostIP (view s) = (\<lambda>k. if on_host hostIP s k then view s k else None)"
  by (auto simp: published_def on_host_def fun_eq_iff split: option.split)

lemma own_iff: "view s k = published hostIP (view s) k \<longleftrightarrow> view s k = None \<or> on_host hostIP s k"
  by (auto simp: published_on on_host_def)

lemma set_instances_spec:
  assumes "ok s"
    and "\<And>ord kord u. (ord, kord, u) \<in> set us \<Longrightarrow> ordering_ok ord \<and> ordering_ok kord \<and> finite (dom (iuInstances u))"
    and "\<And>ord kord u k i. (ord, kord, u) \<in> set us \<Longrightarrow> iuInstances u k = Some (Some i) \<Longrightarrow>
      known s (fst k) \<and> inst_ok i \<and> ip_equal hostIP (hostAddr (instHost i))"
    and "\<And>ord kord u k. (ord, kord, u) \<in> set us \<Longrightarrow> iuInstances u k \<noteq> None \<Longrightarrow>
      key_ok k \<and> (view s k = None \<or> on_host hostIP s k)"
  shows "\<exists>errs' s'. set_instances ops hostIP us (errs, s) = Some (errs', s') \<and> ok s' \<and>
    published hostIP (view s') = foldl apply_update (published hostIP (view s)) (map (\<lambda>x. snd (snd x)) us) \<and>
    (\<forall>k. view s k \<noteq> None \<longrightarrow> \<not> on_host hostIP s k \<longrightarrow> view s' k = view s k)"
  using assms
proof (induction us arbitrary: errs s)
  case (Cons x us)
  obtain ord kord u where x: "x = (ord, kord, u)" by (cases x)
  have u: "ordering_ok ord" "ordering_ok kord" "finite (dom (iuInstances u))"
    "\<And>k i. iuInstances u k = Some (Some i) \<Longrightarrow> known s (fst k) \<and> inst_ok i"
    "\<And>k. iuInstances u k \<noteq> None \<Longrightarrow> key_ok k"
    "\<And>k i. iuInstances u k = Some (Some i) \<Longrightarrow> ip_equal hostIP (hostAddr (instHost i))"
    "\<And>k. iuInstances u k \<noteq> None \<Longrightarrow> view s k = None \<or> on_host hostIP s k"
    using Cons.prems(2-4) x by fastforce+
  obtain s1 errs1 where s1: "processUpdate ops ord kord hostIP u (errs, s) = Some (errs1, s1)" "ok s1"
    "known s1 = known s" "view s1 = updated hostIP u s"
    by (rule processUpdate_spec [OF Cons.prems(1) u(1-5)]) blast
  have on1: "on_host hostIP s1 k \<longleftrightarrow>
      (case iuInstances u k of Some x \<Rightarrow> x \<noteq> None | None \<Rightarrow> on_host hostIP s k \<and> \<not> iuReset u)" for k
    using u(6) [of k] by (auto simp: on_host_def s1(4) updated_def split: option.splits)
  have hv: "published hostIP (view s1) = apply_update (published hostIP (view s)) u"
    unfolding published_on using on1
    by (auto simp: apply_update_def s1(4) updated_def fun_eq_iff split: option.splits)
  have keep: "view s1 k = None \<or> on_host hostIP s1 k" if "view s k = None \<or> on_host hostIP s k" for k
    using that on1 [of k] by (auto simp: s1(4) updated_def split: option.splits)
  have foreign: "view s1 k = view s k \<and> \<not> on_host hostIP s1 k" if "view s k \<noteq> None" "\<not> on_host hostIP s k" for k
    using that u(7) [of k] on1 [of k] by (auto simp: s1(4) updated_def split: option.splits)
  have "\<exists>errs' s'. set_instances ops hostIP us (errs1, s1) = Some (errs', s') \<and> ok s' \<and>
    published hostIP (view s') = foldl apply_update (published hostIP (view s1)) (map (\<lambda>x. snd (snd x)) us) \<and>
    (\<forall>k. view s1 k \<noteq> None \<longrightarrow> \<not> on_host hostIP s1 k \<longrightarrow> view s' k = view s1 k)"
  proof (rule Cons.IH [OF s1(2)])
    show "ordering_ok ord \<and> ordering_ok kord \<and> finite (dom (iuInstances u))" if "(ord, kord, u) \<in> set us" for ord kord u
      by (rule Cons.prems(2)) (use that in simp)
    show "known s1 (fst k) \<and> inst_ok i \<and> ip_equal hostIP (hostAddr (instHost i))"
      if "(ord, kord, u) \<in> set us" "iuInstances u k = Some (Some i)" for ord kord u k i
      unfolding s1(3) by (rule Cons.prems(3)) (use that in auto)
    fix ord kord u k assume "(ord, kord, u) \<in> set us" "iuInstances u k \<noteq> None"
    then have "key_ok k \<and> (view s k = None \<or> on_host hostIP s k)"
      by (intro Cons.prems(4) [of ord kord u k]) simp_all
    then show "key_ok k \<and> (view s1 k = None \<or> on_host hostIP s1 k)" using keep [of k] by blast
  qed
  then show ?case using x s1(1) hv foreign by auto
qed simp

end

section \<open>The in-memory store provides it\<close>

definition inmem_ops :: "string \<Rightarrow> (store_error, in_mem) instance_ops" where
  "inmem_ops sess = \<lparr>ioGetAllServices = GetAllServices
       \<lparr>WithInstances = True, WithContainerRules = False, WithIngressInstances = False\<rparr>,
     ioAddInstance = AddInstance sess, ioRemoveInstance = RemoveInstance\<rparr>"

definition inmem_ok :: "in_mem \<Rightarrow> bool" where
  "inmem_ok s \<longleftrightarrow> store_ok s \<and> imInjected s = None"

definition inmem_known :: "in_mem \<Rightarrow> string \<Rightarrow> bool" where
  "inmem_known s svc \<longleftrightarrow> imServices s svc \<noteq> None"

definition inmem_view :: "in_mem \<Rightarrow> instance_key \<rightharpoonup> inst" where
  "inmem_view s k =
     (case imInstances s (fst k) of None \<Rightarrow> None | Some m \<Rightarrow> map_option seInstance (m (snd k)))"

interpretation inmem: instance_store "inmem_ops sess" inmem_ok inmem_known inmem_view "\<lambda>_. True" "\<lambda>_. True" for sess
proof (unfold_locales, goal_cases get view add remove)
  case (get s)
  then have ok: "inmem_ok s" and s: "store_ok s" by (simp_all add: inmem_ok_def)
  have dom: "imInstances s n = None \<longleftrightarrow> imServices s n = None" for n
    using s unfolding store_ok_def by (metis domIff)
  have fin: "finite (dom (imServices s))" using s by (auto simp: store_ok_def inner_finite_def)
  let ?svcs = "fst (ioGetAllServices (inmem_ops sess) s)"
  have "dom ?svcs = dom (imServices s)" by (auto simp: inmem_ops_def GetAllServices_def)
  moreover have "finite (dom (Instances svc))" if "?svcs n = Some svc" for n svc
  proof (cases "imInstances s n")
    case None
    then show ?thesis using that by (auto simp: inmem_ops_def GetAllServices_def makeServiceInfo_def)
  next
    case (Some m)
    have "Instances svc = (\<lambda>k. map_option seInstance (m k))"
      using that Some by (auto simp: inmem_ops_def GetAllServices_def makeServiceInfo_def)
    moreover have "dom (\<lambda>k. map_option seInstance (m k)) = dom m" by auto
    ultimately show ?thesis using store_ok_finite(2) [OF s Some] by simp
  qed
  moreover have "inmem_view s (n, m) = (case ?svcs n of None \<Rightarrow> None | Some svc \<Rightarrow> Instances svc m)" for n m
    using dom [of n] by (auto simp: inmem_view_def inmem_ops_def GetAllServices_def makeServiceInfo_def split: option.splits)
  moreover have "snd (ioGetAllServices (inmem_ops sess) s) = None"
    using ok by (simp add: inmem_ops_def GetAllServices_def inmem_ok_def)
  ultimately show ?case
    using fin by (intro exI [of _ ?svcs]) (simp add: prod_eq_iff)
next
  case view
  show ?case by simp
next
  case (add s svc name i)
  then have ok: "inmem_ok s" and known: "inmem_known s svc" by simp_all
  then obtain m where m: "imInstances s svc = Some m"
    unfolding inmem_ok_def inmem_known_def store_ok_def by (metis domIff not_Some_eq)
  have s: "store_ok s" using ok by (simp add: inmem_ok_def)
  show ?case
    using m ok store_ok_upd(2) [OF s m] store_ok_finite(2) [OF s m]
    by (auto simp: inmem_ops_def AddInstance_def Let_def inmem_ok_def store_ok_fire inmem_known_def inmem_view_def fun_eq_iff)
next
  case (remove s svc name)
  then have ok: "inmem_ok s" and s: "store_ok s" by (simp_all add: inmem_ok_def)
  show ?case
  proof (cases "imInstances s svc")
    case None
    then show ?thesis using ok by (auto simp: inmem_ops_def RemoveInstance_def inmem_view_def fun_eq_iff)
  next
    case (Some m)
    then show ?thesis using ok store_ok_upd(2) [OF s Some] store_ok_finite(2) [OF s Some]
      by (cases "m name") (auto simp: inmem_ops_def RemoveInstance_def Let_def inmem_ok_def store_ok_fire
          inmem_known_def inmem_view_def fun_eq_iff)
  qed
qed

end
