(* ===== verification/AgentProps.thy ===== *)
theory AgentProps
  imports SetInstances
begin

text \<open>
  The agent end to end: from container and service updates, over the matcher's instance updates,
  to the instances of this host in the store.
\<close>

text \<open>
  Applying an instance update to the store brings in and withdraws exactly the instances it
  names, after a reset has removed all other instances of this host; it does not panic when the
  services are in the store, and posts no error when it withdraws no missing instance.
\<close>

theorem update_applied:
  assumes "inmem_ok s" and "ordering_ok ord" and "ordering_ok kord" and "finite (dom (iuInstances u))"
    and "\<forall>k i. iuInstances u k = Some (Some i) \<longrightarrow> imServices s (fst k) \<noteq> None"
  shows "\<exists>errs' s'. processUpdate (inmem_ops sess) ord kord hostIP u (errs, s) = Some (errs', s') \<and>
    inmem_ok s' \<and>
    (\<forall>k. inmem_view s' k = (case iuInstances u k of
        Some x \<Rightarrow> x
      | None \<Rightarrow> if iuReset u \<and> published hostIP (inmem_view s) k \<noteq> None then None else inmem_view s k)) \<and>
    ((\<forall>k. iuInstances u k = Some None \<longrightarrow> inmem_view s k \<noteq> None \<and> \<not> iuReset u) \<longrightarrow> errs' = errs)"
proof -
  have "inmem_known s (fst k) \<and> True" if "iuInstances u k = Some (Some i)" for k i
    using assms(5) that unfolding inmem_known_def by blast
  then obtain s' errs' where r: "processUpdate (inmem_ops sess) ord kord hostIP u (errs, s) = Some (errs', s')"
    "inmem_ok s'" "inmem_view s' = inmem.updated hostIP u s"
    "(\<forall>k. iuInstances u k = Some None \<longrightarrow> inmem_view s k \<noteq> None \<and> \<not> (iuReset u \<and> inmem.on_host hostIP s k)) \<longrightarrow> errs' = errs"
    by (rule inmem.processUpdate_spec [OF assms(1-4), of sess hostIP errs]) simp_all
  have e: "errs' = errs" if "\<forall>k. iuInstances u k = Some None \<longrightarrow> inmem_view s k \<noteq> None \<and> \<not> iuReset u"
    using r(4) that by blast
  show ?thesis
    by (intro exI [of _ errs'] exI [of _ s'] conjI)
      (use r(1-3) e in \<open>auto simp: inmem.updated_def inmem.published_on split: option.split\<close>)
qed

lemma web_store_ok: "inmem_ok web_store"
  using store_run_keeps [OF web_store_run web_run_ok NewInMem_ok] by (simp add: inmem_ok_def web_store_def)

theorem update_applied_witness:
  "\<exists>errs' s'. processUpdate (inmem_ops ''s1'') sorted_ordering sorted_ordering demo_ip demo_out ([], web_store) =
     Some (errs', s') \<and> errs' = [] \<and> inmem_view s' (''web'', ''c1'') = Some demo_instance"
proof -
  have "finite (dom (iuInstances demo_out))"
    "\<forall>k i. iuInstances demo_out k = Some (Some i) \<longrightarrow> imServices web_store (fst k) \<noteq> None"
    "\<forall>k. iuInstances demo_out k = Some None \<longrightarrow> inmem_view web_store k \<noteq> None \<and> \<not> iuReset demo_out"
    by (auto simp: web_store_def split: if_splits)
  note u = this
  obtain errs' s' where r: "processUpdate (inmem_ops ''s1'') sorted_ordering sorted_ordering demo_ip demo_out ([], web_store) =
      Some (errs', s')" "inmem_view s' (''web'', ''c1'') = Some demo_instance" "errs' = []"
    using update_applied [OF web_store_ok sorted_ordering_ok sorted_ordering_ok u(1,2), of "''s1''" demo_ip "[]"] u(3)
    by auto
  then show ?thesis by blast
qed

context instance_store
begin

lemma agent_publishes:
  assumes "run_ok evs" and "sync_run evs (sync_start hostIP network) = Some (st, outs)"
    and "siServices st \<noteq> None" and "siContainers st \<noteq> None"
    and "map (\<lambda>x. snd (snd x)) us = outs" and "\<forall>(ord, kord, u) \<in> set us. ordering_ok ord \<and> ordering_ok kord"
    and "ok s"
    and "\<forall>u \<in> set outs. \<forall>k i. iuInstances u k = Some (Some i) \<longrightarrow> known s (fst k) \<and> inst_ok i"
    and "\<forall>u \<in> set outs. \<forall>k \<in> dom (iuInstances u). key_ok k \<and> view s k = published hostIP (view s) k"
  shows "\<exists>errs s'. set_instances ops hostIP us ([], s) = Some (errs, s') \<and>
    published hostIP (view s') = inst_view st \<and>
    (\<forall>k. view s k \<noteq> published hostIP (view s) k \<longrightarrow> view s' k = view s k)"
proof -
  have inu: "u \<in> set outs" if "(ord, kord, u) \<in> set us" for ord kord u
    using that assms(5) by force
  have ev: "\<And>ord ev. (ord, ev) \<in> set evs \<Longrightarrow> ordering_ok ord \<and> event_ok ev"
    using assms(1) by (auto simp: run_ok_def)
  have host: "siHostIP (sync_start hostIP network) = hostIP" by (simp add: sync_start_def requestReset_def)
  have "\<exists>errs' s'. set_instances ops hostIP us ([], s) = Some (errs', s') \<and> ok s' \<and>
    published hostIP (view s') = foldl apply_update (published hostIP (view s)) (map (\<lambda>x. snd (snd x)) us) \<and>
    (\<forall>k. view s k \<noteq> None \<longrightarrow> \<not> on_host hostIP s k \<longrightarrow> view s' k = view s k)"
  proof (rule set_instances_spec [OF assms(7)])
    fix ord kord u assume u: "(ord, kord, u) \<in> set us"
    then show "ordering_ok ord \<and> ordering_ok kord \<and> finite (dom (iuInstances u))"
      using assms(6) sync_run_small [OF assms(2) inu [OF u]] by auto
    fix k
    show "key_ok k \<and> (view s k = None \<or> on_host hostIP s k)" if "iuInstances u k \<noteq> None"
      using assms(9) inu [OF u] that own_iff [of s k hostIP] by auto
    fix i assume i: "iuInstances u k = Some (Some i)"
    have "hostAddr (instHost i) = hostIP"
      using sync_run_hosts [OF assms(2) sync_start_inv(1) ev inu [OF u] i] host by simp
    then show "known s (fst k) \<and> inst_ok i \<and> ip_equal hostIP (hostAddr (instHost i))"
      using bspec [OF assms(8) inu [OF u], rule_format, OF i] by simp
  qed
  then obtain errs' s' where r: "set_instances ops hostIP us ([], s) = Some (errs', s')"
    "published hostIP (view s') = foldl apply_update (published hostIP (view s)) outs"
    "\<And>k. view s k \<noteq> None \<Longrightarrow> \<not> on_host hostIP s k \<Longrightarrow> view s' k = view s k"
    unfolding assms(5) by blast
  have "foldl apply_update (published hostIP (view s)) outs = inst_view st"
    using run_inv [OF assms(2,1)] assms(3,4) by (simp add: synced_def)
  moreover have "view s' k = view s k" if "view s k \<noteq> published hostIP (view s) k" for k
    using that own_iff [of s k hostIP] r(3) [of k] by auto
  ultimately show ?thesis using r(1,2) by (intro exI [of _ errs'] exI [of _ s']) simp
qed

end

text \<open>
  C3: Whatever the agent has seen, once it knows services and containers, the instances of its
  host in the store are exactly the instances the matcher holds, and the instances of other hosts
  are as they were. (The services are in the store when their instances are added, and no other
  host has an instance under the same service and container ID.)
\<close>

theorem agent_publishes_matches:
  assumes "run_ok evs" and "sync_run evs (sync_start hostIP network) = Some (st, outs)"
    and "siServices st \<noteq> None" and "siContainers st \<noteq> None"
    and "map (\<lambda>x. snd (snd x)) us = outs" and "\<forall>(ord, kord, u) \<in> set us. ordering_ok ord \<and> ordering_ok kord"
    and "inmem_ok s"
    and "\<forall>u \<in> set outs. \<forall>k i. iuInstances u k = Some (Some i) \<longrightarrow> imServices s (fst k) \<noteq> None"
    and "\<forall>u \<in> set outs. \<forall>k \<in> dom (iuInstances u). inmem_view s k = published hostIP (inmem_view s) k"
  shows "\<exists>errs s'. set_instances (inmem_ops sess) hostIP us ([], s) = Some (errs, s') \<and>
    published hostIP (inmem_view s') = inst_view st \<and>
    (\<forall>k. inmem_view s k \<noteq> published hostIP (inmem_view s) k \<longrightarrow> inmem_view s' k = inmem_view s k)"
proof (rule inmem.agent_publishes [OF assms(1-7)])
  show "\<forall>u \<in> set outs. \<forall>k i. iuInstances u k = Some (Some i) \<longrightarrow> inmem_known s (fst k) \<and> True"
    using assms(8) by (simp add: inmem_known_def)
  show "\<forall>u \<in> set outs. \<forall>k \<in> dom (iuInstances u). True \<and> inmem_view s k = published hostIP (inmem_view s) k"
    using assms(9) by simp
qed

theorem agent_publishes_matches_witness:
  "\<exists>errs s'. set_instances (inmem_ops ''s1'') demo_ip [(sorted_ordering, sorted_ordering, demo_out)] ([], web_store) =
     Some (errs, s') \<and> published demo_ip (inmem_view s') (''web'', ''c1'') = Some demo_instance \<and>
     inmem_view s' (''web'', ''i'') = Some web_inst"
proof -
  let ?us = "[(sorted_ordering :: string ordering, sorted_ordering :: instance_key ordering, demo_out)]"
  have v: "inmem_view web_store (''web'', ''c1'') = None" "inmem_view web_store (''web'', ''i'') = Some web_inst"
    by (simp_all add: inmem_view_def web_store_def)
  have p: "published demo_ip (inmem_view web_store) (''web'', ''c1'') = None" "published demo_ip (inmem_view web_store) (''web'', ''i'') = None"
    by (simp_all add: published_def v web_inst_def ip_equal_def demo_ip_def)
  have st: "siServices demo_final \<noteq> None" "siContainers demo_final \<noteq> None"
    "inst_view demo_final (''web'', ''c1'') = Some demo_instance"
    by (simp_all add: demo_state_def inst_view_def service_instances_def services_map_def)
  have h: "map (\<lambda>x. snd (snd x)) ?us = [demo_out]" "\<forall>(ord, kord, u) \<in> set ?us. ordering_ok ord \<and> ordering_ok kord"
    "\<forall>u \<in> set [demo_out]. \<forall>k i. iuInstances u k = Some (Some i) \<longrightarrow> imServices web_store (fst k) \<noteq> None"
    "\<forall>u \<in> set [demo_out]. \<forall>k \<in> dom (iuInstances u). inmem_view web_store k = published demo_ip (inmem_view web_store) k"
    using v(1) p(1) by simp_all (simp_all add: web_store_def)
  from agent_publishes_matches [OF demo_run_ok demo_run st(1,2) h(1,2) web_store_ok h(3,4), of "''s1''"]
  obtain errs s' where "set_instances (inmem_ops ''s1'') demo_ip ?us ([], web_store) = Some (errs, s')"
    "published demo_ip (inmem_view s') = inst_view demo_final"
    "\<And>k. inmem_view web_store k \<noteq> published demo_ip (inmem_view web_store) k \<Longrightarrow> inmem_view s' k = inmem_view web_store k"
    by blast
  then show ?thesis using st(3) v(2) p(2) by (metis option.distinct(1))
qed

end
