(* ===== verification/GoHeap.thy ===== *)
theory GoHeap
  imports Prelude "HOL-Library.Multiset"
begin

text \<open>
  The Go library's \<open>container/heap\<close>, which the balancer's instance pool uses for its retry
  queue. As in Go the operations work on any structure through its \<open>Less\<close> and \<open>Swap\<close> methods,
  arguments here. The locale \<open>heap_client\<close> states what these methods promise about the
  structure's contents and proves the heap operations correct against that.
\<close>

section \<open>Operations\<close>

function heap_up :: "('h \<Rightarrow> nat \<Rightarrow> nat \<Rightarrow> bool) \<Rightarrow> (nat \<Rightarrow> nat \<Rightarrow> 'h \<Rightarrow> 'h) \<Rightarrow> nat \<Rightarrow> 'h \<Rightarrow> 'h" where
  "heap_up lt swp j h =
     (let i = (j - 1) div 2 in
      if i = j \<or> \<not> lt h j i then h else heap_up lt swp i (swp i j h))"
  by auto
termination by (relation "measure (\<lambda>(_, _, j, _). j)") auto

function heap_down ::
  "('h \<Rightarrow> nat \<Rightarrow> nat \<Rightarrow> bool) \<Rightarrow> (nat \<Rightarrow> nat \<Rightarrow> 'h \<Rightarrow> 'h) \<Rightarrow> nat \<Rightarrow> nat \<Rightarrow> 'h \<Rightarrow> 'h" where
  "heap_down lt swp i n h =
     (let j1 = 2 * i + 1 in
      if j1 \<ge> n then h
      else let j = (if j1 + 1 < n \<and> \<not> lt h j1 (j1 + 1) then j1 + 1 else j1) in
           if \<not> lt h j i then h else heap_down lt swp j n (swp i j h))"
  by auto
termination by (relation "measure (\<lambda>(_, _, i, n, _). n - i)") auto

declare heap_up.simps [simp del] heap_down.simps [simp del]

text \<open>\<open>Init\<close>: the loop from \<open>n/2 - 1\<close> down to 0.\<close>

primrec heap_Init_loop ::
  "('h \<Rightarrow> nat \<Rightarrow> nat \<Rightarrow> bool) \<Rightarrow> (nat \<Rightarrow> nat \<Rightarrow> 'h \<Rightarrow> 'h) \<Rightarrow> nat \<Rightarrow> nat \<Rightarrow> 'h \<Rightarrow> 'h" where
  "heap_Init_loop lt swp n 0 h = h"
| "heap_Init_loop lt swp n (Suc i) h = heap_Init_loop lt swp n i (heap_down lt swp i n h)"

definition heap_Init ::
  "('h \<Rightarrow> nat) \<Rightarrow> ('h \<Rightarrow> nat \<Rightarrow> nat \<Rightarrow> bool) \<Rightarrow> (nat \<Rightarrow> nat \<Rightarrow> 'h \<Rightarrow> 'h) \<Rightarrow> 'h \<Rightarrow> 'h" where
  "heap_Init len lt swp h = heap_Init_loop lt swp (len h) (len h div 2) h"

text \<open>\<open>Pop\<close> and \<open>Remove\<close> leave the removed element in the last place, for the caller's \<open>Pop\<close>.\<close>

definition heap_Pop_prep ::
  "('h \<Rightarrow> nat) \<Rightarrow> ('h \<Rightarrow> nat \<Rightarrow> nat \<Rightarrow> bool) \<Rightarrow> (nat \<Rightarrow> nat \<Rightarrow> 'h \<Rightarrow> 'h) \<Rightarrow> 'h \<Rightarrow> 'h" where
  "heap_Pop_prep len lt swp h = (let n = len h - 1 in heap_down lt swp 0 n (swp 0 n h))"

definition heap_Remove_prep ::
  "('h \<Rightarrow> nat) \<Rightarrow> ('h \<Rightarrow> nat \<Rightarrow> nat \<Rightarrow> bool) \<Rightarrow> (nat \<Rightarrow> nat \<Rightarrow> 'h \<Rightarrow> 'h) \<Rightarrow> nat \<Rightarrow> 'h \<Rightarrow> 'h" where
  "heap_Remove_prep len lt swp i h =
     (let n = len h - 1 in
      if n \<noteq> i then heap_up lt swp i (heap_down lt swp i n (swp i n h)) else h)"

section \<open>What every swap preserves\<close>

lemma heap_up_keeps:
  assumes "P h" and "\<And>h i j. P h \<Longrightarrow> i < n \<Longrightarrow> j < n \<Longrightarrow> P (swp i j h)" and "j < n"
  shows "P (heap_up lt swp j h)"
  using assms(1,3)
proof (induction j arbitrary: h rule: less_induct)
  case (less j)
  have "(j - 1) div 2 < j" if "(j - 1) div 2 \<noteq> j" using that by linarith
  then show ?case
    using less assms(2) by (subst heap_up.simps) (auto simp: Let_def)
qed

lemma heap_down_keeps:
  assumes "P h" and "\<And>h i j. P h \<Longrightarrow> i < n \<Longrightarrow> j < n \<Longrightarrow> P (swp i j h)"
  shows "P (heap_down lt swp i n h)"
  using assms(1)
proof (induction "n - i" arbitrary: i h rule: less_induct)
  case less
  then show ?case
    using assms(2) by (subst heap_down.simps) (auto simp: Let_def intro!: less.hyps)
qed

lemma heap_Init_keeps:
  assumes "P h" and "\<And>h i j. P h \<Longrightarrow> i < len h0 \<Longrightarrow> j < len h0 \<Longrightarrow> P (swp i j h)" and "len h = len h0"
  shows "P (heap_Init len lt swp h)"
proof -
  have "P (heap_Init_loop lt swp (len h0) k h)" if "P h" for k h
    using that by (induction k arbitrary: h) (auto intro!: heap_down_keeps [where P = P] assms(2))
  then show ?thesis using assms(1,3) by (simp add: heap_Init_def)
qed

text \<open>Positions before the one that sinks keep their contents.\<close>

lemma heap_down_prefix:
  assumes "P h" and "\<And>h i j. P h \<Longrightarrow> i < n \<Longrightarrow> j < n \<Longrightarrow> i \<noteq> k \<Longrightarrow> j \<noteq> k \<Longrightarrow> P (swp i j h)" and "k < i"
  shows "P (heap_down lt swp i n h)"
  using assms(1,3)
proof (induction "n - i" arbitrary: i h rule: less_induct)
  case less
  then show ?case
    using assms(2) by (subst heap_down.simps) (auto simp: Let_def intro!: less.hyps)
qed

section \<open>The heap order\<close>

abbreviation parent :: "nat \<Rightarrow> nat" where
  "parent k \<equiv> (k - 1) div 2"

definition is_heap :: "nat \<Rightarrow> (nat \<Rightarrow> 'k::linorder) \<Rightarrow> bool" where
  "is_heap n K \<longleftrightarrow> (\<forall>k < n. 0 < k \<longrightarrow> K (parent k) \<le> K k)"

text \<open>The order on the edges whose upper end is at \<open>s\<close> or beyond, except those into \<open>E\<close>.\<close>

definition heap_edges :: "nat \<Rightarrow> nat \<Rightarrow> nat set \<Rightarrow> (nat \<Rightarrow> 'k::linorder) \<Rightarrow> bool" where
  "heap_edges n s E K \<longleftrightarrow> (\<forall>k < n. 0 < k \<longrightarrow> s \<le> parent k \<longrightarrow> k \<notin> E \<longrightarrow> K (parent k) \<le> K k)"

definition above_children :: "nat \<Rightarrow> nat \<Rightarrow> (nat \<Rightarrow> 'k::linorder) \<Rightarrow> nat \<Rightarrow> bool" where
  "above_children n p K i \<longleftrightarrow> (\<forall>k < n. 0 < k \<longrightarrow> parent k = i \<longrightarrow> K p \<le> K k)"

lemma parent_iff: "0 < k \<Longrightarrow> parent k = i \<longleftrightarrow> k = 2 * i + 1 \<or> k = 2 * i + 2"
  by linarith

lemma parent_less: "0 < k \<Longrightarrow> parent k < k" by linarith

lemma is_heap_edges: "is_heap n K \<longleftrightarrow> heap_edges n 0 {} K"
  by (simp add: is_heap_def heap_edges_def)

lemma is_heap_least: "is_heap n K \<Longrightarrow> k < n \<Longrightarrow> K 0 \<le> K k"
proof (induction k rule: less_induct)
  case (less k)
  show ?case
  proof (cases "k = 0")
    case False
    then have "parent k < k" using parent_less by blast
    then show ?thesis using less False by (metis is_heap_def gr0I order_trans less_trans)
  qed simp
qed

locale heap_client =
  fixes len :: "'h \<Rightarrow> nat"
    and lt :: "'h \<Rightarrow> nat \<Rightarrow> nat \<Rightarrow> bool"
    and swp :: "nat \<Rightarrow> nat \<Rightarrow> 'h \<Rightarrow> 'h"
    and elems :: "'h \<Rightarrow> 'a list"
    and key :: "'h \<Rightarrow> 'a \<Rightarrow> 'k::linorder"
  assumes len_elems: "len h = length (elems h)"
    and lt_key: "i < len h \<Longrightarrow> j < len h \<Longrightarrow> lt h i j \<longleftrightarrow> key h (elems h ! i) < key h (elems h ! j)"
    and swp_key: "key (swp i j h) = key h"
    and swp_elems: "i < len h \<Longrightarrow> j < len h \<Longrightarrow>
      elems (swp i j h) = (elems h)[i := elems h ! j, j := elems h ! i]"
begin

definition K :: "'h \<Rightarrow> nat \<Rightarrow> 'k" where
  "K h i = key h (elems h ! i)"

lemma swp_len: "i < len h \<Longrightarrow> j < len h \<Longrightarrow> len (swp i j h) = len h"
  by (simp add: len_elems swp_elems)

lemma swp_K:
  assumes "i < len h" and "j < len h" and "k < len h"
  shows "K (swp i j h) k = (if k = i then K h j else if k = j then K h i else K h k)"
  using assms by (simp add: K_def swp_key swp_elems len_elems nth_list_update)

lemma swp_mset: "i < len h \<Longrightarrow> j < len h \<Longrightarrow> mset (elems (swp i j h)) = mset (elems h)"
  by (simp add: swp_elems len_elems mset_swap)

lemma keeps_contents:
  assumes "P = (\<lambda>h'. len h' = len h \<and> mset (elems h') = mset (elems h) \<and> key h' = key h)"
    and "n \<le> len h" and "P h'" and "i < n" and "j < n"
  shows "P (swp i j h')"
  using assms by (simp add: swp_len swp_mset swp_key)

lemma down_contents:
  assumes "n \<le> len h"
  shows "len (heap_down lt swp i n h) = len h \<and> mset (elems (heap_down lt swp i n h)) = mset (elems h)
    \<and> key (heap_down lt swp i n h) = key h"
  by (rule heap_down_keeps [where P = "\<lambda>h'. len h' = len h \<and> mset (elems h') = mset (elems h) \<and> key h' = key h"])
    (use assms in \<open>auto simp: swp_len swp_mset swp_key\<close>)

lemma up_contents:
  assumes "j < len h"
  shows "len (heap_up lt swp j h) = len h \<and> mset (elems (heap_up lt swp j h)) = mset (elems h)
    \<and> key (heap_up lt swp j h) = key h"
  by (rule heap_up_keeps [where P = "\<lambda>h'. len h' = len h \<and> mset (elems h') = mset (elems h) \<and> key h' = key h"
        and n = "len h"])
    (use assms in \<open>auto simp: swp_len swp_mset swp_key\<close>)

lemma Init_contents:
  "len (heap_Init len lt swp h) = len h \<and> mset (elems (heap_Init len lt swp h)) = mset (elems h)
    \<and> key (heap_Init len lt swp h) = key h"
  by (rule heap_Init_keeps [where P = "\<lambda>h'. len h' = len h \<and> mset (elems h') = mset (elems h) \<and> key h' = key h"
        and ?h0.0 = h])
    (auto simp: swp_len swp_mset swp_key)

subsection \<open>Sinking an element\<close>

lemma down_heap:
  assumes "n \<le> len h" and "s \<le> i" and "E \<subseteq> {..i}"
    and "\<And>k. k < n \<Longrightarrow> 0 < k \<Longrightarrow> s \<le> parent k \<Longrightarrow> parent k \<noteq> i \<Longrightarrow> k \<notin> E \<Longrightarrow> K h (parent k) \<le> K h k"
    and "0 < i \<Longrightarrow> s \<le> parent i \<Longrightarrow> above_children n (parent i) (K h) i"
  shows "heap_edges n s E (K (heap_down lt swp i n h))"
  using assms
proof (induction "n - i" arbitrary: i h rule: less_induct)
  case less
  note len = less.prems(1) and s = less.prems(2) and E = less.prems(3)
    and edges = less.prems(4) and gp = less.prems(5)
  let ?j1 = "2 * i + 1"
  define j where "j = (if ?j1 + 1 < n \<and> \<not> lt h ?j1 (?j1 + 1) then ?j1 + 1 else ?j1)"
  show ?case
  proof (cases "?j1 < n")
    case False
    have "parent k \<noteq> i" if "k < n" "0 < k" for k using that False parent_iff [of k i] by auto
    then show ?thesis using edges False by (subst heap_down.simps) (auto simp: heap_edges_def)
  next
    case True
    have j: "j < n" "parent j = i" "0 < j" "i < j" using True by (auto simp: j_def)
    have least: "K h j \<le> K h k" if "k < n" "0 < k" "parent k = i" for k
    proof -
      have "k = ?j1 \<or> k = ?j1 + 1" using that parent_iff [of k i] by auto
      then show ?thesis using that(1) True len lt_key [of ?j1 h "?j1 + 1"]
        by (auto simp: j_def K_def not_less)
    qed
    have ltj: "lt h j i \<longleftrightarrow> K h j < K h i" using j len lt_key [of j h i] by (simp add: K_def)
    show ?thesis
    proof (cases "lt h j i")
      case False
      then have "K h i \<le> K h k" if "k < n" "0 < k" "parent k = i" for k
        using least [OF that] ltj by force
      then show ?thesis using edges False True
        by (subst heap_down.simps) (auto simp: heap_edges_def j_def Let_def)
    next
      case lt: True
      let ?h = "swp i j h"
      have Kh: "K ?h k = (if k = i then K h j else if k = j then K h i else K h k)" if "k < n" for k
        using swp_K [of i h j k] j len that by simp
      have "heap_edges n s E (K (heap_down lt swp j n ?h))"
      proof (rule less.hyps)
        show "n - j < n - i" using j by linarith
        show "n \<le> len ?h" using len j by (simp add: swp_len)
        show "s \<le> j" using s j by linarith
        show "E \<subseteq> {..j}" using E j by auto
        show "K ?h (parent k) \<le> K ?h k"
          if k: "k < n" "0 < k" "s \<le> parent k" "parent k \<noteq> j" "k \<notin> E" for k
        proof -
          have p: "parent k < n" "parent k < k" using k parent_less [of k] by linarith+
          consider "parent k = i" | "k = i" | "parent k \<noteq> i" "k \<noteq> i" by blast
          then show ?thesis
          proof cases
            case 1
            then show ?thesis using least [OF k(1,2)] lt ltj p k by (auto simp: Kh)
          next
            case 2
            then have "K h (parent i) \<le> K h j"
              using gp [unfolded above_children_def] k j by blast
            then show ?thesis using 2 p k j by (simp add: Kh)
          next
            case 3
            then have "k \<noteq> j" using j by blast
            then show ?thesis using 3 edges k p by (simp add: Kh)
          qed
        qed
        show "above_children n (parent j) (K ?h) j"
          unfolding above_children_def
        proof (intro allI impI)
          fix k assume k: "k < n" "0 < k" "parent k = j"
          have "j < k" using k parent_less by blast
          then have "k \<notin> E" "k \<noteq> i" using E j by auto
          then show "K ?h (parent j) \<le> K ?h k"
            using edges [of k] k j s \<open>j < k\<close> by (simp add: Kh)
        qed
      qed
      then show ?thesis using lt True j
        by (subst heap_down.simps) (auto simp: j_def Let_def)
    qed
  qed
qed

subsection \<open>Raising an element\<close>

lemma up_heap:
  assumes "n \<le> len h" and "j < n"
    and "\<And>k. k < n \<Longrightarrow> 0 < k \<Longrightarrow> k \<noteq> j \<Longrightarrow> K h (parent k) \<le> K h k"
    and "0 < j \<Longrightarrow> above_children n (parent j) (K h) j"
  shows "is_heap n (K (heap_up lt swp j h))"
  using assms
proof (induction j arbitrary: h rule: less_induct)
  case (less j)
  note len = less.prems(1,2) and edges = less.prems(3) and gp = less.prems(4)
  define i where "i = parent j"
  have ltj: "lt h j i \<longleftrightarrow> K h j < K h i" using len lt_key [of j h i] by (simp add: K_def i_def)
  show ?case
  proof (cases "i = j \<or> \<not> lt h j i")
    case True
    then have "K h (parent k) \<le> K h k" if "k < n" "0 < k" for k
      using that edges [of k] ltj parent_less [of k] by (cases "k = j") (auto simp: i_def)
    then show ?thesis using True by (subst heap_up.simps) (auto simp: is_heap_def i_def)
  next
    case False
    then have ij: "i < j" "i < n" using len unfolding i_def by linarith+
    then have j0: "0 < j" by linarith
    let ?h = "swp i j h"
    have Kh: "K ?h k = (if k = i then K h j else if k = j then K h i else K h k)" if "k < n" for k
      using swp_K [of i h j k] ij len that by simp
    have "is_heap n (K (heap_up lt swp i ?h))"
    proof (rule less.IH [OF ij(1)])
      show "n \<le> len ?h" using len ij by (simp add: swp_len)
      show "i < n" by (rule ij)
      show "K ?h (parent k) \<le> K ?h k" if k: "k < n" "0 < k" "k \<noteq> i" for k
      proof -
        have p: "parent k < n" "parent k < k" using k parent_less [of k] by linarith+
        consider "k = j" | "parent k = j" "k \<noteq> j" | "parent k = i" "k \<noteq> j" | "parent k \<noteq> i" "parent k \<noteq> j" "k \<noteq> j"
          by blast
        then show ?thesis
        proof cases
          case 1
          then have "parent k = i" by (simp only: i_def)
          then show ?thesis using 1 False ltj ij len k(1) Kh [of i] Kh [of j] by auto
        next
          case 2
          then have "K h i \<le> K h k" using gp [OF j0] k by (simp add: above_children_def i_def)
          then show ?thesis using 2 k ij len by (simp add: Kh)
        next
          case 3
          then have "K h i \<le> K h k" using edges [of k] k by simp
          then show ?thesis using 3 False ltj k ij by (auto simp: Kh)
        next
          case 4
          then show ?thesis using edges [of k] k p by (simp add: Kh)
        qed
      qed
      show "above_children n (parent i) (K ?h) i" if i0: "0 < i"
        unfolding above_children_def
      proof (intro allI impI)
        fix k assume k: "k < n" "0 < k" "parent k = i"
        have pi: "parent i < i" using i0 parent_less by blast
        have "K h (parent i) \<le> K h i" using edges [of i] ij i0 by simp
        moreover have "k \<noteq> j \<Longrightarrow> K h i \<le> K h k" using edges [of k] k by simp
        moreover have "k \<noteq> i" using k parent_less [of k] by auto
        moreover have "parent i < n" "parent i \<noteq> j" using pi ij by linarith+
        ultimately show "K ?h (parent i) \<le> K ?h k" using pi k by (auto simp: Kh)
      qed
    qed
    then show ?thesis using False by (subst heap_up.simps) (simp add: Let_def i_def)
  qed
qed

subsection \<open>The operations on a heap\<close>

lemma Init_heap: "is_heap (len h) (K (heap_Init len lt swp h))"
proof -
  have "heap_edges n 0 {} (K (heap_Init_loop lt swp n i h))"
    if "n = len h" "heap_edges n i {} (K h)" for n i h
    using that
  proof (induction i arbitrary: h)
    case (Suc i)
    have "heap_edges n i {} (K (heap_down lt swp i n h))"
      by (rule down_heap) (use Suc.prems in \<open>auto simp: heap_edges_def\<close>)
    moreover have "n = len (heap_down lt swp i n h)" using Suc.prems down_contents [of n h i] by simp
    ultimately show ?case by (simp only: heap_Init_loop.simps) (rule Suc.IH)
  qed simp
  from this [of "len h" h "len h div 2"] show ?thesis
    unfolding heap_Init_def is_heap_edges by (fastforce simp: heap_edges_def)
qed

lemma Push_heap:
  assumes "is_heap (len h - 1) (K h)" and "0 < len h"
  shows "is_heap (len h) (K (heap_up lt swp (len h - 1) h))"
proof (rule up_heap)
  show "K h (parent k) \<le> K h k" if "k < len h" "0 < k" "k \<noteq> len h - 1" for k
    using assms that by (simp add: is_heap_def)
  show "above_children (len h) (parent (len h - 1)) (K h) (len h - 1)" if "0 < len h - 1"
    unfolding above_children_def
  proof (intro allI impI)
    fix k assume "k < len h" "0 < k" "parent k = len h - 1"
    then show "K h (parent (len h - 1)) \<le> K h k" using parent_less [of k] by linarith
  qed
qed (use assms in auto)

lemma down_root:
  assumes "n \<le> len h"
  shows "heap_down lt swp i n h = h \<or>
    (\<exists>j < n. 0 < j \<and> parent j = i \<and> K (heap_down lt swp i n h) i = K h j)"
proof -
  let ?j1 = "2 * i + 1"
  define j where "j = (if ?j1 + 1 < n \<and> \<not> lt h ?j1 (?j1 + 1) then ?j1 + 1 else ?j1)"
  show ?thesis
  proof (cases "?j1 < n \<and> lt h j i")
    case False
    then show ?thesis by (subst heap_down.simps) (auto simp: Let_def j_def)
  next
    case True
    then have j: "j < n" "parent j = i" "0 < j" "i < j" by (auto simp: j_def)
    have "len (heap_down lt swp j n (swp i j h)) = len h \<and>
        K (heap_down lt swp j n (swp i j h)) i = K (swp i j h) i"
      by (rule heap_down_prefix [where k = i and
            P = "\<lambda>h'. len h' = len h \<and> K h' i = K (swp i j h) i"])
        (use j assms in \<open>auto simp: swp_len swp_K\<close>)
    moreover have "K (swp i j h) i = K h j" using j assms by (simp add: swp_K)
    moreover have "heap_down lt swp i n h = heap_down lt swp j n (swp i j h)"
      using True by (subst heap_down.simps) (auto simp: Let_def j_def)
    ultimately show ?thesis using j by auto
  qed
qed

lemma down_prefix:
  assumes "n \<le> len h" and "k < i" and "i < len h"
  shows "K (heap_down lt swp i n h) k = K h k"
proof -
  have "len (heap_down lt swp i n h) = len h \<and> K (heap_down lt swp i n h) k = K h k"
    by (rule heap_down_prefix [where k = k and P = "\<lambda>h'. len h' = len h \<and> K h' k = K h k"])
      (use assms in \<open>auto simp: swp_len swp_K\<close>)
  then show ?thesis by simp
qed

lemma down_last:
  assumes "n < len h"
  shows "elems (heap_down lt swp i n h) ! n = elems h ! n"
proof -
  have "len (heap_down lt swp i n h) = len h \<and> elems (heap_down lt swp i n h) ! n = elems h ! n"
    by (rule heap_down_keeps [where P = "\<lambda>h'. len h' = len h \<and> elems h' ! n = elems h ! n"])
      (use assms in \<open>auto simp: swp_len swp_elems\<close>)
  then show ?thesis by simp
qed

lemma up_last:
  assumes "n < len h" and "j < n"
  shows "elems (heap_up lt swp j h) ! n = elems h ! n"
proof -
  have "len (heap_up lt swp j h) = len h \<and> elems (heap_up lt swp j h) ! n = elems h ! n"
    by (rule heap_up_keeps [where P = "\<lambda>h'. len h' = len h \<and> elems h' ! n = elems h ! n" and n = n])
      (use assms in \<open>auto simp: swp_len swp_elems\<close>)
  then show ?thesis by simp
qed

lemma Remove_heap:
  assumes "is_heap (len h) (K h)" and "i < len h"
  defines "h' \<equiv> heap_Remove_prep len lt swp i h"
  shows "is_heap (len h - 1) (K h')" and "elems h' ! (len h - 1) = elems h ! i"
    and "len h' = len h" and "mset (elems h') = mset (elems h)" and "key h' = key h"
proof -
  let ?n = "len h - 1" and ?s = "swp i (len h - 1) h"
  let ?d = "heap_down lt swp i ?n ?s"
  have s: "len ?s = len h" "mset (elems ?s) = mset (elems h)" "key ?s = key h"
    using assms(2) by (simp_all add: swp_len swp_mset swp_key)
  have d: "len ?d = len h" "mset (elems ?d) = mset (elems h)" "key ?d = key h"
    using down_contents [of ?n ?s i] s by simp_all
  have "is_heap ?n (K h') \<and> elems h' ! ?n = elems h ! i \<and> len h' = len h \<and>
    mset (elems h') = mset (elems h) \<and> key h' = key h"
  proof (cases "?n = i")
    case True
    then show ?thesis using assms(1) by (auto simp: h'_def heap_Remove_prep_def is_heap_def)
  next
    case False
    then have i: "i < ?n" using assms(2) by linarith
    have h': "h' = heap_up lt swp i ?d" using False by (simp add: h'_def heap_Remove_prep_def Let_def)
    have Ks: "K ?s k = (if k = i then K h ?n else K h k)" if "k < ?n" for k
      using swp_K [of i h ?n k] that i by simp
    have edges: "K h (parent k) \<le> K h k" if "k < ?n" "0 < k" for k
      using assms(1) that by (simp add: is_heap_def)
    have gp: "above_children ?n (parent i) (K ?s) i" if "0 < i"
      unfolding above_children_def
    proof (intro allI impI)
      fix k assume k: "k < ?n" "0 < k" "parent k = i"
      have pk: "parent k < k" using k by (intro parent_less)
      have pi: "parent i < i" using that by (intro parent_less)
      have "K h (parent i) \<le> K h i" using edges [of i] i that by simp
      also have "\<dots> \<le> K h k" using edges [of k] k by simp
      finally have "K h (parent i) \<le> K h k" .
      moreover have "parent i < ?n" "k \<noteq> i" using pi i pk k(3) by linarith+
      ultimately show "K ?s (parent i) \<le> K ?s k" using k(1) pi Ks [of "parent i"] Ks [of k] by simp
    qed
    have de: "heap_edges ?n 0 {i} (K ?d)"
    proof (rule down_heap)
      show "K ?s (parent k) \<le> K ?s k" if "k < ?n" "0 < k" "parent k \<noteq> i" "k \<notin> {i}" for k
        using edges [of k] that parent_less [of k] Ks [of "parent k"] Ks [of k] by auto
    qed (use s gp in auto)
    have "is_heap ?n (K (heap_up lt swp i ?d))"
    proof (rule up_heap)
      show "K ?d (parent k) \<le> K ?d k" if "k < ?n" "0 < k" "k \<noteq> i" for k
        using de that by (simp add: heap_edges_def)
      show "above_children ?n (parent i) (K ?d) i" if i0: "0 < i"
      proof -
        have pi: "K ?d (parent i) = K ?s (parent i)"
          by (rule down_prefix) (use i i0 s in auto)
        have ik: "K ?d i \<le> K ?d k" if "k < ?n" "0 < k" "parent k = i" for k
          using de that parent_less [of k] by (auto simp: heap_edges_def)
        have "?n \<le> len ?s" using s by simp
        from down_root [OF this, of i] show ?thesis
        proof (elim disjE exE conjE)
          fix j assume "j < ?n" "0 < j" "parent j = i" "K ?d i = K ?s j"
          then have "K ?d (parent i) \<le> K ?d i" using gp [OF i0] pi by (simp add: above_children_def)
          then show ?thesis using ik by (fastforce simp: above_children_def)
        qed (use s gp [OF i0] in auto)
      qed
    qed (use d i in auto)
    moreover have "elems ?s ! ?n = elems h ! i" using i assms(2) by (simp add: swp_elems len_elems)
    ultimately show ?thesis
      using h' d i up_contents [of i ?d] up_last [of ?n ?d i] down_last [of ?n ?s i] s by simp
  qed
  then show "is_heap (len h - 1) (K h')" and "elems h' ! (len h - 1) = elems h ! i"
    and "len h' = len h" and "mset (elems h') = mset (elems h)" and "key h' = key h" by auto
qed

lemma Pop_heap:
  assumes "is_heap (len h) (K h)" and "0 < len h"
  defines "h' \<equiv> heap_Pop_prep len lt swp h"
  shows "is_heap (len h - 1) (K h')" and "elems h' ! (len h - 1) = elems h ! 0"
    and "len h' = len h" and "mset (elems h') = mset (elems h)" and "key h' = key h"
proof -
  let ?n = "len h - 1" and ?s = "swp 0 (len h - 1) h"
  have s: "len ?s = len h" "mset (elems ?s) = mset (elems h)" "key ?s = key h"
    using assms(2) by (simp_all add: swp_len swp_mset swp_key)
  have h': "h' = heap_down lt swp 0 ?n ?s" by (simp add: h'_def heap_Pop_prep_def Let_def)
  have "heap_edges ?n 0 {} (K h')"
    unfolding h'
  proof (rule down_heap)
    show "K ?s (parent k) \<le> K ?s k" if "k < ?n" "0 < k" "parent k \<noteq> 0" for k
      using assms(1,2) that parent_less [of k] swp_K [of 0 h ?n k] swp_K [of 0 h ?n "parent k"]
      by (simp add: is_heap_def)
  qed (use s in auto)
  moreover have "elems ?s ! ?n = elems h ! 0"
    using assms(2) by (simp add: swp_elems len_elems nth_list_update)
  ultimately show "is_heap (len h - 1) (K h')" and "elems h' ! (len h - 1) = elems h ! 0"
    and "len h' = len h" and "mset (elems h') = mset (elems h)" and "key h' = key h"
    using down_contents [of ?n ?s 0] down_last [of ?n ?s 0] s assms(2) by (simp_all add: h' is_heap_edges)
qed

end

end
