(* ===== verification/Pool.thy ===== *)
theory Pool
  imports GoHeap GoNet "HOL-Library.Word"
begin

text \<open>
  The balancer's instance pool (\<open>balancer/forwarder/pool.go\<close>): instances ready for connections,
  failed instances waiting in a heap for their retry time, and the timer armed for the first of
  them. Instances are shared by pointer between the pool, its heap and the connections that use
  them, so the state holds a memory of instances and lists of addresses.

  Times are integers, nanoseconds after Go's zero time, which is 0. Each reading of the clock and
  each random choice is an argument. \<open>None\<close> is a panic (an index out of range).
\<close>

section \<open>State\<close>

record pooled_instance =
  piName :: string
  piAddress :: ipport
  piIndex :: nat
  piFailures :: "64 word"
  piRetryTime :: int

text \<open>\<open>plTimer\<close> is the duration the timer was last set to, \<open>None\<close> before it is created.\<close>

record pool =
  plMem :: "nat \<Rightarrow> pooled_instance"
  plFresh :: nat
  plReady :: "nat list"
  plRetry :: "nat list"
  plTimer :: "int option"

definition NewInstancePool :: pool where
  "NewInstancePool =
     \<lparr>plMem = (\<lambda>_. \<lparr>piName = '''', piAddress = \<lparr>ipBytes = [], ipPortNum = 0\<rparr>, piIndex = 0,
        piFailures = 0, piRetryTime = 0\<rparr>), plFresh = 0, plReady = [], plRetry = [], plTimer = None\<rparr>"

definition set_index :: "nat \<Rightarrow> nat \<Rightarrow> pool \<Rightarrow> pool" where
  "set_index a i p = p\<lparr>plMem := (plMem p)(a := (plMem p a)\<lparr>piIndex := i\<rparr>)\<rparr>"

definition set_retryTime :: "nat \<Rightarrow> int \<Rightarrow> pool \<Rightarrow> pool" where
  "set_retryTime a t p = p\<lparr>plMem := (plMem p)(a := (plMem p a)\<lparr>piRetryTime := t\<rparr>)\<rparr>"

definition set_failures :: "nat \<Rightarrow> 64 word \<Rightarrow> pool \<Rightarrow> pool" where
  "set_failures a n p = p\<lparr>plMem := (plMem p)(a := (plMem p a)\<lparr>piFailures := n\<rparr>)\<rparr>"

section \<open>The retry queue as a heap\<close>

definition retry_Len :: "pool \<Rightarrow> nat" where
  "retry_Len q = length (plRetry q)"

definition retry_Less :: "pool \<Rightarrow> nat \<Rightarrow> nat \<Rightarrow> bool" where
  "retry_Less q i j \<longleftrightarrow>
     piRetryTime (plMem q (plRetry q ! i)) < piRetryTime (plMem q (plRetry q ! j))"

definition retry_Swap :: "nat \<Rightarrow> nat \<Rightarrow> pool \<Rightarrow> pool" where
  "retry_Swap i j q =
     (let a = plRetry q ! i; b = plRetry q ! j in
      set_index b i (set_index a j (q\<lparr>plRetry := (plRetry q)[i := b, j := a]\<rparr>)))"

definition retry_Push :: "nat \<Rightarrow> pool \<Rightarrow> pool" where
  "retry_Push x q =
     (let q' = set_index x (length (plRetry q)) q in q'\<lparr>plRetry := plRetry q' @ [x]\<rparr>)"

definition retry_Pop :: "pool \<Rightarrow> pool" where
  "retry_Pop q = q\<lparr>plRetry := butlast (plRetry q)\<rparr>"

definition queue_Push :: "nat \<Rightarrow> pool \<Rightarrow> pool" where
  "queue_Push x q = (let q' = retry_Push x q in heap_up retry_Less retry_Swap (retry_Len q' - 1) q')"

definition queue_Pop :: "pool \<Rightarrow> pool" where
  "queue_Pop q = retry_Pop (heap_Pop_prep retry_Len retry_Less retry_Swap q)"

text \<open>The swap at the start of \<open>heap.Remove\<close> indexes out of range when \<open>i\<close> is.\<close>

definition queue_Remove :: "nat \<Rightarrow> pool \<Rightarrow> pool option" where
  "queue_Remove i q =
     (if i < retry_Len q then Some (retry_Pop (heap_Remove_prep retry_Len retry_Less retry_Swap i q))
      else None)"

section \<open>Operations\<close>

text \<open>\<open>time.Time.Sub\<close> saturates at the limits of a duration.\<close>

definition time_sub :: "int \<Rightarrow> int \<Rightarrow> int" where
  "time_sub t u = max (- (2 ^ 63)) (min (2 ^ 63 - 1) (t - u))"

definition retry_interval_base :: "64 word" where
  "retry_interval_base = 1000000000"

definition one_day :: int where
  "one_day = 24 * 3600 * 1000000000"

definition resetTimer :: "int \<Rightarrow> pool \<Rightarrow> pool" where
  "resetTimer now p =
     (if plRetry p = [] then p\<lparr>plTimer := map_option (\<lambda>_. one_day) (plTimer p)\<rparr>
      else p\<lparr>plTimer := Some (time_sub (piRetryTime (plMem p (hd (plRetry p)))) now)\<rparr>)"

text \<open>A duration has 64 bits: the shift drops bits and the product wraps.\<close>

definition retry_delay :: "64 word \<Rightarrow> 64 word" where
  "retry_delay failures = push_bit (unat failures) 1 * retry_interval_base"

definition reschedule :: "int \<Rightarrow> nat \<Rightarrow> pool \<Rightarrow> pool" where
  "reschedule now a p =
     (let delay = retry_delay (piFailures (plMem p a)) in
      set_retryTime a (now + sint delay) (set_failures a (piFailures (plMem p a) + 1) p))"

text \<open>\<open>fail\<close> reads the clock twice. It moves the last ready instance into the freed place.\<close>

definition pool_fail :: "int \<Rightarrow> int \<Rightarrow> nat \<Rightarrow> pool \<Rightarrow> pool option" where
  "pool_fail now now' a p =
     (let i = piIndex (plMem p a) in
      if i < length (plReady p) then
        let p1 = p\<lparr>plReady := butlast ((plReady p)[i := last (plReady p)])\<rparr>
        in Some (resetTimer now' (queue_Push a (reschedule now a p1)))
      else None)"

definition PickInstance ::
  "(nat \<Rightarrow> nat) \<Rightarrow> int \<Rightarrow> int \<Rightarrow> pool \<Rightarrow> (nat option \<times> pool) option" where
  "PickInstance rnd now now' p =
     (if plReady p \<noteq> [] then
        let a = plReady p ! rnd (length (plReady p)) in
        if piFailures (plMem p a) \<noteq> 0 then
          (case pool_fail now now' a p of None \<Rightarrow> None | Some p' \<Rightarrow> Some (Some a, p'))
        else Some (Some a, p)
      else if plRetry p \<noteq> [] then Some (Some (plRetry p ! rnd (length (plRetry p))), p)
      else Some (None, p))"

definition make_ready :: "nat \<Rightarrow> pool \<Rightarrow> pool" where
  "make_ready a p =
     (let p1 = set_index a (length (plReady p)) (set_retryTime a 0 p)
      in p1\<lparr>plReady := plReady p1 @ [a]\<rparr>)"

definition pool_Succeeded :: "int \<Rightarrow> nat \<Rightarrow> pool \<Rightarrow> pool option" where
  "pool_Succeeded now a p =
     (let p1 = set_failures a 0 p in
      if piRetryTime (plMem p1 a) \<noteq> 0 then
        (case queue_Remove (piIndex (plMem p1 a)) p1 of
           None \<Rightarrow> None
         | Some p2 \<Rightarrow> Some (make_ready a (resetTimer now p2)))
      else Some p1)"

definition pool_Failed :: "int \<Rightarrow> int \<Rightarrow> nat \<Rightarrow> pool \<Rightarrow> pool option" where
  "pool_Failed now now' a p =
     (if piRetryTime (plMem p a) = 0 then pool_fail now now' a p else Some p)"

text \<open>
  \<open>UpdateInstances\<close>: \<open>keepInsts\<close> moves the instances still wanted to new lists, \<open>p\<close> holding the
  new lists while it runs.
\<close>

fun keepInsts :: "nat list \<Rightarrow> (string \<rightharpoonup> ipport) \<times> pool \<Rightarrow> (string \<rightharpoonup> ipport) \<times> pool" where
  "keepInsts [] (want, p) = (want, p)"
| "keepInsts (a # as) (want, p) =
     (let name = piName (plMem p a) in
      if want name \<noteq> None then
        let want' = want(name := None) in
        if piRetryTime (plMem p a) = 0
        then keepInsts as (want', (set_index a (length (plReady p)) p)\<lparr>plReady := plReady p @ [a]\<rparr>)
        else keepInsts as (want', (set_index a (length (plRetry p)) p)\<lparr>plRetry := plRetry p @ [a]\<rparr>)
      else keepInsts as (want, p))"

definition add_instance :: "string \<Rightarrow> ipport \<Rightarrow> pool \<Rightarrow> pool" where
  "add_instance name addr p =
     p\<lparr>plMem := (plMem p)(plFresh p := \<lparr>piName = name, piAddress = addr,
          piIndex = length (plReady p), piFailures = 0, piRetryTime = 0\<rparr>),
       plFresh := plFresh p + 1,
       plReady := plReady p @ [plFresh p]\<rparr>"

definition UpdateInstances ::
  "string ordering \<Rightarrow> int \<Rightarrow> (string \<rightharpoonup> ipport) \<Rightarrow> pool \<Rightarrow> pool" where
  "UpdateInstances ord now instances p =
     (let (want, p1) = keepInsts (plRetry p)
                         (keepInsts (plReady p) (instances, p\<lparr>plReady := [], plRetry := []\<rparr>));
          p2 = for_keys (\<lambda>_. want) add_instance (ord [''new''] (dom want)) p1
      in resetTimer now (heap_Init retry_Len retry_Less retry_Swap p2))"

definition retry_due :: "int \<Rightarrow> pool \<Rightarrow> bool" where
  "retry_due now p \<longleftrightarrow> plRetry p \<noteq> [] \<and> \<not> now < piRetryTime (plMem p (hd (plRetry p)))"

section \<open>The queue as a client of the heap\<close>

lemma retry_Swap_simps [simp]:
  "plReady (retry_Swap i j q) = plReady q"
  "plFresh (retry_Swap i j q) = plFresh q"
  "plTimer (retry_Swap i j q) = plTimer q"
  "length (plRetry (retry_Swap i j q)) = length (plRetry q)"
  "plRetry (retry_Swap i j q) = (plRetry q)[i := plRetry q ! j, j := plRetry q ! i]"
  "piRetryTime (plMem (retry_Swap i j q) a) = piRetryTime (plMem q a)"
  "piName (plMem (retry_Swap i j q) a) = piName (plMem q a)"
  "piAddress (plMem (retry_Swap i j q) a) = piAddress (plMem q a)"
  "piFailures (plMem (retry_Swap i j q) a) = piFailures (plMem q a)"
  by (simp_all add: retry_Swap_def set_index_def Let_def)

lemma retry_Swap_index:
  "piIndex (plMem (retry_Swap i j q) a) =
     (if a = plRetry q ! j then i else if a = plRetry q ! i then j else piIndex (plMem q a))"
  by (simp add: retry_Swap_def set_index_def Let_def)

interpretation rq: heap_client retry_Len retry_Less retry_Swap plRetry "\<lambda>q a. piRetryTime (plMem q a)"
  by unfold_locales (auto simp: retry_Len_def retry_Less_def)

lemma queue_Pop_length: "plRetry q \<noteq> [] \<Longrightarrow> length (plRetry (queue_Pop q)) < length (plRetry q)"
proof -
  assume "plRetry q \<noteq> []"
  moreover have "length (plRetry (heap_Pop_prep retry_Len retry_Less retry_Swap q)) = length (plRetry q)"
    unfolding heap_Pop_prep_def Let_def
    by (rule heap_down_keeps [where P = "\<lambda>q'. length (plRetry q') = length (plRetry q)"])
      (simp_all add: retry_Swap_simps(4) del: retry_Swap_simps(5))
  ultimately show ?thesis by (simp add: queue_Pop_def retry_Pop_def)
qed

section \<open>Retries\<close>

function retry_loop :: "int \<Rightarrow> pool \<Rightarrow> pool" where
  "retry_loop now p =
     (if retry_due now p then retry_loop now (make_ready (hd (plRetry p)) (queue_Pop p)) else p)"
  by auto
termination
proof (relation "measure (\<lambda>(_, p). length (plRetry p))")
  fix now p assume "retry_due now p"
  then have "plRetry p \<noteq> []" by (simp add: retry_due_def)
  from queue_Pop_length [OF this]
  show "((now, make_ready (hd (plRetry p)) (queue_Pop p)), now, p) \<in> measure (\<lambda>(_, p). length (plRetry p))"
    by (simp add: make_ready_def set_index_def set_retryTime_def Let_def)
qed simp

declare retry_loop.simps [simp del]

definition processRetries :: "int \<Rightarrow> pool \<Rightarrow> pool" where
  "processRetries now p = resetTimer now (retry_loop now p)"

end
