(* ===== verification/PoolCorrect.thy ===== *)
theory PoolCorrect
  imports Pool
begin

text \<open>
  The invariant of the instance pool and what each of its operations does to it.
\<close>

section \<open>The invariant\<close>

text \<open>
  \<open>indexed\<close>: the entries of a list are distinct, in memory, and each knows its place.
\<close>

definition indexed :: "pool \<Rightarrow> nat list \<Rightarrow> bool" where
  "indexed p as \<longleftrightarrow> distinct as \<and> (\<forall>i < length as. piIndex (plMem p (as ! i)) = i \<and> as ! i < plFresh p)"

definition queue_heap :: "pool \<Rightarrow> bool" where
  "queue_heap p \<longleftrightarrow> is_heap (retry_Len p) (\<lambda>i. piRetryTime (plMem p (plRetry p ! i)))"

definition queue_ok :: "pool \<Rightarrow> bool" where
  "queue_ok p \<longleftrightarrow> indexed p (plRetry p) \<and> (\<forall>a \<in> set (plRetry p). piRetryTime (plMem p a) \<noteq> 0) \<and>
     queue_heap p"

definition ready_ok :: "pool \<Rightarrow> bool" where
  "ready_ok p \<longleftrightarrow> indexed p (plReady p) \<and> (\<forall>a \<in> set (plReady p). piRetryTime (plMem p a) = 0)"

definition pool_members :: "pool \<Rightarrow> nat set" where
  "pool_members p = set (plReady p) \<union> set (plRetry p)"

definition names_ok :: "pool \<Rightarrow> bool" where
  "names_ok p \<longleftrightarrow> inj_on (\<lambda>a. piName (plMem p a)) (pool_members p)"

definition pool_ok :: "pool \<Rightarrow> bool" where
  "pool_ok p \<longleftrightarrow> ready_ok p \<and> queue_ok p \<and> names_ok p"

text \<open>The timer fires when the first retry is due.\<close>

definition timer_ok :: "int \<Rightarrow> pool \<Rightarrow> bool" where
  "timer_ok now p \<longleftrightarrow> (plRetry p \<noteq> [] \<longrightarrow> plTimer p =
     Some (time_sub (Min ((\<lambda>a. piRetryTime (plMem p a)) ` set (plRetry p))) now))"

text \<open>Two states that differ in the order and the indices of the retry queue only.\<close>

definition same_but_queue_order :: "pool \<Rightarrow> pool \<Rightarrow> bool" where
  "same_but_queue_order p p' \<longleftrightarrow> plReady p' = plReady p \<and> plFresh p' = plFresh p \<and>
     plTimer p' = plTimer p \<and> length (plRetry p') = length (plRetry p) \<and>
     set (plRetry p') = set (plRetry p) \<and>
     (\<forall>a. (plMem p' a)\<lparr>piIndex := 0\<rparr> = (plMem p a)\<lparr>piIndex := 0\<rparr>) \<and>
     (\<forall>a. a \<notin> set (plRetry p) \<longrightarrow> plMem p' a = plMem p a)"

lemma same_order_fields:
  assumes "same_but_queue_order p p'"
  shows "piName (plMem p' a) = piName (plMem p a)" "piAddress (plMem p' a) = piAddress (plMem p a)"
    "piFailures (plMem p' a) = piFailures (plMem p a)" "piRetryTime (plMem p' a) = piRetryTime (plMem p a)"
proof -
  have "(plMem p' a)\<lparr>piIndex := 0\<rparr> = (plMem p a)\<lparr>piIndex := 0\<rparr>"
    using assms by (simp add: same_but_queue_order_def)
  then show "piName (plMem p' a) = piName (plMem p a)" "piAddress (plMem p' a) = piAddress (plMem p a)"
    "piFailures (plMem p' a) = piFailures (plMem p a)" "piRetryTime (plMem p' a) = piRetryTime (plMem p a)"
    by (cases "plMem p' a"; cases "plMem p a"; simp)+
qed

lemma swap_same_order:
  assumes "same_but_queue_order p q" and "indexed q (plRetry q)" and "i < length (plRetry p)" and "j < length (plRetry p)"
  shows "same_but_queue_order p (retry_Swap i j q)" and "indexed (retry_Swap i j q) (plRetry (retry_Swap i j q))"
proof -
  have len: "i < length (plRetry q)" "j < length (plRetry q)"
    using assms by (simp_all add: same_but_queue_order_def)
  have set_swap: "set ((plRetry q)[i := plRetry q ! j, j := plRetry q ! i]) = set (plRetry q)"
    using len by (rule set_swap)
  have "(plMem (retry_Swap i j q) a)\<lparr>piIndex := 0\<rparr> = (plMem q a)\<lparr>piIndex := 0\<rparr>" for a
    by (simp add: retry_Swap_def set_index_def Let_def)
  also have "\<dots> a = (plMem p a)\<lparr>piIndex := 0\<rparr>" for a
    using assms(1) by (simp add: same_but_queue_order_def)
  finally have mem: "(plMem (retry_Swap i j q) a)\<lparr>piIndex := 0\<rparr> = (plMem p a)\<lparr>piIndex := 0\<rparr>" for a .
  have "plMem (retry_Swap i j q) a = plMem q a" if "a \<notin> set (plRetry q)" for a
    using that len nth_mem by (auto simp: retry_Swap_def set_index_def Let_def)
  then show "same_but_queue_order p (retry_Swap i j q)"
    using assms(1) set_swap mem by (simp add: same_but_queue_order_def)
  have d: "distinct (plRetry q)" using assms(2) by (simp add: indexed_def)
  have "piIndex (plMem (retry_Swap i j q) (plRetry (retry_Swap i j q) ! k)) = k"
    if "k < length (plRetry q)" for k
    using that len d assms(2)
    by (auto simp: retry_Swap_index nth_list_update nth_eq_iff_index_eq indexed_def)
  moreover have "distinct (plRetry (retry_Swap i j q))" using d len by (simp add: distinct_swap)
  moreover have "plRetry (retry_Swap i j q) ! k < plFresh q" if "k < length (plRetry q)" for k
    using that len assms(2) by (auto simp: nth_list_update indexed_def)
  ultimately show "indexed (retry_Swap i j q) (plRetry (retry_Swap i j q))"
    by (simp add: indexed_def)
qed

lemma queue_heap_K: "queue_heap p \<longleftrightarrow> is_heap (retry_Len p) (rq.K p)"
  by (simp add: queue_heap_def rq.K_def [abs_def])

lemma same_order_refl: "same_but_queue_order p p"
  by (simp add: same_but_queue_order_def)

section \<open>Queue operations\<close>

text \<open>What adding or removing an entry changes outside the queue: nothing but its index.\<close>

definition queue_frame :: "pool \<Rightarrow> pool \<Rightarrow> bool" where
  "queue_frame p p' \<longleftrightarrow> plReady p' = plReady p \<and> plFresh p' = plFresh p \<and> plTimer p' = plTimer p \<and>
     (\<forall>a. piName (plMem p' a) = piName (plMem p a) \<and> piAddress (plMem p' a) = piAddress (plMem p a) \<and>
        piFailures (plMem p' a) = piFailures (plMem p a) \<and> piRetryTime (plMem p' a) = piRetryTime (plMem p a)) \<and>
     (\<forall>a. a \<notin> set (plRetry p) \<union> set (plRetry p') \<longrightarrow> plMem p' a = plMem p a)"

lemma queue_Push_ok:
  assumes "queue_ok p" and "a \<notin> set (plRetry p)" and "a < plFresh p" and "piRetryTime (plMem p a) \<noteq> 0"
  shows "queue_ok (queue_Push a p)" and "set (plRetry (queue_Push a p)) = insert a (set (plRetry p))"
    and "queue_frame p (queue_Push a p)"
proof -
  define q where "q = retry_Push a p"
  let ?n = "length (plRetry q)"
  have q: "plRetry q = plRetry p @ [a]" "plReady q = plReady p" "plFresh q = plFresh p"
    "plTimer q = plTimer p" "retry_Len q = length (plRetry p) + 1"
    "\<And>b. plMem q b = (if b = a then (plMem p a)\<lparr>piIndex := length (plRetry p)\<rparr> else plMem p b)"
    by (simp_all add: q_def retry_Push_def set_index_def Let_def retry_Len_def)
  have idx: "indexed q (plRetry q)"
    using assms(1-3) by (auto simp: indexed_def q nth_append queue_ok_def less_Suc_eq)
  have "rq.K q i = rq.K p i" if "i < length (plRetry p)" for i
    using that assms(2) nth_mem [OF that] by (auto simp: rq.K_def q nth_append)
  then have "is_heap (retry_Len q - 1) (rq.K q)"
    using assms(1) by (auto simp: queue_ok_def queue_heap_K is_heap_def q retry_Len_def)
  then have heap: "is_heap (retry_Len q) (rq.K (queue_Push a p))"
    using rq.Push_heap [of q] by (simp add: queue_Push_def q(5) flip: q_def)
  have keep: "same_but_queue_order q (queue_Push a p) \<and> indexed (queue_Push a p) (plRetry (queue_Push a p))"
    unfolding queue_Push_def Let_def q_def [symmetric]
    by (rule heap_up_keeps [where n = ?n and
          P = "\<lambda>r. same_but_queue_order q r \<and> indexed r (plRetry r)"])
      (use idx same_order_refl swap_same_order in \<open>auto simp: retry_Len_def q(1)\<close>)
  then have s: "set (plRetry (queue_Push a p)) = insert a (set (plRetry p))"
    "plReady (queue_Push a p) = plReady p" "plFresh (queue_Push a p) = plFresh p"
    "plTimer (queue_Push a p) = plTimer p" "retry_Len (queue_Push a p) = retry_Len q"
    "\<And>b. b \<notin> insert a (set (plRetry p)) \<Longrightarrow> plMem (queue_Push a p) b = plMem p b"
    by (auto simp: same_but_queue_order_def q retry_Len_def)
  note f = same_order_fields [OF conjunct1 [OF keep]]
  have f': "piName (plMem (queue_Push a p) b) = piName (plMem p b)"
    "piAddress (plMem (queue_Push a p) b) = piAddress (plMem p b)"
    "piFailures (plMem (queue_Push a p) b) = piFailures (plMem p b)"
    "piRetryTime (plMem (queue_Push a p) b) = piRetryTime (plMem p b)" for b
    by (simp_all add: f q(6))
  show "queue_ok (queue_Push a p)"
    using keep heap assms(1,4) s by (auto simp: queue_ok_def queue_heap_K f')
  show "set (plRetry (queue_Push a p)) = insert a (set (plRetry p))" by (rule s(1))
  show "queue_frame p (queue_Push a p)"
    using s by (simp add: queue_frame_def f')
qed

text \<open>Taking out the entry that a heap operation has moved to the end.\<close>

lemma drop_last_ok:
  assumes "queue_ok p" and "same_but_queue_order p q" and "indexed q (plRetry q)"
    and "is_heap (retry_Len p - 1) (rq.K q)" and "i < length (plRetry p)"
    and "plRetry q ! (retry_Len p - 1) = plRetry p ! i"
  shows "queue_ok (retry_Pop q)" and "set (plRetry (retry_Pop q)) = set (plRetry p) - {plRetry p ! i}"
    and "queue_frame p (retry_Pop q)"
proof -
  have len: "length (plRetry q) = length (plRetry p)" "set (plRetry q) = set (plRetry p)"
    using assms(2) by (simp_all add: same_but_queue_order_def)
  have ne: "plRetry q \<noteq> []" using len assms(5) by auto
  have d: "distinct (plRetry q)" using assms(3) by (simp add: indexed_def)
  have app: "plRetry q = butlast (plRetry q) @ [plRetry p ! i]"
    using ne assms(6) len by (metis append_butlast_last_id last_conv_nth retry_Len_def)
  have "distinct (butlast (plRetry q) @ [plRetry p ! i])" using d by (simp only: app [symmetric])
  moreover have "set (butlast (plRetry q) @ [plRetry p ! i]) = set (plRetry p)"
    using len(2) by (simp only: app [symmetric])
  ultimately show s: "set (plRetry (retry_Pop q)) = set (plRetry p) - {plRetry p ! i}"
    by (auto simp: retry_Pop_def)
  have nb: "butlast (plRetry q) ! k = plRetry q ! k" if "k < length (plRetry q) - 1" for k
    using that by (simp add: nth_butlast)
  have "indexed (retry_Pop q) (plRetry (retry_Pop q))"
    using assms(3) by (simp add: indexed_def retry_Pop_def nb distinct_butlast)
  moreover have "queue_heap (retry_Pop q)"
  proof -
    have "is_heap (retry_Len p - 1) (rq.K (retry_Pop q))"
      using assms(4) len nb parent_less
      by (simp add: is_heap_def rq.K_def retry_Pop_def retry_Len_def)
    then show ?thesis by (simp add: queue_heap_K retry_Len_def retry_Pop_def len)
  qed
  moreover have "piRetryTime (plMem (retry_Pop q) a) \<noteq> 0" if "a \<in> set (plRetry (retry_Pop q))" for a
    using that s assms(1) same_order_fields [OF assms(2)] by (auto simp: queue_ok_def retry_Pop_def)
  ultimately show "queue_ok (retry_Pop q)" by (simp add: queue_ok_def)
  show "queue_frame p (retry_Pop q)"
    using assms(2) same_order_fields [OF assms(2)]
    by (auto simp: queue_frame_def retry_Pop_def same_but_queue_order_def)
qed

definition queue_perm :: "pool \<Rightarrow> pool \<Rightarrow> bool" where
  "queue_perm p q \<longleftrightarrow> same_but_queue_order p q \<and> indexed q (plRetry q)"

lemma queue_perm_swap:
  assumes "queue_perm p q" and "i < length (plRetry p)" and "j < length (plRetry p)"
  shows "queue_perm p (retry_Swap i j q)"
  using swap_same_order [OF _ _ assms(2,3)] assms(1) unfolding queue_perm_def by blast

lemma queue_perm_refl: "queue_perm p p \<longleftrightarrow> indexed p (plRetry p)"
  by (simp add: queue_perm_def same_order_refl)

lemma queue_Remove_ok:
  assumes "queue_ok p" and "a \<in> set (plRetry p)"
  obtains q where "queue_Remove (piIndex (plMem p a)) p = Some q" and "queue_ok q"
    and "set (plRetry q) = set (plRetry p) - {a}" and "queue_frame p q"
proof -
  let ?i = "piIndex (plMem p a)"
  obtain k where k: "k < length (plRetry p)" "plRetry p ! k = a" using assms(2) by (auto simp: in_set_conv_nth)
  then have i: "?i < length (plRetry p)" "plRetry p ! ?i = a"
    using assms(1) by (auto simp: queue_ok_def indexed_def)
  define r where "r = heap_Remove_prep retry_Len retry_Less retry_Swap ?i p"
  have h: "is_heap (retry_Len p) (rq.K p)" using assms(1) by (simp add: queue_ok_def queue_heap_K)
  have "?i < retry_Len p" using i by (simp add: retry_Len_def)
  note rem = rq.Remove_heap [OF h this, folded r_def]
  have ok: "queue_perm p p" using assms(1) by (simp add: queue_perm_refl queue_ok_def)
  have "queue_perm p r"
    unfolding r_def heap_Remove_prep_def Let_def
  proof (cases "retry_Len p - 1 \<noteq> ?i")
    case True
    have "queue_perm p (retry_Swap ?i (retry_Len p - 1) p)"
      by (rule queue_perm_swap) (use i ok in \<open>auto simp: retry_Len_def\<close>)
    then have "queue_perm p (heap_down retry_Less retry_Swap ?i (retry_Len p - 1) (retry_Swap ?i (retry_Len p - 1) p))"
      by (rule heap_down_keeps) (auto simp: retry_Len_def intro!: queue_perm_swap)
    then have "queue_perm p (heap_up retry_Less retry_Swap ?i
        (heap_down retry_Less retry_Swap ?i (retry_Len p - 1) (retry_Swap ?i (retry_Len p - 1) p)))"
      by (rule heap_up_keeps [where n = "length (plRetry p)"])
        (use i in \<open>auto intro!: queue_perm_swap\<close>)
    then show "queue_perm p (if retry_Len p - 1 \<noteq> ?i then heap_up retry_Less retry_Swap ?i
        (heap_down retry_Less retry_Swap ?i (retry_Len p - 1) (retry_Swap ?i (retry_Len p - 1) p)) else p)"
      using True by simp
  qed (use ok in auto)
  then have r: "same_but_queue_order p r" "indexed r (plRetry r)" by (auto simp: queue_perm_def)
  have last: "plRetry r ! (retry_Len p - 1) = plRetry p ! ?i" by (rule rem(2))
  note d = drop_last_ok [OF assms(1) r rem(1) i(1) last, unfolded i(2)]
  show ?thesis
    by (rule that [of "retry_Pop r"]) (use d i in \<open>auto simp: queue_Remove_def retry_Len_def r_def\<close>)
qed

lemma queue_Pop_ok:
  assumes "queue_ok p" and "plRetry p \<noteq> []"
  shows "queue_ok (queue_Pop p)" and "set (plRetry (queue_Pop p)) = set (plRetry p) - {hd (plRetry p)}"
    and "queue_frame p (queue_Pop p)"
proof -
  define r where "r = heap_Pop_prep retry_Len retry_Less retry_Swap p"
  have h: "is_heap (retry_Len p) (rq.K p)" using assms(1) by (simp add: queue_ok_def queue_heap_K)
  have n: "0 < retry_Len p" using assms(2) by (simp add: retry_Len_def)
  note pop = rq.Pop_heap [OF h n, folded r_def]
  have ok: "queue_perm p p" using assms(1) by (simp add: queue_perm_refl queue_ok_def)
  have "queue_perm p (retry_Swap 0 (retry_Len p - 1) p)"
    by (rule queue_perm_swap) (use assms(2) ok in \<open>auto simp: retry_Len_def\<close>)
  then have "queue_perm p r"
    unfolding r_def heap_Pop_prep_def Let_def
    by (rule heap_down_keeps) (auto simp: retry_Len_def intro!: queue_perm_swap)
  then have r: "same_but_queue_order p r" "indexed r (plRetry r)" by (auto simp: queue_perm_def)
  have i: "0 < length (plRetry p)" "plRetry p ! 0 = hd (plRetry p)"
    using assms(2) by (simp_all add: hd_conv_nth)
  have e: "queue_Pop p = retry_Pop r" by (simp add: queue_Pop_def r_def)
  note d = drop_last_ok [OF assms(1) r pop(1) i(1) pop(2), unfolded i(2)]
  show "queue_ok (queue_Pop p)" and "set (plRetry (queue_Pop p)) = set (plRetry p) - {hd (plRetry p)}"
    and "queue_frame p (queue_Pop p)"
    unfolding e by (rule d)+
qed

lemma queue_Init_ok:
  assumes "indexed p (plRetry p)"
  defines "q \<equiv> heap_Init retry_Len retry_Less retry_Swap p"
  shows "same_but_queue_order p q" and "indexed q (plRetry q)" and "queue_heap q"
proof -
  have "queue_perm p q"
    unfolding q_def
    by (rule heap_Init_keeps [where ?h0.0 = p])
      (use assms(1) in \<open>auto simp: retry_Len_def queue_perm_refl intro!: queue_perm_swap\<close>)
  then show "same_but_queue_order p q" and "indexed q (plRetry q)" by (auto simp: queue_perm_def)
  show "queue_heap q"
    using rq.Init_heap [of p] rq.Init_contents [of p] by (simp add: q_def queue_heap_K)
qed

lemma queue_head_least:
  assumes "queue_ok p" and "plRetry p \<noteq> []"
  shows "Min ((\<lambda>a. piRetryTime (plMem p a)) ` set (plRetry p)) = piRetryTime (plMem p (hd (plRetry p)))"
proof (rule Min_eqI)
  fix t assume "t \<in> (\<lambda>a. piRetryTime (plMem p a)) ` set (plRetry p)"
  then obtain i where i: "i < retry_Len p" "t = rq.K p i"
    by (auto simp: in_set_conv_nth retry_Len_def rq.K_def)
  have "rq.K p 0 \<le> rq.K p i"
    using assms(1) i by (auto simp: queue_ok_def queue_heap_K intro: is_heap_least)
  then show "piRetryTime (plMem p (hd (plRetry p))) \<le> t" using i assms(2) by (simp add: rq.K_def hd_conv_nth)
qed (use assms(2) in auto)

lemma resetTimer_simps [simp]:
  "plMem (resetTimer now p) = plMem p" "plFresh (resetTimer now p) = plFresh p"
  "plReady (resetTimer now p) = plReady p" "plRetry (resetTimer now p) = plRetry p"
  by (simp_all add: resetTimer_def)

lemma resetTimer_ok: "queue_ok p \<Longrightarrow> timer_ok now (resetTimer now p)"
  by (auto simp: timer_ok_def resetTimer_def queue_head_least)

section \<open>Moving instances between the lists\<close>

lemma queue_ok_congr:
  assumes "queue_ok p" and "plRetry q = plRetry p" and "plFresh p \<le> plFresh q"
    and "\<And>a. a \<in> set (plRetry p) \<Longrightarrow> plMem q a = plMem p a"
  shows "queue_ok q"
proof -
  have "rq.K q i = rq.K p i" if "i < retry_Len p" for i
    using that assms(2,4) by (simp add: rq.K_def retry_Len_def)
  then have "queue_heap q"
    using assms(1,2) parent_less by (auto simp: queue_ok_def queue_heap_K is_heap_def retry_Len_def)
  then show ?thesis using assms by (force simp: queue_ok_def indexed_def)
qed

lemma ready_ok_congr:
  assumes "ready_ok p" and "plReady q = plReady p" and "plFresh p \<le> plFresh q"
    and "\<And>a. a \<in> set (plReady p) \<Longrightarrow> plMem q a = plMem p a"
  shows "ready_ok q"
  using assms by (force simp: ready_ok_def indexed_def)

lemma ready_retry_disjoint: "ready_ok p \<Longrightarrow> queue_ok p \<Longrightarrow> set (plReady p) \<inter> set (plRetry p) = {}"
  by (auto simp: ready_ok_def queue_ok_def)

lemma make_ready_ok:
  assumes "ready_ok p" and "queue_ok p" and "a \<notin> pool_members p" and "a < plFresh p"
  shows "ready_ok (make_ready a p)" and "queue_ok (make_ready a p)"
    and "pool_members (make_ready a p) = insert a (pool_members p)"
proof -
  have m: "plReady (make_ready a p) = plReady p @ [a]" "plRetry (make_ready a p) = plRetry p"
    "plFresh (make_ready a p) = plFresh p"
    "plMem (make_ready a p) = (plMem p)(a := (plMem p a)\<lparr>piRetryTime := 0, piIndex := length (plReady p)\<rparr>)"
    by (simp_all add: make_ready_def set_index_def set_retryTime_def Let_def)
  have "a \<notin> set (plReady p)" "a \<notin> set (plRetry p)" using assms(3) by (auto simp: pool_members_def)
  then show "ready_ok (make_ready a p)"
    using assms(1,4) by (auto simp: ready_ok_def indexed_def m nth_append less_Suc_eq)
  show "queue_ok (make_ready a p)"
    by (rule queue_ok_congr [OF assms(2)]) (use \<open>a \<notin> set (plRetry p)\<close> in \<open>auto simp: m\<close>)
  show "pool_members (make_ready a p) = insert a (pool_members p)"
    by (auto simp: pool_members_def m)
qed

lemma make_ready_fields [simp]:
  "plReady (make_ready a p) = plReady p @ [a]" "plRetry (make_ready a p) = plRetry p"
  "plFresh (make_ready a p) = plFresh p" "plTimer (make_ready a p) = plTimer p"
  "piName (plMem (make_ready a p) b) = piName (plMem p b)"
  "piAddress (plMem (make_ready a p) b) = piAddress (plMem p b)"
  "piFailures (plMem (make_ready a p) b) = piFailures (plMem p b)"
  "piRetryTime (plMem (make_ready a p) b) = (if b = a then 0 else piRetryTime (plMem p b))"
  by (simp_all add: make_ready_def set_index_def set_retryTime_def Let_def)

lemma queue_frame_fields:
  assumes "queue_frame p q"
  shows "plReady q = plReady p" "plFresh q = plFresh p" "piName (plMem q a) = piName (plMem p a)"
    "piAddress (plMem q a) = piAddress (plMem p a)" "piFailures (plMem q a) = piFailures (plMem p a)"
    "piRetryTime (plMem q a) = piRetryTime (plMem p a)"
    "a \<notin> set (plRetry p) \<Longrightarrow> a \<notin> set (plRetry q) \<Longrightarrow> plMem q a = plMem p a"
  using assms by (auto simp: queue_frame_def)

text \<open>A failed instance gets back into the ready list, in \<open>Succeeded\<close> and in the retry loop.\<close>

lemma retry_to_ready:
  assumes "pool_ok p" and "queue_frame p q" and "queue_ok q" and "a \<in> set (plRetry p)"
    and "set (plRetry q) = set (plRetry p) - {a}" and "r = make_ready a (resetTimer now q) \<or> r = make_ready a q"
  shows "pool_ok r" and "pool_members r = pool_members p"
    and "set (plReady r) = insert a (set (plReady p))" and "set (plRetry r) = set (plRetry p) - {a}"
    and "piFailures (plMem r b) = piFailures (plMem p b)" and "piAddress (plMem r b) = piAddress (plMem p b)"
    and "piName (plMem r b) = piName (plMem p b)"
    and "b \<noteq> a \<Longrightarrow> piRetryTime (plMem r b) = piRetryTime (plMem p b)"
proof -
  obtain q' where q': "r = make_ready a q'" "plMem q' = plMem q" "plReady q' = plReady q"
    "plRetry q' = plRetry q" "plFresh q' = plFresh q"
    using assms(6) by (metis resetTimer_simps)
  note f = queue_frame_fields [OF assms(2)]
  have p: "ready_ok p" "queue_ok p" "names_ok p" using assms(1) by (auto simp: pool_ok_def)
  note dis = ready_retry_disjoint [OF p(1,2)]
  have a: "a < plFresh q'" using assms(4) p(2) q' f by (auto simp: queue_ok_def indexed_def in_set_conv_nth)
  have mem: "plMem q b = plMem p b" if "b \<in> set (plReady p)" for b
    using that dis assms(5) f(7) by blast
  have "ready_ok q'"
    by (rule ready_ok_congr [OF p(1)]) (use q' f(1,2) mem in auto)
  moreover have "queue_ok q'" by (rule queue_ok_congr [OF assms(3)]) (use q' in auto)
  moreover have "a \<notin> pool_members q'" using q' f assms(4,5) dis by (auto simp: pool_members_def)
  ultimately have r: "ready_ok r" "queue_ok r" "pool_members r = insert a (pool_members q')"
    using make_ready_ok a q'(1) by blast+
  show rm: "pool_members r = pool_members p"
    using r(3) q' f assms(4,5) by (auto simp: pool_members_def)
  show "pool_ok r"
    using r(1,2) p(3) rm q' f by (simp add: pool_ok_def names_ok_def)
  show "set (plReady r) = insert a (set (plReady p))" and "set (plRetry r) = set (plRetry p) - {a}"
    and "piFailures (plMem r b) = piFailures (plMem p b)" and "piAddress (plMem r b) = piAddress (plMem p b)"
    and "piName (plMem r b) = piName (plMem p b)"
    and "b \<noteq> a \<Longrightarrow> piRetryTime (plMem r b) = piRetryTime (plMem p b)"
    using q' f assms(5) by auto
qed

lemma set_failures_simps [simp]:
  "plReady (set_failures a n p) = plReady p" "plRetry (set_failures a n p) = plRetry p"
  "plFresh (set_failures a n p) = plFresh p" "plTimer (set_failures a n p) = plTimer p"
  "piIndex (plMem (set_failures a n p) b) = piIndex (plMem p b)"
  "piName (plMem (set_failures a n p) b) = piName (plMem p b)"
  "piAddress (plMem (set_failures a n p) b) = piAddress (plMem p b)"
  "piRetryTime (plMem (set_failures a n p) b) = piRetryTime (plMem p b)"
  "piFailures (plMem (set_failures a n p) b) = (if b = a then n else piFailures (plMem p b))"
  "pool_members (set_failures a n p) = pool_members p"
  by (simp_all add: set_failures_def pool_members_def)

lemma set_failures_ok: "pool_ok (set_failures a n p) \<longleftrightarrow> pool_ok p"
  by (simp add: pool_ok_def ready_ok_def queue_ok_def queue_heap_def names_ok_def indexed_def retry_Len_def)

lemma Succeeded_ok:
  assumes "pool_ok p" and "a \<in> pool_members p"
  obtains p' where "pool_Succeeded now a p = Some p'" and "pool_ok p'" and "pool_members p' = pool_members p"
    and "a \<in> set (plReady p')" and "piFailures (plMem p' a) = 0"
    and "\<And>b. b \<noteq> a \<Longrightarrow> piFailures (plMem p' b) = piFailures (plMem p b) \<and>
           piRetryTime (plMem p' b) = piRetryTime (plMem p b)"
    and "\<And>b. piAddress (plMem p' b) = piAddress (plMem p b) \<and> piName (plMem p' b) = piName (plMem p b)"
    and "piRetryTime (plMem p a) \<noteq> 0 \<Longrightarrow> timer_ok now p'"
proof -
  define p1 where "p1 = set_failures a 0 p"
  have p1: "pool_ok p1" using assms(1) by (simp add: p1_def set_failures_ok)
  show ?thesis
  proof (cases "piRetryTime (plMem p a) = 0")
    case True
    then have "pool_Succeeded now a p = Some p1" by (simp add: pool_Succeeded_def p1_def)
    moreover have "a \<in> set (plReady p)"
      using assms True by (auto simp: pool_members_def pool_ok_def queue_ok_def)
    ultimately show ?thesis by (intro that [of p1]) (use p1 True in \<open>auto simp: p1_def\<close>)
  next
    case False
    then have a: "a \<in> set (plRetry p1)"
      using assms by (auto simp: p1_def pool_members_def pool_ok_def ready_ok_def)
    have "queue_ok p1" using p1 by (simp add: pool_ok_def)
    from queue_Remove_ok [OF this a] obtain q where q: "queue_Remove (piIndex (plMem p1 a)) p1 = Some q"
      "queue_ok q" "set (plRetry q) = set (plRetry p1) - {a}" "queue_frame p1 q" .
    define r where "r = make_ready a (resetTimer now q)"
    have "pool_Succeeded now a p = Some r"
      using False q(1) by (simp add: pool_Succeeded_def p1_def r_def)
    moreover note rr = retry_to_ready [OF p1 q(4,2) a q(3) disjI1 [OF r_def]]
    moreover have "timer_ok now r"
    proof -
      have "piRetryTime (plMem r b) = piRetryTime (plMem q b)" if "b \<in> set (plRetry q)" for b
        using that q(3) by (simp add: r_def)
      then have "(\<lambda>b. piRetryTime (plMem r b)) ` set (plRetry q) = (\<lambda>b. piRetryTime (plMem q b)) ` set (plRetry q)"
        by (rule image_cong [OF refl])
      then show ?thesis using resetTimer_ok [OF q(2), of now] by (simp add: timer_ok_def r_def)
    qed
    ultimately show ?thesis by (intro that [of r]) (auto simp: p1_def)
  qed
qed

section \<open>The retry loop\<close>

lemma retry_loop_ok:
  assumes "pool_ok p" and "p' = retry_loop now p"
  shows "pool_ok p' \<and> pool_members p' = pool_members p \<and>
    set (plRetry p') = {a \<in> set (plRetry p). now < piRetryTime (plMem p a)} \<and>
    (\<forall>a. piFailures (plMem p' a) = piFailures (plMem p a) \<and> piAddress (plMem p' a) = piAddress (plMem p a) \<and>
       piName (plMem p' a) = piName (plMem p a)) \<and>
    (\<forall>a \<in> set (plRetry p'). piRetryTime (plMem p' a) = piRetryTime (plMem p a))"
  using assms
proof (induction now p arbitrary: p' rule: retry_loop.induct)
  case (1 now p)
  have q: "queue_ok p" using "1.prems" by (simp add: pool_ok_def)
  show ?case
  proof (cases "retry_due now p")
    case False
    have "now < piRetryTime (plMem p a)" if a: "a \<in> set (plRetry p)" for a
    proof -
      have ne: "plRetry p \<noteq> []" using a by auto
      then have "now < piRetryTime (plMem p (hd (plRetry p)))" using False by (simp add: retry_due_def)
      also have "\<dots> \<le> piRetryTime (plMem p a)"
        unfolding queue_head_least [OF q ne, symmetric] using a by (intro Min_le) auto
      finally show ?thesis .
    qed
    then show ?thesis using False "1.prems" by (subst (asm) retry_loop.simps) auto
  next
    case True
    then have ne: "plRetry p \<noteq> []" and due: "piRetryTime (plMem p (hd (plRetry p))) \<le> now"
      by (auto simp: retry_due_def)
    let ?a = "hd (plRetry p)"
    define r where "r = make_ready ?a (queue_Pop p)"
    have a: "?a \<in> set (plRetry p)" using ne by simp
    note pop = queue_Pop_ok [OF q ne]
    note rr = retry_to_ready [OF "1.prems"(1) pop(3,1) a pop(2) disjI2 [OF r_def]]
    have "p' = retry_loop now r" using "1.prems"(2) True by (subst (asm) retry_loop.simps) (simp add: r_def)
    from "1.IH" [OF True, folded r_def, OF rr(1) this]
    have ih: "pool_ok p'" "pool_members p' = pool_members r"
      "set (plRetry p') = {b \<in> set (plRetry r). now < piRetryTime (plMem r b)}"
      "\<And>b. piFailures (plMem p' b) = piFailures (plMem r b) \<and> piAddress (plMem p' b) = piAddress (plMem r b) \<and>
       piName (plMem p' b) = piName (plMem r b)"
      "\<And>b. b \<in> set (plRetry p') \<Longrightarrow> piRetryTime (plMem p' b) = piRetryTime (plMem r b)" by auto
    have "set (plRetry p') = {b \<in> set (plRetry p). now < piRetryTime (plMem p b)}"
      unfolding ih(3) rr(4) using rr(8) due by (intro Collect_cong) (metis Diff_iff insert_iff empty_iff leD)
    moreover have "piRetryTime (plMem p' b) = piRetryTime (plMem p b)" if "b \<in> set (plRetry p')" for b
      using that ih(3,5) rr(4,8) by auto
    ultimately show ?thesis using ih(1,2,4) rr(1,2,5-7) by auto
  qed
qed

section \<open>Failing an instance\<close>

text \<open>Replacing a list element by the last one and dropping the end.\<close>

lemma swap_remove:
  assumes "distinct xs" and "i < length xs"
  shows "set (butlast (xs[i := last xs])) = set xs - {xs ! i}" and "distinct (butlast (xs[i := last xs]))"
proof -
  obtain ys x where xs: "xs = ys @ [x]" using assms(2) by (cases xs rule: rev_cases) auto
  have d: "distinct ys" "x \<notin> set ys" using assms(1) xs by auto
  have u: "butlast (xs[i := last xs]) = (if i < length ys then ys[i := x] else ys)"
    using assms(2) by (auto simp: xs list_update_append nth_append)
  show "set (butlast (xs[i := last xs])) = set xs - {xs ! i}"
    unfolding u using d assms(2) nth_mem [of i ys] by (auto simp: xs nth_append set_update_distinct)
  show "distinct (butlast (xs[i := last xs]))"
    unfolding u using d by (simp add: distinct_list_update)
qed

lemma reschedule_fields:
  "plReady (reschedule now a p) = plReady p" "plRetry (reschedule now a p) = plRetry p"
  "plFresh (reschedule now a p) = plFresh p" "plTimer (reschedule now a p) = plTimer p"
  "plMem (reschedule now a p) = (plMem p)(a := (plMem p a)\<lparr>piFailures := piFailures (plMem p a) + 1,
     piRetryTime := now + sint (retry_delay (piFailures (plMem p a)))\<rparr>)"
  by (simp_all add: reschedule_def set_retryTime_def set_failures_def Let_def)

lemma pool_fail_ok:
  assumes "pool_ok p" and "a \<in> set (plReady p)"
    and "now + sint (retry_delay (piFailures (plMem p a))) \<noteq> 0"
  obtains p' where "pool_fail now now' a p = Some p'" and "queue_ok p'"
    and "plReady p' = butlast ((plReady p)[piIndex (plMem p a) := last (plReady p)])"
    and "set (plReady p') = set (plReady p) - {a}" and "set (plRetry p') = insert a (set (plRetry p))"
    and "piFailures (plMem p' a) = piFailures (plMem p a) + 1"
    and "piRetryTime (plMem p' a) = now + sint (retry_delay (piFailures (plMem p a)))"
    and "\<And>b. b \<in> set (plReady p') \<Longrightarrow> plMem p' b = plMem p b"
    and "\<And>b. piName (plMem p' b) = piName (plMem p b) \<and> piAddress (plMem p' b) = piAddress (plMem p b)"
    and "timer_ok now' p'" and "plFresh p' = plFresh p" and "distinct (plReady p')"
    and "piIndex (plMem p a) < length (plReady p)" and "plReady p ! piIndex (plMem p a) = a"
proof -
  have ok: "ready_ok p" "queue_ok p" using assms(1) by (auto simp: pool_ok_def)
  define i where "i = piIndex (plMem p a)"
  have i: "i < length (plReady p)" "plReady p ! i = a" "distinct (plReady p)" "a < plFresh p"
    using ok(1) assms(2) by (auto simp: ready_ok_def indexed_def i_def in_set_conv_nth)
  define p1 where "p1 = reschedule now a (p\<lparr>plReady := butlast ((plReady p)[i := last (plReady p)])\<rparr>)"
  note sr = swap_remove [OF i(3,1), unfolded i(2)]
  have dis: "set (plReady p) \<inter> set (plRetry p) = {}" by (rule ready_retry_disjoint [OF ok])
  have p1: "plReady p1 = butlast ((plReady p)[i := last (plReady p)])" "plRetry p1 = plRetry p"
    "plFresh p1 = plFresh p" "\<And>b. b \<noteq> a \<Longrightarrow> plMem p1 b = plMem p b"
    "piFailures (plMem p1 a) = piFailures (plMem p a) + 1"
    "piRetryTime (plMem p1 a) = now + sint (retry_delay (piFailures (plMem p a)))"
    "\<And>b. piName (plMem p1 b) = piName (plMem p b) \<and> piAddress (plMem p1 b) = piAddress (plMem p b)"
    by (simp_all add: p1_def reschedule_fields)
  have "plMem p1 b = plMem p b" if "b \<in> set (plRetry p)" for b
    using that dis assms(2) p1(4) by (metis disjoint_iff)
  note q1 = queue_ok_congr [OF ok(2) p1(2) eq_refl [OF p1(3) [symmetric]] this]
  have a: "a \<notin> set (plRetry p1)" "a < plFresh p1" "piRetryTime (plMem p1 a) \<noteq> 0"
    using dis assms(2,3) i p1 by auto
  note push = queue_Push_ok [OF q1 a]
  note f = queue_frame_fields [OF push(3)]
  define r where "r = resetTimer now' (queue_Push a p1)"
  have "pool_fail now now' a p = Some r"
    using i(1) by (simp add: pool_fail_def p1_def r_def i_def Let_def)
  moreover have "queue_ok r" by (rule queue_ok_congr [OF push(1)]) (simp_all add: r_def)
  moreover have "timer_ok now' r" unfolding r_def by (rule resetTimer_ok [OF push(1)])
  moreover have "plMem r b = plMem p b" if "b \<in> set (plReady r)" for b
  proof -
    have b: "b \<noteq> a" "b \<in> set (plReady p)" using that sr(1) by (auto simp: r_def f p1)
    then have "b \<notin> set (plRetry (queue_Push a p1))" "b \<notin> set (plRetry p1)"
      using push(2) dis p1(2) by auto
    then show ?thesis using f(7) p1(4) b(1) by (simp add: r_def)
  qed
  ultimately show ?thesis
    by (intro that [of r]) (use sr i f p1 push(2) in \<open>auto simp: r_def i_def\<close>)
qed

text \<open>
  The instance moved into the freed place keeps its old index, so the invariant survives only
  when the failing instance is the last one.
\<close>

lemma pool_fail_last_ok:
  assumes "pool_ok p" and "plReady p \<noteq> []"
    and "now + sint (retry_delay (piFailures (plMem p (last (plReady p))))) \<noteq> 0"
    and "pool_fail now now' (last (plReady p)) p = Some p'"
  shows "pool_ok p'"
proof -
  let ?a = "last (plReady p)"
  have a: "?a \<in> set (plReady p)" using assms(2) by simp
  obtain q where q: "pool_fail now now' ?a p = Some q" "queue_ok q"
    "plReady q = butlast ((plReady p)[piIndex (plMem p ?a) := ?a])"
    "set (plReady q) = set (plReady p) - {?a}" "set (plRetry q) = insert ?a (set (plRetry p))"
    "\<And>b. b \<in> set (plReady q) \<Longrightarrow> plMem q b = plMem p b"
    "\<And>b. piName (plMem q b) = piName (plMem p b) \<and> piAddress (plMem q b) = piAddress (plMem p b)"
    "plFresh q = plFresh p" "distinct (plReady q)" "plReady p ! piIndex (plMem p ?a) = ?a"
    by (rule pool_fail_ok [OF assms(1) a assms(3), of now']) blast
  have "(plReady p)[piIndex (plMem p ?a) := ?a] = plReady p" using q(10) by (metis list_update_id)
  then have r: "plReady q = butlast (plReady p)" using q(3) by simp
  have p: "ready_ok p" "names_ok p" using assms(1) by (auto simp: pool_ok_def)
  have "piIndex (plMem q (plReady q ! i)) = i \<and> plReady q ! i < plFresh q" if "i < length (plReady q)" for i
    using that q(6,8) p(1) nth_mem [OF that] by (simp add: r ready_ok_def indexed_def nth_butlast)
  then have "ready_ok q" using q(4,6,9) p(1) by (auto simp: ready_ok_def indexed_def)
  moreover have "pool_members q = pool_members p"
    using q(4,5) a by (auto simp: pool_members_def)
  ultimately show ?thesis using assms(4) q(1,2,7) p(2) by (simp add: pool_ok_def names_ok_def)
qed

section \<open>Updating the set of instances\<close>

definition same_fields :: "pool \<Rightarrow> pool \<Rightarrow> nat \<Rightarrow> bool" where
  "same_fields p q a \<longleftrightarrow> piName (plMem q a) = piName (plMem p a) \<and>
     piAddress (plMem q a) = piAddress (plMem p a) \<and> piFailures (plMem q a) = piFailures (plMem p a) \<and>
     piRetryTime (plMem q a) = piRetryTime (plMem p a)"

definition member_names :: "pool \<Rightarrow> string set" where
  "member_names p = (\<lambda>a. piName (plMem p a)) ` pool_members p"

text \<open>
  Where an entry of the updated pool comes from: an instance of the old one, its state unchanged,
  or a new instance of the update.
\<close>

definition from_update :: "(string \<rightharpoonup> ipport) \<Rightarrow> pool \<Rightarrow> pool \<Rightarrow> nat \<Rightarrow> bool" where
  "from_update insts p q a \<longleftrightarrow>
     a \<in> pool_members p \<and> same_fields p q a \<or>
     plFresh p \<le> a \<and> insts (piName (plMem q a)) = Some (piAddress (plMem q a)) \<and>
       piFailures (plMem q a) = 0 \<and> piRetryTime (plMem q a) = 0"

text \<open>The state while the new lists are built, with the names \<open>W\<close> still to be added.\<close>

definition updating :: "(string \<rightharpoonup> ipport) \<Rightarrow> pool \<Rightarrow> string set \<Rightarrow> pool \<Rightarrow> bool" where
  "updating insts p W q \<longleftrightarrow> ready_ok q \<and> indexed q (plRetry q) \<and>
     (\<forall>a \<in> set (plRetry q). piRetryTime (plMem q a) \<noteq> 0) \<and> names_ok q \<and>
     W \<inter> member_names q = {} \<and> W \<union> member_names q = dom insts \<and> plFresh p \<le> plFresh q \<and>
     (\<forall>a < plFresh p. same_fields p q a) \<and> (\<forall>a \<in> pool_members q. from_update insts p q a)"

lemma append_indexed:
  assumes "indexed p as" and "a \<notin> set as" and "a < plFresh q" and "piIndex (plMem q a) = length as"
    and "\<And>b. b \<in> set as \<Longrightarrow> plMem q b = plMem p b" and "plFresh p \<le> plFresh q"
  shows "indexed q (as @ [a])"
  using assms by (force simp: indexed_def nth_append less_Suc_eq)

text \<open>Appending an entry to one of the lists, with its index set.\<close>

lemma updating_add:
  assumes up: "updating insts p W q"
    and a: "a \<notin> pool_members q" "a < plFresh r" "piName (plMem r a) = name" "name \<in> W"
      "from_update insts p r a"
    and mem: "\<And>b. b \<noteq> a \<Longrightarrow> plMem r b = plMem q b" and fresh: "plFresh q \<le> plFresh r"
    and old: "a < plFresh p \<Longrightarrow> same_fields p r a"
    and lists: "piRetryTime (plMem r a) = 0 \<and> plReady r = plReady q @ [a] \<and> plRetry r = plRetry q \<and>
         piIndex (plMem r a) = length (plReady q) \<or>
       piRetryTime (plMem r a) \<noteq> 0 \<and> plReady r = plReady q \<and> plRetry r = plRetry q @ [a] \<and>
         piIndex (plMem r a) = length (plRetry q)"
  shows "updating insts p (W - {name}) r"
proof -
  have a': "a \<notin> set (plReady q)" "a \<notin> set (plRetry q)" using a(1) by (auto simp: pool_members_def)
  have m: "pool_members r = insert a (pool_members q)" using lists by (auto simp: pool_members_def)
  have memq: "plMem r b = plMem q b" if "b \<in> pool_members q" for b
    using that a(1) mem by metis
  have n: "member_names r = insert name (member_names q)"
    using a(3) memq by (auto simp: member_names_def m)
  have q: "ready_ok q" "indexed q (plRetry q)" "\<And>b. b \<in> set (plRetry q) \<Longrightarrow> piRetryTime (plMem q b) \<noteq> 0"
    "names_ok q" "W \<inter> member_names q = {}" "W \<union> member_names q = dom insts" "plFresh p \<le> plFresh q"
    "\<And>b. b < plFresh p \<Longrightarrow> same_fields p q b" "\<And>b. b \<in> pool_members q \<Longrightarrow> from_update insts p q b"
    using up by (auto simp: updating_def)
  have lst: "plMem r b = plMem q b" if "b \<in> set (plReady q) \<or> b \<in> set (plRetry q)" for b
    using that memq by (auto simp: pool_members_def)
  have "indexed r (plReady r) \<and> indexed r (plRetry r)"
    using lists
  proof (elim disjE conjE)
    assume "plReady r = plReady q @ [a]" "plRetry r = plRetry q" "piIndex (plMem r a) = length (plReady q)"
    then show ?thesis
      using append_indexed [of q "plReady q" a r] q(1,2) a' a(2) fresh lst
      by (auto simp: ready_ok_def indexed_def)
  next
    assume "plReady r = plReady q" "plRetry r = plRetry q @ [a]" "piIndex (plMem r a) = length (plRetry q)"
    then show ?thesis
      using append_indexed [of q "plRetry q" a r] q(1,2) a' a(2) fresh lst
      by (auto simp: ready_ok_def indexed_def)
  qed
  moreover have "piRetryTime (plMem r b) = 0" if "b \<in> set (plReady r)" for b
    using that lists lst q(1) by (auto simp: ready_ok_def)
  moreover have "piRetryTime (plMem r b) \<noteq> 0" if "b \<in> set (plRetry r)" for b
    using that lists lst q(3) by auto
  moreover have "names_ok r"
  proof -
    have "name \<notin> (\<lambda>b. piName (plMem r b)) ` pool_members q"
      using q(5) a(4) memq by (auto simp: member_names_def)
    moreover have "inj_on (\<lambda>b. piName (plMem r b)) (pool_members q)"
      using q(4) memq by (auto simp: names_ok_def inj_on_def)
    ultimately show ?thesis using a(1,3) by (auto simp: names_ok_def m)
  qed
  moreover have "(W - {name}) \<inter> member_names r = {}" "W - {name} \<union> member_names r = dom insts"
    using q(5,6) a(4) n by auto
  moreover have "same_fields p r b" if "b < plFresh p" for b
    using that q(8) old mem by (cases "b = a") (auto simp: same_fields_def)
  moreover have "from_update insts p r b" if "b \<in> pool_members r" for b
  proof (cases "b = a")
    case False
    then have "b \<in> pool_members q" using that m by simp
    then show ?thesis using q(9) [of b] memq [of b] by (simp add: from_update_def same_fields_def)
  qed (use a(5) in simp)
  ultimately show ?thesis
    using q(7) fresh by (simp add: updating_def ready_ok_def)
qed

lemma keepInsts_updating:
  assumes "keepInsts as (want, q) = (want', q')" and "updating insts p (dom want) q"
    and "\<And>a. a \<in> set as \<Longrightarrow> a \<in> pool_members p \<and> a < plFresh p" and "plFresh q = plFresh p"
  shows "updating insts p (dom want') q' \<and> (\<forall>n. want' n = None \<or> want' n = want n) \<and>
    plFresh q' = plFresh p \<and> (\<forall>a \<in> set as. want' (piName (plMem p a)) = None)"
  using assms
proof (induction as arbitrary: want q)
  case Nil
  then show ?case by simp
next
  case (Cons a as)
  have up: "updating insts p (dom want) q" and a: "a \<in> pool_members p" "a < plFresh p"
    using Cons.prems(2,3) by auto
  have sf: "same_fields p q a" using up a(2) by (simp add: updating_def)
  define name where "name = piName (plMem q a)"
  have name: "piName (plMem p a) = name" using sf by (simp add: same_fields_def name_def)
  show ?case
  proof (cases "want name")
    case None
    then have "keepInsts as (want, q) = (want', q')" using Cons.prems(1) by (simp add: name_def)
    from Cons.IH [OF this up] Cons.prems(3,4)
    have "updating insts p (dom want') q' \<and> (\<forall>n. want' n = None \<or> want' n = want n) \<and>
      plFresh q' = plFresh p \<and> (\<forall>a \<in> set as. want' (piName (plMem p a)) = None)" by simp
    then show ?thesis using None name by (metis set_ConsD)
  next
    case (Some x)
    define r where "r = (if piRetryTime (plMem q a) = 0
       then (set_index a (length (plReady q)) q)\<lparr>plReady := plReady q @ [a]\<rparr>
       else (set_index a (length (plRetry q)) q)\<lparr>plRetry := plRetry q @ [a]\<rparr>)"
    have k: "keepInsts as (want(name := None), r) = (want', q')"
      using Cons.prems(1) Some by (auto simp: r_def name_def Let_def)
    have fresh: "plFresh r = plFresh p" using Cons.prems(4) by (simp add: r_def set_index_def)
    have rf: "same_fields p r a" using sf by (simp add: same_fields_def r_def set_index_def)
    have notin: "a \<notin> pool_members q"
      using up Some by (auto simp: updating_def member_names_def name_def)
    have "updating insts p (dom want - {name}) r"
    proof (rule updating_add [OF up notin, of r name])
      show "a < plFresh r" using a(2) fresh by simp
      show "piName (plMem r a) = name" using rf name by (simp add: same_fields_def)
      show "name \<in> dom want" using Some by auto
      show "from_update insts p r a" using rf a(1) by (simp add: from_update_def)
      show "plMem r b = plMem q b" if "b \<noteq> a" for b using that by (simp add: r_def set_index_def)
    qed (use fresh Cons.prems(4) rf in \<open>auto simp: r_def set_index_def\<close>)
    then have "updating insts p (dom (want(name := None))) r" by simp
    from Cons.IH [OF k this _ fresh] Cons.prems(3)
    have *: "updating insts p (dom want') q' \<and> (\<forall>n. want' n = None \<or> want' n = (want(name := None)) n) \<and>
      plFresh q' = plFresh p \<and> (\<forall>a \<in> set as. want' (piName (plMem p a)) = None)" by simp
    then have "want' n = None \<or> want' n = want n" for n by (metis fun_upd_apply)
    moreover have "want' name = None" using * by (metis fun_upd_same)
    ultimately show ?thesis using * name by simp
  qed
qed

lemma add_instances_updating:
  assumes "updating insts p (dom want) q" and "\<And>n x. want n = Some x \<Longrightarrow> insts n = Some x"
    and "distinct ks" and "set ks = dom want"
  shows "updating insts p {} (for_keys (\<lambda>_. want) add_instance ks q)"
proof -
  have "updating insts p (dom want - set ks) (for_keys (\<lambda>_. want) add_instance ks q)"
  proof (rule for_keys_visited [where P = "\<lambda>D q. updating insts p (dom want - D) q"])
    fix name addr q D
    assume up: "updating insts p (dom want - D) q" and k: "name \<in> set ks" "name \<notin> D" "want name = Some addr"
    let ?r = "add_instance name addr q" and ?a = "plFresh q"
    have r: "plMem ?r = (plMem q)(?a := \<lparr>piName = name, piAddress = addr, piIndex = length (plReady q),
        piFailures = 0, piRetryTime = 0\<rparr>)"
      "plFresh ?r = plFresh q + 1" "plReady ?r = plReady q @ [?a]" "plRetry ?r = plRetry q"
      by (simp_all add: add_instance_def)
    have notin: "?a \<notin> pool_members q"
      using up by (auto simp: updating_def ready_ok_def indexed_def pool_members_def in_set_conv_nth)
    have old: "plFresh p \<le> ?a" using up by (simp add: updating_def)
    have "updating insts p (dom want - D - {name}) ?r"
      by (rule updating_add [OF up notin]) (use k assms(2,4) old in \<open>auto simp: r from_update_def\<close>)
    then show "updating insts p (dom want - insert name D) ?r" by (subst Diff_insert)
  qed (use assms in auto)
  then show ?thesis by (simp add: assms(4))
qed

lemma UpdateInstances_ok:
  fixes now :: int and a :: nat
  assumes "ordering_ok ord" and "finite (dom insts)" and "\<And>a. a \<in> pool_members p \<Longrightarrow> a < plFresh p"
  defines "p' \<equiv> UpdateInstances ord now insts p"
  shows "pool_ok p'" and "member_names p' = dom insts" and "\<And>b. b \<in> pool_members p' \<Longrightarrow> from_update insts p p' b"
    and "timer_ok now p'"
    and "names_ok p \<Longrightarrow> a \<in> pool_members p \<Longrightarrow> piName (plMem p a) \<in> dom insts \<Longrightarrow>
           a \<in> pool_members p' \<and> same_fields p p' a"
proof -
  define q0 where "q0 = p\<lparr>plReady := [], plRetry := []\<rparr>"
  obtain w1 q1 where k1: "keepInsts (plReady p) (insts, q0) = (w1, q1)" by fastforce
  obtain w2 q2 where k2: "keepInsts (plRetry p) (w1, q1) = (w2, q2)" by fastforce
  define q3 where "q3 = for_keys (\<lambda>_. w2) add_instance (ord [''new''] (dom w2)) q2"
  define q4 where "q4 = heap_Init retry_Len retry_Less retry_Swap q3"
  have p': "p' = resetTimer now q4"
    by (simp add: p'_def UpdateInstances_def k1 k2 q3_def q4_def flip: q0_def)
  have u0: "updating insts p (dom insts) q0"
    by (auto simp: updating_def q0_def ready_ok_def indexed_def names_ok_def member_names_def
        pool_members_def same_fields_def)
  have f0: "plFresh q0 = plFresh p" by (simp add: q0_def)
  have mem: "a \<in> pool_members p \<and> a < plFresh p" if "a \<in> set (plReady p) \<or> a \<in> set (plRetry p)" for a
    using that assms(3) by (auto simp: pool_members_def)
  have s1: "updating insts p (dom w1) q1 \<and> (\<forall>n. w1 n = None \<or> w1 n = insts n) \<and>
    plFresh q1 = plFresh p \<and> (\<forall>a \<in> set (plReady p). w1 (piName (plMem p a)) = None)"
    by (rule keepInsts_updating [OF k1 u0 _ f0]) (use mem in auto)
  have s2: "updating insts p (dom w2) q2 \<and> (\<forall>n. w2 n = None \<or> w2 n = w1 n) \<and>
    plFresh q2 = plFresh p \<and> (\<forall>a \<in> set (plRetry p). w2 (piName (plMem p a)) = None)"
    by (rule keepInsts_updating [OF k2]) (use s1 mem in auto)
  have w2: "w2 n = None \<or> w2 n = insts n" for n using s1 s2 by metis
  have sub: "insts n = Some x" if "w2 n = Some x" for n x using w2 [of n] that by simp
  have fin: "finite (dom w2)"
    by (rule finite_subset [OF _ assms(2)]) (use sub in auto)
  have u3: "updating insts p {} q3"
    unfolding q3_def by (rule add_instances_updating) (use s2 sub fin assms(1) in auto)
  then have i3: "indexed q3 (plRetry q3)" by (simp add: updating_def)
  note init = queue_Init_ok [OF i3, folded q4_def]
  note f = same_order_fields [OF init(1)]
  have e: "plReady q4 = plReady q3" "plFresh q4 = plFresh q3" "set (plRetry q4) = set (plRetry q3)"
    "\<And>b. b \<notin> set (plRetry q3) \<Longrightarrow> plMem q4 b = plMem q3 b"
    using init(1) by (auto simp: same_but_queue_order_def)
  have m: "pool_members q4 = pool_members q3" by (simp add: pool_members_def e)
  have q4: "queue_ok q4"
    using init u3 e(3) by (auto simp: queue_ok_def updating_def f)
  have r3: "ready_ok q3" using u3 by (simp add: updating_def)
  have "plMem q4 b = plMem q3 b" if "b \<in> set (plReady q3)" for b
    using that u3 e(4) by (auto simp: updating_def ready_ok_def)
  note ready_ok_congr [OF r3 e(1) eq_refl [OF e(2) [symmetric]] this]
  moreover have "names_ok q4" using u3 by (simp add: names_ok_def updating_def m f)
  ultimately show "pool_ok p'"
    using queue_ok_congr [OF q4, of p'] ready_ok_congr [of q4 p']
    by (simp add: p' pool_ok_def names_ok_def pool_members_def)
  have pm: "pool_members p' = pool_members q3" using m by (simp add: p' pool_members_def)
  have fp: "piName (plMem p' b) = piName (plMem q3 b)" "piAddress (plMem p' b) = piAddress (plMem q3 b)"
    "piFailures (plMem p' b) = piFailures (plMem q3 b)" "piRetryTime (plMem p' b) = piRetryTime (plMem q3 b)" for b
    by (simp_all add: p' f)
  show names: "member_names p' = dom insts"
    using u3 by (simp add: member_names_def pm fp updating_def)
  show "from_update insts p p' a" if "a \<in> pool_members p'" for a
    using that u3 by (simp add: pm updating_def from_update_def same_fields_def fp)
  show "timer_ok now p'" unfolding p' by (rule resetTimer_ok [OF q4])
  show "a \<in> pool_members p' \<and> same_fields p p' a"
    if names_p: "names_ok p" "a \<in> pool_members p" "piName (plMem p a) \<in> dom insts"
  proof -
    have "w2 (piName (plMem p a)) = None" using names_p(2) s1 s2 by (auto simp: pool_members_def; metis)
    moreover have "dom w2 \<union> member_names q2 = dom insts" using s2 by (simp add: updating_def)
    ultimately have "piName (plMem p a) \<in> member_names q2" using names_p(3) by blast
    then obtain b where b: "b \<in> pool_members q2" "piName (plMem q2 b) = piName (plMem p a)"
      by (auto simp: member_names_def)
    have "b < plFresh p"
      using s2 b(1) by (auto simp: updating_def ready_ok_def indexed_def pool_members_def in_set_conv_nth)
    then have "b \<in> pool_members p" "piName (plMem q2 b) = piName (plMem p b)"
      using s2 b(1) by (auto simp: updating_def from_update_def same_fields_def)
    then have "b = a" using names_p(1,2) b(2) by (auto simp: names_ok_def inj_on_def)
    moreover have "pool_members q2 \<subseteq> pool_members q3"
      unfolding q3_def
      by (rule for_keys_inv) (auto simp: add_instance_def pool_members_def)
    ultimately have "a \<in> pool_members p'" using b(1) pm by auto
    moreover have "same_fields p q3 a" using u3 mem names_p(2) by (auto simp: updating_def pool_members_def)
    ultimately show ?thesis by (simp add: same_fields_def fp)
  qed
qed

section \<open>Picking an instance\<close>

lemma pool_pick_result:
  assumes "pool_ok p" and "\<forall>n > 0. rnd n < n"
    and "\<forall>a \<in> set (plReady p). now + sint (retry_delay (piFailures (plMem p a))) \<noteq> 0"
  shows "\<exists>r p'. PickInstance rnd now now' p = Some (r, p') \<and> (r = None \<longleftrightarrow> pool_members p = {}) \<and>
    pool_members p' = pool_members p \<and>
    (\<forall>a. r = Some a \<longrightarrow> a \<in> pool_members p \<and> (plReady p \<noteq> [] \<longrightarrow> a \<in> set (plReady p)) \<and>
      (if plReady p \<noteq> [] \<and> piFailures (plMem p a) \<noteq> 0
       then a \<in> set (plRetry p') \<and> set (plReady p') = set (plReady p) - {a} else p' = p))"
proof (cases "plReady p = []")
  case True
  have "plRetry p \<noteq> [] \<Longrightarrow> plRetry p ! rnd (length (plRetry p)) \<in> set (plRetry p)"
    using assms(2) by simp
  then show ?thesis using True by (auto simp: PickInstance_def pool_members_def)
next
  case False
  define a where "a = plReady p ! rnd (length (plReady p))"
  have a: "a \<in> set (plReady p)" using assms(2) False by (simp add: a_def)
  then have m: "a \<in> pool_members p" by (simp add: pool_members_def)
  show ?thesis
  proof (cases "piFailures (plMem p a) = 0")
    case True
    then have "PickInstance rnd now now' p = Some (Some a, p)"
      using False by (simp add: PickInstance_def a_def Let_def)
    then show ?thesis using m a True by auto
  next
    case fails: False
    obtain p' where p': "pool_fail now now' a p = Some p'" "set (plReady p') = set (plReady p) - {a}"
      "set (plRetry p') = insert a (set (plRetry p))"
      by (rule pool_fail_ok [OF assms(1) a, of now now']) (use assms(3) a in auto)
    have "PickInstance rnd now now' p = Some (Some a, p')"
      using False fails p'(1) by (simp add: PickInstance_def a_def Let_def)
    moreover have "pool_members p' = pool_members p" using p' a by (auto simp: pool_members_def)
    ultimately show ?thesis using m a fails False p' by auto
  qed
qed

end
