(* ===== verification/PoolProps.thy ===== *)
theory PoolProps
  imports PoolCorrect
begin

text \<open>
  The properties of the instance pool, each at a concrete pool as well: two ready instances and
  one that waits for its retry.
\<close>

definition demo_pool :: pool where
  "demo_pool =
     \<lparr>plMem = (\<lambda>a. \<lparr>piName = (if a = 0 then ''a'' else if a = 1 then ''b'' else ''c''),
        piAddress = \<lparr>ipBytes = [CHR 0x0A, CHR 0x00, CHR 0x00, CHR 0x01], ipPortNum = 80 + int a\<rparr>,
        piIndex = (if a = 2 then 0 else a), piFailures = (if a = 2 then 1 else 0),
        piRetryTime = (if a = 2 then 1000 else 0)\<rparr>),
      plFresh = 3, plReady = [0, 1], plRetry = [2], plTimer = None\<rparr>"

lemma demo_pool_ok: "pool_ok demo_pool"
proof -
  have "i < 2 \<Longrightarrow> [0, 1] ! i = i" for i :: nat by (cases i) (auto simp: less_Suc_eq)
  then show ?thesis
    by (auto simp: demo_pool_def pool_ok_def ready_ok_def queue_ok_def names_ok_def pool_members_def
      indexed_def queue_heap_def is_heap_def retry_Len_def less_Suc_eq)
qed

section \<open>Updates\<close>

text \<open>
  C38: Whatever state the pool is in, \<open>UpdateInstances\<close> leaves it consistent: one entry for each
  name of the update and no other, each entry knowing its place, ready instances without and
  waiting ones with a retry time, a retry heap, and a timer set for the first retry. An entry is
  either an instance of the old pool with its address, failures and retry time or a fresh one
  with the update's address, and no wanted instance of a pool without duplicates is replaced.
\<close>

theorem pool_update_consistent:
  fixes now :: int
  assumes "ordering_ok ord" and "finite (dom insts)" and "\<forall>a \<in> pool_members p. a < plFresh p"
  shows "pool_ok (UpdateInstances ord now insts p) \<and> timer_ok now (UpdateInstances ord now insts p) \<and>
    member_names (UpdateInstances ord now insts p) = dom insts \<and>
    (\<forall>a \<in> pool_members (UpdateInstances ord now insts p). from_update insts p (UpdateInstances ord now insts p) a) \<and>
    (names_ok p \<longrightarrow> (\<forall>a \<in> pool_members p. piName (plMem p a) \<in> dom insts \<longrightarrow>
      a \<in> pool_members (UpdateInstances ord now insts p) \<and> same_fields p (UpdateInstances ord now insts p) a))"
  using UpdateInstances_ok [OF assms(1,2), of p] assms(3) by blast

theorem pool_update_consistent_witness:
  "pool_ok (UpdateInstances sorted_ordering 5 [''b'' \<mapsto> \<lparr>ipBytes = [], ipPortNum = 9\<rparr>] demo_pool) \<and>
   member_names (UpdateInstances sorted_ordering 5 [''b'' \<mapsto> \<lparr>ipBytes = [], ipPortNum = 9\<rparr>] demo_pool) = {''b''}"
  using pool_update_consistent [OF sorted_ordering_ok,
      of "[''b'' \<mapsto> \<lparr>ipBytes = [], ipPortNum = 9\<rparr>]" demo_pool 5]
  by (simp add: demo_pool_def pool_members_def)

text \<open>
  An instance that an update keeps under the same name but moves to another address stays in
  the pool with its old address.
\<close>

theorem pool_update_keeps_address:
  fixes now :: int
  assumes "ordering_ok ord" and "finite (dom insts)" and "pool_ok p"
    and "a \<in> pool_members p" and "insts (piName (plMem p a)) = Some addr" and "addr \<noteq> piAddress (plMem p a)"
  shows "a \<in> pool_members (UpdateInstances ord now insts p) \<and>
    piName (plMem (UpdateInstances ord now insts p) a) = piName (plMem p a) \<and>
    piAddress (plMem (UpdateInstances ord now insts p) a) \<noteq> addr"
proof -
  have "\<And>b. b \<in> pool_members p \<Longrightarrow> b < plFresh p"
    using assms(3) by (auto simp: pool_ok_def ready_ok_def queue_ok_def indexed_def pool_members_def in_set_conv_nth)
  from UpdateInstances_ok(5) [OF assms(1,2) this _ assms(4), of now] assms(3,5,6)
  show ?thesis by (auto simp: pool_ok_def same_fields_def)
qed

theorem pool_update_keeps_address_witness:
  "piAddress (plMem (UpdateInstances sorted_ordering 5 [''b'' \<mapsto> \<lparr>ipBytes = [], ipPortNum = 9\<rparr>] demo_pool) 1)
     \<noteq> \<lparr>ipBytes = [], ipPortNum = 9\<rparr>"
  using pool_update_keeps_address [OF sorted_ordering_ok _ demo_pool_ok,
      of "[''b'' \<mapsto> \<lparr>ipBytes = [], ipPortNum = 9\<rparr>]" 1 "\<lparr>ipBytes = [], ipPortNum = 9\<rparr>" 5]
  by (simp add: demo_pool_def pool_members_def)

section \<open>Successes and retries\<close>

text \<open>
  \<open>Succeeded\<close> does not panic on an instance of a consistent pool, keeps the pool consistent
  and its members, makes the instance ready with no failures and changes no other instance.
\<close>

theorem pool_succeeded:
  assumes "pool_ok p" and "a \<in> pool_members p"
  shows "\<exists>p'. pool_Succeeded now a p = Some p' \<and> pool_ok p' \<and> pool_members p' = pool_members p \<and>
    a \<in> set (plReady p') \<and> piFailures (plMem p' a) = 0 \<and>
    (\<forall>b. b \<noteq> a \<longrightarrow> piFailures (plMem p' b) = piFailures (plMem p b) \<and>
       piRetryTime (plMem p' b) = piRetryTime (plMem p b)) \<and>
    (\<forall>b. same_fields (set_retryTime a 0 (set_failures a 0 p)) p' b)"
proof -
  obtain p' where p': "pool_Succeeded now a p = Some p'" "pool_ok p'" "pool_members p' = pool_members p"
    "a \<in> set (plReady p')" "piFailures (plMem p' a) = 0"
    "\<And>b. b \<noteq> a \<Longrightarrow> piFailures (plMem p' b) = piFailures (plMem p b) \<and>
       piRetryTime (plMem p' b) = piRetryTime (plMem p b)"
    "\<And>b. piAddress (plMem p' b) = piAddress (plMem p b) \<and> piName (plMem p' b) = piName (plMem p b)"
    by (rule Succeeded_ok [OF assms]) blast
  moreover have "piRetryTime (plMem p' a) = 0" using p'(2,4) by (auto simp: pool_ok_def ready_ok_def)
  ultimately show ?thesis
    by (intro exI [of _ p']) (simp add: same_fields_def set_retryTime_def)
qed

theorem pool_succeeded_witness:
  "\<exists>p'. pool_Succeeded 50 2 demo_pool = Some p' \<and> pool_ok p' \<and> 2 \<in> set (plReady p')"
  using pool_succeeded [OF demo_pool_ok, of 2 50] by (auto simp: demo_pool_def pool_members_def)

text \<open>
  C39: \<open>processRetries\<close> ends, keeps the pool consistent and its members, makes ready exactly the
  waiting instances whose retry time has come, and sets the timer for the next one.
\<close>

theorem pool_retries:
  assumes "pool_ok p"
  shows "pool_ok (processRetries now p) \<and> timer_ok now (processRetries now p) \<and>
    pool_members (processRetries now p) = pool_members p \<and>
    set (plRetry (processRetries now p)) = {a \<in> set (plRetry p). now < piRetryTime (plMem p a)} \<and>
    (\<forall>a. piFailures (plMem (processRetries now p) a) = piFailures (plMem p a))"
proof -
  define q where "q = retry_loop now p"
  note r = retry_loop_ok [OF assms q_def]
  have e: "processRetries now p = resetTimer now q" by (simp add: processRetries_def q_def)
  have q: "queue_ok q" "ready_ok q" "names_ok q" using r by (auto simp: pool_ok_def)
  have "pool_ok (resetTimer now q)"
    using q queue_ok_congr [OF q(1), of "resetTimer now q"] ready_ok_congr [OF q(2), of "resetTimer now q"]
    by (simp add: pool_ok_def names_ok_def pool_members_def)
  moreover have "pool_members (resetTimer now q) = pool_members q" by (simp add: pool_members_def)
  ultimately show ?thesis using r resetTimer_ok [OF q(1)] by (simp add: e)
qed

theorem pool_retries_witness:
  "set (plRetry (processRetries 999 demo_pool)) = {2} \<and> set (plRetry (processRetries 1000 demo_pool)) = {}"
  using pool_retries [OF demo_pool_ok, of 999] pool_retries [OF demo_pool_ok, of 1000]
  by (auto simp: demo_pool_def)

text \<open>
  The delay before the retry doubles with each failure: after \<open>n\<close> earlier failures it is
  \<open>2 ^ n\<close> seconds, as long as \<open>n\<close> is at most 33; from 34 on the multiplication overflows and the
  delay is negative.
\<close>

theorem retry_delay_exact:
  "(\<forall>n \<le> 33. sint (retry_delay (word_of_nat n)) = 2 ^ n * 1000000000) \<and> sint (retry_delay 34) < 0"
proof (intro conjI allI impI)
  fix n :: nat assume n: "n \<le> 33"
  then have "(2::int) ^ n \<le> 2 ^ 33" by (intro power_increasing) auto
  then have b: "(2::int) ^ n * 1000000000 < 2 ^ 63" "0 \<le> (2::int) ^ n * 1000000000" by auto
  have "unat (word_of_nat n :: 64 word) = n" using n by (simp add: unat_of_nat take_bit_nat_eq_self)
  then have "retry_delay (word_of_nat n) = word_of_int (2 ^ n * 1000000000)"
    by (simp add: retry_delay_def retry_interval_base_def push_bit_eq_mult)
  moreover have "sint (word_of_int x :: 64 word) = x" if "x < 2 ^ 63" "0 \<le> x" for x
    using that by (simp add: sint_sbintrunc' signed_take_bit_int_eq_self)
  ultimately show "sint (retry_delay (word_of_nat n)) = 2 ^ n * 1000000000" using b by metis
next
  show "sint (retry_delay 34) < 0" by (simp add: retry_delay_def retry_interval_base_def)
qed

theorem retry_delay_exact_witness: "sint (retry_delay (word_of_nat 3)) = 8000000000"
  using retry_delay_exact [THEN conjunct1, rule_format, of 3] by simp

section \<open>Failures\<close>

text \<open>
  \<open>Failed\<close> on a ready instance of a consistent pool does not panic: it takes exactly that
  instance out of the ready list and into the retry queue, to be retried after the delay for its
  number of failures, which goes up by one; the queue stays a heap whose first retry sets the
  timer. The pool stays fully consistent when the instance is the last ready one.
\<close>

theorem pool_failed:
  assumes "pool_ok p" and "a \<in> set (plReady p)"
    and "now + sint (retry_delay (piFailures (plMem p a))) \<noteq> 0"
  shows "\<exists>p'. pool_Failed now now' a p = Some p' \<and> queue_ok p' \<and> timer_ok now' p' \<and>
    set (plReady p') = set (plReady p) - {a} \<and> set (plRetry p') = insert a (set (plRetry p)) \<and>
    piRetryTime (plMem p' a) = now + sint (retry_delay (piFailures (plMem p a))) \<and>
    piFailures (plMem p' a) = piFailures (plMem p a) + 1 \<and>
    (a = last (plReady p) \<longrightarrow> pool_ok p')"
proof -
  have rt: "piRetryTime (plMem p a) = 0" using assms(1,2) by (auto simp: pool_ok_def ready_ok_def)
  obtain p' where p': "pool_fail now now' a p = Some p'" "queue_ok p'" "timer_ok now' p'"
    "set (plReady p') = set (plReady p) - {a}" "set (plRetry p') = insert a (set (plRetry p))"
    "piRetryTime (plMem p' a) = now + sint (retry_delay (piFailures (plMem p a)))"
    "piFailures (plMem p' a) = piFailures (plMem p a) + 1"
    by (rule pool_fail_ok [OF assms, of now']) blast
  have "plReady p \<noteq> []" using assms(2) by auto
  then have "pool_ok p'" if "a = last (plReady p)"
    using pool_fail_last_ok [OF assms(1), of now now' p'] assms(3) p'(1) that by auto
  then show ?thesis using p' rt by (simp add: pool_Failed_def)
qed

theorem pool_failed_witness:
  "\<exists>p'. pool_Failed 7 8 0 demo_pool = Some p' \<and> set (plReady p') = {1} \<and> set (plRetry p') = {0, 2} \<and>
     piRetryTime (plMem p' 0) = 1000000007"
  using pool_failed [OF demo_pool_ok, of 0 7 8]
  by (auto simp: demo_pool_def retry_delay_def retry_interval_base_def)

text \<open>
  \<open>fail\<close> does not correct the index of the instance it moves. When any ready instance but the
  last fails, the last one has an index out of range, and its own failure, before an update sets
  the indices again, panics.
\<close>

theorem pool_fail_stale_index:
  assumes "pool_ok p" and "a \<in> set (plReady p)" and "a \<noteq> last (plReady p)"
    and "now + sint (retry_delay (piFailures (plMem p a))) \<noteq> 0"
  shows "\<exists>p'. pool_Failed now now' a p = Some p' \<and> last (plReady p) \<in> set (plReady p') \<and>
    pool_Failed t t' (last (plReady p)) p' = None"
proof -
  let ?b = "last (plReady p)"
  have ok: "ready_ok p" using assms(1) by (simp add: pool_ok_def)
  have ne: "plReady p \<noteq> []" using assms(2) by auto
  have rt: "piRetryTime (plMem p a) = 0" "piRetryTime (plMem p ?b) = 0"
    using ok assms(2) ne by (auto simp: ready_ok_def)
  obtain p' where p': "pool_fail now now' a p = Some p'" "set (plReady p') = set (plReady p) - {a}"
    "\<And>b. b \<in> set (plReady p') \<Longrightarrow> plMem p' b = plMem p b"
    "plReady p' = butlast ((plReady p)[piIndex (plMem p a) := ?b])"
    by (rule pool_fail_ok [OF assms(1,2,4), of now']) blast
  have b: "?b \<in> set (plReady p')" using ne assms(3) p'(2) by simp
  have "piIndex (plMem p ?b) = length (plReady p) - 1"
    using ok ne by (simp add: ready_ok_def indexed_def last_conv_nth)
  then have "pool_Failed t t' ?b p' = None"
    using rt(2) p'(4) p'(3) [OF b] by (simp add: pool_Failed_def pool_fail_def Let_def)
  then show ?thesis using p'(1) rt(1) b by (simp add: pool_Failed_def)
qed

theorem pool_fail_stale_index_witness:
  "\<exists>p'. pool_Failed 7 8 0 demo_pool = Some p' \<and> pool_Failed 9 10 1 p' = None"
  using pool_fail_stale_index [OF demo_pool_ok, of 0 7 8 9 10]
  by (auto simp: demo_pool_def retry_delay_def retry_interval_base_def)

section \<open>Picking an instance\<close>

text \<open>
  On a consistent pool \<open>PickInstance\<close> does not panic and returns an instance of the pool
  unless the pool is empty, a ready one if there is one. It keeps the pool as it is, except that
  a ready instance with failures goes back to the retry queue while it is tried.
\<close>

theorem pool_pick:
  assumes "pool_ok p" and "\<forall>n > 0. rnd n < n"
    and "\<forall>a \<in> set (plReady p). now + sint (retry_delay (piFailures (plMem p a))) \<noteq> 0"
  shows "\<exists>r p'. PickInstance rnd now now' p = Some (r, p') \<and> (r = None \<longleftrightarrow> pool_members p = {}) \<and>
    pool_members p' = pool_members p \<and>
    (\<forall>a. r = Some a \<longrightarrow> a \<in> pool_members p \<and> (plReady p \<noteq> [] \<longrightarrow> a \<in> set (plReady p)) \<and>
      (if plReady p \<noteq> [] \<and> piFailures (plMem p a) \<noteq> 0
       then a \<in> set (plRetry p') \<and> set (plReady p') = set (plReady p) - {a} else p' = p))"
  by (rule pool_pick_result [OF assms])

theorem pool_pick_witness:
  "\<exists>a p'. PickInstance (\<lambda>_. 0) 7 8 demo_pool = Some (Some a, p') \<and> pool_members p' = {0, 1, 2}"
proof -
  have m: "pool_members demo_pool = {0, 1, 2}" by (auto simp: demo_pool_def pool_members_def)
  have "\<forall>a \<in> set (plReady demo_pool). 7 + sint (retry_delay (piFailures (plMem demo_pool a))) \<noteq> 0"
    by (simp add: demo_pool_def retry_delay_def retry_interval_base_def)
  from pool_pick [OF demo_pool_ok _ this, of "\<lambda>_. 0" 8] show ?thesis by (auto simp: m)
qed

end
