(* ===== verification/Forwarder.thy ===== *)
theory Forwarder
  imports PoolProps
begin

text \<open>
  The forwarder of a service (\<open>balancer/forwarder/forwarder.go\<close>): the loop that connects an
  inbound connection to an instance, and the choice of the protocol shim. The network is an
  argument: for each attempt, whether the dial of an address succeeds, the clock and the random
  source, and what other connections and updates do to the shared pool before the pick and
  during the dial. \<open>None\<close> is a panic in the pool.
\<close>

section \<open>State\<close>

datatype shim = TcpShim | HttpShim

record forwarder =
  fwServiceName :: string
  fwPool :: pool
  fwProtocol :: string
  fwShim :: shim

record connection_event =
  ceServiceName :: string
  ceProtocol :: string
  ceInstanceName :: string
  ceInstanceAddr :: ipport

record attempt =
  atBefore :: "pool \<Rightarrow> pool"
  atDuring :: "pool \<Rightarrow> pool"
  atRnd :: "nat \<Rightarrow> nat"
  atClock :: "nat \<Rightarrow> int"
  atDial :: "ipport \<Rightarrow> bool"

text \<open>How \<open>forward\<close> ends: with the inbound connection left open, handed to a shim, or closed.\<close>

datatype forward_end =
    RanOutOfInstances
  | Forwarded connection_event shim
  | GaveUp

definition max_connection_attempts :: nat where
  "max_connection_attempts = 5"

definition new_forwarder :: "string \<Rightarrow> forwarder" where
  "new_forwarder name = \<lparr>fwServiceName = name, fwPool = NewInstancePool, fwProtocol = ''tcp'', fwShim = TcpShim\<rparr>"

section \<open>Forwarding a connection\<close>

text \<open>\<open>k\<close> attempts are left; the addresses dialled are the second part of the result.\<close>

fun forward_loop ::
  "(nat \<Rightarrow> attempt) \<Rightarrow> nat \<Rightarrow> forwarder \<Rightarrow> (forward_end \<times> ipport list \<times> forwarder) option" where
  "forward_loop env 0 fwd = Some (GaveUp, [], fwd)"
| "forward_loop env (Suc k) fwd =
     (let e = env k in
      case PickInstance (atRnd e) (atClock e 0) (atClock e 1) (atBefore e (fwPool fwd)) of
        None \<Rightarrow> None
      | Some (None, p) \<Rightarrow> Some (RanOutOfInstances, [], fwd\<lparr>fwPool := p\<rparr>)
      | Some (Some a, p) \<Rightarrow>
          let addr = piAddress (plMem p a); name = piName (plMem p a); p1 = atDuring e p in
          if \<not> atDial e addr then
            (case pool_Failed (atClock e 2) (atClock e 3) a p1 of
               None \<Rightarrow> None
             | Some p2 \<Rightarrow>
                 (case forward_loop env k (fwd\<lparr>fwPool := p2\<rparr>) of
                    None \<Rightarrow> None
                  | Some (r, dials, fwd') \<Rightarrow> Some (r, addr # dials, fwd')))
          else
            (case pool_Succeeded (atClock e 2) a p1 of
               None \<Rightarrow> None
             | Some p2 \<Rightarrow>
                 Some (Forwarded \<lparr>ceServiceName = fwServiceName fwd, ceProtocol = fwProtocol fwd,
                     ceInstanceName = name, ceInstanceAddr = addr\<rparr> (fwShim fwd),
                   [addr], fwd\<lparr>fwPool := p2\<rparr>)))"

definition forward ::
  "(nat \<Rightarrow> attempt) \<Rightarrow> forwarder \<Rightarrow> (forward_end \<times> ipport list \<times> forwarder) option" where
  "forward env fwd = forward_loop env max_connection_attempts fwd"

text \<open>The \<open>Connection\<close> events: \<open>forward\<close> reports one and so does \<open>httpShim\<close>.\<close>

definition connection_events :: "forward_end \<Rightarrow> connection_event list" where
  "connection_events r =
     (case r of
        Forwarded ev s \<Rightarrow> [ev] @ (case s of TcpShim \<Rightarrow> [] | HttpShim \<Rightarrow> [ev])
      | _ \<Rightarrow> [])"

definition inbound_closed :: "forward_end \<Rightarrow> bool" where
  "inbound_closed r \<longleftrightarrow> (case r of RanOutOfInstances \<Rightarrow> False | Forwarded _ _ \<Rightarrow> True | GaveUp \<Rightarrow> True)"

section \<open>Protocol and instances\<close>

definition shims :: "string \<rightharpoonup> shim" where
  "shims = [''tcp'' \<mapsto> TcpShim, ''http'' \<mapsto> HttpShim]"

definition SetProtocol :: "string \<Rightarrow> forwarder \<Rightarrow> forwarder" where
  "SetProtocol proto fwd =
     (case shims proto of
        None \<Rightarrow> fwd\<lparr>fwProtocol := ''tcp'', fwShim := TcpShim\<rparr>
      | Some s \<Rightarrow> fwd\<lparr>fwProtocol := proto, fwShim := s\<rparr>)"

definition SetForwarderInstances ::
  "string ordering \<Rightarrow> int \<Rightarrow> (string \<rightharpoonup> ipport) \<Rightarrow> forwarder \<Rightarrow> forwarder" where
  "SetForwarderInstances ord now insts fwd = fwd\<lparr>fwPool := UpdateInstances ord now insts (fwPool fwd)\<rparr>"

text \<open>A forwarder's pool follows the instances it is given.\<close>

lemma pool_ok_fresh: "pool_ok p \<Longrightarrow> a \<in> pool_members p \<Longrightarrow> a < plFresh p"
  by (auto simp: pool_ok_def ready_ok_def queue_ok_def indexed_def pool_members_def in_set_conv_nth)

lemma SetForwarderInstances_ok:
  assumes "ordering_ok ord" and "finite (dom insts)" and "pool_ok (fwPool fwd)"
  shows "pool_ok (fwPool (SetForwarderInstances ord now insts fwd))"
    and "member_names (fwPool (SetForwarderInstances ord now insts fwd)) = dom insts"
  using UpdateInstances_ok(1,2) [OF assms(1,2), of "fwPool fwd" now] pool_ok_fresh [OF assms(3)]
  by (simp_all add: SetForwarderInstances_def)

lemma SetProtocol_pool [simp]: "fwPool (SetProtocol p fwd) = fwPool fwd"
  by (simp add: SetProtocol_def split: option.split)

lemma new_forwarder_pool_ok [simp]: "pool_ok (fwPool (new_forwarder name))"
  by (simp add: new_forwarder_def NewInstancePool_def pool_ok_def ready_ok_def queue_ok_def indexed_def
      queue_heap_def retry_Len_def names_ok_def pool_members_def is_heap_def)

section \<open>Properties\<close>

text \<open>\<open>fails\<close>: the dials that fail; each attempt is numbered by the attempts left after it.\<close>

lemma forward_loop_dials:
  assumes "forward_loop env k fwd = Some (r, dials, fwd')"
  shows "length dials \<le> k \<and>
    (\<forall>i < length dials. atDial (env (k - Suc i)) (dials ! i) \<longleftrightarrow>
       (\<exists>ev s. r = Forwarded ev s) \<and> Suc i = length dials) \<and>
    (r = GaveUp \<longrightarrow> length dials = k) \<and>
    (\<forall>ev s. r = Forwarded ev s \<longrightarrow> dials \<noteq> [] \<and> ceInstanceAddr ev = last dials \<and>
       ceServiceName ev = fwServiceName fwd \<and> ceProtocol ev = fwProtocol fwd \<and> s = fwShim fwd)"
  using assms
proof (induction k arbitrary: fwd r dials fwd')
  case 0
  then show ?case by auto
next
  case (Suc k)
  let ?e = "env k"
  obtain o' p where pick: "PickInstance (atRnd ?e) (atClock ?e 0) (atClock ?e 1) (atBefore ?e (fwPool fwd)) = Some (o', p)"
    using Suc.prems by (fastforce simp: Let_def split: option.splits)
  show ?case
  proof (cases o')
    case None
    then show ?thesis using Suc.prems pick by auto
  next
    case (Some a)
    let ?addr = "piAddress (plMem p a)"
    show ?thesis
    proof (cases "atDial ?e ?addr")
      case True
      then show ?thesis using Suc.prems pick Some by (auto simp: Let_def split: option.splits)
    next
      case False
      then obtain p2 dials' where d: "forward_loop env k (fwd\<lparr>fwPool := p2\<rparr>) = Some (r, dials', fwd')"
        "dials = ?addr # dials'"
        using Suc.prems pick Some by (auto simp: Let_def split: option.splits prod.splits)
      note ih = Suc.IH [OF d(1)]
      have "atDial (env (Suc k - Suc i)) (dials ! i) \<longleftrightarrow> (\<exists>ev s. r = Forwarded ev s) \<and> Suc i = length dials"
        if "i < length dials" for i
      proof (cases i)
        case 0
        then show ?thesis using d(2) False ih by auto
      next
        case (Suc j)
        then have "j < length dials'" using that d(2) by simp
        then show ?thesis using Suc d(2) ih by auto
      qed
      then show ?thesis using ih d(2) by auto
    qed
  qed
qed

lemma delay_not_zero: "2 ^ 63 < now \<Longrightarrow> now + sint (w :: 64 word) \<noteq> 0"
  using sint_greater_eq [of w] by auto

lemma Succeeded_total:
  assumes "queue_ok p" and "piRetryTime (plMem p a) \<noteq> 0 \<Longrightarrow> a \<in> set (plRetry p)"
  shows "\<exists>p'. pool_Succeeded now a p = Some p'"
proof -
  have q: "queue_ok (set_failures a 0 p)"
    using assms(1) by (simp add: queue_ok_def queue_heap_def indexed_def retry_Len_def)
  show ?thesis
  proof (cases "piRetryTime (plMem p a) = 0")
    case False
    then have "a \<in> set (plRetry (set_failures a 0 p))" using assms(2) by simp
    from queue_Remove_ok [OF q this] obtain q'
      where "queue_Remove (piIndex (plMem (set_failures a 0 p) a)) (set_failures a 0 p) = Some q'" .
    then show ?thesis using False by (simp add: pool_Succeeded_def)
  qed (simp add: pool_Succeeded_def)
qed

text \<open>
  What an attempt needs of its environment: the pool it finds is consistent, nobody else works on
  it during the dial, the random source keeps its range, and the clock is past Go's year 293.
\<close>

definition attempt_ok :: "attempt \<Rightarrow> bool" where
  "attempt_ok e \<longleftrightarrow> (\<forall>p. pool_ok (atBefore e p) \<and> atDuring e p = p) \<and> (\<forall>n > 0. atRnd e n < n) \<and>
     (\<forall>i. 2 ^ 63 < atClock e i)"

lemma pick_then_report:
  assumes "pool_ok p" and "\<forall>n > 0. rnd n < n" and "2 ^ 63 < t1"
    and "PickInstance rnd t1 t2 p = Some (Some a, q)"
  shows "\<exists>q'. pool_Succeeded t3 a q = Some q'" and "2 ^ 63 < t3 \<Longrightarrow> \<exists>q'. pool_Failed t3 t4 a q = Some q'"
proof -
  consider (ready) "a \<in> set (plReady p)" "q = p" | (retry) "a \<in> set (plRetry p)" "q = p"
    | (failed) "a \<in> set (plReady p)" "pool_fail t1 t2 a p = Some q"
  proof (cases "plReady p = []")
    case True
    then have "plRetry p \<noteq> []" "a = plRetry p ! rnd (length (plRetry p))" "q = p"
      using assms(4) by (auto simp: PickInstance_def split: if_splits)
    moreover have "rnd (length (plRetry p)) < length (plRetry p)" using assms(2) calculation(1) by blast
    ultimately show ?thesis by (intro that(2)) simp_all
  next
    case False
    let ?b = "plReady p ! rnd (length (plReady p))"
    have "?b \<in> set (plReady p)" using assms(2) False by simp
    moreover have "a = ?b" "q = p \<or> pool_fail t1 t2 ?b p = Some q"
      using assms(4) False by (auto simp: PickInstance_def Let_def split: if_splits option.splits)
    ultimately show ?thesis using that(1,3) by metis
  qed
  note c = this
  have ok: "queue_ok p" "ready_ok p" using assms(1) by (auto simp: pool_ok_def)
  show "\<exists>q'. pool_Succeeded t3 a q = Some q'"
    using c
  proof cases
    case ready
    then show ?thesis using ok by (intro Succeeded_total) (auto simp: ready_ok_def)
  next
    case retry
    then show ?thesis using ok by (intro Succeeded_total) auto
  next
    case failed
    obtain r where "pool_fail t1 t2 a p = Some r" "queue_ok r" "set (plRetry r) = insert a (set (plRetry p))"
      by (rule pool_fail_ok [OF assms(1) failed(1) delay_not_zero [OF assms(3)], of t2]) blast
    then show ?thesis using failed(2) by (intro Succeeded_total) auto
  qed
  show "\<exists>q'. pool_Failed t3 t4 a q = Some q'" if t3: "2 ^ 63 < t3"
    using c
  proof cases
    case ready
    obtain r where r: "pool_fail t3 t4 a p = Some r"
      by (rule pool_fail_ok [OF assms(1) ready(1) delay_not_zero [OF t3], of t4]) iprover
    show ?thesis unfolding ready(2) pool_Failed_def r by simp
  next
    case retry
    then show ?thesis using ok by (simp add: pool_Failed_def queue_ok_def)
  next
    case failed
    obtain r where "pool_fail t1 t2 a p = Some r" "queue_ok r" "set (plRetry r) = insert a (set (plRetry p))"
      by (rule pool_fail_ok [OF assms(1) failed(1) delay_not_zero [OF assms(3)], of t2]) blast
    then have "piRetryTime (plMem q a) \<noteq> 0" using failed(2) by (simp add: queue_ok_def)
    then show ?thesis by (simp add: pool_Failed_def)
  qed
qed

lemma forward_loop_total:
  assumes "\<And>i. attempt_ok (env i)"
  shows "\<exists>r dials fwd'. forward_loop env k fwd = Some (r, dials, fwd')"
proof (induction k arbitrary: fwd)
  case (Suc k)
  let ?e = "env k" and ?p = "atBefore (env k) (fwPool fwd)"
  have e: "pool_ok ?p" "\<And>p. atDuring ?e p = p" "\<forall>n > 0. atRnd ?e n < n" "\<And>i. 2 ^ 63 < atClock ?e i"
    using assms [of k] by (auto simp: attempt_ok_def)
  have "\<forall>a \<in> set (plReady ?p). atClock ?e 0 + sint (retry_delay (piFailures (plMem ?p a))) \<noteq> 0"
    using delay_not_zero [OF e(4)] by blast
  from pool_pick_result [OF e(1,3) this] obtain o' p
    where pick: "PickInstance (atRnd ?e) (atClock ?e 0) (atClock ?e 1) ?p = Some (o', p)" by blast
  show ?case
  proof (cases o')
    case None
    then show ?thesis using pick by simp
  next
    case (Some a)
    note t = pick_then_report [OF e(1,3,4) pick [unfolded Some]]
    obtain p2 where s: "pool_Succeeded (atClock ?e 2) a p = Some p2" using t(1) by blast
    obtain p3 where f: "pool_Failed (atClock ?e 2) (atClock ?e 3) a p = Some p3" using t(2) e(4) by blast
    from Suc.IH [of "fwd\<lparr>fwPool := p3\<rparr>"] show ?thesis
      using pick Some s f e(2) by (auto simp: Let_def)
  qed
qed simp


definition demo_attempt :: attempt where
  "demo_attempt = \<lparr>atBefore = (\<lambda>_. demo_pool), atDuring = id, atRnd = (\<lambda>_. 0), atClock = (\<lambda>_. 2 ^ 64),
     atDial = (\<lambda>addr. ipPortNum addr = 80)\<rparr>"


end
