(* ===== verification/NetUtil.thy ===== *)
theory NetUtil
  imports GoNet
begin

text \<open>
  The textual forms of addresses: \<open>net.IP.String\<close> with its zero compression, \<open>JoinHostPort\<close>,
  \<open>SplitHostPort\<close>, and \<open>IPPort.String\<close>, \<open>ParseIPPort\<close>, \<open>SplitHostPort\<close> and
  \<open>NormalizeHostPort\<close> of \<open>common/netutil/netutil.go\<close>. The round trip through text is what the
  stored form of every address relies on. Names of ports (as \<open>http\<close>) are looked up by the
  system: the lookup is an argument. A failed parse is \<open>None\<close>.
\<close>

section \<open>Printing addresses\<close>

definition hex_char :: "nat \<Rightarrow> char" where
  "hex_char d = (if d < 10 then digit_char d else char_of (87 + d))"

fun nat_to_hex :: "nat \<Rightarrow> string" where
  "nat_to_hex n = (if n < 16 then [hex_char n] else nat_to_hex (n div 16) @ [hex_char (n mod 16)])"

declare nat_to_hex.simps [simp del]

text \<open>The 16-bit groups of an address.\<close>

fun ip_groups :: "string \<Rightarrow> nat list" where
  "ip_groups (a # b # r) = (of_char a * 256 + of_char b) # ip_groups r"
| "ip_groups _ = []"

fun group_bytes :: "nat list \<Rightarrow> string" where
  "group_bytes [] = []"
| "group_bytes (g # gs) = char_of (g div 256) # char_of (g mod 256) # group_bytes gs"

text \<open>The length of the run of zero groups at a position, and the first longest run.\<close>

definition zero_run :: "nat list \<Rightarrow> nat \<Rightarrow> nat" where
  "zero_run gs i = length (takeWhile (\<lambda>g. g = 0) (drop i gs))"

definition longest_run :: "nat list \<Rightarrow> nat \<times> nat" where
  "longest_run gs =
     foldl (\<lambda>(e, n) i. if zero_run gs i > n then (i, zero_run gs i) else (e, n)) (0, 0) [0..<length gs]"

definition ipv6_string :: "ip \<Rightarrow> string" where
  "ipv6_string a =
     (let gs = ip_groups a; (e, n) = longest_run gs; hex = joinWith CHR '':'' \<circ> List.map nat_to_hex
      in if n \<le> 1 then hex gs
         else hex (take e gs) @ CHR '':'' # CHR '':'' # hex (drop (e + n) gs))"

definition ip_String :: "ip \<Rightarrow> string" where
  "ip_String a =
     (if a = [] then ''<nil>''
      else case to4 a of Some b \<Rightarrow> ipv4_string b
        | None \<Rightarrow> if length a \<noteq> 16 then ''?'' else ipv6_string a)"

definition ip_IsUnspecified :: "ip \<Rightarrow> bool" where
  "ip_IsUnspecified a \<longleftrightarrow>
     ip_equal a (v4InV6Prefix @ replicate 4 (char_of (0::nat))) \<or> ip_equal a (replicate 16 (char_of (0::nat)))"

section \<open>host:port\<close>

definition joinHostPort :: "string \<Rightarrow> string \<Rightarrow> string" where
  "joinHostPort host port =
     (if CHR '':'' \<in> set host \<or> CHR ''%'' \<in> set host
      then CHR ''['' # host @ CHR '']'' # CHR '':'' # port
      else host @ CHR '':'' # port)"

definition splitHostPort :: "string \<Rightarrow> (string \<times> string) option" where
  "splitHostPort hp =
     (let i = lastIndex CHR '':'' hp in
      if i < 0 then None
      else if hd hp = CHR ''['' then
        (if CHR '']'' \<notin> set hp then None
         else let e = length (takeWhile (\<lambda>c. c \<noteq> CHR '']'') hp) in
           if int e + 1 \<noteq> i then None
           else if CHR ''['' \<in> set (drop 1 hp) \<or> CHR '']'' \<in> set (drop (e + 1) hp) then None
           else Some (take (e - 1) (drop 1 hp), drop (e + 2) hp))
      else let host = take (nat i) hp in
        if CHR '':'' \<in> set host \<or> CHR ''%'' \<in> set host \<or> CHR ''['' \<in> set hp \<or> CHR '']'' \<in> set hp
        then None
        else Some (host, drop (nat i + 1) hp))"

text \<open>
  \<open>net.LookupPort\<close>: a number, or a name that the system knows for the network (\<open>names\<close>).
\<close>

definition lookupPort :: "(string \<Rightarrow> string \<Rightarrow> int option) \<Rightarrow> string \<Rightarrow> string \<Rightarrow> int option" where
  "lookupPort names network service =
     (let p = (case dtoi service of
                 Some (n, []) \<Rightarrow> Some (int n)
               | _ \<Rightarrow> names network service)
      in case p of None \<Rightarrow> None | Some n \<Rightarrow> if n < 0 \<or> n > 65535 then None else Some n)"

section \<open>IPPort as text\<close>

definition ipport_String :: "ipport \<Rightarrow> string" where
  "ipport_String p =
     (let ipStr = (if length (ipBytes p) \<noteq> 0 \<and> \<not> ip_IsUnspecified (ipBytes p)
                   then ip_String (ipBytes p) else [])
      in joinHostPort ipStr (itoa (ipPortNum p)))"

text \<open>A nil \<open>net.IP\<close> and the empty one are the same string, hence the same \<open>IPPort\<close>.\<close>

definition ParseIPPort :: "(string \<Rightarrow> string \<Rightarrow> int option) \<Rightarrow> string \<Rightarrow> ipport option" where
  "ParseIPPort names addrPort =
     do {
       (addr, port) \<leftarrow> splitHostPort addrPort;
       a \<leftarrow> (if addr \<noteq> [] then parseIP addr else Some []);
       portNum \<leftarrow> lookupPort names [] port;
       Some (newIPPort a portNum)
     }"

definition ipport_MarshalText :: "ipport \<Rightarrow> string" where
  "ipport_MarshalText p = ipport_String p"

definition ipport_UnmarshalText :: "(string \<Rightarrow> string \<Rightarrow> int option) \<Rightarrow> string \<Rightarrow> ipport option" where
  "ipport_UnmarshalText names t = ParseIPPort names t"

definition SplitHostPort ::
  "(string \<Rightarrow> string \<Rightarrow> int option) \<Rightarrow> string \<Rightarrow> string \<Rightarrow> bool \<Rightarrow> (string \<times> int) option" where
  "SplitHostPort names hostPort network emptyHostOk =
     do {
       (host, port) \<leftarrow> splitHostPort hostPort;
       (if host = [] then (if emptyHostOk then Some () else None)
        else if hd host = CHR '':'' \<or> is_digit (hd host) then
          (if parseIP host = None then None else Some ())
        else Some ());
       portNum \<leftarrow> lookupPort names network port;
       Some (host, portNum)
     }"

definition NormalizeHostPort ::
  "(string \<Rightarrow> string \<Rightarrow> int option) \<Rightarrow> string \<Rightarrow> string \<Rightarrow> bool \<Rightarrow> string option" where
  "NormalizeHostPort names hostPort network emptyHostOk =
     do {
       (host, portNum) \<leftarrow> SplitHostPort names hostPort network emptyHostOk;
       Some (host @ CHR '':'' # itoa portNum)
     }"

section \<open>Hexadecimal groups\<close>

lemma of_char_hex_char: "d < 16 \<Longrightarrow> (of_char (hex_char d) :: nat) = (if d < 10 then 48 + d else 87 + d)"
  by (simp add: hex_char_def digit_char_def)

lemma is_hex_char [simp]: "d < 16 \<Longrightarrow> is_hex (hex_char d)"
  by (auto simp: is_hex_def is_digit_def of_char_hex_char)

lemma hex_val_char [simp]: "d < 16 \<Longrightarrow> hex_val (hex_char d) = d"
  by (auto simp: hex_val_def is_digit_def digit_val_def of_char_hex_char)

lemma nat_to_hex_ne [simp]: "nat_to_hex n \<noteq> []"
  by (subst nat_to_hex.simps) simp

lemma nat_to_hex_chars: "c \<in> set (nat_to_hex n) \<Longrightarrow> is_hex c"
proof (induction n rule: nat_to_hex.induct)
  case (1 n)
  then show ?case by (subst (asm) (2) nat_to_hex.simps) (auto split: if_splits)
qed

lemma hd_nat_to_hex: "is_hex (hd (nat_to_hex n))"
  by (rule nat_to_hex_chars [of _ n]) simp

lemma hex_num_append: "hex_num acc (xs @ ys) = hex_num (hex_num acc xs) ys"
  by (induction xs arbitrary: acc) auto

lemma hex_num_nat_to_hex: "hex_num 0 (nat_to_hex n) = n"
proof (induction n rule: nat_to_hex.induct)
  case (1 n)
  then show ?case by (subst nat_to_hex.simps) (auto simp: hex_num_append)
qed

lemma not_hex [simp]: "\<not> is_hex CHR '':''" "\<not> is_hex CHR ''.''" "\<not> is_hex CHR ''%''"
  "\<not> is_hex CHR ''[''" "\<not> is_hex CHR '']''"
  by (simp_all add: is_hex_def is_digit_def)

lemma xtoi_hex:
  assumes "n < 65536" and "r = [] \<or> \<not> is_hex (hd r)"
  shows "xtoi (nat_to_hex n @ r) = Some (n, r)"
proof -
  have d: "\<forall>c \<in> set (nat_to_hex n). is_hex c" using nat_to_hex_chars by blast
  have "takeWhile is_hex (nat_to_hex n @ r) = nat_to_hex n"
    using assms(2) d by (cases r) (auto simp: takeWhile_append)
  moreover have "dropWhile is_hex (nat_to_hex n @ r) = r"
    using assms(2) d by (cases r) (auto simp: dropWhile_append)
  ultimately show ?thesis using assms(1) by (simp add: xtoi_def hex_num_nat_to_hex)
qed

abbreviation (input) hex_groups :: "nat list \<Rightarrow> string" where
  "hex_groups gs \<equiv> joinWith CHR '':'' (List.map nat_to_hex gs)"

lemma hex_groups_Cons:
  "hex_groups (g # gs) = nat_to_hex g @ (if gs = [] then [] else CHR '':'' # hex_groups gs)"
  by (cases gs) auto

lemma hex_groups_Nil_iff [simp]: "hex_groups gs = [] \<longleftrightarrow> gs = []"
  by (cases gs) (simp_all add: hex_groups_Cons del: joinWith.simps(3) list.map(2))

lemma hex_groups_chars: "c \<in> set (hex_groups gs) \<Longrightarrow> is_hex c \<or> c = CHR '':''"
proof (induction gs)
  case (Cons g gs)
  then show ?case using nat_to_hex_chars
    by (auto simp: hex_groups_Cons simp del: joinWith.simps(3) list.map(2) split: if_splits)
qed simp

lemma hd_hex_groups: "gs \<noteq> [] \<Longrightarrow> is_hex (hd (hex_groups gs @ r))"
  by (cases gs) (auto simp: hex_groups_Cons hd_nat_to_hex simp del: joinWith.simps(3) list.map(2))

text \<open>Reading back groups, without and with an ellipsis behind them.\<close>

lemma length_group_bytes [simp]: "length (group_bytes gs) = 2 * length gs"
  by (induction gs) auto

lemma group_bytes_append: "group_bytes (a @ b) = group_bytes a @ group_bytes b"
  by (induction a) auto

lemma group_bytes_zeros: "group_bytes (replicate n 0) = replicate (2 * n) (char_of (0::nat))"
  by (induction n) auto

lemma group_bytes_groups: "even (length a) \<Longrightarrow> group_bytes (ip_groups a) = a"
proof (induction a rule: ip_groups.induct)
  case (1 a b r)
  have "(of_char a * 256 + of_char b) div 256 = (of_char a :: nat)" using byte_lt [of b] by simp
  moreover have "(of_char a * 256 + of_char b) mod 256 = (of_char b :: nat)" using byte_lt [of b] by simp
  ultimately show ?case using 1 by simp
qed auto

lemma length_ip_groups: "length (ip_groups a) = length a div 2"
  by (induction a rule: ip_groups.induct) auto

lemma ip_groups_bound: "g \<in> set (ip_groups a) \<Longrightarrow> g < 65536"
proof (induction a rule: ip_groups.induct)
  case (1 a b r)
  have "of_char a * 256 + of_char b < (65536::nat)" using byte_lt [of a] byte_lt [of b] by linarith
  then show ?case using 1 by auto
qed auto

lemma parse_groups:
  assumes "gs \<noteq> []" and "length gs \<le> k" and "\<forall>g \<in> set gs. g < 65536"
  shows "parseIPv6_loop k (hex_groups gs) out ell = Some ([], out @ group_bytes gs, ell)"
  using assms
proof (induction gs arbitrary: k out)
  case (Cons g gs)
  then obtain j where k: "k = Suc j" by (cases k) auto
  let ?r = "if gs = [] then [] else CHR '':'' # hex_groups gs"
  have x: "xtoi (nat_to_hex g @ ?r) = Some (g, ?r)" using Cons.prems(3) by (intro xtoi_hex) auto
  show ?case
  proof (cases "gs = []")
    case True
    then show ?thesis using x Cons.prems(3) k by simp
  next
    case False
    then have "hd (hex_groups gs) \<noteq> CHR '':''" using hd_hex_groups [of gs "[]"] by auto
    moreover have "parseIPv6_loop j (hex_groups gs) (out @ [char_of (g div 256), char_of (g mod 256)]) ell
        = Some ([], (out @ [char_of (g div 256), char_of (g mod 256)]) @ group_bytes gs, ell)"
      using Cons False k by (intro Cons.IH) auto
    moreover have "hex_groups gs \<noteq> []" using False by simp
    ultimately show ?thesis using x Cons.prems(3) k False
      by (simp add: hex_groups_Cons Let_def del: joinWith.simps list.map(2) hex_groups_Nil_iff)
  qed
qed simp

lemma parse_groups_ellipsis:
  assumes "gs \<noteq> []" and "length gs + length hs \<le> k" and "\<forall>g \<in> set gs \<union> set hs. g < 65536"
  shows "parseIPv6_loop k (hex_groups gs @ CHR '':'' # CHR '':'' # hex_groups hs) out None
    = Some ([], out @ group_bytes gs @ group_bytes hs, Some (length out + 2 * length gs))"
  using assms
proof (induction gs arbitrary: k out)
  case (Cons g gs)
  then obtain j where k: "k = Suc j" by (cases k) auto
  let ?e = "CHR '':'' # CHR '':'' # hex_groups hs"
  let ?r = "if gs = [] then ?e else CHR '':'' # hex_groups gs @ ?e"
  let ?out = "out @ [char_of (g div 256), char_of (g mod 256)]"
  have x: "xtoi (nat_to_hex g @ ?r) = Some (g, ?r)" using Cons.prems(3) by (intro xtoi_hex) auto
  show ?case
  proof (cases "gs = []")
    case True
    show ?thesis
    proof (cases "hs = []")
      case True
      then show ?thesis using x Cons.prems(3) k \<open>gs = []\<close> by simp
    next
      case False
      then have "parseIPv6_loop j (hex_groups hs) ?out (Some (length ?out))
        = Some ([], ?out @ group_bytes hs, Some (length ?out))"
        using Cons.prems k True by (intro parse_groups) auto
      moreover have "hex_groups hs \<noteq> []" using False by simp
      ultimately show ?thesis using x Cons.prems(3) k True
        by (simp add: Let_def del: hex_groups_Nil_iff)
    qed
  next
    case False
    then have h: "hd (hex_groups gs @ ?e) \<noteq> CHR '':''" using hd_hex_groups [of gs ?e] by auto
    have "parseIPv6_loop j (hex_groups gs @ ?e) ?out None
        = Some ([], ?out @ group_bytes gs @ group_bytes hs, Some (length ?out + 2 * length gs))"
      using Cons False k by (intro Cons.IH) auto
    then show ?thesis using x Cons.prems(3) k False h
      by (simp add: hex_groups_Cons Let_def del: joinWith.simps list.map(2) hex_groups_Nil_iff)
  qed
qed simp

lemma longest_run_zeros:
  assumes "longest_run gs = (e, n)"
  shows "gs = take e gs @ replicate n 0 @ drop (e + n) gs"
proof -
  let ?f = "\<lambda>(e, n) i. if zero_run gs i > n then (i, zero_run gs i) else (e, n)"
  have inv: "case foldl ?f x is of (e, n) \<Rightarrow> n = 0 \<or> zero_run gs e = n"
    if "case x of (e, n) \<Rightarrow> n = 0 \<or> zero_run gs e = n" for x "is"
    using that
  proof (induction "is" arbitrary: x)
    case (Cons i "is")
    have "case ?f x i of (e, n) \<Rightarrow> n = 0 \<or> zero_run gs e = n" using Cons.prems by (cases x) auto
    then show ?case using Cons.IH by simp
  qed simp
  have "n = 0 \<or> zero_run gs e = n"
    using inv [of "(0, 0)" "[0..<length gs]"] assms by (simp add: longest_run_def)
  then show ?thesis
  proof
    assume "zero_run gs e = n"
    then have "takeWhile (\<lambda>g. g = 0) (drop e gs) = replicate n 0"
      unfolding zero_run_def by (metis (mono_tags, lifting) replicate_eqI set_takeWhileD)
    moreover have "drop (e + n) gs = dropWhile (\<lambda>g. g = 0) (drop e gs)"
      using \<open>zero_run gs e = n\<close> by (simp add: zero_run_def dropWhile_eq_drop add.commute)
    ultimately show ?thesis by (metis append_take_drop_id takeWhile_dropWhile_id)
  qed simp
qed

section \<open>The round trip\<close>

lemma parseIPv6_string:
  assumes "length a = 16"
  shows "parseIPv6 (ipv6_string a) = Some a"
proof -
  let ?gs = "ip_groups a"
  obtain e n where en: "longest_run ?gs = (e, n)" by fastforce
  have len: "length ?gs = 8" using assms by (simp add: length_ip_groups)
  have b: "\<forall>g \<in> set ?gs. g < 65536" using ip_groups_bound by blast
  have bytes: "group_bytes ?gs = a" using assms group_bytes_groups by simp
  have ne: "?gs \<noteq> []" using len by auto
  show ?thesis
  proof (cases "n \<le> 1")
    case True
    have "hd (hex_groups ?gs) \<noteq> CHR '':''" using hd_hex_groups [OF ne, of "[]"] by auto
    then have "\<not> (hex_groups ?gs) ! 0 = CHR '':''" using ne by (simp add: hd_conv_nth [symmetric])
    moreover have "parseIPv6_loop 8 (hex_groups ?gs) [] None = Some ([], group_bytes ?gs, None)"
      using parse_groups [OF ne _ b, of 8 "[]"] len by simp
    ultimately show ?thesis using True en bytes assms
      by (simp add: ipv6_string_def parseIPv6_def parseIPv6_expand_def comp_def)
  next
    case False
    let ?l = "take e ?gs" and ?h = "drop (e + n) ?gs"
    have split: "?gs = ?l @ replicate n 0 @ ?h" by (rule longest_run_zeros [OF en])
    then have n: "length ?l + n + length ?h = 8" using len by (metis add.assoc length_append length_replicate)
    have el: "\<forall>g \<in> set ?l \<union> set ?h. g < 65536" using b by (auto dest: in_set_takeD in_set_dropD)
    have a: "a = group_bytes ?l @ replicate (2 * n) (char_of (0::nat)) @ group_bytes ?h"
      using bytes split by (metis group_bytes_append group_bytes_zeros)
    have s: "ipv6_string a = hex_groups ?l @ CHR '':'' # CHR '':'' # hex_groups ?h"
      using False en by (simp add: ipv6_string_def comp_def Let_def)
    define l where "l = ?l"
    define h where "h = ?h"
    have expand: "parseIPv6_expand ([], group_bytes l @ group_bytes h, Some (2 * length l)) = Some a"
    proof -
      have "2 * length l + 2 * length h < 16" using n False by (simp add: l_def h_def)
      moreover have "16 - (2 * length l + 2 * length h) = 2 * n" using n by (simp add: l_def h_def)
      ultimately show ?thesis using a by (simp add: parseIPv6_expand_def l_def [symmetric] h_def [symmetric])
    qed
    show ?thesis
    proof (cases "l = []")
      case True
      show ?thesis
      proof (cases "h = []")
        case h: True
        then have "n = 8" using n True by (simp add: l_def [symmetric] h_def [symmetric])
        then have "a = replicate 16 (char_of (0::nat))"
          using a [folded l_def h_def] True h by simp
        moreover have "ipv6_string a = ''::''" using s [folded l_def h_def] True h by simp
        ultimately show ?thesis by (simp add: parseIPv6_def)
      next
        case h: False
        have "parseIPv6_loop 8 (hex_groups h) [] (Some 0) = Some ([], [] @ group_bytes h, Some 0)"
          by (rule parse_groups) (use h n el in \<open>auto simp: h_def\<close>)
        moreover have "\<not> length (hex_groups h) = 0" using h by simp
        ultimately show ?thesis using s True expand
          by (simp add: l_def [symmetric] h_def [symmetric] parseIPv6_def del: hex_groups_Nil_iff)
      qed
    next
      case False
      let ?s = "hex_groups l @ CHR '':'' # CHR '':'' # hex_groups h"
      have "hd ?s \<noteq> CHR '':''" using hd_hex_groups [OF False, of "CHR '':'' # CHR '':'' # hex_groups h"] by force
      then have "?s ! 0 \<noteq> CHR '':''" by (metis Nil_is_append_conv hd_conv_nth list.discI)
      moreover have "parseIPv6_loop 8 ?s [] None = Some ([], [] @ group_bytes l @ group_bytes h, Some (length ([]::string) + 2 * length l))"
        by (rule parse_groups_ellipsis) (use False n el in \<open>auto simp: h_def l_def\<close>)
      ultimately show ?thesis using s expand
        by (simp add: l_def [symmetric] h_def [symmetric] parseIPv6_def)
    qed
  qed
qed

lemma parseIP_scan_colon:
  "CHR '':'' \<in> set t \<Longrightarrow> CHR ''.'' \<notin> set t \<Longrightarrow> parseIP_scan s t = parseIPv6 s"
  by (induction t) auto

lemma ipv6_string_chars: "c \<in> set (ipv6_string a) \<Longrightarrow> is_hex c \<or> c = CHR '':''"
  by (auto simp: ipv6_string_def Let_def split: prod.splits if_splits dest: hex_groups_chars)

lemma ipv6_string_colon: "length a = 16 \<Longrightarrow> CHR '':'' \<in> set (ipv6_string a)"
  using length_ip_groups [of a]
  by (cases "(ip_groups a)" rule: remdups_adj.cases)
    (auto simp: ipv6_string_def Let_def case_prod_beta)

lemma parseIP_String:
  assumes "length a = 16"
  shows "parseIP (ip_String a) = Some a"
proof (cases "to4 a")
  case None
  have "CHR ''.'' \<notin> set (ipv6_string a)" using ipv6_string_chars by fastforce
  then have "parseIP (ipv6_string a) = Some a"
    using assms parseIPv6_string ipv6_string_colon by (simp add: parseIP_def parseIP_scan_colon)
  then show ?thesis using None assms by (auto simp: ip_String_def)
next
  case (Some b)
  then have "length b = 4" "a = v4InV6Prefix @ b"
    using assms by (auto simp: to4_def split: if_splits) (metis append_take_drop_id)
  then show ?thesis using Some assms parseIP_ipv4_string [of b] by (auto simp: ip_String_def)
qed

lemma ip_String_chars:
  assumes "length a = 16"
  shows "CHR ''['' \<notin> set (ip_String a)" "CHR '']'' \<notin> set (ip_String a)" "CHR ''%'' \<notin> set (ip_String a)"
    "ip_String a \<noteq> []"
proof -
  have d: "\<not> is_digit CHR ''%''" by (simp add: is_digit_def)
  have "c \<noteq> CHR ''['' \<and> c \<noteq> CHR '']'' \<and> c \<noteq> CHR ''%''" if "c \<in> set (ip_String a)" for c
    using that assms d
    by (auto simp: ip_String_def ipv4_string_def split: option.splits if_splits dest: nat_to_dec_chars ipv6_string_chars)
  then show "CHR ''['' \<notin> set (ip_String a)" "CHR '']'' \<notin> set (ip_String a)" "CHR ''%'' \<notin> set (ip_String a)"
    by blast+
  show "ip_String a \<noteq> []" using assms ipv6_string_colon [OF assms]
    by (auto simp: ip_String_def ipv4_string_def split: option.splits)
qed

lemma splitHostPort_join:
  assumes "CHR ''['' \<notin> set host" "CHR '']'' \<notin> set host" "CHR ''%'' \<notin> set host"
    and "CHR '':'' \<notin> set port" "CHR ''['' \<notin> set port" "CHR '']'' \<notin> set port"
  shows "splitHostPort (joinHostPort host port) = Some (host, port)"
proof (cases "CHR '':'' \<in> set host")
  case True
  let ?hp = "CHR ''['' # host @ CHR '']'' # CHR '':'' # port"
  have j: "joinHostPort host port = ?hp" using True by (simp add: joinHostPort_def)
  have i: "lastIndex CHR '':'' ?hp = int (length host) + 2"
    using lastIndex_sep [OF assms(4), of "CHR ''['' # host @ [CHR '']'']"] by simp
  have e: "takeWhile (\<lambda>c. c \<noteq> CHR '']'') ?hp = CHR ''['' # host"
  proof -
    have "takeWhile (\<lambda>c. c \<noteq> CHR '']'') (host @ CHR '']'' # CHR '':'' # port) = host"
      using assms(2) by (induction host) auto
    then show ?thesis by simp
  qed
  show ?thesis unfolding j splitHostPort_def i Let_def e using assms by simp
next
  case False
  let ?hp = "host @ CHR '':'' # port"
  have j: "joinHostPort host port = ?hp" using False assms(3) by (simp add: joinHostPort_def)
  have i: "lastIndex CHR '':'' ?hp = int (length host)" by (rule lastIndex_sep [OF assms(4)])
  have h: "hd ?hp \<noteq> CHR ''[''" using assms(1) by (cases host) auto
  show ?thesis unfolding j splitHostPort_def i Let_def using assms False h by simp
qed

lemma lookupPort_itoa:
  assumes "0 \<le> n" and "n \<le> 65535"
  shows "lookupPort names network (itoa n) = Some n"
  using assms dtoi_dec [of "nat n" "[]"] by (simp add: lookupPort_def itoa_def)

lemma itoa_chars: "0 \<le> n \<Longrightarrow> c \<in> set (itoa n) \<Longrightarrow> is_digit c"
  by (auto simp: itoa_def dest: nat_to_dec_chars)

text \<open>The length of an address decides how its text reads back.\<close>

lemma ParseIPPort_String:
  assumes "length (ipBytes p) = 16" and "0 \<le> ipPortNum p" and "ipPortNum p \<le> 65535"
  shows "ParseIPPort names (ipport_String p)
    = Some (if ip_IsUnspecified (ipBytes p) then newIPPort [] (ipPortNum p) else p)"
proof -
  have d: "CHR '':'' \<notin> set (itoa (ipPortNum p))" "CHR ''['' \<notin> set (itoa (ipPortNum p))"
    "CHR '']'' \<notin> set (itoa (ipPortNum p))"
    using itoa_chars [OF assms(2)] by fastforce+
  note s = ip_String_chars [OF assms(1)]
  have "splitHostPort (joinHostPort (ip_String (ipBytes p)) (itoa (ipPortNum p)))
      = Some (ip_String (ipBytes p), itoa (ipPortNum p))"
    by (rule splitHostPort_join) (use s d in auto)
  moreover have "splitHostPort (joinHostPort [] (itoa (ipPortNum p))) = Some ([], itoa (ipPortNum p))"
    by (rule splitHostPort_join) (use d in auto)
  ultimately show ?thesis
    using assms s(4) by (auto simp: ParseIPPort_def ipport_String_def lookupPort_itoa parseIP_String newIPPort_def)
qed

lemma v4_not_zero: "v4InV6Prefix @ b \<noteq> replicate 16 (char_of (0::nat))"
proof
  assume "v4InV6Prefix @ b = replicate 16 (char_of (0::nat))"
  then have "(v4InV6Prefix @ b) ! 11 = replicate 16 (char_of (0::nat)) ! 11" by simp
  then have "char_of (255::nat) = char_of (0::nat)" by (simp add: nth_append v4InV6Prefix_def)
  then have "(of_char (char_of (255::nat)) :: nat) = of_char (char_of (0::nat))" by simp
  then show False by simp
qed

lemma IsUnspecified_v4:
  assumes "length b = 4"
  shows "ip_IsUnspecified b \<longleftrightarrow> b = replicate 4 (char_of (0::nat))"
    and "ip_IsUnspecified (v4InV6Prefix @ b) \<longleftrightarrow> b = replicate 4 (char_of (0::nat))"
  using assms by (simp_all add: ip_IsUnspecified_def ip_equal_iff_norm ip_norm_def v4_not_zero)

lemma hd_not_unspecified:
  assumes "length a = 16" and "of_char (hd a) \<noteq> (0::nat)"
  shows "\<not> ip_IsUnspecified a"
  using assms by (auto simp: ip_IsUnspecified_def ip_equal_def v4InV6Prefix_def)

text \<open>
  C37: Writing an \<open>IPPort\<close> as text and reading it back gives the same value, for every 16-byte
  address, IPv4 or IPv6 with its zero compression, that is not the unspecified one, and every
  port a TCP address can have, whatever port names the system knows.
\<close>

theorem ipport_text_roundtrip:
  assumes "length (ipBytes p) = 16" and "\<not> ip_IsUnspecified (ipBytes p)"
    and "0 \<le> ipPortNum p" and "ipPortNum p \<le> 65535"
  shows "ipport_UnmarshalText names (ipport_MarshalText p) = Some p"
  using ParseIPPort_String assms by (simp add: ipport_UnmarshalText_def ipport_MarshalText_def)

definition demo_ipv6 :: ip where
  "demo_ipv6 = List.map char_of [32, 1, 13, 184, 0, 0, 0, 0, 0, 1, 0, 0, 0, 0, 0, 10 :: nat]"

theorem ipport_text_roundtrip_witness:
  "ipport_UnmarshalText (\<lambda>_ _. None) (ipport_MarshalText (newIPPort demo_ipv6 80)) = Some (newIPPort demo_ipv6 80)
     \<and> longest_run (ip_groups demo_ipv6) = (2, 2)"
proof -
  have "of_char (hd demo_ipv6) = (32::nat)" by (simp add: demo_ipv6_def)
  then have "\<not> ip_IsUnspecified demo_ipv6"
    by (intro hd_not_unspecified) (simp_all add: demo_ipv6_def)
  moreover have "length demo_ipv6 = 16" by (simp add: demo_ipv6_def)
  moreover have "longest_run (ip_groups demo_ipv6) = (2, 2)"
    by (simp add: demo_ipv6_def longest_run_def zero_run_def upt_rec)
  ultimately show ?thesis
    using ipport_text_roundtrip [of "newIPPort demo_ipv6 80" "\<lambda>_ _. None"] by (simp add: newIPPort_def)
qed

text \<open>
  The 4-byte form of an IPv4 address does not survive: it reads back as the 16-byte form,
  which is the same address for \<open>net.IP\<close> but a different \<open>IPPort\<close>, as its \<open>Equal\<close>
  compares bytes. An unspecified address reads back as no address at all.
\<close>

theorem ipport_text_form:
  assumes "length b = 4" and "0 \<le> n" and "n \<le> 65535"
  shows "ipport_UnmarshalText names (ipport_MarshalText (newIPPort b n))
      = Some (newIPPort (if b = replicate 4 (char_of (0::nat)) then [] else v4InV6Prefix @ b) n) \<and>
    \<not> ipport_Equal (newIPPort b n) (newIPPort (v4InV6Prefix @ b) n) \<and>
    ip_equal b (v4InV6Prefix @ b)"
proof -
  let ?p = "newIPPort (v4InV6Prefix @ b) n"
  note z = IsUnspecified_v4 [OF assms(1)]
  have "ip_String b = ip_String (v4InV6Prefix @ b)"
    using assms(1) by (auto simp: ip_String_def to4_def)
  then have "ipport_String (newIPPort b n) = ipport_String ?p"
    using assms(1) z by (simp add: ipport_String_def newIPPort_def)
  then have "ipport_UnmarshalText names (ipport_MarshalText (newIPPort b n))
      = Some (newIPPort (if b = replicate 4 (char_of (0::nat)) then [] else v4InV6Prefix @ b) n)"
    using ParseIPPort_String [of ?p names] assms z
    by (auto simp: ipport_UnmarshalText_def ipport_MarshalText_def newIPPort_def)
  moreover have "\<not> ipport_Equal (newIPPort b n) ?p"
    using assms(1) by (auto simp: ipport_Equal_def newIPPort_def v4InV6Prefix_def dest: arg_cong [of _ _ length])
  moreover have "ip_equal b (v4InV6Prefix @ b)" using assms(1) by (simp add: ip_equal_def)
  ultimately show ?thesis by blast
qed

theorem ipport_text_form_witness:
  "ipport_UnmarshalText (\<lambda>_ _. None) (ipport_MarshalText (newIPPort (List.map char_of [10, 0, 0, 1 :: nat]) 80))
     = Some (newIPPort (v4InV6Prefix @ List.map char_of [10, 0, 0, 1 :: nat]) 80)"
proof -
  have "of_char (hd (List.map char_of [10, 0, 0, 1 :: nat])) = (10::nat)" by simp
  moreover have "of_char (hd (replicate 4 (char_of (0::nat)))) = (0::nat)" by simp
  ultimately have "List.map char_of [10, 0, 0, 1 :: nat] \<noteq> replicate 4 (char_of (0::nat))"
    by (metis zero_neq_numeral)
  then show ?thesis
    using ipport_text_form [of "List.map char_of [10, 0, 0, 1 :: nat]" 80 "\<lambda>_ _. None"] by simp
qed

end
