(* ===== verification/IPTables.thy ===== *)
theory IPTables
  imports NetUtil
begin

text \<open>
  The management of the iptables chain of the balancer (\<open>balancer/iptables.go\<close>). The iptables
  program is an argument: a function from its command line and the state of the kernel tables to
  its output, its exit status and the new state. The contract of that program, as its manual
  states it, is the locale \<open>iptables_contract\<close>; the repository's own stand-in
  (\<open>balancer/mock_iptables_test.go\<close>) is an instance. A loop that never returns is \<open>None\<close>.
\<close>

section \<open>Commands and errors\<close>

datatype cmd_error = NoError | ExitError bool | OtherError string

type_synonym 'k iptables_cmd = "string list \<Rightarrow> 'k \<Rightarrow> (string \<times> cmd_error) \<times> 'k"

datatype ipt_error = IpTablesError string string | CmdError string

text \<open>The values that rules are made of; \<open>flatten\<close> prints each with \<open>fmt.Sprint\<close>.\<close>

datatype ipt_arg = Str string | IPArg ip | IntArg int | TCPAddrArg ip int | Args "ipt_arg list"

fun sprint :: "ipt_arg \<Rightarrow> string" where
  "sprint (Str s) = s"
| "sprint (IPArg a) = ip_String a"
| "sprint (IntArg n) = itoa n"
| "sprint (TCPAddrArg a n) = joinHostPort (if a = [] then [] else ip_String a) (itoa n)"
| "sprint (Args as) = []"

fun flatten :: "ipt_arg list \<Rightarrow> string list \<Rightarrow> string list" where
  "flatten [] onto = onto"
| "flatten (Args as # rest) onto = flatten rest (flatten as onto)"
| "flatten (a # rest) onto = flatten rest (onto @ [sprint a])"

text \<open>\<open>unicode.IsControl\<close>, for output whose characters are code points below 256.\<close>

definition isControl :: "char \<Rightarrow> bool" where
  "isControl c \<longleftrightarrow> (of_char c :: nat) < 32 \<or> (127 \<le> (of_char c :: nat) \<and> (of_char c :: nat) < 160)"

fun sanitize_loop :: "nat \<Rightarrow> string \<Rightarrow> string" where
  "sanitize_loop limit [] = []"
| "sanitize_loop limit (c # cs) =
     (if limit = 0 then sanitize_loop limit cs
      else (if isControl c then CHR '' '' else c) # sanitize_loop (limit - 1) cs)"

definition sanitizeIPTablesOutput :: "string \<Rightarrow> string" where
  "sanitizeIPTablesOutput output = sanitize_loop 200 output"

definition doIPTables :: "'k iptables_cmd \<Rightarrow> ipt_arg list \<Rightarrow> 'k \<Rightarrow> ipt_error option \<times> 'k" where
  "doIPTables cmd args k =
     (let flatArgs = flatten args []; ((output, err), k') = cmd flatArgs k in
      case err of
        NoError \<Rightarrow> (None, k')
      | ExitError success \<Rightarrow>
          (if \<not> success
           then (Some (IpTablesError (joinWith CHR '' '' flatArgs) (sanitizeIPTablesOutput output)), k')
           else (None, k'))
      | OtherError e \<Rightarrow> (Some (CmdError e), k'))"

definition doIPTablesRelaxed ::
  "'k iptables_cmd \<Rightarrow> ipt_arg list \<Rightarrow> 'k \<Rightarrow> (bool \<times> ipt_error option) \<times> 'k" where
  "doIPTablesRelaxed cmd args k =
     (case doIPTables cmd args k of
        (Some (IpTablesError _ _), k') \<Rightarrow> ((False, None), k')
      | (Some e, k') \<Rightarrow> ((False, Some e), k')
      | (None, k') \<Rightarrow> ((True, None), k'))"

section \<open>Chains\<close>

record net_config =
  ncChain :: string
  ncBridge :: string

record ip_tables = net_config +
  natChainSetup :: bool
  filterChainSetup :: bool

definition newIPTables :: "net_config \<Rightarrow> ip_tables" where
  "newIPTables nc = \<lparr>ncChain = ncChain nc, ncBridge = ncBridge nc,
     natChainSetup = False, filterChainSetup = False\<rparr>"

definition chainRule :: "'a net_config_scheme \<Rightarrow> ipt_arg list" where
  "chainRule nc = [Str ''-j'', Str (ncChain nc)]"

definition oldChainRule :: "'a net_config_scheme \<Rightarrow> ipt_arg list" where
  "oldChainRule nc = [Str ''-i'', Str (ncBridge nc), Str ''-j'', Str (ncChain nc)]"

definition frobRule ::
  "'k iptables_cmd \<Rightarrow> 'a net_config_scheme \<Rightarrow> string \<Rightarrow> string \<Rightarrow> ipt_arg list \<Rightarrow> 'k \<Rightarrow> ipt_error option \<times> 'k" where
  "frobRule cmd nc table op args k =
     doIPTables cmd [Str ''-t'', Str table, Str op, Str (ncChain nc), Args args] k"

definition addRule ::
  "'k iptables_cmd \<Rightarrow> 'a net_config_scheme \<Rightarrow> string \<Rightarrow> ipt_arg list \<Rightarrow> 'k \<Rightarrow> ipt_error option \<times> 'k" where
  "addRule cmd nc table args k = frobRule cmd nc table ''-A'' args k"

definition deleteRule ::
  "'k iptables_cmd \<Rightarrow> 'a net_config_scheme \<Rightarrow> string \<Rightarrow> ipt_arg list \<Rightarrow> 'k \<Rightarrow> ipt_error option \<times> 'k" where
  "deleteRule cmd nc table args k = frobRule cmd nc table ''-D'' args k"

partial_function (option) deleteChainRule ::
  "'k iptables_cmd \<Rightarrow> string \<Rightarrow> string \<Rightarrow> ipt_arg list \<Rightarrow> 'k \<Rightarrow> (ipt_error option \<times> 'k) option" where
  "deleteChainRule cmd table hookChain rule k =
     (case doIPTablesRelaxed cmd [Str ''-t'', Str table, Str ''-D'', Str hookChain, Args rule] k of
        ((ok, err), k') \<Rightarrow>
          if \<not> ok \<or> err \<noteq> None then Some (err, k')
          else deleteChainRule cmd table hookChain rule k')"

fun unhookChains ::
  "'k iptables_cmd \<Rightarrow> 'a net_config_scheme \<Rightarrow> string \<Rightarrow> string list \<Rightarrow> 'k \<Rightarrow> (ipt_error option \<times> 'k) option" where
  "unhookChains cmd nc table [] k = Some (None, k)"
| "unhookChains cmd nc table (hookChain # hs) k =
     (case deleteChainRule cmd table hookChain (chainRule nc) k of
        None \<Rightarrow> None
      | Some (Some e, k1) \<Rightarrow> Some (Some e, k1)
      | Some (None, k1) \<Rightarrow>
          (case deleteChainRule cmd table hookChain (oldChainRule nc) k1 of
             None \<Rightarrow> None
           | Some (Some e, k2) \<Rightarrow> Some (Some e, k2)
           | Some (None, k2) \<Rightarrow> unhookChains cmd nc table hs k2))"

text \<open>An error of the flush other than a failed exit is ignored: the deletion goes on.\<close>

definition deleteChain ::
  "'k iptables_cmd \<Rightarrow> 'a net_config_scheme \<Rightarrow> string \<Rightarrow> string list \<Rightarrow> 'k \<Rightarrow> (ipt_error option \<times> 'k) option" where
  "deleteChain cmd nc table hookChains k =
     (case doIPTablesRelaxed cmd [Str ''-t'', Str table, Str ''-F'', Str (ncChain nc)] k of
        ((ok, err), k1) \<Rightarrow>
          if err = None \<and> \<not> ok then Some (None, k1)
          else
            (case unhookChains cmd nc table hookChains k1 of
               None \<Rightarrow> None
             | Some (Some e, k2) \<Rightarrow> Some (Some e, k2)
             | Some (None, k2) \<Rightarrow>
                 Some (doIPTables cmd [Str ''-t'', Str table, Str ''-X'', Str (ncChain nc)] k2)))"

fun hookChains ::
  "'k iptables_cmd \<Rightarrow> 'a net_config_scheme \<Rightarrow> string \<Rightarrow> string list \<Rightarrow> 'k \<Rightarrow> ipt_error option \<times> 'k" where
  "hookChains cmd nc table [] k = (None, k)"
| "hookChains cmd nc table (h # hs) k =
     (case doIPTables cmd [Str ''-t'', Str table, Str ''-I'', Str h, Args (chainRule nc)] k of
        (Some e, k1) \<Rightarrow> (Some e, k1)
      | (None, k1) \<Rightarrow> hookChains cmd nc table hs k1)"

definition setupChain ::
  "'k iptables_cmd \<Rightarrow> 'a net_config_scheme \<Rightarrow> string \<Rightarrow> string list \<Rightarrow> 'k \<Rightarrow> (ipt_error option \<times> 'k) option" where
  "setupChain cmd nc table hooks k =
     (case deleteChain cmd nc table hooks k of
        None \<Rightarrow> None
      | Some (Some e, k1) \<Rightarrow> Some (Some e, k1)
      | Some (None, k1) \<Rightarrow>
          (case doIPTables cmd [Str ''-t'', Str table, Str ''-N'', Str (ncChain nc)] k1 of
             (Some e, k2) \<Rightarrow> Some (Some e, k2)
           | (None, k2) \<Rightarrow> Some (hookChains cmd nc table hooks k2)))"

definition ipt_start ::
  "'k iptables_cmd \<Rightarrow> ip_tables \<Rightarrow> 'k \<Rightarrow> (ipt_error option \<times> ip_tables \<times> 'k) option" where
  "ipt_start cmd ipt k =
     (case setupChain cmd ipt ''nat'' [''PREROUTING'', ''OUTPUT''] k of
        None \<Rightarrow> None
      | Some (Some e, k1) \<Rightarrow> Some (Some e, ipt, k1)
      | Some (None, k1) \<Rightarrow>
          (let ipt1 = ipt\<lparr>natChainSetup := True\<rparr> in
           case setupChain cmd ipt1 ''filter'' [''FORWARD'', ''INPUT''] k1 of
             None \<Rightarrow> None
           | Some (Some e, k2) \<Rightarrow> Some (Some e, ipt1, k2)
           | Some (None, k2) \<Rightarrow> Some (None, ipt1\<lparr>filterChainSetup := True\<rparr>, k2)))"

text \<open>The errors of the deletions are only logged.\<close>

definition ipt_stop :: "'k iptables_cmd \<Rightarrow> ip_tables \<Rightarrow> 'k \<Rightarrow> (ip_tables \<times> 'k) option" where
  "ipt_stop cmd ipt k =
     do {
       (ipt1, k1) \<leftarrow>
         (if natChainSetup ipt then
            map_option (\<lambda>r. (ipt\<lparr>natChainSetup := False\<rparr>, snd r))
              (deleteChain cmd ipt ''nat'' [''PREROUTING''] k)
          else Some (ipt, k));
       (if filterChainSetup ipt1 then
          map_option (\<lambda>r. (ipt1\<lparr>filterChainSetup := False\<rparr>, snd r))
            (deleteChain cmd ipt1 ''filter'' [''FORWARD'', ''INPUT''] k1)
        else Some (ipt1, k1))
     }"

section \<open>The contract of iptables\<close>

text \<open>
  The tables as \<open>iptables -S\<close> shows them: the rules of each chain of each table, a rule being
  its arguments. \<open>accepts\<close> says which rules a table takes, given the chains there are.
\<close>

type_synonym chain_map = "(string \<times> string) \<rightharpoonup> string list list"

definition cmd_ok :: "'k iptables_cmd \<Rightarrow> ('k \<Rightarrow> chain_map) \<Rightarrow> string list \<Rightarrow> 'k \<Rightarrow> chain_map \<Rightarrow> bool" where
  "cmd_ok cmd tabs args k C \<longleftrightarrow> (case cmd args k of ((output, e), k') \<Rightarrow> e = NoError \<and> tabs k' = C)"

definition cmd_fails :: "'k iptables_cmd \<Rightarrow> ('k \<Rightarrow> chain_map) \<Rightarrow> string list \<Rightarrow> 'k \<Rightarrow> bool" where
  "cmd_fails cmd tabs args k \<longleftrightarrow>
     (case cmd args k of ((output, e), k') \<Rightarrow> e = ExitError False \<and> tabs k' = tabs k)"

text \<open>A rule jumps to a chain when it has \<open>-j\<close> followed by its name.\<close>

definition jumps_to :: "string \<Rightarrow> string list \<Rightarrow> bool" where
  "jumps_to c r \<longleftrightarrow> (''-j'', c) \<in> set (zip r (tl r))"

definition referenced :: "chain_map \<Rightarrow> string \<Rightarrow> string \<Rightarrow> bool" where
  "referenced C t c \<longleftrightarrow> (\<exists>c' rs r. C (t, c') = Some rs \<and> r \<in> set rs \<and> jumps_to c r)"

definition ipt_tables :: "string set" where
  "ipt_tables = {''nat'', ''filter''}"

locale iptables_contract =
  fixes cmd :: "'k iptables_cmd" and tabs :: "'k \<Rightarrow> chain_map"
    and accepts :: "string \<Rightarrow> string list \<Rightarrow> chain_map \<Rightarrow> bool"
  assumes new_chain: "t \<in> ipt_tables \<Longrightarrow> tabs k (t, c) = None \<Longrightarrow>
      cmd_ok cmd tabs [''-t'', t, ''-N'', c] k ((tabs k)((t, c) \<mapsto> []))"
    and new_exists: "t \<in> ipt_tables \<Longrightarrow> tabs k (t, c) = Some rs \<Longrightarrow>
      cmd_fails cmd tabs [''-t'', t, ''-N'', c] k"
    and no_chain: "t \<in> ipt_tables \<Longrightarrow> tabs k (t, c) = None \<Longrightarrow> op \<in> {''-F'', ''-X'', ''-I'', ''-A'', ''-D''} \<Longrightarrow>
      cmd_fails cmd tabs ([''-t'', t, op, c] @ r) k"
    and flush: "t \<in> ipt_tables \<Longrightarrow> tabs k (t, c) = Some rs \<Longrightarrow>
      cmd_ok cmd tabs [''-t'', t, ''-F'', c] k ((tabs k)((t, c) \<mapsto> []))"
    and append_rule: "t \<in> ipt_tables \<Longrightarrow> tabs k (t, c) = Some rs \<Longrightarrow> accepts t r (tabs k) \<Longrightarrow>
      cmd_ok cmd tabs ([''-t'', t, ''-A'', c] @ r) k ((tabs k)((t, c) \<mapsto> rs @ [r]))"
    and insert_rule: "t \<in> ipt_tables \<Longrightarrow> tabs k (t, c) = Some rs \<Longrightarrow> accepts t r (tabs k) \<Longrightarrow>
      cmd_ok cmd tabs ([''-t'', t, ''-I'', c] @ r) k ((tabs k)((t, c) \<mapsto> r # rs))"
    and bad_rule: "t \<in> ipt_tables \<Longrightarrow> op \<in> {''-A'', ''-I''} \<Longrightarrow> \<not> accepts t r (tabs k) \<Longrightarrow>
      cmd_fails cmd tabs ([''-t'', t, op, c] @ r) k"
    and delete_rule: "t \<in> ipt_tables \<Longrightarrow> tabs k (t, c) = Some rs \<Longrightarrow> r \<in> set rs \<Longrightarrow>
      cmd_ok cmd tabs ([''-t'', t, ''-D'', c] @ r) k ((tabs k)((t, c) \<mapsto> remove1 r rs))"
    and no_rule: "t \<in> ipt_tables \<Longrightarrow> tabs k (t, c) = Some rs \<Longrightarrow> r \<notin> set rs \<Longrightarrow>
      cmd_fails cmd tabs ([''-t'', t, ''-D'', c] @ r) k"
    and drop_chain: "t \<in> ipt_tables \<Longrightarrow> tabs k (t, c) = Some [] \<Longrightarrow> \<not> referenced (tabs k) t c \<Longrightarrow>
      cmd_ok cmd tabs [''-t'', t, ''-X'', c] k ((tabs k)((t, c) := None))"
    and drop_other: "t \<in> ipt_tables \<Longrightarrow> tabs k (t, c) = Some rs \<Longrightarrow>
      cmd_ok cmd tabs [''-t'', t, ''-X'', c] k ((tabs k)((t, c) := None)) \<or>
      cmd_fails cmd tabs [''-t'', t, ''-X'', c] k"

section \<open>The stand-in of the tests\<close>

text \<open>
  \<open>mockIPTables\<close>: its map has a key \<open>table chain\<close> for each chain. A violated \<open>require\<close> ends the
  test; it is shown as an error of the command.
\<close>

type_synonym mock_state = "string \<rightharpoonup> string list list"

definition mock_error :: "string list \<Rightarrow> string \<times> cmd_error" where
  "mock_error msg = (CHR ''['' # joinWith CHR '' '' msg @ '']'', ExitError False)"

definition mock_key :: "string list \<Rightarrow> string" where
  "mock_key args = args ! 1 @ CHR '' '' # args ! 3"

definition mock_cmd :: "mock_state iptables_cmd" where
  "mock_cmd args m =
     (if length args < 4 \<or> args ! 0 \<noteq> ''-t'' then (([], OtherError ''test failed''), m)
      else let op = args ! 2; k = mock_key args; rest = drop 4 args in
        if length op \<noteq> 2 \<or> op ! 0 \<noteq> CHR ''-'' \<or> op ! 1 \<notin> set ''NXFIAD'' then (mock_error [''Unknown option '', op], m)
        else if op = ''-N'' then
          (if m k \<noteq> None then (mock_error [''iptables: Chain already exists.''], m)
           else if rest \<noteq> [] then (mock_error [''Bad argument '', rest ! 0, ''''], m)
           else (([], NoError), m(k \<mapsto> [])))
        else
          (case m k of
             None \<Rightarrow> (mock_error [''iptables: No chain/target/match by that name.''], m)
           | Some rs \<Rightarrow>
               if op = ''-X'' then
                 (if rest \<noteq> [] then (mock_error [''Bad argument '', rest ! 0, ''''], m)
                  else (([], NoError), m(k := None)))
               else if op = ''-F'' then
                 (if rest \<noteq> [] then (mock_error [''Bad argument '', rest ! 0, ''''], m)
                  else (([], NoError), m(k \<mapsto> [])))
               else if op = ''-I'' then (([], NoError), m(k \<mapsto> rest # rs))
               else if op = ''-A'' then (([], NoError), m(k \<mapsto> rs @ [rest]))
               else if rest \<in> set rs then (([], NoError), m(k \<mapsto> remove1 rest rs))
               else (mock_error [''iptables: Bad rule (does a matching rule exist in that chain?).''], m)))"

definition mock_chains :: "mock_state \<Rightarrow> chain_map" where
  "mock_chains m = (\<lambda>(t, c). if t \<in> ipt_tables then m (t @ CHR '' '' # c) else None)"

definition newMockIPTables :: mock_state where
  "newMockIPTables = [''nat PREROUTING'' \<mapsto> [], ''nat OUTPUT'' \<mapsto> [], ''filter FORWARD'' \<mapsto> [], ''filter INPUT'' \<mapsto> []]"

lemma mock_key_inj:
  "t \<in> ipt_tables \<Longrightarrow> t' \<in> ipt_tables \<Longrightarrow>
     t @ CHR '' '' # c = t' @ CHR '' '' # c' \<longleftrightarrow> t = t' \<and> c = c'"
  by (auto simp: ipt_tables_def)

lemma mock_chains_upd:
  "t \<in> ipt_tables \<Longrightarrow> mock_chains (m(t @ CHR '' '' # c := v)) = (mock_chains m)((t, c) := v)"
  by (rule ext) (auto simp: mock_chains_def mock_key_inj split: if_splits)

lemma mock_chains_at: "t \<in> ipt_tables \<Longrightarrow> mock_chains m (t, c) = m (t @ CHR '' '' # c)"
  by (simp add: mock_chains_def)

interpretation mock: iptables_contract mock_cmd mock_chains "\<lambda>_ _ _. True"
  by unfold_locales
    (auto simp: cmd_ok_def cmd_fails_def mock_cmd_def mock_key_def mock_error_def mock_chains_upd mock_chains_at)

section \<open>What the operations do to the tables\<close>

lemma flatten_onto: "flatten as onto = onto @ flatten as []"
proof (induction as arbitrary: onto rule: measure_induct_rule [of "size_list size"])
  case (less as)
  show ?case
  proof (cases as)
    case (Cons a rest)
    have rest: "flatten rest xs = xs @ flatten rest []" for xs
      by (rule less) (simp add: Cons)
    show ?thesis
    proof (cases a)
      case (Args bs)
      have "flatten bs xs = xs @ flatten bs []" for xs
        by (rule less) (simp add: Cons Args)
      then have "flatten rest (flatten bs onto) = onto @ flatten rest (flatten bs [])"
        by (metis append.assoc rest)
      then show ?thesis using Cons Args by simp
    next
      case (Str s)
      show ?thesis using Cons Str rest [of "onto @ [s]"] rest [of "[s]"] by simp
    next
      case (IPArg s)
      show ?thesis using Cons IPArg rest [of "onto @ [sprint a]"] rest [of "[sprint a]"] by simp
    next
      case (IntArg s)
      show ?thesis using Cons IntArg rest [of "onto @ [sprint a]"] rest [of "[sprint a]"] by simp
    next
      case (TCPAddrArg b n)
      show ?thesis using Cons TCPAddrArg rest [of "onto @ [sprint a]"] rest [of "[sprint a]"] by simp
    qed
  qed simp
qed

lemma flatten_Cons [simp]: "flatten (Args as # rest) onto = onto @ flatten as [] @ flatten rest []"
  by (metis append.assoc flatten.simps(2) flatten_onto)

lemma flatten_Str [simp]: "flatten (Str s # rest) onto = onto @ s # flatten rest []"
  using flatten_onto [of rest "onto @ [s]"] by simp

end
