(* ===== verification/IPTablesCorrect.thy ===== *)
theory IPTablesCorrect
  imports IPTables
begin

text \<open>
  Correctness of the chain management: what deleting, setting up, starting and stopping do to
  the tables of an iptables that keeps its contract.
\<close>

section \<open>What the operations mean for the tables\<close>

definition unhook :: "'a net_config_scheme \<Rightarrow> string list list \<Rightarrow> string list list" where
  "unhook nc rs =
     filter (\<lambda>r. r \<noteq> flatten (chainRule nc) [] \<and> r \<noteq> flatten (oldChainRule nc) []) rs"

definition unhooked :: "'a net_config_scheme \<Rightarrow> string \<Rightarrow> string list \<Rightarrow> chain_map \<Rightarrow> chain_map" where
  "unhooked nc t hooks C =
     (\<lambda>(t', c). if t' = t \<and> c \<in> set hooks then map_option (unhook nc) (C (t', c)) else C (t', c))"

text \<open>The tables after a set-up: an empty chain, hooked exactly once at the head of each hook.\<close>

definition set_up :: "'a net_config_scheme \<Rightarrow> string \<Rightarrow> string list \<Rightarrow> chain_map \<Rightarrow> chain_map" where
  "set_up nc t hooks C =
     (\<lambda>(t', c). if t' = t \<and> c = ncChain nc then Some []
        else if t' = t \<and> c \<in> set hooks
        then map_option (\<lambda>rs. flatten (chainRule nc) [] # unhook nc rs) (C (t', c))
        else C (t', c))"

text \<open>
  What a set-up needs: the hook chains exist, only rules of the hook chains with one of the two
  forms the program makes jump to the chain (none when there is no chain), and a jump to an
  existing chain is accepted.
\<close>

definition ours_only :: "'a net_config_scheme \<Rightarrow> string \<Rightarrow> string list \<Rightarrow> chain_map \<Rightarrow> bool" where
  "ours_only nc t hooks C \<longleftrightarrow>
     (\<forall>c rs r. C (t, c) = Some rs \<longrightarrow> r \<in> set rs \<longrightarrow> jumps_to (ncChain nc) r \<longrightarrow>
        C (t, ncChain nc) \<noteq> None \<and>
        (c = ncChain nc \<or> c \<in> set hooks \<and> r \<notin> set (unhook nc [r])))"

definition setup_ready ::
  "(string \<Rightarrow> string list \<Rightarrow> chain_map \<Rightarrow> bool) \<Rightarrow> 'a net_config_scheme \<Rightarrow> string \<Rightarrow> string list \<Rightarrow> chain_map \<Rightarrow> bool" where
  "setup_ready accepts nc t hooks C \<longleftrightarrow>
     t \<in> ipt_tables \<and> distinct hooks \<and> ncChain nc \<notin> set hooks \<and> (\<forall>h \<in> set hooks. C (t, h) \<noteq> None) \<and>
     (\<forall>D. D (t, ncChain nc) \<noteq> None \<longrightarrow> accepts t (flatten (chainRule nc) []) D) \<and> ours_only nc t hooks C"

lemma jumps_chainRule [simp]: "jumps_to (ncChain nc) (flatten (chainRule nc) [])"
  by (simp add: jumps_to_def chainRule_def)

lemma jumps_oldChainRule [simp]: "jumps_to (ncChain nc) (flatten (oldChainRule nc) [])"
  by (simp add: jumps_to_def oldChainRule_def)

lemma unhook_Nil [simp]: "unhook nc [] = []"
  by (simp add: unhook_def)

lemma in_unhookD: "r \<in> set (unhook nc rs) \<Longrightarrow> r \<in> set rs \<and> r \<in> set (unhook nc [r])"
  by (auto simp: unhook_def)

lemma unhook_idem [simp]: "unhook nc (unhook nc rs) = unhook nc rs"
  by (simp add: unhook_def)

lemma unhook_hook [simp]: "unhook nc (flatten (chainRule nc) [] # rs) = unhook nc rs"
  by (simp add: unhook_def)

lemma unhook_removeAll:
  "unhook nc rs = removeAll (flatten (oldChainRule nc) []) (removeAll (flatten (chainRule nc) []) rs)"
  by (induction rs) (auto simp: unhook_def)

lemma flat_rule:
  "flatten [Str ''-t'', Str t, Str op, Str c, Args rule] [] = [''-t'', t, op, c] @ flatten rule []"
  by (simp add: flatten_onto [of rule "[''-t'', t, op, c]"])

section \<open>The steps\<close>

context iptables_contract begin

lemma do_ok:
  assumes "cmd_ok cmd tabs (flatten args []) k C"
  shows "\<exists>k'. doIPTables cmd args k = (None, k') \<and> tabs k' = C"
  using assms by (auto simp: doIPTables_def cmd_ok_def split: prod.splits)

lemma do_fails:
  assumes "cmd_fails cmd tabs (flatten args []) k"
  shows "\<exists>c p k'. doIPTables cmd args k = (Some (IpTablesError c p), k') \<and> tabs k' = tabs k"
  using assms by (auto simp: doIPTables_def cmd_fails_def Let_def split: prod.splits)

lemma relaxed_ok:
  assumes "cmd_ok cmd tabs (flatten args []) k C"
  shows "\<exists>k'. doIPTablesRelaxed cmd args k = ((True, None), k') \<and> tabs k' = C"
  using do_ok [OF assms] by (auto simp: doIPTablesRelaxed_def)

lemma relaxed_fails:
  assumes "cmd_fails cmd tabs (flatten args []) k"
  shows "\<exists>k'. doIPTablesRelaxed cmd args k = ((False, None), k') \<and> tabs k' = tabs k"
  using do_fails [OF assms] by (auto simp: doIPTablesRelaxed_def)

text \<open>The loop of \<open>deleteChainRule\<close> ends: each round takes one occurrence away.\<close>

lemma deleteChainRule_spec:
  assumes "t \<in> ipt_tables"
  shows "\<exists>k'. deleteChainRule cmd t h rule k = Some (None, k') \<and>
    tabs k' = (tabs k)((t, h) := map_option (removeAll (flatten rule [])) (tabs k (t, h)))"
proof (cases "tabs k (t, h)")
  case None
  have "cmd_fails cmd tabs ([''-t'', t, ''-D'', h] @ flatten rule []) k"
    by (rule no_chain [OF assms None]) simp
  then have "cmd_fails cmd tabs (flatten [Str ''-t'', Str t, Str ''-D'', Str h, Args rule] []) k"
    by (simp only: flat_rule)
  from relaxed_fails [OF this] show ?thesis
    using None by (subst deleteChainRule.simps) (auto simp: fun_upd_idem)
next
  case (Some rs)
  let ?r = "flatten rule []" and ?args = "[Str ''-t'', Str t, Str ''-D'', Str h, Args rule]"
  note flat = flat_rule [of t "''-D''" h rule]
  have "\<exists>k'. deleteChainRule cmd t h rule k = Some (None, k') \<and>
      tabs k' = (tabs k)((t, h) \<mapsto> removeAll ?r rs)"
    using Some
  proof (induction "length rs" arbitrary: rs k rule: less_induct)
    case less
    show ?case
    proof (cases "?r \<in> set rs")
      case True
      have "cmd_ok cmd tabs (flatten ?args []) k ((tabs k)((t, h) \<mapsto> remove1 ?r rs))"
        unfolding flat by (rule delete_rule [OF assms less.prems True])
      from relaxed_ok [OF this] obtain k1 where k1:
        "doIPTablesRelaxed cmd ?args k = ((True, None), k1)" "tabs k1 = (tabs k)((t, h) \<mapsto> remove1 ?r rs)"
        by blast
      have "length (remove1 ?r rs) < length rs"
        using True length_pos_if_in_set [OF True] by (simp add: length_remove1)
      from less.hyps [OF this, of k1] k1(2) obtain k2 where
        "deleteChainRule cmd t h rule k1 = Some (None, k2)"
        "tabs k2 = (tabs k)((t, h) \<mapsto> removeAll ?r (remove1 ?r rs))" by auto
      moreover have "removeAll ?r (remove1 ?r rs) = removeAll ?r rs" by (induction rs) auto
      ultimately show ?thesis using k1(1) by (subst deleteChainRule.simps) simp
    next
      case False
      have "cmd_fails cmd tabs (flatten ?args []) k"
        unfolding flat by (rule no_rule [OF assms less.prems False])
      from relaxed_fails [OF this] show ?thesis
        using False less.prems by (subst deleteChainRule.simps) (auto simp: fun_upd_idem)
    qed
  qed
  then show ?thesis using Some by simp
qed

lemma unhookChains_spec:
  assumes "t \<in> ipt_tables" and "distinct hooks"
  shows "\<exists>k'. unhookChains cmd nc t hooks k = Some (None, k') \<and> tabs k' = unhooked nc t hooks (tabs k)"
  using assms(2)
proof (induction hooks arbitrary: k)
  case Nil
  then show ?case by (auto simp: unhooked_def)
next
  case (Cons h hs)
  obtain k1 where k1: "deleteChainRule cmd t h (chainRule nc) k = Some (None, k1)"
    "tabs k1 = (tabs k)((t, h) := map_option (removeAll (flatten (chainRule nc) [])) (tabs k (t, h)))"
    using deleteChainRule_spec [OF assms(1)] by blast
  obtain k2 where k2: "deleteChainRule cmd t h (oldChainRule nc) k1 = Some (None, k2)"
    "tabs k2 = (tabs k1)((t, h) := map_option (removeAll (flatten (oldChainRule nc) [])) (tabs k1 (t, h)))"
    using deleteChainRule_spec [OF assms(1)] by blast
  obtain k3 where k3: "unhookChains cmd nc t hs k2 = Some (None, k3)" "tabs k3 = unhooked nc t hs (tabs k2)"
    using Cons by force
  have "tabs k2 = (tabs k)((t, h) := map_option (unhook nc) (tabs k (t, h)))"
    using k1(2) k2(2) by (simp add: option.map_comp comp_def unhook_removeAll [abs_def])
  then have "tabs k3 = unhooked nc t (h # hs) (tabs k)"
    using k3(2) Cons.prems by (auto simp: unhooked_def fun_eq_iff)
  then show ?case using k1(1) k2(1) k3(1) by simp
qed


text \<open>Without the chain its deletion does nothing; with it, the hooks go and then the chain.\<close>

lemma deleteChain_none:
  assumes "t \<in> ipt_tables" and "tabs k (t, ncChain nc) = None"
  shows "\<exists>k'. deleteChain cmd nc t hooks k = Some (None, k') \<and> tabs k' = tabs k"
proof -
  have "cmd_fails cmd tabs ([''-t'', t, ''-F'', ncChain nc] @ []) k"
    by (rule no_chain [OF assms]) simp
  then have "cmd_fails cmd tabs (flatten [Str ''-t'', Str t, Str ''-F'', Str (ncChain nc)] []) k" by simp
  from relaxed_fails [OF this] show ?thesis by (auto simp: deleteChain_def)
qed

lemma deleteChain_some:
  assumes "t \<in> ipt_tables" and "distinct hooks" and "ncChain nc \<notin> set hooks"
    and "tabs k (t, ncChain nc) = Some rs"
  defines "C \<equiv> (unhooked nc t hooks (tabs k))((t, ncChain nc) \<mapsto> [])"
  shows "\<exists>e k'. deleteChain cmd nc t hooks k = Some (e, k') \<and>
    (e = None \<and> tabs k' = C((t, ncChain nc) := None) \<or>
     e \<noteq> None \<and> tabs k' = C \<and> referenced C t (ncChain nc))"
proof -
  let ?c = "ncChain nc"
  have "cmd_ok cmd tabs (flatten [Str ''-t'', Str t, Str ''-F'', Str ?c] []) k ((tabs k)((t, ?c) \<mapsto> []))"
    using flush [OF assms(1,4)] by simp
  from relaxed_ok [OF this] obtain k1 where k1:
    "doIPTablesRelaxed cmd [Str ''-t'', Str t, Str ''-F'', Str ?c] k = ((True, None), k1)"
    "tabs k1 = (tabs k)((t, ?c) \<mapsto> [])" by blast
  obtain k2 where k2: "unhookChains cmd nc t hooks k1 = Some (None, k2)" "tabs k2 = unhooked nc t hooks (tabs k1)"
    using unhookChains_spec [OF assms(1,2)] by blast
  have C: "tabs k2 = C"
    unfolding k2(2) k1(2) C_def using assms(3) by (auto simp: unhooked_def)
  then have empty: "tabs k2 (t, ?c) = Some []" by (simp add: C_def)
  have del: "deleteChain cmd nc t hooks k
    = Some (doIPTables cmd [Str ''-t'', Str t, Str ''-X'', Str ?c] k2)"
    using k1(1) k2(1) by (simp add: deleteChain_def)
  have "cmd_ok cmd tabs [''-t'', t, ''-X'', ?c] k2 (C((t, ?c) := None)) \<or>
      cmd_fails cmd tabs [''-t'', t, ''-X'', ?c] k2 \<and> referenced C t ?c"
    using drop_chain [OF assms(1) empty] drop_other [OF assms(1) empty] C by auto
  then show ?thesis
  proof
    assume "cmd_ok cmd tabs [''-t'', t, ''-X'', ?c] k2 (C((t, ?c) := None))"
    then have "cmd_ok cmd tabs (flatten [Str ''-t'', Str t, Str ''-X'', Str ?c] []) k2 (C((t, ?c) := None))" by simp
    from do_ok [OF this] del show ?thesis by auto
  next
    assume "cmd_fails cmd tabs [''-t'', t, ''-X'', ?c] k2 \<and> referenced C t ?c"
    then have "cmd_fails cmd tabs (flatten [Str ''-t'', Str t, Str ''-X'', Str ?c] []) k2" "referenced C t ?c"
      by simp_all
    from do_fails [OF this(1)] this(2) del C show ?thesis by auto
  qed
qed

lemma hookChains_spec:
  assumes "t \<in> ipt_tables" and "distinct hooks" and "ncChain nc \<notin> set hooks"
    and "\<forall>h \<in> set hooks. tabs k (t, h) \<noteq> None" and "tabs k (t, ncChain nc) \<noteq> None"
    and "\<And>D. D (t, ncChain nc) \<noteq> None \<Longrightarrow> accepts t (flatten (chainRule nc) []) D"
  shows "\<exists>k'. hookChains cmd nc t hooks k = (None, k') \<and>
    tabs k' = (\<lambda>(t', c). if t' = t \<and> c \<in> set hooks
      then map_option ((#) (flatten (chainRule nc) [])) (tabs k (t', c)) else tabs k (t', c))"
  using assms(2-5)
proof (induction hooks arbitrary: k)
  case Nil
  then show ?case by auto
next
  case (Cons h hs)
  let ?r = "flatten (chainRule nc) []"
  obtain rs where rs: "tabs k (t, h) = Some rs" using Cons.prems(3) by auto
  have "cmd_ok cmd tabs (flatten [Str ''-t'', Str t, Str ''-I'', Str h, Args (chainRule nc)] []) k
      ((tabs k)((t, h) \<mapsto> ?r # rs))"
    unfolding flat_rule by (rule insert_rule [OF assms(1) rs assms(6)]) (rule Cons.prems(4))
  from do_ok [OF this] obtain k1 where k1:
    "doIPTables cmd [Str ''-t'', Str t, Str ''-I'', Str h, Args (chainRule nc)] k = (None, k1)"
    "tabs k1 = (tabs k)((t, h) \<mapsto> ?r # rs)" by blast
  have "\<exists>k'. hookChains cmd nc t hs k1 = (None, k') \<and>
    tabs k' = (\<lambda>(t', c). if t' = t \<and> c \<in> set hs
      then map_option ((#) ?r) (tabs k1 (t', c)) else tabs k1 (t', c))"
    by (rule Cons.IH) (use Cons.prems k1(2) in auto)
  then obtain k2 where k2: "hookChains cmd nc t hs k1 = (None, k2)"
    "tabs k2 = (\<lambda>(t', c). if t' = t \<and> c \<in> set hs
      then map_option ((#) ?r) (tabs k1 (t', c)) else tabs k1 (t', c))" by blast
  have "tabs k2 = (\<lambda>(t', c). if t' = t \<and> c \<in> set (h # hs)
      then map_option ((#) ?r) (tabs k (t', c)) else tabs k (t', c))"
    unfolding k2(2) k1(2) using Cons.prems(1) rs by (auto simp: fun_eq_iff)
  then show ?case using k1(1) k2(1) by simp
qed

lemma setupChain_spec:
  assumes "setup_ready accepts nc t hooks (tabs k)"
  shows "\<exists>k'. setupChain cmd nc t hooks k = Some (None, k') \<and> tabs k' = set_up nc t hooks (tabs k)"
proof -
  let ?c = "ncChain nc" and ?C = "tabs k" and ?r = "flatten (chainRule nc) []"
  have r: "t \<in> ipt_tables" "distinct hooks" "?c \<notin> set hooks" "\<forall>h \<in> set hooks. ?C (t, h) \<noteq> None"
    "\<And>D. D (t, ?c) \<noteq> None \<Longrightarrow> accepts t ?r D" "ours_only nc t hooks ?C"
    using assms by (auto simp: setup_ready_def)
  define C1 where "C1 = (unhooked nc t hooks ?C)((t, ?c) := None)"
  have "\<exists>k1. deleteChain cmd nc t hooks k = Some (None, k1) \<and> tabs k1 = C1"
  proof (cases "?C (t, ?c)")
    case None
    have "unhook nc rs = rs" if "?C (t, c) = Some rs" for c rs
    proof -
      have "\<forall>r \<in> set rs. \<not> jumps_to ?c r" using r(6) None that by (auto simp: ours_only_def)
      then show ?thesis
        unfolding unhook_def by (intro filter_True) (metis jumps_chainRule jumps_oldChainRule)
    qed
    then have "map_option (unhook nc) (?C (t, c)) = ?C (t, c)" for c
      by (cases "?C (t, c)") auto
    then have "C1 = ?C"
      using None by (auto simp: C1_def unhooked_def fun_eq_iff)
    then show ?thesis using deleteChain_none [OF r(1) None, of hooks] by simp
  next
    case (Some rs)
    let ?D = "(unhooked nc t hooks ?C)((t, ?c) \<mapsto> [])"
    have "\<not> referenced ?D t ?c"
    proof
      assume "referenced ?D t ?c"
      then obtain c rs' r' where c: "?D (t, c) = Some rs'" "r' \<in> set rs'" "jumps_to ?c r'"
        by (auto simp: referenced_def)
      then have ne: "c \<noteq> ?c" by auto
      then obtain rs0 where rs0: "?C (t, c) = Some rs0" "r' \<in> set rs0" "c \<in> set hooks \<longrightarrow> r' \<in> set (unhook nc [r'])"
        using c(1,2) ne by (auto simp: unhooked_def dest: in_unhookD split: if_splits)
      show False using r(6) rs0 c(3) ne unfolding ours_only_def by blast
    qed
    with deleteChain_some [OF r(1-3) Some] show ?thesis unfolding C1_def by auto
  qed
  then obtain k1 where k1: "deleteChain cmd nc t hooks k = Some (None, k1)" "tabs k1 = C1" by blast
  have "cmd_ok cmd tabs (flatten [Str ''-t'', Str t, Str ''-N'', Str ?c] []) k1 ((tabs k1)((t, ?c) \<mapsto> []))"
    using new_chain [OF r(1), of k1 ?c] k1(2) by (simp add: C1_def)
  from do_ok [OF this] obtain k2 where k2:
    "doIPTables cmd [Str ''-t'', Str t, Str ''-N'', Str ?c] k1 = (None, k2)" "tabs k2 = C1((t, ?c) \<mapsto> [])"
    using k1(2) by metis
  have "\<exists>k'. hookChains cmd nc t hooks k2 = (None, k') \<and>
    tabs k' = (\<lambda>(t', c). if t' = t \<and> c \<in> set hooks
      then map_option ((#) ?r) (tabs k2 (t', c)) else tabs k2 (t', c))"
    by (rule hookChains_spec [OF r(1-3) _ _ r(5)]) (use r(4) k2(2) in \<open>auto simp: C1_def unhooked_def\<close>)
  then obtain k3 where k3: "hookChains cmd nc t hooks k2 = (None, k3)"
    "tabs k3 = (\<lambda>(t', c). if t' = t \<and> c \<in> set hooks
      then map_option ((#) ?r) (tabs k2 (t', c)) else tabs k2 (t', c))" by blast
  have "tabs k3 = set_up nc t hooks ?C"
    unfolding k3(2) k2(2) C1_def using r(3)
    by (auto simp: set_up_def unhooked_def fun_eq_iff option.map_comp comp_def)
  then show ?thesis using k1(1) k2(1) k3(1) by (simp add: setupChain_def)
qed


end

section \<open>Starting and stopping\<close>

abbreviation nat_hooks :: "string list" where
  "nat_hooks \<equiv> [''PREROUTING'', ''OUTPUT'']"

abbreviation filter_hooks :: "string list" where
  "filter_hooks \<equiv> [''FORWARD'', ''INPUT'']"

definition start_ready ::
  "(string \<Rightarrow> string list \<Rightarrow> chain_map \<Rightarrow> bool) \<Rightarrow> 'a net_config_scheme \<Rightarrow> chain_map \<Rightarrow> bool" where
  "start_ready accepts nc C \<longleftrightarrow>
     setup_ready accepts nc ''nat'' nat_hooks C \<and> setup_ready accepts nc ''filter'' filter_hooks C"

definition started :: "'a net_config_scheme \<Rightarrow> chain_map \<Rightarrow> chain_map" where
  "started nc C = set_up nc ''filter'' filter_hooks (set_up nc ''nat'' nat_hooks C)"

lemma same_net_config:
  assumes "ncChain nc = ncChain nc'" and "ncBridge nc = ncBridge nc'"
  shows "chainRule nc = chainRule nc'" and "oldChainRule nc = oldChainRule nc'"
    and "unhook nc = unhook nc'" and "set_up nc = set_up nc'" and "unhooked nc = unhooked nc'"
    and "setup_ready a nc = setup_ready a nc'"
proof -
  show c: "chainRule nc = chainRule nc'" and o: "oldChainRule nc = oldChainRule nc'"
    using assms by (simp_all add: chainRule_def oldChainRule_def)
  then show u: "unhook nc = unhook nc'" by (simp add: unhook_def fun_eq_iff)
  show "set_up nc = set_up nc'" "unhooked nc = unhooked nc'" "setup_ready a nc = setup_ready a nc'"
    by (intro ext; simp add: set_up_def unhooked_def setup_ready_def ours_only_def c u assms split: prod.split)+
qed

lemma set_up_other: "t' \<noteq> t \<Longrightarrow> set_up nc t hooks C (t', c) = C (t', c)"
  by (simp add: set_up_def)

lemma setup_ready_other:
  "t' \<noteq> t \<Longrightarrow> setup_ready a nc t' hooks' (set_up nc t hooks C) = setup_ready a nc t' hooks' C"
  by (simp add: setup_ready_def ours_only_def set_up_other)

lemma setup_ready_again:
  assumes "setup_ready a nc t hooks C"
  shows "setup_ready a nc t hooks (set_up nc t hooks C)"
proof -
  have "ours_only nc t hooks (set_up nc t hooks C)"
    unfolding ours_only_def
  proof (intro allI impI)
    fix c rs r
    assume s: "set_up nc t hooks C (t, c) = Some rs" "r \<in> set rs" "jumps_to (ncChain nc) r"
    have ne: "set_up nc t hooks C (t, ncChain nc) \<noteq> None" by (simp add: set_up_def)
    have c: "c = ncChain nc \<or> c \<in> set hooks \<and> r \<notin> set (unhook nc [r])"
    proof (cases "c = ncChain nc \<or> c \<notin> set hooks")
      case True
      then have "c \<noteq> ncChain nc \<Longrightarrow> C (t, c) = Some rs" using s(1) by (auto simp: set_up_def)
      then show ?thesis using s(2,3) assms unfolding setup_ready_def ours_only_def by blast
    next
      case False
      then obtain rs0 where rs0: "C (t, c) = Some rs0" "r = flatten (chainRule nc) [] \<or> r \<in> set (unhook nc rs0)"
        using s by (auto simp: set_up_def)
      have "r \<in> set rs0 \<Longrightarrow> r \<notin> set (unhook nc [r])"
        using assms rs0(1) s(3) False unfolding setup_ready_def ours_only_def by blast
      moreover have "flatten (chainRule nc) [] \<notin> set (unhook nc [flatten (chainRule nc) []])"
        by (simp add: unhook_def)
      ultimately show ?thesis using False rs0(2) in_unhookD [of r nc rs0] by blast
    qed
    show "set_up nc t hooks C (t, ncChain nc) \<noteq> None \<and>
        (c = ncChain nc \<or> c \<in> set hooks \<and> r \<notin> set (unhook nc [r]))" using c ne by blast
  qed
  then show ?thesis using assms by (auto simp: setup_ready_def set_up_def)
qed

text \<open>The rules of the chain itself never matter.\<close>

lemma setup_ready_own:
  assumes "setup_ready a nc t hooks C" and "\<And>c. c \<noteq> ncChain nc \<Longrightarrow> D (t, c) = C (t, c)"
    and "D (t, ncChain nc) \<noteq> None"
  shows "setup_ready a nc t hooks D"
proof -
  have "ours_only nc t hooks D"
    unfolding ours_only_def
  proof (intro allI impI)
    fix c rs r
    assume *: "D (t, c) = Some rs" "r \<in> set rs" "jumps_to (ncChain nc) r"
    have "c = ncChain nc \<or> c \<in> set hooks \<and> r \<notin> set (unhook nc [r])"
      using * assms(1,2) unfolding setup_ready_def ours_only_def by metis
    with assms(3) show "D (t, ncChain nc) \<noteq> None \<and>
        (c = ncChain nc \<or> c \<in> set hooks \<and> r \<notin> set (unhook nc [r]))" by blast
  qed
  moreover have "\<forall>h \<in> set hooks. D (t, h) \<noteq> None" using assms(1,2) unfolding setup_ready_def by metis
  ultimately show ?thesis using assms(1) unfolding setup_ready_def by blast
qed

lemma set_up_idem: "ncChain nc \<notin> set hooks \<Longrightarrow> set_up nc t hooks (set_up nc t hooks C) = set_up nc t hooks C"
  by (auto simp: set_up_def fun_eq_iff option.map_comp comp_def)

lemma set_up_swap:
  "t \<noteq> t' \<Longrightarrow> set_up nc t hooks (set_up nc t' hooks' C) = set_up nc t' hooks' (set_up nc t hooks C)"
  by (auto simp: set_up_def fun_eq_iff)

lemma start_ready_started: "start_ready a nc C \<Longrightarrow> start_ready a nc (started nc C)"
  by (simp add: start_ready_def started_def setup_ready_other setup_ready_again)

lemma started_again:
  assumes "start_ready a nc C"
  shows "started nc (started nc C) = started nc C"
proof -
  have "ncChain nc \<notin> set nat_hooks" "ncChain nc \<notin> set filter_hooks"
    using assms by (auto simp: start_ready_def setup_ready_def)
  then show ?thesis
    by (simp add: started_def set_up_swap [of "''nat''" "''filter''"] set_up_idem)
qed

context iptables_contract begin

lemma start_spec:
  assumes "start_ready accepts ipt (tabs k)"
  shows "\<exists>k'. ipt_start cmd ipt k
      = Some (None, ipt\<lparr>natChainSetup := True, filterChainSetup := True\<rparr>, k') \<and>
    tabs k' = started ipt (tabs k)"
proof -
  have r: "setup_ready accepts ipt ''nat'' nat_hooks (tabs k)" "setup_ready accepts ipt ''filter'' filter_hooks (tabs k)"
    using assms by (simp_all add: start_ready_def)
  obtain k1 where k1: "setupChain cmd ipt ''nat'' nat_hooks k = Some (None, k1)"
    "tabs k1 = set_up ipt ''nat'' nat_hooks (tabs k)"
    using setupChain_spec [OF r(1)] by blast
  let ?ipt = "ipt\<lparr>natChainSetup := True\<rparr>"
  have same: "set_up ?ipt = set_up ipt" "setup_ready accepts ?ipt = setup_ready accepts ipt"
    by (rule same_net_config; simp)+
  have "setup_ready accepts ?ipt ''filter'' filter_hooks (tabs k1)"
    using r(2) unfolding same k1(2) by (simp add: setup_ready_other)
  from setupChain_spec [OF this] obtain k2 where
    "setupChain cmd ?ipt ''filter'' filter_hooks k1 = Some (None, k2)"
    "tabs k2 = set_up ipt ''filter'' filter_hooks (tabs k1)"
    unfolding same by blast
  then show ?thesis using k1 by (simp add: ipt_start_def started_def)
qed

lemma unhooked_other: "t' \<noteq> t \<Longrightarrow> unhooked nc t hooks C (t', c) = C (t', c)"
  by (simp add: unhooked_def)

lemma stop_spec:
  assumes "start_ready accepts ipt (tabs k)" and "natChainSetup ipt" and "filterChainSetup ipt"
    and "tabs k (''nat'', ncChain ipt) \<noteq> None" and "tabs k (''filter'', ncChain ipt) \<noteq> None"
  shows "\<exists>k'. ipt_stop cmd ipt k = Some (ipt\<lparr>natChainSetup := False, filterChainSetup := False\<rparr>, k') \<and>
    tabs k' (''filter'', ncChain ipt) = None \<and>
    (\<forall>h \<in> set filter_hooks. tabs k' (''filter'', h) = map_option (unhook ipt) (tabs k (''filter'', h))) \<and>
    tabs k' (''nat'', ''PREROUTING'') = map_option (unhook ipt) (tabs k (''nat'', ''PREROUTING'')) \<and>
    tabs k' (''nat'', ''OUTPUT'') = tabs k (''nat'', ''OUTPUT'') \<and>
    (tabs k' (''nat'', ncChain ipt) = None \<or> tabs k' (''nat'', ncChain ipt) = Some [])"
proof -
  let ?c = "ncChain ipt" and ?ipt = "ipt\<lparr>natChainSetup := False\<rparr>"
  have r: "''nat'' \<in> ipt_tables" "''filter'' \<in> ipt_tables" by (simp_all add: ipt_tables_def)
  have c: "?c \<notin> set nat_hooks" "?c \<notin> set filter_hooks" "?c \<notin> set [''PREROUTING'']"
    using assms(1) by (auto simp: start_ready_def setup_ready_def)
  obtain rs where rs: "tabs k (''nat'', ?c) = Some rs" using assms(4) by blast
  obtain e k1 where k1: "deleteChain cmd ipt ''nat'' [''PREROUTING''] k = Some (e, k1)"
    "\<And>key. key \<noteq> (''nat'', ?c) \<Longrightarrow> tabs k1 key = unhooked ipt ''nat'' [''PREROUTING''] (tabs k) key"
    "tabs k1 (''nat'', ?c) = None \<or> tabs k1 (''nat'', ?c) = Some []"
    using deleteChain_some [OF r(1) _ c(3) rs] by fastforce
  have flt: "tabs k1 (''filter'', x) = tabs k (''filter'', x)" for x
    using k1(2) [of "(''filter'', x)"] by (simp add: unhooked_other)
  obtain fs where fs: "tabs k1 (''filter'', ncChain ?ipt) = Some fs" using assms(5) flt by auto
  let ?D = "(unhooked ?ipt ''filter'' filter_hooks (tabs k1))((''filter'', ncChain ?ipt) \<mapsto> [])"
  have same: "unhook ?ipt = unhook ipt" "unhooked ?ipt = unhooked ipt" by (rule same_net_config; simp)+
  have "ours_only ipt ''filter'' filter_hooks (tabs k)"
    using assms(1) by (simp add: start_ready_def setup_ready_def)
  then have "\<not> referenced ?D ''filter'' (ncChain ?ipt)"
    by (auto simp: referenced_def ours_only_def unhooked_def same flt dest: in_unhookD split: if_splits)
  then obtain k2 where k2: "deleteChain cmd ?ipt ''filter'' filter_hooks k1 = Some (None, k2)"
    "tabs k2 = ?D((''filter'', ncChain ?ipt) := None)"
    using deleteChain_some [OF r(2) _ _ fs, of filter_hooks] c(2) by auto
  have nat: "tabs k2 (''nat'', h) = unhooked ipt ''nat'' [''PREROUTING''] (tabs k) (''nat'', h)"
    if "h \<in> set nat_hooks" for h
    using k1(2) [of "(''nat'', h)"] k2(2) c(1) that by (auto simp: unhooked_other same)
  have "ipt_stop cmd ipt k = Some (?ipt\<lparr>filterChainSetup := False\<rparr>, k2)"
    using k1(1) k2(1) assms(2,3) by (simp add: ipt_stop_def)
  moreover have "tabs k2 (''filter'', h) = map_option (unhook ipt) (tabs k (''filter'', h))"
    if "h \<in> set filter_hooks" for h
    using k2(2) c(2) that flt by (auto simp: unhooked_def same)
  moreover have "tabs k2 (''filter'', ?c) = None" using k2(2) by simp
  moreover have "tabs k2 (''nat'', ?c) = tabs k1 (''nat'', ?c)"
    using k2(2) by (simp add: unhooked_other)
  ultimately show ?thesis using nat [of "''PREROUTING''"] nat [of "''OUTPUT''"] k1(3) by (simp add: unhooked_def)
qed

end

end
