(* ===== verification/Services.thy ===== *)
theory Services
  imports StoreData Forwarder IPTablesCorrect
begin

text \<open>
  The services of the balancer: the model of a service (\<open>balancer/model/model.go\<close>), its
  translation from the store (\<open>balancer/model/watch_services.go\<close>), and the table of services
  with its two states, rejecting and forwarding (\<open>balancer/services.go\<close>). Every call of
  iptables goes through the \<open>cmd\<close> argument of the chain management; what the network device,
  the listening socket and the clock give is the environment of the start of a forwarder.
  \<open>None\<close> is a panic.
\<close>

section \<open>The model of a service\<close>

record model_service =
  msName :: string
  msProtocol :: string
  msAddress :: "ipport option"
  msInstances :: "string \<rightharpoonup> ipport"

record model_update =
  muUpdates :: "string \<rightharpoonup> model_service option"
  muReset :: bool

definition service_Description :: "model_service \<Rightarrow> string" where
  "service_Description svc =
     (case msAddress svc of None \<Rightarrow> msName svc
      | Some a \<Rightarrow> msName svc @ '' ('' @ ipport_String a @ '')'')"

text \<open>Two services without an address: \<open>*b.Address\<close> dereferences nil.\<close>

definition service_Equal :: "string ordering \<Rightarrow> model_service \<Rightarrow> model_service \<Rightarrow> bool option" where
  "service_Equal ord a b =
     (if msName a \<noteq> msName b \<or> msProtocol a \<noteq> msProtocol b \<or> (msAddress a = None) \<noteq> (msAddress b = None)
      then Some False
      else case (msAddress a, msAddress b) of
        (Some x, Some y) \<Rightarrow>
          Some (ipport_Equal x y \<and>
            list_all (\<lambda>name. case msInstances b name of None \<Rightarrow> False
                | Some bAddr \<Rightarrow> (case msInstances a name of None \<Rightarrow> True | Some aAddr \<Rightarrow> ipport_Equal aAddr bAddr))
              (ord [''Equal'', ''a''] (dom (msInstances a))) \<and>
            list_all (\<lambda>name. msInstances a name \<noteq> None) (ord [''Equal'', ''b''] (dom (msInstances b))))
      | _ \<Rightarrow> None)"

definition translateService :: "string \<Rightarrow> service_info option \<Rightarrow> bool \<Rightarrow> model_service option" where
  "translateService name svc filterAddressless =
     (case svc of
        None \<Rightarrow> None
      | Some info \<Rightarrow>
          if filterAddressless \<and> Address info = None then None
          else Some \<lparr>msName = name, msProtocol = Protocol info, msAddress = Address info,
            msInstances = (\<lambda>instName. Option.bind (Instances info instName) instAddress)\<rparr>)"

text \<open>\<open>sendUpdate\<close> of \<open>WatchServicesStartFunc\<close>.\<close>

definition sendUpdate :: "bool \<Rightarrow> service_update \<Rightarrow> model_update" where
  "sendUpdate filterAddressless su =
     \<lparr>muUpdates = (\<lambda>name. map_option (\<lambda>svc. translateService name svc filterAddressless) (suServices su name)),
      muReset = suReset su\<rparr>"

section \<open>The state of a service\<close>

record forwarding =
  fgService :: model_service
  fgForwarder :: forwarder
  fgRule :: "ipt_arg list"

datatype service_state = Rejecting "ipt_arg list" | Forwarding forwarding

datatype service_error = NoBridgeIP | ListenError | RuleError ipt_error

text \<open>The addresses of the bridge device, \<open>None\<close> when they cannot be read.\<close>

datatype iface_addr = IPNetAddr ip | OtherAddr

record start_env =
  seBridgeAddrs :: "iface_addr list option"
  seListen :: "ip \<Rightarrow> (ip \<times> int) option"
  seClock :: int

fun first_ip4 :: "iface_addr list \<Rightarrow> ip option" where
  "first_ip4 [] = None"
| "first_ip4 (IPNetAddr a # rest) = (case to4 a of Some b \<Rightarrow> Some b | None \<Rightarrow> first_ip4 rest)"
| "first_ip4 (OtherAddr # rest) = first_ip4 rest"

definition bridgeIP :: "iface_addr list option \<Rightarrow> ip option" where
  "bridgeIP addrs = Option.bind addrs first_ip4"

definition reject_rule :: "ipport \<Rightarrow> ipt_arg list" where
  "reject_rule a =
     [Str ''-p'', Str ''tcp'', Str ''-d'', IPArg (ipBytes a), Str ''--dport'', IntArg (ipPortNum a),
      Str ''-j'', Str ''REJECT'']"

definition dnat_rule :: "ipport \<Rightarrow> ip \<times> int \<Rightarrow> ipt_arg list" where
  "dnat_rule a laddr =
     [Str ''-p'', Str ''tcp'', Str ''-d'', IPArg (ipBytes a), Str ''--dport'', IntArg (ipPortNum a),
      Str ''-j'', Str ''DNAT'', Str ''--to-destination'', TCPAddrArg (fst laddr) (snd laddr)]"

definition startRejecting ::
  "'k iptables_cmd \<Rightarrow> 'a net_config_scheme \<Rightarrow> model_service \<Rightarrow> 'k \<Rightarrow> ((service_error + service_state) \<times> 'k) option" where
  "startRejecting cmd nc s k =
     (case msAddress s of
        None \<Rightarrow> None
      | Some a \<Rightarrow>
          (case addRule cmd nc ''filter'' (reject_rule a) k of
             (Some e, k') \<Rightarrow> Some (Inl (RuleError e), k')
           | (None, k') \<Rightarrow> Some (Inr (Rejecting (reject_rule a)), k')))"

definition startForwarding ::
  "string ordering \<Rightarrow> start_env \<Rightarrow> 'k iptables_cmd \<Rightarrow> 'a net_config_scheme \<Rightarrow> model_service \<Rightarrow> 'k \<Rightarrow>
     ((service_error + service_state) \<times> 'k) option" where
  "startForwarding ord env cmd nc s k =
     (case bridgeIP (seBridgeAddrs env) of
        None \<Rightarrow> Some (Inl NoBridgeIP, k)
      | Some ip \<Rightarrow>
          (case seListen env ip of
             None \<Rightarrow> Some (Inl ListenError, k)
           | Some laddr \<Rightarrow>
               (let fwd = SetForwarderInstances ord (seClock env) (msInstances s)
                            (SetProtocol (msProtocol s) (new_forwarder (msName s)))
                in case msAddress s of
                     None \<Rightarrow> None
                   | Some a \<Rightarrow>
                       (case addRule cmd nc ''nat'' (dnat_rule a laddr) k of
                          (Some e, k') \<Rightarrow> Some (Inl (RuleError e), k')
                        | (None, k') \<Rightarrow>
                            Some (Inr (Forwarding \<lparr>fgService = s, fgForwarder = fwd, fgRule = dnat_rule a laddr\<rparr>), k')))))"

text \<open>\<open>stop\<close> of the two states; the result of the deletion is ignored.\<close>

definition state_stop ::
  "'k iptables_cmd \<Rightarrow> 'a net_config_scheme \<Rightarrow> service_state \<Rightarrow> 'k \<Rightarrow> 'k" where
  "state_stop cmd nc st k =
     (case st of
        Rejecting rule \<Rightarrow> snd (deleteRule cmd nc ''filter'' rule k)
      | Forwarding f \<Rightarrow> snd (deleteRule cmd nc ''nat'' (fgRule f) k))"

text \<open>\<open>update\<close> of the two states: whether to keep the state, and the state.\<close>

definition state_update ::
  "string ordering \<Rightarrow> int \<Rightarrow> service_state \<Rightarrow> model_service \<Rightarrow> (bool \<times> service_state) option" where
  "state_update ord now st s =
     (case st of
        Rejecting rule \<Rightarrow> Some (msInstances s = Map.empty, st)
      | Forwarding f \<Rightarrow>
          if msInstances s = Map.empty then Some (False, st)
          else
            (case service_Equal ord s (fgService f) of
               None \<Rightarrow> None
             | Some True \<Rightarrow> Some (True, st)
             | Some False \<Rightarrow>
                 (case msAddress s of
                    None \<Rightarrow> Some (False, st)
                  | Some a \<Rightarrow>
                      (case msAddress (fgService f) of
                         None \<Rightarrow> None
                       | Some b \<Rightarrow>
                           if \<not> ipport_Equal a b then Some (False, st)
                           else Some (True, Forwarding (f\<lparr>fgForwarder :=
                                  SetForwarderInstances ord now (msInstances s)
                                    (SetProtocol (msProtocol s) (fgForwarder f))\<rparr>))))))"

text \<open>
  \<open>updateState\<close>: the result is the error, if any, and the state of the service afterwards
  (\<open>None\<close> for a service that has none yet).
\<close>

definition updateState ::
  "string ordering \<Rightarrow> start_env \<Rightarrow> 'k iptables_cmd \<Rightarrow> 'a net_config_scheme \<Rightarrow> service_state option \<Rightarrow>
     model_service \<Rightarrow> 'k \<Rightarrow> (service_error option \<times> service_state option \<times> 'k) option" where
  "updateState ord env cmd nc st upd k =
     do {
       (ok, st1) \<leftarrow> (case st of None \<Rightarrow> Some (False, None)
                     | Some s \<Rightarrow> map_option (\<lambda>(b, s'). (b, Some s')) (state_update ord (seClock env) s upd));
       (if ok then Some (None, st1, k)
        else do {
          (r, k1) \<leftarrow> (if msInstances upd = Map.empty then startRejecting cmd nc upd k
                      else startForwarding ord env cmd nc upd k);
          (case r of
             Inl e \<Rightarrow> Some (Some e, st1, k1)
           | Inr new \<Rightarrow>
               Some (None, Some new, (case st1 of None \<Rightarrow> k1 | Some old \<Rightarrow> state_stop cmd nc old k1)))
        })
     }"

section \<open>The table of services\<close>

type_synonym service_table = "string \<rightharpoonup> service_state"

text \<open>One round of the loop over \<open>update.Updates\<close>; errors are only logged.\<close>

definition doUpdate_service ::
  "string ordering \<Rightarrow> (string \<Rightarrow> start_env) \<Rightarrow> 'k iptables_cmd \<Rightarrow> 'a net_config_scheme \<Rightarrow>
     string \<Rightarrow> model_service option \<Rightarrow> service_table \<times> 'k \<Rightarrow> (service_table \<times> 'k) option" where
  "doUpdate_service ord env cmd nc name ms x =
     (case x of (svcs, k) \<Rightarrow>
        case (svcs name, ms) of
          (None, None) \<Rightarrow> Some (svcs, k)
        | (None, Some m) \<Rightarrow>
            (case updateState ord (env name) cmd nc None m k of
               None \<Rightarrow> None
             | Some (Some e, _, k') \<Rightarrow> Some (svcs, k')
             | Some (None, st, k') \<Rightarrow> Some (svcs(name := st), k'))
        | (Some st, Some m) \<Rightarrow>
            (case updateState ord (env name) cmd nc (Some st) m k of
               None \<Rightarrow> None
             | Some (_, st', k') \<Rightarrow> Some (svcs(name := st'), k'))
        | (Some st, None) \<Rightarrow> Some (svcs(name := None), state_stop cmd nc st k))"

definition reset_service ::
  "'k iptables_cmd \<Rightarrow> 'a net_config_scheme \<Rightarrow> (string \<rightharpoonup> model_service option) \<Rightarrow>
     string \<Rightarrow> service_state \<Rightarrow> service_table \<times> 'k \<Rightarrow> service_table \<times> 'k" where
  "reset_service cmd nc updates name st x =
     (case x of (svcs, k) \<Rightarrow>
        if Option.bind (updates name) id = None then (svcs(name := None), state_stop cmd nc st k) else (svcs, k))"

definition doUpdate ::
  "string ordering \<Rightarrow> (string \<Rightarrow> start_env) \<Rightarrow> 'k iptables_cmd \<Rightarrow> 'a net_config_scheme \<Rightarrow>
     model_update \<Rightarrow> service_table \<times> 'k \<Rightarrow> (service_table \<times> 'k) option" where
  "doUpdate ord env cmd nc update x =
     do {
       x1 \<leftarrow> for_keysM (\<lambda>_. muUpdates update) (doUpdate_service ord env cmd nc)
                (ord [''Updates''] (dom (muUpdates update))) x;
       Some (if muReset update
             then for_keys fst (reset_service cmd nc (muUpdates update)) (ord [''services''] (dom (fst x1))) x1
             else x1)
     }"

text \<open>\<open>stop\<close>: every service is closed; \<open>None\<close> in the first component is the nil table.\<close>

definition services_stop ::
  "string ordering \<Rightarrow> 'k iptables_cmd \<Rightarrow> 'a net_config_scheme \<Rightarrow> service_table option \<times> 'k \<Rightarrow> service_table option \<times> 'k" where
  "services_stop ord cmd nc x =
     (case x of
        (None, k) \<Rightarrow> (None, k)
      | (Some svcs, k) \<Rightarrow>
          (None, for_keys (\<lambda>_. svcs) (\<lambda>name st k'. state_stop cmd nc st k') (ord [''stop''] (dom svcs)) k))"

end
