(* ===== verification/ServicesCorrect.thy ===== *)
theory ServicesCorrect
  imports Services "HOL-Library.Multiset"
begin

text \<open>
  Correctness of the services: the rules in the balancer's two chains are, as multisets, those
  of the services in the table, and the state of a service follows from its last update.
\<close>

section \<open>Rules and tables\<close>

definition rule_of :: "string \<Rightarrow> service_state \<Rightarrow> string list multiset" where
  "rule_of t st =
     (case st of
        Rejecting r \<Rightarrow> if t = ''filter'' then {#flatten r []#} else {#}
      | Forwarding f \<Rightarrow> if t = ''nat'' then {#flatten (fgRule f) []#} else {#})"

definition opt_rule :: "string \<Rightarrow> service_state option \<Rightarrow> string list multiset" where
  "opt_rule t st = (case st of None \<Rightarrow> {#} | Some s \<Rightarrow> rule_of t s)"

definition rules_of :: "string \<Rightarrow> service_table \<Rightarrow> string list multiset" where
  "rules_of t svcs = (\<Sum>name \<in> dom svcs. opt_rule t (svcs name))"

definition chains_have :: "'a net_config_scheme \<Rightarrow> (string \<Rightarrow> string list multiset) \<Rightarrow> chain_map \<Rightarrow> bool" where
  "chains_have nc M C \<longleftrightarrow> (\<forall>t \<in> ipt_tables. \<exists>rs. C (t, ncChain nc) = Some rs \<and> mset rs = M t)"

text \<open>Nothing but the chain of the balancer differs.\<close>

definition same_elsewhere :: "'a net_config_scheme \<Rightarrow> chain_map \<Rightarrow> chain_map \<Rightarrow> bool" where
  "same_elsewhere nc C C' \<longleftrightarrow> (\<forall>t c. c \<noteq> ncChain nc \<or> t \<notin> ipt_tables \<longrightarrow> C' (t, c) = C (t, c))"

lemma same_elsewhere_refl [simp]: "same_elsewhere nc C C"
  by (simp add: same_elsewhere_def)

lemma same_elsewhere_trans: "same_elsewhere nc C D \<Longrightarrow> same_elsewhere nc D E \<Longrightarrow> same_elsewhere nc C E"
  by (simp add: same_elsewhere_def)

lemma opt_rule_simps [simp]: "opt_rule t None = {#}" "opt_rule t (Some s) = rule_of t s"
  by (simp_all add: opt_rule_def)

lemma rules_of_upd:
  assumes "finite (dom svcs)"
  shows "rules_of t (svcs(name := v)) + opt_rule t (svcs name) = rules_of t svcs + opt_rule t v"
proof -
  let ?D = "dom svcs - {name}"
  have rest: "(\<Sum>n \<in> ?D. opt_rule t ((svcs(name := v)) n)) = (\<Sum>n \<in> ?D. opt_rule t (svcs n))"
    by (intro sum.cong) auto
  have "rules_of t svcs = (\<Sum>n \<in> ?D. opt_rule t (svcs n)) + opt_rule t (svcs name)"
  proof (cases "name \<in> dom svcs")
    case True
    then show ?thesis unfolding rules_of_def using assms by (subst sum.remove [OF assms True]) (simp add: add.commute)
  next
    case False
    then have "svcs name = None" "?D = dom svcs" by auto
    then show ?thesis by (simp add: rules_of_def)
  qed
  moreover have "rules_of t (svcs(name := v)) = (\<Sum>n \<in> ?D. opt_rule t (svcs n)) + opt_rule t v"
  proof (cases v)
    case None
    then show ?thesis using rest by (simp add: rules_of_def)
  next
    case (Some s)
    have "dom (svcs(name := v)) = insert name ?D" using Some by auto
    then have "rules_of t (svcs(name := v)) = (\<Sum>n \<in> insert name ?D. opt_rule t ((svcs(name := v)) n))"
      by (simp only: rules_of_def)
    also have "\<dots> = opt_rule t v + (\<Sum>n \<in> ?D. opt_rule t ((svcs(name := v)) n))"
      using assms by (subst sum.insert) auto
    finally show ?thesis using rest by (simp add: add.commute)
  qed
  ultimately show ?thesis by (simp add: ac_simps)
qed

lemma opt_rule_subset: "finite (dom svcs) \<Longrightarrow> opt_rule t (svcs name) \<subseteq># rules_of t svcs"
  using rules_of_upd [of svcs t name None] by (metis add.right_neutral mset_subset_eq_add_right opt_rule_simps(1))

lemma rules_of_upd':
  assumes "finite (dom svcs)"
  shows "rules_of t (svcs(name := v)) = rules_of t svcs - opt_rule t (svcs name) + opt_rule t v"
  using rules_of_upd [OF assms, of t name v] opt_rule_subset [OF assms, of t name]
  by (metis add_diff_cancel_right' subset_mset.diff_add_assoc2)

context iptables_contract begin

lemma addRule_spec:
  assumes "t \<in> ipt_tables" and "tabs k (t, ncChain nc) = Some rs"
  shows "\<exists>e k'. addRule cmd nc t rule k = (e, k') \<and>
    (if e = None then tabs k' = (tabs k)((t, ncChain nc) \<mapsto> rs @ [flatten rule []]) else tabs k' = tabs k) \<and>
    (e = None \<longleftrightarrow> accepts t (flatten rule []) (tabs k))"
proof -
  let ?args = "[Str ''-t'', Str t, Str ''-A'', Str (ncChain nc), Args rule]" and ?r = "flatten rule []"
  have add: "addRule cmd nc t rule k = doIPTables cmd ?args k"
    by (simp add: addRule_def frobRule_def)
  show ?thesis
  proof (cases "accepts t ?r (tabs k)")
    case True
    then have "cmd_ok cmd tabs (flatten ?args []) k ((tabs k)((t, ncChain nc) \<mapsto> rs @ [?r]))"
      unfolding flat_rule by (rule append_rule [OF assms])
    from do_ok [OF this] show ?thesis unfolding add using True by auto
  next
    case False
    then have "cmd_fails cmd tabs (flatten ?args []) k"
      unfolding flat_rule by (intro bad_rule [OF assms(1)]) auto
    from do_fails [OF this] show ?thesis unfolding add using False by auto
  qed
qed

lemma deleteRule_spec:
  assumes "t \<in> ipt_tables" and "tabs k (t, ncChain nc) = Some rs"
  shows "tabs (snd (deleteRule cmd nc t rule k)) = (tabs k)((t, ncChain nc) \<mapsto> remove1 (flatten rule []) rs)"
proof -
  let ?args = "[Str ''-t'', Str t, Str ''-D'', Str (ncChain nc), Args rule]" and ?r = "flatten rule []"
  have del: "deleteRule cmd nc t rule k = doIPTables cmd ?args k"
    by (simp add: deleteRule_def frobRule_def)
  show ?thesis
  proof (cases "?r \<in> set rs")
    case True
    then have "cmd_ok cmd tabs (flatten ?args []) k ((tabs k)((t, ncChain nc) \<mapsto> remove1 ?r rs))"
      unfolding flat_rule by (rule delete_rule [OF assms])
    from do_ok [OF this] show ?thesis unfolding del by auto
  next
    case False
    then have "cmd_fails cmd tabs (flatten ?args []) k"
      unfolding flat_rule by (rule no_rule [OF assms])
    from do_fails [OF this] show ?thesis unfolding del using False assms(2) by (auto simp: remove1_idem)
  qed
qed

lemma state_stop_spec:
  assumes "chains_have nc M (tabs k)"
  shows "chains_have nc (\<lambda>t. M t - rule_of t st) (tabs (state_stop cmd nc st k))"
    and "same_elsewhere nc (tabs k) (tabs (state_stop cmd nc st k))"
proof -
  have "\<exists>t rule rs. t \<in> ipt_tables \<and> tabs k (t, ncChain nc) = Some rs \<and>
      state_stop cmd nc st k = snd (deleteRule cmd nc t rule k) \<and>
      rule_of t st = {#flatten rule []#} \<and> (\<forall>t' \<in> ipt_tables. t' \<noteq> t \<longrightarrow> rule_of t' st = {#})"
  proof (cases st)
    case (Rejecting r)
    obtain rs where "tabs k (''filter'', ncChain nc) = Some rs"
      using assms by (auto simp: chains_have_def ipt_tables_def)
    then show ?thesis using Rejecting
      by (intro exI [of _ "''filter''"] exI [of _ r] exI [of _ rs])
        (auto simp: state_stop_def rule_of_def ipt_tables_def)
  next
    case (Forwarding f)
    obtain rs where "tabs k (''nat'', ncChain nc) = Some rs"
      using assms by (auto simp: chains_have_def ipt_tables_def)
    then show ?thesis using Forwarding
      by (intro exI [of _ "''nat''"] exI [of _ "fgRule f"] exI [of _ rs])
        (auto simp: state_stop_def rule_of_def ipt_tables_def)
  qed
  then obtain t rule rs where t: "t \<in> ipt_tables" "tabs k (t, ncChain nc) = Some rs"
    "state_stop cmd nc st k = snd (deleteRule cmd nc t rule k)" "rule_of t st = {#flatten rule []#}"
    "\<And>t'. t' \<in> ipt_tables \<Longrightarrow> t' \<noteq> t \<Longrightarrow> rule_of t' st = {#}" by blast
  have upd: "tabs (state_stop cmd nc st k) = (tabs k)((t, ncChain nc) \<mapsto> remove1 (flatten rule []) rs)"
    unfolding t(3) by (rule deleteRule_spec [OF t(1,2)])
  show "same_elsewhere nc (tabs k) (tabs (state_stop cmd nc st k))"
    using t(1) by (auto simp: upd same_elsewhere_def)
  show "chains_have nc (\<lambda>t. M t - rule_of t st) (tabs (state_stop cmd nc st k))"
    unfolding chains_have_def upd
  proof (intro ballI)
    fix t'
    assume t': "t' \<in> ipt_tables"
    then obtain rs' where rs': "tabs k (t', ncChain nc) = Some rs'" "mset rs' = M t'"
      using assms by (auto simp: chains_have_def)
    show "\<exists>ys. ((tabs k)((t, ncChain nc) \<mapsto> remove1 (flatten rule []) rs)) (t', ncChain nc) = Some ys \<and>
        mset ys = M t' - rule_of t' st"
      using t t' rs' by (cases "t' = t") auto
  qed
qed


text \<open>Adding the rule of a new state: the chain has it, or the addition failed and nothing changed.\<close>

lemma add_state_rule:
  assumes "chains_have nc M (tabs k)" and "t \<in> ipt_tables"
  shows "\<exists>e k'. addRule cmd nc t rule k = (e, k') \<and>
    (e \<noteq> None \<longrightarrow> tabs k' = tabs k) \<and>
    (e = None \<longrightarrow> chains_have nc (\<lambda>t'. M t' + (if t' = t then {#flatten rule []#} else {#})) (tabs k')) \<and>
    same_elsewhere nc (tabs k) (tabs k') \<and>
    (e = None \<longleftrightarrow> accepts t (flatten rule []) (tabs k))"
proof -
  obtain rs where rs: "tabs k (t, ncChain nc) = Some rs" "mset rs = M t"
    using assms by (auto simp: chains_have_def)
  obtain e k' where k': "addRule cmd nc t rule k = (e, k')"
    "if e = None then tabs k' = (tabs k)((t, ncChain nc) \<mapsto> rs @ [flatten rule []]) else tabs k' = tabs k"
    "e = None \<longleftrightarrow> accepts t (flatten rule []) (tabs k)"
    using addRule_spec [OF assms(2) rs(1)] by blast
  have "chains_have nc (\<lambda>t'. M t' + (if t' = t then {#flatten rule []#} else {#})) (tabs k')" if "e = None"
    using assms(1) rs k'(2) that unfolding chains_have_def by auto
  moreover have "same_elsewhere nc (tabs k) (tabs k')"
    using k'(2) assms(2) by (auto simp: same_elsewhere_def split: if_splits)
  moreover have "e \<noteq> None \<Longrightarrow> tabs k' = tabs k" using k'(2) by simp
  ultimately show ?thesis using k'(1,3) by blast
qed

end

section \<open>The state of one service\<close>

definition dnat_for :: "ipport \<Rightarrow> ipt_arg list \<Rightarrow> bool" where
  "dnat_for a rule \<longleftrightarrow> (\<exists>laddr. rule = dnat_rule a laddr)"

lemma dnat_for_rule [simp]: "dnat_for a (dnat_rule a laddr)"
  unfolding dnat_for_def by (rule exI) (rule refl)

text \<open>A forwarding service has an address, and its pool is consistent.\<close>

definition state_ok :: "service_state \<Rightarrow> bool" where
  "state_ok st \<longleftrightarrow>
     (case st of
        Rejecting r \<Rightarrow> \<exists>a. r = reject_rule a
      | Forwarding f \<Rightarrow> pool_ok (fwPool (fgForwarder f)) \<and>
          finite (dom (msInstances (fgService f))) \<and>
          (\<exists>a. msAddress (fgService f) = Some a \<and> dnat_for a (fgRule f)))"

text \<open>What a state does for the last update: the state and the rule it should have.\<close>

definition serves :: "model_service \<Rightarrow> service_state \<Rightarrow> bool" where
  "serves upd st \<longleftrightarrow>
     (case st of
        Rejecting r \<Rightarrow> msInstances upd = Map.empty
      | Forwarding f \<Rightarrow> msInstances upd \<noteq> Map.empty \<and> msAddress (fgService f) = msAddress upd \<and>
          dnat_for (the (msAddress upd)) (fgRule f))"

definition service_pool_names :: "service_state \<Rightarrow> string set" where
  "service_pool_names st =
     (case st of Rejecting r \<Rightarrow> {} | Forwarding f \<Rightarrow> member_names (fwPool (fgForwarder f)))"

lemma service_Equal_total:
  assumes "msAddress a \<noteq> None"
  shows "service_Equal ord a b \<noteq> None"
  using assms by (auto simp: service_Equal_def split: option.split)

text \<open>\<open>Equal\<close> decides equality of the two services.\<close>

lemma service_Equal_iff:
  assumes "ordering_ok ord" and "finite (dom (msInstances a))" and "finite (dom (msInstances b))"
    and "msAddress a \<noteq> None"
  shows "service_Equal ord a b = Some (a = b)"
proof (cases "msName a \<noteq> msName b \<or> msProtocol a \<noteq> msProtocol b \<or> (msAddress a = None) \<noteq> (msAddress b = None)")
  case True
  then show ?thesis by (auto simp: service_Equal_def)
next
  case False
  then obtain x y where xy: "msAddress a = Some x" "msAddress b = Some y" using assms(4) by auto
  let ?A = "msInstances a" and ?B = "msInstances b"
  have "(\<forall>n \<in> dom ?A. case ?B n of None \<Rightarrow> False
      | Some bAddr \<Rightarrow> (case ?A n of None \<Rightarrow> True | Some aAddr \<Rightarrow> ipport_Equal aAddr bAddr)) \<and>
    (\<forall>n \<in> dom ?B. ?A n \<noteq> None) \<longleftrightarrow> ?A = ?B" (is "?l = _")
  proof
    assume l: ?l
    show "?A = ?B"
    proof (rule ext)
      fix n
      show "?A n = ?B n"
        using l by (cases "?A n"; cases "?B n") (force simp: ipport_Equal_def dom_def)+
    qed
  qed (auto simp: ipport_Equal_def)
  then show ?thesis
    using False xy assms(1-3)
    by (auto simp: service_Equal_def list_all_iff ipport_Equal_def intro!: model_service.equality)
qed


definition wanted_names :: "model_service \<Rightarrow> string set" where
  "wanted_names upd = dom (msInstances upd)"

definition update_ok :: "model_service \<Rightarrow> bool" where
  "update_ok upd \<longleftrightarrow> msAddress upd \<noteq> None \<and> finite (dom (msInstances upd))"

text \<open>
  The instances in the pool of a state: those of the update, unless the state was forwarding and
  was made for a service equal to the update, when nothing is touched.
\<close>

definition pool_follows :: "service_state option \<Rightarrow> model_service \<Rightarrow> service_state \<Rightarrow> bool" where
  "pool_follows old upd st \<longleftrightarrow>
     service_pool_names st = wanted_names upd \<or>
     (\<exists>f. old = Some (Forwarding f) \<and> fgService f = upd \<and> st = Forwarding f)"

lemma state_update_spec:
  assumes "ordering_ok ord" and "update_ok upd" and "state_ok st"
  shows "\<exists>ok st'. state_update ord now st upd = Some (ok, st') \<and> state_ok st' \<and>
    (\<forall>t. rule_of t st' = rule_of t st) \<and> (\<not> ok \<longrightarrow> st' = st) \<and>
    (ok \<longrightarrow> serves upd st' \<and> pool_follows (Some st) upd st')"
proof (cases st)
  case (Rejecting r)
  then show ?thesis
    using assms(3) by (auto simp: state_update_def serves_def pool_follows_def service_pool_names_def wanted_names_def)
next
  case (Forwarding f)
  obtain a where f: "pool_ok (fwPool (fgForwarder f))" "finite (dom (msInstances (fgService f)))"
    "msAddress (fgService f) = Some a" "dnat_for a (fgRule f)"
    using assms(3) Forwarding by (auto simp: state_ok_def)
  have u: "msAddress upd \<noteq> None" "finite (dom (msInstances upd))" using assms(2) by (simp_all add: update_ok_def)
  note eq = service_Equal_iff [OF assms(1) u(2) f(2) u(1)]
  consider (empty) "msInstances upd = Map.empty"
    | (same) "msInstances upd \<noteq> Map.empty" "upd = fgService f"
    | (moved) "msInstances upd \<noteq> Map.empty" "upd \<noteq> fgService f" "msAddress upd \<noteq> Some a"
    | (changed) "msInstances upd \<noteq> Map.empty" "upd \<noteq> fgService f" "msAddress upd = Some a"
    by blast
  then show ?thesis
  proof cases
    case empty
    then show ?thesis using Forwarding assms(3) by (intro exI [of _ False]) (simp add: state_update_def)
  next
    case same
    then have "state_update ord now st upd = Some (True, st)"
      using Forwarding eq by (simp add: state_update_def)
    moreover have "serves upd st" using same Forwarding f by (simp add: serves_def)
    moreover have "pool_follows (Some st) upd st" using same(2) Forwarding by (auto simp: pool_follows_def)
    ultimately show ?thesis using assms(3) by blast
  next
    case moved
    then have "state_update ord now st upd = Some (False, st)"
      using Forwarding eq f(3) u(1) by (auto simp: state_update_def ipport_Equal_def split: option.split)
    then show ?thesis using assms(3) by (intro exI [of _ False]) simp
  next
    case changed
    let ?fwd = "SetForwarderInstances ord now (msInstances upd) (SetProtocol (msProtocol upd) (fgForwarder f))"
    have upd: "state_update ord now st upd = Some (True, Forwarding (f\<lparr>fgForwarder := ?fwd\<rparr>))"
      using changed Forwarding eq f(3) by (simp add: state_update_def ipport_Equal_def)
    have "pool_ok (fwPool ?fwd)" "member_names (fwPool ?fwd) = dom (msInstances upd)"
      using SetForwarderInstances_ok [OF assms(1) u(2), of "SetProtocol (msProtocol upd) (fgForwarder f)"] f(1)
      by simp_all
    then have "state_ok (Forwarding (f\<lparr>fgForwarder := ?fwd\<rparr>))"
      "pool_follows (Some st) upd (Forwarding (f\<lparr>fgForwarder := ?fwd\<rparr>))"
      using f by (simp_all add: state_ok_def pool_follows_def service_pool_names_def wanted_names_def)
    moreover have "serves upd (Forwarding (f\<lparr>fgForwarder := ?fwd\<rparr>))"
      using changed f by (simp add: serves_def)
    moreover have "rule_of t (Forwarding (f\<lparr>fgForwarder := ?fwd\<rparr>)) = rule_of t st" for t
      using Forwarding by (simp add: rule_of_def)
    ultimately show ?thesis using upd by blast
  qed
qed

text \<open>What starting a state needs of its environment to succeed.\<close>

definition env_good :: "start_env \<Rightarrow> bool" where
  "env_good env \<longleftrightarrow> (\<forall>ip. seListen env ip \<noteq> None) \<and> bridgeIP (seBridgeAddrs env) \<noteq> None"

context iptables_contract begin

text \<open>The start of a new state: an error and nothing changed, or the state and its rule.\<close>

lemma start_state_spec:
  fixes env :: start_env
  assumes "ordering_ok ord" and "update_ok upd" and "chains_have nc M (tabs k)"
  defines "start \<equiv> (if msInstances upd = Map.empty then startRejecting cmd nc upd k
                    else startForwarding ord env cmd nc upd k)"
  shows "\<exists>r k'. start = Some (r, k') \<and> same_elsewhere nc (tabs k) (tabs k') \<and>
    (case r of
       Inl e \<Rightarrow> tabs k' = tabs k
     | Inr st \<Rightarrow> state_ok st \<and> serves upd st \<and> service_pool_names st = wanted_names upd \<and>
         chains_have nc (\<lambda>t. M t + rule_of t st) (tabs k')) \<and>
    (env_good env \<and> (\<forall>t r C. accepts t r C) \<longrightarrow> (\<exists>st. r = Inr st))"
proof -
  obtain a where a: "msAddress upd = Some a" and fin: "finite (dom (msInstances upd))"
    using assms(2) by (auto simp: update_ok_def)
  have t: "''nat'' \<in> ipt_tables" "''filter'' \<in> ipt_tables" by (simp_all add: ipt_tables_def)
  show ?thesis
  proof (cases "msInstances upd = Map.empty")
    case True
    obtain e k' where k': "addRule cmd nc ''filter'' (reject_rule a) k = (e, k')"
      "e \<noteq> None \<longrightarrow> tabs k' = tabs k"
      "e = None \<longrightarrow> chains_have nc (\<lambda>t'. M t' + (if t' = ''filter'' then {#flatten (reject_rule a) []#} else {#})) (tabs k')"
      "same_elsewhere nc (tabs k) (tabs k')" "e = None \<longleftrightarrow> accepts ''filter'' (flatten (reject_rule a) []) (tabs k)"
      using add_state_rule [OF assms(3) t(2)] by blast
    have "start = Some (case e of Some e \<Rightarrow> Inl (RuleError e) | None \<Rightarrow> Inr (Rejecting (reject_rule a)), k')"
      using True a k'(1) by (simp add: start_def startRejecting_def split: option.split)
    moreover have "rule_of t (Rejecting (reject_rule a)) = (if t = ''filter'' then {#flatten (reject_rule a) []#} else {#})" for t
      by (simp add: rule_of_def)
    moreover have "state_ok (Rejecting (reject_rule a))" "serves upd (Rejecting (reject_rule a))"
      "service_pool_names (Rejecting (reject_rule a)) = wanted_names upd"
      using True by (auto simp: state_ok_def serves_def service_pool_names_def wanted_names_def)
    ultimately show ?thesis using k'(2-5) by (cases e) auto
  next
    case False
    have s: "start = startForwarding ord env cmd nc upd k" using False by (simp add: start_def)
    show ?thesis
    proof (cases "bridgeIP (seBridgeAddrs env)")
      case None
      then show ?thesis unfolding s by (simp add: startForwarding_def env_good_def)
    next
      case ip: (Some ip)
      show ?thesis
      proof (cases "seListen env ip")
        case None
        then have "\<not> env_good env" unfolding env_good_def by blast
        then show ?thesis unfolding s using ip None by (simp add: startForwarding_def)
      next
        case laddr: (Some laddr)
        let ?fwd = "SetForwarderInstances ord (seClock env) (msInstances upd)
          (SetProtocol (msProtocol upd) (new_forwarder (msName upd)))"
        let ?st = "Forwarding \<lparr>fgService = upd, fgForwarder = ?fwd, fgRule = dnat_rule a laddr\<rparr>"
        obtain e k' where k': "addRule cmd nc ''nat'' (dnat_rule a laddr) k = (e, k')"
          "e \<noteq> None \<longrightarrow> tabs k' = tabs k"
          "e = None \<longrightarrow> chains_have nc (\<lambda>t'. M t' + (if t' = ''nat'' then {#flatten (dnat_rule a laddr) []#} else {#})) (tabs k')"
          "same_elsewhere nc (tabs k) (tabs k')" "e = None \<longleftrightarrow> accepts ''nat'' (flatten (dnat_rule a laddr) []) (tabs k)"
          using add_state_rule [OF assms(3) t(1)] by blast
        have st: "start = Some (case e of Some e \<Rightarrow> Inl (RuleError e) | None \<Rightarrow> Inr ?st, k')"
          unfolding s using ip laddr a k'(1) by (simp add: startForwarding_def split: option.split)
        have p: "pool_ok (fwPool ?fwd)" "member_names (fwPool ?fwd) = dom (msInstances upd)"
          using SetForwarderInstances_ok [OF assms(1) fin, of "SetProtocol (msProtocol upd) (new_forwarder (msName upd))"]
          by simp_all
        have "state_ok ?st" "serves upd ?st" "service_pool_names ?st = wanted_names upd"
          using p a False fin by (auto simp: state_ok_def serves_def service_pool_names_def wanted_names_def)
        moreover have "rule_of t ?st = (if t = ''nat'' then {#flatten (dnat_rule a laddr) []#} else {#})" for t
          by (simp add: rule_of_def)
        ultimately show ?thesis unfolding st using k'(2-5) by (cases e) auto
      qed
    qed
  qed
qed


lemma chains_have_cong:
  "chains_have nc M C \<Longrightarrow> (\<And>t. t \<in> ipt_tables \<Longrightarrow> M t = M' t) \<Longrightarrow> chains_have nc M' C"
  by (simp add: chains_have_def)

lemma updateState_spec:
  assumes "ordering_ok ord" and "update_ok upd" and "\<forall>s. st = Some s \<longrightarrow> state_ok s"
    and "chains_have nc M (tabs k)" and "\<And>t. opt_rule t st \<subseteq># M t"
  shows "\<exists>e st' k'. updateState ord env cmd nc st upd k = Some (e, st', k') \<and>
    same_elsewhere nc (tabs k) (tabs k') \<and>
    chains_have nc (\<lambda>t. M t - opt_rule t st + opt_rule t st') (tabs k') \<and>
    (\<forall>s. st' = Some s \<longrightarrow> state_ok s) \<and>
    (e \<noteq> None \<longrightarrow> st' = st \<and> tabs k' = tabs k) \<and>
    (e = None \<longrightarrow> (\<exists>s. st' = Some s \<and> serves upd s \<and> pool_follows st upd s)) \<and>
    (env_good env \<and> (\<forall>t r C. accepts t r C) \<longrightarrow> e = None)"
proof -
  have same: "chains_have nc (\<lambda>t. M t - opt_rule t st + opt_rule t st) (tabs k)"
    using assms(4,5) by (auto intro: chains_have_cong)
  obtain ok st1 where u: "(case st of None \<Rightarrow> Some (False, None)
      | Some s \<Rightarrow> map_option (\<lambda>(b, s'). (b, Some s')) (state_update ord (seClock env) s upd)) = Some (ok, st1)"
    "\<And>t. opt_rule t st1 = opt_rule t st" "\<not> ok \<Longrightarrow> st1 = st"
    "ok \<Longrightarrow> \<exists>s. st1 = Some s \<and> state_ok s \<and> serves upd s \<and> pool_follows st upd s"
  proof (cases st)
    case None
    then show ?thesis using that [of False None] by simp
  next
    case (Some s)
    obtain ok s' where "state_update ord (seClock env) s upd = Some (ok, s')" "state_ok s'"
      "\<And>t. rule_of t s' = rule_of t s" "\<not> ok \<longrightarrow> s' = s" "ok \<longrightarrow> serves upd s' \<and> pool_follows (Some s) upd s'"
      using state_update_spec [OF assms(1,2) assms(3) [rule_format, OF Some]] by blast
    then show ?thesis using that [of ok "Some s'"] Some by simp
  qed
  show ?thesis
  proof (cases ok)
    case True
    then obtain s where "st1 = Some s" "state_ok s" "serves upd s" "pool_follows st upd s" using u(4) by blast
    then show ?thesis using u(1,2) True same by (simp add: updateState_def)
  next
    case False
    let ?start = "if msInstances upd = Map.empty then startRejecting cmd nc upd k
      else startForwarding ord env cmd nc upd k"
    have st1: "st1 = st" using u(3) False by blast
    obtain r k1 where r: "?start = Some (r, k1)" "same_elsewhere nc (tabs k) (tabs k1)"
      "case r of Inl e \<Rightarrow> tabs k1 = tabs k
       | Inr s \<Rightarrow> state_ok s \<and> serves upd s \<and> service_pool_names s = wanted_names upd \<and>
           chains_have nc (\<lambda>t. M t + rule_of t s) (tabs k1)"
      "env_good env \<and> (\<forall>t r C. accepts t r C) \<longrightarrow> (\<exists>s. r = Inr s)"
      using start_state_spec [OF assms(1,2,4)] by blast
    have upd: "updateState ord env cmd nc st upd k = Some (case r of
        Inl e \<Rightarrow> (Some e, st, k1)
      | Inr new \<Rightarrow> (None, Some new, case st of None \<Rightarrow> k1 | Some old \<Rightarrow> state_stop cmd nc old k1))"
      using u(1) r(1) False st1 by (simp add: updateState_def split: sum.split)
    show ?thesis
    proof (cases r)
      case (Inl e)
      then show ?thesis using upd r(2-4) same assms(3) by simp
    next
      case (Inr new)
      have new: "state_ok new" "serves upd new" "service_pool_names new = wanted_names upd"
        "chains_have nc (\<lambda>t. M t + rule_of t new) (tabs k1)"
        using r(3) Inr by simp_all
      have "chains_have nc (\<lambda>t. M t - opt_rule t st + rule_of t new)
            (tabs (case st of None \<Rightarrow> k1 | Some old \<Rightarrow> state_stop cmd nc old k1)) \<and>
          same_elsewhere nc (tabs k) (tabs (case st of None \<Rightarrow> k1 | Some old \<Rightarrow> state_stop cmd nc old k1))"
      proof (cases st)
        case None
        then show ?thesis using new(4) r(2) by simp
      next
        case (Some old)
        have "M t + rule_of t new - rule_of t old = M t - rule_of t old + rule_of t new" for t
        proof -
          have "rule_of t old \<subseteq># M t" using assms(5) [of t] Some by simp
          then show ?thesis by (rule subset_mset.diff_add_assoc2)
        qed
        then show ?thesis
          using state_stop_spec [OF new(4), of old] same_elsewhere_trans [OF r(2)] Some by simp
      qed
      moreover have "pool_follows st upd new" using new(3) by (simp add: pool_follows_def)
      moreover have "updateState ord env cmd nc st upd k
          = Some (None, Some new, case st of None \<Rightarrow> k1 | Some old \<Rightarrow> state_stop cmd nc old k1)"
        using upd Inr by simp
      ultimately show ?thesis using new(1,2)
        by (intro exI [of _ None] exI [of _ "Some new"]
            exI [of _ "case st of None \<Rightarrow> k1 | Some old \<Rightarrow> state_stop cmd nc old k1"]) simp
    qed
  qed
qed

end

section \<open>The table of services\<close>

definition table_inv :: "'a net_config_scheme \<Rightarrow> service_table \<Rightarrow> chain_map \<Rightarrow> bool" where
  "table_inv nc svcs C \<longleftrightarrow> finite (dom svcs) \<and> (\<forall>n s. svcs n = Some s \<longrightarrow> state_ok s) \<and>
     chains_have nc (\<lambda>t. rules_of t svcs) C"

text \<open>
  What an update of a service may leave: nothing when it removes the service, a state that serves
  it, or, when a start can fail (\<open>good\<close> says it cannot), what there was before.
\<close>

definition round_result ::
  "bool \<Rightarrow> service_table \<Rightarrow> string \<Rightarrow> model_service option \<Rightarrow> service_state option \<Rightarrow> bool" where
  "round_result good svcs name ms v \<longleftrightarrow>
     (case ms of
        None \<Rightarrow> v = None
      | Some m \<Rightarrow> (\<exists>s. v = Some s \<and> serves m s \<and> pool_follows (svcs name) m s) \<or> (\<not> good \<and> v = svcs name))"

definition updates_ok :: "model_update \<Rightarrow> bool" where
  "updates_ok u \<longleftrightarrow> finite (dom (muUpdates u)) \<and> (\<forall>n m. muUpdates u n = Some (Some m) \<longrightarrow> update_ok m)"

text \<open>The state of the loop over the updates: what is settled for the names behind it.\<close>

definition updates_done ::
  "bool \<Rightarrow> 'a net_config_scheme \<Rightarrow> (string \<rightharpoonup> model_service option) \<Rightarrow> service_table \<Rightarrow> chain_map \<Rightarrow>
     string set \<Rightarrow> service_table \<Rightarrow> chain_map \<Rightarrow> bool" where
  "updates_done good nc U svcs C D svcs' C' \<longleftrightarrow>
     table_inv nc svcs' C' \<and> same_elsewhere nc C C' \<and>
     (\<forall>n \<in> D. \<forall>ms. U n = Some ms \<longrightarrow> round_result good svcs n ms (svcs' n)) \<and>
     (\<forall>n. n \<notin> D \<longrightarrow> svcs' n = svcs n)"

lemma table_inv_upd:
  assumes "table_inv nc svcs C" and "chains_have nc (\<lambda>t. rules_of t svcs - opt_rule t (svcs n) + opt_rule t v) D"
    and "\<And>s. v = Some s \<Longrightarrow> state_ok s"
  shows "table_inv nc (svcs(n := v)) D"
proof -
  have "finite (dom svcs)" using assms(1) by (simp add: table_inv_def)
  from rules_of_upd' [OF this] assms show ?thesis
    by (auto simp: table_inv_def split: if_splits)
qed

context iptables_contract begin

lemma close_service:
  assumes "table_inv nc svcs (tabs k)" and "svcs name = Some st"
  shows "table_inv nc (svcs(name := None)) (tabs (state_stop cmd nc st k))"
    and "same_elsewhere nc (tabs k) (tabs (state_stop cmd nc st k))"
proof -
  have c: "chains_have nc (\<lambda>t. rules_of t svcs) (tabs k)" using assms(1) by (simp add: table_inv_def)
  show "table_inv nc (svcs(name := None)) (tabs (state_stop cmd nc st k))"
    by (rule table_inv_upd [OF assms(1)]) (use state_stop_spec(1) [OF c, of st] assms(2) in simp_all)
  show "same_elsewhere nc (tabs k) (tabs (state_stop cmd nc st k))" by (rule state_stop_spec(2) [OF c])
qed

lemma doUpdate_service_spec:
  assumes "ordering_ok ord" and "table_inv nc svcs (tabs k)" and "\<And>m. ms = Some m \<Longrightarrow> update_ok m"
  shows "\<exists>v k'. doUpdate_service ord env cmd nc name ms (svcs, k) = Some (svcs(name := v), k') \<and>
    table_inv nc (svcs(name := v)) (tabs k') \<and> same_elsewhere nc (tabs k) (tabs k') \<and>
    round_result (env_good (env name) \<and> (\<forall>t r C. accepts t r C)) svcs name ms v"
proof (cases ms)
  case None
  show ?thesis
  proof (cases "svcs name")
    case n: None
    then have "svcs(name := None) = svcs" by auto
    then show ?thesis using None n assms(2)
      by (intro exI [of _ None] exI [of _ k]) (simp add: doUpdate_service_def round_result_def)
  next
    case (Some st)
    then show ?thesis using None close_service [OF assms(2) Some]
      by (intro exI [of _ None]) (simp add: doUpdate_service_def round_result_def)
  qed
next
  case (Some m)
  have fin: "finite (dom svcs)" and c: "chains_have nc (\<lambda>t. rules_of t svcs) (tabs k)"
    and ok: "\<forall>s. svcs name = Some s \<longrightarrow> state_ok s"
    using assms(2) by (auto simp: table_inv_def)
  obtain e st' k' where u: "updateState ord (env name) cmd nc (svcs name) m k = Some (e, st', k')"
    "same_elsewhere nc (tabs k) (tabs k')"
    "chains_have nc (\<lambda>t. rules_of t svcs - opt_rule t (svcs name) + opt_rule t st') (tabs k')"
    "\<forall>s. st' = Some s \<longrightarrow> state_ok s" "e \<noteq> None \<longrightarrow> st' = svcs name \<and> tabs k' = tabs k"
    "e = None \<longrightarrow> (\<exists>s. st' = Some s \<and> serves m s \<and> pool_follows (svcs name) m s)"
    "env_good (env name) \<and> (\<forall>t r C. accepts t r C) \<longrightarrow> e = None"
    using updateState_spec [where env = "env name" and st = "svcs name", OF assms(1) assms(3) [OF Some] ok c opt_rule_subset [OF fin]]
    by (elim exE conjE) (rule that)
  have inv: "table_inv nc (svcs(name := st')) (tabs k')"
    by (rule table_inv_upd [OF assms(2) u(3)]) (use u(4) in blast)
  have "svcs name = None \<Longrightarrow> e \<noteq> None \<Longrightarrow> svcs(name := st') = svcs" using u(5) by auto
  then have "doUpdate_service ord env cmd nc name ms (svcs, k) = Some (svcs(name := st'), k')"
    using Some u(1,5) by (cases "svcs name"; cases e) (auto simp: doUpdate_service_def)
  moreover have "round_result (env_good (env name) \<and> (\<forall>t r C. accepts t r C)) svcs name ms st'"
    using u(5-7) Some unfolding round_result_def by (cases e) auto
  ultimately show ?thesis using inv u(2) by blast
qed


lemma round_result_mono: "round_result g svcs n ms v \<Longrightarrow> (g' \<Longrightarrow> g) \<Longrightarrow> round_result g' svcs n ms v"
  by (auto simp: round_result_def split: option.splits)

lemma updates_loop:
  assumes "ordering_ok ord" and "updates_ok u" and "table_inv nc svcs (tabs k)"
    and "\<And>n. good \<Longrightarrow> env_good (env n)" and "good \<Longrightarrow> \<forall>t r C. accepts t r C"
  shows "\<exists>x. for_keysM (\<lambda>_. muUpdates u) (doUpdate_service ord env cmd nc)
      (ord [''Updates''] (dom (muUpdates u))) (svcs, k) = Some x \<and>
    updates_done good nc (muUpdates u) svcs (tabs k) (dom (muUpdates u)) (fst x) (tabs (snd x))"
proof -
  let ?U = "muUpdates u" and ?f = "doUpdate_service ord env cmd nc"
  let ?ks = "ord [''Updates''] (dom ?U)"
  have ks: "distinct ?ks" "set ?ks = dom ?U" using assms(1,2) by (simp_all add: updates_ok_def)
  have m: "\<And>n m. ?U n = Some (Some m) \<Longrightarrow> update_ok m" using assms(2) by (simp add: updates_ok_def)
  have step: "\<exists>v k'. ?f n ms (s, j) = Some (s(n := v), k') \<and> table_inv nc (s(n := v)) (tabs k') \<and>
      same_elsewhere nc (tabs j) (tabs k') \<and> round_result good s n ms v"
    if "?U n = Some ms" "table_inv nc s (tabs j)" for n ms s j
    using doUpdate_service_spec [OF assms(1) that(2), of ms env n] m that(1) assms(4,5) round_result_mono
    by blast
  have total: "\<exists>x'. ?f n ms x = Some x' \<and> table_inv nc (fst x') (tabs (snd x'))"
    if "?U n = Some ms" "table_inv nc (fst x) (tabs (snd x))" for n ms x
    using step [OF that(1), of "fst x" "snd x"] that(2) by (cases x) force
  have "\<exists>x. for_keysM (\<lambda>_. ?U) ?f ?ks (svcs, k) = Some x \<and> table_inv nc (fst x) (tabs (snd x))"
    by (rule for_keysM_total) (use total assms(3) in auto)
  then obtain x where x: "for_keysM (\<lambda>_. ?U) ?f ?ks (svcs, k) = Some x" by blast
  have "updates_done good nc ?U svcs (tabs k) (set ?ks) (fst x) (tabs (snd x))"
  proof (rule for_keysM_visited [OF x])
    show "updates_done good nc ?U svcs (tabs k) {} (fst (svcs, k)) (tabs (snd (svcs, k)))"
      using assms(3) by (simp add: updates_done_def)
    show "distinct ?ks" by (rule ks(1))
  next
    fix n ms y y' D
    assume d: "updates_done good nc ?U svcs (tabs k) D (fst y) (tabs (snd y))" and n: "n \<notin> D" "?U n = Some ms"
      and f: "?f n ms y = Some y'"
    obtain s j where y: "y = (s, j)" by fastforce
    have inv: "table_inv nc s (tabs j)" using d y by (simp add: updates_done_def)
    obtain v k' where v: "y' = (s(n := v), k')" "table_inv nc (s(n := v)) (tabs k')"
      "same_elsewhere nc (tabs j) (tabs k')" "round_result good s n ms v"
      using step [OF n(2) inv] f y by auto
    have "s n = svcs n" using d n(1) y by (simp add: updates_done_def)
    then have "round_result good svcs n ms v" using v(4) by (cases ms) (simp_all add: round_result_def)
    then show "updates_done good nc ?U svcs (tabs k) (insert n D) (fst y') (tabs (snd y'))"
      using d n y v same_elsewhere_trans by (auto simp: updates_done_def)
  next
    fix n y D
    assume "n \<in> set ?ks" "?U n = None"
    then show "updates_done good nc ?U svcs (tabs k) (insert n D) (fst y) (tabs (snd y))" using ks(2) by auto
  qed
  then show ?thesis using x ks(2) by simp
qed

text \<open>The loop of a reset.\<close>

lemma reset_loop:
  assumes "ordering_ok ord" and "table_inv nc svcs (tabs k)"
  shows "\<exists>svcs' k'. for_keys fst (reset_service cmd nc U) (ord [''services''] (dom svcs)) (svcs, k) = (svcs', k') \<and>
    table_inv nc svcs' (tabs k') \<and> same_elsewhere nc (tabs k) (tabs k') \<and>
    (\<forall>n. svcs' n = (if Option.bind (U n) id = None then None else svcs n))"
proof -
  let ?ks = "ord [''services''] (dom svcs)"
  let ?P = "\<lambda>D x. case x of (s, j) \<Rightarrow> table_inv nc s (tabs j) \<and> same_elsewhere nc (tabs k) (tabs j) \<and>
    (\<forall>n \<in> D. s n = (if Option.bind (U n) id = None then None else svcs n)) \<and> (\<forall>n. n \<notin> D \<longrightarrow> s n = svcs n)"
  have fin: "finite (dom svcs)" using assms(2) by (simp add: table_inv_def)
  have ks: "distinct ?ks" "set ?ks = dom svcs" using assms(1) fin by simp_all
  have "?P (set ?ks) (for_keys fst (reset_service cmd nc U) ?ks (svcs, k))"
  proof (rule for_keys_visited)
    show "?P {} (svcs, k)" using assms(2) by simp
    show "distinct ?ks" by (rule ks(1))
  next
    fix n st y D
    assume d: "?P D y" and n: "n \<notin> D" "fst y n = Some st"
    obtain s j where y: "y = (s, j)" by fastforce
    have sn: "s n = Some st" "svcs n = Some st" using d n y by auto
    show "?P (insert n D) (reset_service cmd nc U n st y)"
    proof (cases "Option.bind (U n) id = None")
      case True
      have inv: "table_inv nc s (tabs j)" using d y by simp
      show ?thesis using close_service [OF inv sn(1)] True d y same_elsewhere_trans n(1)
        by (auto simp: reset_service_def)
    next
      case False
      then show ?thesis using d y sn by (auto simp: reset_service_def)
    qed
  next
    fix n y D
    assume d: "?P D y" and n: "n \<in> set ?ks" "n \<notin> D" "fst y n = None"
    then show "?P (insert n D) y" using ks(2) by (cases y) auto
  qed
  then have "?P (dom svcs) (for_keys fst (reset_service cmd nc U) ?ks (svcs, k))" using ks(2) by simp
  moreover obtain svcs' k' where r: "for_keys fst (reset_service cmd nc U) ?ks (svcs, k) = (svcs', k')" by fastforce
  ultimately have p: "table_inv nc svcs' (tabs k')" "same_elsewhere nc (tabs k) (tabs k')"
    "\<And>n. n \<in> dom svcs \<Longrightarrow> svcs' n = (if Option.bind (U n) id = None then None else svcs n)"
    "\<And>n. n \<notin> dom svcs \<Longrightarrow> svcs' n = svcs n" by simp_all
  have "svcs' n = (if Option.bind (U n) id = None then None else svcs n)" for n
    using p(3,4) [of n] by (cases "n \<in> dom svcs") auto
  then show ?thesis using r p(1,2) by blast
qed

text \<open>A whole update.\<close>

lemma doUpdate_spec:
  assumes "ordering_ok ord" and "updates_ok u" and "table_inv nc svcs (tabs k)"
    and "\<And>n. good \<Longrightarrow> env_good (env n)" and "good \<Longrightarrow> \<forall>t r C. accepts t r C"
  shows "\<exists>svcs' k'. doUpdate ord env cmd nc u (svcs, k) = Some (svcs', k') \<and>
    table_inv nc svcs' (tabs k') \<and> same_elsewhere nc (tabs k) (tabs k') \<and>
    (\<forall>n. case muUpdates u n of
           Some ms \<Rightarrow> round_result good svcs n ms (svcs' n)
         | None \<Rightarrow> svcs' n = (if muReset u then None else svcs n))"
proof -
  let ?U = "muUpdates u"
  obtain s1 k1 where x: "for_keysM (\<lambda>_. ?U) (doUpdate_service ord env cmd nc) (ord [''Updates''] (dom ?U)) (svcs, k) = Some (s1, k1)"
    "updates_done good nc ?U svcs (tabs k) (dom ?U) s1 (tabs k1)"
    using updates_loop [where good = good, OF assms] by fastforce
  have d: "table_inv nc s1 (tabs k1)" "same_elsewhere nc (tabs k) (tabs k1)"
    "\<And>n ms. ?U n = Some ms \<Longrightarrow> round_result good svcs n ms (s1 n)" "\<And>n. ?U n = None \<Longrightarrow> s1 n = svcs n"
    using x(2) by (auto simp: updates_done_def)
  show ?thesis
  proof (cases "muReset u")
    case False
    have "doUpdate ord env cmd nc u (svcs, k) = Some (s1, k1)" using x(1) False by (simp add: doUpdate_def)
    then show ?thesis using d False by (auto split: option.split)
  next
    case True
    obtain s2 k2 where r: "for_keys fst (reset_service cmd nc ?U) (ord [''services''] (dom s1)) (s1, k1) = (s2, k2)"
      "table_inv nc s2 (tabs k2)" "same_elsewhere nc (tabs k1) (tabs k2)"
      "\<And>n. s2 n = (if Option.bind (?U n) id = None then None else s1 n)"
      using reset_loop [OF assms(1) d(1)] by blast
    have "doUpdate ord env cmd nc u (svcs, k) = Some (s2, k2)" using x(1) r(1) True by (simp add: doUpdate_def)
    moreover have "case ?U n of Some ms \<Rightarrow> round_result good svcs n ms (s2 n)
        | None \<Rightarrow> s2 n = (if muReset u then None else svcs n)" for n
    proof (cases "?U n")
      case None
      then show ?thesis using r(4) True by simp
    next
      case (Some ms)
      show ?thesis
        using d(3) [OF Some] r(4) [of n] Some by (cases ms) (simp_all add: round_result_def)
    qed
    ultimately show ?thesis using r(2) same_elsewhere_trans [OF d(2) r(3)] by blast
  qed
qed


text \<open>Closing every service leaves both chains empty.\<close>

lemma services_stop_spec:
  assumes "ordering_ok ord" and "table_inv nc svcs (tabs k)"
  shows "\<exists>k'. services_stop ord cmd nc (Some svcs, k) = (None, k') \<and>
    (\<forall>t \<in> ipt_tables. tabs k' (t, ncChain nc) = Some []) \<and> same_elsewhere nc (tabs k) (tabs k')"
proof -
  let ?ks = "ord [''stop''] (dom svcs)" and ?f = "\<lambda>name st j. state_stop cmd nc st j"
  let ?P = "\<lambda>D j. table_inv nc (svcs |` (- D)) (tabs j) \<and> same_elsewhere nc (tabs k) (tabs j)"
  have fin: "finite (dom svcs)" using assms(2) by (simp add: table_inv_def)
  have ks: "distinct ?ks" "set ?ks = dom svcs" using assms(1) fin by simp_all
  have "?P (set ?ks) (for_keys (\<lambda>_. svcs) ?f ?ks k)"
  proof (rule for_keys_visited)
    have "svcs |` (- {}) = svcs" by (simp add: restrict_map_def)
    then show "?P {} k" using assms(2) by simp
    show "distinct ?ks" by (rule ks(1))
  next
    fix n st j D
    assume p: "?P D j" and n: "n \<notin> D" "svcs n = Some st"
    have "(svcs |` (- D)) n = Some st" using n by simp
    moreover have "svcs |` (- insert n D) = (svcs |` (- D))(n := None)"
      by (auto simp: restrict_map_def fun_eq_iff)
    ultimately show "?P (insert n D) (state_stop cmd nc st j)"
      using close_service [OF conjunct1 [OF p], of n st] p same_elsewhere_trans by metis
  next
    fix n j D
    assume "?P D j" "n \<in> set ?ks" "svcs n = None"
    then show "?P (insert n D) j" using ks(2) by auto
  qed
  then have p: "table_inv nc (svcs |` (- dom svcs)) (tabs (for_keys (\<lambda>_. svcs) ?f ?ks k))"
    "same_elsewhere nc (tabs k) (tabs (for_keys (\<lambda>_. svcs) ?f ?ks k))"
    using ks(2) by simp_all
  have "svcs |` (- dom svcs) = Map.empty" by (auto simp: restrict_map_def fun_eq_iff)
  then have "\<forall>t \<in> ipt_tables. tabs (for_keys (\<lambda>_. svcs) ?f ?ks k) (t, ncChain nc) = Some []"
    using p(1) by (auto simp: table_inv_def chains_have_def rules_of_def)
  then show ?thesis using p(2) by (simp add: services_stop_def)
qed

end

end
