(* ===== verification/IPTablesProps.thy ===== *)
theory IPTablesProps
  imports IPTablesCorrect
begin

text \<open>
  The properties of the chain management. They hold for every iptables that keeps its contract;
  the witnesses use the stand-in of the repository's tests.
\<close>

section \<open>Deleting rules\<close>

text \<open>
  C35: \<open>deleteChainRule\<close>, a loop without a bound, returns for every table it is called on: it
  removes every occurrence of the rule from the hook chain, changes nothing else, and reports no
  error, also when the chain does not exist.
\<close>

theorem delete_chain_rule_returns:
  assumes "iptables_contract cmd tabs accepts" and "t \<in> ipt_tables"
  shows "\<exists>k'. deleteChainRule cmd t h rule k = Some (None, k') \<and>
    tabs k' = (tabs k)((t, h) := map_option (removeAll (flatten rule [])) (tabs k (t, h)))"
  by (rule iptables_contract.deleteChainRule_spec [OF assms])

definition demo_net :: net_config where
  "demo_net = \<lparr>ncChain = ''FLUX'', ncBridge = ''docker0''\<rparr>"

definition demo_tables :: mock_state where
  "demo_tables = newMockIPTables(''nat OUTPUT'' \<mapsto> [[''-j'', ''FLUX''], [''-p'', ''udp''], [''-j'', ''FLUX'']], ''nat FLUX'' \<mapsto> [])"

theorem delete_chain_rule_returns_witness:
  "\<exists>k'. deleteChainRule mock_cmd ''nat'' ''OUTPUT'' (chainRule demo_net) demo_tables = Some (None, k') \<and>
     mock_chains k' (''nat'', ''OUTPUT'') = Some [[''-p'', ''udp'']]"
proof -
  have "''nat'' \<in> ipt_tables" by (simp add: ipt_tables_def)
  from delete_chain_rule_returns [OF mock.iptables_contract_axioms this, of "''OUTPUT''" "chainRule demo_net" demo_tables]
  obtain k' where k': "deleteChainRule mock_cmd ''nat'' ''OUTPUT'' (chainRule demo_net) demo_tables = Some (None, k')"
    "mock_chains k' = (mock_chains demo_tables)((''nat'', ''OUTPUT'') :=
       map_option (removeAll (flatten (chainRule demo_net) [])) (mock_chains demo_tables (''nat'', ''OUTPUT'')))"
    by blast
  have "mock_chains k' (''nat'', ''OUTPUT'') = Some [[''-p'', ''udp'']]"
    unfolding k'(2) by (simp add: mock_chains_def ipt_tables_def demo_tables_def chainRule_def demo_net_def)
  then show ?thesis using k'(1) by blast
qed

section \<open>Starting\<close>

text \<open>
  C33: \<open>start\<close> returns without error when nothing but the program's own hooks refers to its chain:
  the chain is there, empty, in both tables; each of the four hook chains jumps to it exactly
  once, first, with the older forms of the hook gone and all its other rules kept in order; no
  other chain is touched.
\<close>

theorem start_sets_up:
  assumes "iptables_contract cmd tabs accepts" and "start_ready accepts ipt (tabs k)"
  shows "\<exists>k'. ipt_start cmd ipt k
      = Some (None, ipt\<lparr>natChainSetup := True, filterChainSetup := True\<rparr>, k') \<and>
    tabs k' (''nat'', ncChain ipt) = Some [] \<and> tabs k' (''filter'', ncChain ipt) = Some [] \<and>
    (\<forall>(t, h) \<in> {''nat''} \<times> set nat_hooks \<union> {''filter''} \<times> set filter_hooks.
       tabs k' (t, h) = map_option (\<lambda>rs. flatten (chainRule ipt) [] # unhook ipt rs) (tabs k (t, h))) \<and>
    (\<forall>t c. c \<noteq> ncChain ipt \<and> (t, c) \<notin> {''nat''} \<times> set nat_hooks \<union> {''filter''} \<times> set filter_hooks
       \<or> t \<notin> ipt_tables \<longrightarrow> tabs k' (t, c) = tabs k (t, c))"
proof -
  obtain k' where k': "ipt_start cmd ipt k
      = Some (None, ipt\<lparr>natChainSetup := True, filterChainSetup := True\<rparr>, k')"
    "tabs k' = started ipt (tabs k)"
    using iptables_contract.start_spec [OF assms] by blast
  have c: "ncChain ipt \<notin> set nat_hooks" "ncChain ipt \<notin> set filter_hooks"
    using assms(2) by (auto simp: start_ready_def setup_ready_def)
  have "tabs k' (''nat'', ncChain ipt) = Some []" "tabs k' (''filter'', ncChain ipt) = Some []"
    unfolding k'(2) started_def by (simp_all add: set_up_def)
  moreover have "tabs k' (''nat'', h) = map_option (\<lambda>rs. flatten (chainRule ipt) [] # unhook ipt rs) (tabs k (''nat'', h))"
    if "h \<in> set nat_hooks" for h
    unfolding k'(2) started_def using that c by (auto simp: set_up_def)
  moreover have "tabs k' (''filter'', h) = map_option (\<lambda>rs. flatten (chainRule ipt) [] # unhook ipt rs) (tabs k (''filter'', h))"
    if "h \<in> set filter_hooks" for h
    unfolding k'(2) started_def using that c by (auto simp: set_up_def)
  moreover have "tabs k' (t, c) = tabs k (t, c)"
    if "c \<noteq> ncChain ipt \<and> (t, c) \<notin> {''nat''} \<times> set nat_hooks \<union> {''filter''} \<times> set filter_hooks \<or> t \<notin> ipt_tables" for t c
    unfolding k'(2) started_def using that by (auto simp: set_up_def ipt_tables_def)
  ultimately show ?thesis using k'(1) by blast
qed

text \<open>An iptables without rules is ready, whatever stand-in state has the four builtin chains.\<close>

lemma fresh_mock_ready: "start_ready (\<lambda>_ _ _. True) demo_net (mock_chains newMockIPTables)"
proof -
  have "rs = []" if "mock_chains newMockIPTables (t, c) = Some rs" for t c rs
    using that by (auto simp: mock_chains_def newMockIPTables_def split: if_splits)
  then have "ours_only demo_net t hooks (mock_chains newMockIPTables)" for t hooks
    unfolding ours_only_def by force
  then show ?thesis
    by (simp add: start_ready_def setup_ready_def demo_net_def mock_chains_def newMockIPTables_def ipt_tables_def)
qed

lemma ready_newIPTables: "start_ready a (newIPTables nc) = start_ready a nc"
proof -
  have "setup_ready a (newIPTables nc) = setup_ready a nc"
    by (rule same_net_config) (simp_all add: newIPTables_def)
  then show ?thesis by (simp add: start_ready_def fun_eq_iff)
qed

theorem start_sets_up_witness:
  "\<exists>ipt' k'. ipt_start mock_cmd (newIPTables demo_net) newMockIPTables = Some (None, ipt', k') \<and>
     mock_chains k' (''nat'', ''FLUX'') = Some []"
proof -
  have "start_ready (\<lambda>_ _ _. True) (newIPTables demo_net) (mock_chains newMockIPTables)"
    by (simp add: ready_newIPTables fresh_mock_ready)
  from start_sets_up [of mock_cmd mock_chains "\<lambda>_ _ _. True", OF mock.iptables_contract_axioms this]
  have "\<exists>k'. ipt_start mock_cmd (newIPTables demo_net) newMockIPTables
      = Some (None, (newIPTables demo_net)\<lparr>natChainSetup := True, filterChainSetup := True\<rparr>, k') \<and>
    mock_chains k' (''nat'', ncChain (newIPTables demo_net)) = Some []"
    by (elim exE conjE) (intro exI conjI; assumption)
  moreover have "ncChain (newIPTables demo_net) = ''FLUX''" by (simp add: newIPTables_def demo_net_def)
  ultimately show ?thesis by auto
qed

text \<open>
  C34: Starting again after a crash repairs the tables: whatever rules the dead process left in
  its own chains, a new \<open>start\<close> brings the tables back to exactly what the first one made. No
  stale rule and no second hook remains.
\<close>

theorem restart_repairs:
  assumes "iptables_contract cmd tabs accepts" and "start_ready accepts ipt (tabs k)"
    and "ipt_start cmd ipt k = Some (None, ipt1, k1)"
    and "tabs k2 = (tabs k1)((''nat'', ncChain ipt) \<mapsto> rules1, (''filter'', ncChain ipt) \<mapsto> rules2)"
  shows "\<exists>ipt3 k3. ipt_start cmd ipt k2 = Some (None, ipt3, k3) \<and> tabs k3 = tabs k1"
proof -
  let ?c = "ncChain ipt"
  have k1: "tabs k1 = started ipt (tabs k)"
    using iptables_contract.start_spec [OF assms(1,2)] assms(3) by auto
  have c: "?c \<notin> set nat_hooks" "?c \<notin> set filter_hooks"
    using assms(2) by (auto simp: start_ready_def setup_ready_def)
  have "setup_ready accepts ipt t hooks (tabs k2)"
    if "setup_ready accepts ipt t hooks (tabs k1)" "t = ''nat'' \<or> t = ''filter''" for t hooks
    by (rule setup_ready_own [OF that(1)]) (use that(2) in \<open>auto simp: assms(4)\<close>)
  then have ready: "start_ready accepts ipt (tabs k2)"
    using start_ready_started [OF assms(2)] unfolding start_ready_def k1 by blast
  have "started ipt (tabs k2) = started ipt (tabs k1)"
    using c by (auto simp: assms(4) started_def set_up_def fun_eq_iff)
  then have "started ipt (tabs k2) = tabs k1" using started_again [OF assms(2)] k1 by simp
  then show ?thesis using iptables_contract.start_spec [OF assms(1) ready] by auto
qed

theorem restart_repairs_witness:
  "\<exists>ipt1 k1 ipt3 k3. ipt_start mock_cmd (newIPTables demo_net) newMockIPTables = Some (None, ipt1, k1) \<and>
     ipt_start mock_cmd (newIPTables demo_net) (k1(''nat FLUX'' \<mapsto> [[''-p'', ''udp'']], ''filter FLUX'' \<mapsto> []))
       = Some (None, ipt3, k3) \<and> mock_chains k3 = mock_chains k1"
proof -
  let ?ipt = "newIPTables demo_net"
  have r: "start_ready (\<lambda>_ _ _. True) ?ipt (mock_chains newMockIPTables)"
    by (simp add: ready_newIPTables fresh_mock_ready)
  obtain ipt1 k1 where k1: "ipt_start mock_cmd ?ipt newMockIPTables = Some (None, ipt1, k1)"
    using mock.start_spec [OF r] by blast
  have c: "ncChain ?ipt = ''FLUX''" by (simp add: newIPTables_def demo_net_def)
  have "mock_chains (k1(''nat FLUX'' \<mapsto> [[''-p'', ''udp'']], ''filter FLUX'' \<mapsto> []))
    = (mock_chains k1)((''nat'', ncChain ?ipt) \<mapsto> [[''-p'', ''udp'']], (''filter'', ncChain ?ipt) \<mapsto> [])"
    using mock_chains_upd [of "''nat''" k1 "''FLUX''"]
      mock_chains_upd [of "''filter''" "k1(''nat FLUX'' \<mapsto> [[''-p'', ''udp'']])" "''FLUX''"]
    by (simp add: ipt_tables_def c)
  from restart_repairs [of mock_cmd mock_chains "\<lambda>_ _ _. True", OF mock.iptables_contract_axioms r k1 this] k1 show ?thesis by blast
qed

section \<open>Stopping\<close>

text \<open>
  \<open>stop\<close> returns and undoes the filter table completely, but in the nat table it takes the hook
  out of PREROUTING only: the rules of OUTPUT stay as they are, jump to the chain included, so
  iptables has to refuse to delete the chain.
\<close>

theorem stop_leaves_output_hook:
  assumes "iptables_contract cmd tabs accepts" and "start_ready accepts ipt (tabs k)"
    and "ipt_start cmd ipt k = Some (None, ipt1, k1)"
  shows "\<exists>ipt2 k2. ipt_stop cmd ipt1 k1 = Some (ipt2, k2) \<and>
    \<not> natChainSetup ipt2 \<and> \<not> filterChainSetup ipt2 \<and>
    tabs k2 (''filter'', ncChain ipt) = None \<and>
    tabs k2 (''nat'', ''PREROUTING'') = map_option (unhook ipt) (tabs k (''nat'', ''PREROUTING'')) \<and>
    (\<exists>rs. tabs k2 (''nat'', ''OUTPUT'') = Some ([''-j'', ncChain ipt] # rs))"
proof -
  let ?ipt = "ipt\<lparr>natChainSetup := True, filterChainSetup := True\<rparr>"
  have s: "ipt1 = ?ipt" "tabs k1 = started ipt (tabs k)"
    using iptables_contract.start_spec [OF assms(1,2)] assms(3) by auto
  have same: "start_ready accepts ?ipt = start_ready accepts ipt" "unhook ?ipt = unhook ipt"
    using same_net_config(6) [of ?ipt ipt] same_net_config(3) [of ?ipt ipt]
    by (simp_all add: start_ready_def fun_eq_iff)
  have "start_ready accepts ?ipt (tabs k1)" using start_ready_started [OF assms(2)] by (simp add: same s(2))
  moreover have "tabs k1 (''nat'', ncChain ?ipt) \<noteq> None" "tabs k1 (''filter'', ncChain ?ipt) \<noteq> None"
    by (simp_all add: s(2) started_def set_up_def)
  ultimately obtain k2 where k2: "ipt_stop cmd ?ipt k1 = Some (?ipt\<lparr>natChainSetup := False, filterChainSetup := False\<rparr>, k2)"
    "tabs k2 (''filter'', ncChain ipt) = None"
    "tabs k2 (''nat'', ''PREROUTING'') = map_option (unhook ipt) (tabs k1 (''nat'', ''PREROUTING''))"
    "tabs k2 (''nat'', ''OUTPUT'') = tabs k1 (''nat'', ''OUTPUT'')"
    using iptables_contract.stop_spec [OF assms(1), of ?ipt k1] same(2) by auto
  have c: "ncChain ipt \<notin> set nat_hooks" and out: "tabs k (''nat'', ''OUTPUT'') \<noteq> None"
    using assms(2) by (auto simp: start_ready_def setup_ready_def)
  have "tabs k2 (''nat'', ''PREROUTING'') = map_option (unhook ipt) (tabs k (''nat'', ''PREROUTING''))"
    using k2(3) c by (auto simp: s(2) started_def set_up_def option.map_comp comp_def)
  moreover obtain rs where "tabs k2 (''nat'', ''OUTPUT'') = Some ([''-j'', ncChain ipt] # rs)"
    using k2(4) c out by (auto simp: s(2) started_def set_up_def chainRule_def)
  ultimately show ?thesis
    using k2(1,2) s(1) by (intro exI [of _ "?ipt\<lparr>natChainSetup := False, filterChainSetup := False\<rparr>"] exI [of _ k2]) simp
qed

theorem stop_leaves_output_hook_witness:
  "\<exists>ipt1 k1 ipt2 k2 rs. ipt_start mock_cmd (newIPTables demo_net) newMockIPTables = Some (None, ipt1, k1) \<and>
     ipt_stop mock_cmd ipt1 k1 = Some (ipt2, k2) \<and>
     mock_chains k2 (''nat'', ''OUTPUT'') = Some ([''-j'', ''FLUX''] # rs)"
proof -
  let ?ipt = "newIPTables demo_net"
  have r: "start_ready (\<lambda>_ _ _. True) ?ipt (mock_chains newMockIPTables)"
    by (simp add: ready_newIPTables fresh_mock_ready)
  obtain ipt1 k1 where k1: "ipt_start mock_cmd ?ipt newMockIPTables = Some (None, ipt1, k1)"
    using mock.start_spec [OF r] by blast
  have c: "ncChain ?ipt = ''FLUX''" by (simp add: newIPTables_def demo_net_def)
  from stop_leaves_output_hook [of mock_cmd mock_chains "\<lambda>_ _ _. True", OF mock.iptables_contract_axioms r k1] k1 show ?thesis
    unfolding c by blast
qed

section \<open>Error text\<close>

text \<open>
  The output of a failed command is cut to its first 200 characters before it goes into the
  error, and no control character remains in it.
\<close>

theorem sanitize_bounds:
  "sanitizeIPTablesOutput out = List.map (\<lambda>c. if isControl c then CHR '' '' else c) (take 200 out) \<and>
     length (sanitizeIPTablesOutput out) = min 200 (length out) \<and>
     list_all (\<lambda>c. \<not> isControl c) (sanitizeIPTablesOutput out)"
proof -
  have "sanitize_loop n s = List.map (\<lambda>c. if isControl c then CHR '' '' else c) (take n s)" for n s
  proof (induction s arbitrary: n)
    case (Cons c s)
    then show ?case by (cases n) auto
  qed simp
  then have "sanitizeIPTablesOutput out = List.map (\<lambda>c. if isControl c then CHR '' '' else c) (take 200 out)"
    by (simp add: sanitizeIPTablesOutput_def)
  then show ?thesis by (auto simp: list_all_iff isControl_def)
qed

end
