(* ===== verification/Balancer.thy ===== *)
theory Balancer
  imports ServicesCorrect IPTablesProps
begin

text \<open>
  The balancer as a whole (\<open>balancer/balancer.go\<close>): it starts the chain management, then the
  service table, which handles the updates one after the other, and stops them in the reverse
  order. The theorems follow an update from the store to the rules in the kernel.
\<close>

section \<open>Start, run and stop\<close>

text \<open>\<open>bServices\<close> is \<open>None\<close> when the services were never started or are stopped.\<close>

record balancer =
  bIpTables :: ip_tables
  bServices :: "service_table option"

definition balancer_start ::
  "'k iptables_cmd \<Rightarrow> net_config \<Rightarrow> 'k \<Rightarrow> (ipt_error option \<times> balancer \<times> 'k) option" where
  "balancer_start cmd nc k =
     (case ipt_start cmd (newIPTables nc) k of
        None \<Rightarrow> None
      | Some (Some e, ipt, k1) \<Rightarrow> Some (Some e, \<lparr>bIpTables = ipt, bServices = None\<rparr>, k1)
      | Some (None, ipt, k1) \<Rightarrow> Some (None, \<lparr>bIpTables = ipt, bServices = Some Map.empty\<rparr>, k1))"

text \<open>The loop of \<open>run\<close> over the updates it receives, each with its orders and environments.\<close>

fun services_run ::
  "'k iptables_cmd \<Rightarrow> 'a net_config_scheme \<Rightarrow>
     (string ordering \<times> (string \<Rightarrow> start_env) \<times> model_update) list \<Rightarrow>
     service_table \<times> 'k \<Rightarrow> (service_table \<times> 'k) option" where
  "services_run cmd nc [] x = Some x"
| "services_run cmd nc ((ord, env, u) # us) x =
     (case doUpdate ord env cmd nc u x of None \<Rightarrow> None | Some x' \<Rightarrow> services_run cmd nc us x')"

definition balancer_Stop ::
  "string ordering \<Rightarrow> 'k iptables_cmd \<Rightarrow> balancer \<times> 'k \<Rightarrow> (balancer \<times> 'k) option" where
  "balancer_Stop ord cmd x =
     (case x of (b, k) \<Rightarrow>
        (let (svcs, k1) = services_stop ord cmd (bIpTables b) (bServices b, k) in
         map_option (\<lambda>(ipt, k2). (\<lparr>bIpTables = ipt, bServices = svcs\<rparr>, k2)) (ipt_stop cmd (bIpTables b) k1)))"

section \<open>From the store to the model\<close>

definition store_update_ok :: "service_update \<Rightarrow> bool" where
  "store_update_ok su \<longleftrightarrow> finite (dom (suServices su)) \<and>
     (\<forall>n info. suServices su n = Some (Some info) \<longrightarrow> finite (dom (Instances info)))"

lemma sendUpdate_ok: "store_update_ok su \<Longrightarrow> updates_ok (sendUpdate True su)"
proof -
  assume su: "store_update_ok su"
  have "dom (muUpdates (sendUpdate True su)) = dom (suServices su)"
    by (auto simp: sendUpdate_def)
  moreover have "update_ok m" if m: "muUpdates (sendUpdate True su) n = Some (Some m)" for n m
  proof -
    obtain info where i: "suServices su n = Some (Some info)" "Address info \<noteq> None"
      "m = \<lparr>msName = n, msProtocol = Protocol info, msAddress = Address info,
        msInstances = (\<lambda>instName. Option.bind (Instances info instName) instAddress)\<rparr>"
      using m by (auto simp: sendUpdate_def translateService_def split: option.splits if_splits)
    have "dom (msInstances m) \<subseteq> dom (Instances info)" unfolding i(3) by (auto simp: bind_eq_Some_conv)
    then have "finite (dom (msInstances m))"
      using su i(1) finite_subset unfolding store_update_ok_def by blast
    then show ?thesis using i(2,3) by (simp add: update_ok_def)
  qed
  ultimately show ?thesis using su by (simp add: updates_ok_def store_update_ok_def)
qed

section \<open>Runs\<close>

definition run_updates_ok :: "(string ordering \<times> (string \<Rightarrow> start_env) \<times> model_update) list \<Rightarrow> bool" where
  "run_updates_ok us \<longleftrightarrow> (\<forall>(ord, env, u) \<in> set us. ordering_ok ord \<and> updates_ok u)"

context iptables_contract begin

lemma services_run_spec:
  assumes "run_updates_ok us" and "table_inv nc svcs (tabs k)"
  shows "\<exists>svcs' k'. services_run cmd nc us (svcs, k) = Some (svcs', k') \<and>
    table_inv nc svcs' (tabs k') \<and> same_elsewhere nc (tabs k) (tabs k')"
  using assms
proof (induction us arbitrary: svcs k)
  case Nil
  then show ?case by simp
next
  case (Cons x us)
  obtain ord env u where x: "x = (ord, env, u)" by (cases x)
  have ok: "ordering_ok ord" "updates_ok u" "run_updates_ok us"
    using Cons.prems(1) by (auto simp: run_updates_ok_def x)
  obtain s1 k1 where d: "doUpdate ord env cmd nc u (svcs, k) = Some (s1, k1)" "table_inv nc s1 (tabs k1)"
    "same_elsewhere nc (tabs k) (tabs k1)"
    using doUpdate_spec [where good = False and env = env, OF ok(1,2) Cons.prems(2)] by blast
  from Cons.IH [OF ok(3) d(2)] same_elsewhere_trans [OF d(3)] show ?case using d(1) by (fastforce simp: x)
qed

end

lemma table_inv_empty:
  assumes "C (''nat'', ncChain nc) = Some []" and "C (''filter'', ncChain nc) = Some []"
  shows "table_inv nc Map.empty C"
  using assms by (auto simp: table_inv_def chains_have_def rules_of_def ipt_tables_def)

lemma table_inv_net:
  "ncChain nc = ncChain nc' \<Longrightarrow> table_inv nc = table_inv nc'"
  by (simp add: table_inv_def chains_have_def fun_eq_iff)

end
