(* ===== verification/BalancerProps.thy ===== *)
theory BalancerProps
  imports Balancer
begin

text \<open>
  The properties of the services and of the balancer: which service is in which state, which
  rules are in the kernel, and what is left after a stop. They hold for every iptables that keeps
  its contract; the witnesses use the stand-in of the repository's tests.
\<close>

section \<open>Equality of services\<close>

text \<open>
  \<open>Service.Equal\<close> decides equality of name, protocol, address and instances, whatever order
  the maps are visited in, except that it panics on two services of the same name and protocol
  that both have no address.
\<close>

theorem service_equal_decides:
  assumes "ordering_ok ord" and "finite (dom (msInstances a))" and "finite (dom (msInstances b))"
  shows "service_Equal ord a b =
    (if msName a = msName b \<and> msProtocol a = msProtocol b \<and> msAddress a = None \<and> msAddress b = None
     then None else Some (a = b))"
proof (cases "msAddress a = None")
  case True
  then show ?thesis by (auto simp: service_Equal_def)
next
  case False
  then show ?thesis using service_Equal_iff [OF assms False] by simp
qed

definition web_at :: "ipport \<Rightarrow> (string \<rightharpoonup> ipport) \<Rightarrow> model_service" where
  "web_at a insts = \<lparr>msName = ''web'', msProtocol = ''http'', msAddress = Some a, msInstances = insts\<rparr>"

definition demo_addr :: ipport where
  "demo_addr = newIPPort (List.map char_of [10, 254, 0, 1 :: nat]) 80"

theorem service_equal_decides_witness:
  "service_Equal sorted_ordering (web_at demo_addr [''a'' \<mapsto> demo_addr]) (web_at demo_addr Map.empty) = Some False"
  by (subst service_equal_decides) (simp_all add: web_at_def)

section \<open>An update of the services\<close>


definition demo_env :: start_env where
  "demo_env = \<lparr>seBridgeAddrs = Some [OtherAddr, IPNetAddr (List.map char_of [172, 17, 0, 1 :: nat])],
     seListen = (\<lambda>a. Some (a, 32768)), seClock = 5\<rparr>"

definition demo_update :: model_update where
  "demo_update = \<lparr>muUpdates = [''web'' \<mapsto> Some (web_at demo_addr [''a'' \<mapsto> demo_addr])], muReset = True\<rparr>"

definition demo_kernel :: mock_state where
  "demo_kernel = newMockIPTables(''nat FLUX'' \<mapsto> [], ''filter FLUX'' \<mapsto> [])"

lemma demo_env_good: "env_good demo_env"
  by (simp add: env_good_def demo_env_def bridgeIP_def to4_def)

lemma demo_update_ok: "updates_ok demo_update"
  by (auto simp: updates_ok_def demo_update_def update_ok_def web_at_def split: if_splits)

lemma demo_table_inv: "table_inv demo_net Map.empty (mock_chains demo_kernel)"
  by (rule table_inv_empty)
    (simp_all add: mock_chains_def demo_kernel_def demo_net_def ipt_tables_def newMockIPTables_def)


section \<open>From the store to the kernel\<close>

text \<open>What an update with a reset leaves of a service, if each service ends as its part of the update says.\<close>

lemma reset_serves:
  assumes "suReset su"
    and "case muUpdates (sendUpdate True su) n of
           Some ms \<Rightarrow> round_result True svcs n ms (svcs' n)
         | None \<Rightarrow> svcs' n = (if muReset (sendUpdate True su) then None else svcs n)"
  shows "(\<exists>info m s. suServices su n = Some (Some info) \<and> Address info \<noteq> None \<and>
      translateService n (Some info) True = Some m \<and> svcs' n = Some s \<and> serves m s) \<or>
    (\<nexists>info. suServices su n = Some (Some info) \<and> Address info \<noteq> None) \<and> svcs' n = None"
proof (cases "suServices su n")
  case None
  then show ?thesis using assms by (simp add: sendUpdate_def)
next
  case (Some x)
  then have x: "muUpdates (sendUpdate True su) n = Some (translateService n x True)" by (simp add: sendUpdate_def)
  show ?thesis
  proof (cases "translateService n x True")
    case None
    then show ?thesis using assms(2) x Some
      by (auto simp: round_result_def translateService_def split: option.splits if_splits)
  next
    case m: (Some m)
    then obtain info where "x = Some info" "Address info \<noteq> None"
      by (auto simp: translateService_def split: option.splits if_splits)
    then show ?thesis using assms(2) x Some m by (auto simp: round_result_def)
  qed
qed


definition demo_info :: service_info where
  "demo_info = \<lparr>Address = Some demo_addr, InstancePort = 0, Protocol = ''http'',
     Instances = [''a'' \<mapsto> \<lparr>instHost = \<lparr>hostAddr = []\<rparr>, instContainerRule = ''r'',
       instAddress = Some demo_addr, instLabels = Map.empty\<rparr>],
     ContainerRules = Map.empty, IngressInstances = Map.empty\<rparr>"

definition demo_store_update :: service_update where
  "demo_store_update = \<lparr>suServices = [''web'' \<mapsto> Some demo_info, ''db'' \<mapsto> Some (demo_info\<lparr>Address := None\<rparr>)],
     suReset = True\<rparr>"

lemma demo_store_update_ok: "store_update_ok demo_store_update"
  by (auto simp: store_update_ok_def demo_store_update_def demo_info_def split: if_splits)


section \<open>Stopping the balancer\<close>

text \<open>
  Stopping a balancer that started on ready tables and handled any updates returns; no rule of
  a service is left: the filter chain is gone, the nat chain is gone or empty, the hooks of the
  filter table and of PREROUTING are removed with all foreign rules kept. The hook in OUTPUT
  stays.
\<close>

theorem balancer_stop_cleans:
  assumes "iptables_contract cmd tabs accepts" and "start_ready accepts (newIPTables nc) (tabs k)"
    and "balancer_start cmd nc k = Some (None, b, k1)" and "run_updates_ok us" and "ordering_ok ord"
    and "services_run cmd (bIpTables b) us (Map.empty, k1) = Some (svcs, k2)"
  shows "\<exists>b' k'. balancer_Stop ord cmd (b\<lparr>bServices := Some svcs\<rparr>, k2) = Some (b', k') \<and>
    bServices b' = None \<and>
    tabs k' (''filter'', ncChain nc) = None \<and>
    (tabs k' (''nat'', ncChain nc) = None \<or> tabs k' (''nat'', ncChain nc) = Some []) \<and>
    (\<forall>h \<in> set filter_hooks. tabs k' (''filter'', h) = map_option (unhook nc) (tabs k (''filter'', h))) \<and>
    tabs k' (''nat'', ''PREROUTING'') = map_option (unhook nc) (tabs k (''nat'', ''PREROUTING'')) \<and>
    tabs k' (''nat'', ''OUTPUT'') = map_option (\<lambda>rs. [''-j'', ncChain nc] # unhook nc rs) (tabs k (''nat'', ''OUTPUT''))"
proof -
  let ?ipt = "(newIPTables nc)\<lparr>natChainSetup := True, filterChainSetup := True\<rparr>"
  have k1: "b = \<lparr>bIpTables = ?ipt, bServices = Some Map.empty\<rparr>" "tabs k1 = started nc (tabs k)"
  proof -
    have "\<exists>k'. ipt_start cmd (newIPTables nc) k = Some (None, ?ipt, k') \<and> tabs k' = started (newIPTables nc) (tabs k)"
      by (rule iptables_contract.start_spec [OF assms(1,2)])
    moreover have "started (newIPTables nc) = started nc"
    proof -
      have "set_up (newIPTables nc) = set_up nc" by (rule same_net_config) (simp_all add: newIPTables_def)
      then show ?thesis by (intro ext) (simp add: started_def)
    qed
    ultimately show "b = \<lparr>bIpTables = ?ipt, bServices = Some Map.empty\<rparr>" "tabs k1 = started nc (tabs k)"
      using assms(3) by (auto simp: balancer_start_def)
  qed
  have net: "ncChain ?ipt = ncChain nc" "unhook ?ipt = unhook nc" "chainRule nc = [Str ''-j'', Str (ncChain nc)]"
    "setup_ready accepts ?ipt = setup_ready accepts nc"
    using same_net_config(3) [of ?ipt nc] same_net_config(6) [of ?ipt nc] by (simp_all add: newIPTables_def chainRule_def)
  have ready: "start_ready accepts nc (tabs k1)"
    using assms(2) start_ready_started [of accepts nc "tabs k"] by (simp add: k1(2) ready_newIPTables)
  then have c: "ncChain nc \<notin> set nat_hooks" "ncChain nc \<notin> set filter_hooks"
    by (auto simp: start_ready_def setup_ready_def)
  have "table_inv ?ipt Map.empty (tabs k1)"
    by (rule table_inv_empty) (simp_all add: k1(2) started_def set_up_def net)
  then have r: "table_inv ?ipt svcs (tabs k2)" "same_elsewhere ?ipt (tabs k1) (tabs k2)"
    using iptables_contract.services_run_spec [OF assms(1,4), where nc = ?ipt and svcs = Map.empty and k = k1]
      assms(6) k1(1) by auto
  obtain k3 where k3: "services_stop ord cmd ?ipt (Some svcs, k2) = (None, k3)"
    "\<forall>t \<in> ipt_tables. tabs k3 (t, ncChain nc) = Some []" "same_elsewhere ?ipt (tabs k2) (tabs k3)"
    using iptables_contract.services_stop_spec [OF assms(1,5) r(1)] net(1) by auto
  have own: "tabs k3 (''nat'', ncChain nc) = Some []" "tabs k3 (''filter'', ncChain nc) = Some []"
    using k3(2) by (simp_all add: ipt_tables_def)
  have away: "tabs k3 (t, c) = tabs k1 (t, c)" if "c \<noteq> ncChain nc" for t c
    using r(2) k3(3) that net(1) by (simp add: same_elsewhere_def)
  have "setup_ready accepts nc t hooks (tabs k3)" if "setup_ready accepts nc t hooks (tabs k1)" "t = ''nat'' \<or> t = ''filter''" for t hooks
    by (rule setup_ready_own [OF that(1)]) (use that(2) own away in auto)
  then have "start_ready accepts ?ipt (tabs k3)" using ready by (simp add: start_ready_def net)
  moreover have "tabs k3 (''nat'', ncChain ?ipt) \<noteq> None" "tabs k3 (''filter'', ncChain ?ipt) \<noteq> None"
    using own net(1) by simp_all
  ultimately obtain k4 where k4: "ipt_stop cmd ?ipt k3 = Some (?ipt\<lparr>natChainSetup := False, filterChainSetup := False\<rparr>, k4)"
    "tabs k4 (''filter'', ncChain nc) = None"
    "\<And>h. h \<in> set filter_hooks \<Longrightarrow> tabs k4 (''filter'', h) = map_option (unhook nc) (tabs k3 (''filter'', h))"
    "tabs k4 (''nat'', ''PREROUTING'') = map_option (unhook nc) (tabs k3 (''nat'', ''PREROUTING''))"
    "tabs k4 (''nat'', ''OUTPUT'') = tabs k3 (''nat'', ''OUTPUT'')"
    "tabs k4 (''nat'', ncChain nc) = None \<or> tabs k4 (''nat'', ncChain nc) = Some []"
    using iptables_contract.stop_spec [OF assms(1), of ?ipt k3] net(1,2) by auto
  have hooks: "tabs k3 (t, h) = map_option (\<lambda>rs. [''-j'', ncChain nc] # unhook nc rs) (tabs k (t, h))"
    if "t = ''nat'' \<and> h \<in> set nat_hooks \<or> t = ''filter'' \<and> h \<in> set filter_hooks" for t h
    using that c away [of h t] by (auto simp: k1(2) started_def set_up_def net(3))
  have "map_option (unhook nc) (tabs k3 (t, h)) = map_option (unhook nc) (tabs k (t, h))"
    if "t = ''nat'' \<and> h \<in> set nat_hooks \<or> t = ''filter'' \<and> h \<in> set filter_hooks" for t h
    using hooks [OF that] unhook_hook [of nc] by (simp add: option.map_comp comp_def net(3))
  then show ?thesis
    using k3(1) k4 hooks [of "''nat''" "''OUTPUT''"]
    by (intro exI [of _ "\<lparr>bIpTables = ?ipt\<lparr>natChainSetup := False, filterChainSetup := False\<rparr>, bServices = None\<rparr>"] exI [of _ k4])
      (simp add: balancer_Stop_def k1(1))
qed

theorem balancer_stop_cleans_witness:
  "\<exists>b k1 b' k'. balancer_start mock_cmd demo_net newMockIPTables = Some (None, b, k1) \<and>
     balancer_Stop sorted_ordering mock_cmd (b\<lparr>bServices := Some Map.empty\<rparr>, k1) = Some (b', k') \<and>
     mock_chains k' (''filter'', ''FLUX'') = None"
proof -
  have ready: "start_ready (\<lambda>_ _ _. True) (newIPTables demo_net) (mock_chains newMockIPTables)"
    by (simp add: ready_newIPTables fresh_mock_ready)
  obtain ipt k1 where "ipt_start mock_cmd (newIPTables demo_net) newMockIPTables = Some (None, ipt, k1)"
    using mock.start_spec [OF ready] by blast
  then have k1: "balancer_start mock_cmd demo_net newMockIPTables
      = Some (None, \<lparr>bIpTables = ipt, bServices = Some Map.empty\<rparr>, k1)"
    by (simp add: balancer_start_def)
  have "run_updates_ok []" by (simp add: run_updates_ok_def)
  moreover have "services_run mock_cmd (bIpTables \<lparr>bIpTables = ipt, bServices = Some Map.empty\<rparr>) [] (Map.empty, k1)
      = Some (Map.empty, k1)" by simp
  ultimately obtain b' k' where
    "balancer_Stop sorted_ordering mock_cmd (\<lparr>bIpTables = ipt, bServices = Some Map.empty\<rparr>\<lparr>bServices := Some Map.empty\<rparr>, k1) = Some (b', k')"
    "mock_chains k' (''filter'', ncChain demo_net) = None"
    using balancer_stop_cleans [where cmd = mock_cmd and tabs = mock_chains and accepts = "\<lambda>_ _ _. True",
        OF mock.iptables_contract_axioms ready k1 _ sorted_ordering_ok] by blast
  moreover have "ncChain demo_net = ''FLUX''" by (simp add: demo_net_def)
  ultimately show ?thesis using k1 by fastforce
qed

section \<open>Updates that are missed\<close>

text \<open>
  A forwarding service remembers the description it was started with, not its last update.
  When its instances change at the same address and then change back, the second change is taken
  for no change: the pool keeps the names of the first one.
\<close>

theorem service_stale_instances:
  assumes "ordering_ok ord" and "update_ok m" and "update_ok m'" and "state_ok (Forwarding f)"
    and "fgService f = m" and "msAddress m' = msAddress m" and "m' \<noteq> m"
    and "msInstances m \<noteq> Map.empty" and "msInstances m' \<noteq> Map.empty"
  shows "\<exists>f'. state_update ord now (Forwarding f) m' = Some (True, Forwarding f') \<and>
    service_pool_names (Forwarding f') = dom (msInstances m') \<and>
    state_update ord now' (Forwarding f') m = Some (True, Forwarding f')"
proof -
  obtain st' ok where st: "state_update ord now (Forwarding f) m' = Some (ok, st')" "state_ok st'"
    "ok \<longrightarrow> serves m' st' \<and> pool_follows (Some (Forwarding f)) m' st'"
    using state_update_spec [OF assms(1,3,4)] by blast
  obtain a where a: "msAddress m = Some a" using assms(2) by (auto simp: update_ok_def)
  have fin: "finite (dom (msInstances m))" "finite (dom (msInstances m'))"
    using assms(2,3) by (simp_all add: update_ok_def)
  have eq: "service_Equal ord m' m = Some False" "service_Equal ord m m = Some True"
    using service_Equal_iff [OF assms(1) fin(2,1)] service_Equal_iff [OF assms(1) fin(1,1)] a assms(6,7) by auto
  let ?f = "f\<lparr>fgForwarder := SetForwarderInstances ord now (msInstances m') (SetProtocol (msProtocol m') (fgForwarder f))\<rparr>"
  have u: "state_update ord now (Forwarding f) m' = Some (True, Forwarding ?f)"
    using eq(1) a assms(5,6,9) by (simp add: state_update_def ipport_Equal_def)
  then have "pool_follows (Some (Forwarding f)) m' (Forwarding ?f)" using st by simp
  then have "service_pool_names (Forwarding ?f) = dom (msInstances m')"
    using assms(5,7) by (auto simp: pool_follows_def wanted_names_def)
  moreover have "state_update ord now' (Forwarding ?f) m = Some (True, Forwarding ?f)"
    using eq(2) assms(5,8) by (simp add: state_update_def)
  ultimately show ?thesis using u by blast
qed

definition stale_forwarding :: forwarding where
  "stale_forwarding = \<lparr>fgService = web_at demo_addr [''a'' \<mapsto> demo_addr], fgForwarder = new_forwarder ''web'',
     fgRule = dnat_rule demo_addr ([], 32768)\<rparr>"

theorem service_stale_instances_witness:
  "\<exists>f'. state_update sorted_ordering 1 (Forwarding stale_forwarding) (web_at demo_addr [''b'' \<mapsto> demo_addr])
       = Some (True, Forwarding f') \<and>
     service_pool_names (Forwarding f') = {''b''} \<and>
     state_update sorted_ordering 2 (Forwarding f') (web_at demo_addr [''a'' \<mapsto> demo_addr]) = Some (True, Forwarding f')"
proof -
  let ?m = "web_at demo_addr [''a'' \<mapsto> demo_addr]" and ?m' = "web_at demo_addr [''b'' \<mapsto> demo_addr]"
  have ok: "update_ok ?m" "update_ok ?m'" by (simp_all add: update_ok_def web_at_def)
  have "state_ok (Forwarding stale_forwarding)"
    by (simp add: state_ok_def stale_forwarding_def web_at_def)
  moreover have "fgService stale_forwarding = ?m" by (simp add: stale_forwarding_def)
  moreover have "msAddress ?m' = msAddress ?m" "msInstances ?m \<noteq> Map.empty" "msInstances ?m' \<noteq> Map.empty"
    by (simp_all add: web_at_def)
  moreover have "?m' \<noteq> ?m"
  proof
    assume "?m' = ?m"
    then have "msInstances ?m' ''a'' = msInstances ?m ''a''" by simp
    then show False by (simp add: web_at_def)
  qed
  ultimately show ?thesis
    using service_stale_instances [OF sorted_ordering_ok ok, of stale_forwarding 1 2] by (simp add: web_at_def)
qed

text \<open>
  A rejecting service ignores a change of its address: as long as it has no instances the
  update is taken as done, no command is run, and the rule for the old address stays.
\<close>

theorem rejecting_keeps_old_address:
  assumes "msInstances m = Map.empty"
  shows "updateState ord env cmd nc (Some (Rejecting (reject_rule a))) m k
    = Some (None, Some (Rejecting (reject_rule a)), k)"
  using assms by (simp add: updateState_def state_update_def)

theorem rejecting_keeps_old_address_witness:
  "updateState sorted_ordering demo_env mock_cmd demo_net (Some (Rejecting (reject_rule demo_addr)))
     (web_at (newIPPort [] 81) Map.empty) demo_kernel = Some (None, Some (Rejecting (reject_rule demo_addr)), demo_kernel)"
  by (rule rejecting_keeps_old_address) (simp add: web_at_def)

text \<open>
  C36: When a service cannot be brought into its new state, because the bridge has no IPv4 address,
  the socket cannot listen or iptables refuses the rule, the error is returned, the old state
  goes on and the tables are as they were.
\<close>

theorem failed_update_changes_nothing:
  assumes "iptables_contract cmd tabs accepts" and "ordering_ok ord" and "update_ok upd"
    and "table_inv nc svcs (tabs k)"
    and "updateState ord env cmd nc (svcs name) upd k = Some (Some e, st', k')"
  shows "st' = svcs name \<and> tabs k' = tabs k \<and>
    (bridgeIP (seBridgeAddrs env) = None \<or> (\<exists>ip. seListen env ip = None) \<or> (\<exists>t r C. \<not> accepts t r C))"
proof -
  have fin: "finite (dom svcs)" and c: "chains_have nc (\<lambda>t. rules_of t svcs) (tabs k)"
    and ok: "\<forall>s. svcs name = Some s \<longrightarrow> state_ok s"
    using assms(4) by (auto simp: table_inv_def)
  have "st' = svcs name \<and> tabs k' = tabs k \<and> \<not> (env_good env \<and> (\<forall>t r C. accepts t r C))"
    using iptables_contract.updateState_spec [where env = env and st = "svcs name",
        OF assms(1,2,3) ok c opt_rule_subset [OF fin]] assms(5)
    by auto
  moreover have "bridgeIP (seBridgeAddrs env) = None \<or> (\<exists>ip. seListen env ip = None)" if "\<not> env_good env"
    using that unfolding env_good_def by metis
  ultimately show ?thesis by blast
qed

definition no_bridge_env :: start_env where
  "no_bridge_env = demo_env\<lparr>seBridgeAddrs := None\<rparr>"

theorem failed_update_changes_nothing_witness:
  "\<exists>e. updateState sorted_ordering no_bridge_env mock_cmd demo_net None (web_at demo_addr [''a'' \<mapsto> demo_addr]) demo_kernel
     = Some (Some e, None, demo_kernel) \<and> bridgeIP (seBridgeAddrs no_bridge_env) = None"
proof -
  have u: "updateState sorted_ordering no_bridge_env mock_cmd demo_net (Map.empty ''x'') (web_at demo_addr [''a'' \<mapsto> demo_addr]) demo_kernel
     = Some (Some NoBridgeIP, None, demo_kernel)"
    by (simp add: updateState_def startForwarding_def web_at_def no_bridge_env_def bridgeIP_def)
  have "update_ok (web_at demo_addr [''a'' \<mapsto> demo_addr])" by (simp add: update_ok_def web_at_def)
  from failed_update_changes_nothing [where cmd = mock_cmd and tabs = mock_chains and accepts = "\<lambda>_ _ _. True"
      and svcs = Map.empty and name = "''x''" and env = no_bridge_env,
      OF mock.iptables_contract_axioms sorted_ordering_ok this demo_table_inv u]
  show ?thesis using u by (simp add: no_bridge_env_def bridgeIP_def)
qed

end
