(* ===== verification/EtcdKeys.thy ===== *)
theory EtcdKeys
  imports StoreData NetUtil
begin

text \<open>
  The keys of the etcd store (\<open>common/store/etcdstore/etcdstore.go\<close>): where each kind of record
  is kept, and the parser that tells from the key of a change what has changed.
\<close>

section \<open>Building keys\<close>

definition ROOT :: string where
  "ROOT = ''/weave-flux/''"

definition SERVICE_ROOT :: string where
  "SERVICE_ROOT = ROOT @ ''service/''"

definition HOST_ROOT :: string where
  "HOST_ROOT = ROOT @ ''host/''"

definition SESSION_ROOT :: string where
  "SESSION_ROOT = ROOT @ ''session/''"

definition INSTANCE_PATH :: string where
  "INSTANCE_PATH = ''instances''"

definition DETAIL_PATH :: string where
  "DETAIL_PATH = ''spec''"

definition RULE_PATH :: string where
  "RULE_PATH = ''rules''"

definition INGRESS_INSTANCE_PATH :: string where
  "INGRESS_INSTANCE_PATH = ''ingress-instances''"

definition serviceRootKey :: "string \<Rightarrow> string" where
  "serviceRootKey serviceName = SERVICE_ROOT @ serviceName"

definition serviceKey :: "string \<Rightarrow> string" where
  "serviceKey serviceName = SERVICE_ROOT @ serviceName @ CHR ''/'' # DETAIL_PATH"

definition ruleKey :: "string \<Rightarrow> string \<Rightarrow> string" where
  "ruleKey serviceName ruleName = SERVICE_ROOT @ serviceName @ CHR ''/'' # RULE_PATH @ CHR ''/'' # ruleName"

definition instanceKey :: "string \<Rightarrow> string \<Rightarrow> string" where
  "instanceKey serviceName instanceName =
     SERVICE_ROOT @ serviceName @ CHR ''/'' # INSTANCE_PATH @ CHR ''/'' # instanceName"

definition ingressInstanceKey :: "string \<Rightarrow> ipport \<Rightarrow> string" where
  "ingressInstanceKey serviceName addr =
     SERVICE_ROOT @ serviceName @ CHR ''/'' # INGRESS_INSTANCE_PATH @ CHR ''/'' # ipport_String addr"

definition hostKey :: "string \<Rightarrow> string" where
  "hostKey identity = HOST_ROOT @ identity"

definition sessionKey :: "string \<Rightarrow> string" where
  "sessionKey i = SESSION_ROOT @ i"

section \<open>Parsing keys\<close>

datatype parsed_key =
    ParsedRootKey
  | ParsedServiceRootKey string
  | ParsedServiceKey string
  | ParsedRuleKey string string
  | ParsedInstanceKey string string
  | ParsedIngressInstanceKey string string

definition parseKey :: "string \<Rightarrow> parsed_key option" where
  "parseKey key =
     (if length key \<le> length SERVICE_ROOT then Some ParsedRootKey
      else let p = split_all CHR ''/'' (drop (length SERVICE_ROOT) key) in
        if length p = 1 then Some (ParsedServiceRootKey (p ! 0))
        else if p ! 1 = DETAIL_PATH then Some (ParsedServiceKey (p ! 0))
        else if p ! 1 = RULE_PATH then
          (if length p = 3 then Some (ParsedRuleKey (p ! 0) (p ! 2)) else None)
        else if p ! 1 = INSTANCE_PATH then
          (if length p = 3 then Some (ParsedInstanceKey (p ! 0) (p ! 2)) else None)
        else if p ! 1 = INGRESS_INSTANCE_PATH then
          (if length p = 3 then Some (ParsedIngressInstanceKey (p ! 0) (p ! 2)) else None)
        else None)"

text \<open>\<open>relevantTo\<close>, for the three keys that have the method.\<close>

definition relevantTo :: "query_opts \<Rightarrow> parsed_key \<Rightarrow> (bool \<times> string) option" where
  "relevantTo opts k =
     (case k of
        ParsedRuleKey s r \<Rightarrow> Some (WithContainerRules opts, s)
      | ParsedInstanceKey s i \<Rightarrow> Some (WithInstances opts, s)
      | ParsedIngressInstanceKey s a \<Rightarrow> Some (WithIngressInstances opts, s)
      | _ \<Rightarrow> None)"

section \<open>The round trip\<close>

definition name_ok :: "string \<Rightarrow> bool" where
  "name_ok s \<longleftrightarrow> s \<noteq> [] \<and> CHR ''/'' \<notin> set s"

lemma path_distinct [simp]:
  "RULE_PATH \<noteq> DETAIL_PATH" "INSTANCE_PATH \<noteq> DETAIL_PATH" "INSTANCE_PATH \<noteq> RULE_PATH"
  "INGRESS_INSTANCE_PATH \<noteq> DETAIL_PATH" "INGRESS_INSTANCE_PATH \<noteq> RULE_PATH"
  "INGRESS_INSTANCE_PATH \<noteq> INSTANCE_PATH"
  by (simp_all add: RULE_PATH_def DETAIL_PATH_def INSTANCE_PATH_def INGRESS_INSTANCE_PATH_def)

lemma path_no_slash [simp]:
  "CHR ''/'' \<notin> set DETAIL_PATH" "CHR ''/'' \<notin> set RULE_PATH" "CHR ''/'' \<notin> set INSTANCE_PATH"
  "CHR ''/'' \<notin> set INGRESS_INSTANCE_PATH"
  by (simp_all add: RULE_PATH_def DETAIL_PATH_def INSTANCE_PATH_def INGRESS_INSTANCE_PATH_def)

lemma parseKey_service_root: "name_ok s \<Longrightarrow> parseKey (serviceRootKey s) = Some (ParsedServiceRootKey s)"
  by (simp add: parseKey_def serviceRootKey_def name_ok_def)

lemma parseKey_below:
  assumes "CHR ''/'' \<notin> set s"
  shows "parseKey (SERVICE_ROOT @ s @ CHR ''/'' # r) =
    (let p = s # split_all CHR ''/'' r in
        if p ! 1 = DETAIL_PATH then Some (ParsedServiceKey (p ! 0))
        else if p ! 1 = RULE_PATH then
          (if length p = 3 then Some (ParsedRuleKey (p ! 0) (p ! 2)) else None)
        else if p ! 1 = INSTANCE_PATH then
          (if length p = 3 then Some (ParsedInstanceKey (p ! 0) (p ! 2)) else None)
        else if p ! 1 = INGRESS_INSTANCE_PATH then
          (if length p = 3 then Some (ParsedIngressInstanceKey (p ! 0) (p ! 2)) else None)
        else None)"
  using assms by (simp add: parseKey_def Let_def)

lemma ipport_String_no_slash:
  assumes "length (ipBytes a) = 16" and "0 \<le> ipPortNum a"
  shows "CHR ''/'' \<notin> set (ipport_String a)"
proof -
  have h: "\<not> is_hex CHR ''/''" by (simp add: is_hex_def is_digit_def)
  have "CHR ''/'' \<notin> set (ip_String (ipBytes a))"
    using assms(1) h
    by (auto simp: ip_String_def ipv4_string_def split: option.splits if_splits
        dest: nat_to_dec_chars ipv6_string_chars)
  moreover have "CHR ''/'' \<notin> set (itoa (ipPortNum a))" using itoa_chars [OF assms(2)] by fastforce
  ultimately show ?thesis by (auto simp: ipport_String_def joinHostPort_def Let_def)
qed

lemma parsed_keys:
  assumes "name_ok s" and "CHR ''/'' \<notin> set n" and "length (ipBytes a) = 16" and "0 \<le> ipPortNum a"
  shows "parseKey (serviceRootKey s) = Some (ParsedServiceRootKey s)"
    and "parseKey (serviceKey s) = Some (ParsedServiceKey s)"
    and "parseKey (ruleKey s n) = Some (ParsedRuleKey s n)"
    and "parseKey (instanceKey s n) = Some (ParsedInstanceKey s n)"
    and "parseKey (ingressInstanceKey s a) = Some (ParsedIngressInstanceKey s (ipport_String a))"
  using assms ipport_String_no_slash [OF assms(3,4)] parseKey_service_root
  by (simp_all add: serviceKey_def ruleKey_def instanceKey_def ingressInstanceKey_def parseKey_below name_ok_def)

text \<open>
  C12: The key of a change tells what has changed: each key the store writes parses back to its
  kind and the names it was made of, so two records never share a key. This holds for names that
  are not empty and have no slash, and for ingress addresses of 16 bytes.
\<close>

theorem etcd_keys_roundtrip:
  assumes "name_ok s" and "CHR ''/'' \<notin> set n" and "length (ipBytes a) = 16" and "0 \<le> ipPortNum a"
  shows "parseKey (serviceRootKey s) = Some (ParsedServiceRootKey s) \<and>
    parseKey (serviceKey s) = Some (ParsedServiceKey s) \<and>
    parseKey (ruleKey s n) = Some (ParsedRuleKey s n) \<and>
    parseKey (instanceKey s n) = Some (ParsedInstanceKey s n) \<and>
    parseKey (ingressInstanceKey s a) = Some (ParsedIngressInstanceKey s (ipport_String a))"
  using parsed_keys [OF assms] by simp

theorem etcd_keys_roundtrip_witness:
  "parseKey (instanceKey ''web'' ''a1b2'') = Some (ParsedInstanceKey ''web'' ''a1b2'')"
  using etcd_keys_roundtrip [of "''web''" "''a1b2''" "newIPPort demo_ipv6 80"]
  by (simp add: name_ok_def newIPPort_def demo_ipv6_def)

text \<open>
  A service whose name has a slash is stored under keys the watch cannot read: its addition
  and removal and the changes of its rules and instances are not recognised at all, as long as
  the part behind the slash is not itself one of the four reserved names.
\<close>

theorem slash_names_not_parsed:
  assumes "name_ok a" and "name_ok b"
    and "b \<notin> {DETAIL_PATH, RULE_PATH, INSTANCE_PATH, INGRESS_INSTANCE_PATH}"
  shows "parseKey (serviceKey (a @ CHR ''/'' # b)) = None \<and>
    parseKey (serviceRootKey (a @ CHR ''/'' # b)) = None \<and>
    (\<forall>n. parseKey (ruleKey (a @ CHR ''/'' # b) n) = None \<and> parseKey (instanceKey (a @ CHR ''/'' # b) n) = None)"
  using assms
  by (simp add: serviceKey_def serviceRootKey_def ruleKey_def instanceKey_def parseKey_below name_ok_def)

theorem slash_names_not_parsed_witness:
  "parseKey (serviceKey ''shop/web'') = None"
  using slash_names_not_parsed [of "''shop''" "''web''"]
  by (simp add: name_ok_def DETAIL_PATH_def RULE_PATH_def INSTANCE_PATH_def INGRESS_INSTANCE_PATH_def)

end
