(* ===== verification/EtcdTree.thy ===== *)
theory EtcdTree
  imports EtcdKeys "HOL-Library.Finite_Map"
begin

text \<open>
  The etcd server as its clients see it. The store calls it through three operations, which are
  arguments of the model; the contract \<open>etcd_contract\<close> says what etcd documents of them: the keys
  form a tree of directories and values, \<open>Set\<close> makes the missing directories and fails on a
  directory or below a value, \<open>Delete\<close> removes a value or, if recursive, a subtree, and \<open>Get\<close>
  returns a value or a directory with its visible children (names that start with an underscore
  are hidden), whose own children are listed only by a recursive \<open>Get\<close>. The reference tree
  itself is an instance of the contract.
\<close>

section \<open>Nodes and operations\<close>

datatype etcd_node = EtcdNode (nodeKey: string) (nodeDir: bool) (nodeValue: string) (nodeNodes: "etcd_node list")

datatype get_result = GotNode etcd_node nat | KeyNotFound nat | GetError string

record 'e etcd_client =
  clGet :: "string \<Rightarrow> bool \<Rightarrow> 'e \<Rightarrow> get_result"
  clSet :: "string \<Rightarrow> string \<Rightarrow> int option \<Rightarrow> 'e \<Rightarrow> string option \<times> 'e"
  clDelete :: "string \<Rightarrow> bool \<Rightarrow> 'e \<Rightarrow> string option \<times> 'e"

section \<open>The reference tree\<close>

datatype etcd_tree = Leaf string | Branch "(string, etcd_tree) fmap"

type_synonym etcd_dir = "(string, etcd_tree) fmap"

text \<open>The path of a key: the segments between slashes.\<close>

definition key_path :: "string \<Rightarrow> string list" where
  "key_path key = filter (\<lambda>s. s \<noteq> []) (split_all CHR ''/'' key)"

fun path_key :: "string list \<Rightarrow> string" where
  "path_key [] = []"
| "path_key (c # p) = CHR ''/'' # c @ path_key p"

fun tree_get :: "string list \<Rightarrow> etcd_dir \<Rightarrow> etcd_tree option" where
  "tree_get [] d = Some (Branch d)"
| "tree_get [c] d = fmlookup d c"
| "tree_get (c # p) d = (case fmlookup d c of Some (Branch s) \<Rightarrow> tree_get p s | _ \<Rightarrow> None)"

fun tree_set :: "string list \<Rightarrow> string \<Rightarrow> etcd_dir \<Rightarrow> etcd_dir option" where
  "tree_set [] v d = None"
| "tree_set [c] v d =
     (case fmlookup d c of Some (Branch s) \<Rightarrow> None | _ \<Rightarrow> Some (fmupd c (Leaf v) d))"
| "tree_set (c # p) v d =
     (case fmlookup d c of
        None \<Rightarrow> map_option (\<lambda>s. fmupd c (Branch s) d) (tree_set p v fmempty)
      | Some (Branch s) \<Rightarrow> map_option (\<lambda>s'. fmupd c (Branch s') d) (tree_set p v s)
      | Some (Leaf _) \<Rightarrow> None)"

fun tree_delete :: "bool \<Rightarrow> string list \<Rightarrow> etcd_dir \<Rightarrow> etcd_dir option" where
  "tree_delete r [] d = None"
| "tree_delete r [c] d =
     (case fmlookup d c of
        None \<Rightarrow> None
      | Some (Leaf _) \<Rightarrow> Some (fmdrop c d)
      | Some (Branch _) \<Rightarrow> if r then Some (fmdrop c d) else None)"
| "tree_delete r (c # p) d =
     (case fmlookup d c of
        Some (Branch s) \<Rightarrow> map_option (\<lambda>s'. fmupd c (Branch s') d) (tree_delete r p s)
      | _ \<Rightarrow> None)"

definition visible :: "string \<Rightarrow> bool" where
  "visible c \<longleftrightarrow> (c \<noteq> [] \<longrightarrow> hd c \<noteq> CHR ''_'')"

definition visible_names :: "(string, 'a) fmap \<Rightarrow> string list" where
  "visible_names m = filter visible (sorted_list_of_fset (fmdom m))"

text \<open>The node of a subtree at a path, with all levels or with one.\<close>

primrec full_node :: "etcd_tree \<Rightarrow> string list \<Rightarrow> etcd_node" where
  "full_node (Leaf v) = (\<lambda>p. EtcdNode (path_key p) False v [])"
| "full_node (Branch m) =
     (\<lambda>p. EtcdNode (path_key p) True []
       (List.map (\<lambda>c. (the (fmlookup (fmmap full_node m) c)) (p @ [c])) (visible_names (fmmap full_node m))))"

definition bare_node :: "etcd_tree \<Rightarrow> string list \<Rightarrow> etcd_node" where
  "bare_node t p =
     (case t of Leaf v \<Rightarrow> EtcdNode (path_key p) False v [] | Branch m \<Rightarrow> EtcdNode (path_key p) True [] [])"

definition shallow_node :: "etcd_tree \<Rightarrow> string list \<Rightarrow> etcd_node" where
  "shallow_node t p =
     (case t of
        Leaf v \<Rightarrow> EtcdNode (path_key p) False v []
      | Branch m \<Rightarrow> EtcdNode (path_key p) True []
          (List.map (\<lambda>c. bare_node (the (fmlookup m c)) (p @ [c])) (visible_names m)))"

section \<open>The contract\<close>

definition plain_key :: "string \<Rightarrow> bool" where
  "plain_key key \<longleftrightarrow> ''.'' \<notin> set (key_path key) \<and> ''..'' \<notin> set (key_path key)"

locale etcd_contract =
  fixes client :: "'e etcd_client" and tree :: "'e \<Rightarrow> etcd_dir"
  assumes get_node: "plain_key key \<Longrightarrow> tree_get (key_path key) (tree e) = Some t \<Longrightarrow>
      \<exists>index. clGet client key recursive e
        = GotNode ((if recursive then full_node t else shallow_node t) (key_path key)) index"
    and get_none: "plain_key key \<Longrightarrow> tree_get (key_path key) (tree e) = None \<Longrightarrow>
      \<exists>index. clGet client key recursive e = KeyNotFound index"
    and set_ok: "plain_key key \<Longrightarrow> tree_set (key_path key) v (tree e) = Some d \<Longrightarrow>
      \<exists>e'. clSet client key v ttl e = (None, e') \<and> tree e' = d"
    and set_fails: "plain_key key \<Longrightarrow> tree_set (key_path key) v (tree e) = None \<Longrightarrow>
      \<exists>m e'. clSet client key v ttl e = (Some m, e') \<and> tree e' = tree e"
    and delete_ok: "plain_key key \<Longrightarrow> tree_delete recursive (key_path key) (tree e) = Some d \<Longrightarrow>
      \<exists>e'. clDelete client key recursive e = (None, e') \<and> tree e' = d"
    and delete_fails: "plain_key key \<Longrightarrow> tree_delete recursive (key_path key) (tree e) = None \<Longrightarrow>
      \<exists>m e'. clDelete client key recursive e = (Some m, e') \<and> tree e' = tree e"

definition tree_client :: "etcd_dir etcd_client" where
  "tree_client =
     \<lparr>clGet = (\<lambda>key r d. case tree_get (key_path key) d of
          None \<Rightarrow> KeyNotFound 0
        | Some t \<Rightarrow> GotNode ((if r then full_node t else shallow_node t) (key_path key)) 0),
      clSet = (\<lambda>key v ttl d. case tree_set (key_path key) v d of None \<Rightarrow> (Some ''error'', d) | Some d' \<Rightarrow> (None, d')),
      clDelete = (\<lambda>key r d. case tree_delete r (key_path key) d of None \<Rightarrow> (Some ''error'', d) | Some d' \<Rightarrow> (None, d'))\<rparr>"

interpretation tree_etcd: etcd_contract tree_client id
  by unfold_locales (simp_all add: tree_client_def)

section \<open>Facts of the tree\<close>

lemma tree_get_Cons: "tree_get (c # p) d = (if p = [] then fmlookup d c
    else case fmlookup d c of Some (Branch s) \<Rightarrow> tree_get p s | _ \<Rightarrow> None)"
  by (cases p) auto

lemma tree_set_Cons: "p \<noteq> [] \<Longrightarrow> tree_set (c # p) v d =
     (case fmlookup d c of
        None \<Rightarrow> map_option (\<lambda>s. fmupd c (Branch s) d) (tree_set p v fmempty)
      | Some (Branch s) \<Rightarrow> map_option (\<lambda>s'. fmupd c (Branch s') d) (tree_set p v s)
      | Some (Leaf _) \<Rightarrow> None)"
  by (cases p) auto

lemma tree_delete_Cons: "p \<noteq> [] \<Longrightarrow> tree_delete r (c # p) d =
     (case fmlookup d c of
        Some (Branch s) \<Rightarrow> map_option (\<lambda>s'. fmupd c (Branch s') d) (tree_delete r p s)
      | _ \<Rightarrow> None)"
  by (cases p) auto

lemma in_visible_names [simp]: "c \<in> set (visible_names m) \<longleftrightarrow> visible c \<and> fmlookup m c \<noteq> None"
  by (auto simp: visible_names_def sorted_list_of_fset.rep_eq fmlookup_dom_iff)

lemma distinct_visible_names [simp]: "distinct (visible_names m)"
  by (simp add: visible_names_def sorted_list_of_fset.rep_eq)

lemma visible_names_map [simp]: "visible_names (fmmap f m) = visible_names m"
  by (simp add: visible_names_def)

lemma full_node_Branch:
  "full_node (Branch m) p =
     EtcdNode (path_key p) True [] (List.map (\<lambda>c. full_node (the (fmlookup m c)) (p @ [c])) (visible_names m))"
proof -
  have "List.map (\<lambda>c. (the (fmlookup (fmmap full_node m) c)) (p @ [c])) (visible_names m)
      = List.map (\<lambda>c. full_node (the (fmlookup m c)) (p @ [c])) (visible_names m)"
    by (rule map_cong) (auto split: option.split)
  then show ?thesis by simp
qed

lemma path_key_append: "path_key (p @ q) = path_key p @ path_key q"
  by (induction p) auto

lemma key_path_path_key:
  assumes "\<forall>s \<in> set p. name_ok s"
  shows "key_path (path_key p) = p"
proof -
  have "key_path (CHR ''/'' # c @ path_key q) = c # key_path (path_key q)" if "name_ok c" for c q
    using that by (cases q) (auto simp: key_path_def name_ok_def)
  then show ?thesis using assms by (induction p) (auto simp: key_path_def)
qed

end
