(* ===== verification/EtcdStore.thy ===== *)
theory EtcdStore
  imports EtcdTree
begin

text \<open>
  The store on etcd (\<open>common/store/etcdstore/etcdstore.go\<close>): its operations as calls of the etcd
  client, the assembly of a service from the nodes of a directory, sessions, and the handlers of
  the two watches. The encoding of records as JSON is an argument: for each kind of record a
  function to text, \<open>None\<close> if it fails, and back. Waiting for a session is a result of its own.
\<close>

section \<open>State and errors\<close>

datatype etcd_error =
    ClientError string
  | NotFound
  | NotADirectory string
  | MissingDetails string
  | EncodeError
  | DecodeError string
  | AddressError string

record codec =
  encService :: "service \<Rightarrow> string option"
  decService :: "string \<Rightarrow> service option"
  encInstance :: "inst \<times> string \<Rightarrow> string option"
  decInstance :: "string \<Rightarrow> (inst \<times> string) option"
  encRule :: "container_rule \<Rightarrow> string option"
  decRule :: "string \<Rightarrow> container_rule option"
  encIngress :: "ingress_instance \<times> string \<Rightarrow> string option"
  decIngress :: "string \<Rightarrow> (ingress_instance \<times> string) option"
  encHost :: "host \<times> string \<Rightarrow> string option"
  decHost :: "string \<Rightarrow> (host \<times> string) option"
  decSession :: "string \<Rightarrow> string option"

text \<open>The session of a store, \<open>None\<close> before the first heartbeat makes one.\<close>

type_synonym etcd_session = "string option"

section \<open>Reading nodes\<close>

definition node_name :: "string \<Rightarrow> string" where
  "node_name key =
     (let lastSlash = lastIndex CHR ''/'' key in if lastSlash \<ge> 0 then drop (nat (lastSlash + 1)) key else key)"

definition indexDir :: "etcd_node option \<Rightarrow> string \<rightharpoonup> etcd_node" where
  "indexDir node =
     (case node of
        None \<Rightarrow> Map.empty
      | Some n \<Rightarrow> foldl (\<lambda>res c. res(node_name (nodeKey c) \<mapsto> c)) Map.empty (nodeNodes n))"

definition getDirNode ::
  "'e etcd_client \<Rightarrow> string \<Rightarrow> bool \<Rightarrow> bool \<Rightarrow> 'e \<Rightarrow> etcd_error + (etcd_node \<times> nat)" where
  "getDirNode client key missingOk recursive e =
     (case clGet client key recursive e of
        GetError m \<Rightarrow> Inl (ClientError m)
      | KeyNotFound index \<Rightarrow> if missingOk then Inr (EtcdNode [] False [] [], index) else Inl NotFound
      | GotNode n index \<Rightarrow> if \<not> nodeDir n then Inl (NotADirectory key) else Inr (n, index))"

definition liveSessions :: "'e etcd_client \<Rightarrow> 'e \<Rightarrow> etcd_error + string set" where
  "liveSessions client e =
     (case getDirNode client SESSION_ROOT True False e of
        Inl err \<Rightarrow> Inl err
      | Inr (node, _) \<Rightarrow> Inr (dom (indexDir (Some node))))"

text \<open>
  A loop over an indexed directory that decodes each node into an entry of a map, skips it, or
  ends with an error.
\<close>

fun collect ::
  "('k \<Rightarrow> etcd_node \<Rightarrow> etcd_error + ('a \<times> 'b) option) \<Rightarrow> ('k \<rightharpoonup> etcd_node) \<Rightarrow> 'k list \<Rightarrow>
     ('a \<rightharpoonup> 'b) \<Rightarrow> etcd_error + ('a \<rightharpoonup> 'b)" where
  "collect f dir [] acc = Inr acc"
| "collect f dir (k # ks) acc =
     (case dir k of
        None \<Rightarrow> collect f dir ks acc
      | Some n \<Rightarrow>
          (case f k n of
             Inl err \<Rightarrow> Inl err
           | Inr None \<Rightarrow> collect f dir ks acc
           | Inr (Some (a, b)) \<Rightarrow> collect f dir ks (acc(a \<mapsto> b))))"

definition read_dir ::
  "string ordering \<Rightarrow> string list \<Rightarrow> (string \<Rightarrow> etcd_node \<Rightarrow> etcd_error + ('a \<times> 'b) option) \<Rightarrow>
     etcd_node option \<Rightarrow> etcd_error + ('a \<rightharpoonup> 'b)" where
  "read_dir ord l f node = collect f (indexDir node) (ord l (dom (indexDir node))) Map.empty"

definition live_instance :: "codec \<Rightarrow> string set \<Rightarrow> string \<Rightarrow> etcd_node \<Rightarrow> etcd_error + (string \<times> inst) option" where
  "live_instance cd live name n =
     (case decInstance cd (nodeValue n) of
        None \<Rightarrow> Inl (DecodeError (nodeKey n))
      | Some (i, session) \<Rightarrow> Inr (if session \<in> live then Some (name, i) else None))"

definition read_rule :: "codec \<Rightarrow> string \<Rightarrow> etcd_node \<Rightarrow> etcd_error + (string \<times> container_rule) option" where
  "read_rule cd name n =
     (case decRule cd (nodeValue n) of
        None \<Rightarrow> Inl (DecodeError (nodeKey n))
      | Some r \<Rightarrow> Inr (Some (name, r)))"

definition live_ingress ::
  "codec \<Rightarrow> (string \<Rightarrow> string \<Rightarrow> int option) \<Rightarrow> string set \<Rightarrow> string \<Rightarrow> etcd_node \<Rightarrow>
     etcd_error + (ipport \<times> ingress_instance) option" where
  "live_ingress cd names live addrStr n =
     (case ParseIPPort names addrStr of
        None \<Rightarrow> Inl (AddressError addrStr)
      | Some addr \<Rightarrow>
          (case decIngress cd (nodeValue n) of
             None \<Rightarrow> Inl (DecodeError (nodeKey n))
           | Some (i, session) \<Rightarrow> Inr (if session \<in> live then Some (addr, i) else None)))"

definition serviceInfoFromNode ::
  "string ordering \<Rightarrow> codec \<Rightarrow> (string \<Rightarrow> string \<Rightarrow> int option) \<Rightarrow> etcd_node \<Rightarrow> query_opts \<Rightarrow> string set \<Rightarrow>
     etcd_error + service_info" where
  "serviceInfoFromNode ord cd names node opts live =
     (let dir = indexDir (Some node) in
      case dir DETAIL_PATH of
        None \<Rightarrow> Inl (MissingDetails (nodeKey node))
      | Some details \<Rightarrow>
          (case decService cd (nodeValue details) of
             None \<Rightarrow> Inl (DecodeError (nodeKey details))
           | Some svc \<Rightarrow>
               (case (if WithInstances opts
                      then read_dir ord [''instances''] (live_instance cd live) (dir INSTANCE_PATH)
                      else Inr Map.empty) of
                  Inl err \<Rightarrow> Inl err
                | Inr insts \<Rightarrow>
                    (case (if WithContainerRules opts
                           then read_dir ord [''rules''] (read_rule cd) (dir RULE_PATH)
                           else Inr Map.empty) of
                       Inl err \<Rightarrow> Inl err
                     | Inr rules \<Rightarrow>
                         (case (if WithIngressInstances opts
                                then read_dir ord [''ingress''] (live_ingress cd names live) (dir INGRESS_INSTANCE_PATH)
                                else Inr Map.empty) of
                            Inl err \<Rightarrow> Inl err
                          | Inr ingress \<Rightarrow>
                              Inr (service.extend svc
                                \<lparr>Instances = insts, ContainerRules = rules, IngressInstances = ingress\<rparr>))))))"

definition etcd_GetService ::
  "string ordering \<Rightarrow> codec \<Rightarrow> (string \<Rightarrow> string \<Rightarrow> int option) \<Rightarrow> 'e etcd_client \<Rightarrow> string \<Rightarrow> query_opts \<Rightarrow> 'e \<Rightarrow>
     etcd_error + service_info" where
  "etcd_GetService ord cd names client serviceName opts e =
     (case liveSessions client e of
        Inl err \<Rightarrow> Inl err
      | Inr live \<Rightarrow>
          (case getDirNode client (serviceRootKey serviceName) False
              (WithInstances opts \<or> WithContainerRules opts \<or> WithIngressInstances opts) e of
             Inl err \<Rightarrow> Inl err
           | Inr (node, _) \<Rightarrow> serviceInfoFromNode ord cd names node opts live))"

definition etcd_GetAllServices ::
  "string ordering \<Rightarrow> codec \<Rightarrow> (string \<Rightarrow> string \<Rightarrow> int option) \<Rightarrow> 'e etcd_client \<Rightarrow> query_opts \<Rightarrow> 'e \<Rightarrow>
     etcd_error + (string \<rightharpoonup> service_info)" where
  "etcd_GetAllServices ord cd names client opts e =
     (case liveSessions client e of
        Inl err \<Rightarrow> Inl err
      | Inr live \<Rightarrow>
          (case getDirNode client SERVICE_ROOT True True e of
             Inl err \<Rightarrow> Inl err
           | Inr (node, _) \<Rightarrow>
               read_dir ord [''GetAllServices''] (\<lambda>name n. if \<not> nodeDir n then Inr None
                   else (case serviceInfoFromNode ord cd names n opts live of
                           Inl err \<Rightarrow> Inl err | Inr svc \<Rightarrow> Inr (Some (name, svc))))
                 (Some node)))"

section \<open>Writing\<close>

definition setJSON :: "'e etcd_client \<Rightarrow> string \<Rightarrow> string option \<Rightarrow> 'e \<Rightarrow> etcd_error option \<times> 'e" where
  "setJSON client key json e =
     (case json of
        None \<Rightarrow> (Some EncodeError, e)
      | Some v \<Rightarrow> (case clSet client key v None e of (err, e') \<Rightarrow> (map_option ClientError err, e')))"

definition deleteRecursive :: "'e etcd_client \<Rightarrow> string \<Rightarrow> 'e \<Rightarrow> etcd_error option \<times> 'e" where
  "deleteRecursive client key e =
     (case clDelete client key True e of (err, e') \<Rightarrow> (map_option ClientError err, e'))"

definition etcd_CheckRegisteredService :: "'e etcd_client \<Rightarrow> string \<Rightarrow> 'e \<Rightarrow> etcd_error option" where
  "etcd_CheckRegisteredService client serviceName e =
     (case clGet client (serviceRootKey serviceName) False e of
        GotNode _ _ \<Rightarrow> None
      | KeyNotFound _ \<Rightarrow> Some NotFound
      | GetError m \<Rightarrow> Some (ClientError m))"

definition etcd_AddService :: "codec \<Rightarrow> 'e etcd_client \<Rightarrow> string \<Rightarrow> service \<Rightarrow> 'e \<Rightarrow> etcd_error option \<times> 'e" where
  "etcd_AddService cd client name details e = setJSON client (serviceKey name) (encService cd details) e"

definition etcd_RemoveService :: "'e etcd_client \<Rightarrow> string \<Rightarrow> 'e \<Rightarrow> etcd_error option \<times> 'e" where
  "etcd_RemoveService client serviceName e = deleteRecursive client (serviceRootKey serviceName) e"

definition etcd_RemoveAllServices :: "'e etcd_client \<Rightarrow> 'e \<Rightarrow> etcd_error option \<times> 'e" where
  "etcd_RemoveAllServices client e = deleteRecursive client SERVICE_ROOT e"

definition etcd_SetContainerRule ::
  "codec \<Rightarrow> 'e etcd_client \<Rightarrow> string \<Rightarrow> string \<Rightarrow> container_rule \<Rightarrow> 'e \<Rightarrow> etcd_error option \<times> 'e" where
  "etcd_SetContainerRule cd client serviceName ruleName spec e =
     setJSON client (ruleKey serviceName ruleName) (encRule cd spec) e"

definition etcd_RemoveContainerRule :: "'e etcd_client \<Rightarrow> string \<Rightarrow> string \<Rightarrow> 'e \<Rightarrow> etcd_error option \<times> 'e" where
  "etcd_RemoveContainerRule client serviceName ruleName e = deleteRecursive client (ruleKey serviceName ruleName) e"

text \<open>Operations that belong to a session wait for it: \<open>None\<close> is a call that does not return.\<close>

definition with_session ::
  "etcd_session \<Rightarrow> (string \<Rightarrow> etcd_error option \<times> 'e) \<Rightarrow> (etcd_error option \<times> 'e) option" where
  "with_session session f = map_option f session"

definition etcd_AddInstance ::
  "codec \<Rightarrow> 'e etcd_client \<Rightarrow> etcd_session \<Rightarrow> string \<Rightarrow> string \<Rightarrow> inst \<Rightarrow> 'e \<Rightarrow> (etcd_error option \<times> 'e) option" where
  "etcd_AddInstance cd client session serviceName instanceName i e =
     with_session session (\<lambda>s. setJSON client (instanceKey serviceName instanceName) (encInstance cd (i, s)) e)"

definition etcd_RemoveInstance :: "'e etcd_client \<Rightarrow> string \<Rightarrow> string \<Rightarrow> 'e \<Rightarrow> etcd_error option \<times> 'e" where
  "etcd_RemoveInstance client serviceName instanceName e =
     deleteRecursive client (instanceKey serviceName instanceName) e"

definition etcd_AddIngressInstance ::
  "codec \<Rightarrow> 'e etcd_client \<Rightarrow> etcd_session \<Rightarrow> string \<Rightarrow> ipport \<Rightarrow> ingress_instance \<Rightarrow> 'e \<Rightarrow>
     (etcd_error option \<times> 'e) option" where
  "etcd_AddIngressInstance cd client session serviceName addr details e =
     with_session session
       (\<lambda>s. setJSON client (ingressInstanceKey serviceName addr) (encIngress cd (details, s)) e)"

definition etcd_RemoveIngressInstance :: "'e etcd_client \<Rightarrow> string \<Rightarrow> ipport \<Rightarrow> 'e \<Rightarrow> etcd_error option \<times> 'e" where
  "etcd_RemoveIngressInstance client serviceName addr e =
     deleteRecursive client (ingressInstanceKey serviceName addr) e"

section \<open>Hosts and sessions\<close>

definition etcd_RegisterHost ::
  "codec \<Rightarrow> 'e etcd_client \<Rightarrow> etcd_session \<Rightarrow> string \<Rightarrow> host \<Rightarrow> 'e \<Rightarrow> (etcd_error option \<times> 'e) option" where
  "etcd_RegisterHost cd client session identity details e =
     with_session session (\<lambda>s. setJSON client (hostKey identity) (encHost cd (details, s)) e)"

definition etcd_DeregisterHost :: "'e etcd_client \<Rightarrow> string \<Rightarrow> 'e \<Rightarrow> etcd_error option \<times> 'e" where
  "etcd_DeregisterHost client identity e = deleteRecursive client (hostKey identity) e"

fun live_hosts :: "codec \<Rightarrow> string set \<Rightarrow> etcd_node list \<Rightarrow> host list \<Rightarrow> etcd_error + host list" where
  "live_hosts cd live [] hosts = Inr hosts"
| "live_hosts cd live (n # ns) hosts =
     (case decHost cd (nodeValue n) of
        None \<Rightarrow> Inl (DecodeError (nodeKey n))
      | Some (h, session) \<Rightarrow> live_hosts cd live ns (if session \<in> live then hosts @ [h] else hosts))"

definition etcd_GetHosts :: "codec \<Rightarrow> 'e etcd_client \<Rightarrow> 'e \<Rightarrow> etcd_error + host list" where
  "etcd_GetHosts cd client e =
     (case liveSessions client e of
        Inl err \<Rightarrow> Inl err
      | Inr live \<Rightarrow>
          (case getDirNode client HOST_ROOT True False e of
             Inl err \<Rightarrow> Inl err
           | Inr (node, _) \<Rightarrow> live_hosts cd live (nodeNodes node) []))"

text \<open>The first heartbeat makes the session, from a random identity.\<close>

definition etcd_Heartbeat ::
  "'e etcd_client \<Rightarrow> string \<Rightarrow> int \<Rightarrow> etcd_session \<times> 'e \<Rightarrow> etcd_error option \<times> etcd_session \<times> 'e" where
  "etcd_Heartbeat client fresh ttl x =
     (case x of (session, e) \<Rightarrow>
        let s = (case session of None \<Rightarrow> fresh | Some s \<Rightarrow> s) in
        case clSet client (sessionKey s) s (Some ttl) e of
          (err, e') \<Rightarrow> (map_option ClientError err, Some s, e'))"

text \<open>Without a session the key of the empty session is deleted.\<close>

definition etcd_EndSession :: "'e etcd_client \<Rightarrow> etcd_session \<Rightarrow> 'e \<Rightarrow> etcd_error option \<times> 'e" where
  "etcd_EndSession client session e =
     (case clDelete client (sessionKey (case session of None \<Rightarrow> [] | Some s \<Rightarrow> s)) False e of
        (err, e') \<Rightarrow> (map_option ClientError err, e'))"

section \<open>Watching\<close>

record etcd_response =
  reAction :: string
  reKey :: string

text \<open>\<open>handleResponse\<close> of \<open>WatchServices\<close>: the known services and the changes reported.\<close>

definition relevant_change :: "query_opts \<Rightarrow> parsed_key option \<Rightarrow> service_change list" where
  "relevant_change opts key =
     (case Option.bind key (relevantTo opts) of
        Some (True, service) \<Rightarrow> [\<lparr>scName = service, scServiceDeleted = False\<rparr>]
      | _ \<Rightarrow> [])"

definition handle_service_response ::
  "string ordering \<Rightarrow> query_opts \<Rightarrow> etcd_response \<Rightarrow> string set \<Rightarrow> service_change list \<times> string set" where
  "handle_service_response ord opts r svcs =
     (let key = parseKey (reKey r) in
      if reAction r = ''delete'' then
        (case key of
           Some ParsedRootKey \<Rightarrow>
             (List.map (\<lambda>name. \<lparr>scName = name, scServiceDeleted = True\<rparr>) (ord [''svcs''] svcs), {})
         | Some (ParsedServiceRootKey name) \<Rightarrow>
             ([\<lparr>scName = name, scServiceDeleted = True\<rparr>], svcs - {name})
         | _ \<Rightarrow> (relevant_change opts key, svcs))
      else if reAction r = ''set'' then
        (case key of
           Some (ParsedServiceKey name) \<Rightarrow>
             ([\<lparr>scName = name, scServiceDeleted = False\<rparr>], insert name svcs)
         | _ \<Rightarrow> (relevant_change opts key, svcs))
      else ([], svcs))"

text \<open>The services known when the watch starts and the index it starts after.\<close>

definition watch_services_start :: "'e etcd_client \<Rightarrow> 'e \<Rightarrow> etcd_error + (string set \<times> nat)" where
  "watch_services_start client e =
     (case getDirNode client SERVICE_ROOT True False e of
        Inl err \<Rightarrow> Inl err
      | Inr (node, startIndex) \<Rightarrow> Inr (dom (indexDir (Some node)), startIndex))"

text \<open>
  \<open>handleResponse\<close> of \<open>WatchHosts\<close>: the slice of a key that is shorter than the root of the hosts
  is a panic.
\<close>

definition handle_host_response ::
  "etcd_response \<Rightarrow> string set \<Rightarrow> (host_change list \<times> string set) option" where
  "handle_host_response r hosts =
     (if length (reKey r) < length HOST_ROOT then None
      else let hostID = drop (length HOST_ROOT) (reKey r) in
        if reAction r \<in> {''delete'', ''expire''} then
          Some ([\<lparr>hcName = hostID, hcHostDeparted = True\<rparr>], hosts - {hostID})
        else if reAction r = ''set'' then
          Some ([\<lparr>hcName = hostID, hcHostDeparted = False\<rparr>], insert hostID hosts)
        else Some ([], hosts))"

fun watch_services_run ::
  "string ordering \<Rightarrow> query_opts \<Rightarrow> etcd_response list \<Rightarrow> string set \<Rightarrow> service_change list \<times> string set" where
  "watch_services_run ord opts [] svcs = ([], svcs)"
| "watch_services_run ord opts (r # rs) svcs =
     (case handle_service_response ord opts r svcs of (out, svcs1) \<Rightarrow>
        case watch_services_run ord opts rs svcs1 of (out', svcs2) \<Rightarrow> (out @ out', svcs2))"

text \<open>
  What \<open>Next\<close> of a watcher returns: a response, the error of a context that is cancelled, or
  another error. The goroutine of a watch ends at an error and posts it unless it is the first.
\<close>

datatype 'w watch_next =
    NextResponse etcd_response
  | NextCanceled
  | NextFailed 'w

datatype 'w watch_error =
    StartError etcd_error
  | WatchError 'w

fun watch_services_loop ::
  "string ordering \<Rightarrow> query_opts \<Rightarrow> 'w watch_next list \<Rightarrow> string set \<Rightarrow> service_change list \<times> 'w watch_error option" where
  "watch_services_loop ord opts [] svcs = ([], None)"
| "watch_services_loop ord opts (NextCanceled # ns) svcs = ([], None)"
| "watch_services_loop ord opts (NextFailed err # ns) svcs = ([], Some (WatchError err))"
| "watch_services_loop ord opts (NextResponse r # ns) svcs =
     (case handle_service_response ord opts r svcs of (out, svcs1) \<Rightarrow>
        case watch_services_loop ord opts ns svcs1 of (out', err) \<Rightarrow> (out @ out', err))"

text \<open>The watcher is made for the changes after an index.\<close>

definition etcd_WatchServices ::
  "string ordering \<Rightarrow> query_opts \<Rightarrow> 'e etcd_client \<Rightarrow> (nat \<Rightarrow> 'w watch_next list) \<Rightarrow> 'e \<Rightarrow>
     service_change list \<times> 'w watch_error option" where
  "etcd_WatchServices ord opts client watcher e =
     (case watch_services_start client e of
        Inl err \<Rightarrow> ([], Some (StartError err))
      | Inr (svcs, startIndex) \<Rightarrow> watch_services_loop ord opts (watcher startIndex) svcs)"

fun watch_hosts_loop :: "'w watch_next list \<Rightarrow> string set \<Rightarrow> (host_change list \<times> 'w watch_error option) option" where
  "watch_hosts_loop [] hosts = Some ([], None)"
| "watch_hosts_loop (NextCanceled # ns) hosts = Some ([], None)"
| "watch_hosts_loop (NextFailed err # ns) hosts = Some ([], Some (WatchError err))"
| "watch_hosts_loop (NextResponse r # ns) hosts =
     (case handle_host_response r hosts of
        None \<Rightarrow> None
      | Some (out, hosts1) \<Rightarrow> map_option (map_prod ((@) out) id) (watch_hosts_loop ns hosts1))"

definition etcd_WatchHosts ::
  "'e etcd_client \<Rightarrow> (nat \<Rightarrow> 'w watch_next list) \<Rightarrow> 'e \<Rightarrow> (host_change list \<times> 'w watch_error option) option" where
  "etcd_WatchHosts client watcher e =
     (case getDirNode client HOST_ROOT True False e of
        Inl err \<Rightarrow> Some ([], Some (StartError err))
      | Inr (node, startIndex) \<Rightarrow> watch_hosts_loop (watcher startIndex) (dom (indexDir (Some node))))"

end
