(* ===== verification/EtcdCorrect.thy ===== *)
theory EtcdCorrect
  imports EtcdStore
begin

text \<open>
  Correctness of the etcd store: the subtree of a service as an abstract service, the queries as
  views of it, and each operation as an update of it.
\<close>

section \<open>Keys and paths\<close>

lemma split_all_append_sep: "split_all c (a @ c # b) = split_all c a @ split_all c b"
proof (induction a)
  case (Cons x a)
  have "split_all c a \<noteq> []" by simp
  then show ?case using Cons by (cases "split_all c a") auto
qed simp

lemma key_path_append: "key_path (a @ CHR ''/'' # b) = key_path a @ key_path b"
  by (simp add: key_path_def split_all_append_sep)

lemma key_path_name: "name_ok s \<Longrightarrow> key_path s = [s]"
  by (simp add: key_path_def name_ok_def)

lemma name_ok_paths [simp]:
  "name_ok DETAIL_PATH" "name_ok RULE_PATH" "name_ok INSTANCE_PATH" "name_ok INGRESS_INSTANCE_PATH"
  by (simp_all add: name_ok_def) (simp_all add: RULE_PATH_def DETAIL_PATH_def INSTANCE_PATH_def INGRESS_INSTANCE_PATH_def)

abbreviation service_dir :: "string list" where
  "service_dir \<equiv> [''weave-flux'', ''service'']"

lemma SERVICE_ROOT_alt: "SERVICE_ROOT @ r = ''/weave-flux/service'' @ CHR ''/'' # r"
  and SESSION_ROOT_alt: "SESSION_ROOT @ r = ''/weave-flux/session'' @ CHR ''/'' # r"
  and HOST_ROOT_alt: "HOST_ROOT @ r = ''/weave-flux/host'' @ CHR ''/'' # r"
  by (simp_all add: SERVICE_ROOT_def SESSION_ROOT_def HOST_ROOT_def ROOT_def)

lemma key_path_roots:
  "key_path ''/weave-flux/service'' = service_dir"
  "key_path ''/weave-flux/session'' = [''weave-flux'', ''session'']"
  "key_path ''/weave-flux/host'' = [''weave-flux'', ''host'']"
  "key_path SERVICE_ROOT = service_dir" "key_path SESSION_ROOT = [''weave-flux'', ''session'']"
  "key_path HOST_ROOT = [''weave-flux'', ''host'']"
proof -
  have w: "name_ok ''weave-flux''" "name_ok ''service''" "name_ok ''session''" "name_ok ''host''"
    by (simp_all add: name_ok_def)
  have k: "key_path (CHR ''/'' # s) = key_path s" for s
    using key_path_append [of "[]" s] by (simp add: key_path_def)
  have e: "key_path (s @ ''/'') = key_path s" for s
    using key_path_append [of s "[]"] by (simp add: key_path_def)
  have two: "key_path (CHR ''/'' # ''weave-flux'' @ CHR ''/'' # s) = [''weave-flux'', s]" if "name_ok s" for s
    unfolding k key_path_append using that w(1) by (simp add: key_path_name)
  show s: "key_path ''/weave-flux/service'' = service_dir" using two [OF w(2)] by simp
  show t: "key_path ''/weave-flux/session'' = [''weave-flux'', ''session'']" using two [OF w(3)] by simp
  show h: "key_path ''/weave-flux/host'' = [''weave-flux'', ''host'']" using two [OF w(4)] by simp
  show "key_path SERVICE_ROOT = service_dir" using s e [of "''/weave-flux/service''"]
    by (simp add: SERVICE_ROOT_def ROOT_def)
  show "key_path SESSION_ROOT = [''weave-flux'', ''session'']" using t e [of "''/weave-flux/session''"]
    by (simp add: SESSION_ROOT_def ROOT_def)
  show "key_path HOST_ROOT = [''weave-flux'', ''host'']" using h e [of "''/weave-flux/host''"]
    by (simp add: HOST_ROOT_def ROOT_def)
qed

lemma key_path_keys:
  assumes "name_ok s"
  shows "key_path (serviceRootKey s) = service_dir @ [s]"
    and "key_path (serviceKey s) = service_dir @ [s, DETAIL_PATH]"
    and "name_ok n \<Longrightarrow> key_path (ruleKey s n) = service_dir @ [s, RULE_PATH, n]"
    and "name_ok n \<Longrightarrow> key_path (instanceKey s n) = service_dir @ [s, INSTANCE_PATH, n]"
    and "name_ok (ipport_String a) \<Longrightarrow> key_path (ingressInstanceKey s a) = service_dir @ [s, INGRESS_INSTANCE_PATH, ipport_String a]"
  using assms
  by (simp_all add: serviceRootKey_def serviceKey_def ruleKey_def instanceKey_def ingressInstanceKey_def
      SERVICE_ROOT_alt key_path_append key_path_roots key_path_name del: append.simps)

lemma name_ok_ipport: "length (ipBytes a) = 16 \<Longrightarrow> 0 \<le> ipPortNum a \<Longrightarrow> name_ok (ipport_String a)"
  using ipport_String_no_slash [of a] by (auto simp: name_ok_def ipport_String_def joinHostPort_def Let_def)

definition plain_name :: "string \<Rightarrow> bool" where
  "plain_name s \<longleftrightarrow> name_ok s \<and> s \<noteq> ''.'' \<and> s \<noteq> ''..''"

lemma plain_name_ok: "plain_name s \<Longrightarrow> name_ok s"
  by (simp add: plain_name_def)

lemma reserved_not_dots [simp]:
  "DETAIL_PATH \<noteq> ''.''" "DETAIL_PATH \<noteq> ''..''" "RULE_PATH \<noteq> ''.''" "RULE_PATH \<noteq> ''..''"
  "INSTANCE_PATH \<noteq> ''.''" "INSTANCE_PATH \<noteq> ''..''" "INGRESS_INSTANCE_PATH \<noteq> ''.''" "INGRESS_INSTANCE_PATH \<noteq> ''..''"
  by (simp_all add: RULE_PATH_def DETAIL_PATH_def INSTANCE_PATH_def INGRESS_INSTANCE_PATH_def)

lemma plain_keys:
  assumes "plain_name s"
  shows "plain_key (serviceRootKey s)" and "plain_key (serviceKey s)"
    and "plain_name n \<Longrightarrow> plain_key (ruleKey s n)"
    and "plain_name n \<Longrightarrow> plain_key (instanceKey s n)"
    and "plain_name (ipport_String a) \<Longrightarrow> plain_key (ingressInstanceKey s a)"
    and "plain_key SERVICE_ROOT" and "plain_key SESSION_ROOT" and "plain_key HOST_ROOT"
  using assms key_path_keys [OF plain_name_ok [OF assms]]
  by (auto simp: plain_key_def plain_name_def key_path_roots reserved_not_dots [symmetric])

section \<open>Directories as maps\<close>

lemma node_name_path:
  assumes "CHR ''/'' \<notin> set c"
  shows "node_name (path_key (p @ [c])) = c"
  using lastIndex_sep [OF assms, of "path_key p"] by (simp add: node_name_def path_key_append nat_add_distrib)

definition names_plain :: "etcd_dir \<Rightarrow> bool" where
  "names_plain m \<longleftrightarrow> (\<forall>c. fmlookup m c \<noteq> None \<longrightarrow> CHR ''/'' \<notin> set c)"

lemma foldl_map_upd:
  "distinct cs \<Longrightarrow> \<forall>c \<in> set cs. g (f c) = c \<Longrightarrow>
     foldl (\<lambda>res n. res(g n \<mapsto> n)) acc (List.map f cs) = (\<lambda>c. if c \<in> set cs then Some (f c) else acc c)"
  by (induction cs arbitrary: acc) (auto simp: fun_eq_iff)

lemma indexDir_children:
  assumes "names_plain m" and "nodeNodes n = List.map (\<lambda>c. f c) (visible_names m)"
    and "\<And>c. nodeKey (f c) = path_key (p @ [c])"
  shows "indexDir (Some n) = (\<lambda>c. if visible c \<and> fmlookup m c \<noteq> None then Some (f c) else None)"
proof -
  have "\<forall>c \<in> set (visible_names m). node_name (nodeKey (f c)) = c"
    using assms(1,3) by (auto simp: names_plain_def node_name_path)
  from foldl_map_upd [of "visible_names m" "\<lambda>n. node_name (nodeKey n)" f Map.empty, OF distinct_visible_names this]
  show ?thesis by (simp add: indexDir_def assms(2) fun_eq_iff)
qed

lemma nodeKey_full [simp]: "nodeKey (full_node t p) = path_key p"
  by (cases t) auto

lemma nodeKey_bare [simp]: "nodeKey (bare_node t p) = path_key p"
  by (cases t) (auto simp: bare_node_def)

lemma indexDir_full:
  assumes "names_plain m"
  shows "indexDir (Some (full_node (Branch m) p)) =
    (\<lambda>c. if visible c then map_option (\<lambda>t. full_node t (p @ [c])) (fmlookup m c) else None)"
proof -
  have "indexDir (Some (full_node (Branch m) p)) =
      (\<lambda>c. if visible c \<and> fmlookup m c \<noteq> None then Some (full_node (the (fmlookup m c)) (p @ [c])) else None)"
    by (rule indexDir_children [OF assms]) (simp_all add: full_node_Branch del: full_node.simps)
  then show ?thesis by (auto simp: fun_eq_iff)
qed

lemma indexDir_shallow:
  assumes "names_plain m"
  shows "indexDir (Some (shallow_node (Branch m) p)) =
    (\<lambda>c. if visible c then map_option (\<lambda>t. bare_node t (p @ [c])) (fmlookup m c) else None)"
proof -
  have "indexDir (Some (shallow_node (Branch m) p)) =
      (\<lambda>c. if visible c \<and> fmlookup m c \<noteq> None then Some (bare_node (the (fmlookup m c)) (p @ [c])) else None)"
    by (rule indexDir_children [OF assms]) (simp_all add: shallow_node_def)
  then show ?thesis by (auto simp: fun_eq_iff)
qed

section \<open>Decoding loops\<close>

lemma collect_ok:
  assumes "\<forall>k \<in> set ks. \<forall>n. dir k = Some n \<longrightarrow> f k n = Inr (h k n)"
  shows "\<exists>r. collect f dir ks acc = Inr r \<and>
    (\<forall>a. (\<forall>k \<in> set ks. \<forall>n b. dir k = Some n \<longrightarrow> h k n \<noteq> Some (a, b)) \<longrightarrow> r a = acc a) \<and>
    (\<forall>k \<in> set ks. \<forall>n a b. dir k = Some n \<longrightarrow> h k n = Some (a, b) \<longrightarrow>
       (\<forall>k' \<in> set ks. \<forall>n' b'. dir k' = Some n' \<longrightarrow> h k' n' = Some (a, b') \<longrightarrow> k' = k) \<longrightarrow> r a = Some b)"
  using assms
proof (induction ks arbitrary: acc)
  case Nil
  then show ?case by simp
next
  case (Cons k ks)
  show ?case
  proof (cases "dir k")
    case None
    from Cons.IH [of acc] Cons.prems show ?thesis by (simp add: None)
  next
    case (Some n)
    show ?thesis
    proof (cases "h k n")
      case h: None
      from Cons.IH [of acc] Cons.prems show ?thesis by (simp add: Some h)
    next
      case h: (Some ab)
      obtain a b where ab: "ab = (a, b)" by fastforce
      obtain r where r: "collect f dir ks (acc(a \<mapsto> b)) = Inr r"
        "\<And>x. (\<forall>k \<in> set ks. \<forall>n b. dir k = Some n \<longrightarrow> h k n \<noteq> Some (x, b)) \<Longrightarrow> r x = (acc(a \<mapsto> b)) x"
        "\<And>k n x y. k \<in> set ks \<Longrightarrow> dir k = Some n \<Longrightarrow> h k n = Some (x, y) \<Longrightarrow>
           (\<forall>k' \<in> set ks. \<forall>n' b'. dir k' = Some n' \<longrightarrow> h k' n' = Some (x, b') \<longrightarrow> k' = k) \<Longrightarrow> r x = Some y"
      proof -
        have "\<forall>k \<in> set ks. \<forall>n. dir k = Some n \<longrightarrow> f k n = Inr (h k n)" using Cons.prems by simp
        from Cons.IH [of "acc(a \<mapsto> b)", OF this] show ?thesis
          by (elim exE conjE) (rule that, assumption, blast, blast)
      qed
      have c: "collect f dir (k # ks) acc = Inr r" using Some h ab r(1) Cons.prems by simp
      have 1: "r x = acc x" if "\<forall>k' \<in> set (k # ks). \<forall>n b. dir k' = Some n \<longrightarrow> h k' n \<noteq> Some (x, b)" for x
        using r(2) [of x] that Some h ab by auto
      have 2: "r x = Some y"
        if k': "k' \<in> set (k # ks)" "dir k' = Some n'" "h k' n' = Some (x, y)"
          and u: "\<forall>j \<in> set (k # ks). \<forall>n' b'. dir j = Some n' \<longrightarrow> h j n' = Some (x, b') \<longrightarrow> j = k'" for k' n' x y
      proof (cases "k' \<in> set ks")
        case True
        then show ?thesis using r(3) [OF True k'(2,3)] u by auto
      next
        case False
        then have "k' = k" "n' = n" "x = a" "y = b" using k' Some h ab by auto
        moreover have "\<forall>j \<in> set ks. \<forall>n b. dir j = Some n \<longrightarrow> h j n \<noteq> Some (x, b)"
          using u False by (metis list.set_intros(2))
        ultimately show ?thesis using r(2) [of x] by simp
      qed
      show ?thesis using c 1 2 by blast
    qed
  qed
qed

text \<open>
  A directory read as a map: what each leaf decodes to, provided no decoding fails and no two
  leaves decode to the same key.
\<close>

lemma read_dir_ok:
  assumes "ordering_ok ord" and "finite (dom (indexDir node))"
    and "\<forall>k n. indexDir node k = Some n \<longrightarrow> f k n = Inr (h k n)"
    and "\<forall>k k' n n' a b b'. indexDir node k = Some n \<longrightarrow> h k n = Some (a, b) \<longrightarrow>
      indexDir node k' = Some n' \<longrightarrow> h k' n' = Some (a, b') \<longrightarrow> k' = k"
    and "\<forall>k n a b. indexDir node k = Some n \<longrightarrow> h k n = Some (a, b) \<longrightarrow> R a = Some b"
    and "\<forall>a b. R a = Some b \<longrightarrow> (\<exists>k n. indexDir node k = Some n \<and> h k n = Some (a, b))"
  shows "read_dir ord l f node = Inr R"
proof -
  let ?D = "indexDir node"
  let ?ks = "ord l (dom ?D)"
  have ks: "set ?ks = dom ?D" using assms(1,2) by simp
  have "\<forall>k \<in> set ?ks. \<forall>n. ?D k = Some n \<longrightarrow> f k n = Inr (h k n)" using assms(3) by blast
  from collect_ok [of ?ks ?D f h Map.empty, OF this] obtain r
    where r: "collect f ?D ?ks Map.empty = Inr r"
      "\<And>a. (\<forall>k \<in> set ?ks. \<forall>n b. ?D k = Some n \<longrightarrow> h k n \<noteq> Some (a, b)) \<Longrightarrow> r a = None"
      "\<And>k n a b. k \<in> set ?ks \<Longrightarrow> ?D k = Some n \<Longrightarrow> h k n = Some (a, b) \<Longrightarrow>
         (\<forall>k' \<in> set ?ks. \<forall>n' b'. ?D k' = Some n' \<longrightarrow> h k' n' = Some (a, b') \<longrightarrow> k' = k) \<Longrightarrow> r a = Some b"
    by (elim exE conjE) (rule that, assumption, blast, blast)
  have "r a = R a" for a
  proof (cases "R a")
    case None
    then have "\<forall>k \<in> set ?ks. \<forall>n b. ?D k = Some n \<longrightarrow> h k n \<noteq> Some (a, b)"
      using assms(5) by (metis option.distinct(1))
    then show ?thesis using r(2) None by simp
  next
    case (Some b)
    then obtain k n where k: "?D k = Some n" "h k n = Some (a, b)" using assms(6) by blast
    have "k \<in> set ?ks" using ks k(1) by auto
    from r(3) [OF this k] assms(4) k have "r a = Some b" by blast
    then show ?thesis using Some by simp
  qed
  then have "r = R" by (rule ext)
  then show ?thesis using r(1) by (simp add: read_dir_def)
qed

section \<open>The abstract service\<close>

record abs_service =
  asService :: service
  asInstances :: "string \<rightharpoonup> inst \<times> string"
  asRules :: "string \<rightharpoonup> container_rule"
  asIngress :: "ipport \<rightharpoonup> ingress_instance \<times> string"

definition leaves :: "etcd_dir \<Rightarrow> string \<Rightarrow> string \<rightharpoonup> string" where
  "leaves m sub =
     (\<lambda>c. case fmlookup m sub of
        Some (Branch b) \<Rightarrow> (case fmlookup b c of Some (Leaf v) \<Rightarrow> Some v | _ \<Rightarrow> None)
      | _ \<Rightarrow> None)"

definition abs_of :: "codec \<Rightarrow> (string \<Rightarrow> string \<Rightarrow> int option) \<Rightarrow> etcd_dir \<Rightarrow> abs_service" where
  "abs_of cd names m =
     \<lparr>asService = (case fmlookup m DETAIL_PATH of Some (Leaf v) \<Rightarrow> the (decService cd v) | _ \<Rightarrow> undefined),
      asInstances = (\<lambda>i. Option.bind (leaves m INSTANCE_PATH i) (decInstance cd)),
      asRules = (\<lambda>r. Option.bind (leaves m RULE_PATH r) (decRule cd)),
      asIngress = (\<lambda>a. if ParseIPPort names (ipport_String a) = Some a
        then Option.bind (leaves m INGRESS_INSTANCE_PATH (ipport_String a)) (decIngress cd) else None)\<rparr>"

text \<open>What a query shows: the records of live sessions, as far as the options ask for them.\<close>

definition of_live :: "string set \<Rightarrow> ('k \<rightharpoonup> 'v \<times> string) \<Rightarrow> 'k \<rightharpoonup> 'v" where
  "of_live live M = (\<lambda>k. case M k of Some (x, s) \<Rightarrow> if s \<in> live then Some x else None | None \<Rightarrow> None)"

definition abs_info :: "query_opts \<Rightarrow> string set \<Rightarrow> abs_service \<Rightarrow> service_info" where
  "abs_info opts live A =
     service.extend (asService A)
       \<lparr>Instances = if WithInstances opts then of_live live (asInstances A) else Map.empty,
        ContainerRules = if WithContainerRules opts then asRules A else Map.empty,
        IngressInstances = if WithIngressInstances opts then of_live live (asIngress A) else Map.empty\<rparr>"

text \<open>A directory of values that decode, and the directory of a service.\<close>

definition records_ok :: "etcd_dir \<Rightarrow> string \<Rightarrow> (string \<Rightarrow> string \<Rightarrow> bool) \<Rightarrow> bool" where
  "records_ok m sub P \<longleftrightarrow>
     (case fmlookup m sub of
        None \<Rightarrow> True
      | Some (Leaf _) \<Rightarrow> False
      | Some (Branch b) \<Rightarrow> \<forall>c t. fmlookup b c = Some t \<longrightarrow>
          visible c \<and> CHR ''/'' \<notin> set c \<and> (\<exists>v. t = Leaf v \<and> P c v))"

definition service_dir_ok :: "codec \<Rightarrow> (string \<Rightarrow> string \<Rightarrow> int option) \<Rightarrow> etcd_dir \<Rightarrow> bool" where
  "service_dir_ok cd names m \<longleftrightarrow> names_plain m \<and>
     (\<exists>v. fmlookup m DETAIL_PATH = Some (Leaf v) \<and> decService cd v \<noteq> None) \<and>
     records_ok m INSTANCE_PATH (\<lambda>c v. decInstance cd v \<noteq> None) \<and>
     records_ok m RULE_PATH (\<lambda>c v. decRule cd v \<noteq> None) \<and>
     records_ok m INGRESS_INSTANCE_PATH
       (\<lambda>c v. decIngress cd v \<noteq> None \<and> (\<exists>a. c = ipport_String a \<and> ParseIPPort names c = Some a))"

lemma visible_paths [simp]:
  "visible DETAIL_PATH" "visible RULE_PATH" "visible INSTANCE_PATH" "visible INGRESS_INSTANCE_PATH"
  by (simp_all add: visible_def RULE_PATH_def DETAIL_PATH_def INSTANCE_PATH_def INGRESS_INSTANCE_PATH_def)

text \<open>The nodes of such a directory are its leaves.\<close>

lemma index_records:
  fixes p :: "string list"
  assumes "names_plain m" and "visible sub" and "records_ok m sub P"
  defines "D \<equiv> indexDir (indexDir (Some (full_node (Branch m) p)) sub)"
  shows "finite (dom D)" and "map_option nodeValue (D c) = leaves m sub c"
    and "leaves m sub c = Some v \<Longrightarrow> P c v"
proof -
  have "finite (dom D) \<and> (\<forall>c. map_option nodeValue (D c) = leaves m sub c) \<and> (\<forall>c v. leaves m sub c = Some v \<longrightarrow> P c v)"
  proof (cases "fmlookup m sub")
    case None
    then have "D = Map.empty" using assms(2) by (simp add: D_def indexDir_full [OF assms(1)] del: full_node.simps) (simp add: indexDir_def)
    then show ?thesis using None by (simp add: leaves_def)
  next
    case (Some t)
    then obtain b where t: "t = Branch b" using assms(3) by (cases t) (auto simp: records_ok_def)
    have b: "\<And>c t. fmlookup b c = Some t \<Longrightarrow> visible c \<and> CHR ''/'' \<notin> set c \<and> (\<exists>v. t = Leaf v \<and> P c v)"
      using assms(3) Some t by (auto simp: records_ok_def)
    have plain: "names_plain b" using b by (auto simp: names_plain_def)
    have D: "D c = (if visible c then map_option (\<lambda>t. full_node t (p @ [sub] @ [c])) (fmlookup b c) else None)" for c
      using assms(2) Some t by (simp add: D_def indexDir_full [OF assms(1)] indexDir_full [OF plain] del: full_node.simps)
    have "dom D \<subseteq> fmdom' b" using D by (auto simp: fmlookup_dom'_iff split: if_splits)
    then have "finite (dom D)" using finite_fmdom' finite_subset by blast
    moreover have "map_option nodeValue (D c) = leaves m sub c" for c
      using D [of c] b [of c] Some t by (cases "fmlookup b c") (auto simp: leaves_def)
    moreover have "P c v" if "leaves m sub c = Some v" for c v
      using that b [of c] Some t by (auto simp: leaves_def split: option.splits etcd_tree.splits)
    ultimately show ?thesis by blast
  qed
  then show "finite (dom D)" and "map_option nodeValue (D c) = leaves m sub c"
    and "leaves m sub c = Some v \<Longrightarrow> P c v" by blast+
qed

lemma read_records:
  assumes "ordering_ok ord" and "names_plain m" and "visible sub" and "records_ok m sub P"
    and "\<forall>k n. P k (nodeValue n) \<longrightarrow> f k n = Inr (g k (nodeValue n))"
    and "\<forall>k k' v v' a b b'. P k v \<longrightarrow> P k' v' \<longrightarrow> g k v = Some (a, b) \<longrightarrow> g k' v' = Some (a, b') \<longrightarrow> k' = k"
    and "\<forall>k v a b. P k v \<longrightarrow> leaves m sub k = Some v \<longrightarrow> g k v = Some (a, b) \<longrightarrow> R a = Some b"
    and "\<forall>a b. R a = Some b \<longrightarrow> (\<exists>k v. leaves m sub k = Some v \<and> g k v = Some (a, b))"
  shows "read_dir ord l f (indexDir (Some (full_node (Branch m) p)) sub) = Inr R"
proof -
  let ?D = "indexDir (indexDir (Some (full_node (Branch m) p)) sub)"
  note ix = index_records(1,2) [OF assms(2-4), where p = p] index_records(3) [OF assms(2-4)]
  have v: "leaves m sub k = Some (nodeValue n)" and P: "P k (nodeValue n)" if "?D k = Some n" for k n
    using ix(2) [of k] ix(3) [of k "nodeValue n"] that by simp_all
  have n: "\<exists>n. ?D k = Some n \<and> nodeValue n = w" if "leaves m sub k = Some w" for k w
    using ix(2) [of k] that by simp
  show ?thesis
  proof (rule read_dir_ok [where h = "\<lambda>k n. g k (nodeValue n)", OF assms(1) ix(1)])
    show "\<forall>k n. ?D k = Some n \<longrightarrow> f k n = Inr (g k (nodeValue n))" using P assms(5) by blast
    show "\<forall>k k' n n' a b b'. ?D k = Some n \<longrightarrow> g k (nodeValue n) = Some (a, b) \<longrightarrow>
      ?D k' = Some n' \<longrightarrow> g k' (nodeValue n') = Some (a, b') \<longrightarrow> k' = k" using P assms(6) by blast
    show "\<forall>k n a b. ?D k = Some n \<longrightarrow> g k (nodeValue n) = Some (a, b) \<longrightarrow> R a = Some b"
      using P v assms(7) by blast
    show "\<forall>a b. R a = Some b \<longrightarrow> (\<exists>k n. ?D k = Some n \<and> g k (nodeValue n) = Some (a, b))"
      using n assms(8) by metis
  qed
qed

section \<open>The queries\<close>

definition live_entry :: "string set \<Rightarrow> 'k \<Rightarrow> ('v \<times> string) option \<Rightarrow> ('k \<times> 'v) option" where
  "live_entry live k x = (case x of Some (i, s) \<Rightarrow> if s \<in> live then Some (k, i) else None | None \<Rightarrow> None)"

lemma live_entry_Some: "live_entry live k x = Some (a, b) \<longleftrightarrow> a = k \<and> (\<exists>s. x = Some (b, s) \<and> s \<in> live)"
  by (auto simp: live_entry_def split: option.splits)

lemma of_live_Some: "of_live live M k = Some x \<longleftrightarrow> (\<exists>s. M k = Some (x, s) \<and> s \<in> live)"
  by (auto simp: of_live_def split: option.splits)

lemma live_instance_alt:
  "decInstance cd (nodeValue n) \<noteq> None \<Longrightarrow>
     live_instance cd live k n = Inr (live_entry live k (decInstance cd (nodeValue n)))"
  by (auto simp: live_instance_def live_entry_def)

lemma read_instances:
  assumes "ordering_ok ord" and "service_dir_ok cd names m"
  shows "read_dir ord l (live_instance cd live) (indexDir (Some (full_node (Branch m) p)) INSTANCE_PATH)
    = Inr (of_live live (asInstances (abs_of cd names m)))"
  by (rule read_records [where P = "\<lambda>c v. decInstance cd v \<noteq> None" and
        g = "\<lambda>k v. live_entry live k (decInstance cd v)", OF assms(1)])
    (use assms(2) in \<open>auto simp: service_dir_ok_def live_instance_alt live_entry_Some of_live_Some abs_of_def
      bind_eq_Some_conv\<close>)

lemma read_rules:
  assumes "ordering_ok ord" and "service_dir_ok cd names m"
  shows "read_dir ord l (read_rule cd) (indexDir (Some (full_node (Branch m) p)) RULE_PATH)
    = Inr (asRules (abs_of cd names m))"
  by (rule read_records [where P = "\<lambda>c v. decRule cd v \<noteq> None" and
        g = "\<lambda>k v. map_option (\<lambda>r. (k, r)) (decRule cd v)", OF assms(1)])
    (use assms(2) in \<open>auto simp: service_dir_ok_def read_rule_def abs_of_def bind_eq_Some_conv\<close>)

lemma read_ingress:
  assumes "ordering_ok ord" and "service_dir_ok cd names m"
  shows "read_dir ord l (live_ingress cd names live) (indexDir (Some (full_node (Branch m) p)) INGRESS_INSTANCE_PATH)
    = Inr (of_live live (asIngress (abs_of cd names m)))"
proof -
  let ?P = "\<lambda>c v. decIngress cd v \<noteq> None \<and> (\<exists>a. c = ipport_String a \<and> ParseIPPort names c = Some a)"
  let ?g = "\<lambda>k v. Option.bind (ParseIPPort names k) (\<lambda>a. live_entry live a (decIngress cd v))"
  show ?thesis
  proof (rule read_records [where P = ?P and g = ?g, OF assms(1)])
    show "names_plain m" "records_ok m INGRESS_INSTANCE_PATH ?P" using assms(2) by (auto simp: service_dir_ok_def)
    show "visible INGRESS_INSTANCE_PATH" by simp
    show "\<forall>k n. ?P k (nodeValue n) \<longrightarrow> live_ingress cd names live k n = Inr (?g k (nodeValue n))"
      by (auto simp: live_ingress_def live_entry_def split: option.splits)
    show "\<forall>k k' v v' a b b'. ?P k v \<longrightarrow> ?P k' v' \<longrightarrow> ?g k v = Some (a, b) \<longrightarrow> ?g k' v' = Some (a, b') \<longrightarrow> k' = k"
      by (auto simp: live_entry_Some)
    show "\<forall>k v a b. ?P k v \<longrightarrow> leaves m INGRESS_INSTANCE_PATH k = Some v \<longrightarrow> ?g k v = Some (a, b) \<longrightarrow>
        of_live live (asIngress (abs_of cd names m)) a = Some b"
      by (auto simp: live_entry_Some of_live_Some abs_of_def bind_eq_Some_conv)
    show "\<forall>a b. of_live live (asIngress (abs_of cd names m)) a = Some b \<longrightarrow>
        (\<exists>k v. leaves m INGRESS_INSTANCE_PATH k = Some v \<and> ?g k v = Some (a, b))"
      by (fastforce simp: live_entry_Some of_live_Some abs_of_def bind_eq_Some_conv split: if_splits)
  qed
qed

lemma serviceInfoFromNode_full:
  assumes "ordering_ok ord" and "service_dir_ok cd names m"
  shows "serviceInfoFromNode ord cd names (full_node (Branch m) p) opts live = Inr (abs_info opts live (abs_of cd names m))"
proof -
  obtain v s where v: "fmlookup m DETAIL_PATH = Some (Leaf v)" "decService cd v = Some s" and pl: "names_plain m"
    using assms(2) by (auto simp: service_dir_ok_def)
  have d: "indexDir (Some (full_node (Branch m) p)) DETAIL_PATH = Some (EtcdNode (path_key (p @ [DETAIL_PATH])) False v [])"
    by (simp add: indexDir_full [OF pl] v del: full_node.simps(2))
  show ?thesis
    by (simp add: serviceInfoFromNode_def d v read_instances [OF assms] read_rules [OF assms] read_ingress [OF assms]
        abs_info_def Let_def del: full_node.simps)
      (simp add: abs_of_def v)
qed

lemma serviceInfoFromNode_shallow:
  assumes "service_dir_ok cd names m"
    and "\<not> WithInstances opts" and "\<not> WithContainerRules opts" and "\<not> WithIngressInstances opts"
  shows "serviceInfoFromNode ord cd names (shallow_node (Branch m) p) opts live = Inr (abs_info opts live (abs_of cd names m))"
proof -
  obtain v s where v: "fmlookup m DETAIL_PATH = Some (Leaf v)" "decService cd v = Some s" and pl: "names_plain m"
    using assms(1) by (auto simp: service_dir_ok_def)
  have d: "indexDir (Some (shallow_node (Branch m) p)) DETAIL_PATH = Some (EtcdNode (path_key (p @ [DETAIL_PATH])) False v [])"
    by (simp add: indexDir_shallow [OF pl] v bare_node_def)
  show ?thesis
    by (simp add: serviceInfoFromNode_def d v assms(2-4) abs_info_def Let_def) (simp add: abs_of_def v)
qed

section \<open>Directories on a path\<close>

definition subdir :: "string \<Rightarrow> etcd_dir \<Rightarrow> etcd_dir" where
  "subdir c d = (case fmlookup d c of Some (Branch b) \<Rightarrow> b | _ \<Rightarrow> fmempty)"

fun dir_at :: "string list \<Rightarrow> etcd_dir \<Rightarrow> etcd_dir" where
  "dir_at [] d = d"
| "dir_at (c # p) d = dir_at p (subdir c d)"

fun no_leaf :: "string list \<Rightarrow> etcd_dir \<Rightarrow> bool" where
  "no_leaf [] d \<longleftrightarrow> True"
| "no_leaf (c # p) d \<longleftrightarrow> (\<forall>v. fmlookup d c \<noteq> Some (Leaf v)) \<and> no_leaf p (subdir c d)"

lemma subdir_empty [simp]: "subdir c fmempty = fmempty"
  by (simp add: subdir_def)

lemma dir_at_empty [simp]: "dir_at p fmempty = fmempty"
  by (induction p) auto

lemma dir_at_append: "dir_at (p @ q) d = dir_at q (dir_at p d)"
  by (induction p arbitrary: d) auto

lemma no_leaf_append: "no_leaf (p @ q) d \<longleftrightarrow> no_leaf p d \<and> no_leaf q (dir_at p d)"
  by (induction p arbitrary: d) auto

lemma tree_get_no_leaf:
  "no_leaf p d \<Longrightarrow>
     tree_get p d = Some (Branch (dir_at p d)) \<or> tree_get p d = None \<and> dir_at p d = fmempty"
proof (induction p arbitrary: d)
  case (Cons c p)
  show ?case
  proof (cases "fmlookup d c")
    case None
    then show ?thesis by (simp add: tree_get_Cons subdir_def)
  next
    case (Some t)
    then obtain b where b: "t = Branch b" using Cons.prems by (cases t) auto
    show ?thesis using Cons.IH [of b] Cons.prems Some b by (simp add: tree_get_Cons subdir_def)
  qed
qed simp

lemma tree_get_snoc: "no_leaf p d \<Longrightarrow> tree_get (p @ [c]) d = fmlookup (dir_at p d) c"
proof (induction p arbitrary: d)
  case (Cons x p)
  show ?case
  proof (cases "fmlookup d x")
    case (Some t)
    then obtain b where b: "t = Branch b" using Cons.prems by (cases t) auto
    show ?thesis using Cons.IH [of b] Cons.prems Some b by (simp add: tree_get_Cons subdir_def)
  qed (simp add: tree_get_Cons subdir_def)
qed simp

section \<open>The store as the operations see it\<close>

definition services_of :: "etcd_dir \<Rightarrow> etcd_dir" where
  "services_of d = dir_at service_dir d"

definition sessions_of :: "etcd_dir \<Rightarrow> string set" where
  "sessions_of d = {c. visible c \<and> fmlookup (dir_at [''weave-flux'', ''session''] d) c \<noteq> None}"

definition abs_services ::
  "codec \<Rightarrow> (string \<Rightarrow> string \<Rightarrow> int option) \<Rightarrow> etcd_dir \<Rightarrow> string \<rightharpoonup> abs_service" where
  "abs_services cd names d =
     (\<lambda>s. case fmlookup (services_of d) s of Some (Branch m) \<Rightarrow> Some (abs_of cd names m) | _ \<Rightarrow> None)"

definition roots_ok :: "etcd_dir \<Rightarrow> bool" where
  "roots_ok d \<longleftrightarrow> no_leaf service_dir d \<and> no_leaf [''weave-flux'', ''session''] d \<and>
     names_plain (dir_at [''weave-flux'', ''session''] d) \<and>
     (\<forall>c b. fmlookup (dir_at [''weave-flux'', ''session''] d) c \<noteq> Some (Branch b))"

definition etcd_ok :: "codec \<Rightarrow> (string \<Rightarrow> string \<Rightarrow> int option) \<Rightarrow> etcd_dir \<Rightarrow> bool" where
  "etcd_ok cd names d \<longleftrightarrow> roots_ok d \<and>
     (\<forall>s t. fmlookup (services_of d) s = Some t \<longrightarrow>
        plain_name s \<and> visible s \<and> (\<exists>m. t = Branch m \<and> service_dir_ok cd names m))"

lemma indexDir_cong: "nodeNodes n = nodeNodes n' \<Longrightarrow> indexDir (Some n) = indexDir (Some n')"
  by (simp add: indexDir_def)

lemma key_path_serviceRootKey: "plain_name s \<Longrightarrow> key_path (serviceRootKey s) = service_dir @ [s]"
  by (rule key_path_keys(1) [OF plain_name_ok])

context etcd_contract
begin

lemma getDirNode_missing_ok:
  assumes "plain_key key" and "no_leaf (key_path key) (tree e)"
  shows "\<exists>n index. getDirNode client key True r e = Inr (n, index) \<and>
    nodeNodes n = nodeNodes ((if r then full_node else shallow_node) (Branch (dir_at (key_path key) (tree e))) (key_path key))"
proof (cases "tree_get (key_path key) (tree e)")
  case None
  then have "dir_at (key_path key) (tree e) = fmempty" using tree_get_no_leaf [OF assms(2)] by simp
  moreover obtain index where "clGet client key r e = KeyNotFound index"
    using get_none [OF assms(1) None] by blast
  ultimately show ?thesis
    by (simp add: getDirNode_def full_node_Branch shallow_node_def visible_names_def sorted_list_of_fset.rep_eq del: full_node.simps)
next
  case (Some t)
  then have t: "t = Branch (dir_at (key_path key) (tree e))" using tree_get_no_leaf [OF assms(2)] by simp
  obtain index where "clGet client key r e = GotNode ((if r then full_node t else shallow_node t) (key_path key)) index"
    using get_node [OF assms(1) Some] by blast
  then show ?thesis by (simp add: getDirNode_def t full_node_Branch shallow_node_def del: full_node.simps)
qed

lemma liveSessions_ok:
  assumes "roots_ok (tree e)"
  shows "liveSessions client e = Inr (sessions_of (tree e))"
proof -
  let ?S = "dir_at [''weave-flux'', ''session''] (tree e)"
  have p: "plain_key SESSION_ROOT" by (simp add: plain_key_def key_path_roots)
  obtain n index where n: "getDirNode client SESSION_ROOT True False e = Inr (n, index)"
    and nodes: "nodeNodes n = nodeNodes (shallow_node (Branch ?S) (key_path SESSION_ROOT))"
    using getDirNode_missing_ok [OF p, of e False] assms by (auto simp: roots_ok_def key_path_roots simp del: dir_at.simps)
  have "dom (indexDir (Some n)) = sessions_of (tree e)"
    using assms unfolding indexDir_cong [OF nodes] by (auto simp: roots_ok_def indexDir_shallow sessions_of_def split: if_splits simp del: dir_at.simps)
  then show ?thesis by (simp add: liveSessions_def n)
qed

lemma GetService_ok:
  assumes "ordering_ok ord" and "roots_ok (tree e)" and "plain_name s"
    and "\<forall>t. fmlookup (services_of (tree e)) s = Some t \<longrightarrow> (\<exists>m. t = Branch m \<and> service_dir_ok cd names m)"
  shows "etcd_GetService ord cd names client s opts e =
    (case abs_services cd names (tree e) s of
       None \<Rightarrow> Inl NotFound
     | Some A \<Rightarrow> Inr (abs_info opts (sessions_of (tree e)) A))"
proof -
  let ?r = "WithInstances opts \<or> WithContainerRules opts \<or> WithIngressInstances opts"
  note k = key_path_serviceRootKey [OF assms(3)] and p = plain_keys(1) [OF assms(3)]
  have g: "tree_get (key_path (serviceRootKey s)) (tree e) = fmlookup (services_of (tree e)) s"
    using tree_get_snoc [of service_dir "tree e" s] assms(2) unfolding k services_of_def by (simp add: roots_ok_def)
  show ?thesis
  proof (cases "fmlookup (services_of (tree e)) s")
    case None
    obtain index where "clGet client (serviceRootKey s) ?r e = KeyNotFound index"
      using get_none [OF p, of e ?r] g None by auto
    then show ?thesis using None
      by (simp add: etcd_GetService_def liveSessions_ok [OF assms(2)] getDirNode_def abs_services_def)
  next
    case (Some t)
    then obtain m where m: "t = Branch m" "service_dir_ok cd names m" using assms(4) by blast
    obtain index where "clGet client (serviceRootKey s) ?r e
        = GotNode ((if ?r then full_node t else shallow_node t) (key_path (serviceRootKey s))) index"
      using get_node [OF p, of e t ?r] g Some by auto
    then show ?thesis using Some m
      serviceInfoFromNode_full [OF assms(1) m(2)] serviceInfoFromNode_shallow [OF m(2), of opts]
      by (cases ?r) (simp_all add: etcd_GetService_def liveSessions_ok [OF assms(2)] getDirNode_def abs_services_def
          full_node_Branch shallow_node_def del: full_node.simps)
  qed
qed

lemma GetAllServices_ok:
  assumes "ordering_ok ord" and "etcd_ok cd names (tree e)"
  shows "etcd_GetAllServices ord cd names client opts e =
    Inr (\<lambda>s. map_option (abs_info opts (sessions_of (tree e))) (abs_services cd names (tree e) s))"
proof -
  let ?S = "services_of (tree e)" and ?live = "sessions_of (tree e)"
  have roots: "roots_ok (tree e)" and kids: "\<And>s t. fmlookup ?S s = Some t \<Longrightarrow>
      plain_name s \<and> visible s \<and> (\<exists>m. t = Branch m \<and> service_dir_ok cd names m)"
    using assms(2) by (auto simp: etcd_ok_def)
  have plain: "names_plain ?S" using kids by (auto simp: names_plain_def plain_name_def name_ok_def)
  have p: "plain_key SERVICE_ROOT" by (simp add: plain_key_def key_path_roots)
  obtain n index where n: "getDirNode client SERVICE_ROOT True True e = Inr (n, index)"
    and nodes: "nodeNodes n = nodeNodes (full_node (Branch ?S) service_dir)"
    using getDirNode_missing_ok [OF p, of e True] roots
    by (auto simp: roots_ok_def key_path_roots services_of_def simp del: dir_at.simps full_node.simps)
  let ?h = "\<lambda>s (n :: etcd_node). map_option (\<lambda>A. (s, abs_info opts ?live A)) (abs_services cd names (tree e) s)"
  have D: "indexDir (Some n) s = map_option (\<lambda>t. full_node t (service_dir @ [s])) (fmlookup ?S s)" for s
    using kids [of s] unfolding indexDir_cong [OF nodes] by (cases "fmlookup ?S s") (auto simp: indexDir_full [OF plain] simp del: full_node.simps)
  have k: "\<exists>m. fmlookup ?S s = Some (Branch m) \<and> service_dir_ok cd names m \<and> n' = full_node (Branch m) (service_dir @ [s])"
    if "indexDir (Some n) s = Some n'" for s n'
    using that D [of s] kids [of s] by (auto simp del: full_node.simps)
  have "read_dir ord [''GetAllServices''] (\<lambda>name n. if \<not> nodeDir n then Inr None
        else (case serviceInfoFromNode ord cd names n opts ?live of
                Inl err \<Rightarrow> Inl err | Inr svc \<Rightarrow> Inr (Some (name, svc)))) (Some n)
      = Inr (\<lambda>s. map_option (abs_info opts ?live) (abs_services cd names (tree e) s))"
  proof (rule read_dir_ok [where h = ?h, OF assms(1)])
    have "dom (indexDir (Some n)) = fmdom' ?S" using D by (auto simp: fmlookup_dom'_iff dom_def)
    then show "finite (dom (indexDir (Some n)))" by simp
    show "\<forall>k m. indexDir (Some n) k = Some m \<longrightarrow> (if \<not> nodeDir m then Inr None
        else (case serviceInfoFromNode ord cd names m opts ?live of
                Inl err \<Rightarrow> Inl err | Inr svc \<Rightarrow> Inr (Some (k, svc)))) = Inr (?h k m)"
    proof (intro allI impI)
      fix s n' assume "indexDir (Some n) s = Some n'"
      then obtain m where m: "fmlookup ?S s = Some (Branch m)" "service_dir_ok cd names m"
        "n' = full_node (Branch m) (service_dir @ [s])" using k by blast
      have d: "nodeDir n'" by (simp add: m(3) full_node_Branch del: full_node.simps)
      have "serviceInfoFromNode ord cd names n' opts ?live = Inr (abs_info opts ?live (abs_of cd names m))"
        unfolding m(3) by (rule serviceInfoFromNode_full [OF assms(1) m(2)])
      then show "(if \<not> nodeDir n' then Inr None
        else (case serviceInfoFromNode ord cd names n' opts ?live of
                Inl err \<Rightarrow> Inl err | Inr svc \<Rightarrow> Inr (Some (s, svc)))) = Inr (?h s n')"
        using d m(1) by (simp add: abs_services_def)
    qed
  next
    show "\<forall>a b. map_option (abs_info opts ?live) (abs_services cd names (tree e) a) = Some b \<longrightarrow>
        (\<exists>k m. indexDir (Some n) k = Some m \<and> ?h k m = Some (a, b))"
    proof (intro allI impI)
      fix a b assume ab: "map_option (abs_info opts ?live) (abs_services cd names (tree e) a) = Some b"
      then have "fmlookup ?S a \<noteq> None" by (auto simp: abs_services_def split: option.splits)
      then obtain m where "indexDir (Some n) a = Some m" using D [of a] by auto
      then show "\<exists>k m. indexDir (Some n) k = Some m \<and> ?h k m = Some (a, b)" using ab by auto
    qed
  qed auto
  then show ?thesis by (simp add: etcd_GetAllServices_def liveSessions_ok [OF roots] n)
qed

end

end
