(* ===== verification/EtcdOps.thy ===== *)
theory EtcdOps
  imports EtcdCorrect
begin

text \<open>
  The operations of the etcd store as updates of its abstract services: a write makes the missing
  directories and changes one record, a removal takes one record or one service away, and neither
  touches anything else.
\<close>

section \<open>Writing and deleting at a path\<close>

fun modify_at :: "string list \<Rightarrow> (etcd_dir \<Rightarrow> etcd_dir) \<Rightarrow> etcd_dir \<Rightarrow> etcd_dir" where
  "modify_at [] f d = f d"
| "modify_at (c # p) f d = fmupd c (Branch (modify_at p f (subdir c d))) d"

definition no_branch :: "etcd_dir \<Rightarrow> string \<Rightarrow> bool" where
  "no_branch d c \<longleftrightarrow> (\<forall>b. fmlookup d c \<noteq> Some (Branch b))"

lemma tree_set_modify:
  "no_leaf p d \<Longrightarrow> no_branch (dir_at p d) c \<Longrightarrow> tree_set (p @ [c]) v d = Some (modify_at p (fmupd c (Leaf v)) d)"
proof (induction p arbitrary: d)
  case Nil
  then show ?case by (auto simp: no_branch_def split: option.splits etcd_tree.splits)
next
  case (Cons x p)
  show ?case
  proof (cases "fmlookup d x")
    case None
    moreover have "no_leaf p fmempty" by (induction p) auto
    ultimately show ?thesis using Cons.IH [of fmempty] Cons.prems(2) by (simp add: tree_set_Cons subdir_def)
  next
    case (Some t)
    then obtain b where b: "t = Branch b" using Cons.prems(1) by (cases t) auto
    show ?thesis using Cons.IH [of b] Cons.prems Some b by (simp add: tree_set_Cons subdir_def)
  qed
qed

lemma tree_delete_modify:
  "no_leaf p d \<Longrightarrow> fmlookup (dir_at p d) c \<noteq> None \<Longrightarrow> r \<or> no_branch (dir_at p d) c \<Longrightarrow>
     tree_delete r (p @ [c]) d = Some (modify_at p (fmdrop c) d)"
proof (induction p arbitrary: d)
  case Nil
  then show ?case by (auto simp: no_branch_def split: option.splits etcd_tree.splits)
next
  case (Cons x p)
  show ?case
  proof (cases "fmlookup d x")
    case None
    then show ?thesis using Cons.prems(2) by (simp add: subdir_def)
  next
    case (Some t)
    then obtain b where b: "t = Branch b" using Cons.prems(1) by (cases t) auto
    show ?thesis using Cons.IH [of b] Cons.prems Some b by (simp add: tree_delete_Cons subdir_def)
  qed
qed

lemma tree_delete_missing:
  "no_leaf p d \<Longrightarrow> fmlookup (dir_at p d) c = None \<Longrightarrow> tree_delete r (p @ [c]) d = None"
proof (induction p arbitrary: d)
  case Nil
  then show ?case by simp
next
  case (Cons x p)
  show ?case
  proof (cases "fmlookup d x")
    case None
    then show ?thesis by (simp add: tree_delete_Cons)
  next
    case (Some t)
    then obtain b where b: "t = Branch b" using Cons.prems(1) by (cases t) auto
    show ?thesis using Cons.IH [of b] Cons.prems Some b by (simp add: tree_delete_Cons subdir_def)
  qed
qed

lemma subdir_fmupd [simp]:
  "subdir c (fmupd x t d) = (if x = c then (case t of Branch b \<Rightarrow> b | Leaf _ \<Rightarrow> fmempty) else subdir c d)"
  by (simp add: subdir_def split: etcd_tree.splits)

lemma modify_at_append: "modify_at (p @ q) f d = modify_at p (modify_at q f) d"
  by (induction p arbitrary: d) auto

lemma dir_at_modify [simp]: "dir_at p (modify_at p f d) = f (dir_at p d)"
  by (induction p arbitrary: d) auto

lemma no_leaf_modify [simp]: "no_leaf p (modify_at p f d)"
  by (induction p arbitrary: d) auto

text \<open>The rest of the store: the sessions and the other services.\<close>

lemma roots_modify:
  assumes "roots_ok d"
  shows "roots_ok (modify_at service_dir f d)" and "sessions_of (modify_at service_dir f d) = sessions_of d"
    and "services_of (modify_at service_dir f d) = f (services_of d)"
  using assms by (auto simp: roots_ok_def sessions_of_def services_of_def subdir_def)

section \<open>Records of a service\<close>

definition leaf_map :: "etcd_dir \<Rightarrow> string \<rightharpoonup> string" where
  "leaf_map b = (\<lambda>c. case fmlookup b c of Some (Leaf v) \<Rightarrow> Some v | _ \<Rightarrow> None)"

definition dir_ok :: "(string \<Rightarrow> string \<Rightarrow> bool) \<Rightarrow> etcd_dir \<Rightarrow> bool" where
  "dir_ok P b \<longleftrightarrow> (\<forall>c t. fmlookup b c = Some t \<longrightarrow>
     visible c \<and> CHR ''/'' \<notin> set c \<and> (\<exists>v. t = Leaf v \<and> P c v))"

lemma leaves_leaf_map: "leaves m sub = leaf_map (subdir sub m)"
  by (auto simp: leaves_def leaf_map_def subdir_def fun_eq_iff split: option.splits etcd_tree.splits)

lemma leaf_map_simps [simp]:
  "leaf_map (fmupd c (Leaf v) b) = (leaf_map b)(c \<mapsto> v)"
  "leaf_map (fmdrop c b) = (leaf_map b)(c := None)" "leaf_map fmempty = Map.empty"
  by (auto simp: leaf_map_def fun_eq_iff)

lemma dir_ok_simps [simp]: "dir_ok P fmempty" "dir_ok P b \<Longrightarrow> dir_ok P (fmdrop c b)"
  by (auto simp: dir_ok_def split: if_splits)

lemma dir_ok_upd: "dir_ok P b \<Longrightarrow> visible c \<Longrightarrow> CHR ''/'' \<notin> set c \<Longrightarrow> P c v \<Longrightarrow> dir_ok P (fmupd c (Leaf v) b)"
  by (auto simp: dir_ok_def split: if_splits)

lemma dir_ok_lookup: "dir_ok P b \<Longrightarrow> fmlookup b c = map_option Leaf (leaf_map b c)"
  by (auto simp: dir_ok_def leaf_map_def split: option.splits etcd_tree.splits)

lemma records_ok_dir:
  "records_ok m sub P \<longleftrightarrow> (\<forall>v. fmlookup m sub \<noteq> Some (Leaf v)) \<and> dir_ok P (subdir sub m)"
  by (auto simp: records_ok_def dir_ok_def subdir_def split: option.splits etcd_tree.splits)

text \<open>A change of the records of one kind.\<close>

abbreviation change_sub :: "string \<Rightarrow> (etcd_dir \<Rightarrow> etcd_dir) \<Rightarrow> etcd_dir \<Rightarrow> etcd_dir" where
  "change_sub sub f m \<equiv> fmupd sub (Branch (f (subdir sub m))) m"

definition record_dir_ok :: "codec \<Rightarrow> (string \<Rightarrow> string \<Rightarrow> int option) \<Rightarrow> string \<Rightarrow> string \<Rightarrow> string \<Rightarrow> bool" where
  "record_dir_ok cd names sub c v \<longleftrightarrow>
     (sub = INSTANCE_PATH \<longrightarrow> decInstance cd v \<noteq> None) \<and>
     (sub = RULE_PATH \<longrightarrow> decRule cd v \<noteq> None) \<and>
     (sub = INGRESS_INSTANCE_PATH \<longrightarrow>
        decIngress cd v \<noteq> None \<and> (\<exists>a. c = ipport_String a \<and> ParseIPPort names c = Some a))"

abbreviation record_paths :: "string set" where
  "record_paths \<equiv> {INSTANCE_PATH, RULE_PATH, INGRESS_INSTANCE_PATH}"

lemma service_dir_ok_records:
  "service_dir_ok cd names m \<longleftrightarrow> names_plain m \<and>
     (\<exists>v. fmlookup m DETAIL_PATH = Some (Leaf v) \<and> decService cd v \<noteq> None) \<and>
     (\<forall>sub \<in> record_paths. records_ok m sub (record_dir_ok cd names sub))"
proof -
  have "record_dir_ok cd names INSTANCE_PATH = (\<lambda>c v. decInstance cd v \<noteq> None)"
    "record_dir_ok cd names RULE_PATH = (\<lambda>c v. decRule cd v \<noteq> None)"
    "record_dir_ok cd names INGRESS_INSTANCE_PATH = (\<lambda>c v. decIngress cd v \<noteq> None \<and>
       (\<exists>a. c = ipport_String a \<and> ParseIPPort names c = Some a))"
    by (simp_all add: record_dir_ok_def path_distinct [symmetric] fun_eq_iff)
  then show ?thesis by (simp add: service_dir_ok_def)
qed

lemma service_dir_ok_change:
  assumes "service_dir_ok cd names m" and "sub \<in> record_paths"
    and "dir_ok (record_dir_ok cd names sub) (subdir sub m) \<Longrightarrow> dir_ok (record_dir_ok cd names sub) (f (subdir sub m))"
  shows "service_dir_ok cd names (change_sub sub f m)"
proof -
  have "sub \<noteq> DETAIL_PATH" "CHR ''/'' \<notin> set sub" using assms(2) by (auto simp: path_distinct [symmetric])
  then show ?thesis using assms unfolding service_dir_ok_records records_ok_dir
    by (auto simp: names_plain_def)
qed

lemma abs_of_change:
  shows "abs_of cd names (change_sub INSTANCE_PATH f m) = (abs_of cd names m)
      \<lparr>asInstances := (\<lambda>i. Option.bind (leaf_map (f (subdir INSTANCE_PATH m)) i) (decInstance cd))\<rparr>"
    and "abs_of cd names (change_sub RULE_PATH f m) = (abs_of cd names m)
      \<lparr>asRules := (\<lambda>i. Option.bind (leaf_map (f (subdir RULE_PATH m)) i) (decRule cd))\<rparr>"
    and "abs_of cd names (change_sub INGRESS_INSTANCE_PATH f m) = (abs_of cd names m)
      \<lparr>asIngress := (\<lambda>a. if ParseIPPort names (ipport_String a) = Some a
         then Option.bind (leaf_map (f (subdir INGRESS_INSTANCE_PATH m)) (ipport_String a)) (decIngress cd) else None)\<rparr>"
  by (simp_all add: abs_of_def leaves_leaf_map path_distinct [symmetric] fun_eq_iff)

section \<open>Changes of the store\<close>

lemma etcd_change:
  assumes "etcd_ok cd names d" and "abs_services cd names d s = Some A"
  obtains m where "fmlookup (services_of d) s = Some (Branch m)" "service_dir_ok cd names m" "abs_of cd names m = A"
    "subdir s (services_of d) = m"
  using assms by (auto simp: etcd_ok_def abs_services_def subdir_def split: option.splits etcd_tree.splits)

lemma etcd_ok_service:
  assumes "etcd_ok cd names d" and "plain_name s" and "visible s"
    and "service_dir_ok cd names (f (subdir s (services_of d)))"
  defines "d' \<equiv> modify_at service_dir (modify_at [s] f) d"
  shows "etcd_ok cd names d'" and "sessions_of d' = sessions_of d"
    and "abs_services cd names d' = (abs_services cd names d)(s \<mapsto> abs_of cd names (f (subdir s (services_of d))))"
proof -
  have r: "roots_ok d" using assms(1) by (simp add: etcd_ok_def)
  have S: "services_of d' = fmupd s (Branch (f (subdir s (services_of d)))) (services_of d)"
    unfolding d'_def roots_modify(3) [OF r] by simp
  show "etcd_ok cd names d'" using assms(1-4) roots_modify(1) [OF r] unfolding etcd_ok_def S
    by (auto simp: d'_def)
  show "sessions_of d' = sessions_of d" unfolding d'_def by (rule roots_modify(2) [OF r])
  show "abs_services cd names d' = (abs_services cd names d)(s \<mapsto> abs_of cd names (f (subdir s (services_of d))))"
    unfolding abs_services_def S by (auto simp: fun_eq_iff)
qed

lemma modify_record:
  "modify_at (service_dir @ [s, sub]) f d = modify_at service_dir (modify_at [s] (change_sub sub f)) d"
  by (simp add: subdir_def)

lemma dir_at_record: "dir_at (service_dir @ [s, sub]) d = subdir sub (subdir s (services_of d))"
  by (simp add: services_of_def)

lemma path_clear:
  assumes "etcd_ok cd names d" and "abs_services cd names d s = Some A" and "sub \<in> record_paths"
  shows "no_leaf (service_dir @ [s, sub]) d"
    and "dir_ok (record_dir_ok cd names sub) (subdir sub (subdir s (services_of d)))"
proof -
  obtain m where m: "fmlookup (services_of d) s = Some (Branch m)" "service_dir_ok cd names m"
    "subdir s (services_of d) = m" using etcd_change [OF assms(1,2)] by blast
  have r: "records_ok m sub (record_dir_ok cd names sub)" using m(2) assms(3) unfolding service_dir_ok_records by blast
  have "no_leaf service_dir d" using assms(1) by (simp add: etcd_ok_def roots_ok_def)
  then show "no_leaf (service_dir @ [s, sub]) d"
    unfolding no_leaf_append services_of_def [symmetric] using m(1,3) r by (simp add: records_ok_dir)
  show "dir_ok (record_dir_ok cd names sub) (subdir sub (subdir s (services_of d)))"
    using r by (simp add: m(3) records_ok_dir)
qed

lemma abs_service_new:
  assumes "etcd_ok cd names d" and "abs_services cd names d s = None"
  shows "fmlookup (services_of d) s = None"
proof (cases "fmlookup (services_of d) s")
  case (Some t)
  then obtain m where "t = Branch m" using assms(1) by (auto simp: etcd_ok_def)
  then show ?thesis using assms(2) Some by (simp add: abs_services_def)
qed

lemma service_path_clear:
  assumes "etcd_ok cd names d"
  shows "no_leaf (service_dir @ [s]) d"
proof -
  have "\<forall>v. fmlookup (dir_at service_dir d) s \<noteq> Some (Leaf v)"
    using assms unfolding etcd_ok_def services_of_def by blast
  then show ?thesis using assms unfolding no_leaf_append by (simp add: etcd_ok_def roots_ok_def)
qed

context etcd_contract
begin

lemma set_record:
  assumes "etcd_ok cd names (tree e)" and "abs_services cd names (tree e) s = Some A" and "sub \<in> record_paths"
    and "plain_key key" and "key_path key = service_dir @ [s, sub, n]"
  shows "\<exists>e'. clSet client key v ttl e = (None, e') \<and>
    tree e' = modify_at service_dir (modify_at [s] (change_sub sub (fmupd n (Leaf v)))) (tree e)"
proof -
  note c = path_clear [OF assms(1-3)]
  have b: "no_branch (dir_at (service_dir @ [s, sub]) (tree e)) n"
    using c(2) unfolding dir_at_record by (auto simp: no_branch_def dir_ok_def)
  have "tree_set (key_path key) v (tree e)
      = Some (modify_at (service_dir @ [s, sub]) (fmupd n (Leaf v)) (tree e))"
    using tree_set_modify [OF c(1) b] by (simp add: assms(5))
  from set_ok [OF assms(4) this] show ?thesis unfolding modify_record .
qed

lemma delete_record:
  assumes "etcd_ok cd names (tree e)" and "abs_services cd names (tree e) s = Some A" and "sub \<in> record_paths"
    and "plain_key key" and "key_path key = service_dir @ [s, sub, n]"
  shows "if leaf_map (subdir sub (subdir s (services_of (tree e)))) n = None
    then \<exists>m e'. clDelete client key True e = (Some m, e') \<and> tree e' = tree e
    else \<exists>e'. clDelete client key True e = (None, e') \<and>
      tree e' = modify_at service_dir (modify_at [s] (change_sub sub (fmdrop n))) (tree e)"
proof -
  note c = path_clear [OF assms(1-3)]
  have l: "fmlookup (dir_at (service_dir @ [s, sub]) (tree e)) n
      = map_option Leaf (leaf_map (subdir sub (subdir s (services_of (tree e)))) n)"
    unfolding dir_at_record by (rule dir_ok_lookup [OF c(2)])
  show ?thesis
  proof (cases "leaf_map (subdir sub (subdir s (services_of (tree e)))) n = None")
    case True
    then have "tree_delete True (key_path key) (tree e) = None"
      using tree_delete_missing [OF c(1), of n True] l by (simp add: assms(5))
    from delete_fails [OF assms(4) this] True show ?thesis by simp
  next
    case False
    then have "tree_delete True (key_path key) (tree e)
        = Some (modify_at (service_dir @ [s, sub]) (fmdrop n) (tree e))"
      using tree_delete_modify [OF c(1), of n True] l by (simp add: assms(5) del: modify_at.simps)
    from delete_ok [OF assms(4) this] False show ?thesis
      unfolding modify_record by (auto simp del: modify_at.simps not_None_eq)
  qed
qed

lemma setJSON_ok:
  "enc = Some v \<Longrightarrow> clSet client key v None e = (None, e') \<Longrightarrow> setJSON client key enc e = (None, e')"
  by (simp add: setJSON_def)

end

section \<open>The operations\<close>

definition encodes :: "('a \<Rightarrow> string option) \<Rightarrow> (string \<Rightarrow> 'a option) \<Rightarrow> 'a \<Rightarrow> bool" where
  "encodes enc dec x \<longleftrightarrow> (\<exists>v. enc x = Some v \<and> dec v = Some x)"

text \<open>A name that etcd keeps as it is and lists.\<close>

definition listed_name :: "string \<Rightarrow> bool" where
  "listed_name s \<longleftrightarrow> plain_name s \<and> visible s"

definition address_ok :: "(string \<Rightarrow> string \<Rightarrow> int option) \<Rightarrow> ipport \<Rightarrow> bool" where
  "address_ok names a \<longleftrightarrow> listed_name (ipport_String a) \<and> ParseIPPort names (ipport_String a) = Some a"

text \<open>The outcome of a change: the abstract services afterwards, with the same sessions.\<close>

definition becomes ::
  "codec \<Rightarrow> (string \<Rightarrow> string \<Rightarrow> int option) \<Rightarrow> etcd_dir \<Rightarrow> (string \<rightharpoonup> abs_service) \<Rightarrow> etcd_dir \<Rightarrow> bool" where
  "becomes cd names d M d' \<longleftrightarrow>
     etcd_ok cd names d' \<and> sessions_of d' = sessions_of d \<and> abs_services cd names d' = M"

lemma listed_nameD: "listed_name s \<Longrightarrow> plain_name s" "listed_name s \<Longrightarrow> visible s"
  "listed_name s \<Longrightarrow> name_ok s" "listed_name s \<Longrightarrow> CHR ''/'' \<notin> set s"
  by (simp_all add: listed_name_def plain_name_def name_ok_def)

lemma record_key_path:
  assumes "listed_name s" and "listed_name n"
  shows "key_path (ruleKey s n) = service_dir @ [s, RULE_PATH, n]"
    and "key_path (instanceKey s n) = service_dir @ [s, INSTANCE_PATH, n]"
    and "plain_key (ruleKey s n)" and "plain_key (instanceKey s n)"
  using listed_nameD(1,3) [OF assms(2)] key_path_keys(3,4) [OF listed_nameD(3) [OF assms(1)]]
    plain_keys(3,4) [OF listed_nameD(1) [OF assms(1)]] by simp_all

lemma address_key_path:
  assumes "listed_name s" and "address_ok names a"
  shows "key_path (ingressInstanceKey s a) = service_dir @ [s, INGRESS_INSTANCE_PATH, ipport_String a]"
    and "plain_key (ingressInstanceKey s a)"
  using assms(2) key_path_keys(5) [OF listed_nameD(3) [OF assms(1)]] plain_keys(5) [OF listed_nameD(1) [OF assms(1)]]
  by (simp_all add: address_ok_def listed_nameD)

lemma record_changed:
  assumes "etcd_ok cd names d" and "abs_services cd names d s = Some A" and "listed_name s" and "sub \<in> record_paths"
    and "\<forall>b. dir_ok (record_dir_ok cd names sub) b \<longrightarrow> dir_ok (record_dir_ok cd names sub) (f b)"
  obtains m where "subdir s (services_of d) = m" "abs_of cd names m = A"
    "becomes cd names d ((abs_services cd names d)(s \<mapsto> abs_of cd names (change_sub sub f m)))
       (modify_at service_dir (modify_at [s] (change_sub sub f)) d)"
proof -
  obtain m where m: "service_dir_ok cd names m" "abs_of cd names m = A" "subdir s (services_of d) = m"
    using etcd_change [OF assms(1,2)] by blast
  have "service_dir_ok cd names (change_sub sub f m)"
    by (rule service_dir_ok_change [OF m(1) assms(4)]) (use assms(5) in blast)
  then have "becomes cd names d ((abs_services cd names d)(s \<mapsto> abs_of cd names (change_sub sub f m)))
       (modify_at service_dir (modify_at [s] (change_sub sub f)) d)"
    using etcd_ok_service [of cd names d s "change_sub sub f"] assms(1,3) m(3)
    by (auto simp: becomes_def dest: listed_nameD simp del: modify_at.simps)
  then show ?thesis using that m by blast
qed

lemma abs_of_sel:
  "asInstances (abs_of cd names m) = (\<lambda>i. Option.bind (leaf_map (subdir INSTANCE_PATH m) i) (decInstance cd))"
  "asRules (abs_of cd names m) = (\<lambda>i. Option.bind (leaf_map (subdir RULE_PATH m) i) (decRule cd))"
  "asIngress (abs_of cd names m) = (\<lambda>a. if ParseIPPort names (ipport_String a) = Some a
     then Option.bind (leaf_map (subdir INGRESS_INSTANCE_PATH m) (ipport_String a)) (decIngress cd) else None)"
  unfolding abs_of_def leaves_leaf_map by simp_all

lemma bind_upd: "dec v = Some x \<Longrightarrow> (\<lambda>i. Option.bind ((M(n \<mapsto> v)) i) dec) = (\<lambda>i. Option.bind (M i) dec)(n \<mapsto> x)"
  "(\<lambda>i. Option.bind ((M(n := None)) i) dec) = (\<lambda>i. Option.bind (M i) dec)(n := None)"
  by (auto simp: fun_eq_iff)

lemma bind_upd_address:
  assumes "P (str a) = Some a"
  shows "dec v = Some y \<Longrightarrow> (\<lambda>b. if P (str b) = Some b then Option.bind ((M(str a \<mapsto> v)) (str b)) dec else None)
      = (\<lambda>b. if P (str b) = Some b then Option.bind (M (str b)) dec else None)(a \<mapsto> y)"
    and "(\<lambda>b. if P (str b) = Some b then Option.bind ((M(str a := None)) (str b)) dec else None)
      = (\<lambda>b. if P (str b) = Some b then Option.bind (M (str b)) dec else None)(a := None)"
proof -
  have s: "str b \<noteq> str a" if "P (str b) = Some b" "b \<noteq> a" for b using assms that by auto
  show "(\<lambda>b. if P (str b) = Some b then Option.bind ((M(str a \<mapsto> v)) (str b)) dec else None)
      = (\<lambda>b. if P (str b) = Some b then Option.bind (M (str b)) dec else None)(a \<mapsto> y)" (is "?l = ?r") if "dec v = Some y"
  proof (rule ext)
    fix b show "?l b = ?r b" using s [of b] assms that by (cases "b = a"; cases "P (str b) = Some b") simp_all
  qed
  show "(\<lambda>b. if P (str b) = Some b then Option.bind ((M(str a := None)) (str b)) dec else None)
      = (\<lambda>b. if P (str b) = Some b then Option.bind (M (str b)) dec else None)(a := None)" (is "?l = ?r")
  proof (rule ext)
    fix b show "?l b = ?r b" using s [of b] assms by (cases "b = a"; cases "P (str b) = Some b") simp_all
  qed
qed

text \<open>What writing or deleting a record makes of the abstract service.\<close>

lemma abs_of_put:
  shows "decInstance cd v = Some x \<Longrightarrow> abs_of cd names (change_sub INSTANCE_PATH (fmupd n (Leaf v)) m)
      = (abs_of cd names m)\<lparr>asInstances := (asInstances (abs_of cd names m))(n \<mapsto> x)\<rparr>"
    and "decRule cd v = Some r \<Longrightarrow> abs_of cd names (change_sub RULE_PATH (fmupd n (Leaf v)) m)
      = (abs_of cd names m)\<lparr>asRules := (asRules (abs_of cd names m))(n \<mapsto> r)\<rparr>"
    and "decIngress cd v = Some y \<Longrightarrow> ParseIPPort names (ipport_String a) = Some a \<Longrightarrow>
      abs_of cd names (change_sub INGRESS_INSTANCE_PATH (fmupd (ipport_String a) (Leaf v)) m)
      = (abs_of cd names m)\<lparr>asIngress := (asIngress (abs_of cd names m))(a \<mapsto> y)\<rparr>"
  unfolding abs_of_change abs_of_sel leaf_map_simps
  by (simp_all only: bind_upd bind_upd_address)

lemma abs_of_drop:
  shows "abs_of cd names (change_sub INSTANCE_PATH (fmdrop n) m)
      = (abs_of cd names m)\<lparr>asInstances := (asInstances (abs_of cd names m))(n := None)\<rparr>"
    and "abs_of cd names (change_sub RULE_PATH (fmdrop n) m)
      = (abs_of cd names m)\<lparr>asRules := (asRules (abs_of cd names m))(n := None)\<rparr>"
    and "ParseIPPort names (ipport_String a) = Some a \<Longrightarrow>
      abs_of cd names (change_sub INGRESS_INSTANCE_PATH (fmdrop (ipport_String a)) m)
      = (abs_of cd names m)\<lparr>asIngress := (asIngress (abs_of cd names m))(a := None)\<rparr>"
  unfolding abs_of_change abs_of_sel leaf_map_simps
  by (simp_all only: bind_upd bind_upd_address)

definition new_service :: "service \<Rightarrow> abs_service" where
  "new_service details = \<lparr>asService = details, asInstances = Map.empty, asRules = Map.empty, asIngress = Map.empty\<rparr>"

abbreviation session_dir :: "string list" where
  "session_dir \<equiv> [''weave-flux'', ''session'']"

lemma service_details_changed:
  assumes "etcd_ok cd names d" and "listed_name s" and "decService cd v = Some details"
  shows "becomes cd names d ((abs_services cd names d)(s \<mapsto>
      (case abs_services cd names d s of None \<Rightarrow> new_service details | Some A \<Rightarrow> A\<lparr>asService := details\<rparr>)))
    (modify_at service_dir (modify_at [s] (fmupd DETAIL_PATH (Leaf v))) d)"
    and "no_branch (subdir s (services_of d)) DETAIL_PATH"
proof -
  let ?m = "subdir s (services_of d)" and ?f = "fmupd DETAIL_PATH (Leaf v)"
  have "service_dir_ok cd names (?f ?m) \<and> no_branch ?m DETAIL_PATH \<and> abs_of cd names (?f ?m) =
      (case abs_services cd names d s of None \<Rightarrow> new_service details | Some A \<Rightarrow> A\<lparr>asService := details\<rparr>)"
  proof (cases "abs_services cd names d s")
    case None
    then have "?m = fmempty" using abs_service_new [OF assms(1)] by (simp add: subdir_def)
    then show ?thesis using assms(3) None
      by (simp add: service_dir_ok_records records_ok_dir names_plain_def no_branch_def new_service_def
          abs_of_def leaves_leaf_map path_distinct [symmetric] cong: if_cong)
  next
    case (Some A)
    then obtain m where m: "service_dir_ok cd names m" "abs_of cd names m = A" "?m = m"
      using etcd_change [OF assms(1)] by metis
    have "service_dir_ok cd names (?f m)" "no_branch m DETAIL_PATH" using m(1) assms(3)
      by (auto simp: service_dir_ok_records records_ok_dir names_plain_def no_branch_def path_distinct [symmetric])
    moreover have "abs_of cd names (?f m) = A\<lparr>asService := details\<rparr>"
      using assms(3) by (simp add: abs_of_def leaves_leaf_map m(2) [symmetric] path_distinct [symmetric] cong: if_cong)
    ultimately show ?thesis using Some m(3) by simp
  qed
  then show "becomes cd names d ((abs_services cd names d)(s \<mapsto>
      (case abs_services cd names d s of None \<Rightarrow> new_service details | Some A \<Rightarrow> A\<lparr>asService := details\<rparr>)))
    (modify_at service_dir (modify_at [s] ?f) d)" and "no_branch ?m DETAIL_PATH"
    using etcd_ok_service [of cd names d s ?f] assms(1,2)
    by (auto simp: becomes_def dest: listed_nameD simp del: modify_at.simps split: option.splits)
qed

lemma service_removed:
  assumes "etcd_ok cd names d"
  shows "becomes cd names d ((abs_services cd names d)(s := None)) (modify_at service_dir (fmdrop s) d)"
proof -
  have r: "roots_ok d" using assms by (simp add: etcd_ok_def)
  show ?thesis using assms unfolding becomes_def etcd_ok_def abs_services_def roots_modify [OF r]
    by (auto simp: roots_modify [OF r] fun_eq_iff simp del: modify_at.simps split: if_splits)
qed

text \<open>A change of the sessions leaves the services alone.\<close>

lemma sessions_changed:
  assumes "etcd_ok cd names d"
    and "\<forall>c t. fmlookup (f (dir_at session_dir d)) c = Some t \<longrightarrow>
      (\<exists>v. t = Leaf v) \<and> (fmlookup (dir_at session_dir d) c = None \<longrightarrow> CHR ''/'' \<notin> set c)"
  shows "etcd_ok cd names (modify_at session_dir f d)"
    and "abs_services cd names (modify_at session_dir f d) = abs_services cd names d"
    and "sessions_of (modify_at session_dir f d) = {c. visible c \<and> fmlookup (f (dir_at session_dir d)) c \<noteq> None}"
proof -
  have s: "dir_at session_dir (modify_at session_dir f d) = f (dir_at session_dir d)" by (rule dir_at_modify)
  have S: "services_of (modify_at session_dir f d) = services_of d" by (simp add: services_of_def subdir_def)
  have "no_leaf session_dir (modify_at session_dir f d)" by (rule no_leaf_modify)
  moreover have "no_leaf service_dir (modify_at session_dir f d)"
    using assms(1) by (simp add: etcd_ok_def roots_ok_def subdir_def)
  moreover have "names_plain (f (dir_at session_dir d))"
    using assms unfolding names_plain_def etcd_ok_def roots_ok_def by (metis not_None_eq)
  moreover have "\<forall>c b. fmlookup (f (dir_at session_dir d)) c \<noteq> Some (Branch b)" using assms(2) by blast
  ultimately have "roots_ok (modify_at session_dir f d)" unfolding roots_ok_def s by blast
  then show "etcd_ok cd names (modify_at session_dir f d)" using assms(1) unfolding etcd_ok_def S by blast
  show "abs_services cd names (modify_at session_dir f d) = abs_services cd names d" unfolding abs_services_def S ..
  show "sessions_of (modify_at session_dir f d) = {c. visible c \<and> fmlookup (f (dir_at session_dir d)) c \<noteq> None}"
    unfolding sessions_of_def s ..
qed

context etcd_contract
begin

lemma put_record_ok:
  assumes "etcd_ok cd names (tree e)" and "abs_services cd names (tree e) s = Some A" and "listed_name s"
    and "sub \<in> record_paths" and "plain_key key" and "key_path key = service_dir @ [s, sub, n]"
    and "visible n" and "CHR ''/'' \<notin> set n" and "enc = Some v" and "record_dir_ok cd names sub n v"
    and "\<And>m. abs_of cd names m = A \<Longrightarrow> abs_of cd names (change_sub sub (fmupd n (Leaf v)) m) = A'"
  shows "\<exists>e'. setJSON client key enc e = (None, e') \<and>
    becomes cd names (tree e) ((abs_services cd names (tree e))(s \<mapsto> A')) (tree e')"
proof -
  obtain e' where e': "clSet client key v None e = (None, e')"
    "tree e' = modify_at service_dir (modify_at [s] (change_sub sub (fmupd n (Leaf v)))) (tree e)"
    using set_record [OF assms(1,2,4,5,6)] by blast
  have keeps: "\<forall>b. dir_ok (record_dir_ok cd names sub) b \<longrightarrow> dir_ok (record_dir_ok cd names sub) (fmupd n (Leaf v) b)"
    using dir_ok_upd assms(7,8,10) by blast
  obtain m where m: "abs_of cd names m = A"
    "becomes cd names (tree e) ((abs_services cd names (tree e))(s \<mapsto> abs_of cd names (change_sub sub (fmupd n (Leaf v)) m))) (tree e')"
    using record_changed [OF assms(1-4) keeps] unfolding e'(2) by blast
  then show ?thesis using setJSON_ok [OF assms(9) e'(1)] assms(11) [OF m(1)] by auto
qed

lemma drop_record_ok:
  assumes "etcd_ok cd names (tree e)" and "abs_services cd names (tree e) s = Some A" and "listed_name s"
    and "sub \<in> record_paths" and "plain_key key" and "key_path key = service_dir @ [s, sub, n]"
    and "\<And>m. abs_of cd names m = A \<Longrightarrow> abs_of cd names (change_sub sub (fmdrop n) m) = A'"
    and "\<And>m. abs_of cd names m = A \<Longrightarrow> service_dir_ok cd names m \<Longrightarrow> leaf_map (subdir sub m) n = None \<longleftrightarrow> absent"
  shows "if absent then \<exists>m e'. deleteRecursive client key e = (Some m, e') \<and> tree e' = tree e
    else \<exists>e'. deleteRecursive client key e = (None, e') \<and>
      becomes cd names (tree e) ((abs_services cd names (tree e))(s \<mapsto> A')) (tree e')"
proof -
  obtain m where m: "service_dir_ok cd names m" "abs_of cd names m = A" "subdir s (services_of (tree e)) = m"
    using etcd_change [OF assms(1,2)] by metis
  note d = delete_record [OF assms(1,2,4,5,6)]
  have ab: "leaf_map (subdir sub (subdir s (services_of (tree e)))) n = None \<longleftrightarrow> absent"
    using assms(8) [OF m(2,1)] by (simp add: m(3))
  show ?thesis
  proof (cases absent)
    case True
    then show ?thesis using d ab by (auto simp: deleteRecursive_def)
  next
    case False
    then obtain e' where e': "clDelete client key True e = (None, e')"
      "tree e' = modify_at service_dir (modify_at [s] (change_sub sub (fmdrop n))) (tree e)"
      using d ab by (auto simp del: modify_at.simps)
    have keeps: "\<forall>b. dir_ok (record_dir_ok cd names sub) b \<longrightarrow> dir_ok (record_dir_ok cd names sub) (fmdrop n b)"
      by simp
    obtain m' where m': "abs_of cd names m' = A"
      "becomes cd names (tree e) ((abs_services cd names (tree e))(s \<mapsto> abs_of cd names (change_sub sub (fmdrop n) m'))) (tree e')"
      using record_changed [OF assms(1-4) keeps] unfolding e'(2) by blast
    have "becomes cd names (tree e) ((abs_services cd names (tree e))(s \<mapsto> A')) (tree e')"
      using m'(2) unfolding assms(7) [OF m'(1)] .
    then show ?thesis using False e'(1) by (simp add: deleteRecursive_def)
  qed
qed

lemma AddService_ok:
  assumes "etcd_ok cd names (tree e)" and "listed_name s" and "encodes (encService cd) (decService cd) details"
  shows "\<exists>e'. etcd_AddService cd client s details e = (None, e') \<and>
    becomes cd names (tree e) ((abs_services cd names (tree e))(s \<mapsto>
      (case abs_services cd names (tree e) s of None \<Rightarrow> new_service details | Some A \<Rightarrow> A\<lparr>asService := details\<rparr>)))
      (tree e')"
proof -
  obtain v where v: "encService cd details = Some v" "decService cd v = Some details"
    using assms(3) by (auto simp: encodes_def)
  note ch = service_details_changed [OF assms(1,2) v(2)]
  have kp: "key_path (serviceKey s) = (service_dir @ [s]) @ [DETAIL_PATH]" and pk: "plain_key (serviceKey s)"
    using key_path_keys(2) [OF listed_nameD(3) [OF assms(2)]] plain_keys(2) [OF listed_nameD(1) [OF assms(2)]] by simp_all
  have "no_branch (dir_at (service_dir @ [s]) (tree e)) DETAIL_PATH"
    using ch(2) by (simp add: services_of_def)
  then have "tree_set (key_path (serviceKey s)) v (tree e)
      = Some (modify_at (service_dir @ [s]) (fmupd DETAIL_PATH (Leaf v)) (tree e))"
    unfolding kp by (rule tree_set_modify [OF service_path_clear [OF assms(1)]])
  from set_ok [OF pk this] obtain e' where "clSet client (serviceKey s) v None e = (None, e')"
    "tree e' = modify_at service_dir (modify_at [s] (fmupd DETAIL_PATH (Leaf v))) (tree e)"
    unfolding modify_at_append by blast
  then show ?thesis using ch(1) setJSON_ok [OF v(1)] by (auto simp: etcd_AddService_def simp del: modify_at.simps)
qed

lemma RemoveService_ok:
  assumes "etcd_ok cd names (tree e)" and "listed_name s"
  shows "if abs_services cd names (tree e) s = None
    then \<exists>m e'. etcd_RemoveService client s e = (Some m, e') \<and> tree e' = tree e
    else \<exists>e'. etcd_RemoveService client s e = (None, e') \<and>
      becomes cd names (tree e) ((abs_services cd names (tree e))(s := None)) (tree e')"
proof -
  have kp: "key_path (serviceRootKey s) = service_dir @ [s]" and pk: "plain_key (serviceRootKey s)"
    using key_path_keys(1) [OF listed_nameD(3) [OF assms(2)]] plain_keys(1) [OF listed_nameD(1) [OF assms(2)]] by simp_all
  have nl: "no_leaf service_dir (tree e)" using assms(1) by (simp add: etcd_ok_def roots_ok_def)
  show ?thesis
  proof (cases "abs_services cd names (tree e) s")
    case None
    then have "tree_delete True (key_path (serviceRootKey s)) (tree e) = None"
      using tree_delete_missing [OF nl] abs_service_new [OF assms(1)] unfolding kp services_of_def by blast
    from delete_fails [OF pk this] show ?thesis using None by (auto simp: etcd_RemoveService_def deleteRecursive_def)
  next
    case (Some A)
    then have "fmlookup (dir_at service_dir (tree e)) s \<noteq> None"
      using etcd_change [OF assms(1) Some] unfolding services_of_def by (metis option.distinct(1))
    then have "tree_delete True (key_path (serviceRootKey s)) (tree e) = Some (modify_at service_dir (fmdrop s) (tree e))"
      using tree_delete_modify [OF nl] unfolding kp by blast
    from delete_ok [OF pk this] obtain e' where "clDelete client (serviceRootKey s) True e = (None, e')"
      "tree e' = modify_at service_dir (fmdrop s) (tree e)" by blast
    then show ?thesis using Some service_removed [OF assms(1)]
      by (auto simp: etcd_RemoveService_def deleteRecursive_def simp del: modify_at.simps)
  qed
qed

lemma AddInstance_ok:
  assumes "etcd_ok cd names (tree e)" and "abs_services cd names (tree e) s = Some A"
    and "listed_name s" and "listed_name n" and "encodes (encInstance cd) (decInstance cd) (i, session)"
  shows "\<exists>e'. etcd_AddInstance cd client (Some session) s n i e = Some (None, e') \<and>
    becomes cd names (tree e)
      ((abs_services cd names (tree e))(s \<mapsto> A\<lparr>asInstances := (asInstances A)(n \<mapsto> (i, session))\<rparr>)) (tree e')"
proof -
  obtain v where v: "encInstance cd (i, session) = Some v" "decInstance cd v = Some (i, session)"
    using assms(5) by (auto simp: encodes_def)
  have "record_dir_ok cd names INSTANCE_PATH n v" using v(2) by (simp add: record_dir_ok_def path_distinct [symmetric])
  from put_record_ok [OF assms(1-3) _ record_key_path(4,2) [OF assms(3,4)] listed_nameD(2,4) [OF assms(4)] v(1) this]
  show ?thesis using abs_of_put(1) [OF v(2)] by (simp add: etcd_AddInstance_def with_session_def)
qed

lemma SetContainerRule_ok:
  assumes "etcd_ok cd names (tree e)" and "abs_services cd names (tree e) s = Some A"
    and "listed_name s" and "listed_name n" and "encodes (encRule cd) (decRule cd) r"
  shows "\<exists>e'. etcd_SetContainerRule cd client s n r e = (None, e') \<and>
    becomes cd names (tree e)
      ((abs_services cd names (tree e))(s \<mapsto> A\<lparr>asRules := (asRules A)(n \<mapsto> r)\<rparr>)) (tree e')"
proof -
  obtain v where v: "encRule cd r = Some v" "decRule cd v = Some r"
    using assms(5) by (auto simp: encodes_def)
  have "record_dir_ok cd names RULE_PATH n v" using v(2) by (simp add: record_dir_ok_def path_distinct [symmetric])
  from put_record_ok [OF assms(1-3) _ record_key_path(3,1) [OF assms(3,4)] listed_nameD(2,4) [OF assms(4)] v(1) this]
  show ?thesis using abs_of_put(2) [OF v(2)] by (simp add: etcd_SetContainerRule_def)
qed

lemma AddIngressInstance_ok:
  assumes "etcd_ok cd names (tree e)" and "abs_services cd names (tree e) s = Some A"
    and "listed_name s" and "address_ok names a" and "encodes (encIngress cd) (decIngress cd) (i, session)"
  shows "\<exists>e'. etcd_AddIngressInstance cd client (Some session) s a i e = Some (None, e') \<and>
    becomes cd names (tree e)
      ((abs_services cd names (tree e))(s \<mapsto> A\<lparr>asIngress := (asIngress A)(a \<mapsto> (i, session))\<rparr>)) (tree e')"
proof -
  obtain v where v: "encIngress cd (i, session) = Some v" "decIngress cd v = Some (i, session)"
    using assms(5) by (auto simp: encodes_def)
  have a: "listed_name (ipport_String a)" "ParseIPPort names (ipport_String a) = Some a"
    using assms(4) by (simp_all add: address_ok_def)
  have "record_dir_ok cd names INGRESS_INSTANCE_PATH (ipport_String a) v" using v(2) a(2)
    by (auto simp: record_dir_ok_def)
  from put_record_ok [OF assms(1-3) _ address_key_path(2,1) [OF assms(3,4)] listed_nameD(2,4) [OF a(1)] v(1) this]
  show ?thesis using abs_of_put(3) [OF v(2) a(2)] by (simp add: etcd_AddIngressInstance_def with_session_def)
qed

lemma record_present:
  assumes "service_dir_ok cd names m"
  shows "leaf_map (subdir INSTANCE_PATH m) n = None \<longleftrightarrow> asInstances (abs_of cd names m) n = None"
    and "leaf_map (subdir RULE_PATH m) n = None \<longleftrightarrow> asRules (abs_of cd names m) n = None"
    and "ParseIPPort names (ipport_String a) = Some a \<Longrightarrow>
      leaf_map (subdir INGRESS_INSTANCE_PATH m) (ipport_String a) = None \<longleftrightarrow> asIngress (abs_of cd names m) a = None"
proof -
  have r: "sub \<in> record_paths \<Longrightarrow> leaf_map (subdir sub m) c = Some v \<Longrightarrow> record_dir_ok cd names sub c v" for sub c v
    using assms unfolding service_dir_ok_records records_ok_dir dir_ok_def leaf_map_def
    by (fastforce split: option.splits etcd_tree.splits)
  show "leaf_map (subdir INSTANCE_PATH m) n = None \<longleftrightarrow> asInstances (abs_of cd names m) n = None"
    using r [of INSTANCE_PATH n] by (cases "leaf_map (subdir INSTANCE_PATH m) n") (auto simp: abs_of_sel record_dir_ok_def)
  show "leaf_map (subdir RULE_PATH m) n = None \<longleftrightarrow> asRules (abs_of cd names m) n = None"
    using r [of RULE_PATH n] by (cases "leaf_map (subdir RULE_PATH m) n") (auto simp: abs_of_sel record_dir_ok_def)
  show "leaf_map (subdir INGRESS_INSTANCE_PATH m) (ipport_String a) = None \<longleftrightarrow> asIngress (abs_of cd names m) a = None"
    if "ParseIPPort names (ipport_String a) = Some a"
    using r [of INGRESS_INSTANCE_PATH "ipport_String a"] that
    by (cases "leaf_map (subdir INGRESS_INSTANCE_PATH m) (ipport_String a)") (auto simp: abs_of_sel record_dir_ok_def)
qed

lemma RemoveInstance_ok:
  assumes "etcd_ok cd names (tree e)" and "abs_services cd names (tree e) s = Some A"
    and "listed_name s" and "listed_name n"
  shows "if asInstances A n = None
    then \<exists>m e'. etcd_RemoveInstance client s n e = (Some m, e') \<and> tree e' = tree e
    else \<exists>e'. etcd_RemoveInstance client s n e = (None, e') \<and> becomes cd names (tree e)
      ((abs_services cd names (tree e))(s \<mapsto> A\<lparr>asInstances := (asInstances A)(n := None)\<rparr>)) (tree e')"
  unfolding etcd_RemoveInstance_def
  by (rule drop_record_ok [OF assms(1-3) _ record_key_path(4,2) [OF assms(3,4)]])
    (auto simp: abs_of_drop record_present)

lemma RemoveContainerRule_ok:
  assumes "etcd_ok cd names (tree e)" and "abs_services cd names (tree e) s = Some A"
    and "listed_name s" and "listed_name n"
  shows "if asRules A n = None
    then \<exists>m e'. etcd_RemoveContainerRule client s n e = (Some m, e') \<and> tree e' = tree e
    else \<exists>e'. etcd_RemoveContainerRule client s n e = (None, e') \<and> becomes cd names (tree e)
      ((abs_services cd names (tree e))(s \<mapsto> A\<lparr>asRules := (asRules A)(n := None)\<rparr>)) (tree e')"
  unfolding etcd_RemoveContainerRule_def
  by (rule drop_record_ok [OF assms(1-3) _ record_key_path(3,1) [OF assms(3,4)]])
    (auto simp: abs_of_drop record_present)

lemma RemoveIngressInstance_ok:
  assumes "etcd_ok cd names (tree e)" and "abs_services cd names (tree e) s = Some A"
    and "listed_name s" and "address_ok names a"
  shows "if asIngress A a = None
    then \<exists>m e'. etcd_RemoveIngressInstance client s a e = (Some m, e') \<and> tree e' = tree e
    else \<exists>e'. etcd_RemoveIngressInstance client s a e = (None, e') \<and> becomes cd names (tree e)
      ((abs_services cd names (tree e))(s \<mapsto> A\<lparr>asIngress := (asIngress A)(a := None)\<rparr>)) (tree e')"
  unfolding etcd_RemoveIngressInstance_def
  by (rule drop_record_ok [OF assms(1-3) _ address_key_path(2,1) [OF assms(3,4)]])
    (use assms(4) in \<open>auto simp: abs_of_drop record_present address_ok_def\<close>)

section \<open>Sessions\<close>

lemma session_key_path:
  assumes "listed_name i"
  shows "key_path (sessionKey i) = session_dir @ [i]" and "plain_key (sessionKey i)"
  using listed_nameD [OF assms] assms
  by (auto simp: sessionKey_def SESSION_ROOT_alt key_path_append key_path_roots key_path_name plain_key_def
      plain_name_def simp del: append.simps)

lemma Heartbeat_ok:
  assumes "etcd_ok cd names (tree e)" and "listed_name fresh" and "\<forall>i. session = Some i \<longrightarrow> listed_name i"
  defines "i \<equiv> (case session of None \<Rightarrow> fresh | Some i \<Rightarrow> i)"
  shows "\<exists>e'. etcd_Heartbeat client fresh ttl (session, e) = (None, Some i, e') \<and> etcd_ok cd names (tree e') \<and>
    sessions_of (tree e') = insert i (sessions_of (tree e)) \<and>
    abs_services cd names (tree e') = abs_services cd names (tree e)"
proof -
  have i: "listed_name i" using assms(2,3) by (simp add: i_def split: option.split)
  note k = session_key_path [OF i]
  have r: "roots_ok (tree e)" using assms(1) by (simp add: etcd_ok_def)
  then have "no_leaf session_dir (tree e)" "no_branch (dir_at session_dir (tree e)) i"
    unfolding roots_ok_def no_branch_def by blast+
  from tree_set_modify [OF this] set_ok [OF k(2), of i e] obtain e'
    where e': "clSet client (sessionKey i) i (Some ttl) e = (None, e')"
      "tree e' = modify_at session_dir (fmupd i (Leaf i)) (tree e)" unfolding k(1) by blast
  note ch = sessions_changed [OF assms(1), of "fmupd i (Leaf i)", folded e'(2)]
  have c: "\<forall>c t. fmlookup (fmupd i (Leaf i) (dir_at session_dir (tree e))) c = Some t \<longrightarrow>
      (\<exists>v. t = Leaf v) \<and> (fmlookup (dir_at session_dir (tree e)) c = None \<longrightarrow> CHR ''/'' \<notin> set c)"
    using r listed_nameD(4) [OF i] unfolding roots_ok_def
    by (metis etcd_tree.exhaust fmupd_lookup option.distinct(1) option.inject)
  have "sessions_of (tree e') = insert i (sessions_of (tree e))"
    using ch(3) [OF c] listed_nameD(2) [OF i] by (auto simp: sessions_of_def simp del: dir_at.simps)
  then show ?thesis using ch(1,2) [OF c] e'(1) by (simp add: etcd_Heartbeat_def i_def [symmetric])
qed

lemma EndSession_ok:
  assumes "etcd_ok cd names (tree e)" and "listed_name i" and "i \<in> sessions_of (tree e)"
  shows "\<exists>e'. etcd_EndSession client (Some i) e = (None, e') \<and> etcd_ok cd names (tree e') \<and>
    sessions_of (tree e') = sessions_of (tree e) - {i} \<and>
    abs_services cd names (tree e') = abs_services cd names (tree e)"
proof -
  note k = session_key_path [OF assms(2)]
  have r: "roots_ok (tree e)" using assms(1) by (simp add: etcd_ok_def)
  then have "no_leaf session_dir (tree e)" "fmlookup (dir_at session_dir (tree e)) i \<noteq> None"
    "False \<or> no_branch (dir_at session_dir (tree e)) i"
    using assms(3) unfolding roots_ok_def no_branch_def sessions_of_def by blast+
  from tree_delete_modify [OF this] delete_ok [OF k(2), of False e] obtain e'
    where e': "clDelete client (sessionKey i) False e = (None, e')"
      "tree e' = modify_at session_dir (fmdrop i) (tree e)" unfolding k(1) by blast
  note ch = sessions_changed [OF assms(1), of "fmdrop i", folded e'(2)]
  have c: "\<forall>c t. fmlookup (fmdrop i (dir_at session_dir (tree e))) c = Some t \<longrightarrow>
      (\<exists>v. t = Leaf v) \<and> (fmlookup (dir_at session_dir (tree e)) c = None \<longrightarrow> CHR ''/'' \<notin> set c)"
    using r unfolding roots_ok_def by (metis etcd_tree.exhaust fmlookup_drop option.distinct(1))
  have "sessions_of (tree e') = sessions_of (tree e) - {i}"
    using ch(3) [OF c] by (auto simp: sessions_of_def simp del: dir_at.simps split: if_splits)
  then show ?thesis using ch(1,2) [OF c] e'(1) by (simp add: etcd_EndSession_def)
qed

end

section \<open>Addresses as names\<close>

lemma ipport_String_no_underscore:
  assumes "length (ipBytes a) = 16" and "0 \<le> ipPortNum a"
  shows "CHR ''_'' \<notin> set (ipport_String a)"
proof -
  have h: "\<not> is_hex CHR ''_''" and "\<not> is_digit CHR ''_''" by (simp_all add: is_hex_def is_digit_def)
  then have dec: "CHR ''_'' \<notin> set (nat_to_dec n)" for n using nat_to_dec_chars by blast
  have "CHR ''_'' \<notin> set (ip_String (ipBytes a))"
    using assms(1) h
    by (auto simp: ip_String_def ipv4_string_def dec split: option.splits if_splits dest: ipv6_string_chars)
  moreover have "CHR ''_'' \<notin> set (itoa (ipPortNum a))"
    using itoa_chars [OF assms(2), of "CHR ''_''"] by (auto simp: is_digit_def)
  ultimately show ?thesis by (auto simp: ipport_String_def joinHostPort_def Let_def)
qed

lemma address_ok_specified:
  assumes "length (ipBytes a) = 16" and "\<not> ip_IsUnspecified (ipBytes a)" and "0 \<le> ipPortNum a" and "ipPortNum a \<le> 65535"
  shows "address_ok names a"
proof -
  have "CHR '':'' \<in> set (ipport_String a)" by (simp add: ipport_String_def joinHostPort_def Let_def)
  then have "ipport_String a \<noteq> ''.''" "ipport_String a \<noteq> ''..''" by auto
  moreover have "visible (ipport_String a)"
    using ipport_String_no_underscore [OF assms(1,3)] unfolding visible_def by (metis hd_in_set)
  ultimately show ?thesis using name_ok_ipport [OF assms(1,3)] ParseIPPort_String [of a names] assms
    by (simp add: address_ok_def listed_name_def plain_name_def)
qed

section \<open>Services without details\<close>

lemma collect_fails:
  "k \<in> set ks \<Longrightarrow> dir k = Some n \<Longrightarrow> f k n = Inl err \<Longrightarrow> \<exists>err'. collect f dir ks acc = Inl err'"
  by (induction ks arbitrary: acc) (auto split: option.split sum.split)

lemma nodeDir_full: "nodeDir (full_node (Branch m) p) = True"
  by (simp add: full_node_Branch del: full_node.simps)

lemma info_missing:
  assumes "names_plain m" and "fmlookup m DETAIL_PATH = None"
  shows "serviceInfoFromNode ord cd names (full_node (Branch m) p) opts live = Inl (MissingDetails (path_key p))"
    and "serviceInfoFromNode ord cd names (shallow_node (Branch m) p) opts live = Inl (MissingDetails (path_key p))"
proof -
  have "indexDir (Some (full_node (Branch m) p)) DETAIL_PATH = None"
    using assms(2) by (simp add: indexDir_full [OF assms(1)] del: full_node.simps)
  then show "serviceInfoFromNode ord cd names (full_node (Branch m) p) opts live = Inl (MissingDetails (path_key p))"
    by (simp add: serviceInfoFromNode_def Let_def)
  have "indexDir (Some (shallow_node (Branch m) p)) DETAIL_PATH = None"
    using assms(2) by (simp add: indexDir_shallow [OF assms(1)])
  then show "serviceInfoFromNode ord cd names (shallow_node (Branch m) p) opts live = Inl (MissingDetails (path_key p))"
    by (simp add: serviceInfoFromNode_def Let_def shallow_node_def)
qed

context etcd_contract
begin

lemma queries_fail:
  assumes "ordering_ok ord" and "roots_ok (tree e)" and "listed_name s"
    and "fmlookup (services_of (tree e)) s = Some (Branch m)" and "names_plain m" and "fmlookup m DETAIL_PATH = None"
    and "names_plain (services_of (tree e))"
  shows "\<exists>k. etcd_GetService ord cd names client s opts e = Inl (MissingDetails k)"
    and "\<exists>err. etcd_GetAllServices ord cd names client opts e = Inl err"
proof -
  let ?r = "WithInstances opts \<or> WithContainerRules opts \<or> WithIngressInstances opts"
  note k = key_path_serviceRootKey [OF listed_nameD(1) [OF assms(3)]] and p = plain_keys(1) [OF listed_nameD(1) [OF assms(3)]]
  have nl: "no_leaf service_dir (tree e)" using assms(2) by (simp add: roots_ok_def)
  have g: "tree_get (key_path (serviceRootKey s)) (tree e) = Some (Branch m)"
    using tree_get_snoc [OF nl, of s] assms(4) unfolding k services_of_def by simp
  obtain index where "clGet client (serviceRootKey s) ?r e
      = GotNode ((if ?r then full_node (Branch m) else shallow_node (Branch m)) (key_path (serviceRootKey s))) index"
    using get_node [OF p g, of ?r] by blast
  then show "\<exists>k. etcd_GetService ord cd names client s opts e = Inl (MissingDetails k)"
    using info_missing [OF assms(5,6)]
    by (cases ?r) (simp_all add: etcd_GetService_def liveSessions_ok [OF assms(2)] getDirNode_def
        full_node_Branch shallow_node_def del: full_node.simps)
  have pk: "plain_key SERVICE_ROOT" by (simp add: plain_key_def key_path_roots)
  obtain n index where n: "getDirNode client SERVICE_ROOT True True e = Inr (n, index)"
    and nodes: "nodeNodes n = nodeNodes (full_node (Branch (services_of (tree e))) service_dir)"
    using getDirNode_missing_ok [OF pk, of e True] nl
    by (auto simp: key_path_roots services_of_def simp del: dir_at.simps full_node.simps)
  have D: "indexDir (Some n) = (\<lambda>c. if visible c then
      map_option (\<lambda>t. full_node t (service_dir @ [c])) (fmlookup (services_of (tree e)) c) else None)"
    unfolding indexDir_cong [OF nodes] by (rule indexDir_full [OF assms(7)])
  have "dom (indexDir (Some n)) \<subseteq> fmdom' (services_of (tree e))"
    unfolding D by (auto simp: fmlookup_dom'_iff dom_def split: if_splits)
  then have fin: "finite (dom (indexDir (Some n)))" using finite_fmdom' finite_subset by blast
  have s: "indexDir (Some n) s = Some (full_node (Branch m) (service_dir @ [s]))"
    using assms(4) listed_nameD(2) [OF assms(3)] unfolding D by (simp del: full_node.simps)
  have "s \<in> set (ord [''GetAllServices''] (dom (indexDir (Some n))))" using s fin assms(1) by auto
  then show "\<exists>err. etcd_GetAllServices ord cd names client opts e = Inl err"
    unfolding etcd_GetAllServices_def liveSessions_ok [OF assms(2)] n read_dir_def
    by (simp, intro collect_fails) (assumption, rule s, simp only: info_missing [OF assms(5,6)] nodeDir_full sum.case not_True_eq_False if_False)
qed

lemma orphan_instance:
  assumes "ordering_ok ord" and "etcd_ok cd names (tree e)" and "abs_services cd names (tree e) s = None"
    and "listed_name s" and "listed_name n" and "encInstance cd (i, session) = Some v"
  shows "\<exists>e'. etcd_AddInstance cd client (Some session) s n i e = Some (None, e') \<and>
    (\<forall>opts. (\<exists>k. etcd_GetService ord cd names client s opts e' = Inl (MissingDetails k)) \<and>
      (\<exists>err. etcd_GetAllServices ord cd names client opts e' = Inl err))"
proof -
  let ?S = "services_of (tree e)"
  have r: "roots_ok (tree e)" using assms(2) by (simp add: etcd_ok_def)
  have new: "fmlookup ?S s = None" by (rule abs_service_new [OF assms(2,3)])
  then have sd: "subdir s ?S = fmempty" by (simp add: subdir_def)
  have "no_leaf (service_dir @ [s, INSTANCE_PATH]) (tree e)"
    using r new unfolding no_leaf_append by (simp add: roots_ok_def services_of_def subdir_def)
  moreover have "no_branch (dir_at (service_dir @ [s, INSTANCE_PATH]) (tree e)) n"
    unfolding dir_at_record sd by (simp add: no_branch_def)
  ultimately have "tree_set (key_path (instanceKey s n)) v (tree e)
      = Some (modify_at (service_dir @ [s, INSTANCE_PATH]) (fmupd n (Leaf v)) (tree e))"
    using tree_set_modify [of "service_dir @ [s, INSTANCE_PATH]" "tree e" n v]
    unfolding record_key_path(2) [OF assms(4,5)] by simp
  from set_ok [OF record_key_path(4) [OF assms(4,5)] this] obtain e' where
    e': "clSet client (instanceKey s n) v None e = (None, e')"
    "tree e' = modify_at service_dir (modify_at [s] (change_sub INSTANCE_PATH (fmupd n (Leaf v)))) (tree e)"
    unfolding modify_record by blast
  let ?m = "change_sub INSTANCE_PATH (fmupd n (Leaf v)) fmempty"
  have S: "services_of (tree e') = fmupd s (Branch ?m) ?S"
    unfolding e'(2) roots_modify(3) [OF r] using sd by simp
  have r': "roots_ok (tree e')" unfolding e'(2) by (rule roots_modify(1) [OF r])
  have m: "names_plain ?m" "fmlookup ?m DETAIL_PATH = None" by (simp_all add: names_plain_def)
  have "names_plain ?S" using assms(2) by (auto simp: names_plain_def etcd_ok_def plain_name_def name_ok_def)
  then have plain: "names_plain (services_of (tree e'))"
    using listed_nameD(4) [OF assms(4)] by (simp add: S names_plain_def)
  have s: "fmlookup (services_of (tree e')) s = Some (Branch ?m)" by (simp add: S)
  have "etcd_AddInstance cd client (Some session) s n i e = Some (None, e')"
    using setJSON_ok [OF assms(6) e'(1)] by (simp add: etcd_AddInstance_def with_session_def)
  then show ?thesis using queries_fail [OF assms(1) r' assms(4) s m plain] by blast
qed

end

end
