(* ===== verification/EtcdProps.thy ===== *)
theory EtcdProps
  imports EtcdOps
begin

text \<open>
  The properties of the etcd store, over every etcd that keeps its contract: what the queries
  show, what each operation changes, sessions that end and come back, the changes the watches
  report, and two inputs the store does not survive.
\<close>

section \<open>A store to try it on\<close>

definition demo_codec :: codec where
  "demo_codec =
     \<lparr>encService = (\<lambda>_. Some ''service''), decService = (\<lambda>_. Some \<lparr>Address = None, InstancePort = 80, Protocol = ''tcp''\<rparr>),
      encInstance = (\<lambda>(i, s). Some s),
      decInstance = (\<lambda>s. Some (\<lparr>instHost = \<lparr>hostAddr = []\<rparr>, instContainerRule = ''r'', instAddress = None, instLabels = Map.empty\<rparr>, s)),
      encRule = (\<lambda>_. Some ''rule''), decRule = (\<lambda>_. Some \<lparr>Selector = Map.empty, ruleInstancePort = 0\<rparr>),
      encIngress = (\<lambda>(i, s). Some s), decIngress = (\<lambda>s. Some (\<lparr>Weight = 1\<rparr>, s)),
      encHost = (\<lambda>(h, s). Some s), decHost = (\<lambda>s. Some (\<lparr>hostAddr = []\<rparr>, s)),
      decSession = Some\<rparr>"

definition demo_inst :: inst where
  "demo_inst = \<lparr>instHost = \<lparr>hostAddr = []\<rparr>, instContainerRule = ''r'', instAddress = None, instLabels = Map.empty\<rparr>"

definition demo_details :: service where
  "demo_details = \<lparr>Address = None, InstancePort = 80, Protocol = ''tcp''\<rparr>"

text \<open>One service with an instance of session \<open>S1\<close>, which is live.\<close>

definition demo_web :: etcd_dir where
  "demo_web = fmupd INSTANCE_PATH (Branch (fmupd ''a1'' (Leaf ''S1'') fmempty))
     (fmupd DETAIL_PATH (Leaf ''service'') fmempty)"

definition demo_etcd :: etcd_dir where
  "demo_etcd = fmupd ''weave-flux'' (Branch
     (fmupd ''service'' (Branch (fmupd ''web'' (Branch demo_web) fmempty))
       (fmupd ''session'' (Branch (fmupd ''S1'' (Leaf ''S1'') fmempty)) fmempty))) fmempty"

definition demo_abs :: abs_service where
  "demo_abs = \<lparr>asService = demo_details, asInstances = [''a1'' \<mapsto> (demo_inst, ''S1'')], asRules = Map.empty, asIngress = Map.empty\<rparr>"

lemma demo_listed: "listed_name ''web''" "listed_name ''db''" "listed_name ''a1''" "listed_name ''a2''" "listed_name ''S1''"
  by (simp_all add: listed_name_def plain_name_def name_ok_def visible_def)

lemma demo_services: "services_of demo_etcd = fmupd ''web'' (Branch demo_web) fmempty"
  by (simp add: services_of_def subdir_def demo_etcd_def)

lemma demo_sessions: "sessions_of demo_etcd = {''S1''}"
  by (auto simp: sessions_of_def subdir_def demo_etcd_def visible_def split: if_splits)

lemma demo_web_ok: "service_dir_ok demo_codec names demo_web"
  by (auto simp: service_dir_ok_def names_plain_def demo_web_def records_ok_def demo_codec_def visible_def
      path_distinct [symmetric] split: if_splits)

lemma demo_etcd_ok: "etcd_ok demo_codec names demo_etcd"
proof -
  have "roots_ok demo_etcd"
    by (auto simp: roots_ok_def demo_etcd_def subdir_def names_plain_def split: if_splits)
  then show ?thesis using demo_web_ok demo_listed(1)
    by (auto simp: etcd_ok_def demo_services listed_name_def split: if_splits)
qed

lemma demo_services_abs: "abs_services demo_codec names demo_etcd = [''web'' \<mapsto> demo_abs]"
proof -
  have "abs_of demo_codec names demo_web = demo_abs"
    by (auto simp: abs_of_def demo_web_def demo_codec_def demo_abs_def demo_details_def demo_inst_def leaves_def
        path_distinct [symmetric] fun_eq_iff split: if_splits)
  then show ?thesis by (auto simp: abs_services_def demo_services fun_eq_iff)
qed

lemma demo_encodes:
  "encodes (encService demo_codec) (decService demo_codec) demo_details"
  "encodes (encInstance demo_codec) (decInstance demo_codec) (demo_inst, s)"
  "encodes (encRule demo_codec) (decRule demo_codec) \<lparr>Selector = Map.empty, ruleInstancePort = 0\<rparr>"
  "encodes (encIngress demo_codec) (decIngress demo_codec) (\<lparr>Weight = 1\<rparr>, s)"
  by (simp_all add: encodes_def demo_codec_def demo_details_def demo_inst_def)

lemmas demo_contract = tree_etcd.etcd_contract_axioms

section \<open>Queries\<close>

text \<open>
  C7: Both queries show the store as it is: a service that is not there is reported as missing,
  the details of the others are those stored, and of their instances, rules and ingress
  instances exactly those the options ask for, the instances only of live sessions, whatever
  the order in which the maps are visited.
\<close>

theorem etcd_queries_view:
  assumes "etcd_contract client tree" and "ordering_ok ord" and "etcd_ok cd names (tree e)" and "listed_name s"
  shows "etcd_GetService ord cd names client s opts e =
      (case abs_services cd names (tree e) s of
         None \<Rightarrow> Inl NotFound
       | Some A \<Rightarrow> Inr (abs_info opts (sessions_of (tree e)) A)) \<and>
    etcd_GetAllServices ord cd names client opts e =
      Inr (\<lambda>s. map_option (abs_info opts (sessions_of (tree e))) (abs_services cd names (tree e) s))"
proof -
  have "roots_ok (tree e)" and "\<forall>t. fmlookup (services_of (tree e)) s = Some t \<longrightarrow>
      (\<exists>m. t = Branch m \<and> service_dir_ok cd names m)"
    using assms(3) by (auto simp: etcd_ok_def)
  from etcd_contract.GetService_ok [OF assms(1,2) this(1) listed_nameD(1) [OF assms(4)] this(2)]
    etcd_contract.GetAllServices_ok [OF assms(1-3)] show ?thesis by blast
qed

theorem etcd_queries_view_witness:
  "\<exists>svc. etcd_GetService sorted_ordering demo_codec (\<lambda>_ _. None) tree_client ''web''
      \<lparr>WithInstances = True, WithContainerRules = False, WithIngressInstances = False\<rparr> demo_etcd = Inr svc \<and>
    Instances svc = [''a1'' \<mapsto> demo_inst]"
  using etcd_queries_view [OF demo_contract, of sorted_ordering demo_codec "\<lambda>_ _. None" demo_etcd "''web''"
      "\<lparr>WithInstances = True, WithContainerRules = False, WithIngressInstances = False\<rparr>"]
    demo_etcd_ok demo_listed(1)
  by (simp add: demo_services_abs demo_sessions abs_info_def demo_abs_def service.defs fun_eq_iff of_live_def)

section \<open>Changes\<close>

text \<open>
  Adding a service makes a new one or, if there is one of the name, replaces its details
  and keeps its instances, rules and ingress instances; removing one takes all of it away, and
  fails without a change if it is not there. No other service and no session changes.
\<close>

theorem etcd_service_changes:
  assumes "etcd_contract client tree" and "etcd_ok cd names (tree e)" and "listed_name s"
    and "encodes (encService cd) (decService cd) details"
  shows "(\<exists>e'. etcd_AddService cd client s details e = (None, e') \<and>
      becomes cd names (tree e) ((abs_services cd names (tree e))(s \<mapsto>
        (case abs_services cd names (tree e) s of
           None \<Rightarrow> new_service details
         | Some A \<Rightarrow> A\<lparr>asService := details\<rparr>))) (tree e')) \<and>
    (if abs_services cd names (tree e) s = None
     then \<exists>m e'. etcd_RemoveService client s e = (Some m, e') \<and> tree e' = tree e
     else \<exists>e'. etcd_RemoveService client s e = (None, e') \<and>
       becomes cd names (tree e) ((abs_services cd names (tree e))(s := None)) (tree e'))"
  using etcd_contract.AddService_ok [OF assms] etcd_contract.RemoveService_ok [OF assms(1-3)] by blast

theorem etcd_service_changes_witness:
  "(\<exists>d. etcd_AddService demo_codec tree_client ''web'' demo_details demo_etcd = (None, d) \<and>
      abs_services demo_codec (\<lambda>_ _. None) d = [''web'' \<mapsto> demo_abs]) \<and>
   (\<exists>d. etcd_RemoveService tree_client ''web'' demo_etcd = (None, d) \<and>
      abs_services demo_codec (\<lambda>_ _. None) d = Map.empty)"
  using etcd_service_changes [OF demo_contract, of demo_codec "\<lambda>_ _. None" demo_etcd "''web''" demo_details]
    demo_etcd_ok demo_listed(1) demo_encodes(1)
  by (auto simp: demo_services_abs becomes_def demo_abs_def)

text \<open>
  On a service that is there, an instance, rule or ingress instance that is written is in
  the service afterwards under its name, with the session of the writer, and one that is removed
  is gone; removing one that is not there fails without a change. Nothing else of the store
  changes.
\<close>

theorem etcd_record_changes:
  assumes "etcd_contract client tree" and "etcd_ok cd names (tree e)" and "listed_name s" and "listed_name n"
    and "abs_services cd names (tree e) s = Some A"
    and "encodes (encInstance cd) (decInstance cd) (i, session)" and "encodes (encRule cd) (decRule cd) r"
    and "encodes (encIngress cd) (decIngress cd) (g, session)"
    and "length (ipBytes a) = 16" and "\<not> ip_IsUnspecified (ipBytes a)" and "0 \<le> ipPortNum a" and "ipPortNum a \<le> 65535"
  shows "(\<exists>e'. etcd_AddInstance cd client (Some session) s n i e = Some (None, e') \<and> becomes cd names (tree e)
      ((abs_services cd names (tree e))(s \<mapsto> A\<lparr>asInstances := (asInstances A)(n \<mapsto> (i, session))\<rparr>)) (tree e')) \<and>
    (\<exists>e'. etcd_SetContainerRule cd client s n r e = (None, e') \<and> becomes cd names (tree e)
      ((abs_services cd names (tree e))(s \<mapsto> A\<lparr>asRules := (asRules A)(n \<mapsto> r)\<rparr>)) (tree e')) \<and>
    (\<exists>e'. etcd_AddIngressInstance cd client (Some session) s a g e = Some (None, e') \<and> becomes cd names (tree e)
      ((abs_services cd names (tree e))(s \<mapsto> A\<lparr>asIngress := (asIngress A)(a \<mapsto> (g, session))\<rparr>)) (tree e')) \<and>
    (if asInstances A n = None
     then \<exists>m e'. etcd_RemoveInstance client s n e = (Some m, e') \<and> tree e' = tree e
     else \<exists>e'. etcd_RemoveInstance client s n e = (None, e') \<and> becomes cd names (tree e)
       ((abs_services cd names (tree e))(s \<mapsto> A\<lparr>asInstances := (asInstances A)(n := None)\<rparr>)) (tree e')) \<and>
    (if asRules A n = None
     then \<exists>m e'. etcd_RemoveContainerRule client s n e = (Some m, e') \<and> tree e' = tree e
     else \<exists>e'. etcd_RemoveContainerRule client s n e = (None, e') \<and> becomes cd names (tree e)
       ((abs_services cd names (tree e))(s \<mapsto> A\<lparr>asRules := (asRules A)(n := None)\<rparr>)) (tree e')) \<and>
    (if asIngress A a = None
     then \<exists>m e'. etcd_RemoveIngressInstance client s a e = (Some m, e') \<and> tree e' = tree e
     else \<exists>e'. etcd_RemoveIngressInstance client s a e = (None, e') \<and> becomes cd names (tree e)
       ((abs_services cd names (tree e))(s \<mapsto> A\<lparr>asIngress := (asIngress A)(a := None)\<rparr>)) (tree e'))"
proof -
  note svc = assms(2,5,3) and addr = address_ok_specified [OF assms(9-12), of names]
  show ?thesis
    using etcd_contract.AddInstance_ok [OF assms(1) svc assms(4,6)]
      etcd_contract.SetContainerRule_ok [OF assms(1) svc assms(4,7)]
      etcd_contract.AddIngressInstance_ok [OF assms(1) svc addr assms(8)]
      etcd_contract.RemoveInstance_ok [OF assms(1) svc assms(4)]
      etcd_contract.RemoveContainerRule_ok [OF assms(1) svc assms(4)]
      etcd_contract.RemoveIngressInstance_ok [OF assms(1) svc addr]
    by (intro conjI)
qed

lemma demo_ipv6_specified: "\<not> ip_IsUnspecified demo_ipv6"
proof -
  have "of_char (hd demo_ipv6) = (32::nat)" by (simp add: demo_ipv6_def)
  then show ?thesis by (intro hd_not_unspecified) (simp_all add: demo_ipv6_def)
qed

theorem etcd_record_changes_witness:
  "(\<exists>d. etcd_AddInstance demo_codec tree_client (Some ''S1'') ''web'' ''a2'' demo_inst demo_etcd = Some (None, d) \<and>
      becomes demo_codec (\<lambda>_ _. None) demo_etcd [''web'' \<mapsto> demo_abs\<lparr>asInstances :=
        [''a1'' \<mapsto> (demo_inst, ''S1''), ''a2'' \<mapsto> (demo_inst, ''S1'')]\<rparr>] d) \<and>
   (\<exists>d. etcd_AddIngressInstance demo_codec tree_client (Some ''S1'') ''web'' (newIPPort demo_ipv6 80) \<lparr>Weight = 1\<rparr> demo_etcd
        = Some (None, d) \<and>
      becomes demo_codec (\<lambda>_ _. None) demo_etcd
        [''web'' \<mapsto> demo_abs\<lparr>asIngress := [newIPPort demo_ipv6 80 \<mapsto> (\<lparr>Weight = 1\<rparr>, ''S1'')]\<rparr>] d)"
proof -
  have "length demo_ipv6 = 16" by (simp add: demo_ipv6_def)
  then show ?thesis
    using etcd_record_changes [OF demo_contract, of demo_codec "\<lambda>_ _. None" demo_etcd "''web''" "''a2''" demo_abs
        demo_inst "''S1''" "\<lparr>Selector = Map.empty, ruleInstancePort = 0\<rparr>" "\<lparr>Weight = 1\<rparr>" "newIPPort demo_ipv6 80"]
      demo_etcd_ok demo_listed demo_encodes demo_ipv6_specified
    by (simp add: demo_services_abs newIPPort_def demo_abs_def)
qed

text \<open>
  C10: Ending a session hides exactly the instances that were written in it, in every service and
  for every query, without deleting them: the next heartbeat of the session brings all of them
  back.
\<close>

theorem etcd_session_ends:
  assumes "etcd_contract client tree" and "ordering_ok ord" and "etcd_ok cd names (tree e)"
    and "listed_name i" and "i \<in> sessions_of (tree e)" and "listed_name s"
  shows "\<exists>e' e''. etcd_EndSession client (Some i) e = (None, e') \<and>
    etcd_GetService ord cd names client s opts e' =
      (case abs_services cd names (tree e) s of
         None \<Rightarrow> Inl NotFound
       | Some A \<Rightarrow> Inr (abs_info opts (sessions_of (tree e) - {i}) A)) \<and>
    etcd_Heartbeat client fresh ttl (Some i, e') = (None, Some i, e'') \<and>
    etcd_GetService ord cd names client s opts e'' = etcd_GetService ord cd names client s opts e"
proof -
  obtain e' where e': "etcd_EndSession client (Some i) e = (None, e')" "etcd_ok cd names (tree e')"
    "sessions_of (tree e') = sessions_of (tree e) - {i}" "abs_services cd names (tree e') = abs_services cd names (tree e)"
    using etcd_contract.EndSession_ok [OF assms(1,3-5)] by blast
  obtain e'' where e'': "etcd_Heartbeat client i ttl (Some i, e') = (None, Some i, e'')" "etcd_ok cd names (tree e'')"
    "sessions_of (tree e'') = sessions_of (tree e)" "abs_services cd names (tree e'') = abs_services cd names (tree e)"
    using etcd_contract.Heartbeat_ok [OF assms(1) e'(2) assms(4), of "Some i" ttl] assms(4,5) e'(3,4)
    by (auto simp: insert_absorb)
  have "etcd_Heartbeat client fresh ttl (Some i, e') = (None, Some i, e'')"
    using e''(1) by (simp add: etcd_Heartbeat_def)
  moreover have q: "etcd_GetService ord cd names client s opts x =
      (case abs_services cd names (tree x) s of None \<Rightarrow> Inl NotFound | Some A \<Rightarrow> Inr (abs_info opts (sessions_of (tree x)) A))"
    if "etcd_ok cd names (tree x)" for x
    using etcd_contract.GetService_ok [OF assms(1,2) _ listed_nameD(1) [OF assms(6)]] that by (simp add: etcd_ok_def)
  ultimately show ?thesis
    using e'(1) q [OF e'(2), unfolded e'(3,4)] q [OF e''(2), unfolded e''(3,4)] q [OF assms(3)]
    by (metis (no_types, lifting))
qed

theorem etcd_session_ends_witness:
  "\<exists>d svc. etcd_EndSession tree_client (Some ''S1'') demo_etcd = (None, d) \<and>
    etcd_GetService sorted_ordering demo_codec (\<lambda>_ _. None) tree_client ''web''
      \<lparr>WithInstances = True, WithContainerRules = False, WithIngressInstances = False\<rparr> d = Inr svc \<and>
    Instances svc = Map.empty"
  using etcd_session_ends [OF demo_contract, of sorted_ordering demo_codec "\<lambda>_ _. None" demo_etcd "''S1''" "''web''"
      "\<lparr>WithInstances = True, WithContainerRules = False, WithIngressInstances = False\<rparr>" "''S1''" 0]
    demo_etcd_ok demo_listed
  by (auto simp: demo_services_abs demo_sessions abs_info_def demo_abs_def service.defs fun_eq_iff of_live_def)

section \<open>Watches\<close>

text \<open>
  What each operation leaves in the log of etcd is reported by a watch of services: adding
  and removing a service always, a change of a rule, instance or ingress instance to those that
  asked for them, always under the name of the service, and removing all services as the removal
  of each known one, once. The names have no slash.
\<close>

theorem etcd_watch_reports:
  assumes "ordering_ok ord" and "finite svcs" and "name_ok s" and "CHR ''/'' \<notin> set n"
    and "length (ipBytes a) = 16" and "0 \<le> ipPortNum a" and "act \<in> {''set'', ''delete''}"
  shows "handle_service_response ord opts \<lparr>reAction = ''set'', reKey = serviceKey s\<rparr> svcs
      = ([\<lparr>scName = s, scServiceDeleted = False\<rparr>], insert s svcs) \<and>
    handle_service_response ord opts \<lparr>reAction = ''delete'', reKey = serviceRootKey s\<rparr> svcs
      = ([\<lparr>scName = s, scServiceDeleted = True\<rparr>], svcs - {s}) \<and>
    handle_service_response ord opts \<lparr>reAction = act, reKey = instanceKey s n\<rparr> svcs
      = (if WithInstances opts then [\<lparr>scName = s, scServiceDeleted = False\<rparr>] else [], svcs) \<and>
    handle_service_response ord opts \<lparr>reAction = act, reKey = ruleKey s n\<rparr> svcs
      = (if WithContainerRules opts then [\<lparr>scName = s, scServiceDeleted = False\<rparr>] else [], svcs) \<and>
    handle_service_response ord opts \<lparr>reAction = act, reKey = ingressInstanceKey s a\<rparr> svcs
      = (if WithIngressInstances opts then [\<lparr>scName = s, scServiceDeleted = False\<rparr>] else [], svcs) \<and>
    (\<exists>out. handle_service_response ord opts \<lparr>reAction = ''delete'', reKey = ''/weave-flux/service''\<rparr> svcs = (out, {}) \<and>
      distinct out \<and> set out = {\<lparr>scName = x, scServiceDeleted = True\<rparr> | x. x \<in> svcs})"
proof -
  have k: "parseKey (serviceRootKey s) = Some (ParsedServiceRootKey s)"
    "parseKey (serviceKey s) = Some (ParsedServiceKey s)"
    "parseKey (ruleKey s n) = Some (ParsedRuleKey s n)"
    "parseKey (instanceKey s n) = Some (ParsedInstanceKey s n)"
    "parseKey (ingressInstanceKey s a) = Some (ParsedIngressInstanceKey s (ipport_String a))"
    using parsed_keys [OF assms(3-6)] by auto
  have root: "parseKey ''/weave-flux/service'' = Some ParsedRootKey"
    by (simp add: parseKey_def SERVICE_ROOT_def ROOT_def)
  let ?out = "List.map (\<lambda>name. \<lparr>scName = name, scServiceDeleted = True\<rparr>) (ord [''svcs''] svcs)"
  have "distinct ?out" "set ?out = {\<lparr>scName = x, scServiceDeleted = True\<rparr> | x. x \<in> svcs}"
    using assms(1,2) by (auto simp: distinct_map inj_on_def)
  then have "\<exists>out. handle_service_response ord opts \<lparr>reAction = ''delete'', reKey = ''/weave-flux/service''\<rparr> svcs = (out, {}) \<and>
      distinct out \<and> set out = {\<lparr>scName = x, scServiceDeleted = True\<rparr> | x. x \<in> svcs}"
    by (simp add: handle_service_response_def root)
  moreover have "act = ''set'' \<or> act = ''delete''" using assms(7) by simp
  ultimately show ?thesis
    by (elim disjE) (simp_all add: handle_service_response_def k relevant_change_def relevantTo_def Let_def)
qed

theorem etcd_watch_reports_witness:
  "handle_service_response sorted_ordering \<lparr>WithInstances = True, WithContainerRules = False, WithIngressInstances = False\<rparr>
      \<lparr>reAction = ''delete'', reKey = instanceKey ''web'' ''a1''\<rparr> {''web''}
    = ([\<lparr>scName = ''web'', scServiceDeleted = False\<rparr>], {''web''})"
  using etcd_watch_reports [of sorted_ordering "{''web''}" "''web''" "''a1''" "newIPPort demo_ipv6 80" "''delete''"
      "\<lparr>WithInstances = True, WithContainerRules = False, WithIngressInstances = False\<rparr>"]
  by (simp add: name_ok_def newIPPort_def demo_ipv6_def)

section \<open>Inputs the store does not survive\<close>

text \<open>
  C9: An instance written to a service that is not there makes a directory without details: the
  write succeeds, but from then on both queries fail, with any options: the
  one of that service and the one of all services.
\<close>

theorem etcd_orphan_instance:
  assumes "etcd_contract client tree" and "ordering_ok ord" and "etcd_ok cd names (tree e)"
    and "abs_services cd names (tree e) s = None" and "listed_name s" and "listed_name n"
    and "encInstance cd (i, session) = Some v"
  shows "\<exists>e'. etcd_AddInstance cd client (Some session) s n i e = Some (None, e') \<and>
    (\<forall>opts. (\<exists>k. etcd_GetService ord cd names client s opts e' = Inl (MissingDetails k)) \<and>
      (\<exists>err. etcd_GetAllServices ord cd names client opts e' = Inl err))"
  by (rule etcd_contract.orphan_instance [OF assms])

theorem etcd_orphan_instance_witness:
  "\<exists>d. etcd_AddInstance demo_codec tree_client (Some ''S1'') ''db'' ''a1'' demo_inst demo_etcd = Some (None, d) \<and>
    (\<exists>err. etcd_GetAllServices sorted_ordering demo_codec (\<lambda>_ _. None) tree_client
      \<lparr>WithInstances = False, WithContainerRules = False, WithIngressInstances = False\<rparr> d = Inl err)"
  using etcd_orphan_instance [OF demo_contract, of sorted_ordering demo_codec "\<lambda>_ _. None" demo_etcd "''db''" "''a1''"
      demo_inst "''S1''" "''S1''"] demo_etcd_ok demo_listed
  by (simp add: demo_services_abs) (auto simp: demo_codec_def)

text \<open>
  A watch of hosts reports the registration and the removal of each host, but panics on the
  removal of the directory of hosts as a whole, or of all the store, whose keys are shorter than
  the prefix it cuts off.
\<close>

theorem etcd_host_watch_panics:
  "handle_host_response \<lparr>reAction = ''set'', reKey = hostKey h\<rparr> hosts
      = Some ([\<lparr>hcName = h, hcHostDeparted = False\<rparr>], insert h hosts) \<and>
    handle_host_response \<lparr>reAction = ''delete'', reKey = hostKey h\<rparr> hosts
      = Some ([\<lparr>hcName = h, hcHostDeparted = True\<rparr>], hosts - {h}) \<and>
    handle_host_response \<lparr>reAction = act, reKey = ''/weave-flux/host''\<rparr> hosts = None \<and>
    handle_host_response \<lparr>reAction = act, reKey = ''/weave-flux''\<rparr> hosts = None"
proof -
  have "length HOST_ROOT = 17" by (simp add: HOST_ROOT_def ROOT_def)
  then show ?thesis by (simp add: handle_host_response_def hostKey_def)
qed

text \<open>So a watch of hosts reports their changes one by one, and the error it ends with.\<close>

lemma etcd_host_watch_reports:
  "watch_hosts_loop (map (\<lambda>(h, left). NextResponse \<lparr>reAction = (if left then ''delete'' else ''set''), reKey = hostKey h\<rparr>) hs
      @ [NextFailed err]) hosts
    = Some (map (\<lambda>(h, left). \<lparr>hcName = h, hcHostDeparted = left\<rparr>) hs, Some (WatchError err))"
proof (induction hs arbitrary: hosts)
  case (Cons p hs)
  obtain h left where p: "p = (h, left)" by (cases p)
  show ?case using Cons.IH etcd_host_watch_panics [of h] p by (cases left) auto
qed simp

end
