(* ===== verification/ServerSide.thy ===== *)
theory ServerSide
  imports SyncInstances Forwarder
begin

text \<open>
  The server-side balancer (\<open>balancer/serverside/serverside.go\<close>): for every service that is
  defined and has instances on this host it runs a forwarder and announces its address as an
  ingress instance. The calls of the store and the errors posted are logs of the state; what the
  listening socket, the store and the clock answer is an argument, a function of the place of
  the call. \<open>None\<close> is a panic.
\<close>

section \<open>State\<close>

record ss_service =
  ssService :: "service option"
  ssForwarder :: "forwarder option"
  ssAddr :: ipport
  ssInstances :: "string \<rightharpoonup> ipport"

datatype ss_call =
    AddIngress string ipport ingress_instance
  | RemoveIngress string ipport

record server_side =
  svServices :: "string \<rightharpoonup> ss_service"
  svCalls :: "ss_call list"
  svErrors :: "string list"

record ss_env =
  evListen :: "string list \<Rightarrow> string + int"
  evStore :: "string list \<Rightarrow> string option"
  evClock :: "string list \<Rightarrow> int"

definition ss_start :: server_side where
  "ss_start = \<lparr>svServices = Map.empty, svCalls = [], svErrors = []\<rparr>"

definition ss_post :: "string option \<Rightarrow> server_side \<Rightarrow> server_side" where
  "ss_post e st = (case e of None \<Rightarrow> st | Some err \<Rightarrow> st\<lparr>svErrors := svErrors st @ [err]\<rparr>)"

definition ss_call :: "ss_env \<Rightarrow> string list \<Rightarrow> ss_call \<Rightarrow> server_side \<Rightarrow> server_side" where
  "ss_call env l c st = ss_post (evStore env l) (st\<lparr>svCalls := svCalls st @ [c]\<rparr>)"

definition ss_put :: "string \<Rightarrow> ss_service option \<Rightarrow> server_side \<Rightarrow> server_side" where
  "ss_put name svc st = st\<lparr>svServices := (svServices st)(name := svc)\<rparr>"

section \<open>Operations\<close>

definition ss_getService :: "string \<Rightarrow> server_side \<Rightarrow> ss_service \<times> server_side" where
  "ss_getService svcName st =
     (case svServices st svcName of
        Some svc \<Rightarrow> (svc, st)
      | None \<Rightarrow>
          let svc = \<lparr>ssService = None, ssForwarder = None, ssAddr = newIPPort [] 0, ssInstances = Map.empty\<rparr>
          in (svc, ss_put svcName (Some svc) st))"

text \<open>The forwarder of a service, a new one on the host address if there is none.\<close>

definition ss_forwarder ::
  "ss_env \<Rightarrow> string list \<Rightarrow> ip \<Rightarrow> string \<Rightarrow> service \<Rightarrow> ss_service \<Rightarrow> string + (forwarder \<times> ipport)" where
  "ss_forwarder env l hostIP svcName details svc =
     (case ssForwarder svc of
        Some fwd \<Rightarrow> Inr (fwd, ssAddr svc)
      | None \<Rightarrow>
          (case evListen env l of
             Inl err \<Rightarrow> Inl err
           | Inr port \<Rightarrow> Inr (SetProtocol (Protocol details) (new_forwarder svcName), newIPPort hostIP port)))"

definition ss_withdraw :: "ss_env \<Rightarrow> string list \<Rightarrow> string \<Rightarrow> ss_service \<Rightarrow> server_side \<Rightarrow> server_side" where
  "ss_withdraw env l svcName svc st =
     (case ssForwarder svc of
        None \<Rightarrow> ss_put svcName (Some svc) st
      | Some _ \<Rightarrow>
          ss_call env l (RemoveIngress svcName (ssAddr svc)) (ss_put svcName (Some (svc\<lparr>ssForwarder := None\<rparr>)) st))"

text \<open>The service is written back to its entry of the table, which the code updates in place.\<close>

definition ss_updateService ::
  "string ordering \<Rightarrow> ss_env \<Rightarrow> string list \<Rightarrow> ip \<Rightarrow> string \<Rightarrow> ss_service \<Rightarrow> server_side \<Rightarrow> server_side" where
  "ss_updateService ord env l hostIP svcName svc st =
     (case (ssService svc, ssInstances svc = Map.empty) of
        (Some details, False) \<Rightarrow>
          (case ss_forwarder env l hostIP svcName details svc of
             Inl err \<Rightarrow> ss_post (Some err) (ss_put svcName (Some svc) st)
           | Inr (fwd, addr) \<Rightarrow>
               let fwd' = SetForwarderInstances ord (evClock env l) (ssInstances svc) fwd in
               ss_call env l (AddIngress svcName addr \<lparr>Weight = int (card (dom (ssInstances svc)))\<rparr>)
                 (ss_put svcName (Some (svc\<lparr>ssForwarder := Some fwd', ssAddr := addr\<rparr>)) st))
      | (details, noInstances) \<Rightarrow>
          let st1 = ss_withdraw env l svcName svc st
          in if details = None \<and> noInstances then ss_put svcName None st1 else st1)"

definition ss_processServiceUpdate ::
  "string ordering \<Rightarrow> ss_env \<Rightarrow> ip \<Rightarrow> service_update \<Rightarrow> server_side \<Rightarrow> server_side" where
  "ss_processServiceUpdate ord env hostIP u st =
     (let st1 = for_keys (\<lambda>_. suServices u)
        (\<lambda>svcName usvc st. case ss_getService svcName st of (svc, st) \<Rightarrow>
           ss_updateService ord env [''service'', svcName] hostIP svcName
             (svc\<lparr>ssService := map_option service.truncate usvc\<rparr>) st)
        (ord [''update.Services''] (dom (suServices u))) st in
      if suReset u then
        for_keys svServices
          (\<lambda>svcName svc st.
             if (case suServices u svcName of Some (Some _) \<Rightarrow> False | _ \<Rightarrow> True)
             then ss_updateService ord env [''reset'', svcName] hostIP svcName (svc\<lparr>ssService := None\<rparr>) st
             else st)
          (ord [''ss.services''] (dom (svServices st1))) st1
      else st1)"

text \<open>The instances of a reset by service; a nil instance panics.\<close>

definition reset_instances ::
  "instance_key ordering \<Rightarrow> instance_update \<Rightarrow> (string \<rightharpoonup> (string \<rightharpoonup> ipport)) option" where
  "reset_instances kord u =
     for_keysM (\<lambda>_. iuInstances u)
       (\<lambda>key inst svcs.
          case inst of
            None \<Rightarrow> None
          | Some i \<Rightarrow>
              (case instAddress i of
                 None \<Rightarrow> Some svcs
               | Some a \<Rightarrow>
                   let insts = (case svcs (fst key) of None \<Rightarrow> Map.empty | Some m \<Rightarrow> m)
                   in Some (svcs(fst key \<mapsto> insts(snd key \<mapsto> a)))))
       (kord [''update.Instances''] (dom (iuInstances u))) Map.empty"

definition ss_processInstanceReset ::
  "string ordering \<Rightarrow> instance_key ordering \<Rightarrow> ss_env \<Rightarrow> ip \<Rightarrow> instance_update \<Rightarrow> server_side \<Rightarrow> server_side option" where
  "ss_processInstanceReset ord kord env hostIP u st =
     (case reset_instances kord u of
        None \<Rightarrow> None
      | Some svcs \<Rightarrow>
          (let st1 = for_keys (\<lambda>_. svcs)
             (\<lambda>svcName insts st. case ss_getService svcName st of (svc, st) \<Rightarrow>
                ss_updateService ord env [''instances'', svcName] hostIP svcName (svc\<lparr>ssInstances := insts\<rparr>) st)
             (ord [''svcs''] (dom svcs)) st
           in Some (for_keys svServices
             (\<lambda>svcName svc st.
                if svcs svcName = None
                then ss_updateService ord env [''empty'', svcName] hostIP svcName (svc\<lparr>ssInstances := Map.empty\<rparr>) st
                else st)
             (ord [''ss.services''] (dom (svServices st1))) st1)))"

definition ss_processInstanceUpdate ::
  "string ordering \<Rightarrow> instance_key ordering \<Rightarrow> ss_env \<Rightarrow> ip \<Rightarrow> instance_update \<Rightarrow> server_side \<Rightarrow> server_side" where
  "ss_processInstanceUpdate ord kord env hostIP u st =
     for_keys (\<lambda>_. iuInstances u)
       (\<lambda>key inst st. case ss_getService (fst key) st of (svc, st) \<Rightarrow>
          (case inst of
             None \<Rightarrow> ss_updateService ord env [''instance'', fst key, snd key] hostIP (fst key)
               (svc\<lparr>ssInstances := (ssInstances svc)(snd key := None)\<rparr>) st
           | Some i \<Rightarrow>
               (case instAddress i of
                  None \<Rightarrow> st
                | Some a \<Rightarrow> ss_updateService ord env [''instance'', fst key, snd key] hostIP (fst key)
                    (svc\<lparr>ssInstances := (ssInstances svc)(snd key \<mapsto> a)\<rparr>) st)))
       (kord [''update.Instances''] (dom (iuInstances u))) st"

section \<open>The loop\<close>

datatype ss_event = ServicesChanged service_update | InstancesChanged instance_update

definition ss_step ::
  "string ordering \<Rightarrow> instance_key ordering \<Rightarrow> ss_env \<Rightarrow> ip \<Rightarrow> ss_event \<Rightarrow> server_side \<Rightarrow> server_side option" where
  "ss_step ord kord env hostIP ev st =
     (case ev of
        ServicesChanged u \<Rightarrow> Some (ss_processServiceUpdate ord env hostIP u st)
      | InstancesChanged u \<Rightarrow>
          if iuReset u then ss_processInstanceReset ord kord env hostIP u st
          else Some (ss_processInstanceUpdate ord kord env hostIP u st))"

fun ss_run ::
  "string ordering \<Rightarrow> instance_key ordering \<Rightarrow> ip \<Rightarrow> (ss_env \<times> ss_event) list \<Rightarrow> server_side \<Rightarrow> server_side option" where
  "ss_run ord kord hostIP [] st = Some st"
| "ss_run ord kord hostIP ((env, ev) # evs) st =
     (case ss_step ord kord env hostIP ev st of
        None \<Rightarrow> None
      | Some st' \<Rightarrow> ss_run ord kord hostIP evs st')"

end
