(* ===== verification/ServerSideCorrect.thy ===== *)
theory ServerSideCorrect
  imports ServerSide
begin

text \<open>
  Correctness of the server-side balancer: the ingress instances its calls announce are those of
  its running forwarders, each forwarder's pool holds the instances of its service, and the
  handlers change the inputs of each service as the update says.
\<close>

section \<open>What the state announces\<close>

definition replay_call :: "ss_call \<Rightarrow> (string \<times> ipport \<rightharpoonup> int) \<Rightarrow> (string \<times> ipport \<rightharpoonup> int)" where
  "replay_call c M =
     (case c of
        AddIngress n a i \<Rightarrow> M((n, a) \<mapsto> Weight i)
      | RemoveIngress n a \<Rightarrow> M((n, a) := None))"

definition replay_calls :: "ss_call list \<Rightarrow> string \<times> ipport \<rightharpoonup> int" where
  "replay_calls cs = fold replay_call cs Map.empty"

definition announced :: "(string \<rightharpoonup> ss_service) \<Rightarrow> string \<times> ipport \<rightharpoonup> int" where
  "announced T =
     (\<lambda>(n, a). case T n of
        Some svc \<Rightarrow> if ssForwarder svc \<noteq> None \<and> ssAddr svc = a then Some (int (card (dom (ssInstances svc)))) else None
      | None \<Rightarrow> None)"

definition ss_entry_ok :: "ip \<Rightarrow> ss_service \<Rightarrow> bool" where
  "ss_entry_ok hostIP svc \<longleftrightarrow> finite (dom (ssInstances svc)) \<and>
     (\<forall>f. ssForwarder svc = Some f \<longrightarrow> ssService svc \<noteq> None \<and> ssInstances svc \<noteq> Map.empty \<and>
        ipBytes (ssAddr svc) = hostIP \<and> pool_ok (fwPool f) \<and> member_names (fwPool f) = dom (ssInstances svc))"

definition ss_inv :: "ip \<Rightarrow> server_side \<Rightarrow> bool" where
  "ss_inv hostIP st \<longleftrightarrow> finite (dom (svServices st)) \<and> (\<forall>n svc. svServices st n = Some svc \<longrightarrow> ss_entry_ok hostIP svc) \<and>
     replay_calls (svCalls st) = announced (svServices st)"

text \<open>The inputs the table keeps of a service.\<close>

definition ss_view :: "server_side \<Rightarrow> string \<Rightarrow> service option \<times> (string \<rightharpoonup> ipport)" where
  "ss_view st n =
     (case svServices st n of None \<Rightarrow> (None, Map.empty) | Some svc \<Rightarrow> (ssService svc, ssInstances svc))"

lemma ss_fields [simp]:
  "svServices (ss_post e st) = svServices st" "svCalls (ss_post e st) = svCalls st"
  "svServices (ss_call env l c st) = svServices st" "svCalls (ss_call env l c st) = svCalls st @ [c]"
  "svServices (ss_put n x st) = (svServices st)(n := x)" "svCalls (ss_put n x st) = svCalls st"
  by (simp_all add: ss_post_def ss_call_def ss_put_def split: option.splits)

lemma replay_calls_snoc [simp]: "replay_calls (cs @ [c]) = replay_call c (replay_calls cs)"
  by (simp add: replay_calls_def)

text \<open>The service passed to \<open>updateService\<close> is the entry of the table with its inputs changed.\<close>

definition from_entry :: "server_side \<Rightarrow> string \<Rightarrow> ss_service \<Rightarrow> bool" where
  "from_entry st n svc \<longleftrightarrow>
     (case svServices st n of
        None \<Rightarrow> ssForwarder svc = None
      | Some old \<Rightarrow> ssForwarder svc = ssForwarder old \<and> ssAddr svc = ssAddr old)"

section \<open>One service\<close>

lemma announced_put:
  "announced (T(n := x)) =
     (\<lambda>(m, a). if m = n then announced (\<lambda>_. x) (n, a) else announced T (m, a))"
  by (auto simp: announced_def fun_eq_iff)

lemma announced_entry:
  "announced (\<lambda>_. Some svc) (n, a) =
     (if ssForwarder svc \<noteq> None \<and> ssAddr svc = a then Some (int (card (dom (ssInstances svc)))) else None)"
  "announced (\<lambda>_. None) (n, a) = None"
  by (simp_all add: announced_def)

text \<open>
  What updateService makes of the table: the entry of the service, if one is left, has the service
  and the instances it was given, and a forwarder when one is wanted and can be made.
\<close>

definition ss_updated :: "ss_env \<Rightarrow> string list \<Rightarrow> ip \<Rightarrow> string \<Rightarrow> ss_service \<Rightarrow> server_side \<Rightarrow> server_side \<Rightarrow> bool" where
  "ss_updated env l hostIP n svc st st' \<longleftrightarrow> ss_inv hostIP st' \<and> (\<exists>x. svServices st' = (svServices st)(n := x) \<and>
     (x = None \<longrightarrow> ssService svc = None \<and> ssInstances svc = Map.empty) \<and>
     (\<forall>svc'. x = Some svc' \<longrightarrow> ssService svc' = ssService svc \<and> ssInstances svc' = ssInstances svc \<and>
       ((\<exists>port. evListen env l = Inr port) \<and> ssService svc \<noteq> None \<and> ssInstances svc \<noteq> Map.empty \<longrightarrow>
          ssForwarder svc' \<noteq> None)))"

lemma ss_invD:
  assumes "ss_inv hostIP st"
  shows "replay_calls (svCalls st) = announced (svServices st)" and "finite (dom (svServices st))"
    and "svServices st m = Some s \<Longrightarrow> ss_entry_ok hostIP s"
  using assms by (auto simp: ss_inv_def)

lemma ss_inv_put:
  assumes "ss_inv hostIP st" and "svServices st' = (svServices st)(n := x)"
    and "\<And>s. x = Some s \<Longrightarrow> ss_entry_ok hostIP s"
    and "replay_calls (svCalls st') = announced ((svServices st)(n := x))"
  shows "ss_inv hostIP st'"
  using assms ss_invD [OF assms(1)] by (cases x) (auto simp: ss_inv_def split: if_splits)

lemma ss_not_announced:
  assumes "from_entry st n svc" and "ssForwarder svc = None \<or> ssAddr svc \<noteq> a"
  shows "announced (svServices st) (n, a) = None"
  using assms by (auto simp: announced_def from_entry_def split: option.splits)

lemma ss_withdraw_ok:
  assumes "ss_inv hostIP st" and "from_entry st n svc"
  shows "svServices (ss_withdraw env l n svc st) = (svServices st)(n \<mapsto> svc\<lparr>ssForwarder := None\<rparr>) \<and>
    replay_calls (svCalls (ss_withdraw env l n svc st)) = announced ((svServices st)(n \<mapsto> svc\<lparr>ssForwarder := None\<rparr>))"
proof (cases "ssForwarder svc")
  case None
  then have "svc\<lparr>ssForwarder := None\<rparr> = svc" by simp
  then show ?thesis using ss_invD(1) [OF assms(1)] ss_not_announced [OF assms(2)] None
    by (auto simp: ss_withdraw_def announced_put announced_entry fun_eq_iff)
next
  case (Some f)
  then show ?thesis using ss_invD(1) [OF assms(1)] ss_not_announced [OF assms(2)]
    by (auto simp: ss_withdraw_def announced_put announced_entry replay_call_def fun_eq_iff)
qed

lemma ss_updateService_withdraws:
  fixes env :: ss_env and l :: "string list"
  assumes "ss_inv hostIP st" and "from_entry st n svc" and "finite (dom (ssInstances svc))"
    and none: "ssService svc = None \<or> ssInstances svc = Map.empty"
  shows "ss_updated env l hostIP n svc st (ss_updateService ord env l hostIP n svc st)" (is "ss_updated _ _ _ _ _ _ ?st'")
proof -
  let ?T = "svServices st" and ?w = "ss_withdraw env l n svc st"
  note w = ss_withdraw_ok [OF assms(1,2), of env l]
  have entry: "ss_entry_ok hostIP (svc\<lparr>ssForwarder := None\<rparr>)" using assms(3) by (simp add: ss_entry_ok_def)
  have st': "?st' = (if ssService svc = None \<and> ssInstances svc = Map.empty then ss_put n None ?w else ?w)"
    using none by (auto simp: ss_updateService_def Let_def split: option.split)
  show ?thesis
  proof (cases "ssService svc = None \<and> ssInstances svc = Map.empty")
    case True
    have "announced (?T(n := None)) = announced (?T(n \<mapsto> svc\<lparr>ssForwarder := None\<rparr>))"
      by (auto simp: announced_put announced_entry fun_eq_iff)
    then have T: "svServices ?st' = ?T(n := None)" "replay_calls (svCalls ?st') = announced (?T(n := None))"
      using w True by (simp_all add: st')
    have "ss_inv hostIP ?st'" by (rule ss_inv_put [OF assms(1) T(1) _ T(2)]) simp
    then show ?thesis using T(1) True unfolding ss_updated_def by blast
  next
    case False
    then have "?st' = ?w" unfolding st' by (rule if_not_P)
    then have T: "svServices ?st' = ?T(n \<mapsto> svc\<lparr>ssForwarder := None\<rparr>)"
      "replay_calls (svCalls ?st') = announced (?T(n \<mapsto> svc\<lparr>ssForwarder := None\<rparr>))"
      using w by simp_all
    have "ss_inv hostIP ?st'" by (rule ss_inv_put [OF assms(1) T(1) _ T(2)]) (use entry in simp)
    then show ?thesis using T(1) none unfolding ss_updated_def
      by (intro conjI exI [of _ "Some (svc\<lparr>ssForwarder := None\<rparr>)"]) auto
  qed
qed

lemma ss_updateService_forwards:
  fixes env :: ss_env and l :: "string list"
  assumes "ordering_ok ord" and "ss_inv hostIP st" and "from_entry st n svc" and "finite (dom (ssInstances svc))"
    and d: "ssService svc = Some d" and ne: "ssInstances svc \<noteq> Map.empty"
  shows "ss_updated env l hostIP n svc st (ss_updateService ord env l hostIP n svc st)" (is "ss_updated _ _ _ _ _ _ ?st'")
proof (cases "ss_forwarder env l hostIP n d svc")
  case (Inl err)
  then have f: "ssForwarder svc = None" and no: "\<nexists>port. evListen env l = Inr port"
    by (auto simp: ss_forwarder_def split: option.splits sum.splits)
  have st': "svServices ?st' = (svServices st)(n \<mapsto> svc)" "svCalls ?st' = svCalls st"
    using d ne Inl by (auto simp: ss_updateService_def)
  have "announced ((svServices st)(n \<mapsto> svc)) = announced (svServices st)"
    using ss_not_announced [OF assms(3)] f by (auto simp: announced_put announced_entry fun_eq_iff)
  then have "replay_calls (svCalls ?st') = announced ((svServices st)(n \<mapsto> svc))"
    using ss_invD(1) [OF assms(2)] st'(2) by simp
  moreover have "ss_entry_ok hostIP svc" using f assms(4) by (simp add: ss_entry_ok_def)
  ultimately have "ss_inv hostIP ?st'" using ss_inv_put [OF assms(2) st'(1)] by auto
  then show ?thesis using st'(1) no unfolding ss_updated_def by (intro conjI exI [of _ "Some svc"]) auto
next
  case (Inr x)
  obtain f a where x: "x = (f, a)" by fastforce
  have "pool_ok (fwPool g) \<and> ipBytes (ssAddr svc) = hostIP" if "ssForwarder svc = Some g" for g
    using assms(3) ss_invD(3) [OF assms(2), of n] that by (auto simp: from_entry_def ss_entry_ok_def split: option.splits)
  then have f: "pool_ok (fwPool f)" "ipBytes a = hostIP" "ssForwarder svc \<noteq> None \<Longrightarrow> a = ssAddr svc"
    using Inr x by (auto simp: ss_forwarder_def newIPPort_def split: option.splits sum.splits)
  have only: "announced (svServices st) (n, b) = None" if "b \<noteq> a" for b
    using ss_not_announced [OF assms(3), of b] f(3) that by (cases "ssForwarder svc = None") auto
  let ?f = "SetForwarderInstances ord (evClock env l) (ssInstances svc) f"
  let ?svc = "svc\<lparr>ssForwarder := Some ?f, ssAddr := a\<rparr>"
  have st': "svServices ?st' = (svServices st)(n \<mapsto> ?svc)"
    "svCalls ?st' = svCalls st @ [AddIngress n a \<lparr>Weight = int (card (dom (ssInstances svc)))\<rparr>]"
    using d ne Inr x by (auto simp: ss_updateService_def Let_def)
  have "replay_calls (svCalls ?st') = announced ((svServices st)(n \<mapsto> ?svc))"
    using ss_invD(1) [OF assms(2)] only by (auto simp: st'(2) announced_put announced_entry replay_call_def fun_eq_iff)
  moreover have "ss_entry_ok hostIP ?svc"
    using d ne f(2) assms(4) SetForwarderInstances_ok [OF assms(1,4) f(1)] by (simp add: ss_entry_ok_def)
  ultimately have "ss_inv hostIP ?st'" using ss_inv_put [OF assms(2) st'(1)] by auto
  then show ?thesis using st'(1) unfolding ss_updated_def by (intro conjI exI [of _ "Some ?svc"]) auto
qed

lemma ss_updateService_ok:
  fixes env :: ss_env and l :: "string list"
  assumes "ordering_ok ord" and "ss_inv hostIP st" and "from_entry st n svc" and "finite (dom (ssInstances svc))"
  defines "st' \<equiv> ss_updateService ord env l hostIP n svc st"
  shows "ss_inv hostIP st'" and "ss_view st' = (ss_view st)(n := (ssService svc, ssInstances svc))"
    and "\<exists>x. svServices st' = (svServices st)(n := x) \<and> (\<forall>svc'. x = Some svc' \<longrightarrow>
      ssService svc' = ssService svc \<and> ssInstances svc' = ssInstances svc \<and>
      ((\<exists>port. evListen env l = Inr port) \<and> ssService svc \<noteq> None \<and> ssInstances svc \<noteq> Map.empty \<longrightarrow> ssForwarder svc' \<noteq> None))"
proof -
  have goal: "ss_updated env l hostIP n svc st st'"
  proof (cases "ssService svc = None \<or> ssInstances svc = Map.empty")
    case True
    show ?thesis unfolding st'_def by (rule ss_updateService_withdraws [OF assms(2-4) True])
  next
    case False
    then obtain d where "ssService svc = Some d" and "ssInstances svc \<noteq> Map.empty" by auto
    then show ?thesis unfolding st'_def by (rule ss_updateService_forwards [OF assms(1-4)])
  qed
  then show "ss_inv hostIP st'" by (simp add: ss_updated_def)
  show "ss_view st' = (ss_view st)(n := (ssService svc, ssInstances svc))"
    using goal by (auto simp: ss_updated_def ss_view_def fun_eq_iff split: option.splits)
  show "\<exists>x. svServices st' = (svServices st)(n := x) \<and> (\<forall>svc'. x = Some svc' \<longrightarrow>
      ssService svc' = ssService svc \<and> ssInstances svc' = ssInstances svc \<and>
      ((\<exists>port. evListen env l = Inr port) \<and> ssService svc \<noteq> None \<and> ssInstances svc \<noteq> Map.empty \<longrightarrow> ssForwarder svc' \<noteq> None))"
    using goal by (auto simp: ss_updated_def)
qed

section \<open>The handlers\<close>

text \<open>A loop that changes a view of the state key by key.\<close>

lemma for_keys_view:
  assumes "distinct ks" and "P s"
    and "\<And>k v s. P s \<Longrightarrow> k \<in> set ks \<Longrightarrow> get s k = Some v \<Longrightarrow> P (f k v s) \<and> V (f k v s) = (V s)(k := G k (V s k))"
    and "\<And>k s. P s \<Longrightarrow> k \<in> set ks \<Longrightarrow> get s k = None \<Longrightarrow> G k (V s k) = V s k"
  shows "P (for_keys get f ks s) \<and> (\<forall>k. V (for_keys get f ks s) k = (if k \<in> set ks then G k (V s k) else V s k))"
proof -
  have "P (for_keys get f ks s) \<and> V (for_keys get f ks s) = (\<lambda>k. if k \<in> set ks then G k (V s k) else V s k)"
  proof (rule for_keys_visited [where P = "\<lambda>D t. P t \<and> V t = (\<lambda>k. if k \<in> D then G k (V s k) else V s k)", OF _ _ _ assms(1)])
    show "P s \<and> V s = (\<lambda>k. if k \<in> {} then G k (V s k) else V s k)" using assms(2) by simp
  next
    fix k v t D assume "P t \<and> V t = (\<lambda>k. if k \<in> D then G k (V s k) else V s k)" "k \<in> set ks" "k \<notin> D" "get t k = Some v"
    then show "P (f k v t) \<and> V (f k v t) = (\<lambda>k'. if k' \<in> insert k D then G k' (V s k') else V s k')"
      using assms(3) [of t k v] by (auto simp: fun_eq_iff)
  next
    fix k t D assume "P t \<and> V t = (\<lambda>k. if k \<in> D then G k (V s k) else V s k)" "k \<in> set ks" "k \<notin> D" "get t k = None"
    then show "P t \<and> V t = (\<lambda>k'. if k' \<in> insert k D then G k' (V s k') else V s k')"
      using assms(4) [of t k] by (auto simp: fun_eq_iff)
  qed
  then show ?thesis by simp
qed

definition listens :: "ss_env \<Rightarrow> bool" where
  "listens env \<longleftrightarrow> (\<forall>l. \<exists>port. evListen env l = Inr port)"

definition ss_served :: "server_side \<Rightarrow> bool" where
  "ss_served st \<longleftrightarrow> (\<forall>n svc. svServices st n = Some svc \<longrightarrow> ssService svc \<noteq> None \<longrightarrow> ssInstances svc \<noteq> Map.empty \<longrightarrow>
     ssForwarder svc \<noteq> None)"

text \<open>With \<open>ok\<close>, every listening socket could be opened so far.\<close>

definition ss_good :: "bool \<Rightarrow> ip \<Rightarrow> server_side \<Rightarrow> bool" where
  "ss_good ok hostIP st \<longleftrightarrow> ss_inv hostIP st \<and> (ok \<longrightarrow> ss_served st)"

lemma ss_update_good:
  assumes "ordering_ok ord" and "ss_good ok hostIP st" and "from_entry st n svc" and "finite (dom (ssInstances svc))"
    and "ok \<longrightarrow> listens env"
  shows "ss_good ok hostIP (ss_updateService ord env l hostIP n svc st)"
    and "ss_view (ss_updateService ord env l hostIP n svc st) = (ss_view st)(n := (ssService svc, ssInstances svc))"
proof -
  have inv: "ss_inv hostIP st" using assms(2) by (simp add: ss_good_def)
  note u = ss_updateService_ok [OF assms(1) inv assms(3,4), of env l]
  obtain x where x: "svServices (ss_updateService ord env l hostIP n svc st) = (svServices st)(n := x)"
    "\<forall>svc'. x = Some svc' \<longrightarrow> ssService svc' = ssService svc \<and> ssInstances svc' = ssInstances svc \<and>
      ((\<exists>port. evListen env l = Inr port) \<and> ssService svc \<noteq> None \<and> ssInstances svc \<noteq> Map.empty \<longrightarrow> ssForwarder svc' \<noteq> None)"
    using u(3) by blast
  show "ss_good ok hostIP (ss_updateService ord env l hostIP n svc st)"
    unfolding ss_good_def ss_served_def
  proof (intro conjI impI allI)
    show "ss_inv hostIP (ss_updateService ord env l hostIP n svc st)" by (rule u(1))
  next
    fix m s
    assume ok: ok and s: "svServices (ss_updateService ord env l hostIP n svc st) m = Some s"
      and ne: "ssService s \<noteq> None" "ssInstances s \<noteq> Map.empty"
    show "ssForwarder s \<noteq> None"
    proof (cases "m = n")
      case True
      then have "x = Some s" using s x(1) by simp
      moreover have "\<exists>port. evListen env l = Inr port" using ok assms(5) by (simp add: listens_def)
      ultimately show ?thesis using x(2) ne by metis
    next
      case False
      then show ?thesis using s x(1) ne assms(2) ok by (simp add: ss_good_def ss_served_def)
    qed
  qed
  show "ss_view (ss_updateService ord env l hostIP n svc st) = (ss_view st)(n := (ssService svc, ssInstances svc))"
    by (rule u(2))
qed

lemma ss_good_entry:
  "ss_good ok hostIP st \<Longrightarrow> svServices st n = Some svc \<Longrightarrow> finite (dom (ssInstances svc))"
  by (auto simp: ss_good_def ss_inv_def ss_entry_ok_def)

lemma ss_getService_ok:
  assumes "ss_getService n st = (svc, st1)" and "ss_good ok hostIP st"
  shows "ss_good ok hostIP st1" and "ss_view st1 = ss_view st" and "svServices st1 n = Some svc"
    and "ssService svc = fst (ss_view st n)" and "ssInstances svc = snd (ss_view st n)" and "finite (dom (ssInstances svc))"
proof -
  have "ss_good ok hostIP st1 \<and> ss_view st1 = ss_view st \<and> svServices st1 n = Some svc \<and>
      ssService svc = fst (ss_view st n) \<and> ssInstances svc = snd (ss_view st n)"
  proof (cases "svServices st n")
    case None
    let ?e = "\<lparr>ssService = None, ssForwarder = None, ssAddr = newIPPort [] 0, ssInstances = Map.empty\<rparr>"
    have e: "svc = ?e" "st1 = ss_put n (Some ?e) st" using assms(1) None by (auto simp: ss_getService_def Let_def)
    have "announced ((svServices st)(n \<mapsto> ?e)) = announced (svServices st)"
      using None by (auto simp: announced_def fun_eq_iff)
    then show ?thesis using assms(2) None
      by (auto simp: e ss_good_def ss_inv_def ss_served_def ss_view_def ss_entry_ok_def fun_eq_iff)
  next
    case (Some x)
    then show ?thesis using assms by (auto simp: ss_getService_def ss_view_def)
  qed
  then show "ss_good ok hostIP st1" "ss_view st1 = ss_view st" "svServices st1 n = Some svc"
    "ssService svc = fst (ss_view st n)" "ssInstances svc = snd (ss_view st n)" by blast+
  then show "finite (dom (ssInstances svc))" using ss_good_entry by blast
qed

lemma from_entry_same: "svServices st n = Some old \<Longrightarrow> ssForwarder svc = ssForwarder old \<Longrightarrow> ssAddr svc = ssAddr old \<Longrightarrow>
    from_entry st n svc"
  by (simp add: from_entry_def)

lemma ss_good_finite: "ss_good ok hostIP st \<Longrightarrow> finite (dom (svServices st))"
  by (simp add: ss_good_def ss_inv_def)

text \<open>Changing the instances or the details of a service that is looked up, or made, first.\<close>

lemma ss_set_inputs:
  assumes "ordering_ok ord" and "ss_good ok hostIP st" and "ok \<longrightarrow> listens env"
    and "ss_getService n st = (svc, st1)"
  shows "ss_good ok hostIP (ss_updateService ord env l hostIP n (svc\<lparr>ssService := s\<rparr>) st1)"
    and "ss_view (ss_updateService ord env l hostIP n (svc\<lparr>ssService := s\<rparr>) st1) = (ss_view st)(n := (s, snd (ss_view st n)))"
    and "finite (dom m) \<Longrightarrow> ss_good ok hostIP (ss_updateService ord env l hostIP n (svc\<lparr>ssInstances := m\<rparr>) st1)"
    and "finite (dom m) \<Longrightarrow>
      ss_view (ss_updateService ord env l hostIP n (svc\<lparr>ssInstances := m\<rparr>) st1) = (ss_view st)(n := (fst (ss_view st n), m))"
proof -
  note g = ss_getService_ok [OF assms(4,2)]
  have f: "from_entry st1 n (svc\<lparr>ssService := s\<rparr>)" "from_entry st1 n (svc\<lparr>ssInstances := m\<rparr>)"
    by (rule from_entry_same [OF g(3)]; simp)+
  show "ss_good ok hostIP (ss_updateService ord env l hostIP n (svc\<lparr>ssService := s\<rparr>) st1)"
    "ss_view (ss_updateService ord env l hostIP n (svc\<lparr>ssService := s\<rparr>) st1) = (ss_view st)(n := (s, snd (ss_view st n)))"
    using ss_update_good [OF assms(1) g(1) f(1) _ assms(3), of l] g(2,5,6) by simp_all
  show "finite (dom m) \<Longrightarrow> ss_good ok hostIP (ss_updateService ord env l hostIP n (svc\<lparr>ssInstances := m\<rparr>) st1)"
    "finite (dom m) \<Longrightarrow>
      ss_view (ss_updateService ord env l hostIP n (svc\<lparr>ssInstances := m\<rparr>) st1) = (ss_view st)(n := (fst (ss_view st n), m))"
    using ss_update_good [OF assms(1) g(1) f(2) _ assms(3), of l] g(2,4) by simp_all
qed

section \<open>What the updates say\<close>

definition spec_services :: "service_update \<Rightarrow> (string \<Rightarrow> service option) \<Rightarrow> string \<Rightarrow> service option" where
  "spec_services u S =
     (\<lambda>n. case suServices u n of
        Some x \<Rightarrow> map_option service.truncate x
      | None \<Rightarrow> if suReset u then None else S n)"

text \<open>An instance without an address is left out of a reset and ignored in an update.\<close>

definition spec_instances :: "instance_update \<Rightarrow> (string \<Rightarrow> string \<rightharpoonup> ipport) \<Rightarrow> string \<Rightarrow> string \<rightharpoonup> ipport" where
  "spec_instances u I =
     (\<lambda>n i. case iuInstances u (n, i) of
        None \<Rightarrow> if iuReset u then None else I n i
      | Some None \<Rightarrow> None
      | Some (Some x) \<Rightarrow>
          (case instAddress x of None \<Rightarrow> if iuReset u then None else I n i | Some a \<Rightarrow> Some a))"

lemma ss_processServiceUpdate_ok:
  assumes "ordering_ok ord" and "ss_good ok hostIP st" and "ok \<longrightarrow> listens env" and "finite (dom (suServices u))"
  shows "ss_good ok hostIP (ss_processServiceUpdate ord env hostIP u st)"
    and "ss_view (ss_processServiceUpdate ord env hostIP u st)
      = (\<lambda>n. (spec_services u (\<lambda>n. fst (ss_view st n)) n, snd (ss_view st n)))"
proof -
  let ?f = "\<lambda>n x st. case ss_getService n st of (svc, st) \<Rightarrow>
    ss_updateService ord env [''service'', n] hostIP n (svc\<lparr>ssService := map_option service.truncate x\<rparr>) st"
  let ?ks = "ord [''update.Services''] (dom (suServices u))"
  let ?G = "\<lambda>n w. case suServices u n of None \<Rightarrow> w | Some x \<Rightarrow> (map_option service.truncate x, snd w)"
  define st1 where "st1 = for_keys (\<lambda>_. suServices u) ?f ?ks st"
  have "ss_good ok hostIP st1 \<and> (\<forall>n. ss_view st1 n = (if n \<in> set ?ks then ?G n (ss_view st n) else ss_view st n))"
    unfolding st1_def
  proof (rule for_keys_view [where G = ?G])
    show "distinct ?ks" using assms(1,4) by simp
    show "ss_good ok hostIP st" by (rule assms(2))
    fix n x t assume t: "ss_good ok hostIP t" "suServices u n = Some x"
    obtain svc t1 where g: "ss_getService n t = (svc, t1)" by fastforce
    show "ss_good ok hostIP (?f n x t) \<and> ss_view (?f n x t) = (ss_view t)(n := ?G n (ss_view t n))"
      using ss_set_inputs(1,2) [OF assms(1) t(1) assms(3) g] t(2) g by simp
  qed simp
  moreover have "set ?ks = dom (suServices u)" using assms(1,4) by simp
  ultimately have st1: "ss_good ok hostIP st1" "ss_view st1 n = ?G n (ss_view st n)" for n
    by (auto split: option.split)
  let ?h = "\<lambda>n svc st. if (case suServices u n of Some (Some _) \<Rightarrow> False | _ \<Rightarrow> True)
    then ss_updateService ord env [''reset'', n] hostIP n (svc\<lparr>ssService := None\<rparr>) st else st"
  let ?js = "ord [''ss.services''] (dom (svServices st1))"
  let ?H = "\<lambda>n w. if (case suServices u n of Some (Some _) \<Rightarrow> False | _ \<Rightarrow> True) then (None, snd w) else w"
  define st2 where "st2 = for_keys svServices ?h ?js st1"
  have v: "ss_good ok hostIP st2 \<and> (\<forall>n. ss_view st2 n = (if n \<in> set ?js then ?H n (ss_view st1 n) else ss_view st1 n))"
    unfolding st2_def
  proof (rule for_keys_view [where G = ?H])
    show "distinct ?js" using assms(1) ss_good_finite [OF st1(1)] by simp
    show "ss_good ok hostIP st1" by (rule st1(1))
    fix n svc t assume t: "ss_good ok hostIP t" "svServices t n = Some svc"
    have "from_entry t n (svc\<lparr>ssService := None\<rparr>)" by (rule from_entry_same [OF t(2)]) simp_all
    from ss_update_good [OF assms(1) t(1) this _ assms(3), of "[''reset'', n]"] ss_good_entry [OF t]
    show "ss_good ok hostIP (?h n svc t) \<and> ss_view (?h n svc t) = (ss_view t)(n := ?H n (ss_view t n))"
      using t by (auto simp: ss_view_def fun_eq_iff)
  next
    fix n and t :: server_side assume "svServices t n = None"
    then show "?H n (ss_view t n) = ss_view t n" by (simp add: ss_view_def)
  qed
  have js: "set ?js = dom (svServices st1)" using assms(1) ss_good_finite [OF st1(1)] by simp
  have out: "?H n (ss_view st1 n) = ss_view st1 n" if "n \<notin> dom (svServices st1)" for n
    using that by (simp add: ss_view_def dom_def)
  have st2: "ss_good ok hostIP st2" "ss_view st2 n = ?H n (ss_view st1 n)" for n
    using v out [of n] by (cases "n \<in> dom (svServices st1)"; simp only: js if_True if_False)+
  have p: "ss_processServiceUpdate ord env hostIP u st = (if suReset u then st2 else st1)"
    by (simp add: ss_processServiceUpdate_def st2_def st1_def Let_def)
  show "ss_good ok hostIP (ss_processServiceUpdate ord env hostIP u st)" using st1(1) st2(1) by (simp add: p)
  show "ss_view (ss_processServiceUpdate ord env hostIP u st)
      = (\<lambda>n. (spec_services u (\<lambda>n. fst (ss_view st n)) n, snd (ss_view st n)))"
  proof (rule ext)
    fix n show "ss_view (ss_processServiceUpdate ord env hostIP u st) n = (spec_services u (\<lambda>n. fst (ss_view st n)) n, snd (ss_view st n))"
      using st1(2) [of n] st2(2) [of n] by (auto simp: p spec_services_def split: option.splits)
  qed
qed

lemma ss_processInstanceUpdate_ok:
  assumes "ordering_ok ord" and "ordering_ok kord" and "ss_good ok hostIP st" and "ok \<longrightarrow> listens env"
    and "finite (dom (iuInstances u))" and "\<not> iuReset u"
  shows "ss_good ok hostIP (ss_processInstanceUpdate ord kord env hostIP u st)"
    and "ss_view (ss_processInstanceUpdate ord kord env hostIP u st)
      = (\<lambda>n. (fst (ss_view st n), spec_instances u (\<lambda>n. snd (ss_view st n)) n))"
proof -
  let ?ks = "kord [''update.Instances''] (dom (iuInstances u))"
  let ?V = "\<lambda>s key. snd (ss_view s (fst key)) (snd key)"
  let ?P = "\<lambda>s. ss_good ok hostIP s \<and> (\<forall>n. fst (ss_view s n) = fst (ss_view st n))"
  let ?G = "\<lambda>key w. case iuInstances u key of
      None \<Rightarrow> w | Some None \<Rightarrow> None | Some (Some i) \<Rightarrow> (case instAddress i of None \<Rightarrow> w | Some a \<Rightarrow> Some a)"
  let ?st' = "ss_processInstanceUpdate ord kord env hostIP u st"
  have "?P ?st' \<and> (\<forall>key. ?V ?st' key = (if key \<in> set ?ks then ?G key (?V st key) else ?V st key))"
    unfolding ss_processInstanceUpdate_def
  proof (rule for_keys_view [where G = ?G])
    show "distinct ?ks" using assms(2,5) by simp
    show "?P st" using assms(3) by simp
    fix key inst t assume t: "?P t" "iuInstances u key = Some inst"
    obtain svc t1 where g: "ss_getService (fst key) t = (svc, t1)" by fastforce
    note s = ss_set_inputs(3,4) [OF assms(1) _ assms(4) g, where l = "[''instance'', fst key, snd key]"]
    note e = ss_getService_ok [OF g, of ok hostIP]
    have fin: "finite (dom ((ssInstances svc)(snd key := x)))" for x using e(6) t(1) by simp
    have view: "ssInstances svc = snd (ss_view t (fst key))" using e(5) t(1) by simp
    have u: "?P (ss_updateService ord env [''instance'', fst key, snd key] hostIP (fst key)
          (svc\<lparr>ssInstances := (ssInstances svc)(snd key := x)\<rparr>) t1) \<and>
        ?V (ss_updateService ord env [''instance'', fst key, snd key] hostIP (fst key)
          (svc\<lparr>ssInstances := (ssInstances svc)(snd key := x)\<rparr>) t1) = (?V t)(key := x)" for x
      using s [OF _ fin [of x], of hostIP] t(1) by (cases key) (simp add: view fun_eq_iff)
    have same: "?P t1 \<and> ?V t1 = (?V t)(key := snd (ss_view t (fst key)) (snd key))"
      using e(1,2) t(1) by (cases key) (simp add: fun_eq_iff)
    show "?P (case ss_getService (fst key) t of (svc, st) \<Rightarrow>
          (case inst of
             None \<Rightarrow> ss_updateService ord env [''instance'', fst key, snd key] hostIP (fst key)
               (svc\<lparr>ssInstances := (ssInstances svc)(snd key := None)\<rparr>) st
           | Some i \<Rightarrow>
               (case instAddress i of
                  None \<Rightarrow> st
                | Some a \<Rightarrow> ss_updateService ord env [''instance'', fst key, snd key] hostIP (fst key)
                    (svc\<lparr>ssInstances := (ssInstances svc)(snd key \<mapsto> a)\<rparr>) st))) \<and>
        ?V (case ss_getService (fst key) t of (svc, st) \<Rightarrow>
          (case inst of
             None \<Rightarrow> ss_updateService ord env [''instance'', fst key, snd key] hostIP (fst key)
               (svc\<lparr>ssInstances := (ssInstances svc)(snd key := None)\<rparr>) st
           | Some i \<Rightarrow>
               (case instAddress i of
                  None \<Rightarrow> st
                | Some a \<Rightarrow> ss_updateService ord env [''instance'', fst key, snd key] hostIP (fst key)
                    (svc\<lparr>ssInstances := (ssInstances svc)(snd key \<mapsto> a)\<rparr>) st)))
        = (?V t)(key := ?G key (?V t key))"
      using u [of None] u same t(2) g by (simp split: option.split)
  qed simp
  moreover have "set ?ks = dom (iuInstances u)" using assms(2,5) by simp
  ultimately have r: "?P ?st'" "?V ?st' key = ?G key (?V st key)" for key by (auto split: option.split)
  show "ss_good ok hostIP ?st'" using r(1) by simp
  show "ss_view ?st' = (\<lambda>n. (fst (ss_view st n), spec_instances u (\<lambda>n. snd (ss_view st n)) n))"
  proof (rule ext)
    fix n
    have "snd (ss_view ?st' n) i = spec_instances u (\<lambda>n. snd (ss_view st n)) n i" for i
      using r(2) [of "(n, i)"] assms(6) by (auto simp: spec_instances_def split: option.splits)
    then show "ss_view ?st' n = (fst (ss_view st n), spec_instances u (\<lambda>n. snd (ss_view st n)) n)"
      using r(1) by (intro prod_eqI) auto
  qed
qed

text \<open>The instances of a reset, as a function of the keys.\<close>

definition of_reset :: "(string \<rightharpoonup> (string \<rightharpoonup> ipport)) \<Rightarrow> string \<Rightarrow> string \<rightharpoonup> ipport" where
  "of_reset svcs n = (case svcs n of None \<Rightarrow> Map.empty | Some m \<Rightarrow> m)"

lemma reset_instances_ok:
  assumes "ordering_ok kord" and "finite (dom (iuInstances u))" and "iuReset u"
    and "\<forall>key. iuInstances u key \<noteq> Some None"
  shows "\<exists>svcs. reset_instances kord u = Some svcs \<and> of_reset svcs = spec_instances u I \<and>
    finite (dom svcs) \<and> (\<forall>n m. svcs n = Some m \<longrightarrow> finite (dom m))"
proof -
  let ?ks = "kord [''update.Instances''] (dom (iuInstances u))"
  let ?f = "\<lambda>key inst svcs. case inst of None \<Rightarrow> None
    | Some i \<Rightarrow> (case instAddress i of None \<Rightarrow> Some svcs
        | Some a \<Rightarrow> let insts = (case svcs (fst key) of None \<Rightarrow> Map.empty | Some m \<Rightarrow> m)
                   in Some (svcs(fst key \<mapsto> insts(snd key \<mapsto> a))))"
  let ?F = "\<lambda>svcs. finite (dom svcs) \<and> (\<forall>n m. svcs n = Some m \<longrightarrow> finite (dom m))"
  let ?A = "\<lambda>D n i. if (n, i) \<in> D then spec_instances u I n i else None"
  have ks: "set ?ks = dom (iuInstances u)" "distinct ?ks" using assms(1,2) by simp_all
  have "\<exists>svcs. for_keysM (\<lambda>_. iuInstances u) ?f ?ks Map.empty = Some svcs \<and> ?F svcs"
  proof (rule for_keysM_total)
    fix key inst and s :: "string \<rightharpoonup> (string \<rightharpoonup> ipport)"
    assume "iuInstances u key = Some inst" and s: "?F s"
    then obtain i where "inst = Some i" using assms(4) by (metis not_None_eq)
    then show "\<exists>s'. ?f key inst s = Some s' \<and> ?F s'" using s by (auto simp: Let_def split: option.splits)
  qed simp
  then obtain svcs where svcs: "for_keysM (\<lambda>_. iuInstances u) ?f ?ks Map.empty = Some svcs" "?F svcs" by blast
  have "of_reset svcs = ?A (set ?ks)"
  proof (rule for_keysM_visited [where P = "\<lambda>D svcs. of_reset svcs = ?A D", OF svcs(1) _ _ _ ks(2)])
    show "of_reset Map.empty = ?A {}" by (simp add: of_reset_def fun_eq_iff)
  next
    fix key inst s s' D
    assume s: "of_reset s = ?A D" "key \<in> set ?ks" "key \<notin> D" "iuInstances u key = Some inst" "?f key inst s = Some s'"
    obtain i where i: "inst = Some i" using assms(4) s(4) by (metis not_None_eq)
    have val: "spec_instances u I (fst key) (snd key) = instAddress i"
      using s(4) i assms(3) by (simp add: spec_instances_def split: option.split)
    have here: "of_reset s (fst key) (snd key) = None" using s(1,3) by simp
    have "of_reset s' n j = (if (n, j) = key then instAddress i else of_reset s n j)" for n j
    proof (cases "instAddress i")
      case None
      then have "s' = s" using s(5) i by simp
      then show ?thesis using None here by auto
    next
      case (Some a)
      then have "s' = s(fst key \<mapsto> (of_reset s (fst key))(snd key \<mapsto> a))"
        using s(5) i by (simp add: of_reset_def Let_def)
      then show ?thesis using Some by (cases key; cases "n = fst key") (simp_all add: of_reset_def)
    qed
    then show "of_reset s' = ?A (insert key D)" using val s(1) by (cases key) (simp add: fun_eq_iff)
  qed (use ks(1) in auto)
  also have "?A (set ?ks) = spec_instances u I"
    using assms(3) by (auto simp: ks spec_instances_def fun_eq_iff split: option.splits)
  finally show ?thesis using svcs by (auto simp: reset_instances_def)
qed

lemma ss_processInstanceReset_ok:
  assumes "ordering_ok ord" and "ordering_ok kord" and "ss_good ok hostIP st" and "ok \<longrightarrow> listens env"
    and "finite (dom (iuInstances u))" and "iuReset u" and "\<forall>key. iuInstances u key \<noteq> Some None"
  shows "\<exists>st'. ss_processInstanceReset ord kord env hostIP u st = Some st' \<and> ss_good ok hostIP st' \<and>
    ss_view st' = (\<lambda>n. (fst (ss_view st n), spec_instances u (\<lambda>n. snd (ss_view st n)) n))"
proof -
  obtain svcs where svcs: "reset_instances kord u = Some svcs" "of_reset svcs = spec_instances u (\<lambda>n. snd (ss_view st n))"
    "finite (dom svcs)" "\<And>n m. svcs n = Some m \<Longrightarrow> finite (dom m)"
    using reset_instances_ok [OF assms(2,5,6,7)] by blast
  let ?f = "\<lambda>n m st. case ss_getService n st of (svc, st) \<Rightarrow>
    ss_updateService ord env [''instances'', n] hostIP n (svc\<lparr>ssInstances := m\<rparr>) st"
  let ?ks = "ord [''svcs''] (dom svcs)"
  let ?G = "\<lambda>n w. case svcs n of None \<Rightarrow> w | Some m \<Rightarrow> (fst w, m)"
  define st1 where "st1 = for_keys (\<lambda>_. svcs) ?f ?ks st"
  have "ss_good ok hostIP st1 \<and> (\<forall>n. ss_view st1 n = (if n \<in> set ?ks then ?G n (ss_view st n) else ss_view st n))"
    unfolding st1_def
  proof (rule for_keys_view [where G = ?G])
    show "distinct ?ks" using assms(1) svcs(3) by simp
    show "ss_good ok hostIP st" by (rule assms(3))
    fix n m t assume t: "ss_good ok hostIP t" "svcs n = Some m"
    obtain svc t1 where g: "ss_getService n t = (svc, t1)" by fastforce
    show "ss_good ok hostIP (?f n m t) \<and> ss_view (?f n m t) = (ss_view t)(n := ?G n (ss_view t n))"
      using ss_set_inputs(3,4) [OF assms(1) t(1) assms(4) g svcs(4) [OF t(2)]] t(2) g by simp
  qed simp
  moreover have "set ?ks = dom svcs" using assms(1) svcs(3) by simp
  ultimately have st1: "ss_good ok hostIP st1" "ss_view st1 n = ?G n (ss_view st n)" for n
    by (auto split: option.split)
  let ?h = "\<lambda>n svc st. if svcs n = None
    then ss_updateService ord env [''empty'', n] hostIP n (svc\<lparr>ssInstances := Map.empty\<rparr>) st else st"
  let ?js = "ord [''ss.services''] (dom (svServices st1))"
  let ?H = "\<lambda>n w. if svcs n = None then (fst w, Map.empty) else w"
  define st2 where "st2 = for_keys svServices ?h ?js st1"
  have v: "ss_good ok hostIP st2 \<and> (\<forall>n. ss_view st2 n = (if n \<in> set ?js then ?H n (ss_view st1 n) else ss_view st1 n))"
    unfolding st2_def
  proof (rule for_keys_view [where G = ?H])
    show "distinct ?js" using assms(1) ss_good_finite [OF st1(1)] by simp
    show "ss_good ok hostIP st1" by (rule st1(1))
    fix n svc t assume t: "ss_good ok hostIP t" "svServices t n = Some svc"
    have "from_entry t n (svc\<lparr>ssInstances := Map.empty\<rparr>)" by (rule from_entry_same [OF t(2)]) simp_all
    from ss_update_good [OF assms(1) t(1) this _ assms(4), of "[''empty'', n]"]
    show "ss_good ok hostIP (?h n svc t) \<and> ss_view (?h n svc t) = (ss_view t)(n := ?H n (ss_view t n))"
      using t by (auto simp: ss_view_def fun_eq_iff)
  next
    fix n and t :: server_side assume "svServices t n = None"
    then show "?H n (ss_view t n) = ss_view t n" by (simp add: ss_view_def)
  qed
  have js: "set ?js = dom (svServices st1)" using assms(1) ss_good_finite [OF st1(1)] by simp
  have out: "?H n (ss_view st1 n) = ss_view st1 n" if "n \<notin> dom (svServices st1)" for n
    using that by (simp add: ss_view_def dom_def)
  have st2: "ss_good ok hostIP st2" "ss_view st2 n = ?H n (ss_view st1 n)" for n
    using v out [of n] by (cases "n \<in> dom (svServices st1)"; simp only: js if_True if_False)+
  have "ss_processInstanceReset ord kord env hostIP u st = Some st2"
    by (simp add: ss_processInstanceReset_def svcs(1) st2_def st1_def Let_def)
  moreover have "ss_view st2 n = (fst (ss_view st n), spec_instances u (\<lambda>n. snd (ss_view st n)) n)" for n
    using st2(2) [of n] st1(2) [of n] fun_cong [OF svcs(2), of n] by (auto simp: of_reset_def split: option.splits)
  ultimately show ?thesis using st2(1) by auto
qed

section \<open>A run\<close>

definition ss_event_ok :: "ss_event \<Rightarrow> bool" where
  "ss_event_ok ev \<longleftrightarrow>
     (case ev of
        ServicesChanged u \<Rightarrow> finite (dom (suServices u))
      | InstancesChanged u \<Rightarrow> finite (dom (iuInstances u)) \<and> (iuReset u \<longrightarrow> (\<forall>key. iuInstances u key \<noteq> Some None)))"

definition spec_event :: "ss_event \<Rightarrow> (string \<Rightarrow> service option) \<times> (string \<Rightarrow> string \<rightharpoonup> ipport) \<Rightarrow>
    (string \<Rightarrow> service option) \<times> (string \<Rightarrow> string \<rightharpoonup> ipport)" where
  "spec_event ev x =
     (case ev of
        ServicesChanged u \<Rightarrow> (spec_services u (fst x), snd x)
      | InstancesChanged u \<Rightarrow> (fst x, spec_instances u (snd x)))"

definition ss_inputs :: "server_side \<Rightarrow> (string \<Rightarrow> service option) \<times> (string \<Rightarrow> string \<rightharpoonup> ipport)" where
  "ss_inputs st = (\<lambda>n. fst (ss_view st n), \<lambda>n. snd (ss_view st n))"

lemma ss_step_ok:
  assumes "ordering_ok ord" and "ordering_ok kord" and "ss_good ok hostIP st" and "ok \<longrightarrow> listens env" and "ss_event_ok ev"
  shows "\<exists>st'. ss_step ord kord env hostIP ev st = Some st' \<and> ss_good ok hostIP st' \<and>
    ss_inputs st' = spec_event ev (ss_inputs st)"
proof (cases ev)
  case (ServicesChanged u)
  then show ?thesis using ss_processServiceUpdate_ok [OF assms(1,3,4), of u] assms(5)
    by (simp add: ss_step_def ss_event_ok_def spec_event_def ss_inputs_def)
next
  case (InstancesChanged u)
  then have u: "finite (dom (iuInstances u))" "iuReset u \<Longrightarrow> \<forall>key. iuInstances u key \<noteq> Some None"
    using assms(5) by (simp_all add: ss_event_ok_def)
  show ?thesis
  proof (cases "iuReset u")
    case True
    then show ?thesis using ss_processInstanceReset_ok [OF assms(1-4) u(1) True u(2)] InstancesChanged
      by (auto simp: ss_step_def spec_event_def ss_inputs_def)
  next
    case False
    then show ?thesis using ss_processInstanceUpdate_ok [OF assms(1-4) u(1) False] InstancesChanged
      by (simp add: ss_step_def spec_event_def ss_inputs_def)
  qed
qed

lemma ss_run_ok:
  assumes "ordering_ok ord" and "ordering_ok kord" and "ss_good ok hostIP st"
    and "\<forall>(env, ev) \<in> set evs. ss_event_ok ev \<and> (ok \<longrightarrow> listens env)"
  shows "\<exists>st'. ss_run ord kord hostIP evs st = Some st' \<and> ss_good ok hostIP st' \<and>
    ss_inputs st' = fold spec_event (List.map snd evs) (ss_inputs st)"
  using assms(3,4)
proof (induction evs arbitrary: st)
  case (Cons e evs)
  obtain env ev where e: "e = (env, ev)" by fastforce
  obtain st1 where st1: "ss_step ord kord env hostIP ev st = Some st1" "ss_good ok hostIP st1"
    "ss_inputs st1 = spec_event ev (ss_inputs st)"
    using ss_step_ok [OF assms(1,2) Cons.prems(1)] Cons.prems(2) e by (metis case_prodD list.set_intros(1))
  from Cons.IH [OF st1(2)] Cons.prems(2) st1(1,3) show ?case by (simp add: e)
qed simp

lemma ss_start_good: "ss_good ok hostIP ss_start"
  by (auto simp: ss_good_def ss_inv_def ss_served_def ss_start_def replay_calls_def announced_def fun_eq_iff)

lemma ss_start_inputs: "ss_inputs ss_start = (\<lambda>_. None, \<lambda>_. Map.empty)"
  by (simp add: ss_inputs_def ss_view_def ss_start_def)

end
