(* ===== verification/ServerSideProps.thy ===== *)
theory ServerSideProps
  imports ServerSideCorrect
begin

text \<open>
  The properties of the server-side balancer: after any updates its announcements are what the
  updates call for, and an instance that loses its address is not noticed.
\<close>

text \<open>
  In a good state the replayed announcements are those of the inputs of the table: at most one
  address per service, for the services defined and with instances.
\<close>

lemma ss_good_announces:
  assumes "ss_good ok hostIP st"
  shows "replay_calls (svCalls st) (n, a) = Some w \<Longrightarrow>
      fst (ss_view st n) \<noteq> None \<and> snd (ss_view st n) \<noteq> Map.empty \<and> w = int (card (dom (snd (ss_view st n)))) \<and>
      ipBytes a = hostIP \<and> (\<forall>b. replay_calls (svCalls st) (n, b) \<noteq> None \<longrightarrow> b = a) \<and>
      (\<exists>svc f. svServices st n = Some svc \<and> ssForwarder svc = Some f \<and> pool_ok (fwPool f) \<and>
         member_names (fwPool f) = dom (snd (ss_view st n)))"
    and "ok \<Longrightarrow> fst (ss_view st n) \<noteq> None \<Longrightarrow> snd (ss_view st n) \<noteq> Map.empty \<Longrightarrow>
      \<exists>b. replay_calls (svCalls st) (n, b) \<noteq> None"
proof -
  have rep: "replay_calls (svCalls st) = announced (svServices st)" using assms by (simp add: ss_good_def ss_inv_def)
  have entry: "ss_entry_ok hostIP svc" if "svServices st n = Some svc" for svc
    using assms that by (simp add: ss_good_def ss_inv_def)
  {
    assume "replay_calls (svCalls st) (n, a) = Some w"
    then obtain svc f where svc: "svServices st n = Some svc" "ssForwarder svc = Some f" "a = ssAddr svc"
      "w = int (card (dom (ssInstances svc)))"
      unfolding rep by (auto simp: announced_def split: option.splits if_splits)
    have view: "ss_view st n = (ssService svc, ssInstances svc)" using svc(1) by (simp add: ss_view_def)
    have "\<forall>b. replay_calls (svCalls st) (n, b) \<noteq> None \<longrightarrow> b = a"
      using svc by (auto simp: rep announced_def split: if_splits)
    then show "fst (ss_view st n) \<noteq> None \<and> snd (ss_view st n) \<noteq> Map.empty \<and> w = int (card (dom (snd (ss_view st n)))) \<and>
      ipBytes a = hostIP \<and> (\<forall>b. replay_calls (svCalls st) (n, b) \<noteq> None \<longrightarrow> b = a) \<and>
      (\<exists>svc f. svServices st n = Some svc \<and> ssForwarder svc = Some f \<and> pool_ok (fwPool f) \<and>
         member_names (fwPool f) = dom (snd (ss_view st n)))"
      using entry [OF svc(1)] svc view by (auto simp: ss_entry_ok_def)
  }
  assume c: ok "fst (ss_view st n) \<noteq> None" "snd (ss_view st n) \<noteq> Map.empty"
  then obtain svc where svc: "svServices st n = Some svc" "ssService svc \<noteq> None" "ssInstances svc \<noteq> Map.empty"
    by (auto simp: ss_view_def split: option.splits)
  then have "ssForwarder svc \<noteq> None" using assms c(1) unfolding ss_good_def ss_served_def by blast
  then show "\<exists>b. replay_calls (svCalls st) (n, b) \<noteq> None" using svc(1) by (auto simp: rep announced_def)
qed


definition ss_demo_service :: service_info where
  "ss_demo_service = \<lparr>Address = None, InstancePort = 80, Protocol = ''http'',
     Instances = Map.empty, ContainerRules = Map.empty, IngressInstances = Map.empty\<rparr>"

definition ss_demo_inst :: "ipport option \<Rightarrow> inst" where
  "ss_demo_inst a = \<lparr>instHost = \<lparr>hostAddr = []\<rparr>, instContainerRule = ''r'', instAddress = a, instLabels = Map.empty\<rparr>"

definition ss_demo_events :: "ss_event list" where
  "ss_demo_events =
     [InstancesChanged \<lparr>iuInstances = [(''web'', ''a1'') \<mapsto> Some (ss_demo_inst (Some (newIPPort [] 80)))], iuReset = True\<rparr>,
      ServicesChanged \<lparr>suServices = [''web'' \<mapsto> Some ss_demo_service], suReset = True\<rparr>]"

definition ss_demo_env :: ss_env where
  "ss_demo_env = \<lparr>evListen = (\<lambda>_. Inr 40000), evStore = (\<lambda>_. None), evClock = (\<lambda>_. 0)\<rparr>"


text \<open>
  An update that takes the address of an instance away changes nothing: the forwarder goes on
  sending connections to the old address, where a reset with the same instance would have dropped
  it.
\<close>

theorem server_side_lost_address:
  assumes "ordering_ok ord" and "ordering_ok kord" and "\<forall>(env, ev) \<in> set evs. ss_event_ok ev"
    and "ss_run ord kord hostIP evs ss_start = Some st"
    and "finite (dom (iuInstances u))" and "\<forall>key. iuInstances u key \<noteq> Some None"
    and "iuInstances u (n, i) = Some (Some x)" and "instAddress x = None"
  shows "\<exists>st1 st2. ss_step ord kord env hostIP (InstancesChanged (u\<lparr>iuReset := False\<rparr>)) st = Some st1 \<and>
    snd (ss_view st1 n) i = snd (ss_view st n) i \<and>
    ss_step ord kord env hostIP (InstancesChanged (u\<lparr>iuReset := True\<rparr>)) st = Some st2 \<and>
    snd (ss_view st2 n) i = None"
proof -
  have ev: "ss_event_ok (InstancesChanged (u\<lparr>iuReset := b\<rparr>))" for b using assms(5,6) by (simp add: ss_event_ok_def)
  have "\<forall>(env, ev) \<in> set evs. ss_event_ok ev \<and> (False \<longrightarrow> listens env)" using assms(3) by blast
  from ss_run_ok [OF assms(1,2) ss_start_good this, of hostIP] assms(4) have good: "ss_good False hostIP st" by auto
  have step: "\<exists>st'. ss_step ord kord env hostIP (InstancesChanged (u\<lparr>iuReset := b\<rparr>)) st = Some st' \<and>
      snd (ss_view st' n) i = (if b then None else snd (ss_view st n) i)" for b
  proof -
    obtain st' where st': "ss_step ord kord env hostIP (InstancesChanged (u\<lparr>iuReset := b\<rparr>)) st = Some st'"
      "ss_inputs st' = spec_event (InstancesChanged (u\<lparr>iuReset := b\<rparr>)) (ss_inputs st)"
      using ss_step_ok [OF assms(1,2) good _ ev] by blast
    have "snd (ss_view st' n) i = snd (ss_inputs st') n i" by (simp add: ss_inputs_def)
    also have "\<dots> = (if b then None else snd (ss_view st n) i)"
      unfolding st'(2) using assms(7,8) by (simp add: spec_event_def spec_instances_def ss_inputs_def)
    finally show ?thesis using st'(1) by blast
  qed
  from step [of False] step [of True] show ?thesis by auto
qed

theorem server_side_lost_address_witness:
  "\<exists>st st1. ss_run sorted_ordering sorted_ordering [] (List.map (Pair ss_demo_env) ss_demo_events) ss_start = Some st \<and>
    ss_step sorted_ordering sorted_ordering ss_demo_env []
      (InstancesChanged \<lparr>iuInstances = [(''web'', ''a1'') \<mapsto> Some (ss_demo_inst None)], iuReset = False\<rparr>) st = Some st1 \<and>
    snd (ss_view st1 ''web'') ''a1'' = Some (newIPPort [] 80)"
proof -
  let ?evs = "List.map (Pair ss_demo_env) ss_demo_events"
  let ?u = "\<lparr>iuInstances = [(''web'', ''a1'') \<mapsto> Some (ss_demo_inst None)], iuReset = False\<rparr>"
  have ok: "\<forall>(env, ev) \<in> set ?evs. ss_event_ok ev" by (simp add: ss_demo_events_def ss_event_ok_def)
  then have "\<forall>(env, ev) \<in> set ?evs. ss_event_ok ev \<and> (False \<longrightarrow> listens env)" by blast
  from ss_run_ok [OF sorted_ordering_ok sorted_ordering_ok ss_start_good this, of "[]"] obtain st where
    st: "ss_run sorted_ordering sorted_ordering [] ?evs ss_start = Some st"
    "ss_inputs st = fold spec_event ss_demo_events (ss_inputs ss_start)" by (auto simp: comp_def)
  have "snd (ss_view st ''web'') ''a1'' = snd (ss_inputs st) ''web'' ''a1''" by (simp add: ss_inputs_def)
  also have "\<dots> = Some (newIPPort [] 80)" unfolding st(2) ss_start_inputs
    by (simp add: ss_demo_events_def spec_event_def spec_services_def spec_instances_def ss_demo_inst_def)
  finally have a1: "snd (ss_view st ''web'') ''a1'' = Some (newIPPort [] 80)" .
  have "\<exists>st1 st2. ss_step sorted_ordering sorted_ordering ss_demo_env [] (InstancesChanged (?u\<lparr>iuReset := False\<rparr>)) st = Some st1 \<and>
    snd (ss_view st1 ''web'') ''a1'' = snd (ss_view st ''web'') ''a1'' \<and>
    ss_step sorted_ordering sorted_ordering ss_demo_env [] (InstancesChanged (?u\<lparr>iuReset := True\<rparr>)) st = Some st2 \<and>
    snd (ss_view st2 ''web'') ''a1'' = None"
    by (rule server_side_lost_address [where x = "ss_demo_inst None", OF sorted_ordering_ok sorted_ordering_ok ok st(1)])
      (simp_all add: ss_demo_inst_def)
  then show ?thesis using st(1) a1 by auto
qed

text \<open>A running forwarder does not learn of a change of the protocol of its service.\<close>

lemma server_side_keeps_protocol:
  assumes "ssForwarder svc = Some f" and "ssService svc = Some details" and "ssInstances svc \<noteq> Map.empty"
  shows "\<exists>svc' f'. svServices (ss_updateService ord env l hostIP n svc st) n = Some svc' \<and>
    ssForwarder svc' = Some f' \<and> fwProtocol f' = fwProtocol f \<and> ssService svc' = Some details"
  using assms by (simp add: ss_updateService_def ss_forwarder_def Let_def SetForwarderInstances_def)

end
