(* ===== verification/DockerListener.thy ===== *)
theory DockerListener
  imports SyncInstances
begin

text \<open>
  The listener for Docker containers (\<open>agent/docker_listener.go\<close>): it hears events while it
  lists the running containers, passes the identities on through a buffer, and inspects the
  containers that started. Its three goroutines are three functions over the sequences of their
  inputs; stopping is the end of the input. What Docker answers is an argument.
\<close>

section \<open>Reading identities\<close>

record api_event =
  evStatus :: string
  evID :: string

record container_ids =
  cidContainers :: "string \<rightharpoonup> bool"
  cidReset :: bool

definition stream_closed :: string where
  "stream_closed = ''docker event stream closed''"

definition note_event :: "api_event \<Rightarrow> (string \<rightharpoonup> bool) \<Rightarrow> (string \<rightharpoonup> bool)" where
  "note_event ev containers =
     (if evStatus ev = ''start'' then containers(evID ev \<mapsto> True)
      else if evStatus ev = ''die'' then containers(evID ev \<mapsto> False)
      else containers)"

text \<open>The events heard until the listing is there; a nil event is the end of the stream.\<close>

fun read_while_listing :: "api_event option list \<Rightarrow> (string \<rightharpoonup> bool) \<Rightarrow> (string \<rightharpoonup> bool) option" where
  "read_while_listing [] containers = Some containers"
| "read_while_listing (None # evs) containers = None"
| "read_while_listing (Some ev # evs) containers = read_while_listing evs (note_event ev containers)"

definition add_listed :: "string list \<Rightarrow> (string \<rightharpoonup> bool) \<Rightarrow> (string \<rightharpoonup> bool)" where
  "add_listed listed containers =
     foldl (\<lambda>cs c. if cs c = None then cs(c \<mapsto> True) else cs) containers listed"

definition drop_dead :: "(string \<rightharpoonup> bool) \<Rightarrow> (string \<rightharpoonup> bool)" where
  "drop_dead containers = (\<lambda>c. if containers c = Some False then None else containers c)"

fun read_events :: "api_event option list \<Rightarrow> container_ids list \<times> string option" where
  "read_events [] = ([], None)"
| "read_events (None # evs) = ([], Some stream_closed)"
| "read_events (Some ev # evs) =
     (if evStatus ev = ''start'' \<or> evStatus ev = ''die'' then
        (case read_events evs of (out, err) \<Rightarrow>
           (\<lparr>cidContainers = [evID ev \<mapsto> evStatus ev = ''start''], cidReset = False\<rparr> # out, err))
      else read_events evs)"

definition readContainerIDs ::
  "api_event option list \<Rightarrow> string + string list \<Rightarrow> api_event option list \<Rightarrow> container_ids list \<times> string option" where
  "readContainerIDs early listing later =
     (case read_while_listing early Map.empty of
        None \<Rightarrow> ([], Some stream_closed)
      | Some containers \<Rightarrow>
          (case listing of
             Inl err \<Rightarrow> ([], Some err)
           | Inr listed \<Rightarrow>
               (case read_events later of (out, err) \<Rightarrow>
                  (\<lparr>cidContainers = drop_dead (add_listed listed containers), cidReset = True\<rparr> # out, err))))"

section \<open>The buffer\<close>

datatype buffer_event = Arrive container_ids | Deliver

definition buffer_step ::
  "buffer_event \<Rightarrow> container_ids list \<Rightarrow> (container_ids list \<times> container_ids list) option" where
  "buffer_step ev buf =
     (case ev of
        Arrive ids \<Rightarrow> Some ([], buf @ [ids])
      | Deliver \<Rightarrow> (case buf of [] \<Rightarrow> None | ids # rest \<Rightarrow> Some ([ids], rest)))"

fun bufferContainerIDs ::
  "buffer_event list \<Rightarrow> container_ids list \<Rightarrow> (container_ids list \<times> container_ids list) option" where
  "bufferContainerIDs [] buf = Some ([], buf)"
| "bufferContainerIDs (ev # evs) buf =
     (case buffer_step ev buf of
        None \<Rightarrow> None
      | Some (out, buf1) \<Rightarrow>
          (case bufferContainerIDs evs buf1 of
             None \<Rightarrow> None
           | Some (out', buf2) \<Rightarrow> Some (out @ out', buf2)))"

section \<open>Inspecting containers\<close>

datatype inspect_result = Details docker_container | NoSuchContainer | InspectFailed string

text \<open>The loop over the identities of an update: the announced containers and the update to send.\<close>

fun inspect_loop ::
  "(string \<Rightarrow> inspect_result) \<Rightarrow> (string \<rightharpoonup> bool) \<Rightarrow> string list \<Rightarrow>
     string set \<times> (string \<rightharpoonup> docker_container option) \<Rightarrow>
     string + (string set \<times> (string \<rightharpoonup> docker_container option))" where
  "inspect_loop insp ids [] x = Inr x"
| "inspect_loop insp ids (c # cs) (announced, out) =
     (case ids c of
        None \<Rightarrow> inspect_loop insp ids cs (announced, out)
      | Some started \<Rightarrow>
          if \<not> started then
            (if c \<in> announced then inspect_loop insp ids cs (announced - {c}, out(c \<mapsto> None))
             else inspect_loop insp ids cs (announced, out))
          else
            (case insp c of
               NoSuchContainer \<Rightarrow> inspect_loop insp ids cs (announced, out)
             | InspectFailed err \<Rightarrow> Inl err
             | Details details \<Rightarrow> inspect_loop insp ids cs (insert c announced, out(c \<mapsto> Some details))))"

definition inspect_update ::
  "string ordering \<Rightarrow> (string \<Rightarrow> inspect_result) \<Rightarrow> container_ids \<Rightarrow> string set \<Rightarrow>
     string + (string set \<times> container_update list)" where
  "inspect_update ord insp u announced =
     (case inspect_loop insp (cidContainers u) (ord [''inspectContainers''] (dom (cidContainers u)))
        (if cidReset u then {} else announced, Map.empty) of
        Inl err \<Rightarrow> Inl err
      | Inr (announced', out) \<Rightarrow>
          Inr (announced',
            if \<not> cidReset u \<and> out = Map.empty then [] else [\<lparr>cuContainers = out, cuReset = cidReset u\<rparr>]))"

fun inspectContainers ::
  "string ordering \<Rightarrow> ((string \<Rightarrow> inspect_result) \<times> container_ids) list \<Rightarrow> string set \<Rightarrow>
     container_update list \<times> string option" where
  "inspectContainers ord [] announced = ([], None)"
| "inspectContainers ord ((insp, u) # us) announced =
     (case inspect_update ord insp u announced of
        Inl err \<Rightarrow> ([], Some err)
      | Inr (announced', out) \<Rightarrow>
          (case inspectContainers ord us announced' of (out', err) \<Rightarrow> (out @ out', err)))"

section \<open>What is running\<close>

text \<open>The containers a sequence of identities leaves running, and those of a sequence of events.\<close>

definition ids_running :: "container_ids \<Rightarrow> string set \<Rightarrow> string set" where
  "ids_running u R =
     {c. cidContainers u c = Some True} \<union> (if cidReset u then {} else {c \<in> R. cidContainers u c = None})"

definition event_running :: "api_event \<Rightarrow> string set \<Rightarrow> string set" where
  "event_running ev R =
     (if evStatus ev = ''start'' then insert (evID ev) R else if evStatus ev = ''die'' then R - {evID ev} else R)"

text \<open>What the receiver of the updates knows of.\<close>

definition apply_containers :: "container_update \<Rightarrow> (string \<rightharpoonup> docker_container) \<Rightarrow> (string \<rightharpoonup> docker_container)" where
  "apply_containers u M =
     (\<lambda>c. case cuContainers u c of Some x \<Rightarrow> x | None \<Rightarrow> if cuReset u then None else M c)"

definition arrivals :: "buffer_event list \<Rightarrow> container_ids list" where
  "arrivals evs = concat (List.map (\<lambda>ev. case ev of Arrive ids \<Rightarrow> [ids] | Deliver \<Rightarrow> []) evs)"

lemma buffer_fifo:
  "bufferContainerIDs evs buf = Some (out, buf') \<Longrightarrow> out @ buf' = buf @ arrivals evs"
proof (induction evs arbitrary: buf out)
  case Nil
  then show ?case by (simp add: arrivals_def)
next
  case (Cons ev evs)
  obtain o1 b1 o2 where s: "buffer_step ev buf = Some (o1, b1)" "bufferContainerIDs evs b1 = Some (o2, buf')" "out = o1 @ o2"
    using Cons.prems by (auto split: option.splits)
  have "o1 @ b1 = buf @ (case ev of Arrive ids \<Rightarrow> [ids] | Deliver \<Rightarrow> [])"
    using s(1) by (auto simp: buffer_step_def split: buffer_event.splits list.splits)
  then show ?case using Cons.IH [OF s(2)] s(3) by (simp add: arrivals_def)
qed

text \<open>The identities read from the events stand for what the events say.\<close>

lemma read_while_listing_running:
  "\<exists>cs. read_while_listing (List.map Some evs) containers = Some cs \<and> (finite (dom containers) \<longrightarrow> finite (dom cs)) \<and>
     (\<forall>R. {c. case cs c of Some b \<Rightarrow> b | None \<Rightarrow> c \<in> R}
        = fold event_running evs {c. case containers c of Some b \<Rightarrow> b | None \<Rightarrow> c \<in> R})"
proof (induction evs arbitrary: containers)
  case (Cons ev evs)
  have "{c. case note_event ev containers c of Some b \<Rightarrow> b | None \<Rightarrow> c \<in> R}
      = event_running ev {c. case containers c of Some b \<Rightarrow> b | None \<Rightarrow> c \<in> R}" for R
    by (auto simp: note_event_def event_running_def split: option.splits if_splits)
  moreover have "finite (dom containers) \<Longrightarrow> finite (dom (note_event ev containers))" by (simp add: note_event_def)
  ultimately show ?case using Cons.IH [of "note_event ev containers"] by auto
qed simp

lemma add_listed_lookup:
  "add_listed listed cs c = (case cs c of Some b \<Rightarrow> Some b | None \<Rightarrow> if c \<in> set listed then Some True else None)"
  unfolding add_listed_def
  by (induction listed arbitrary: cs) (auto split: option.splits if_splits)

lemma read_events_running:
  "\<exists>us. read_events (List.map Some evs) = (us, None) \<and> fold ids_running us R = fold event_running evs R \<and>
     (\<forall>u \<in> set us. finite (dom (cidContainers u)))"
proof (induction evs arbitrary: R)
  case (Cons ev evs)
  let ?u = "\<lparr>cidContainers = [evID ev \<mapsto> evStatus ev = ''start''], cidReset = False\<rparr>"
  show ?case
  proof (cases "evStatus ev = ''start'' \<or> evStatus ev = ''die''")
    case True
    have "ids_running ?u R = event_running ev R"
      using True by (auto simp: ids_running_def event_running_def split: if_splits)
    then show ?thesis using Cons.IH [of "event_running ev R"] True by auto
  next
    case False
    then show ?thesis using Cons.IH [of R] by (simp add: event_running_def)
  qed
qed simp

lemma readContainerIDs_running:
  "\<exists>us. readContainerIDs (List.map Some early) (Inr listed) (List.map Some later) = (us, None) \<and>
     fold ids_running us R = fold event_running (early @ later) (set listed) \<and>
     (\<forall>u \<in> set us. finite (dom (cidContainers u)))"
proof -
  obtain cs where cs: "read_while_listing (List.map Some early) Map.empty = Some cs" "finite (dom cs)"
    "{c. case cs c of Some b \<Rightarrow> b | None \<Rightarrow> c \<in> set listed} = fold event_running early (set listed)"
    using read_while_listing_running [of early Map.empty] by auto
  let ?u = "\<lparr>cidContainers = drop_dead (add_listed listed cs), cidReset = True\<rparr>"
  have run: "ids_running ?u R = fold event_running early (set listed)"
    unfolding cs(3) [symmetric]
    by (auto simp: ids_running_def drop_dead_def add_listed_lookup split: option.splits if_splits)
  have "dom (drop_dead (add_listed listed cs)) \<subseteq> dom cs \<union> set listed"
    by (auto simp: drop_dead_def add_listed_lookup split: option.splits if_splits)
  then have fin: "finite (dom (cidContainers ?u))" using cs(2) finite_subset by auto
  obtain us where us: "read_events (List.map Some later) = (us, None)"
    "fold ids_running us (fold event_running early (set listed)) = fold event_running later (fold event_running early (set listed))"
    "\<forall>u \<in> set us. finite (dom (cidContainers u))"
    using read_events_running by blast
  then show ?thesis using cs(1) run fin by (intro exI [of _ "?u # us"]) (simp add: readContainerIDs_def)
qed

text \<open>Inspecting: what is announced is what the receiver knows, and only what is running.\<close>

definition loop_announced :: "(string \<Rightarrow> inspect_result) \<Rightarrow> (string \<rightharpoonup> bool) \<Rightarrow> string set \<Rightarrow> string \<Rightarrow> bool" where
  "loop_announced insp ids an c \<longleftrightarrow>
     (case ids c of
        Some started \<Rightarrow> started \<and> (c \<in> an \<or> (\<exists>d. insp c = Details d))
      | None \<Rightarrow> c \<in> an)"

definition loop_out ::
  "(string \<Rightarrow> inspect_result) \<Rightarrow> (string \<rightharpoonup> bool) \<Rightarrow> string set \<Rightarrow> string \<rightharpoonup> docker_container option" where
  "loop_out insp ids an c =
     (case ids c of
        Some started \<Rightarrow>
          if started then (case insp c of Details d \<Rightarrow> Some (Some d) | _ \<Rightarrow> None)
          else if c \<in> an then Some None else None
      | None \<Rightarrow> None)"

lemma inspect_loop_ok:
  assumes "distinct cs" and "\<forall>c err. insp c \<noteq> InspectFailed err"
  shows "inspect_loop insp ids cs (an, out) =
    Inr ({c. if c \<in> set cs then loop_announced insp ids an c else c \<in> an},
      \<lambda>c. if c \<in> set cs \<and> loop_out insp ids an c \<noteq> None then loop_out insp ids an c else out c)"
  using assms(1)
proof (induction cs arbitrary: an out)
  case Nil
  then show ?case by simp
next
  case (Cons c cs)
  have d: "c \<notin> set cs" "distinct cs" using Cons.prems by auto
  let ?goal = "Inr ({x. if x \<in> set (c # cs) then loop_announced insp ids an x else x \<in> an},
      \<lambda>x. if x \<in> set (c # cs) \<and> loop_out insp ids an x \<noteq> None then loop_out insp ids an x else out x)"
  have step: "inspect_loop insp ids cs (an1, out1) = ?goal"
    if "\<forall>x. x \<noteq> c \<longrightarrow> (x \<in> an1 \<longleftrightarrow> x \<in> an) \<and> out1 x = out x" "c \<in> an1 \<longleftrightarrow> loop_announced insp ids an c"
      "out1 c = (if loop_out insp ids an c \<noteq> None then loop_out insp ids an c else out c)" for an1 out1
  proof -
    have same: "loop_announced insp ids an1 x = loop_announced insp ids an x" "loop_out insp ids an1 x = loop_out insp ids an x"
      if "x \<noteq> c" for x
    proof -
      have "x \<in> an1 \<longleftrightarrow> x \<in> an" using that \<open>\<forall>x. x \<noteq> c \<longrightarrow> _ x\<close> by blast
      then show "loop_announced insp ids an1 x = loop_announced insp ids an x" "loop_out insp ids an1 x = loop_out insp ids an x"
        by (simp_all only: loop_announced_def loop_out_def)
    qed
    have "(if x \<in> set cs then loop_announced insp ids an1 x else x \<in> an1)
        = (if x \<in> set (c # cs) then loop_announced insp ids an x else x \<in> an)" for x
      using that(1,2) same(1) [of x] d(1) by (cases "x = c") auto
    moreover have "(if x \<in> set cs \<and> loop_out insp ids an1 x \<noteq> None then loop_out insp ids an1 x else out1 x)
        = (if x \<in> set (c # cs) \<and> loop_out insp ids an x \<noteq> None then loop_out insp ids an x else out x)" for x
      using that(1,3) same(2) [of x] d(1) by (cases "x = c") auto
    ultimately show ?thesis unfolding Cons.IH [OF d(2)] by (simp only:)
  qed
  consider (gone) "ids c = None" | (died) "ids c = Some False" "c \<in> an" | (unknown) "ids c = Some False" "c \<notin> an"
    | (details) x where "ids c = Some True" "insp c = Details x" | (missing) "ids c = Some True" "insp c = NoSuchContainer"
    using assms(2) by (cases "ids c"; cases "insp c") auto
  then show ?case
  proof cases
    case gone
    then have "inspect_loop insp ids (c # cs) (an, out) = inspect_loop insp ids cs (an, out)" by simp
    also have "\<dots> = ?goal" by (rule step) (use gone in \<open>auto simp: loop_announced_def loop_out_def\<close>)
    finally show ?thesis .
  next
    case died
    then have "inspect_loop insp ids (c # cs) (an, out) = inspect_loop insp ids cs (an - {c}, out(c \<mapsto> None))" by simp
    also have "\<dots> = ?goal" by (rule step) (use died in \<open>auto simp: loop_announced_def loop_out_def\<close>)
    finally show ?thesis .
  next
    case unknown
    then have "inspect_loop insp ids (c # cs) (an, out) = inspect_loop insp ids cs (an, out)" by simp
    also have "\<dots> = ?goal" by (rule step) (use unknown in \<open>auto simp: loop_announced_def loop_out_def\<close>)
    finally show ?thesis .
  next
    case (details x)
    then have "inspect_loop insp ids (c # cs) (an, out) = inspect_loop insp ids cs (insert c an, out(c \<mapsto> Some x))" by simp
    also have "\<dots> = ?goal" by (rule step) (use details in \<open>auto simp: loop_announced_def loop_out_def\<close>)
    finally show ?thesis .
  next
    case missing
    then have "inspect_loop insp ids (c # cs) (an, out) = inspect_loop insp ids cs (an, out)" by simp
    also have "\<dots> = ?goal" by (rule step) (use missing in \<open>auto simp: loop_announced_def loop_out_def\<close>)
    finally show ?thesis .
  qed
qed

text \<open>
  One update: the receiver knows what is announced, and both change as the identities say,
  except for containers that were gone when they were inspected.
\<close>

lemma inspect_update_ok:
  assumes "ordering_ok ord" and "finite (dom (cidContainers u))" and "\<forall>c err. insp c \<noteq> InspectFailed err"
    and "dom M = an" and "an \<subseteq> R"
  shows "\<exists>an' out. inspect_update ord insp u an = Inr (an', out) \<and> dom (fold apply_containers out M) = an' \<and>
    an' \<subseteq> ids_running u R \<and> ((\<forall>c. \<exists>d. insp c = Details d) \<and> an = R \<longrightarrow> an' = ids_running u R)"
proof -
  let ?cs = "ord [''inspectContainers''] (dom (cidContainers u))" and ?an = "if cidReset u then {} else an"
  have cs: "distinct ?cs" "set ?cs = dom (cidContainers u)" using assms(1,2) by simp_all
  let ?an' = "{c. if c \<in> set ?cs then loop_announced insp (cidContainers u) ?an c else c \<in> ?an}"
  let ?out = "\<lambda>c. loop_out insp (cidContainers u) ?an c"
  have loop: "inspect_loop insp (cidContainers u) ?cs (?an, Map.empty) = Inr (?an', ?out)"
  proof -
    have "(\<lambda>c. if c \<in> set ?cs \<and> loop_out insp (cidContainers u) ?an c \<noteq> None
        then loop_out insp (cidContainers u) ?an c else None) = ?out"
      by (rule ext) (auto simp: cs(2) loop_out_def split: option.splits)
    then show ?thesis using inspect_loop_ok [OF cs(1) assms(3), of "cidContainers u" ?an Map.empty] by simp
  qed
  have an': "?an' = {c. loop_announced insp (cidContainers u) ?an c}"
    by (auto simp: cs(2) loop_announced_def split: option.splits)
  let ?upd = "if \<not> cidReset u \<and> ?out = Map.empty then [] else [\<lparr>cuContainers = ?out, cuReset = cidReset u\<rparr>]"
  have M': "fold apply_containers ?upd M c = (case ?out c of Some x \<Rightarrow> x | None \<Rightarrow> if cidReset u then None else M c)" for c
  proof (cases "\<not> cidReset u \<and> ?out = Map.empty")
    case True
    then have "?out c = None" by (rule fun_cong [OF conjunct2])
    moreover have "?upd = []" using True by (rule if_P)
    then have "fold apply_containers ?upd M = M" by (simp only: fold_simps)
    ultimately show ?thesis using True by simp
  next
    case False
    then have "fold apply_containers ?upd M = apply_containers \<lparr>cuContainers = ?out, cuReset = cidReset u\<rparr> M"
      by (simp only: if_False fold_simps)
    then show ?thesis by (simp add: apply_containers_def)
  qed
  have M: "M c \<noteq> None \<longleftrightarrow> c \<in> an" for c using assms(4) by blast
  have "fold apply_containers ?upd M c \<noteq> None \<longleftrightarrow> loop_announced insp (cidContainers u) ?an c" for c
    unfolding M' using M [of c] by (cases "insp c") (auto simp: loop_out_def loop_announced_def split: option.splits)
  then have dom: "dom (fold apply_containers ?upd M) = ?an'" unfolding an' by blast
  have "?an' \<subseteq> ids_running u R" unfolding an' using assms(5)
    by (auto simp: loop_announced_def ids_running_def split: option.splits if_splits)
  moreover have "?an' = ids_running u R" if "\<forall>c. \<exists>d. insp c = Details d" "an = R" unfolding an' using that
    by (auto simp: loop_announced_def ids_running_def split: option.splits if_splits)
  moreover have "inspect_update ord insp u an = Inr (?an', ?upd)" by (simp add: inspect_update_def loop)
  ultimately show ?thesis using dom by blast
qed

lemma inspectContainers_ok:
  assumes "ordering_ok ord" and "\<forall>(insp, u) \<in> set us. finite (dom (cidContainers u)) \<and> (\<forall>c err. insp c \<noteq> InspectFailed err)"
    and "dom M = an" and "an \<subseteq> R"
  shows "\<exists>out. inspectContainers ord us an = (out, None) \<and>
    dom (fold apply_containers out M) \<subseteq> fold ids_running (List.map snd us) R \<and>
    ((\<forall>(insp, u) \<in> set us. \<forall>c. \<exists>d. insp c = Details d) \<and> an = R \<longrightarrow>
       dom (fold apply_containers out M) = fold ids_running (List.map snd us) R)"
  using assms(2-4)
proof (induction us arbitrary: an M R)
  case Nil
  then show ?case by simp
next
  case (Cons x us)
  obtain insp u where x: "x = (insp, u)" by fastforce
  have u: "finite (dom (cidContainers u))" "\<forall>c err. insp c \<noteq> InspectFailed err" using Cons.prems(1) x by auto
  obtain an' o1 where o1: "inspect_update ord insp u an = Inr (an', o1)" "dom (fold apply_containers o1 M) = an'"
    "an' \<subseteq> ids_running u R" "(\<forall>c. \<exists>d. insp c = Details d) \<and> an = R \<longrightarrow> an' = ids_running u R"
    using inspect_update_ok [OF assms(1) u Cons.prems(2,3)] by blast
  have "\<forall>(insp, u) \<in> set us. finite (dom (cidContainers u)) \<and> (\<forall>c err. insp c \<noteq> InspectFailed err)"
    using Cons.prems(1) by simp
  from Cons.IH [OF this o1(2,3)] obtain out where out: "inspectContainers ord us an' = (out, None)"
    "dom (fold apply_containers out (fold apply_containers o1 M)) \<subseteq> fold ids_running (List.map snd us) (ids_running u R)"
    "(\<forall>(insp, u) \<in> set us. \<forall>c. \<exists>d. insp c = Details d) \<and> an' = ids_running u R \<longrightarrow>
       dom (fold apply_containers out (fold apply_containers o1 M)) = fold ids_running (List.map snd us) (ids_running u R)"
    by blast
  show ?case using o1(1,4) out by (intro exI [of _ "o1 @ out"]) (auto simp: x)
qed

section \<open>The listener as a whole\<close>


definition listener_demo :: docker_container where
  "listener_demo = \<lparr>containerID = ''c1'', cfgImage = ''nginx'', cfgLabels = Map.empty, cfgEnv = [],
     networkMode = ''bridge'', netPorts = Map.empty, netIPAddress = ''10.0.0.9''\<rparr>"


end
