(* ===== verification/EtcdGC.thy ===== *)
theory EtcdGC
  imports EtcdProps
begin

text \<open>
  The collector of the etcd store (\<open>common/store/etcdstore/gc.go\<close>): it reads the hosts, the
  services and then the live sessions, and asks for the deletion of the records of other sessions.
  Each request carries the node that was read: etcd deletes it only if it is still the same. The
  three reads see the store at three times.
\<close>

section \<open>The collector\<close>

fun cullSessionValues :: "codec \<Rightarrow> string set \<Rightarrow> etcd_node list \<Rightarrow> etcd_node list \<times> etcd_error option" where
  "cullSessionValues cd live [] = ([], None)"
| "cullSessionValues cd live (n # ns) =
     (case decSession cd (nodeValue n) of
        None \<Rightarrow> ([], Some (DecodeError (nodeKey n)))
      | Some session \<Rightarrow>
          (case cullSessionValues cd live ns of (requests, err) \<Rightarrow>
             (if session \<noteq> [] \<and> session \<notin> live then n # requests else requests, err)))"

definition cull_dir :: "codec \<Rightarrow> string set \<Rightarrow> etcd_node option \<Rightarrow> etcd_node list \<times> etcd_error option" where
  "cull_dir cd live dir = (case dir of None \<Rightarrow> ([], None) | Some n \<Rightarrow> cullSessionValues cd live (nodeNodes n))"

definition then_cull ::
  "etcd_node list \<times> etcd_error option \<Rightarrow> etcd_node list \<times> etcd_error option \<Rightarrow> etcd_node list \<times> etcd_error option" where
  "then_cull x y = (case x of (r, Some err) \<Rightarrow> (r, Some err) | (r, None) \<Rightarrow> (case y of (r', err) \<Rightarrow> (r @ r', err)))"

fun cull_services :: "codec \<Rightarrow> string set \<Rightarrow> etcd_node list \<Rightarrow> etcd_node list \<times> etcd_error option" where
  "cull_services cd live [] = ([], None)"
| "cull_services cd live (svcNode # ns) =
     (let svcDir = indexDir (Some svcNode) in
      then_cull (cull_dir cd live (svcDir INSTANCE_PATH))
        (then_cull (cull_dir cd live (svcDir INGRESS_INSTANCE_PATH)) (cull_services cd live ns)))"

definition doCollection :: "codec \<Rightarrow> 'e etcd_client \<Rightarrow> 'e \<Rightarrow> 'e \<Rightarrow> 'e \<Rightarrow> etcd_node list \<times> etcd_error option" where
  "doCollection cd client hostsAt servicesAt sessionsAt =
     (case getDirNode client HOST_ROOT True True hostsAt of
        Inl err \<Rightarrow> ([], Some err)
      | Inr (hostRoot, _) \<Rightarrow>
          (case getDirNode client SERVICE_ROOT True True servicesAt of
             Inl err \<Rightarrow> ([], Some err)
           | Inr (serviceRoot, _) \<Rightarrow>
               (case liveSessions client sessionsAt of
                  Inl err \<Rightarrow> ([], Some err)
                | Inr live \<Rightarrow>
                    then_cull (cullSessionValues cd live (nodeNodes hostRoot))
                      (cull_services cd live (nodeNodes serviceRoot)))))"

section \<open>What it asks for\<close>

definition dead :: "codec \<Rightarrow> string set \<Rightarrow> string \<Rightarrow> bool" where
  "dead cd live v \<longleftrightarrow> (\<exists>s. decSession cd v = Some s \<and> s \<noteq> [] \<and> s \<notin> live)"

lemma cullSessionValues_ok:
  "\<forall>n \<in> set ns. decSession cd (nodeValue n) \<noteq> None \<Longrightarrow>
     cullSessionValues cd live ns = (filter (\<lambda>n. dead cd live (nodeValue n)) ns, None)"
  by (induction ns) (auto simp: dead_def)

text \<open>The three codecs of records with a session agree on the session.\<close>

definition sessions_agree :: "codec \<Rightarrow> bool" where
  "sessions_agree cd \<longleftrightarrow>
     (\<forall>v i s. decInstance cd v = Some (i, s) \<longrightarrow> decSession cd v = Some s) \<and>
     (\<forall>v i s. decIngress cd v = Some (i, s) \<longrightarrow> decSession cd v = Some s) \<and>
     (\<forall>v h s. decHost cd v = Some (h, s) \<longrightarrow> decSession cd v = Some s)"

text \<open>The records of a directory of values.\<close>

lemma cull_values:
  assumes "dir_ok P b" and "\<forall>c v. P c v \<longrightarrow> decSession cd v \<noteq> None"
  shows "\<exists>r. cullSessionValues cd live (nodeNodes (full_node (Branch b) p)) = (r, None) \<and>
    nodeKey ` set r = {path_key (p @ [c]) | c v. leaf_map b c = Some v \<and> dead cd live v}"
proof -
  let ?ns = "nodeNodes (full_node (Branch b) p)"
  have ns: "?ns = List.map (\<lambda>c. full_node (the (fmlookup b c)) (p @ [c])) (visible_names b)"
    by (simp add: full_node_Branch del: full_node.simps)
  have leaf: "visible c \<and> fmlookup b c = Some (Leaf v) \<and> P c v" if "leaf_map b c = Some v" for c v
    using assms(1) that by (auto simp: dir_ok_def leaf_map_def split: option.splits etcd_tree.splits)
  have node: "\<exists>c v. leaf_map b c = Some v \<and> n = EtcdNode (path_key (p @ [c])) False v []" if "n \<in> set ?ns" for n
  proof -
    obtain c t where c: "fmlookup b c = Some t" "n = full_node t (p @ [c])" using \<open>n \<in> set ?ns\<close> unfolding ns by auto
    obtain v where "t = Leaf v" using assms(1) c(1) by (auto simp: dir_ok_def)
    then have "leaf_map b c = Some v" "n = EtcdNode (path_key (p @ [c])) False v []" using c by (simp_all add: leaf_map_def)
    then show ?thesis by blast
  qed
  have "decSession cd (nodeValue n) \<noteq> None" if "n \<in> set ?ns" for n
    using node [OF that] leaf assms(2) by fastforce
  then have "cullSessionValues cd live ?ns = (filter (\<lambda>n. dead cd live (nodeValue n)) ?ns, None)"
    by (intro cullSessionValues_ok) blast
  moreover have "nodeKey ` set (filter (\<lambda>n. dead cd live (nodeValue n)) ?ns)
      = {path_key (p @ [c]) | c v. leaf_map b c = Some v \<and> dead cd live v}"
  proof (intro equalityI subsetI)
    fix k assume "k \<in> {path_key (p @ [c]) | c v. leaf_map b c = Some v \<and> dead cd live v}"
    then obtain c v where c: "leaf_map b c = Some v" "dead cd live v" "k = path_key (p @ [c])" by blast
    then have "EtcdNode (path_key (p @ [c])) False v [] \<in> set ?ns"
      using leaf [OF c(1)] unfolding ns by (force simp: image_iff)
    then have "EtcdNode (path_key (p @ [c])) False v [] \<in> set (filter (\<lambda>n. dead cd live (nodeValue n)) ?ns)"
      using c(2) by simp
    then show "k \<in> nodeKey ` set (filter (\<lambda>n. dead cd live (nodeValue n)) ?ns)"
      unfolding c(3) by (metis etcd_node.sel(1) imageI)
  qed (use node in fastforce)
  ultimately show ?thesis by blast
qed

lemma cull_dir_ok:
  assumes "service_dir_ok cd names m" and "sessions_agree cd" and "sub = INSTANCE_PATH \<or> sub = INGRESS_INSTANCE_PATH"
  shows "\<exists>r. cull_dir cd live (indexDir (Some (full_node (Branch m) p)) sub) = (r, None) \<and>
    nodeKey ` set r = {path_key (p @ [sub, c]) | c v. leaf_map (subdir sub m) c = Some v \<and> dead cd live v}"
proof -
  have sub: "sub \<in> record_paths" using assms(3) by auto
  have rec: "records_ok m sub (record_dir_ok cd names sub)" and plain: "names_plain m"
    using assms(1) sub unfolding service_dir_ok_records by blast+
  have dec: "\<forall>c v. record_dir_ok cd names sub c v \<longrightarrow> decSession cd v \<noteq> None"
    using assms(2,3) by (fastforce simp: record_dir_ok_def sessions_agree_def)
  have vis: "visible sub" using assms(3) by auto
  show ?thesis
  proof (cases "fmlookup m sub")
    case None
    then show ?thesis using vis
      by (simp add: cull_dir_def indexDir_full [OF plain] subdir_def del: full_node.simps)
  next
    case (Some t)
    then obtain b where t: "t = Branch b" and b: "dir_ok (record_dir_ok cd names sub) b"
      using rec by (cases t) (auto simp: records_ok_dir subdir_def)
    have "indexDir (Some (full_node (Branch m) p)) sub = Some (full_node (Branch b) (p @ [sub]))"
      using Some t vis by (simp add: indexDir_full [OF plain] del: full_node.simps)
    then show ?thesis using cull_values [OF b dec, of live "p @ [sub]"] Some t
      by (simp add: cull_dir_def subdir_def del: full_node.simps)
  qed
qed

lemma cull_services_ok:
  assumes "\<forall>n \<in> set ns. \<forall>sub \<in> {INSTANCE_PATH, INGRESS_INSTANCE_PATH}. \<exists>r. cull_dir cd live (indexDir (Some n) sub) = (r, None)"
  shows "\<exists>r. cull_services cd live ns = (r, None) \<and>
    set r = (\<Union>n \<in> set ns. \<Union>sub \<in> {INSTANCE_PATH, INGRESS_INSTANCE_PATH}. set (fst (cull_dir cd live (indexDir (Some n) sub))))"
  using assms
proof (induction ns)
  case Nil
  then show ?case by simp
next
  case (Cons n ns)
  obtain r1 where r1: "cull_dir cd live (indexDir (Some n) INSTANCE_PATH) = (r1, None)" using Cons.prems by auto
  obtain r2 where r2: "cull_dir cd live (indexDir (Some n) INGRESS_INSTANCE_PATH) = (r2, None)" using Cons.prems by auto
  obtain r3 where r3: "cull_services cd live ns = (r3, None)"
    "set r3 = (\<Union>n \<in> set ns. \<Union>sub \<in> {INSTANCE_PATH, INGRESS_INSTANCE_PATH}. set (fst (cull_dir cd live (indexDir (Some n) sub))))"
    using Cons.IH Cons.prems by auto
  have "cull_services cd live (n # ns) = (r1 @ r2 @ r3, None)" using r1 r2 r3(1) by (simp add: then_cull_def Let_def)
  then show ?case using r1 r2 r3(2) by (auto simp del: Union_iff)
qed

abbreviation host_dir :: "string list" where
  "host_dir \<equiv> [''weave-flux'', ''host'']"

definition hosts_ok :: "codec \<Rightarrow> etcd_dir \<Rightarrow> bool" where
  "hosts_ok cd d \<longleftrightarrow> no_leaf host_dir d \<and> dir_ok (\<lambda>c v. decHost cd v \<noteq> None) (dir_at host_dir d)"

definition abs_hosts :: "codec \<Rightarrow> etcd_dir \<Rightarrow> string \<rightharpoonup> host \<times> string" where
  "abs_hosts cd d = (\<lambda>h. Option.bind (leaf_map (dir_at host_dir d) h) (decHost cd))"

text \<open>Records of sessions that are over, of the kinds that have a session.\<close>

definition stale :: "string set \<Rightarrow> ('a \<times> string) option \<Rightarrow> bool" where
  "stale live x \<longleftrightarrow> (\<exists>r s. x = Some (r, s) \<and> s \<noteq> [] \<and> s \<notin> live)"

lemma path_keys:
  "path_key (service_dir @ [s, INSTANCE_PATH, n]) = instanceKey s n"
  "path_key (service_dir @ [s, INGRESS_INSTANCE_PATH, ipport_String a]) = ingressInstanceKey s a"
  "path_key (host_dir @ [h]) = hostKey h"
  by (simp_all add: instanceKey_def ingressInstanceKey_def hostKey_def SERVICE_ROOT_def HOST_ROOT_def ROOT_def)

lemma stale_instances:
  assumes "service_dir_ok cd names m" and "sessions_agree cd"
  shows "{path_key (service_dir @ [s, INSTANCE_PATH, c]) | c v. leaf_map (subdir INSTANCE_PATH m) c = Some v \<and> dead cd live v}
      = {instanceKey s n | n. stale live (asInstances (abs_of cd names m) n)}"
    and "{path_key (service_dir @ [s, INGRESS_INSTANCE_PATH, c]) | c v.
        leaf_map (subdir INGRESS_INSTANCE_PATH m) c = Some v \<and> dead cd live v}
      = {ingressInstanceKey s a | a. stale live (asIngress (abs_of cd names m) a)}"
proof -
  have ok: "record_dir_ok cd names sub c v" if "sub \<in> record_paths" "leaf_map (subdir sub m) c = Some v" for sub c v
    using assms(1) that unfolding service_dir_ok_records records_ok_dir
    by (auto simp: dir_ok_def leaf_map_def split: option.splits etcd_tree.splits)
  have inst: "dead cd live v \<longleftrightarrow> stale live (asInstances (abs_of cd names m) c)"
    if "leaf_map (subdir INSTANCE_PATH m) c = Some v" for c v
  proof -
    obtain i s where "decInstance cd v = Some (i, s)" using ok [OF _ \<open>leaf_map (subdir INSTANCE_PATH m) c = Some v\<close>] by (auto simp: record_dir_ok_def)
    moreover from this have "decSession cd v = Some s" using assms(2) by (auto simp: sessions_agree_def)
    ultimately show ?thesis using that by (simp add: dead_def stale_def abs_of_sel)
  qed
  have none: "asInstances (abs_of cd names m) c = None" if "leaf_map (subdir INSTANCE_PATH m) c = None" for c
    using that by (simp add: abs_of_sel)
  show "{path_key (service_dir @ [s, INSTANCE_PATH, c]) | c v. leaf_map (subdir INSTANCE_PATH m) c = Some v \<and> dead cd live v}
      = {instanceKey s n | n. stale live (asInstances (abs_of cd names m) n)}"
    unfolding path_keys using inst none by (fastforce simp: stale_def)
  have ing: "\<exists>a. c = ipport_String a \<and> ParseIPPort names (ipport_String a) = Some a \<and>
      (dead cd live v \<longleftrightarrow> stale live (asIngress (abs_of cd names m) a))"
    if "leaf_map (subdir INGRESS_INSTANCE_PATH m) c = Some v" for c v
  proof -
    obtain i s a where "decIngress cd v = Some (i, s)" and a: "c = ipport_String a" "ParseIPPort names c = Some a"
      using ok [OF _ \<open>leaf_map (subdir INGRESS_INSTANCE_PATH m) c = Some v\<close>] by (auto simp: record_dir_ok_def)
    moreover from this have "decSession cd v = Some s" using assms(2) by (auto simp: sessions_agree_def)
    ultimately show ?thesis using that by (auto simp: dead_def stale_def abs_of_sel)
  qed
  have some: "\<exists>v. leaf_map (subdir INGRESS_INSTANCE_PATH m) (ipport_String a) = Some v \<and> dead cd live v"
    if st: "stale live (asIngress (abs_of cd names m) a)" for a
  proof -
    have p: "ParseIPPort names (ipport_String a) = Some a" using st by (auto simp: abs_of_sel stale_def split: if_splits)
    obtain v where v: "leaf_map (subdir INGRESS_INSTANCE_PATH m) (ipport_String a) = Some v"
      using st by (auto simp: abs_of_sel stale_def bind_eq_Some_conv split: if_splits)
    obtain b where b: "ipport_String a = ipport_String b" "ParseIPPort names (ipport_String b) = Some b"
      "dead cd live v \<longleftrightarrow> stale live (asIngress (abs_of cd names m) b)" using ing [OF v] by blast
    have "b = a" using p unfolding b(1) b(2) by simp
    then show ?thesis using b(3) st v by blast
  qed
  show "{path_key (service_dir @ [s, INGRESS_INSTANCE_PATH, c]) | c v.
        leaf_map (subdir INGRESS_INSTANCE_PATH m) c = Some v \<and> dead cd live v}
      = {ingressInstanceKey s a | a. stale live (asIngress (abs_of cd names m) a)}" (is "?l = ?r")
  proof (intro equalityI subsetI)
    fix k assume "k \<in> ?l"
    then obtain c v where c: "leaf_map (subdir INGRESS_INSTANCE_PATH m) c = Some v" "dead cd live v"
      "k = path_key (service_dir @ [s, INGRESS_INSTANCE_PATH, c])" by blast
    then show "k \<in> ?r" using ing [OF c(1)] path_keys(2) by blast
  next
    fix k assume "k \<in> ?r"
    then obtain a where a: "stale live (asIngress (abs_of cd names m) a)" "k = ingressInstanceKey s a" by blast
    obtain v where "leaf_map (subdir INGRESS_INSTANCE_PATH m) (ipport_String a) = Some v" "dead cd live v"
      using some [OF a(1)] by blast
    then show "k \<in> ?l" unfolding a(2) path_keys(2) [symmetric] by blast
  qed
qed

lemma cull_hosts_ok:
  assumes "hosts_ok cd d" and "sessions_agree cd"
  shows "\<exists>r. cullSessionValues cd live (nodeNodes (full_node (Branch (dir_at host_dir d)) host_dir)) = (r, None) \<and>
    nodeKey ` set r = {hostKey h | h. stale live (abs_hosts cd d h)}"
proof -
  let ?H = "dir_at host_dir d"
  have hosts: "dir_ok (\<lambda>c v. decHost cd v \<noteq> None) ?H" using assms(1) by (auto simp: hosts_ok_def)
  have decH: "\<forall>c v. decHost cd v \<noteq> None \<longrightarrow> decSession cd v \<noteq> None"
    using assms(2) by (fastforce simp: sessions_agree_def)
  have "dead cd live v \<longleftrightarrow> stale live (abs_hosts cd d c)" if v: "leaf_map ?H c = Some v" for c v
  proof -
    have "fmlookup ?H c = Some (Leaf v)"
      using v by (auto simp: leaf_map_def simp del: dir_at.simps split: option.splits etcd_tree.splits)
    then have "decHost cd v \<noteq> None" using hosts unfolding dir_ok_def by fastforce
    then obtain h s where "decHost cd v = Some (h, s)" by auto
    moreover from this have "decSession cd v = Some s" using assms(2) by (auto simp: sessions_agree_def)
    ultimately show ?thesis using v by (simp add: dead_def stale_def abs_hosts_def del: dir_at.simps)
  qed
  moreover have "leaf_map ?H c \<noteq> None" if "stale live (abs_hosts cd d c)" for c
    using that by (auto simp: stale_def abs_hosts_def bind_eq_Some_conv simp del: dir_at.simps)
  ultimately have "{path_key (host_dir @ [c]) | c v. leaf_map ?H c = Some v \<and> dead cd live v} =
      {hostKey h | h. stale live (abs_hosts cd d h)}"
    unfolding path_keys by blast
  with cull_values [OF hosts decH, of live host_dir] show ?thesis by (simp only:)
qed

text \<open>The directories of the services, and the dead records in one of them.\<close>

abbreviation service_node :: "etcd_dir \<Rightarrow> string \<Rightarrow> etcd_node" where
  "service_node m s \<equiv> full_node (Branch m) (service_dir @ [s])"

lemma service_nodes:
  assumes "etcd_ok cd names d"
  shows "set (nodeNodes (full_node (Branch (services_of d)) service_dir)) =
    {service_node m s | s m. fmlookup (services_of d) s = Some (Branch m) \<and> service_dir_ok cd names m}"
proof (rule set_eqI)
  fix n
  have kids: "fmlookup (services_of d) s = Some t \<Longrightarrow>
      plain_name s \<and> visible s \<and> (\<exists>m. t = Branch m \<and> service_dir_ok cd names m)" for s t
    using assms by (auto simp: etcd_ok_def)
  have "n \<in> set (nodeNodes (full_node (Branch (services_of d)) service_dir)) \<longleftrightarrow>
      (\<exists>s. visible s \<and> fmlookup (services_of d) s \<noteq> None \<and> n = full_node (the (fmlookup (services_of d) s)) (service_dir @ [s]))"
    by (auto simp: full_node_Branch image_iff simp del: full_node.simps)
  then show "n \<in> set (nodeNodes (full_node (Branch (services_of d)) service_dir)) \<longleftrightarrow> n \<in>
      {service_node m s | s m. fmlookup (services_of d) s = Some (Branch m) \<and> service_dir_ok cd names m}"
    using kids unfolding mem_Collect_eq by (metis option.distinct(1) option.sel option.exhaust)
qed

lemma culled_records:
  assumes "service_dir_ok cd names m" and "sessions_agree cd"
  shows "nodeKey ` set (fst (cull_dir cd live (indexDir (Some (service_node m s)) INSTANCE_PATH)))
      = {instanceKey s n | n. stale live (asInstances (abs_of cd names m) n)}"
    and "nodeKey ` set (fst (cull_dir cd live (indexDir (Some (service_node m s)) INGRESS_INSTANCE_PATH)))
      = {ingressInstanceKey s a | a. stale live (asIngress (abs_of cd names m) a)}"
proof -
  have eq: "(service_dir @ [s]) @ [sub, c] = service_dir @ [s, sub, c]" for sub c by simp
  obtain r where r: "cull_dir cd live (indexDir (Some (service_node m s)) INSTANCE_PATH) = (r, None)"
    "nodeKey ` set r = {path_key ((service_dir @ [s]) @ [INSTANCE_PATH, c]) | c v.
       leaf_map (subdir INSTANCE_PATH m) c = Some v \<and> dead cd live v}"
    using cull_dir_ok [OF assms disjI1 [OF refl], of live "service_dir @ [s]"] by blast
  show "nodeKey ` set (fst (cull_dir cd live (indexDir (Some (service_node m s)) INSTANCE_PATH)))
      = {instanceKey s n | n. stale live (asInstances (abs_of cd names m) n)}"
    unfolding r(1) fst_conv r(2) eq by (rule stale_instances(1) [OF assms])
  obtain r' where r': "cull_dir cd live (indexDir (Some (service_node m s)) INGRESS_INSTANCE_PATH) = (r', None)"
    "nodeKey ` set r' = {path_key ((service_dir @ [s]) @ [INGRESS_INSTANCE_PATH, c]) | c v.
       leaf_map (subdir INGRESS_INSTANCE_PATH m) c = Some v \<and> dead cd live v}"
    using cull_dir_ok [OF assms disjI2 [OF refl], of live "service_dir @ [s]"] by blast
  show "nodeKey ` set (fst (cull_dir cd live (indexDir (Some (service_node m s)) INGRESS_INSTANCE_PATH)))
      = {ingressInstanceKey s a | a. stale live (asIngress (abs_of cd names m) a)}"
    unfolding r'(1) fst_conv r'(2) eq by (rule stale_instances(2) [OF assms])
qed

lemma culled_services:
  assumes "etcd_ok cd names d" and "sessions_agree cd"
  shows "\<exists>r. cull_services cd live (nodeNodes (full_node (Branch (services_of d)) service_dir)) = (r, None) \<and>
    set r = (\<Union>n \<in> set (nodeNodes (full_node (Branch (services_of d)) service_dir)).
      \<Union>sub \<in> {INSTANCE_PATH, INGRESS_INSTANCE_PATH}. set (fst (cull_dir cd live (indexDir (Some n) sub))))"
proof (rule cull_services_ok, intro ballI)
  fix n sub assume "n \<in> set (nodeNodes (full_node (Branch (services_of d)) service_dir))"
    and sub: "sub \<in> {INSTANCE_PATH, INGRESS_INSTANCE_PATH}"
  then obtain s m where n: "service_dir_ok cd names m" "n = service_node m s"
    unfolding service_nodes [OF assms(1)] by blast
  have "sub = INSTANCE_PATH \<or> sub = INGRESS_INSTANCE_PATH" using sub by blast
  from cull_dir_ok [OF n(1) assms(2) this, of live "service_dir @ [s]"]
  show "\<exists>r. cull_dir cd live (indexDir (Some n) sub) = (r, None)" unfolding n(2) by blast
qed

lemma abs_services_dir:
  assumes "etcd_ok cd names d"
  shows "abs_services cd names d s = Some A \<longleftrightarrow>
    (\<exists>m. fmlookup (services_of d) s = Some (Branch m) \<and> service_dir_ok cd names m \<and> A = abs_of cd names m)"
  using assms by (fastforce simp: abs_services_def etcd_ok_def split: option.splits etcd_tree.splits)

lemma cull_services_stale:
  assumes "etcd_ok cd names d" and "sessions_agree cd"
  shows "\<exists>r. cull_services cd live (nodeNodes (full_node (Branch (services_of d)) service_dir)) = (r, None) \<and> nodeKey ` set r =
    {instanceKey s n | s n A. abs_services cd names d s = Some A \<and> stale live (asInstances A n)} \<union>
    {ingressInstanceKey s a | s a A. abs_services cd names d s = Some A \<and> stale live (asIngress A a)}"
proof -
  let ?ns = "nodeNodes (full_node (Branch (services_of d)) service_dir)"
  let ?F = "\<lambda>n sub. nodeKey ` set (fst (cull_dir cd live (indexDir (Some n) sub)))"
  obtain r where r: "cull_services cd live ?ns = (r, None)"
    "set r = (\<Union>n \<in> set ?ns. \<Union>sub \<in> {INSTANCE_PATH, INGRESS_INSTANCE_PATH}. set (fst (cull_dir cd live (indexDir (Some n) sub))))"
    using culled_services [OF assms] by blast
  have "k \<in> nodeKey ` set r \<longleftrightarrow> (\<exists>n \<in> set ?ns. k \<in> ?F n INSTANCE_PATH \<or> k \<in> ?F n INGRESS_INSTANCE_PATH)" for k
    unfolding r(2) by (simp only: image_UN) blast
  also have "\<dots> k \<longleftrightarrow> (\<exists>s m. fmlookup (services_of d) s = Some (Branch m) \<and> service_dir_ok cd names m \<and>
      (k \<in> ?F (service_node m s) INSTANCE_PATH \<or> k \<in> ?F (service_node m s) INGRESS_INSTANCE_PATH))" for k
    unfolding service_nodes [OF assms(1)] by blast
  also have "\<dots> k \<longleftrightarrow> (\<exists>s m. fmlookup (services_of d) s = Some (Branch m) \<and> service_dir_ok cd names m \<and>
      (k \<in> {instanceKey s n | n. stale live (asInstances (abs_of cd names m) n)} \<or>
       k \<in> {ingressInstanceKey s a | a. stale live (asIngress (abs_of cd names m) a)}))" for k
    by (intro ex_cong1 conj_cong refl) (simp only: culled_records [OF _ assms(2)])
  finally have "nodeKey ` set r =
    {instanceKey s n | s n A. abs_services cd names d s = Some A \<and> stale live (asInstances A n)} \<union>
    {ingressInstanceKey s a | s a A. abs_services cd names d s = Some A \<and> stale live (asIngress A a)}"
    unfolding abs_services_dir [OF assms(1)] by blast
  then show ?thesis using r(1) by blast
qed

context etcd_contract
begin

lemma doCollection_ok:
  assumes "hosts_ok cd (tree hostsAt)" and "etcd_ok cd names (tree servicesAt)" and "roots_ok (tree sessionsAt)"
    and "sessions_agree cd"
  defines "live \<equiv> sessions_of (tree sessionsAt)"
  shows "\<exists>r. doCollection cd client hostsAt servicesAt sessionsAt = (r, None) \<and> nodeKey ` set r =
    {hostKey h | h. stale live (abs_hosts cd (tree hostsAt) h)} \<union>
    {instanceKey s n | s n A. abs_services cd names (tree servicesAt) s = Some A \<and> stale live (asInstances A n)} \<union>
    {ingressInstanceKey s a | s a A. abs_services cd names (tree servicesAt) s = Some A \<and> stale live (asIngress A a)}"
proof -
  have hosts: "no_leaf host_dir (tree hostsAt)" using assms(1) by (auto simp: hosts_ok_def)
  have roots: "roots_ok (tree servicesAt)" using assms(2) by (auto simp: etcd_ok_def)
  have p: "plain_key HOST_ROOT" "plain_key SERVICE_ROOT" by (simp_all add: plain_key_def key_path_roots)
  obtain hn hi where hn: "getDirNode client HOST_ROOT True True hostsAt = Inr (hn, hi)"
    "nodeNodes hn = nodeNodes (full_node (Branch (dir_at host_dir (tree hostsAt))) host_dir)"
    using getDirNode_missing_ok [OF p(1), of hostsAt True] hosts by (auto simp: key_path_roots simp del: dir_at.simps full_node.simps)
  obtain sn si where sn: "getDirNode client SERVICE_ROOT True True servicesAt = Inr (sn, si)"
    "nodeNodes sn = nodeNodes (full_node (Branch (services_of (tree servicesAt))) service_dir)"
    using getDirNode_missing_ok [OF p(2), of servicesAt True] roots
    by (auto simp: roots_ok_def key_path_roots services_of_def simp del: dir_at.simps full_node.simps)
  have live: "liveSessions client sessionsAt = Inr live" unfolding live_def by (rule liveSessions_ok [OF assms(3)])
  obtain r1 where r1: "cullSessionValues cd live (nodeNodes hn) = (r1, None)"
    "nodeKey ` set r1 = {hostKey h | h. stale live (abs_hosts cd (tree hostsAt) h)}"
    using cull_hosts_ok [OF assms(1,4), of live] unfolding hn(2) by blast
  obtain r2 where r2: "cull_services cd live (nodeNodes sn) = (r2, None)" "nodeKey ` set r2 =
    {instanceKey s n | s n A. abs_services cd names (tree servicesAt) s = Some A \<and> stale live (asInstances A n)} \<union>
    {ingressInstanceKey s a | s a A. abs_services cd names (tree servicesAt) s = Some A \<and> stale live (asIngress A a)}"
    using cull_services_stale [OF assms(2,4), of live] unfolding sn(2) by blast
  have "doCollection cd client hostsAt servicesAt sessionsAt = (r1 @ r2, None)"
    using r1(1) r2(1) by (simp add: doCollection_def hn(1) sn(1) live then_cull_def)
  then show ?thesis by (intro exI [of _ "r1 @ r2"]) (simp only: set_append image_Un r1(2) r2(2) Un_assoc)
qed

end

text \<open>
  C13: The collector asks for exactly the records that have a session and whose session was over
  when it looked: the hosts, instances and ingress instances it read, whatever happened to the
  store between its three reads. A record of a session that is live when the sessions are read
  is never asked for.
\<close>

theorem etcd_gc_requests:
  assumes "etcd_contract client tree" and "hosts_ok cd (tree hostsAt)" and "etcd_ok cd names (tree servicesAt)"
    and "roots_ok (tree sessionsAt)" and "sessions_agree cd"
  shows "\<exists>r. doCollection cd client hostsAt servicesAt sessionsAt = (r, None) \<and> nodeKey ` set r =
    {hostKey h | h. stale (sessions_of (tree sessionsAt)) (abs_hosts cd (tree hostsAt) h)} \<union>
    {instanceKey s n | s n A. abs_services cd names (tree servicesAt) s = Some A \<and>
       stale (sessions_of (tree sessionsAt)) (asInstances A n)} \<union>
    {ingressInstanceKey s a | s a A. abs_services cd names (tree servicesAt) s = Some A \<and>
       stale (sessions_of (tree sessionsAt)) (asIngress A a)}"
  by (rule etcd_contract.doCollection_ok [OF assms])

theorem etcd_gc_requests_witness:
  "\<exists>r. doCollection demo_codec tree_client demo_etcd demo_etcd fmempty = (r, None) \<and>
    nodeKey ` set r = {instanceKey ''web'' ''a1''}"
proof -
  have h: "hosts_ok demo_codec (id demo_etcd)"
    by (simp add: hosts_ok_def demo_etcd_def subdir_def)
  have r: "roots_ok (id fmempty)" by (simp add: roots_ok_def names_plain_def)
  have s: "sessions_agree demo_codec" by (auto simp: sessions_agree_def demo_codec_def)
  have hosts: "abs_hosts demo_codec (id demo_etcd) h = None" for h
    by (simp add: abs_hosts_def demo_etcd_def subdir_def)
  have live: "sessions_of (id fmempty) = {}" by (simp add: sessions_of_def)
  have "etcd_ok demo_codec (\<lambda>_ _. None) (id demo_etcd)" using demo_etcd_ok by simp
  from etcd_gc_requests [OF demo_contract h this r s] show ?thesis
    unfolding live hosts by (auto simp: stale_def demo_services_abs demo_abs_def split: if_splits)
qed

end
