(* ===== verification/Fluxctl.thy ===== *)
theory Fluxctl
  imports NetUtil Inmem
begin

text \<open>
  The command line tool (\<open>fluxctl/\<close>). A command is the options its flags have set, its
  arguments and a store, given as the operations of \<open>store.Store\<close> that it calls; its result is
  what it prints, the error it returns and the store it leaves. What is printed with a template or
  a format string is an event, since the template language is a library.
\<close>

section \<open>Flags\<close>

record selector_opts =
  optEnv :: string
  optLabels :: string
  optImage :: string
  optTag :: string

datatype selector_flag = ImageFlag string | TagFlag string | LabelsFlag string | EnvFlag string

text \<open>The flags as \<open>addSelectorVars\<close> binds them to the fields.\<close>

fun set_selector_flag :: "selector_flag \<Rightarrow> selector_opts \<Rightarrow> selector_opts" where
  "set_selector_flag (ImageFlag v) opts = opts\<lparr>optImage := v\<rparr>"
| "set_selector_flag (TagFlag v) opts = opts\<lparr>optTag := v\<rparr>"
| "set_selector_flag (LabelsFlag v) opts = opts\<lparr>optLabels := v\<rparr>"
| "set_selector_flag (EnvFlag v) opts = opts\<lparr>optLabels := v\<rparr>"

definition no_selector_opts :: selector_opts where
  "no_selector_opts = \<lparr>optEnv = [], optLabels = [], optImage = [], optTag = []\<rparr>"

definition selector_flags :: "selector_flag list \<Rightarrow> selector_opts" where
  "selector_flags fs = fold set_selector_flag fs no_selector_opts"

section \<open>Rules from flags\<close>

definition selectorise_pair :: "string \<Rightarrow> string \<Rightarrow> label_map \<Rightarrow> label_map" where
  "selectorise_pair keyPrefix kv intoSel =
     (if kv = [] then intoSel
      else case splitN2 CHR ''='' (dropWhile (\<lambda>c. c = CHR '' '') kv) of
          [k] \<Rightarrow> intoSel(keyPrefix @ k \<mapsto> k)
        | [k, v] \<Rightarrow> intoSel(keyPrefix @ k \<mapsto> v)
        | _ \<Rightarrow> intoSel)"

definition selectorise :: "string \<Rightarrow> string \<Rightarrow> label_map \<Rightarrow> label_map" where
  "selectorise commaSeparatedLabels keyPrefix intoSel =
     fold (selectorise_pair keyPrefix) (split_all CHR '','' commaSeparatedLabels) intoSel"

definition makeSelector :: "selector_opts \<Rightarrow> label_map" where
  "makeSelector opts =
     (let sel = selectorise (optEnv opts) ''env.'' (selectorise (optLabels opts) [] Map.empty);
          sel = (if optImage opts \<noteq> [] then sel(''image'' \<mapsto> optImage opts) else sel)
      in if optTag opts \<noteq> [] then sel(''tag'' \<mapsto> optTag opts) else sel)"

definition makeSpec :: "selector_opts \<Rightarrow> container_rule option" where
  "makeSpec opts =
     (let sel = makeSelector opts in
      if \<not> selector_Empty sel then Some \<lparr>Selector = sel, ruleInstancePort = 0\<rparr> else None)"

section \<open>The store that commands change\<close>

record ('err, 's) store_ops =
  opCheck :: "string \<Rightarrow> 's \<Rightarrow> 'err option"
  opAddService :: "string \<Rightarrow> service \<Rightarrow> 's \<Rightarrow> 'err option \<times> 's"
  opRemoveService :: "string \<Rightarrow> 's \<Rightarrow> 'err option \<times> 's"
  opRemoveAll :: "'s \<Rightarrow> 'err option \<times> 's"
  opSetRule :: "string \<Rightarrow> string \<Rightarrow> container_rule \<Rightarrow> 's \<Rightarrow> 'err option \<times> 's"
  opRemoveRule :: "string \<Rightarrow> string \<Rightarrow> 's \<Rightarrow> 'err option \<times> 's"

datatype 'err flux_error =
    UsageError string
  | AddressError string
  | EmptyRule
  | StoreFailed string 'err

datatype flux_output =
    Println string
  | Printf string

type_synonym ('err, 's) outcome = "flux_output list \<times> 'err flux_error option \<times> 's"

abbreviation DEFAULT_RULE :: string where
  "DEFAULT_RULE \<equiv> ''default''"

section \<open>service\<close>

record add_opts =
  addSpec :: selector_opts
  addAddress :: string
  addInstancePort :: int
  addProtocol :: string

definition no_service :: service where
  "no_service = \<lparr>Address = None, InstancePort = 0, Protocol = []\<rparr>"

text \<open>
  An address that does not parse yields the zero \<open>IPPort\<close>, which has no IP address, so one test
  covers both cases.
\<close>

definition parseAddress :: "(string \<Rightarrow> string \<Rightarrow> int option) \<Rightarrow> string \<Rightarrow> service \<times> bool" where
  "parseAddress names address =
     (if address = [] then (no_service, True)
      else case ParseIPPort names address of
          None \<Rightarrow> (no_service, False)
        | Some addr \<Rightarrow>
            if ipport_IP addr = None then (no_service, False)
            else (no_service\<lparr>Address := Some addr\<rparr>, True))"

definition add_details :: "add_opts \<Rightarrow> service \<Rightarrow> service" where
  "add_details opts svc =
     (let svc = (if addProtocol opts \<noteq> [] then svc\<lparr>Protocol := addProtocol opts\<rparr> else svc)
      in case Address svc of
          Some a \<Rightarrow> if addInstancePort opts = 0 then svc\<lparr>InstancePort := ipPortNum a\<rparr>
                    else svc\<lparr>InstancePort := addInstancePort opts\<rparr>
        | None \<Rightarrow> svc\<lparr>InstancePort := addInstancePort opts\<rparr>)"

definition add_run ::
  "(string \<Rightarrow> string \<Rightarrow> int option) \<Rightarrow> ('err, 's) store_ops \<Rightarrow> add_opts \<Rightarrow> string list \<Rightarrow> 's \<Rightarrow> ('err, 's) outcome" where
  "add_run names st opts args s =
     (if length args \<noteq> 1 then ([], Some (UsageError ''Expected argument <name>''), s)
      else let serviceName = args ! 0 in
        case parseAddress names (addAddress opts) of
          (svc, False) \<Rightarrow> ([], Some (AddressError (addAddress opts)), s)
        | (svc, True) \<Rightarrow>
            (case opAddService st serviceName (add_details opts svc) s of
               (Some err, s1) \<Rightarrow> ([], Some (StoreFailed ''Error updating service: '' err), s1)
             | (None, s1) \<Rightarrow>
                 (case makeSpec (addSpec opts) of
                    None \<Rightarrow> ([Println serviceName], None, s1)
                  | Some spec \<Rightarrow>
                      (case opSetRule st serviceName DEFAULT_RULE spec s1 of
                         (Some err, s2) \<Rightarrow> ([], Some (StoreFailed ''Error updating service: '' err), s2)
                       | (None, s2) \<Rightarrow> ([Println serviceName], None, s2)))))"

section \<open>select, deselect and rm\<close>

record select_opts =
  selSpec :: selector_opts
  selInstancePort :: int

text \<open>The service and the rule a command names; the rule may be left out.\<close>

definition rule_args :: "string list \<Rightarrow> (string \<times> string) option" where
  "rule_args args =
     (if length args = 1 then Some (args ! 0, DEFAULT_RULE)
      else if length args = 2 then Some (args ! 0, args ! 1) else None)"

definition select_run :: "('err, 's) store_ops \<Rightarrow> select_opts \<Rightarrow> string list \<Rightarrow> 's \<Rightarrow> ('err, 's) outcome" where
  "select_run st opts args s =
     (case rule_args args of
        None \<Rightarrow> ([], Some (UsageError ''You must supply <service>, and you may supply <rule name>''), s)
      | Some (serviceName, ruleName) \<Rightarrow>
          (case opCheck st serviceName s of
             Some err \<Rightarrow> ([], Some (StoreFailed ''Error fetching service: '' err), s)
           | None \<Rightarrow>
               (case makeSpec (selSpec opts) of
                  None \<Rightarrow> ([], Some EmptyRule, s)
                | Some spec \<Rightarrow>
                    let spec = (if selInstancePort opts \<noteq> 0
                                then spec\<lparr>ruleInstancePort := selInstancePort opts\<rparr> else spec) in
                    (case opSetRule st serviceName ruleName spec s of
                       (Some err, s1) \<Rightarrow> ([], Some (StoreFailed ''Error updating service: '' err), s1)
                     | (None, s1) \<Rightarrow> ([Println ruleName], None, s1)))))"

text \<open>\<open>deselect\<close> prints the name of the rule as a format string.\<close>

definition deselect_run :: "('err, 's) store_ops \<Rightarrow> string list \<Rightarrow> 's \<Rightarrow> ('err, 's) outcome" where
  "deselect_run st args s =
     (case rule_args args of
        None \<Rightarrow> ([], Some (UsageError ''Expected <service> and optionally, <rule name>''), s)
      | Some (serviceName, ruleName) \<Rightarrow>
          (case opCheck st serviceName s of
             Some err \<Rightarrow> ([], Some (StoreFailed ''Error fetching service: '' err), s)
           | None \<Rightarrow>
               (case opRemoveRule st serviceName ruleName s of
                  (Some err, s1) \<Rightarrow> ([], Some (StoreFailed (''Unable to update service '' @ serviceName) err), s1)
                | (None, s1) \<Rightarrow> ([Printf ruleName], None, s1))))"

definition rm_run :: "('err, 's) store_ops \<Rightarrow> string list \<Rightarrow> 's \<Rightarrow> ('err, 's) outcome" where
  "rm_run st args s =
     (if length args \<noteq> 1
      then ([], Some (UsageError ''Please supply either a service name, or --all''), s)
      else case (if args ! 0 = ''--all'' then opRemoveAll st s else opRemoveService st (args ! 0) s) of
          (Some err, s1) \<Rightarrow> ([], Some (StoreFailed ''Failed to delete: '' err), s1)
        | (None, s1) \<Rightarrow> ([], None, s1))"

end
