(* ===== verification/FluxShow.thy ===== *)
theory FluxShow
  imports Fluxctl
begin

text \<open>
  The commands of the command line tool that show the state of the store: \<open>fluxctl/query.go\<close>,
  \<open>list.go\<close> and \<open>info.go\<close>. The result is the text printed and the error returned; \<open>None\<close> is a
  panic. Templates, the table writer and JSON are libraries and arguments: a template is parsed
  (\<open>None\<close> if it is malformed) and executed on a row, which yields the chunks it writes and an error.
\<close>

section \<open>Libraries and the store\<close>

record 'err show_store =
  shHosts :: "host list \<times> 'err option"
  shAll :: "query_opts \<Rightarrow> (string \<rightharpoonup> service_info) \<times> 'err option"
  shService :: "string \<Rightarrow> query_opts \<Rightarrow> service_info option \<times> 'err option"

datatype template_row =
    InstanceRow string string string inst
  | ServiceRow string service_info
  | RuleRow string string container_rule

record ('t, 'err) templates =
  tmParse :: "string \<Rightarrow> 't option"
  tmExec :: "'t \<Rightarrow> template_row \<Rightarrow> string list \<times> 'err option"
  tabWriter :: "string \<Rightarrow> string"

abbreviation nl :: string where
  "nl \<equiv> [CHR 0x0A]"

abbreviation tab :: string where
  "tab \<equiv> [CHR 0x09]"

text \<open>A loop that prints: it ends at the first error.\<close>

fun print_all :: "('a \<Rightarrow> string \<times> 'err option) \<Rightarrow> 'a list \<Rightarrow> string \<times> 'err option" where
  "print_all f [] = ([], None)"
| "print_all f (x # xs) =
     (case f x of
        (out, Some err) \<Rightarrow> (out, Some err)
      | (out, None) \<Rightarrow> (case print_all f xs of (rest, err) \<Rightarrow> (out @ rest, err)))"

section \<open>query\<close>

record show_opts =
  showSelector :: selector_opts
  showHost :: string
  showState :: string
  showRule :: string
  showService :: string
  showFormat :: string
  showQuiet :: bool

definition query_selector :: "show_opts \<Rightarrow> label_map" where
  "query_selector opts =
     (let sel = makeSelector (showSelector opts);
          sel = (if showHost opts \<noteq> [] then sel(''host'' \<mapsto> showHost opts) else sel);
          sel = (if showState opts \<noteq> [] then sel(''state'' \<mapsto> showState opts) else sel)
      in if showRule opts \<noteq> [] then sel(''rule'' \<mapsto> showRule opts) else sel)"

definition tableHeaders :: string where
  "tableHeaders = ''SERVICE'' @ tab @ ''INSTANCE'' @ tab @ ''ADDRESS'' @ tab @ ''STATE'' @ tab @ nl"

definition tableRowTemplate :: string where
  "tableRowTemplate = ''{{.Service}}'' @ tab @ ''{{.Name}}'' @ tab @ ''{{.Address}}'' @ tab @ ''{{.State}}''"

text \<open>The services of a query: all, or the one named.\<close>

definition asked_services ::
  "'err show_store \<Rightarrow> string \<Rightarrow> query_opts \<Rightarrow> (string \<rightharpoonup> service_info option) \<times> 'err option" where
  "asked_services st name opts =
     (if name = [] then (case shAll st opts of (m, err) \<Rightarrow> ((\<lambda>s. map_option Some (m s)), err))
      else case shService st name opts of (info, err) \<Rightarrow> ([name \<mapsto> info], err))"

definition print_row :: "('t, 'err) templates \<Rightarrow> (ip \<Rightarrow> string) \<Rightarrow> 't \<Rightarrow> string \<Rightarrow> string \<Rightarrow> inst \<Rightarrow> string \<times> 'err option" where
  "print_row tm ip_str t svcName instName i =
     (case tmExec tm t (InstanceRow svcName instName (instance_Label ip_str i ''state'') i) of
        (chunks, Some err) \<Rightarrow> (concat chunks, Some err)
      | (chunks, None) \<Rightarrow> (concat chunks @ nl, None))"

definition query_instances ::
  "string ordering \<Rightarrow> (ip \<Rightarrow> string) \<Rightarrow> label_map \<Rightarrow> (string \<Rightarrow> inst \<Rightarrow> string \<times> 'err option) \<Rightarrow>
     string \<Rightarrow> service_info \<Rightarrow> string \<times> 'err option" where
  "query_instances ord ip_str sel printInstance svcName svc =
     print_all (\<lambda>instName. case Instances svc instName of
          None \<Rightarrow> ([], None)
        | Some i \<Rightarrow>
            if selector_Includes ord [''sel'', svcName, instName] sel (\<lambda>k. Some (instance_Label ip_str i k)) = Some True
            then printInstance instName i else ([], None))
       (ord [''instances'', svcName] (dom (Instances svc)))"

definition query_services ::
  "string ordering \<Rightarrow> (ip \<Rightarrow> string) \<Rightarrow> label_map \<Rightarrow> (string \<Rightarrow> string \<Rightarrow> inst \<Rightarrow> string \<times> 'err option) \<Rightarrow>
     (string \<rightharpoonup> service_info option) \<Rightarrow> (string \<times> 'err option) option" where
  "query_services ord ip_str sel printInstance svcs =
     (if Some None \<in> range svcs then None
      else Some (print_all (\<lambda>svcName. case svcs svcName of
            Some (Some svc) \<Rightarrow> query_instances ord ip_str sel (printInstance svcName) svcName svc
          | _ \<Rightarrow> ([], None))
        (ord [''services''] (dom svcs))))"

definition query_run ::
  "string ordering \<Rightarrow> (ip \<Rightarrow> string) \<Rightarrow> ('t, 'err) templates \<Rightarrow> 'err show_store \<Rightarrow> show_opts \<Rightarrow> (string \<times> 'err option) option" where
  "query_run ord ip_str tm st opts =
     (let sel = query_selector opts;
          run = (\<lambda>printInstance wrap.
            case asked_services st (showService opts) \<lparr>WithInstances = True, WithContainerRules = False, WithIngressInstances = False\<rparr> of
              (svcs, Some err) \<Rightarrow> Some (wrap [], Some err)
            | (svcs, None) \<Rightarrow> map_option (\<lambda>(out, err). (wrap out, err)) (query_services ord ip_str sel printInstance svcs))
      in if showQuiet opts then run (\<lambda>_ instName _. (instName @ nl, None)) id
         else if showFormat opts = [] then
           (case tmParse tm tableRowTemplate of
              None \<Rightarrow> None
            | Some t \<Rightarrow> run (print_row tm ip_str t) (\<lambda>out. tabWriter tm (tableHeaders @ out)))
         else
           (case tmParse tm (showFormat opts) of
              None \<Rightarrow> None
            | Some t \<Rightarrow> run (print_row tm ip_str t) id))"

section \<open>list\<close>

record list_opts =
  listFormat :: string
  listFormatRule :: string
  listVerbose :: bool

definition defaultFormat :: string where
  "defaultFormat = ''{{.Name}}''"

definition defaultVerboseFormat :: string where
  "defaultVerboseFormat = ''{{.Name}}{{if .Address}}'' @ nl @
     ''  Address: {{.Address}}{{end}}{{if (ne .InstancePort 0)}}'' @ nl @
     ''  Instance port: {{.InstancePort}}{{end}}{{if .Protocol}}'' @ nl @
     ''  Protocol: {{.Protocol}}{{end}}''"

text \<open>The writer that remembers whether the last chunk ended in a newline.\<close>

definition enw_write :: "string \<times> bool \<Rightarrow> string \<Rightarrow> string \<times> bool" where
  "enw_write w p = (case w of (wr, newline) \<Rightarrow>
     (wr @ p, if length p > 0 then p ! (length p - 1) = CHR 0x0A else newline))"

definition enw_finish :: "string \<times> bool \<Rightarrow> string" where
  "enw_finish w = (case w of (wr, newline) \<Rightarrow> if newline then wr else wr @ nl)"

definition executeTemplate :: "('t, 'err) templates \<Rightarrow> 't \<Rightarrow> template_row \<Rightarrow> string \<times> 'err option" where
  "executeTemplate tm t row =
     (case tmExec tm t row of
        (chunks, Some err) \<Rightarrow> (concat chunks, Some err)
      | (chunks, None) \<Rightarrow> (enw_finish (fold (\<lambda>p w. enw_write w p) chunks ([], False)), None))"

definition list_rules :: "('t, 'err) templates \<Rightarrow> string ordering \<Rightarrow> 't \<Rightarrow> string \<Rightarrow> service_info \<Rightarrow> string \<times> 'err option" where
  "list_rules tm ord ruleTmpl svcName svc =
     print_all (\<lambda>ruleName. case ContainerRules svc ruleName of
          None \<Rightarrow> ([], None)
        | Some rule \<Rightarrow> executeTemplate tm ruleTmpl (RuleRow svcName ruleName rule))
       (ord [''rules'', svcName] (dom (ContainerRules svc)))"

definition list_service :: "('t, 'err) templates \<Rightarrow> string ordering \<Rightarrow> 't \<Rightarrow> 't option \<Rightarrow> string \<Rightarrow> service_info \<Rightarrow> string \<times> 'err option" where
  "list_service tm ord tmpl ruleTmpl svcName svc =
     (case executeTemplate tm tmpl (ServiceRow svcName svc) of
        (out, Some err) \<Rightarrow> (out, Some err)
      | (out, None) \<Rightarrow>
          (case ruleTmpl of
             None \<Rightarrow> (out, None)
           | Some rt \<Rightarrow> (case list_rules tm ord rt svcName svc of (rest, err) \<Rightarrow> (out @ rest, err))))"

text \<open>An error of a template is a panic here.\<close>

definition list_run ::
  "string ordering \<Rightarrow> ('t, 'err) templates \<Rightarrow> 'err show_store \<Rightarrow> list_opts \<Rightarrow> (string \<times> 'err option) option" where
  "list_run ord tm st opts =
     (let format = (if listFormat opts = [] then (if listVerbose opts then defaultVerboseFormat else defaultFormat)
                    else listFormat opts);
          verbose = (listFormatRule opts \<noteq> [] \<or> listVerbose opts);
          formatRule = (if listFormatRule opts \<noteq> [] then listFormatRule opts else ''  Rule: {{.Name}} {{json .Selector}}'')
      in case tmParse tm format of
          None \<Rightarrow> None
        | Some tmpl \<Rightarrow>
            (case (if verbose then map_option Some (tmParse tm formatRule) else Some None) of
               None \<Rightarrow> None
             | Some ruleTmpl \<Rightarrow>
                 (case shAll st \<lparr>WithInstances = False, WithContainerRules = verbose, WithIngressInstances = False\<rparr> of
                    (svcs, Some err) \<Rightarrow> Some ([], Some err)
                  | (svcs, None) \<Rightarrow>
                      (case print_all (\<lambda>svcName. case svcs svcName of
                            None \<Rightarrow> ([], None)
                          | Some svc \<Rightarrow> list_service tm ord tmpl ruleTmpl svcName svc)
                         (ord [''services''] (dom svcs)) of
                         (out, Some err) \<Rightarrow> None
                       | (out, None) \<Rightarrow> Some (out, None)))))"

section \<open>info\<close>

definition pointer_string :: "ipport option \<Rightarrow> string" where
  "pointer_string a = (case a of None \<Rightarrow> ''<nil>'' | Some p \<Rightarrow> ipport_String p)"

definition printService ::
  "string ordering \<Rightarrow> (label_map \<Rightarrow> string + 'err) \<Rightarrow> string \<Rightarrow> service_info \<Rightarrow> string \<times> 'err option" where
  "printService ord json name svc =
     (let header = name @ nl
            @ (case Address svc of None \<Rightarrow> [] | Some a \<Rightarrow> ''  Address: '' @ ipport_String a @ nl)
            @ (if InstancePort svc \<noteq> 0 then ''  Instance port: '' @ itoa (InstancePort svc) @ nl else [])
            @ (if Protocol svc \<noteq> [] then ''  Protocol: '' @ Protocol svc @ nl else [])
            @ ''  RULES'' @ nl
      in case print_all (\<lambda>ruleName. case ContainerRules svc ruleName of
              None \<Rightarrow> ([], None)
            | Some rule \<Rightarrow>
                (case json (Selector rule) of
                   Inr err \<Rightarrow> ([], Some err)
                 | Inl bytes \<Rightarrow> (''    '' @ ruleName @ '' '' @ bytes @ nl, None)))
            (ord [''rules'', name] (dom (ContainerRules svc))) of
          (rules, Some err) \<Rightarrow> (header @ rules, Some err)
        | (rules, None) \<Rightarrow>
            (header @ rules @ ''  INSTANCES'' @ nl
              @ concat (map (\<lambda>instName. ''    '' @ instName @ '' '' @
                  pointer_string (Option.bind (Instances svc instName) instAddress) @ nl)
                (ord [''instances'', name] (dom (Instances svc)))), None))"

definition info_run ::
  "string ordering \<Rightarrow> (label_map \<Rightarrow> string + 'err) \<Rightarrow> 'err show_store \<Rightarrow> string \<Rightarrow> (string \<times> 'err option) option" where
  "info_run ord json st service =
     (case shHosts st of
        (_, Some err) \<Rightarrow> Some ([], Some err)
      | (hosts, None) \<Rightarrow>
          (let head = ''HOSTS'' @ nl @ concat (map (\<lambda>h. ip_String (hostAddr h) @ nl) hosts) @ nl @ ''SERVICES'' @ nl in
           case asked_services st service
               \<lparr>WithInstances = True, WithContainerRules = True, WithIngressInstances = False\<rparr> of
             (_, Some err) \<Rightarrow> Some (head, Some err)
           | (svcs, None) \<Rightarrow>
               if Some None \<in> range svcs then None
               else (case print_all (\<lambda>name. case svcs name of
                           Some (Some svc) \<Rightarrow> printService ord json name svc
                         | _ \<Rightarrow> ([], None))
                         (ord [''services''] (dom svcs)) of
                       (out, err) \<Rightarrow> Some (head @ out, err))))"

end
