(* ===== verification/FluxCorrect.thy ===== *)
theory FluxCorrect
  imports FluxShow EtcdOps InmemCorrect
begin

text \<open>
  What the commands do to a store: the contract the commands need of it (\<open>flux_store\<close>), their
  effect under that contract, and the two stores of the program as instances of it. Then what the
  label flags mean, and what a query prints.
\<close>

section \<open>The contract of the store\<close>

locale flux_store =
  fixes st :: "('err, 's) store_ops" and inv :: "'s \<Rightarrow> bool"
    and details :: "'s \<Rightarrow> string \<rightharpoonup> service" and rules :: "'s \<Rightarrow> string \<Rightarrow> string \<rightharpoonup> container_rule"
    and good_name :: "string \<Rightarrow> bool" and good_service :: "service \<Rightarrow> bool" and good_rule :: "container_rule \<Rightarrow> bool"
  assumes check_ok: "inv s \<Longrightarrow> good_name n \<Longrightarrow> opCheck st n s = None \<longleftrightarrow> details s n \<noteq> None"
    and add_ok: "inv s \<Longrightarrow> good_name n \<Longrightarrow> good_service d \<Longrightarrow>
      \<exists>s'. opAddService st n d s = (None, s') \<and> inv s' \<and> details s' = (details s)(n \<mapsto> d) \<and>
        (\<forall>m. m \<noteq> n \<longrightarrow> rules s' m = rules s m)"
    and set_rule_ok: "inv s \<Longrightarrow> good_name n \<Longrightarrow> good_name r \<Longrightarrow> good_rule c \<Longrightarrow> details s n \<noteq> None \<Longrightarrow>
      \<exists>s'. opSetRule st n r c s = (None, s') \<and> inv s' \<and> details s' = details s \<and>
        rules s' = (rules s)(n := (rules s n)(r \<mapsto> c))"
    and remove_rule_ok: "inv s \<Longrightarrow> good_name n \<Longrightarrow> good_name r \<Longrightarrow> rules s n r \<noteq> None \<Longrightarrow>
      \<exists>s'. opRemoveRule st n r s = (None, s') \<and> inv s' \<and> details s' = details s \<and>
        rules s' = (rules s)(n := (rules s n)(r := None))"
    and remove_ok: "inv s \<Longrightarrow> good_name n \<Longrightarrow> details s n \<noteq> None \<Longrightarrow>
      \<exists>s'. opRemoveService st n s = (None, s') \<and> inv s' \<and> details s' = (details s)(n := None) \<and>
        (\<forall>m. m \<noteq> n \<longrightarrow> rules s' m = rules s m)"
    and rules_of_service: "inv s \<Longrightarrow> details s n = None \<Longrightarrow> rules s n = Map.empty"
begin

lemma add_run_ok:
  assumes "inv s" and "good_name n" and "good_name DEFAULT_RULE"
    and "parseAddress names (addAddress opts) = (svc, True)" and "good_service (add_details opts svc)"
    and "\<forall>c. makeSpec (addSpec opts) = Some c \<longrightarrow> good_rule c"
  shows "\<exists>s'. add_run names st opts [n] s = ([Println n], None, s') \<and> inv s' \<and>
    details s' = (details s)(n \<mapsto> add_details opts svc) \<and>
    (\<forall>c. makeSpec (addSpec opts) = Some c \<longrightarrow> rules s' n DEFAULT_RULE = Some c) \<and>
    (\<forall>m. m \<noteq> n \<longrightarrow> rules s' m = rules s m)"
proof -
  obtain t where t: "opAddService st n (add_details opts svc) s = (None, t)" "inv t"
    "details t = (details s)(n \<mapsto> add_details opts svc)" "\<forall>m. m \<noteq> n \<longrightarrow> rules t m = rules s m"
    using add_ok [OF assms(1,2,5)] by blast
  show ?thesis
  proof (cases "makeSpec (addSpec opts)")
    case None
    then show ?thesis using t assms(4) by (simp add: add_run_def)
  next
    case (Some c)
    have "details t n \<noteq> None" using t(3) by simp
    then obtain u where "opSetRule st n DEFAULT_RULE c t = (None, u)" "inv u" "details u = details t"
      "rules u = (rules t)(n := (rules t n)(DEFAULT_RULE \<mapsto> c))"
      using set_rule_ok [OF t(2) assms(2,3)] assms(6) Some by blast
    then show ?thesis using t assms(4) Some by (auto simp: add_run_def)
  qed
qed

lemma select_run_ok:
  assumes "inv s" and "good_name n" and "good_name r" and "args = [n, r] \<or> args = [n] \<and> r = DEFAULT_RULE"
    and "details s n \<noteq> None" and "makeSpec (selSpec opts) = Some c"
    and "good_rule (c\<lparr>ruleInstancePort := selInstancePort opts\<rparr>)"
  shows "\<exists>s'. select_run st opts args s = ([Println r], None, s') \<and> inv s' \<and> details s' = details s \<and>
    rules s' = (rules s)(n := (rules s n)(r \<mapsto> c\<lparr>ruleInstancePort := selInstancePort opts\<rparr>))"
proof -
  have "ruleInstancePort c = 0" using assms(6) by (auto simp: makeSpec_def Let_def split: if_splits)
  then have "c\<lparr>ruleInstancePort := selInstancePort opts\<rparr> = (if selInstancePort opts \<noteq> 0
      then c\<lparr>ruleInstancePort := selInstancePort opts\<rparr> else c)" by simp
  then show ?thesis
    using assms(4,6) check_ok [OF assms(1,2)] assms(5) set_rule_ok [OF assms(1-3,7,5)]
    by (auto simp: select_run_def rule_args_def)
qed

text \<open>A command on a service that is not there, or with nothing to select, changes nothing.\<close>

lemma refused:
  assumes "inv s" and "good_name n" and "rule_args args = Some (n, r)"
  shows "details s n = None \<Longrightarrow> \<exists>err. select_run st opts args s = ([], Some (StoreFailed ''Error fetching service: '' err), s)"
    and "details s n = None \<Longrightarrow> \<exists>err. deselect_run st args s = ([], Some (StoreFailed ''Error fetching service: '' err), s)"
    and "details s n \<noteq> None \<Longrightarrow> makeSpec (selSpec opts) = None \<Longrightarrow> select_run st opts args s = ([], Some EmptyRule, s)"
  using check_ok [OF assms(1,2)] assms(3) by (auto simp: select_run_def deselect_run_def)

lemma deselect_run_ok:
  assumes "inv s" and "good_name n" and "good_name r" and "args = [n, r] \<or> args = [n] \<and> r = DEFAULT_RULE"
    and "rules s n r \<noteq> None"
  shows "\<exists>s'. deselect_run st args s = ([Printf r], None, s') \<and> inv s' \<and> details s' = details s \<and>
    rules s' = (rules s)(n := (rules s n)(r := None))"
proof -
  have "details s n \<noteq> None" using rules_of_service [OF assms(1), of n] assms(5) by (metis)
  then show ?thesis
    using assms(4) check_ok [OF assms(1,2)] remove_rule_ok [OF assms(1-3,5)]
    by (auto simp: deselect_run_def rule_args_def)
qed

lemma rm_run_ok:
  assumes "inv s" and "good_name n" and "n \<noteq> ''--all''" and "details s n \<noteq> None"
  shows "\<exists>s'. rm_run st [n] s = ([], None, s') \<and> inv s' \<and> details s' = (details s)(n := None) \<and>
    (\<forall>m. m \<noteq> n \<longrightarrow> rules s' m = rules s m)"
  using assms(3) remove_ok [OF assms(1,2,4)] by (auto simp: rm_run_def)

text \<open>What \<open>select\<close> adds \<open>deselect\<close> takes away.\<close>

lemma deselect_undoes_select:
  assumes "inv s" and "good_name n" and "good_name r" and "rules s n r = None" and "details s n \<noteq> None"
    and "makeSpec (selSpec opts) = Some c" and "good_rule (c\<lparr>ruleInstancePort := selInstancePort opts\<rparr>)"
  shows "\<exists>s' s''. select_run st opts [n, r] s = ([Println r], None, s') \<and>
    deselect_run st [n, r] s' = ([Printf r], None, s'') \<and> inv s'' \<and> details s'' = details s \<and> rules s'' = rules s"
proof -
  obtain s' where s': "select_run st opts [n, r] s = ([Println r], None, s')" "inv s'" "details s' = details s"
    "rules s' = (rules s)(n := (rules s n)(r \<mapsto> c\<lparr>ruleInstancePort := selInstancePort opts\<rparr>))"
    using select_run_ok [OF assms(1-3) _ assms(5-7), of "[n, r]"] by blast
  have "rules s' n r \<noteq> None" using s'(4) by simp
  then obtain s'' where "deselect_run st [n, r] s' = ([Printf r], None, s'')" "inv s''" "details s'' = details s'"
    "rules s'' = (rules s')(n := (rules s' n)(r := None))"
    using deselect_run_ok [OF s'(2) assms(2,3), of "[n, r]"] by blast
  moreover have "(rules s n)(r := None) = rules s n" using assms(4) by (simp add: fun_upd_idem)
  ultimately show ?thesis using s' by auto
qed

end

section \<open>The stores of the program\<close>

definition inmem_store_ops :: "string ordering \<Rightarrow> (store_error, in_mem) store_ops" where
  "inmem_store_ops ord =
     \<lparr>opCheck = CheckRegisteredService, opAddService = AddService, opRemoveService = RemoveService,
      opRemoveAll = RemoveAllServices ord, opSetRule = SetContainerRule, opRemoveRule = RemoveContainerRule\<rparr>"

definition inmem_rules :: "in_mem \<Rightarrow> string \<Rightarrow> string \<rightharpoonup> container_rule" where
  "inmem_rules s n = (case imGroupSpecs s n of None \<Rightarrow> Map.empty | Some m \<Rightarrow> m)"

definition etcd_store_ops :: "codec \<Rightarrow> 'e etcd_client \<Rightarrow> (etcd_error, 'e) store_ops" where
  "etcd_store_ops cd client =
     \<lparr>opCheck = etcd_CheckRegisteredService client, opAddService = etcd_AddService cd client,
      opRemoveService = etcd_RemoveService client, opRemoveAll = etcd_RemoveAllServices client,
      opSetRule = etcd_SetContainerRule cd client, opRemoveRule = etcd_RemoveContainerRule client\<rparr>"

definition service_details :: "(string \<rightharpoonup> abs_service) \<Rightarrow> string \<rightharpoonup> service" where
  "service_details M = (\<lambda>n. map_option asService (M n))"

definition service_rules :: "(string \<rightharpoonup> abs_service) \<Rightarrow> string \<Rightarrow> string \<rightharpoonup> container_rule" where
  "service_rules M n = (case M n of None \<Rightarrow> Map.empty | Some A \<Rightarrow> asRules A)"

lemma inmem_groups: "store_ok s \<Longrightarrow> (imServices s n = None) = (imGroupSpecs s n = None)"
  unfolding store_ok_def by (metis domIff)

interpretation inmem_flux: flux_store "inmem_store_ops ord" "\<lambda>s. store_ok s \<and> imInjected s = None" imServices
  inmem_rules "\<lambda>_. True" "\<lambda>_. True" "\<lambda>_. True" for ord
proof (unfold_locales, goal_cases)
  case (1 s n)
  then show ?case by (simp add: inmem_store_ops_def CheckRegisteredService_def)
next
  case (2 s n d)
  have "store_ok (snd (AddService n d s))"
    using store_step_ok [OF sorted_ordering_ok sorted_ordering_ok, of s "OpAddService n d"] 2 by simp
  then show ?case using 2 by (auto simp: inmem_store_ops_def AddService_def Let_def inmem_rules_def)
next
  case (3 s n r c)
  have "store_ok (snd (SetContainerRule n r c s))"
    using store_step_ok [OF sorted_ordering_ok sorted_ordering_ok, of s "OpSetContainerRule n r c"] 3 by simp
  moreover obtain m where "imGroupSpecs s n = Some m" using 3 inmem_groups [of s n] by auto
  ultimately show ?case using 3
    by (simp add: inmem_store_ops_def SetContainerRule_def Let_def inmem_rules_def fun_eq_iff)
next
  case (4 s n r)
  have "store_ok (snd (RemoveContainerRule n r s))"
    using store_step_ok [OF sorted_ordering_ok sorted_ordering_ok, of s "OpRemoveContainerRule n r"] 4 by simp
  moreover obtain m where "imGroupSpecs s n = Some m" using 4 by (auto simp: inmem_rules_def split: option.splits)
  ultimately show ?case using 4
    by (simp add: inmem_store_ops_def RemoveContainerRule_def Let_def inmem_rules_def fun_eq_iff)
next
  case (5 s n)
  have "store_ok (snd (RemoveService n s))"
    using store_step_ok [OF sorted_ordering_ok sorted_ordering_ok, of s "OpRemoveService n"] 5 by simp
  then show ?case using 5 by (auto simp: inmem_store_ops_def RemoveService_def Let_def inmem_rules_def)
next
  case (6 s n)
  then show ?case using inmem_groups [of s n] by (simp add: inmem_rules_def)
qed

lemma service_details_upd [simp]: "service_details (M(n \<mapsto> A)) = (service_details M)(n \<mapsto> asService A)"
  "service_details (M(n := None)) = (service_details M)(n := None)"
  by (auto simp: service_details_def)

lemma service_rules_upd: "service_rules (M(n \<mapsto> A)) = (service_rules M)(n := asRules A)"
  by (auto simp: service_rules_def)

context etcd_contract
begin

lemma CheckRegisteredService_ok:
  assumes "etcd_ok cd names (tree e)" and "listed_name n"
  shows "etcd_CheckRegisteredService client n e = None \<longleftrightarrow> abs_services cd names (tree e) n \<noteq> None"
proof -
  have kp: "key_path (serviceRootKey n) = service_dir @ [n]" and pk: "plain_key (serviceRootKey n)"
    using key_path_keys(1) [OF listed_nameD(3) [OF assms(2)]] plain_keys(1) [OF listed_nameD(1) [OF assms(2)]] by simp_all
  have nl: "no_leaf service_dir (tree e)" using assms(1) by (simp add: etcd_ok_def roots_ok_def)
  have g: "tree_get (service_dir @ [n]) (tree e) = fmlookup (services_of (tree e)) n"
    using tree_get_snoc [OF nl] by (simp add: services_of_def)
  show ?thesis
  proof (cases "fmlookup (services_of (tree e)) n")
    case None
    then have "tree_get (key_path (serviceRootKey n)) (tree e) = None" using g kp by simp
    from get_none [OF pk this, of False] None show ?thesis
      by (auto simp: etcd_CheckRegisteredService_def abs_services_def)
  next
    case (Some t)
    then have "tree_get (key_path (serviceRootKey n)) (tree e) = Some t" using g kp by simp
    moreover obtain m where "t = Branch m" using Some assms(1) by (auto simp: etcd_ok_def)
    ultimately show ?thesis using get_node [OF pk, of e t False] Some
      by (auto simp: etcd_CheckRegisteredService_def abs_services_def)
  qed
qed

lemma etcd_flux_store:
  "flux_store (etcd_store_ops cd client) (\<lambda>e. etcd_ok cd names (tree e))
     (\<lambda>e. service_details (abs_services cd names (tree e))) (\<lambda>e. service_rules (abs_services cd names (tree e)))
     listed_name (encodes (encService cd) (decService cd)) (encodes (encRule cd) (decRule cd))"
proof (unfold_locales, goal_cases)
  case (1 e n)
  then show ?case using CheckRegisteredService_ok [OF 1] by (simp add: etcd_store_ops_def service_details_def)
next
  case (2 e n d)
  from AddService_ok [OF 2] show ?case
    by (auto simp: etcd_store_ops_def becomes_def service_rules_upd new_service_def split: option.splits)
next
  case (3 e n r c)
  then obtain A where A: "abs_services cd names (tree e) n = Some A" by (auto simp: service_details_def)
  from SetContainerRule_ok [OF 3(1) A 3(2-4)] A show ?case
    by (auto simp: etcd_store_ops_def becomes_def service_rules_upd service_rules_def service_details_def fun_eq_iff)
next
  case (4 e n r)
  then obtain A where A: "abs_services cd names (tree e) n = Some A" "asRules A r \<noteq> None"
    by (auto simp: service_rules_def split: option.splits)
  from RemoveContainerRule_ok [OF 4(1) A(1) 4(2,3)] A show ?case
    by (auto simp: etcd_store_ops_def becomes_def service_rules_upd service_rules_def service_details_def fun_eq_iff)
next
  case (5 e n)
  then have "abs_services cd names (tree e) n \<noteq> None" by (simp add: service_details_def)
  with RemoveService_ok [OF 5(1,2)] show ?case
    by (auto simp: etcd_store_ops_def becomes_def service_rules_def)
next
  case (6 e n)
  then show ?case by (simp add: service_rules_def service_details_def)
qed

end

interpretation etcd_flux: flux_store "etcd_store_ops cd tree_client" "\<lambda>e. etcd_ok cd names (id e)"
  "\<lambda>e. service_details (abs_services cd names (id e))" "\<lambda>e. service_rules (abs_services cd names (id e))"
  listed_name "encodes (encService cd) (decService cd)" "encodes (encRule cd) (decRule cd)" for cd names
  by (rule tree_etcd.etcd_flux_store)

end
