(* ===== verification/EtcdInstances.thy ===== *)
theory EtcdInstances
  imports SetInstances EtcdProps
begin

text \<open>
  The etcd store as the store the agent writes to: over every etcd that keeps its contract, the
  operations of \<open>common/store/etcdstore/etcdstore.go\<close> provide what \<open>instance_store\<close> asks for,
  while the session of the host is live.
\<close>

section \<open>The operations and what they show\<close>

text \<open>The results and the errors of \<open>GetAllServices\<close> and \<open>GetService\<close> as pairs, as Go returns them.\<close>

definition etcd_getAll ::
  "string ordering \<Rightarrow> codec \<Rightarrow> (string \<Rightarrow> string \<Rightarrow> int option) \<Rightarrow> 'e etcd_client \<Rightarrow> 'e \<Rightarrow> query_opts \<Rightarrow>
     (string \<rightharpoonup> service_info) \<times> etcd_error option" where
  "etcd_getAll ord cd names client e opts =
     (case etcd_GetAllServices ord cd names client opts e of
        Inl err \<Rightarrow> (Map.empty, Some err)
      | Inr svcs \<Rightarrow> (svcs, None))"

definition etcd_getOne ::
  "string ordering \<Rightarrow> codec \<Rightarrow> (string \<Rightarrow> string \<Rightarrow> int option) \<Rightarrow> 'e etcd_client \<Rightarrow> 'e \<Rightarrow> string \<Rightarrow> query_opts \<Rightarrow>
     service_info option \<times> etcd_error option" where
  "etcd_getOne ord cd names client e name opts =
     (case etcd_GetService ord cd names client name opts e of
        Inl err \<Rightarrow> (None, Some err)
      | Inr svc \<Rightarrow> (Some svc, None))"

definition etcd_instance_ops ::
  "string ordering \<Rightarrow> codec \<Rightarrow> (string \<Rightarrow> string \<Rightarrow> int option) \<Rightarrow> 'e etcd_client \<Rightarrow> string \<Rightarrow> (etcd_error, 'e) instance_ops" where
  "etcd_instance_ops ord cd names client sess =
     \<lparr>ioGetAllServices = (\<lambda>e. etcd_getAll ord cd names client e
        \<lparr>WithInstances = True, WithContainerRules = False, WithIngressInstances = False\<rparr>),
      ioAddInstance = etcd_AddInstance cd client (Some sess),
      ioRemoveInstance = etcd_RemoveInstance client\<rparr>"

text \<open>The instances that queries show: those of live sessions.\<close>

definition etcd_view ::
  "codec \<Rightarrow> (string \<Rightarrow> string \<Rightarrow> int option) \<Rightarrow> etcd_dir \<Rightarrow> instance_key \<rightharpoonup> inst" where
  "etcd_view cd names d k =
     (case abs_services cd names d (fst k) of
        None \<Rightarrow> None
      | Some A \<Rightarrow> of_live (sessions_of d) (asInstances A) (snd k))"

definition etcd_instances_ok :: "codec \<Rightarrow> (string \<Rightarrow> string \<Rightarrow> int option) \<Rightarrow> string \<Rightarrow> etcd_dir \<Rightarrow> bool" where
  "etcd_instances_ok cd names sess d \<longleftrightarrow> etcd_ok cd names d \<and> sess \<in> sessions_of d \<and>
     (\<forall>s A n. abs_services cd names d s = Some A \<longrightarrow> asInstances A n \<noteq> None \<longrightarrow> listed_name n)"

definition listed_key :: "instance_key \<Rightarrow> bool" where
  "listed_key k \<longleftrightarrow> listed_name (fst k) \<and> listed_name (snd k)"

section \<open>Finiteness and names\<close>

lemma finite_abs_services: "finite (dom (abs_services cd names d))"
proof -
  have "dom (abs_services cd names d) \<subseteq> fmdom' (services_of d)"
    by (auto simp: abs_services_def fmlookup_dom'_iff split: option.splits)
  then show ?thesis using finite_fmdom' finite_subset by blast
qed

lemma finite_of_live:
  assumes "abs_services cd names d s = Some A"
  shows "finite (dom (of_live live (asInstances A)))"
proof -
  obtain m where m: "A = abs_of cd names m"
    using assms by (auto simp: abs_services_def split: option.splits etcd_tree.splits)
  have "dom (of_live live (asInstances A)) \<subseteq> fmdom' (subdir INSTANCE_PATH m)"
    by (auto simp: of_live_def m abs_of_def leaves_leaf_map leaf_map_def fmlookup_dom'_iff
        split: option.splits etcd_tree.splits Option.bind_splits)
  then show ?thesis using finite_fmdom' finite_subset by blast
qed

lemma abs_services_listed: "etcd_ok cd names d \<Longrightarrow> abs_services cd names d s \<noteq> None \<Longrightarrow> listed_name s"
  by (auto simp: etcd_ok_def abs_services_def listed_name_def split: option.splits)

text \<open>A change of the instances of one service, as the view and the invariant see it.\<close>

lemma instances_become:
  assumes "etcd_instances_ok cd names sess d" and "abs_services cd names d s = Some A"
    and "becomes cd names d ((abs_services cd names d)(s \<mapsto> A\<lparr>asInstances := M\<rparr>)) d'"
    and "\<And>n. M n \<noteq> None \<Longrightarrow> listed_name n"
  shows "etcd_instances_ok cd names sess d'"
    and "(\<lambda>s. abs_services cd names d' s \<noteq> None) = (\<lambda>s. abs_services cd names d s \<noteq> None)"
    and "etcd_view cd names d' = (\<lambda>k. if fst k = s then of_live (sessions_of d) M (snd k) else etcd_view cd names d k)"
proof -
  have b: "etcd_ok cd names d'" "sessions_of d' = sessions_of d"
    "abs_services cd names d' = (abs_services cd names d)(s \<mapsto> A\<lparr>asInstances := M\<rparr>)"
    using assms(3) by (simp_all add: becomes_def)
  show "etcd_instances_ok cd names sess d'"
    using assms(1,4) b(1) by (auto simp: etcd_instances_ok_def b(2,3) split: if_splits)
  show "(\<lambda>s. abs_services cd names d' s \<noteq> None) = (\<lambda>s. abs_services cd names d s \<noteq> None)"
    using assms(2) by (auto simp: b(3) fun_eq_iff)
  show "etcd_view cd names d' = (\<lambda>k. if fst k = s then of_live (sessions_of d) M (snd k) else etcd_view cd names d k)"
    unfolding etcd_view_def b(2) by (auto simp: b(3) fun_eq_iff)
qed

lemma of_live_upd: "sess \<in> live \<Longrightarrow> of_live live (M(n \<mapsto> (i, sess))) = (of_live live M)(n \<mapsto> i)"
  "of_live live (M(n := None)) = (of_live live M)(n := None)"
  by (auto simp: of_live_def fun_eq_iff)

context etcd_contract
begin

text \<open>There is no record to remove where there is no service.\<close>

lemma delete_missing:
  assumes "etcd_ok cd names (tree e)" and "abs_services cd names (tree e) s = None"
    and "plain_key key" and "key_path key = service_dir @ [s, sub, n]"
  shows "\<exists>m e'. deleteRecursive client key e = (Some m, e') \<and> tree e' = tree e"
proof -
  have nl: "no_leaf service_dir (tree e)" using assms(1) by (simp add: etcd_ok_def roots_ok_def)
  have no: "fmlookup (dir_at service_dir (tree e)) s = None"
    using abs_service_new [OF assms(1,2)] unfolding services_of_def .
  then have "no_leaf (service_dir @ [s, sub]) (tree e)"
    "fmlookup (dir_at (service_dir @ [s, sub]) (tree e)) n = None"
    using nl unfolding no_leaf_append dir_at_append by (simp_all add: subdir_def)
  from tree_delete_missing [OF this, of True]
  have "tree_delete True (key_path key) (tree e) = None" by (simp add: assms(4))
  from delete_fails [OF assms(3) this] show ?thesis by (auto simp: deleteRecursive_def)
qed

end

section \<open>What the agent relies on\<close>

lemma etcd_instance_store:
  assumes "etcd_contract client tree" and "ordering_ok ord"
  shows "instance_store (etcd_instance_ops ord cd names client sess) (\<lambda>e. etcd_instances_ok cd names sess (tree e))
    (\<lambda>e s. abs_services cd names (tree e) s \<noteq> None) (\<lambda>e. etcd_view cd names (tree e)) listed_key
    (\<lambda>i. encodes (encInstance cd) (decInstance cd) (i, sess))"
proof (unfold_locales, goal_cases get view add remove)
  case (get e)
  let ?opts = "\<lparr>WithInstances = True, WithContainerRules = False, WithIngressInstances = False\<rparr>"
  let ?svcs = "\<lambda>s. map_option (abs_info ?opts (sessions_of (tree e))) (abs_services cd names (tree e) s)"
  have "ioGetAllServices (etcd_instance_ops ord cd names client sess) e = (?svcs, None)"
    using etcd_contract.GetAllServices_ok [OF assms] get
    by (simp add: etcd_instance_ops_def etcd_getAll_def etcd_instances_ok_def)
  moreover have "dom ?svcs = dom (abs_services cd names (tree e))" by auto
  moreover have "finite (dom (Instances svc))" if "?svcs n = Some svc" for n svc
    using that finite_of_live by (auto simp: abs_info_def service.defs)
  moreover have "etcd_view cd names (tree e) (n, m) = (case ?svcs n of None \<Rightarrow> None | Some svc \<Rightarrow> Instances svc m)" for n m
    by (auto simp: etcd_view_def abs_info_def service.defs split: option.split)
  ultimately show ?case using finite_abs_services by (intro exI [of _ ?svcs]) auto
next
  case (view e k)
  then obtain A where A: "abs_services cd names (tree e) (fst k) = Some A" "asInstances A (snd k) \<noteq> None"
    by (auto simp: etcd_view_def of_live_def split: option.splits)
  then have "listed_name (fst k)"
    using view(1) abs_services_listed [of cd names "tree e" "fst k"] by (simp add: etcd_instances_ok_def)
  then show ?case using view(1) A by (auto simp: etcd_instances_ok_def listed_key_def)
next
  case (add e svc name i)
  then have ok: "etcd_ok cd names (tree e)" and live: "sess \<in> sessions_of (tree e)"
    and names: "listed_name svc" "listed_name name" by (simp_all add: etcd_instances_ok_def listed_key_def)
  obtain A where A: "abs_services cd names (tree e) svc = Some A" using add(2) by blast
  obtain e' where e': "etcd_AddInstance cd client (Some sess) svc name i e = Some (None, e')"
    "becomes cd names (tree e)
      ((abs_services cd names (tree e))(svc \<mapsto> A\<lparr>asInstances := (asInstances A)(name \<mapsto> (i, sess))\<rparr>)) (tree e')"
    using etcd_contract.AddInstance_ok [OF assms(1) ok A names add(4)] by blast
  have listed: "listed_name n" if "((asInstances A)(name \<mapsto> (i, sess))) n \<noteq> None" for n
    using that names(2) add(1) A by (cases "n = name") (auto simp: etcd_instances_ok_def)
  note ch = instances_become [OF add(1) A e'(2) listed]
  have "etcd_view cd names (tree e') = (etcd_view cd names (tree e))((svc, name) \<mapsto> i)"
    by (rule trans [OF ch(3)]) (auto simp: of_live_upd(1) [OF live] fun_eq_iff etcd_view_def A)
  then show ?case using e'(1) ch(1,2) by (auto simp: etcd_instance_ops_def)
next
  case (remove e svc name)
  then have ok: "etcd_ok cd names (tree e)" and names: "listed_name svc" "listed_name name"
    by (simp_all add: etcd_instances_ok_def listed_key_def)
  have fail: ?case if "etcd_RemoveInstance client svc name e = (Some m, e')" "tree e' = tree e"
    "etcd_view cd names (tree e) (svc, name) = None" for m e'
    using that remove(1) by (auto simp: etcd_instance_ops_def fun_eq_iff)
  show ?case
  proof (cases "abs_services cd names (tree e) svc")
    case None
    then show ?thesis using etcd_contract.delete_missing [OF assms(1) ok None record_key_path(4,2) [OF names]] fail
      by (auto simp: etcd_view_def etcd_RemoveInstance_def)
  next
    case (Some A)
    note r = etcd_contract.RemoveInstance_ok [OF assms(1) ok Some names]
    show ?thesis
    proof (cases "asInstances A name = None")
      case True
      then show ?thesis using r fail Some by (auto simp: etcd_view_def of_live_def)
    next
      case False
      then obtain e' where e': "etcd_RemoveInstance client svc name e = (None, e')"
        "becomes cd names (tree e)
          ((abs_services cd names (tree e))(svc \<mapsto> A\<lparr>asInstances := (asInstances A)(name := None)\<rparr>)) (tree e')"
        using r by auto
      have listed: "listed_name n" if "((asInstances A)(name := None)) n \<noteq> None" for n
        using that remove(1) Some by (auto simp: etcd_instances_ok_def split: if_splits)
      note ch = instances_become [OF remove(1) Some e'(2) listed]
      have "etcd_view cd names (tree e') = (etcd_view cd names (tree e))((svc, name) := None)"
        by (rule trans [OF ch(3)]) (auto simp: of_live_upd(2) fun_eq_iff etcd_view_def Some)
      then show ?thesis using e'(1) ch(1,2) by (auto simp: etcd_instance_ops_def)
    qed
  qed
qed

interpretation tree_instances: instance_store "etcd_instance_ops sorted_ordering cd names tree_client sess"
    "etcd_instances_ok cd names sess" "\<lambda>d s. abs_services cd names d s \<noteq> None" "etcd_view cd names" listed_key
    "\<lambda>i. encodes (encInstance cd) (decInstance cd) (i, sess)" for cd names sess
  using etcd_instance_store [OF demo_contract sorted_ordering_ok] by simp

section \<open>A store for the agent\<close>

text \<open>The demo store, with a codec whose instances are those the matcher's demo run emits.\<close>

definition agent_codec :: codec where
  "agent_codec = demo_codec\<lparr>encInstance := (\<lambda>(i, s). Some s), decInstance := (\<lambda>s. Some (demo_instance, s))\<rparr>"

lemma agent_encodes: "encodes (encInstance agent_codec) (decInstance agent_codec) (demo_instance, s)"
  by (simp add: encodes_def agent_codec_def)

lemma agent_services:
  "abs_services agent_codec names demo_etcd = [''web'' \<mapsto> demo_abs\<lparr>asInstances := [''a1'' \<mapsto> (demo_instance, ''S1'')]\<rparr>]"
proof -
  have "abs_of agent_codec names demo_web = demo_abs\<lparr>asInstances := [''a1'' \<mapsto> (demo_instance, ''S1'')]\<rparr>"
    by (auto simp: abs_of_def demo_web_def agent_codec_def demo_codec_def demo_abs_def demo_details_def leaves_def
        path_distinct [symmetric] fun_eq_iff split: if_splits)
  then show ?thesis by (auto simp: abs_services_def demo_services fun_eq_iff)
qed

lemma agent_etcd_ok: "etcd_instances_ok agent_codec names ''S1'' demo_etcd"
proof -
  have "service_dir_ok agent_codec names demo_web"
    by (auto simp: service_dir_ok_def names_plain_def demo_web_def records_ok_def agent_codec_def demo_codec_def
        visible_def path_distinct [symmetric] split: if_splits)
  then have "etcd_ok agent_codec names demo_etcd"
    using demo_etcd_ok [of names] by (auto simp: etcd_ok_def demo_services split: if_splits)
  then show ?thesis using demo_listed(3)
    by (auto simp: etcd_instances_ok_def demo_sessions agent_services split: if_splits)
qed

lemma agent_view: "etcd_view agent_codec names demo_etcd = [(''web'', ''a1'') \<mapsto> demo_instance]"
  by (auto simp: etcd_view_def agent_services of_live_def demo_sessions fun_eq_iff)

end
