(* ===== verification/FluxProps.thy ===== *)
theory FluxProps
  imports FluxCorrect EtcdInstances
begin

text \<open>
  The properties of the command line tool: the flags that describe a rule, the commands that
  change the store, over both stores of the program, and the query.
\<close>

section \<open>Label flags\<close>

text \<open>The text of a flag that gives a list of labels.\<close>

definition label_flag :: "(string \<times> string) list \<Rightarrow> string" where
  "label_flag ps = joinWith CHR '','' (map (\<lambda>(k, v). k @ CHR ''='' # v) ps)"

definition label_ok :: "string \<times> string \<Rightarrow> bool" where
  "label_ok p \<longleftrightarrow> CHR '','' \<notin> set (fst p) \<and> CHR '','' \<notin> set (snd p) \<and> CHR ''='' \<notin> set (fst p) \<and>
     (fst p = [] \<or> hd (fst p) \<noteq> CHR '' '')"

lemma split_join:
  "ss \<noteq> [] \<Longrightarrow> (\<And>s. s \<in> set ss \<Longrightarrow> c \<notin> set s) \<Longrightarrow> split_all c (joinWith c ss) = ss"
  by (induction ss rule: joinWith.induct) auto

lemma selectorise_pair_label:
  assumes "label_ok (k, v)"
  shows "selectorise_pair prefix (k @ CHR ''='' # v) sel = sel(prefix @ k \<mapsto> v)"
proof -
  have "dropWhile (\<lambda>c. c = CHR '' '') (k @ CHR ''='' # v) = k @ CHR ''='' # v"
    using assms by (cases k) (auto simp: label_ok_def)
  then show ?thesis using assms splitN2_sep [of "CHR ''=''" k v]
    by (simp add: selectorise_pair_def label_ok_def)
qed

lemma selectorise_labels:
  assumes "\<forall>p \<in> set ps. label_ok p"
  shows "selectorise (label_flag ps) prefix sel = sel ++ map_of (rev (map (\<lambda>(k, v). (prefix @ k, v)) ps))"
proof (cases "ps = []")
  case True
  then show ?thesis by (simp add: selectorise_def label_flag_def selectorise_pair_def)
next
  case False
  let ?txt = "\<lambda>(k, v). k @ CHR ''='' # v"
  have "CHR '','' \<notin> set s" if "s \<in> set (map ?txt ps)" for s
    using that assms by (auto simp: label_ok_def)
  then have "split_all CHR '','' (label_flag ps) = map ?txt ps"
    unfolding label_flag_def using False by (intro split_join) auto
  then have "selectorise (label_flag ps) prefix sel = fold (\<lambda>p. selectorise_pair prefix (?txt p)) ps sel"
    by (simp add: selectorise_def fold_map comp_def)
  moreover have "fold (\<lambda>p. selectorise_pair prefix (?txt p)) ps sel
      = sel ++ map_of (rev (map (\<lambda>(k, v). (prefix @ k, v)) ps))" using assms
  proof (induction ps arbitrary: sel)
    case (Cons p ps)
    obtain k v where p: "p = (k, v)" by (cases p)
    have "label_ok (k, v)" "\<forall>q \<in> set ps. label_ok q" using Cons.prems p by auto
    then show ?case using Cons.IH selectorise_pair_label p by (simp add: map_add_upd_left [symmetric]) 
  qed simp
  ultimately show ?thesis by simp
qed

text \<open>The labels a command line asks for, in the order in which they are set.\<close>

definition asked_labels :: "(string \<times> string) list \<Rightarrow> (string \<times> string) list \<Rightarrow> string \<Rightarrow> string \<Rightarrow> (string \<times> string) list" where
  "asked_labels labels envs img tag = labels @ map (\<lambda>(k, v). (''env.'' @ k, v)) envs @
     (if img \<noteq> [] then [(''image'', img)] else []) @ (if tag \<noteq> [] then [(''tag'', tag)] else [])"

lemma makeSelector_labels:
  assumes "\<forall>p \<in> set labels \<union> set envs. label_ok p"
  shows "makeSelector \<lparr>optEnv = label_flag envs, optLabels = label_flag labels, optImage = img, optTag = tag\<rparr>
    = map_of (rev (asked_labels labels envs img tag))"
proof -
  have "\<forall>p \<in> set labels. label_ok p" "\<forall>p \<in> set envs. label_ok p" using assms by auto
  then show ?thesis by (simp add: makeSelector_def Let_def asked_labels_def selectorise_labels case_prod_beta)
qed

lemma asked_labels_none: "asked_labels labels envs img tag = [] \<longleftrightarrow> labels = [] \<and> envs = [] \<and> img = [] \<and> tag = []"
  by (auto simp: asked_labels_def)

lemma makeSpec_some: "makeSpec opts = (if makeSelector opts = Map.empty then None
    else Some \<lparr>Selector = makeSelector opts, ruleInstancePort = 0\<rparr>)"
  by (simp add: makeSpec_def selector_Empty_def)

text \<open>
  The rule a command line describes selects a container exactly when the container has every
  label that was asked for, with the value given last; \<open>env.\<close> is put before the names of the
  environment, values may hold any number of equals signs, and there is no rule exactly when
  nothing was asked for.
\<close>

theorem flux_flags_select:
  assumes "\<forall>p \<in> set labels \<union> set envs. label_ok p" and "ordering_ok ord"
    and "opts = \<lparr>optEnv = label_flag envs, optLabels = label_flag labels, optImage = img, optTag = tag\<rparr>"
  shows "(makeSpec opts = None \<longleftrightarrow> asked_labels labels envs img tag = []) \<and>
    (\<forall>rule l label. makeSpec opts = Some rule \<longrightarrow>
       (rule_Includes ord l rule label = Some True \<longleftrightarrow>
        (\<forall>k v. map_of (rev (asked_labels labels envs img tag)) k = Some v \<longrightarrow> label k = Some v)))"
proof -
  have sel: "makeSelector opts = map_of (rev (asked_labels labels envs img tag))"
    unfolding assms(3) by (rule makeSelector_labels [OF assms(1)])
  have "finite (dom (makeSelector opts))" unfolding sel by (rule finite_dom_map_of)
  then show ?thesis unfolding makeSpec_some
    by (auto simp: rule_Includes_def selector_Includes_True [OF assms(2)] sel)
qed

theorem flux_flags_select_witness:
  "\<exists>rule. makeSpec \<lparr>optEnv = ''SERVICE=pages=>borp'', optLabels = ''foo=bar'', optImage = [], optTag = ''1''\<rparr> = Some rule \<and>
     rule_Includes sorted_ordering [] rule (\<lambda>k. Some (if k = ''foo'' then ''bar'' else if k = ''tag'' then ''1''
       else if k = ''env.SERVICE'' then ''pages=>borp'' else [])) = Some True"
proof -
  have "\<forall>p \<in> set [(''foo'', ''bar'')] \<union> set [(''SERVICE'', ''pages=>borp'')]. label_ok p"
    by (simp add: label_ok_def)
  from flux_flags_select [OF this sorted_ordering_ok refl, of "[]" "''1''"]
  show ?thesis by (auto simp: label_flag_def asked_labels_def)
qed

text \<open>
  The flag \<open>--env\<close> is bound to the field of \<open>--labels\<close>: it asks for a plain label, replaces
  the labels given before it, and the field for the environment is never set.
\<close>

theorem flux_env_flag:
  "selector_flags fs = selector_flags (map (\<lambda>f. case f of EnvFlag v \<Rightarrow> LabelsFlag v | _ \<Rightarrow> f) fs) \<and>
   optEnv (selector_flags fs) = [] \<and>
   (label_ok (k, v) \<longrightarrow> makeSelector (selector_flags [LabelsFlag l, EnvFlag (label_flag [(k, v)])]) = [k \<mapsto> v])"
proof (intro conjI impI)
  have s: "set_selector_flag (case f of EnvFlag v \<Rightarrow> LabelsFlag v | _ \<Rightarrow> f) opts = set_selector_flag f opts" for f opts
    by (cases f) auto
  show "selector_flags fs = selector_flags (map (\<lambda>f. case f of EnvFlag v \<Rightarrow> LabelsFlag v | _ \<Rightarrow> f) fs)"
    unfolding selector_flags_def fold_map by (rule fold_cong) (auto simp: fun_eq_iff s)
  have e: "optEnv (set_selector_flag f opts) = optEnv opts" for f opts by (cases f) auto
  have "optEnv (fold set_selector_flag fs opts) = optEnv opts" for opts
    by (induction fs arbitrary: opts) (auto simp: e)
  then show "optEnv (selector_flags fs) = []" by (simp add: selector_flags_def no_selector_opts_def)
  show "makeSelector (selector_flags [LabelsFlag l, EnvFlag (label_flag [(k, v)])]) = [k \<mapsto> v]" if ok: "label_ok (k, v)"
  proof -
    have "selector_flags [LabelsFlag l, EnvFlag (label_flag [(k, v)])]
        = \<lparr>optEnv = label_flag [], optLabels = label_flag [(k, v)], optImage = [], optTag = []\<rparr>"
      by (simp add: selector_flags_def no_selector_opts_def label_flag_def)
    then show ?thesis using makeSelector_labels [of "[(k, v)]" "[]" "[]" "[]"] ok
      by (simp add: asked_labels_def)
  qed
qed

section \<open>Commands on the store\<close>




definition flux_codec :: codec where
  "flux_codec = demo_codec\<lparr>decRule := (\<lambda>_. Some \<lparr>Selector = [''app'' \<mapsto> ''web''], ruleInstancePort = 8080\<rparr>)\<rparr>"

lemma flux_codec_ok: "etcd_ok flux_codec names demo_etcd"
  "service_details (abs_services flux_codec names demo_etcd) = [''web'' \<mapsto> demo_details]"
  "service_rules (abs_services flux_codec names demo_etcd) n = Map.empty"
  "encodes (encRule flux_codec) (decRule flux_codec) \<lparr>Selector = [''app'' \<mapsto> ''web''], ruleInstancePort = 8080\<rparr>"
proof -
  have "service_dir_ok flux_codec names demo_web" using demo_web_ok [of names]
    by (auto simp: service_dir_ok_def flux_codec_def demo_codec_def records_ok_def demo_web_def path_distinct [symmetric]
        split: if_splits)
  then show "etcd_ok flux_codec names demo_etcd" using demo_etcd_ok [of names]
    by (auto simp: etcd_ok_def demo_services split: if_splits)
  have a: "abs_of flux_codec names demo_web = demo_abs"
    by (auto simp: abs_of_def demo_web_def demo_codec_def flux_codec_def demo_abs_def demo_details_def demo_inst_def leaves_def
        path_distinct [symmetric] fun_eq_iff split: if_splits)
  then show "service_details (abs_services flux_codec names demo_etcd) = [''web'' \<mapsto> demo_details]"
    by (auto simp: service_details_def abs_services_def demo_services fun_eq_iff demo_abs_def)
  show "service_rules (abs_services flux_codec names demo_etcd) n = Map.empty" using a
    by (auto simp: service_rules_def abs_services_def demo_services demo_abs_def split: option.splits if_splits)
  show "encodes (encRule flux_codec) (decRule flux_codec) \<lparr>Selector = [''app'' \<mapsto> ''web''], ruleInstancePort = 8080\<rparr>"
    by (simp add: encodes_def flux_codec_def demo_codec_def)
qed


section \<open>Queries\<close>

lemma print_all_ok: "(\<And>x. x \<in> set xs \<Longrightarrow> f x = (g x, None)) \<Longrightarrow> print_all f xs = (concat (map g xs), None)"
  by (induction xs) auto

lemma concat_pairs: "concat (map (\<lambda>s. concat (map (row s) (f s))) ss)
    = concat (map (\<lambda>(s, n). row s n) (concat (map (\<lambda>s. map (Pair s) (f s)) ss)))"
  by (induction ss) (auto simp: comp_def)

lemma distinct_pairs:
  "distinct ss \<Longrightarrow> (\<And>s. s \<in> set ss \<Longrightarrow> distinct (f s)) \<Longrightarrow> distinct (concat (map (\<lambda>s. map (Pair s) (f s)) ss))"
  by (induction ss) (auto simp: distinct_map inj_on_def)

lemma finite_dom_upd: "finite (dom m) \<Longrightarrow> finite (dom (m(k \<mapsto> v)))"
  by simp

lemma finite_query_selector: "finite (dom (query_selector opts))"
proof -
  have p: "finite (dom sel) \<Longrightarrow> finite (dom (selectorise_pair pre kv sel))" for pre kv sel
    by (simp add: selectorise_pair_def split: list.split)
  have "finite (dom sel) \<Longrightarrow> finite (dom (fold (selectorise_pair pre) ss sel))" for pre ss sel
    by (induction ss arbitrary: sel) (auto simp: p)
  then have "finite (dom sel) \<Longrightarrow> finite (dom (selectorise t pre sel))" for t pre sel
    by (simp add: selectorise_def)
  then show ?thesis by (simp add: query_selector_def makeSelector_def Let_def)
qed

definition inmem_show :: "string ordering \<Rightarrow> in_mem \<Rightarrow> store_error show_store" where
  "inmem_show ord s = \<lparr>shHosts = (GetHosts ord s, None), shAll = (\<lambda>opts. GetAllServices opts s),
     shService = (\<lambda>name opts. GetService name opts s)\<rparr>"

definition etcd_show ::
  "string ordering \<Rightarrow> codec \<Rightarrow> (string \<Rightarrow> string \<Rightarrow> int option) \<Rightarrow> 'e etcd_client \<Rightarrow> 'e \<Rightarrow> etcd_error show_store" where
  "etcd_show ord cd names client e =
     \<lparr>shHosts = (case etcd_GetHosts cd client e of Inl err \<Rightarrow> ([], Some err) | Inr hosts \<Rightarrow> (hosts, None)),
      shAll = etcd_getAll ord cd names client e,
      shService = etcd_getOne ord cd names client e\<rparr>"

text \<open>The instances of a service that a selector includes.\<close>

definition included :: "(ip \<Rightarrow> string) \<Rightarrow> label_map \<Rightarrow> inst \<Rightarrow> bool" where
  "included ip_str sel i \<longleftrightarrow> (\<forall>k v. sel k = Some v \<longrightarrow> instance_Label ip_str i k = v)"

lemma query_instances_ok:
  assumes "ordering_ok ord" and "finite (dom sel)"
    and "\<And>n i. Instances svc n = Some i \<Longrightarrow> print n i = (row n, None)"
  shows "query_instances ord ip_str sel print name svc = (concat (map row
    (filter (\<lambda>n. \<exists>i. Instances svc n = Some i \<and> included ip_str sel i) (ord [''instances'', name] (dom (Instances svc))))), None)"
proof -
  have "query_instances ord ip_str sel print name svc = (concat (map
     (\<lambda>n. if \<exists>i. Instances svc n = Some i \<and> included ip_str sel i then row n else [])
     (ord [''instances'', name] (dom (Instances svc)))), None)"
    unfolding query_instances_def selector_Includes_True [OF assms(1,2)]
    by (rule print_all_ok) (auto simp: included_def assms(3) split: option.split)
  moreover have "concat (map (\<lambda>n. if P n then row n else []) ns) = concat (map row (filter P ns))" for P ns
    by (induction ns) auto
  ultimately show ?thesis by simp
qed

lemma query_services_ok:
  assumes "ordering_ok ord" and "finite (dom sel)" and "finite (dom m)"
    and "\<And>v info. m v = Some info \<Longrightarrow> finite (dom (Instances info))"
    and "\<And>v n i. print v n i = (row v n, None)"
  shows "\<exists>xs. query_services ord ip_str sel print (\<lambda>s. map_option Some (m s)) = Some (concat (map (\<lambda>(v, n). row v n) xs), None) \<and>
    distinct xs \<and> set xs = {(v, n). \<exists>info i. m v = Some info \<and> Instances info n = Some i \<and> included ip_str sel i}"
proof -
  let ?f = "\<lambda>v. filter (\<lambda>n. \<exists>i. Instances (the (m v)) n = Some i \<and> included ip_str sel i)
      (ord [''instances'', v] (dom (Instances (the (m v)))))"
  let ?vs = "ord [''services''] (dom m)"
  let ?xs = "concat (map (\<lambda>v. map (Pair v) (?f v)) ?vs)"
  have vs: "distinct ?vs" "set ?vs = dom m" using assms(1,3) by simp_all
  have fin: "finite (dom (Instances (the (m v))))" if "v \<in> dom m" for v using that assms(4) by auto
  have dom: "dom (\<lambda>s. map_option Some (m s)) = dom m" by auto
  have "print_all (\<lambda>v. case map_option Some (m v) of Some (Some svc) \<Rightarrow> query_instances ord ip_str sel (print v) v svc
      | _ \<Rightarrow> ([], None)) ?vs = (concat (map (\<lambda>v. concat (map (row v) (?f v))) ?vs), None)"
  proof (rule print_all_ok)
    fix v assume "v \<in> set ?vs"
    then obtain svc where "m v = Some svc" using vs(2) by auto
    then show "(case map_option Some (m v) of Some (Some svc) \<Rightarrow> query_instances ord ip_str sel (print v) v svc
      | _ \<Rightarrow> ([], None)) = (concat (map (row v) (?f v)), None)"
      using query_instances_ok [OF assms(1,2), of svc "print v" "row v"] assms(5) by simp
  qed
  moreover have "map_option Some (m s) \<noteq> Some None" for s by (cases "m s") auto
  then have "Some None \<notin> range (\<lambda>s. map_option Some (m s))" by (metis rangeE)
  ultimately have "query_services ord ip_str sel print (\<lambda>s. map_option Some (m s))
      = Some (concat (map (\<lambda>(v, n). row v n) ?xs), None)"
    unfolding query_services_def dom concat_pairs by simp
  moreover have "distinct ?xs" by (rule distinct_pairs [OF vs(1)]) (use fin vs(2) assms(1) in simp)
  moreover have "set ?xs = {(v, n). \<exists>info i. m v = Some info \<and> Instances info n = Some i \<and> included ip_str sel i}"
    using fin assms(1) vs(2) by (auto simp: dom_def)
  ultimately show ?thesis by blast
qed

text \<open>A quiet query of a store that answers with the services \<open>m\<close>.\<close>

lemma query_prints:
  fixes st :: "'err show_store"
  defines "q \<equiv> \<lparr>WithInstances = True, WithContainerRules = False, WithIngressInstances = False\<rparr>"
  assumes "ordering_ok ord" and "showQuiet opts"
    and "asked_services st (showService opts) q = (\<lambda>v. map_option Some (m v), None)" and "finite (dom m)"
    and "\<And>v info. m v = Some info \<Longrightarrow> finite (dom (Instances info))"
  shows "\<exists>xs. query_run ord ip_str tm st opts = Some (concat (map (\<lambda>(v, n). n @ [CHR 0x0A]) xs), None) \<and>
    distinct xs \<and> set xs = {(v, n). \<exists>info i. m v = Some info \<and> Instances info n = Some i \<and>
      (\<forall>k x. query_selector opts k = Some x \<longrightarrow> instance_Label ip_str i k = x)}"
proof -
  obtain xs where xs: "query_services ord ip_str (query_selector opts)
      (\<lambda>_ n _. (n @ nl, None :: 'err option)) (\<lambda>v. map_option Some (m v)) = Some (concat (map (\<lambda>(v, n). n @ nl) xs), None)" "distinct xs"
    "set xs = {(v, n). \<exists>info i. m v = Some info \<and> Instances info n = Some i \<and> included ip_str (query_selector opts) i}"
    using query_services_ok [OF assms(2) finite_query_selector assms(5), of "\<lambda>_ n _. (n @ nl, None)"
      "\<lambda>v n. n @ nl" ip_str opts] assms(6) by blast
  then show ?thesis using assms(3,4)
    by (intro exI [of _ xs]) (simp add: query_run_def q_def [symmetric] included_def)
qed

text \<open>
  C16: A quiet query of the etcd store prints, one to a line and each once, exactly the names of the
  instances of live sessions that have every label of the command line and the host, state and rule
  asked for, of all services or of the one named, whatever the order in which the maps are visited.
  When the service named is not there it prints nothing and returns the error.
\<close>

theorem flux_query_prints:
  assumes "etcd_contract client tree" and "ordering_ok gord" and "ordering_ok ord" and "etcd_ok cd names (tree e)"
    and "showQuiet opts" and "showService opts = [] \<or> listed_name (showService opts)"
  defines "M \<equiv> abs_services cd names (tree e)"
  shows "if showService opts = [] \<or> M (showService opts) \<noteq> None
    then \<exists>xs. query_run ord ip_str tm (etcd_show gord cd names client e) opts
        = Some (concat (map (\<lambda>(v, n). n @ [CHR 0x0A]) xs), None) \<and>
      distinct xs \<and> set xs = {(v, n). (showService opts = [] \<or> v = showService opts) \<and>
        (\<exists>A i. M v = Some A \<and> of_live (sessions_of (tree e)) (asInstances A) n = Some i \<and>
           (\<forall>k x. query_selector opts k = Some x \<longrightarrow> instance_Label ip_str i k = x))}
    else query_run ord ip_str tm (etcd_show gord cd names client e) opts = Some ([], Some NotFound)"
proof -
  let ?q = "\<lparr>WithInstances = True, WithContainerRules = False, WithIngressInstances = False\<rparr>"
  let ?all = "\<lambda>v. map_option (abs_info ?q (sessions_of (tree e))) (M v)"
  let ?m = "if showService opts = [] then ?all else ?all |` {showService opts}"
  have all: "etcd_GetAllServices gord cd names client ?q e = Inr ?all"
    unfolding M_def by (rule etcd_contract.GetAllServices_ok [OF assms(1,2,4)])
  have one: "etcd_GetService gord cd names client (showService opts) ?q e =
      (case M (showService opts) of None \<Rightarrow> Inl NotFound | Some A \<Rightarrow> Inr (abs_info ?q (sessions_of (tree e)) A))"
    if "showService opts \<noteq> []" unfolding M_def
    by (rule etcd_contract.GetService_ok [OF assms(1,2)]) (use assms(4,6) that in \<open>auto simp: etcd_ok_def listed_nameD\<close>)
  show ?thesis
  proof (cases "showService opts = [] \<or> M (showService opts) \<noteq> None")
    case True
    have asked: "asked_services (etcd_show gord cd names client e) (showService opts) ?q = (\<lambda>v. map_option Some (?m v), None)"
      using True all one by (auto simp: asked_services_def etcd_show_def etcd_getAll_def etcd_getOne_def restrict_map_def fun_eq_iff)
    have "dom ?m \<subseteq> dom M" by (auto simp: restrict_map_def split: if_splits)
    then have fin: "finite (dom ?m)" using finite_abs_services finite_subset unfolding M_def by blast
    have "finite (dom (Instances info))" if "?m v = Some info" for v info
      using that finite_of_live
      by (auto simp: M_def abs_info_def service.defs restrict_map_def split: if_splits)
    moreover have "(\<exists>info i. ?m v = Some info \<and> Instances info n = Some i \<and> P i) \<longleftrightarrow>
        (showService opts = [] \<or> v = showService opts) \<and>
        (\<exists>A i. M v = Some A \<and> of_live (sessions_of (tree e)) (asInstances A) n = Some i \<and> P i)" for v n P
      by (cases "M v") (auto simp: abs_info_def service.defs restrict_map_def)
    ultimately show ?thesis using True query_prints [OF assms(3,5) asked fin, of ip_str tm] by simp
  next
    case False
    then show ?thesis using one assms(5) by (simp add: query_run_def asked_services_def etcd_show_def etcd_getOne_def)
  qed
qed

theorem flux_query_prints_witness:
  "query_run sorted_ordering ip_String \<lparr>tmParse = \<lambda>_. None :: string option, tmExec = \<lambda>_ _. ([], None), tabWriter = id\<rparr>
     (etcd_show sorted_ordering demo_codec (\<lambda>_ _. None) tree_client demo_etcd)
     \<lparr>showSelector = no_selector_opts, showHost = [], showState = ''no address'', showRule = [], showService = ''web'',
       showFormat = [], showQuiet = True\<rparr> = Some (''a1'' @ [CHR 0x0A], None)"
proof -
  let ?opts = "\<lparr>showSelector = no_selector_opts, showHost = [], showState = ''no address'', showRule = [], showService = ''web'',
       showFormat = [], showQuiet = True\<rparr>"
  let ?tm = "\<lparr>tmParse = \<lambda>_. None :: string option, tmExec = \<lambda>_ _. ([], None), tabWriter = id\<rparr>"
  have sel: "query_selector ?opts = [''state'' \<mapsto> ''no address'']"
    by (simp add: query_selector_def makeSelector_def no_selector_opts_def selectorise_def selectorise_pair_def)
  have ok: "etcd_ok demo_codec (\<lambda>_ _. None) (id demo_etcd)" by (simp add: demo_etcd_ok)
  have h: "showQuiet ?opts" "showService ?opts = [] \<or> listed_name (showService ?opts)" using demo_listed(1) by simp_all
  from flux_query_prints [OF demo_contract sorted_ordering_ok sorted_ordering_ok ok h, of ip_String ?tm]
  obtain xs where xs: "query_run sorted_ordering ip_String ?tm
      (etcd_show sorted_ordering demo_codec (\<lambda>_ _. None) tree_client demo_etcd) ?opts
      = Some (concat (map (\<lambda>(v, n). n @ [CHR 0x0A]) xs), None)"
    "distinct xs" "set xs = {(''web'', ''a1'')}"
    unfolding sel
    by (auto simp: demo_services_abs demo_sessions demo_abs_def of_live_def instance_Label_def demo_inst_def split: if_splits)
  have "xs = [(''web'', ''a1'')]" using xs(2,3) by (cases xs) (auto dest: subset_singletonD)
  then show ?thesis using xs(1) by simp
qed

text \<open>The same over the in-memory store.\<close>

theorem flux_query_prints_inmem:
  assumes "ordering_ok ord" and "store_ok s" and "imInjected s = None" and "showQuiet opts"
    and "showService opts = [] \<or> imServices s (showService opts) \<noteq> None"
  shows "\<exists>xs. query_run ord ip_str tm (inmem_show ord s) opts = Some (concat (map (\<lambda>(v, n). n @ [CHR 0x0A]) xs), None) \<and>
    distinct xs \<and> set xs = {(v, n). (showService opts = [] \<or> v = showService opts) \<and>
      (\<exists>m j. imInstances s v = Some m \<and> m n = Some j \<and>
         (\<forall>k x. query_selector opts k = Some x \<longrightarrow> instance_Label ip_str (seInstance j) k = x))}"
proof -
  let ?q = "\<lparr>WithInstances = True, WithContainerRules = False, WithIngressInstances = False\<rparr>"
  let ?all = "\<lambda>v. map_option (\<lambda>svc. makeServiceInfo v svc ?q s) (imServices s v)"
  let ?m = "if showService opts = [] then ?all else ?all |` {showService opts}"
  have asked: "asked_services (inmem_show ord s) (showService opts) ?q = (\<lambda>v. map_option Some (?m v), None)"
    using assms(3,5) by (auto simp: asked_services_def inmem_show_def GetAllServices_def GetService_def restrict_map_def
        fun_eq_iff)
  have dom: "dom (imServices s) = dom (imInstances s)" using assms(2) by (simp add: store_ok_def)
  have inst: "Instances (makeServiceInfo v svc ?q s) = (case imInstances s v of None \<Rightarrow> Map.empty
      | Some m \<Rightarrow> \<lambda>n. map_option seInstance (m n))" for v svc by (simp add: makeServiceInfo_def)
  have "finite (dom (imServices s))" using assms(2) unfolding dom store_ok_def inner_finite_def by blast
  moreover have "dom ?m \<subseteq> dom (imServices s)" by (auto simp: restrict_map_def split: if_splits)
  ultimately have fin: "finite (dom ?m)" using finite_subset by blast
  have "finite (dom (Instances info))" if "?m v = Some info" for v info
    using that store_ok_finite(2) [OF assms(2), of v]
    by (auto simp: inst restrict_map_def dom_map_option split: if_splits option.splits)
  moreover have "(\<exists>info i. ?m v = Some info \<and> Instances info n = Some i \<and> P i) \<longleftrightarrow>
      (showService opts = [] \<or> v = showService opts) \<and>
      (\<exists>m j. imInstances s v = Some m \<and> m n = Some j \<and> P (seInstance j))" for v n P
  proof (cases "imInstances s v")
    case None
    then have "imServices s v = None" using dom by (metis domIff)
    then show ?thesis using None by (auto simp: restrict_map_def)
  next
    case (Some m)
    then obtain svc where "imServices s v = Some svc" using dom by (metis domD domI)
    then show ?thesis using Some by (auto simp: inst restrict_map_def)
  qed
  ultimately show ?thesis using query_prints [OF assms(1,4) asked fin, of ip_str tm] by simp
qed

theorem flux_query_prints_inmem_witness:
  "query_run sorted_ordering ip_String \<lparr>tmParse = \<lambda>_. None :: string option, tmExec = \<lambda>_ _. ([], None), tabWriter = id\<rparr>
     (inmem_show sorted_ordering web_store)
     \<lparr>showSelector = no_selector_opts, showHost = [], showState = ''no address'', showRule = [], showService = ''web'',
       showFormat = [], showQuiet = True\<rparr> = Some (''i'' @ [CHR 0x0A], None)"
proof -
  let ?opts = "\<lparr>showSelector = no_selector_opts, showHost = [], showState = ''no address'', showRule = [], showService = ''web'',
       showFormat = [], showQuiet = True\<rparr>"
  have "query_selector ?opts = [''state'' \<mapsto> ''no address'']"
    by (simp add: query_selector_def makeSelector_def no_selector_opts_def selectorise_def selectorise_pair_def)
  moreover have "store_ok web_store" by (rule store_run_keeps [OF web_store_run web_run_ok NewInMem_ok])
  moreover have "imInjected web_store = None" "imServices web_store ''web'' \<noteq> None"
    "imInstances web_store = [''web'' \<mapsto> [''i'' \<mapsto> \<lparr>seInstance = web_inst, seSession = ''s1''\<rparr>]]"
    by (simp_all add: web_store_def)
  ultimately obtain xs where xs: "query_run sorted_ordering ip_String
      \<lparr>tmParse = \<lambda>_. None :: string option, tmExec = \<lambda>_ _. ([], None), tabWriter = id\<rparr>
      (inmem_show sorted_ordering web_store) ?opts = Some (concat (map (\<lambda>(v, n). n @ [CHR 0x0A]) xs), None)"
    "distinct xs" "set xs = {(''web'', ''i'')}"
    using flux_query_prints_inmem [OF sorted_ordering_ok, of web_store ?opts ip_String
        "\<lparr>tmParse = \<lambda>_. None :: string option, tmExec = \<lambda>_ _. ([], None), tabWriter = id\<rparr>"]
    by (auto simp: instance_Label_def web_inst_def split: if_splits)
  have "xs = [(''web'', ''i'')]" using xs(2,3) by (cases xs) (auto dest: subset_singletonD)
  then show ?thesis using xs(1) by simp
qed

end
