(* ===== verification/Flags.thy ===== *)
theory Flags
  imports GoStrings "HOL-Library.Word"
begin

text \<open>
  The flags of a program: what the daemons use of Go's \<open>flag\<close> package (\<open>FlagSet\<close> with
  \<open>ContinueOnError\<close>, \<open>StringVar\<close>, \<open>IntVar\<close>, \<open>BoolVar\<close>, \<open>Parse\<close>, \<open>NArg\<close>). A flag and the
  variable it sets are one entry of a map from names to values, and a flag that is declared
  starts with its default. A panic is a value of \<open>outcome\<close>.
\<close>

datatype 'a outcome =
    Panic string
  | Returned 'a

datatype flag_value =
    StringFlag string
  | IntFlag "64 word"
  | BoolFlag bool

type_synonym flags = "string \<rightharpoonup> flag_value"

text \<open>\<open>FlagSet.Var\<close>; the message starts with the name of the program, left out here.\<close>

definition declare_flag :: "string \<Rightarrow> flag_value \<Rightarrow> flags \<Rightarrow> flags outcome" where
  "declare_flag name v fs =
     (if name \<in> dom fs then Panic (''flag redefined: '' @ name) else Returned (fs(name \<mapsto> v)))"

section \<open>Values\<close>

text \<open>
  \<open>strconv.ParseInt\<close> with base 0: an optional sign, and a base given by the prefix. \<open>None\<close> is a
  syntax error or a value out of range.
\<close>

definition base_digit :: "nat \<Rightarrow> char \<Rightarrow> nat option" where
  "base_digit base c =
     (let n = of_char c :: nat;
          d = (if 48 \<le> n \<and> n \<le> 57 then Some (n - 48)
               else if 97 \<le> n \<and> n \<le> 122 then Some (n - 87)
               else if 65 \<le> n \<and> n \<le> 90 then Some (n - 55)
               else None)
      in case d of None \<Rightarrow> None | Some v \<Rightarrow> if v < base then Some v else None)"

fun base_val :: "nat \<Rightarrow> nat \<Rightarrow> string \<Rightarrow> nat option" where
  "base_val base acc [] = Some acc"
| "base_val base acc (c # cs) =
     (case base_digit base c of
        None \<Rightarrow> None
      | Some v \<Rightarrow> base_val base (acc * base + v) cs)"

definition parseUint0 :: "string \<Rightarrow> nat option" where
  "parseUint0 s =
     (case s of
        [] \<Rightarrow> None
      | c # cs \<Rightarrow>
          if c = CHR ''0'' \<and> cs \<noteq> [] \<and> hd cs \<in> {CHR ''x'', CHR ''X''} then
            (if tl cs = [] then None else base_val 16 0 (tl cs))
          else if c = CHR ''0'' then base_val 8 0 s
          else base_val 10 0 s)"

definition parseInt0 :: "string \<Rightarrow> int option" where
  "parseInt0 s =
     (case s of
        [] \<Rightarrow> None
      | c # cs \<Rightarrow>
          if c = CHR ''-'' then
            (case parseUint0 cs of
               None \<Rightarrow> None
             | Some n \<Rightarrow> if n \<le> 2 ^ 63 then Some (- int n) else None)
          else
            (case parseUint0 (if c = CHR ''+'' then cs else s) of
               None \<Rightarrow> None
             | Some n \<Rightarrow> if n < 2 ^ 63 then Some (int n) else None))"

definition parseBool :: "string \<Rightarrow> bool option" where
  "parseBool s =
     (if s \<in> {''1'', ''t'', ''T'', ''TRUE'', ''true'', ''True''} then Some True
      else if s \<in> {''0'', ''f'', ''F'', ''FALSE'', ''false'', ''False''} then Some False
      else None)"

text \<open>\<open>Set\<close> of the flag's value; \<open>None\<close> is an error.\<close>

fun set_flag :: "string \<Rightarrow> flag_value \<Rightarrow> flag_value option" where
  "set_flag s (StringFlag _) = Some (StringFlag s)"
| "set_flag s (IntFlag _) = map_option (\<lambda>n. IntFlag (word_of_int n)) (parseInt0 s)"
| "set_flag s (BoolFlag _) = map_option BoolFlag (parseBool s)"

section \<open>The command line\<close>

datatype flag_error =
    BadFlagSyntax string
  | HelpRequested
  | FlagNotDefined string
  | InvalidBoolean string string
  | FlagNeedsArgument string
  | InvalidValue string string

text \<open>An argument that is a flag: its name and the value after the first \<open>=\<close>, which is not its first character.\<close>

definition split_flag :: "string \<Rightarrow> string \<times> string option" where
  "split_flag s =
     (let name = hd s # takeWhile (\<lambda>c. c \<noteq> CHR ''='') (tl s);
          rest = drop (length name) s
      in (name, if rest = [] then None else Some (tl rest)))"

text \<open>
  \<open>parseOne\<close>: an error, or whether a flag was seen, the flags after it and the arguments that
  are left. A boolean flag does not take the next argument.
\<close>

definition set_to :: "string \<Rightarrow> flag_value \<Rightarrow> string \<Rightarrow> flags \<Rightarrow> string list \<Rightarrow> flag_error + bool \<times> flags \<times> string list" where
  "set_to name old v fs args =
     (case set_flag v old of
        None \<Rightarrow> Inl (case old of BoolFlag _ \<Rightarrow> InvalidBoolean v name | _ \<Rightarrow> InvalidValue v name)
      | Some new \<Rightarrow> Inr (True, fs(name \<mapsto> new), args))"

definition parseOne :: "flags \<Rightarrow> string list \<Rightarrow> flag_error + bool \<times> flags \<times> string list" where
  "parseOne fs as =
     (case as of
        [] \<Rightarrow> Inr (False, fs, as)
      | s # args \<Rightarrow>
          if s = [] \<or> hd s \<noteq> CHR ''-'' \<or> length s = 1 then Inr (False, fs, as)
          else if s = ''--'' then Inr (False, fs, args)
          else
            let body = (if hd (tl s) = CHR ''-'' then tl (tl s) else tl s) in
            if hd body = CHR ''-'' \<or> hd body = CHR ''='' then Inl (BadFlagSyntax s)
            else
              (case split_flag body of (name, value) \<Rightarrow>
                (case (fs name, value, args) of
                   (None, _) \<Rightarrow> Inl (if name = ''help'' \<or> name = ''h'' then HelpRequested else FlagNotDefined name)
                 | (Some old, Some v, _) \<Rightarrow> set_to name old v fs args
                 | (Some (BoolFlag b), None, _) \<Rightarrow> set_to name (BoolFlag b) ''true'' fs args
                 | (Some old, None, []) \<Rightarrow> Inl (FlagNeedsArgument name)
                 | (Some old, None, v # args') \<Rightarrow> set_to name old v fs args')))"

lemma set_to_seen: "set_to name old v fs args = Inr r \<Longrightarrow> fst r \<and> snd (snd r) = args"
  by (auto simp: set_to_def split: option.splits)

lemma parseOne_shorter:
  assumes "parseOne fs as = Inr (True, fs', args)"
  shows "length args < length as"
proof (cases as)
  case (Cons s rest)
  then show ?thesis using assms
    by (auto simp: parseOne_def Let_def split: if_splits prod.splits option.splits flag_value.splits list.splits
        dest!: set_to_seen)
qed (use assms in \<open>simp add: parseOne_def\<close>)

text \<open>\<open>Parse\<close>: the flags set and the arguments that are left.\<close>

function flag_parse :: "flags \<Rightarrow> string list \<Rightarrow> flag_error + flags \<times> string list" where
  "flag_parse fs as =
     (case parseOne fs as of
        Inl err \<Rightarrow> Inl err
      | Inr (seen, fs', args) \<Rightarrow> if seen then flag_parse fs' args else Inr (fs', args))"
  by pat_completeness auto
termination by (relation "measure (\<lambda>(fs, as). length as)") (auto dest: parseOne_shorter)

declare flag_parse.simps [simp del]

section \<open>What parsing keeps\<close>

text \<open>Parsing changes the values of the flags that are declared, not their names or their types.\<close>

fun same_type :: "flag_value \<Rightarrow> flag_value \<Rightarrow> bool" where
  "same_type (StringFlag _) (StringFlag _) \<longleftrightarrow> True"
| "same_type (IntFlag _) (IntFlag _) \<longleftrightarrow> True"
| "same_type (BoolFlag _) (BoolFlag _) \<longleftrightarrow> True"
| "same_type _ _ \<longleftrightarrow> False"

lemma same_type_refl [simp]: "same_type v v"
  by (cases v) simp_all

lemma same_type_trans: "same_type u v \<Longrightarrow> same_type v w \<Longrightarrow> same_type u w"
  by (cases u; cases v; cases w) simp_all

definition flags_like :: "flags \<Rightarrow> flags \<Rightarrow> bool" where
  "flags_like fs fs' \<longleftrightarrow> (\<forall>name. rel_option same_type (fs name) (fs' name))"

lemma flags_like_refl [simp]: "flags_like fs fs"
  by (simp add: flags_like_def option.rel_refl)

lemma flags_like_upd:
  assumes "flags_like (fs(name \<mapsto> v)) fs'" and "fs name = Some u" and "same_type u v"
  shows "flags_like fs fs'"
  unfolding flags_like_def
proof
  fix n
  show "rel_option same_type (fs n) (fs' n)"
    using assms(1) [unfolded flags_like_def, rule_format, of n] assms(2,3)
    by (cases "n = name"; cases "fs' n") (auto intro: same_type_trans)
qed

lemma set_flag_type: "set_flag s v = Some w \<Longrightarrow> same_type v w"
  by (cases v) auto

lemma set_to_like:
  assumes "set_to name old v fs args = Inr (seen, fs', args')" and "fs name = Some old"
  shows "flags_like fs fs'"
  using assms by (auto simp: set_to_def split: option.splits intro!: flags_like_upd [OF flags_like_refl] dest: set_flag_type)

lemma parseOne_like:
  assumes "parseOne fs as = Inr (seen, fs', args)"
  shows "flags_like fs fs'"
  using assms
  by (auto simp: parseOne_def Let_def split: if_splits prod.splits option.splits flag_value.splits list.splits
      dest: set_to_like)

lemma flags_like_trans: "flags_like a b \<Longrightarrow> flags_like b c \<Longrightarrow> flags_like a c"
  unfolding flags_like_def
  by (metis (mono_tags) option.rel_transp same_type_trans transp_def)

lemma flag_parse_like: "flag_parse fs as = Inr (fs', rest) \<Longrightarrow> flags_like fs fs'"
proof (induction fs as rule: flag_parse.induct)
  case (1 fs as)
  note parse = 1(2) [unfolded flag_parse.simps [of fs]]
  show ?case
  proof (cases "parseOne fs as")
    case (Inr r)
    obtain seen fs1 args where r: "r = (seen, fs1, args)" by (cases r)
    have "flags_like fs fs1" using parseOne_like Inr r by simp
    then show ?thesis using parse 1(1) Inr r by (auto split: if_splits intro: flags_like_trans)
  qed (use parse in simp)
qed

text \<open>So a flag keeps its type: what \<open>IntVar\<close> declares is an integer after \<open>Parse\<close>.\<close>

lemma flags_like_cases:
  assumes "flags_like fs fs'"
  shows "fs n = Some (StringFlag a) \<Longrightarrow> \<exists>b. fs' n = Some (StringFlag b)"
    and "fs n = Some (IntFlag i) \<Longrightarrow> \<exists>j. fs' n = Some (IntFlag j)"
    and "fs n = Some (BoolFlag p) \<Longrightarrow> \<exists>q. fs' n = Some (BoolFlag q)"
  using assms [unfolded flags_like_def, rule_format, of n]
  by (cases "fs' n"; cases "the (fs' n)"; simp)+

section \<open>Integers on the command line\<close>

lemma base_digit_decimal: "is_digit c \<Longrightarrow> base_digit 10 c = Some (digit_val c)"
  by (auto simp: base_digit_def is_digit_def digit_val_def Let_def)

lemma base_val_decimal: "list_all is_digit s \<Longrightarrow> base_val 10 acc s = Some (dec_val acc s)"
  by (induction s arbitrary: acc) (simp_all add: base_digit_decimal)

lemma hd_nat_to_dec_pos: "0 < n \<Longrightarrow> hd (nat_to_dec n) \<noteq> CHR ''0''"
proof (induction n rule: nat_to_dec.induct)
  case (1 n)
  show ?case
  proof (cases "n < 10")
    case True
    then have "(of_char (digit_char n) :: nat) \<noteq> of_char CHR ''0''" using 1(2) by simp
    then have "digit_char n \<noteq> CHR ''0''" by metis
    then show ?thesis using True by (subst nat_to_dec.simps) simp
  next
    case False
    then have "hd (nat_to_dec (n div 10)) \<noteq> CHR ''0''" using 1(1) by simp
    then show ?thesis using False by (subst nat_to_dec.simps) simp
  qed
qed

lemma parseUint0_dec: "parseUint0 (nat_to_dec n) = Some n"
proof (cases "n = 0")
  case False
  then have "hd (nat_to_dec n) \<noteq> CHR ''0''" by (simp add: hd_nat_to_dec_pos)
  then have "parseUint0 (nat_to_dec n) = base_val 10 0 (nat_to_dec n)"
    by (cases "nat_to_dec n") (simp_all add: parseUint0_def nat_to_dec_ne [THEN notE])
  then show ?thesis by (simp add: base_val_decimal nat_to_dec_digits dec_val_nat_to_dec)
qed (simp add: nat_to_dec.simps parseUint0_def base_digit_def digit_char_def)

lemma parseInt0_itoa:
  assumes "0 \<le> i" and "i < 2 ^ 63"
  shows "parseInt0 (itoa i) = Some i"
proof -
  obtain c cs where s: "nat_to_dec (nat i) = c # cs" by (cases "nat_to_dec (nat i)") simp_all
  moreover have "is_digit c" using hd_nat_to_dec [of "nat i"] s by simp
  then have "c \<noteq> CHR ''-''" "c \<noteq> CHR ''+''" by auto
  ultimately show ?thesis using assms parseUint0_dec [of "nat i"] by (simp add: itoa_def parseInt0_def)
qed

text \<open>An argument \<open>-name=n\<close> sets the integer flag of that name.\<close>

lemma flag_parse_int:
  assumes "fs name = Some (IntFlag w)" and "0 \<le> i" and "i < 2 ^ 63"
    and "name \<noteq> []" and "CHR ''='' \<notin> set name" and "hd name \<noteq> CHR ''-''"
  shows "flag_parse fs ((CHR ''-'' # name @ CHR ''='' # itoa i) # args)
    = flag_parse (fs(name \<mapsto> IntFlag (word_of_int i))) args"
proof -
  obtain c cs where name: "name = c # cs" using assms(4) by (cases name) simp_all
  have "takeWhile (\<lambda>c. c \<noteq> CHR ''='') (cs @ CHR ''='' # itoa i) = cs"
    using assms(5) name by (subst takeWhile_append2) auto
  then have split: "split_flag (name @ CHR ''='' # itoa i) = (name, Some (itoa i))"
    by (simp add: split_flag_def name Let_def)
  have "parseOne fs ((CHR ''-'' # name @ CHR ''='' # itoa i) # args)
      = Inr (True, fs(name \<mapsto> IntFlag (word_of_int i)), args)"
    using assms split by (auto simp: parseOne_def name set_to_def parseInt0_itoa Let_def)
  then show ?thesis by (subst flag_parse.simps) simp
qed

end
