(* ===== verification/Deps.thy ===== *)
theory Deps
  imports Prelude Flags "HOL-Library.Monad_Syntax"
begin

text \<open>
  How the daemon puts its components together (\<open>common/daemon/deps.go\<close>). Configurations ask for
  the values of other configurations: they give a slot and a key, the key makes the configuration
  that provides the value, and that configuration may ask for values itself. Then the values are
  made, each after those it needs, and put into the slots.

  A dependency is identified by its key. What the \<open>Populate\<close> method of a configuration declares,
  flags and slots, and what \<open>MakeValue\<close> and \<open>Prepare\<close> return given the flags and the values in the slots, are arguments.
  An outcome \<open>None\<close> is a computation that does not end; a panic is a value of \<open>outcome\<close>.
\<close>

section \<open>Collecting the dependencies\<close>

record ('k, 's) dep_slot =
  dsSlot :: 's
  dsOwner :: "'k option"

record ('k, 's) dependencies =
  dpFlags :: flags
  dpDeps :: "'k \<rightharpoonup> ('k, 's) dep_slot list"
  dpCurrent :: "'k option"

definition no_dependencies :: "('k, 's) dependencies" where
  "no_dependencies = \<lparr>dpFlags = Map.empty, dpDeps = Map.empty, dpCurrent = None\<rparr>"

definition add_slot :: "'k \<Rightarrow> 's \<Rightarrow> ('k, 's) dependencies \<Rightarrow> ('k, 's) dependencies" where
  "add_slot key slot d =
     d\<lparr>dpDeps := (dpDeps d)(key \<mapsto>
         (case dpDeps d key of None \<Rightarrow> [] | Some slots \<Rightarrow> slots) @ [\<lparr>dsSlot = slot, dsOwner = dpCurrent d\<rparr>])\<rparr>"

text \<open>
  What a \<open>Populate\<close> calls, in order: a flag with its default, or \<open>Dependency\<close> with a slot and its
  key. A new dependency is entered without slots, and populated, before the slot is added to it.
\<close>

datatype ('k, 's) request =
    Flag string flag_value
  | Ask 's 'k

partial_function (option) Dependency ::
  "('k \<Rightarrow> ('k, 's) request list) \<Rightarrow> ('k, 's) request list \<Rightarrow> ('k, 's) dependencies \<Rightarrow>
     ('k, 's) dependencies outcome option" where
  "Dependency populate rs d =
     (case rs of
        [] \<Rightarrow> Some (Returned d)
      | Flag name v # rs' \<Rightarrow>
          (case declare_flag name v (dpFlags d) of
             Panic m \<Rightarrow> Some (Panic m)
           | Returned fs \<Rightarrow> Dependency populate rs' (d\<lparr>dpFlags := fs\<rparr>))
      | Ask slot key # rs' \<Rightarrow>
          do {
            r \<leftarrow> (case dpDeps d key of
                    Some _ \<Rightarrow> Some (Returned d)
                  | None \<Rightarrow> Dependency populate (populate key)
                      (d\<lparr>dpDeps := (dpDeps d)(key \<mapsto> []), dpCurrent := Some key\<rparr>));
            (case r of
               Panic m \<Rightarrow> Some (Panic m)
             | Returned d1 \<Rightarrow> Dependency populate rs' (add_slot key slot (d1\<lparr>dpCurrent := dpCurrent d\<rparr>)))
          })"

section \<open>Sorting them\<close>

definition count_of :: "('k \<rightharpoonup> int) \<Rightarrow> 'k \<Rightarrow> int" where
  "count_of counts k = (case counts k of None \<Rightarrow> 0 | Some n \<Rightarrow> n)"

definition slots_of :: "('k \<rightharpoonup> ('k, 's) dep_slot list) \<Rightarrow> 'k \<Rightarrow> ('k, 's) dep_slot list" where
  "slots_of deps k = (case deps k of None \<Rightarrow> [] | Some slots \<Rightarrow> slots)"

definition count_slot :: "('k, 's) dep_slot \<Rightarrow> ('k \<rightharpoonup> int) \<Rightarrow> ('k \<rightharpoonup> int)" where
  "count_slot slot counts =
     (case dsOwner slot of None \<Rightarrow> counts | Some o' \<Rightarrow> counts(o' \<mapsto> count_of counts o' + 1))"

definition initial_counts :: "('k \<rightharpoonup> ('k, 's) dep_slot list) \<Rightarrow> 'k list \<Rightarrow> ('k \<rightharpoonup> int)" where
  "initial_counts deps ks = fold (\<lambda>k. fold count_slot (slots_of deps k)) ks Map.empty"

definition release :: "('k, 's) dep_slot \<Rightarrow> ('k \<rightharpoonup> int) \<times> 'k list \<Rightarrow> ('k \<rightharpoonup> int) \<times> 'k list" where
  "release slot cr =
     (case dsOwner slot of
        None \<Rightarrow> cr
      | Some o' \<Rightarrow>
          let count = count_of (fst cr) o' - 1
          in ((fst cr)(o' \<mapsto> count), if count = 0 then snd cr @ [o'] else snd cr))"

partial_function (option) sort_loop ::
  "('k \<rightharpoonup> ('k, 's) dep_slot list) \<Rightarrow> ('k \<rightharpoonup> int) \<times> 'k list \<Rightarrow> 'k list \<Rightarrow> ('k list \<times> ('k \<rightharpoonup> int)) option" where
  "sort_loop deps cr res =
     (if snd cr = [] then Some (res, fst cr)
      else sort_loop deps (fold release (slots_of deps (last (snd cr))) (fst cr, butlast (snd cr)))
             (res @ [last (snd cr)]))"

definition deps_sort :: "'k ordering \<Rightarrow> ('k \<rightharpoonup> ('k, 's) dep_slot list) \<Rightarrow> 'k list outcome option" where
  "deps_sort ord deps =
     (let counts = initial_counts deps (ord [''counts''] (dom deps));
          ready = filter (\<lambda>k. count_of counts k = 0) (ord [''ready''] (dom deps))
      in map_option (\<lambda>(res, counts).
           if \<forall>k \<in> set (ord [''check''] (dom counts)). count_of counts k = 0 then Returned res
           else Panic ''Circular dependencies'') (sort_loop deps (counts, ready) []))"

section \<open>Filling the slots\<close>

definition assign :: "('k, 's) dep_slot list \<Rightarrow> 'v \<Rightarrow> ('s \<rightharpoonup> 'v) \<Rightarrow> ('s \<rightharpoonup> 'v)" where
  "assign slots val store = fold (\<lambda>s m. m(dsSlot s \<mapsto> val)) slots store"

fun make_values ::
  "('k \<Rightarrow> ('s \<rightharpoonup> 'v) \<Rightarrow> 'e + 'v \<times> 'f option) \<Rightarrow> ('k \<rightharpoonup> ('k, 's) dep_slot list) \<Rightarrow> 'k list \<Rightarrow>
     ('s \<rightharpoonup> 'v) \<Rightarrow> 'f list \<Rightarrow> 'e + ('s \<rightharpoonup> 'v) \<times> 'f list" where
  "make_values MakeValue deps [] store startFuncs = Inr (store, startFuncs)"
| "make_values MakeValue deps (dep # ds) store startFuncs =
     (case MakeValue dep store of
        Inl err \<Rightarrow> Inl err
      | Inr (val, startFunc) \<Rightarrow>
          make_values MakeValue deps ds (assign (slots_of deps dep) val store)
            (case startFunc of None \<Rightarrow> startFuncs | Some f \<Rightarrow> startFuncs @ [f]))"

fun prepare_all :: "('c \<Rightarrow> ('s \<rightharpoonup> 'v) \<Rightarrow> 'e + 'f) \<Rightarrow> 'c list \<Rightarrow> ('s \<rightharpoonup> 'v) \<Rightarrow> 'f list \<Rightarrow> 'e + 'f list" where
  "prepare_all Prepare [] store startFuncs = Inr startFuncs"
| "prepare_all Prepare (c # cs) store startFuncs =
     (case Prepare c store of
        Inl err \<Rightarrow> Inl err
      | Inr f \<Rightarrow> prepare_all Prepare cs store (startFuncs @ [f]))"

text \<open>
  The configurations of a program, by what they declare, and the arguments after the name of the
  program, which are parsed once all configurations have declared their flags.
\<close>

datatype 'e daemon_error =
    FlagError flag_error
  | ExcessArguments
  | Failed 'e

definition fill_and_prepare ::
  "('k \<Rightarrow> ('s \<rightharpoonup> 'v) \<Rightarrow> 'e + 'v \<times> 'f option) \<Rightarrow> ('c \<Rightarrow> ('s \<rightharpoonup> 'v) \<Rightarrow> 'e + 'f) \<Rightarrow>
     ('k \<rightharpoonup> ('k, 's) dep_slot list) \<Rightarrow> 'c list \<Rightarrow> 'k list \<Rightarrow> 'e + 'f list" where
  "fill_and_prepare MakeValue Prepare deps configs ds =
     (case make_values MakeValue deps ds Map.empty [] of
        Inl err \<Rightarrow> Inl err
      | Inr (store, startFuncs) \<Rightarrow> prepare_all Prepare configs store startFuncs)"

definition configsToStartFuncs ::
  "'k ordering \<Rightarrow> ('k \<Rightarrow> ('k, 's) request list) \<Rightarrow> ('c \<Rightarrow> ('k, 's) request list) \<Rightarrow>
     (flags \<Rightarrow> 'k \<Rightarrow> ('s \<rightharpoonup> 'v) \<Rightarrow> 'e + 'v \<times> 'f option) \<Rightarrow> (flags \<Rightarrow> 'c \<Rightarrow> ('s \<rightharpoonup> 'v) \<Rightarrow> 'e + 'f) \<Rightarrow>
     string list \<Rightarrow> 'c list \<Rightarrow> ('e daemon_error + 'f list) outcome option" where
  "configsToStartFuncs ord populate configPopulate MakeValue Prepare args configs =
     do {
       r \<leftarrow> Dependency populate (concat (map configPopulate configs)) no_dependencies;
       case r of
         Panic m \<Rightarrow> Some (Panic m)
       | Returned d \<Rightarrow>
           (case flag_parse (dpFlags d) args of
              Inl err \<Rightarrow> Some (Returned (Inl (FlagError err)))
            | Inr (fs, rest) \<Rightarrow>
                if rest \<noteq> [] then Some (Returned (Inl ExcessArguments))
                else
                  do {
                    order \<leftarrow> deps_sort ord (dpDeps d);
                    case order of
                      Panic m \<Rightarrow> Some (Panic m)
                    | Returned ds \<Rightarrow>
                        Some (Returned (map_sum Failed id
                          (fill_and_prepare (MakeValue fs) (Prepare fs) (dpDeps d) configs ds)))
                  })
     }"

end
