(* ===== verification/DepsCorrect.thy ===== *)
theory DepsCorrect
  imports Deps
begin

text \<open>
  The collection of the dependencies ends when finitely many keys can be reached, and collects
  exactly the slots asked for, or panics because two flags have one name; the sort puts each dependency after those it needs, or panics if
  they are circular; so every value is made when all the slots of its configuration are filled.
\<close>

section \<open>Collecting\<close>

text \<open>The slots among the things that are declared.\<close>

definition asks :: "('k, 's) request list \<Rightarrow> ('s \<times> 'k) list" where
  "asks = List.map_filter (\<lambda>r. case r of Flag name v \<Rightarrow> None | Ask s k \<Rightarrow> Some (s, k))"

lemma asks_simps [simp]: "asks [] = []" "asks (Flag name v # rs) = asks rs" "asks (Ask s k # rs) = (s, k) # asks rs"
  by (simp_all add: asks_def map_filter_simps)

lemma asks_append: "asks (rs @ rs') = asks rs @ asks rs'"
  by (simp add: asks_def map_filter_def)

lemma asks_concat: "asks (concat (map f cs)) = concat (map (asks \<circ> f) cs)"
  by (induction cs) (simp_all add: asks_append)

definition edges :: "('k, 's) dependencies \<Rightarrow> ('s \<times> 'k option \<times> 'k) set" where
  "edges d = {(s, w, k). \<lparr>dsSlot = s, dsOwner = w\<rparr> \<in> set (slots_of (dpDeps d) k)}"

definition asked :: "'k option \<Rightarrow> ('s \<times> 'k) list \<Rightarrow> ('s \<times> 'k option \<times> 'k) set" where
  "asked w rs = {(s, w', k). w' = w \<and> (s, k) \<in> set rs}"

text \<open>What a run of \<open>Populate\<close> adds.\<close>

definition collects ::
  "('k \<Rightarrow> ('s \<times> 'k) list) \<Rightarrow> ('s \<times> 'k) list \<Rightarrow> ('k, 's) dependencies \<Rightarrow> ('k, 's) dependencies \<Rightarrow> bool" where
  "collects populate rs d d' \<longleftrightarrow>
     dpCurrent d' = dpCurrent d \<and> dom (dpDeps d) \<subseteq> dom (dpDeps d') \<and> snd ` set rs \<subseteq> dom (dpDeps d') \<and>
     (\<forall>k \<in> dom (dpDeps d') - dom (dpDeps d). snd ` set (populate k) \<subseteq> dom (dpDeps d')) \<and>
     edges d' = edges d \<union> asked (dpCurrent d) rs
       \<union> (\<Union>k \<in> dom (dpDeps d') - dom (dpDeps d). asked (Some k) (populate k))"

lemma slot_edge: "slot \<in> set (slots_of (dpDeps d) k) \<longleftrightarrow> (dsSlot slot, dsOwner slot, k) \<in> edges d"
  by (cases slot) (simp add: edges_def)

lemma edge_slot: "(s, w, k) \<in> edges d \<longleftrightarrow> (\<exists>slot \<in> set (slots_of (dpDeps d) k). dsSlot slot = s \<and> dsOwner slot = w)"
  unfolding slot_edge Bex_def by (metis (mono_tags) dep_slot.select_convs(1,2) slot_edge)

lemma asked_simps [simp]: "asked w [] = {}" "asked w (r # rs) = insert (fst r, w, snd r) (asked w rs)"
  by (auto simp: asked_def prod_eq_iff)

lemma edges_add_slot: "edges (add_slot k s d) = insert (s, dpCurrent d, k) (edges d)"
  by (auto simp: edges_def add_slot_def slots_of_def split: option.splits if_splits)

lemma dom_add_slot [simp]: "dom (dpDeps (add_slot k s d)) = insert k (dom (dpDeps d))"
  "dpCurrent (add_slot k s d) = dpCurrent d"
  by (auto simp: add_slot_def)

lemma Dependency_simps:
  "Dependency populate [] d = Some (Returned d)"
  "Dependency populate (Flag name v # rs) d =
     (case declare_flag name v (dpFlags d) of
        Panic m \<Rightarrow> Some (Panic m) | Returned fs \<Rightarrow> Dependency populate rs (d\<lparr>dpFlags := fs\<rparr>))"
  "dpDeps d k = Some l \<Longrightarrow> Dependency populate (Ask s k # rs) d = Dependency populate rs (add_slot k s d)"
  "dpDeps d k = None \<Longrightarrow>
     Dependency populate (populate k) (d\<lparr>dpDeps := (dpDeps d)(k \<mapsto> []), dpCurrent := Some k\<rparr>) = Some (Panic m) \<Longrightarrow>
     Dependency populate (Ask s k # rs) d = Some (Panic m)"
  "dpDeps d k = None \<Longrightarrow>
     Dependency populate (populate k) (d\<lparr>dpDeps := (dpDeps d)(k \<mapsto> []), dpCurrent := Some k\<rparr>) = Some (Returned d1) \<Longrightarrow>
     Dependency populate (Ask s k # rs) d
       = Dependency populate rs (add_slot k s (d1\<lparr>dpCurrent := dpCurrent d\<rparr>))"
  by (subst Dependency.simps, simp)+

lemma collects_flags [simp]: "collects populate rs (d\<lparr>dpFlags := fs\<rparr>) d' = collects populate rs d d'"
  by (simp add: collects_def edges_def)

lemma collects_Nil: "collects populate [] d d"
  by (simp add: collects_def)

lemma collects_known:
  assumes "snd r \<in> dom (dpDeps d)" and "collects populate rs (add_slot (snd r) (fst r) d) d'"
  shows "collects populate (r # rs) d d'"
proof -
  have "insert (snd r) (dom (dpDeps d)) = dom (dpDeps d)" using assms(1) by blast
  then show ?thesis using assms unfolding collects_def by (auto simp: edges_add_slot)
qed

lemma collects_new:
  assumes "snd r \<notin> dom (dpDeps d)"
    and "collects populate (populate (snd r)) (d\<lparr>dpDeps := (dpDeps d)(snd r \<mapsto> []), dpCurrent := Some (snd r)\<rparr>) d1"
    and "collects populate rs (add_slot (snd r) (fst r) (d1\<lparr>dpCurrent := dpCurrent d\<rparr>)) d'"
  shows "collects populate (r # rs) d d'"
proof -
  let ?new = "\<lambda>A. \<Union>k \<in> A. asked (Some k) (populate k)"
  have "slots_of ((dpDeps d)(snd r \<mapsto> [])) k = slots_of (dpDeps d) k" for k
    using assms(1) by (auto simp: slots_of_def split: option.splits)
  then have e: "edges (d\<lparr>dpDeps := (dpDeps d)(snd r \<mapsto> []), dpCurrent := Some (snd r)\<rparr>) = edges d"
    by (simp add: edges_def)
  have u: "edges (d1\<lparr>dpCurrent := dpCurrent d\<rparr>) = edges d1" by (simp add: edges_def)
  note c = assms(2) [unfolded collects_def e] and c' = assms(3) [unfolded collects_def edges_add_slot u]
  have r: "snd r \<in> dom (dpDeps d1)" using c by simp
  have i: "insert (snd r) (dom (dpDeps d1)) = dom (dpDeps d1)" using r by blast
  have "dom (dpDeps d') - dom (dpDeps d) = (dom (dpDeps d') - dom (dpDeps d1))
      \<union> (dom (dpDeps d1) - insert (snd r) (dom (dpDeps d))) \<union> {snd r}"
    using c c' r assms(1) by auto
  then have "?new (dom (dpDeps d') - dom (dpDeps d)) = ?new (dom (dpDeps d') - dom (dpDeps d1))
      \<union> ?new (dom (dpDeps d1) - insert (snd r) (dom (dpDeps d))) \<union> asked (Some (snd r)) (populate (snd r))"
    by (simp add: Un_ac)
  then have "edges d' = edges d \<union> asked (dpCurrent d) (r # rs) \<union> ?new (dom (dpDeps d') - dom (dpDeps d))"
    using c c' i by auto
  moreover have "snd ` set (populate k) \<subseteq> dom (dpDeps d')" if k: "k \<in> dom (dpDeps d') - dom (dpDeps d)" for k
  proof (cases "k \<in> dom (dpDeps d1)")
    case True
    have "dom (dpDeps d1) \<subseteq> dom (dpDeps d')" using c' i by simp
    moreover have "snd ` set (populate k) \<subseteq> dom (dpDeps d1)" using c k True by (cases "k = snd r") simp_all
    ultimately show ?thesis by blast
  next
    case False
    then show ?thesis using c' i k by simp
  qed
  moreover have "dom (dpDeps d) \<subseteq> dom (dpDeps d')" "snd ` set (r # rs) \<subseteq> dom (dpDeps d')" "dpCurrent d' = dpCurrent d"
    using c c' i r subset_trans [of "dom (dpDeps d)" "dom (dpDeps d1)" "dom (dpDeps d')"]
      subsetD [of "dom (dpDeps d1)" "dom (dpDeps d')" "snd r"] by simp_all
  ultimately show ?thesis unfolding collects_def by blast
qed

text \<open>What the collection may end with: two flags of one name, or the slots asked for and no other key than those of \<open>K\<close>.\<close>

definition collection ::
  "('k \<Rightarrow> ('s \<times> 'k) list) \<Rightarrow> 'k set \<Rightarrow> ('s \<times> 'k) list \<Rightarrow> ('k, 's) dependencies \<Rightarrow> ('k, 's) dependencies outcome \<Rightarrow> bool" where
  "collection populate K rs d r \<longleftrightarrow>
     (case r of
        Panic m \<Rightarrow> \<exists>name. m = ''flag redefined: '' @ name
      | Returned d' \<Rightarrow> dom (dpDeps d') \<subseteq> dom (dpDeps d) \<union> K \<and> collects populate rs d d')"

lemma collection_flags [simp]:
  "collection populate K rs (d\<lparr>dpFlags := fs\<rparr>) r = collection populate K rs d r"
  by (simp add: collection_def split: outcome.split)

lemma Dependency_collects:
  fixes populate :: "'k \<Rightarrow> ('k, 's) request list"
  assumes "finite K" and "\<forall>k \<in> K. snd ` set (asks (populate k)) \<subseteq> K" and "snd ` set (asks rs) \<subseteq> K"
  shows "\<exists>r. Dependency populate rs d = Some r \<and> collection (asks \<circ> populate) K (asks rs) d r"
  using assms(3)
proof (induction "(rs, d)" arbitrary: rs d
    rule: wf_induct_rule [OF wf_measures [of "[\<lambda>(rs, d). card (K - dom (dpDeps d)), \<lambda>(rs, d). length rs]"]])
  case (1 rs d)
  let ?less = "\<lambda>x. (x, (rs, d)) \<in> measures [\<lambda>(rs, d). card (K - dom (dpDeps d)), \<lambda>(rs, d). length rs]"
  show ?case
  proof (cases rs)
    case Nil
    then show ?thesis by (auto simp: collection_def collects_Nil Dependency_simps(1))
  next
    case (Cons q rs')
    show ?thesis
    proof (cases q)
      case (Flag name v)
      show ?thesis
      proof (cases "declare_flag name v (dpFlags d)")
        case (Panic m)
        then show ?thesis using Cons Flag
          by (auto simp: Dependency_simps(2) collection_def declare_flag_def split: if_splits)
      next
        case (Returned fs)
        have "?less (rs', d\<lparr>dpFlags := fs\<rparr>)" using Cons by simp
        then show ?thesis using 1(1) [of rs' "d\<lparr>dpFlags := fs\<rparr>"] 1(2) Cons Flag Returned
          by (simp add: Dependency_simps(2))
      qed
    next
      case (Ask s k)
      have k: "k \<in> K" and rs': "snd ` set (asks rs') \<subseteq> K" using 1(2) Cons Ask by auto
      show ?thesis
      proof (cases "dpDeps d k")
        case (Some l)
        let ?d2 = "add_slot k s d"
        have dom: "dom (dpDeps ?d2) = dom (dpDeps d)" using Some by auto
        then have "?less (rs', ?d2)" using Cons by simp
        from 1(1) [OF this rs'] obtain r where r: "Dependency populate rs' ?d2 = Some r"
          "collection (asks \<circ> populate) K (asks rs') ?d2 r" by blast
        have "collects (asks \<circ> populate) (asks rs) d d'" if "r = Returned d'" for d'
          using collects_known [of "(s, k)" d "asks \<circ> populate" "asks rs'" d'] r(2) that Some Cons Ask
          by (auto simp: collection_def)
        then have "collection (asks \<circ> populate) K (asks rs) d r"
          using r(2) dom by (auto simp: collection_def split: outcome.splits)
        then show ?thesis using r(1) Some Cons Ask by (simp add: Dependency_simps(3))
      next
        case None
        let ?d0 = "d\<lparr>dpDeps := (dpDeps d)(k \<mapsto> []), dpCurrent := Some k\<rparr>"
        have smaller: "?less (rs1, d1)" if "insert k (dom (dpDeps d)) \<subseteq> dom (dpDeps d1)" for rs1 d1
        proof -
          have "K - dom (dpDeps d1) \<subset> K - dom (dpDeps d)" using that k None by auto
          then show ?thesis using psubset_card_mono [of "K - dom (dpDeps d)"] assms(1) by simp
        qed
        obtain r1 where r1: "Dependency populate (populate k) ?d0 = Some r1"
          "collection (asks \<circ> populate) K (asks (populate k)) ?d0 r1"
          using 1(1) [OF smaller, of ?d0 "populate k"] assms(2) k by auto
        show ?thesis
        proof (cases r1)
          case (Panic m)
          then show ?thesis using r1 None Cons Ask by (auto simp: Dependency_simps(4) collection_def)
        next
          case (Returned d1)
          note c1 = r1(2) [unfolded Returned collection_def, simplified]
          let ?d2 = "add_slot k s (d1\<lparr>dpCurrent := dpCurrent d\<rparr>)"
          have "insert k (dom (dpDeps d)) \<subseteq> dom (dpDeps ?d2)" using c1 by (auto simp: collects_def)
          from 1(1) [OF smaller [OF this] rs'] obtain r where r: "Dependency populate rs' ?d2 = Some r"
            "collection (asks \<circ> populate) K (asks rs') ?d2 r" by blast
          have "collects (asks \<circ> populate) (asks rs) d d'" if "r = Returned d'" for d'
            using collects_new [of "(s, k)" d "asks \<circ> populate" d1 "asks rs'" d'] c1 r(2) that None Cons Ask
            by (auto simp: collection_def comp_def)
          moreover have "dom (dpDeps d') \<subseteq> dom (dpDeps d) \<union> K" if "r = Returned d'" for d'
          proof -
            have "dom (dpDeps d') \<subseteq> insert k (dom (dpDeps d1)) \<union> K" using r(2) that by (simp add: collection_def)
            moreover have "dom (dpDeps d1) \<subseteq> dom (dpDeps d) \<union> K" using c1 k by auto
            ultimately show ?thesis using k by blast
          qed
          ultimately have "collection (asks \<circ> populate) K (asks rs) d r"
            using r(2) by (cases r) (simp_all add: collection_def)
          then show ?thesis using r(1) r1(1) Returned None Cons Ask by (simp add: Dependency_simps(5))
        qed
      qed
    qed
  qed
qed

section \<open>Sorting\<close>

text \<open>One dependency needs the value of another if it owns one of its slots.\<close>

definition needs :: "('k \<rightharpoonup> ('k, 's) dep_slot list) \<Rightarrow> ('k \<times> 'k) set" where
  "needs deps = {(k, w). \<exists>slot \<in> set (slots_of deps k). dsOwner slot = Some w}"

definition owner_count :: "('k, 's) dep_slot list \<Rightarrow> 'k \<Rightarrow> nat" where
  "owner_count slots w = length (filter (\<lambda>slot. dsOwner slot = Some w) slots)"

definition remaining :: "('k \<rightharpoonup> ('k, 's) dep_slot list) \<Rightarrow> 'k set \<Rightarrow> 'k \<Rightarrow> nat" where
  "remaining deps D w = (\<Sum>k \<in> dom deps - D. owner_count (slots_of deps k) w)"

definition topological :: "('k \<times> 'k) set \<Rightarrow> 'k list \<Rightarrow> bool" where
  "topological R ks \<longleftrightarrow> (\<forall>i < length ks. \<forall>k. (k, ks ! i) \<in> R \<longrightarrow> k \<in> set (take i ks))"

lemma count_of_upd [simp]: "count_of (c(k \<mapsto> n)) w = (if w = k then n else count_of c w)"
  by (simp add: count_of_def)

lemma owner_count_simps [simp]: "owner_count [] w = 0"
  "owner_count (slot # l) w = (if dsOwner slot = Some w then 1 else 0) + owner_count l w"
  by (simp_all add: owner_count_def)

lemma owner_count_pos: "0 < owner_count l w \<longleftrightarrow> (\<exists>slot \<in> set l. dsOwner slot = Some w)"
  by (induction l) auto

lemma topological_snoc:
  "topological R (ks @ [k]) \<longleftrightarrow> topological R ks \<and> (\<forall>j. (j, k) \<in> R \<longrightarrow> j \<in> set ks)"
  unfolding topological_def by (auto simp: nth_append less_Suc_eq)

lemma topological_append: "topological R (ks @ ls) \<Longrightarrow> topological R ks"
proof -
  assume t: "topological R (ks @ ls)"
  have "k \<in> set (take i ks)" if "i < length ks" "(k, ks ! i) \<in> R" for i k
    using t that unfolding topological_def by (metis append_eq_conv_conj length_append nth_append take_append
        trans_less_add1 diff_is_0_eq' less_imp_le_nat take_0 append_Nil2)
  then show ?thesis by (simp add: topological_def)
qed

lemma topological_acyclic:
  assumes "topological R ks" and "\<forall>(k, w) \<in> R. w \<in> set ks"
  shows "acyclic R"
proof -
  let ?at = "\<lambda>w. LEAST i. i < length ks \<and> ks ! i = w"
  have "R \<subseteq> measure ?at"
  proof (rule subrelI)
    fix k w assume kw: "(k, w) \<in> R"
    then obtain i where i: "i < length ks" "ks ! i = w" using assms(2) by (auto simp: in_set_conv_nth)
    have w: "?at w < length ks" "ks ! ?at w = w"
      using LeastI [of "\<lambda>i. i < length ks \<and> ks ! i = w" i] i by simp_all
    then have "k \<in> set (take (?at w) ks)" using assms(1) kw unfolding topological_def by metis
    then obtain j where j: "j < ?at w" "j < length ks" "ks ! j = k" by (auto simp: in_set_conv_nth)
    then have "?at k \<le> j" by (intro Least_le) simp
    then show "(k, w) \<in> measure ?at" using j(1) by simp
  qed
  then show ?thesis using wf_acyclic wf_measure wf_subset by blast
qed

lemma count_slots: "count_of (fold count_slot l c) w = count_of c w + int (owner_count l w)"
  "finite (dom c) \<Longrightarrow> finite (dom (fold count_slot l c))"
  by (induction l arbitrary: c) (auto simp: count_slot_def split: option.splits)

lemma initial_counts_ok:
  assumes "distinct ks"
  shows "count_of (initial_counts deps ks) w = int (\<Sum>k \<in> set ks. owner_count (slots_of deps k) w)"
    and "finite (dom (initial_counts deps ks))"
proof -
  have "distinct ks \<Longrightarrow> count_of (fold (\<lambda>k. fold count_slot (slots_of deps k)) ks c) w
      = count_of c w + int (\<Sum>k \<in> set ks. owner_count (slots_of deps k) w)" for c
    by (induction ks arbitrary: c) (auto simp: count_slots)
  then show "count_of (initial_counts deps ks) w = int (\<Sum>k \<in> set ks. owner_count (slots_of deps k) w)"
    using assms by (simp add: initial_counts_def count_of_def)
  have "finite (dom c) \<Longrightarrow> finite (dom (fold (\<lambda>k. fold count_slot (slots_of deps k)) ks c))" for c
    by (induction ks arbitrary: c) (auto simp: count_slots)
  then show "finite (dom (initial_counts deps ks))" by (simp add: initial_counts_def)
qed

text \<open>Releasing the slots of a dependency: who becomes ready.\<close>

lemma release_slots:
  assumes "\<forall>w. int (owner_count l w) \<le> count_of c w"
  shows "\<exists>c' new. fold release l (c, r) = (c', r @ new) \<and> (finite (dom c) \<longrightarrow> finite (dom c')) \<and>
    (\<forall>w. count_of c' w = count_of c w - int (owner_count l w)) \<and> distinct new \<and>
    set new = {w. 0 < owner_count l w \<and> count_of c w = int (owner_count l w)}"
  using assms
proof (induction l arbitrary: c r)
  case Nil
  then show ?case by simp
next
  case (Cons slot l)
  show ?case
  proof (cases "dsOwner slot")
    case None
    have "\<forall>w. int (owner_count l w) \<le> count_of c w" using Cons.prems None by simp
    from Cons.IH [OF this, of r] show ?thesis using None by (simp add: release_def)
  next
    case (Some v)
    let ?c = "c(v \<mapsto> count_of c v - 1)" and ?r = "if count_of c v = 1 then r @ [v] else r"
    let ?pre = "if count_of c v = 1 then [v] else []"
    have le: "int (owner_count (slot # l) w) \<le> count_of c w" for w using Cons.prems by blast
    have "int (owner_count l w) \<le> count_of ?c w" for w
      using le [of w] Some by (simp split: if_splits)
    then obtain c' new where IH: "fold release l (?c, ?r) = (c', ?r @ new)" "finite (dom ?c) \<longrightarrow> finite (dom c')"
      "\<forall>w. count_of c' w = count_of ?c w - int (owner_count l w)" "distinct new"
      "set new = {w. 0 < owner_count l w \<and> count_of ?c w = int (owner_count l w)}"
      using Cons.IH [of ?c ?r] by blast
    have f: "fold release (slot # l) (c, r) = (c', ?r @ new)" using Some IH(1)
      by (cases "count_of c v = 1") (simp_all add: release_def)
    have "owner_count l v = 0" if "count_of c v = 1" using le [of v] Some that by simp
    then have new: "w \<in> set new \<or> w = v \<and> count_of c v = 1 \<longleftrightarrow>
        0 < owner_count (slot # l) w \<and> count_of c w = int (owner_count (slot # l) w)" for w
      using Some le [of v] unfolding IH(5) by (cases "w = v") auto
    have "v \<notin> set new" if "count_of c v = 1" using that unfolding IH(5) by auto
    then have "distinct (?pre @ new)" using IH(4) by simp
    moreover have "set (?pre @ new) = {w. 0 < owner_count (slot # l) w \<and> count_of c w = int (owner_count (slot # l) w)}"
      unfolding new [symmetric] by auto
    moreover have "count_of c' w = count_of c w - int (owner_count (slot # l) w)" for w using IH(3) Some by simp
    moreover have "fold release (slot # l) (c, r) = (c', r @ ?pre @ new)" using f by simp
    moreover have "finite (dom c) \<longrightarrow> finite (dom c')" using IH(2) by simp
    ultimately show ?thesis by blast
  qed
qed

text \<open>The state of the loop: the dependencies in the result, those that are ready, the counts.\<close>

definition sort_inv :: "('k \<rightharpoonup> ('k, 's) dep_slot list) \<Rightarrow> ('k \<rightharpoonup> int) \<times> 'k list \<Rightarrow> 'k list \<Rightarrow> bool" where
  "sort_inv deps cr res \<longleftrightarrow> finite (dom (fst cr)) \<and> distinct (res @ snd cr) \<and> set (res @ snd cr) \<subseteq> dom deps \<and>
     (\<forall>w. count_of (fst cr) w = int (remaining deps (set res) w)) \<and>
     (\<forall>k \<in> dom deps - set res. k \<in> set (snd cr) \<longleftrightarrow> remaining deps (set res) k = 0) \<and> topological (needs deps) res"

lemma needs_dom: "(k, w) \<in> needs deps \<Longrightarrow> k \<in> dom deps"
  by (cases "deps k") (auto simp: needs_def slots_of_def)

lemma needs_count: "(k, w) \<in> needs deps \<longleftrightarrow> 0 < owner_count (slots_of deps k) w"
  by (simp add: needs_def owner_count_pos)

lemma remaining_zero:
  assumes "finite (dom deps)"
  shows "remaining deps D w = 0 \<longleftrightarrow> (\<forall>k. (k, w) \<in> needs deps \<longrightarrow> k \<in> D)"
proof -
  have "remaining deps D w = 0 \<longleftrightarrow> (\<forall>k \<in> dom deps - D. (k, w) \<notin> needs deps)"
    using assms by (simp add: remaining_def needs_count)
  then show ?thesis using needs_dom [of _ w deps] by blast
qed

lemma remaining_insert:
  assumes "finite (dom deps)" and "k \<in> dom deps - D"
  shows "remaining deps D w = remaining deps (insert k D) w + owner_count (slots_of deps k) w"
proof -
  have "dom deps - D - {k} = dom deps - insert k D" by blast
  then show ?thesis using assms sum.remove [of "dom deps - D" k "\<lambda>k. owner_count (slots_of deps k) w"]
    by (simp add: remaining_def)
qed

lemma sort_inv_step:
  assumes "finite (dom deps)" and "\<forall>(k, w) \<in> needs deps. w \<in> dom deps" and "sort_inv deps cr res" and "snd cr \<noteq> []"
  defines "k \<equiv> last (snd cr)"
  shows "sort_inv deps (fold release (slots_of deps k) (fst cr, butlast (snd cr))) (res @ [k])" and "k \<in> dom deps - set res"
proof -
  let ?D = "set res" and ?oc = "owner_count (slots_of deps k)"
  have ready: "snd cr = butlast (snd cr) @ [k]" using assms(4) by (simp add: k_def)
  have "distinct (res @ snd cr)" "set (res @ snd cr) \<subseteq> dom deps" using assms(3) by (simp_all add: sort_inv_def)
  then have split: "distinct (res @ butlast (snd cr) @ [k])" "set (res @ butlast (snd cr) @ [k]) \<subseteq> dom deps"
    by (simp_all only: ready [symmetric])
  have "finite (dom (fst cr))" "\<And>w. count_of (fst cr) w = int (remaining deps ?D w)"
    "\<And>j. j \<in> dom deps - ?D \<Longrightarrow> j \<in> set (snd cr) \<longleftrightarrow> remaining deps ?D j = 0" "topological (needs deps) res"
    using assms(3) unfolding sort_inv_def by blast+
  note inv = this(1) split this(2-)
  show k: "k \<in> dom deps - ?D" using inv(2,3) by auto
  have rem: "remaining deps ?D w = remaining deps (insert k ?D) w + ?oc w" for w by (rule remaining_insert [OF assms(1) k])
  have "\<forall>w. int (?oc w) \<le> count_of (fst cr) w" using rem inv(4) by simp
  then obtain c' new where new: "fold release (slots_of deps k) (fst cr, butlast (snd cr)) = (c', butlast (snd cr) @ new)"
    "finite (dom c')" "\<forall>w. count_of c' w = count_of (fst cr) w - int (?oc w)" "distinct new"
    "set new = {w. 0 < ?oc w \<and> count_of (fst cr) w = int (?oc w)}"
    using release_slots [of "slots_of deps k" "fst cr" "butlast (snd cr)"] inv(1) by blast
  have k0: "remaining deps ?D k = 0" using inv(5) [OF k] ready by (metis in_set_conv_decomp)
  have topo: "topological (needs deps) (res @ [k])"
    using inv(6) k0 remaining_zero [OF assms(1)] by (simp add: topological_snoc)
  have isnew: "w \<in> set new \<longleftrightarrow> 0 < ?oc w \<and> remaining deps (insert k ?D) w = 0" for w
    unfolding new(5) inv(4) using rem [of w] by auto
  have fresh: "w \<in> dom deps - insert k ?D - set (butlast (snd cr))" if w: "w \<in> set new" for w
  proof -
    have nd: "(k, w) \<in> needs deps" and pos: "remaining deps ?D w \<noteq> 0" using w isnew rem [of w] by (auto simp: needs_count)
    have "w \<notin> ?D"
    proof
      assume "w \<in> ?D"
      then obtain i where "i < length res" "res ! i = w" by (auto simp: in_set_conv_nth)
      then have "k \<in> ?D" using inv(6) nd unfolding topological_def by (meson in_set_takeD)
      then show False using k by simp
    qed
    moreover have "w \<in> dom deps" using nd assms(2) by blast
    moreover have "w \<noteq> k" using pos k0 by auto
    moreover have "w \<notin> set (butlast (snd cr))" using inv(5) [of w] pos calculation in_set_butlastD by fastforce
    ultimately show ?thesis by blast
  qed
  have rdy: "j \<in> set (butlast (snd cr) @ new) \<longleftrightarrow> remaining deps (insert k ?D) j = 0"
    if j: "j \<in> dom deps - insert k ?D" for j
  proof -
    have "j \<in> set (snd cr) \<longleftrightarrow> j \<in> set (butlast (snd cr))" using j ready by (metis DiffD2 Un_iff insertCI set_append set_ConsD empty_iff list.set(1) list.set(2) insertE)
    then show ?thesis using inv(5) [of j] j isnew [of j] rem [of j] by auto
  qed
  show "sort_inv deps (fold release (slots_of deps k) (fst cr, butlast (snd cr))) (res @ [k])"
    unfolding sort_inv_def new(1)
  proof (intro conjI)
    have "set new \<subseteq> dom deps" "set new \<inter> insert k ?D = {}" "set new \<inter> set (butlast (snd cr)) = {}"
      using fresh by blast+
    then show "distinct ((res @ [k]) @ snd (c', butlast (snd cr) @ new))"
      and "set ((res @ [k]) @ snd (c', butlast (snd cr) @ new)) \<subseteq> dom deps"
      using inv(2,3) new(4) by auto
    show "\<forall>w. count_of (fst (c', butlast (snd cr) @ new)) w = int (remaining deps (set (res @ [k])) w)"
      using new(3) inv(4) rem by simp
    show "\<forall>j \<in> dom deps - set (res @ [k]).
        j \<in> set (snd (c', butlast (snd cr) @ new)) \<longleftrightarrow> remaining deps (set (res @ [k])) j = 0"
      using rdy by simp
  qed (use new(2) topo in simp_all)
qed

lemma sort_loop_ok:
  assumes "finite (dom deps)" and "\<forall>(k, w) \<in> needs deps. w \<in> dom deps" and "sort_inv deps cr res"
  shows "\<exists>ks c. sort_loop deps cr res = Some (ks, c) \<and> sort_inv deps (c, []) ks"
  using assms(3)
proof (induction "card (dom deps - set res)" arbitrary: cr res rule: less_induct)
  case less
  show ?case
  proof (cases "snd cr = []")
    case True
    then show ?thesis using less.prems by (cases cr) (simp add: sort_loop.simps)
  next
    case False
    note st = sort_inv_step [OF assms(1,2) less.prems False]
    have "dom deps - set (res @ [last (snd cr)]) \<subset> dom deps - set res" using st(2) by auto
    then have "card (dom deps - set (res @ [last (snd cr)])) < card (dom deps - set res)"
      using assms(1) by (intro psubset_card_mono) auto
    from less.hyps [OF this st(1)] show ?thesis using False by (simp add: sort_loop.simps [of _ cr])
  qed
qed

lemma deps_sort_ok:
  assumes "ordering_ok ord" and "finite (dom deps)" and "\<forall>(k, w) \<in> needs deps. w \<in> dom deps"
  shows "if acyclic (needs deps)
    then \<exists>ks. deps_sort ord deps = Some (Returned ks) \<and> distinct ks \<and> set ks = dom deps \<and> topological (needs deps) ks
    else deps_sort ord deps = Some (Panic ''Circular dependencies'')"
proof -
  let ?c = "initial_counts deps (ord [''counts''] (dom deps))"
  let ?r = "filter (\<lambda>k. count_of ?c k = 0) (ord [''ready''] (dom deps))"
  have cnt: "count_of ?c w = int (remaining deps {} w)" "finite (dom ?c)" for w
    using initial_counts_ok [of "ord [''counts''] (dom deps)"] assms(1,2) by (simp_all add: remaining_def)
  have "sort_inv deps (?c, ?r) []"
    using cnt assms(1,2) by (auto simp: sort_inv_def topological_def)
  then obtain ks c where ks: "sort_loop deps (?c, ?r) [] = Some (ks, c)" and inv: "sort_inv deps (c, []) ks"
    using sort_loop_ok [OF assms(2,3)] by blast
  have fin: "finite (dom c)" and d: "distinct ks" "set ks \<subseteq> dom deps" "topological (needs deps) ks"
    and c: "\<And>w. count_of c w = int (remaining deps (set ks) w)"
    and stuck: "\<And>k. k \<in> dom deps - set ks \<Longrightarrow> remaining deps (set ks) k \<noteq> 0"
    using inv by (auto simp: sort_inv_def)
  have "(\<forall>k \<in> set (ord [''check''] (dom c)). count_of c k = 0) \<longleftrightarrow> (\<forall>k. count_of c k = 0)"
    using assms(1) fin by (auto simp: count_of_def split: option.splits)
  also have "\<dots> \<longleftrightarrow> set ks = dom deps"
  proof
    assume z: "\<forall>k. count_of c k = 0"
    show "set ks = dom deps" using stuck c z d(2) by (metis DiffI of_nat_eq_0_iff subsetI subset_antisym)
  next
    assume "set ks = dom deps"
    then show "\<forall>k. count_of c k = 0" using c by (simp add: remaining_def)
  qed
  finally have res: "deps_sort ord deps = Some (if set ks = dom deps then Returned ks else Panic ''Circular dependencies'')"
    by (simp add: deps_sort_def ks)
  show ?thesis
  proof (cases "set ks = dom deps")
    case True
    then have "acyclic (needs deps)" using topological_acyclic [OF d(3)] assms(3) by simp
    then show ?thesis using res d True by simp
  next
    case False
    have "\<not> acyclic (needs deps)"
    proof
      assume "acyclic (needs deps)"
      moreover have "needs deps \<subseteq> dom deps \<times> dom deps" using needs_dom assms(3) by fastforce
      then have "finite (needs deps)" using assms(2) finite_subset by blast
      ultimately have "wf (needs deps)" by (simp add: finite_acyclic_wf)
      moreover obtain k where "k \<in> dom deps - set ks" using False d(2) by blast
      ultimately obtain m where "m \<in> dom deps - set ks" "\<And>y. (y, m) \<in> needs deps \<Longrightarrow> y \<notin> dom deps - set ks"
        using wfE_min by metis
      then show False using stuck remaining_zero [OF assms(2)] needs_dom by (metis DiffI)
    qed
    then show ?thesis using res False by simp
  qed
qed

section \<open>Filling the slots\<close>

text \<open>What a configuration sees in the slots it asked for, given the values.\<close>

definition slots_view :: "('s \<times> 'k) list \<Rightarrow> ('k \<Rightarrow> 'v) \<Rightarrow> 's \<rightharpoonup> 'v" where
  "slots_view rs vals = (\<lambda>s. map_option vals (map_of rs s))"

text \<open>A method of a configuration that looks only at the slots it asked for.\<close>

definition looks_at :: "'s set \<Rightarrow> (('s \<rightharpoonup> 'v) \<Rightarrow> 'r) \<Rightarrow> bool" where
  "looks_at A f \<longleftrightarrow> (\<forall>m m'. (\<forall>s \<in> A. m s = m' s) \<longrightarrow> f m = f m')"

definition slots_at :: "('k \<rightharpoonup> ('k, 's) dep_slot list) \<Rightarrow> 'k \<Rightarrow> 's set" where
  "slots_at deps k = dsSlot ` set (slots_of deps k)"

definition filled :: "('k \<rightharpoonup> ('k, 's) dep_slot list) \<Rightarrow> ('s \<rightharpoonup> 'v) \<Rightarrow> ('k \<Rightarrow> 'v) \<Rightarrow> 'k set \<Rightarrow> bool" where
  "filled deps store vals D \<longleftrightarrow> (\<forall>k \<in> D. \<forall>s \<in> slots_at deps k. store s = Some (vals k))"

lemma assign_at: "assign slots v store s = (if s \<in> dsSlot ` set slots then Some v else store s)"
  unfolding assign_def by (induction slots arbitrary: store) auto

lemma filled_assign:
  assumes "filled deps store vals D" and "k \<notin> D" and "\<forall>j \<in> D. slots_at deps j \<inter> slots_at deps k = {}"
  shows "filled deps (assign (slots_of deps k) v store) (vals(k := v)) (insert k D)"
  unfolding filled_def
proof (intro ballI)
  fix j s assume j: "j \<in> insert k D" and s: "s \<in> slots_at deps j"
  show "assign (slots_of deps k) v store s = Some ((vals(k := v)) j)"
  proof (cases "j = k")
    case True
    then show ?thesis using s by (simp add: assign_at slots_at_def)
  next
    case False
    then have "j \<in> D" "s \<notin> slots_at deps k" using j s assms(3) by auto
    then have "store s = Some (vals j)" "s \<notin> dsSlot ` set (slots_of deps k)"
      using assms(1) s by (auto simp: filled_def slots_at_def)
    then show ?thesis using False by (simp add: assign_at)
  qed
qed

lemma view_filled:
  assumes "filled deps store vals D" and "\<forall>(s, j) \<in> set rs. s \<in> slots_at deps j \<and> j \<in> D"
    and "looks_at (fst ` set rs) f"
  shows "f store = f (slots_view rs vals)"
proof -
  have "store s = slots_view rs vals s" if "s \<in> fst ` set rs" for s
  proof -
    have "map_of rs s \<noteq> None" using that by (simp add: map_of_eq_None_iff)
    then obtain j where j: "map_of rs s = Some j" by blast
    then have "s \<in> slots_at deps j \<and> j \<in> D" using assms(2) map_of_SomeD by fastforce
    then show ?thesis using assms(1) j by (simp add: filled_def slots_view_def)
  qed
  then show ?thesis using assms(3) unfolding looks_at_def by blast
qed

text \<open>
  The values of the dependencies in \<open>D\<close>, each made from the values it asked for, and what starts
  with a dependency, if anything does.
\<close>

definition made :: "('k \<Rightarrow> ('s \<times> 'k) list) \<Rightarrow> ('k \<Rightarrow> ('s \<rightharpoonup> 'v) \<Rightarrow> 'e + 'v \<times> 'f option) \<Rightarrow> ('k \<Rightarrow> 'v) \<Rightarrow> 'k set \<Rightarrow> bool" where
  "made populate MakeValue vals D \<longleftrightarrow> (\<forall>k \<in> D. \<exists>f. MakeValue k (slots_view (populate k) vals) = Inr (vals k, f))"

definition start_of :: "('k \<Rightarrow> ('s \<times> 'k) list) \<Rightarrow> ('k \<Rightarrow> ('s \<rightharpoonup> 'v) \<Rightarrow> 'e + 'v \<times> 'f option) \<Rightarrow> ('k \<Rightarrow> 'v) \<Rightarrow> 'k \<Rightarrow> 'f option" where
  "start_of populate MakeValue vals k =
     (case MakeValue k (slots_view (populate k) vals) of Inl err \<Rightarrow> None | Inr (v, f) \<Rightarrow> f)"

text \<open>A dependency whose value cannot be made, although those it asks for are.\<close>

definition cannot_make ::
  "('k \<Rightarrow> ('s \<times> 'k) list) \<Rightarrow> ('k \<Rightarrow> ('s \<rightharpoonup> 'v) \<Rightarrow> 'e + 'v \<times> 'f option) \<Rightarrow> 'k set \<Rightarrow> 'e \<Rightarrow> bool" where
  "cannot_make populate MakeValue K err \<longleftrightarrow>
     (\<exists>k \<in> K. \<exists>vals. made populate MakeValue vals (snd ` set (populate k)) \<and>
        MakeValue k (slots_view (populate k) vals) = Inl err)"

lemma slots_view_cong: "(\<And>k. k \<in> snd ` set rs \<Longrightarrow> vals k = vals' k) \<Longrightarrow> slots_view rs vals = slots_view rs vals'"
proof (rule ext)
  fix s
  assume eq: "\<And>k. k \<in> snd ` set rs \<Longrightarrow> vals k = vals' k"
  show "slots_view rs vals s = slots_view rs vals' s"
  proof (cases "map_of rs s")
    case (Some k)
    then have "k \<in> snd ` set rs" by (force dest: map_of_SomeD)
    then show ?thesis using eq Some by (simp add: slots_view_def)
  qed (simp add: slots_view_def)
qed

lemma made_mono: "made populate MakeValue vals D \<Longrightarrow> D' \<subseteq> D \<Longrightarrow> made populate MakeValue vals D'"
  by (auto simp: made_def)

lemma cannot_make_mono:
  "cannot_make populate MakeValue K err \<Longrightarrow> K \<subseteq> K' \<Longrightarrow> cannot_make populate MakeValue K' err"
  by (auto simp: cannot_make_def)

lemma make_values_ok:
  assumes "topological R (res @ ds)" and "distinct (res @ ds)"
    and "\<forall>i \<in> set (res @ ds). \<forall>j \<in> set (res @ ds). i \<noteq> j \<longrightarrow> slots_at deps i \<inter> slots_at deps j = {}"
    and "\<forall>k \<in> set ds. (\<forall>(s, j) \<in> set (populate k). s \<in> slots_at deps j \<and> (j, k) \<in> R) \<and>
      looks_at (fst ` set (populate k)) (MakeValue k)"
    and "filled deps store vals (set res)" and "made populate MakeValue vals (set res)"
    and "\<forall>k \<in> set res. snd ` set (populate k) \<subseteq> set res"
  shows "case make_values MakeValue deps ds store fs of
      Inl err \<Rightarrow> cannot_make populate MakeValue (set ds) err
    | Inr (store', fs') \<Rightarrow> \<exists>vals'. filled deps store' vals' (set (res @ ds)) \<and>
        made populate MakeValue vals' (set (res @ ds)) \<and>
        fs' = fs @ List.map_filter (start_of populate MakeValue vals') ds \<and> (\<forall>k \<in> set res. vals' k = vals k)"
  using assms
proof (induction ds arbitrary: res store vals fs)
  case Nil
  then show ?case by (auto simp: map_filter_simps)
next
  case (Cons k ds)
  have k: "k \<notin> set res" using Cons.prems(2) by simp
  have "topological R (res @ [k])" using Cons.prems(1) topological_append [of R "res @ [k]" ds] by simp
  then have "\<And>j. (j, k) \<in> R \<Longrightarrow> j \<in> set res" by (simp add: topological_snoc)
  then have before: "snd ` set (populate k) \<subseteq> set res" using Cons.prems(4) by fastforce
  have v: "MakeValue k store = MakeValue k (slots_view (populate k) vals)"
    by (rule view_filled [OF Cons.prems(5)]) (use Cons.prems(4) before in force)+
  show ?case
  proof (cases "MakeValue k store")
    case (Inl err)
    then show ?thesis using v made_mono [OF Cons.prems(6) before] by (auto simp: cannot_make_def)
  next
    case (Inr p)
    obtain val f where p: "p = (val, f)" by (cases p)
    let ?store = "assign (slots_of deps k) val store" and ?vals = "vals(k := val)"
    let ?fs = "case f of None \<Rightarrow> fs | Some f \<Rightarrow> fs @ [f]"
    have same: "slots_view (populate j) ?vals = slots_view (populate j) vals" if "j \<in> set (res @ [k])" for j
    proof (rule slots_view_cong)
      have "snd ` set (populate j) \<subseteq> set res"
        using that before Cons.prems(7) by (cases "j = k") simp_all
      then show "?vals i = vals i" if "i \<in> snd ` set (populate j)" for i using that k by auto
    qed
    have fill: "filled deps ?store ?vals (set (res @ [k]))"
    proof -
      have "\<forall>j \<in> set res. slots_at deps j \<inter> slots_at deps k = {}" using Cons.prems(3) k by auto
      from filled_assign [OF Cons.prems(5) k this, of val] show ?thesis by simp
    qed
    have making: "made populate MakeValue ?vals (set (res @ [k]))"
      unfolding made_def
    proof
      fix j
      assume j: "j \<in> set (res @ [k])"
      show "\<exists>f. MakeValue j (slots_view (populate j) ?vals) = Inr (?vals j, f)"
      proof (cases "j = k")
        case True
        then show ?thesis using same [OF j] v [symmetric] Inr p by (intro exI [of _ f]) simp
      next
        case False
        then show ?thesis using same [OF j] Cons.prems(6) j by (simp add: made_def)
      qed
    qed
    have eq: "make_values MakeValue deps (k # ds) store fs = make_values MakeValue deps ds ?store ?fs" using Inr p by simp
    have IH: "case make_values MakeValue deps ds ?store ?fs of
        Inl err \<Rightarrow> cannot_make populate MakeValue (set ds) err
      | Inr (store', fs') \<Rightarrow> \<exists>vals'. filled deps store' vals' (set ((res @ [k]) @ ds)) \<and>
          made populate MakeValue vals' (set ((res @ [k]) @ ds)) \<and>
          fs' = ?fs @ List.map_filter (start_of populate MakeValue vals') ds \<and> (\<forall>j \<in> set (res @ [k]). vals' j = ?vals j)"
    proof (rule Cons.IH [of "res @ [k]" ?store ?vals ?fs, OF _ _ _ _ fill making])
      show "\<forall>j \<in> set (res @ [k]). snd ` set (populate j) \<subseteq> set (res @ [k])"
        using Cons.prems(7) before by fastforce
    qed (use Cons.prems(1-4) in simp_all)
    show ?thesis
    proof (cases "make_values MakeValue deps ds ?store ?fs")
      case (Inl err)
      then show ?thesis using IH unfolding eq by (auto intro: cannot_make_mono)
    next
      case rest: (Inr q)
      obtain store' fs' where q: "q = (store', fs')" by (cases q)
      obtain vals' where vals': "filled deps store' vals' (set (res @ k # ds))"
        "made populate MakeValue vals' (set (res @ k # ds))"
        "fs' = ?fs @ List.map_filter (start_of populate MakeValue vals') ds" "\<forall>j \<in> set (res @ [k]). vals' j = ?vals j"
        using IH rest q by auto
      have "slots_view (populate k) vals' = slots_view (populate k) ?vals"
        by (rule slots_view_cong) (use before vals'(4) in auto)
      moreover have "MakeValue k (slots_view (populate k) vals) = Inr (val, f)" using v Inr p by simp
      ultimately have "start_of populate MakeValue vals' k = f" using same [of k] by (simp add: start_of_def)
      then have "fs' = fs @ List.map_filter (start_of populate MakeValue vals') (k # ds)"
        using vals'(3) by (simp add: map_filter_simps split: option.splits)
      moreover have "\<forall>j \<in> set res. vals' j = vals j" using vals'(4) k by auto
      ultimately show ?thesis using vals'(1,2) rest q unfolding eq by auto
    qed
  qed
qed

lemma prepare_all_ok:
  "case prepare_all Prepare cs store fs of
     Inl err \<Rightarrow> \<exists>c \<in> set cs. Prepare c store = Inl err
   | Inr fs' \<Rightarrow> \<exists>gs. fs' = fs @ gs \<and> list_all2 (\<lambda>c g. Prepare c store = Inr g) cs gs"
proof (induction cs arbitrary: fs)
  case (Cons c cs)
  show ?case
  proof (cases "Prepare c store")
    case (Inr f)
    show ?thesis using Cons.IH [of "fs @ [f]"] Inr by (auto split: sum.splits simp: list_all2_Cons1)
  qed simp
qed simp

section \<open>The whole\<close>

definition wants :: "('k \<Rightarrow> ('s \<times> 'k) list) \<Rightarrow> ('k \<times> 'k) set" where
  "wants populate = {(w, k). k \<in> snd ` set (populate w)}"

text \<open>The dependencies that a list of requests reaches.\<close>

definition reached :: "('k \<Rightarrow> ('s \<times> 'k) list) \<Rightarrow> ('s \<times> 'k) list \<Rightarrow> 'k set" where
  "reached populate rs = (wants populate)\<^sup>* `` (snd ` set rs)"

lemma reached_closed: "k \<in> reached populate rs \<Longrightarrow> snd ` set (populate k) \<subseteq> reached populate rs"
  by (auto simp: reached_def wants_def intro: rtrancl.rtrancl_into_rtrancl)

lemma reached_least:
  assumes "snd ` set rs \<subseteq> K" and "\<forall>k \<in> K. snd ` set (populate k) \<subseteq> K"
  shows "reached populate rs \<subseteq> K"
proof -
  have "k \<in> K" if "(j, k) \<in> (wants populate)\<^sup>*" "j \<in> K" for j k
    using that by (induction rule: rtrancl_induct) (use assms(2) in \<open>auto simp: wants_def\<close>)
  then show ?thesis using assms(1) by (auto simp: reached_def)
qed

text \<open>The collected dependencies, as a graph.\<close>

lemma collected_graph:
  assumes "collects populate rs no_dependencies d" and "dom (dpDeps d) \<subseteq> reached populate rs"
  shows "dom (dpDeps d) = reached populate rs"
    and "edges d = asked None rs \<union> (\<Union>k \<in> reached populate rs. asked (Some k) (populate k))"
    and "needs (dpDeps d) = {(k, w). w \<in> reached populate rs \<and> (w, k) \<in> wants populate}"
proof -
  let ?K = "reached populate rs"
  have e: "dom (dpDeps (no_dependencies :: ('a, 'b) dependencies)) = {}" "edges (no_dependencies :: ('a, 'b) dependencies) = {}"
    "dpCurrent (no_dependencies :: ('a, 'b) dependencies) = None"
    by (simp_all add: no_dependencies_def edges_def slots_of_def)
  note c = assms(1) [unfolded collects_def e]
  have "?K \<subseteq> dom (dpDeps d)" by (rule reached_least) (use c in auto)
  then show dom: "dom (dpDeps d) = ?K" using assms(2) by auto
  show edges: "edges d = asked None rs \<union> (\<Union>k \<in> ?K. asked (Some k) (populate k))" using c dom by simp
  have "(k, w) \<in> needs (dpDeps d) \<longleftrightarrow> (\<exists>s. (s, Some w, k) \<in> edges d)" for k w
    unfolding needs_def edge_slot by auto
  then show "needs (dpDeps d) = {(k, w). w \<in> ?K \<and> (w, k) \<in> wants populate}"
    unfolding edges by (force simp: asked_def wants_def)
qed

lemma collected:
  fixes populate :: "'k \<Rightarrow> ('k, 's) request list"
  assumes "finite (reached (asks \<circ> populate) (asks rs))"
  shows "\<exists>r. Dependency populate rs no_dependencies = Some r \<and>
    (case r of
       Panic m \<Rightarrow> \<exists>name. m = ''flag redefined: '' @ name
     | Returned d \<Rightarrow> collects (asks \<circ> populate) (asks rs) no_dependencies d \<and>
         dom (dpDeps d) \<subseteq> reached (asks \<circ> populate) (asks rs))"
proof -
  have roots: "snd ` set (asks rs) \<subseteq> reached (asks \<circ> populate) (asks rs)" by (auto simp: reached_def)
  have closed: "\<forall>k \<in> reached (asks \<circ> populate) (asks rs). snd ` set (asks (populate k)) \<subseteq> reached (asks \<circ> populate) (asks rs)"
    using reached_closed [of _ "asks \<circ> populate" "asks rs"] by simp
  have none: "dom (dpDeps (no_dependencies :: ('k, 's) dependencies)) = {}" by (simp add: no_dependencies_def)
  obtain r where r: "Dependency populate rs no_dependencies = Some r"
    "collection (asks \<circ> populate) (reached (asks \<circ> populate) (asks rs)) (asks rs) no_dependencies r"
    using Dependency_collects [OF assms closed roots, of no_dependencies] by blast
  then show ?thesis unfolding collection_def none by (cases r) simp_all
qed

lemma slots_at_edges: "s \<in> slots_at (dpDeps d) k \<longleftrightarrow> (\<exists>w. (s, w, k) \<in> edges d)"
  unfolding slots_at_def edge_slot by auto

text \<open>
  C19: The sort of the dependencies always ends. When they are not circular it returns each of
  them once, after all of those it needs, in whatever order the maps are visited; otherwise it
  panics.
\<close>

theorem deps_sort_order:
  assumes "ordering_ok ord" and "finite (dom deps)" and "\<forall>(k, w) \<in> needs deps. w \<in> dom deps"
  shows "if acyclic (needs deps)
    then \<exists>ks. deps_sort ord deps = Some (Returned ks) \<and> distinct ks \<and> set ks = dom deps \<and>
      (\<forall>i < length ks. \<forall>k. (k, ks ! i) \<in> needs deps \<longrightarrow> k \<in> set (take i ks))
    else deps_sort ord deps = Some (Panic ''Circular dependencies'')"
  using deps_sort_ok [OF assms] unfolding topological_def .

text \<open>A store that needs a client, and a circle of two.\<close>

definition demo_deps :: "string \<rightharpoonup> (string, nat) dep_slot list" where
  "demo_deps = [''store'' \<mapsto> [\<lparr>dsSlot = 0, dsOwner = None\<rparr>], ''client'' \<mapsto> [\<lparr>dsSlot = 1, dsOwner = Some ''store''\<rparr>]]"

definition demo_circle :: "string \<rightharpoonup> (string, nat) dep_slot list" where
  "demo_circle = [''a'' \<mapsto> [\<lparr>dsSlot = 0, dsOwner = Some ''b''\<rparr>], ''b'' \<mapsto> [\<lparr>dsSlot = 1, dsOwner = Some ''a''\<rparr>]]"

lemma demo_needs: "needs demo_deps = {(''client'', ''store'')}" "needs demo_circle = {(''a'', ''b''), (''b'', ''a'')}"
  by (auto simp: needs_def demo_deps_def demo_circle_def slots_of_def split: if_splits)

theorem deps_sort_order_witness:
  "deps_sort sorted_ordering demo_deps = Some (Returned [''client'', ''store'']) \<and>
   deps_sort sorted_ordering demo_circle = Some (Panic ''Circular dependencies'')"
proof
  have dom: "dom demo_deps = {''store'', ''client''}" by (auto simp: demo_deps_def)
  have acyc: "acyclic (needs demo_deps)" by (simp add: demo_needs acyclic_insert wf_acyclic)
  have fin: "finite (dom demo_deps)" and own: "\<forall>(k, w) \<in> needs demo_deps. w \<in> dom demo_deps"
    by (simp_all add: dom demo_needs)
  obtain ks where ks: "deps_sort sorted_ordering demo_deps = Some (Returned ks)" "distinct ks" "set ks = {''store'', ''client''}"
    "\<forall>i < length ks. \<forall>k. (k, ks ! i) \<in> {(''client'', ''store'')} \<longrightarrow> k \<in> set (take i ks)"
    using deps_sort_order [OF sorted_ordering_ok fin own, unfolded if_P [OF acyc], unfolded dom demo_needs]
    by (elim exE conjE) (rule that; assumption)
  have "length ks = 2" using distinct_card [OF ks(2)] ks(3) by simp
  then obtain x y where xy: "ks = [x, y]" by (auto simp: length_Suc_conv numeral_2_eq_2)
  have "x \<noteq> ''store''" using ks(4) [rule_format, of 0 "''client''"] xy by auto
  have "x \<in> set ks" "''store'' \<in> set ks" by (simp add: xy, simp add: ks(3))
  then have x: "x = ''client''" using \<open>x \<noteq> ''store''\<close> by (simp add: ks(3))
  then have "y = ''store''" using \<open>''store'' \<in> set ks\<close> by (simp add: xy)
  then show "deps_sort sorted_ordering demo_deps = Some (Returned [''client'', ''store''])"
    using ks(1) xy x by simp
  have circle: "\<not> acyclic (needs demo_circle)"
  proof -
    have "(''a'', ''b'') \<in> needs demo_circle" "(''b'', ''a'') \<in> needs demo_circle" by (simp_all add: demo_needs)
    then have "(''a'', ''a'') \<in> (needs demo_circle)\<^sup>+" by (rule trancl.trancl_into_trancl [OF trancl.r_into_trancl])
    then show ?thesis unfolding acyclic_def by blast
  qed
  have dom': "dom demo_circle = {''a'', ''b''}" by (auto simp: demo_circle_def)
  have "finite (dom demo_circle)" "\<forall>(k, w) \<in> needs demo_circle. w \<in> dom demo_circle" by (simp_all add: dom' demo_needs)
  from deps_sort_order [OF sorted_ordering_ok this, unfolded if_not_P [OF circle]]
  show "deps_sort sorted_ordering demo_circle = Some (Panic ''Circular dependencies'')" .
qed

text \<open>
  What becomes of a program whose dependencies are \<open>K\<close>: some value or some configuration fails,
  with the values it asked for in its slots; or every value is made from the values it asked for
  and every configuration is prepared with them.
\<close>

definition put_together ::
  "('k \<Rightarrow> ('s \<times> 'k) list) \<Rightarrow> ('c \<Rightarrow> ('s \<times> 'k) list) \<Rightarrow> ('k \<Rightarrow> ('s \<rightharpoonup> 'v) \<Rightarrow> 'e + 'v \<times> 'f option) \<Rightarrow>
     ('c \<Rightarrow> ('s \<rightharpoonup> 'v) \<Rightarrow> 'e + 'f) \<Rightarrow> 'c list \<Rightarrow> 'k set \<Rightarrow> 'e + 'f list \<Rightarrow> bool" where
  "put_together populate configPopulate MakeValue Prepare configs K r \<longleftrightarrow>
     (case r of
        Inl err \<Rightarrow> cannot_make populate MakeValue K err \<or>
          (\<exists>vals. made populate MakeValue vals K \<and>
             (\<exists>c \<in> set configs. Prepare c (slots_view (configPopulate c) vals) = Inl err))
      | Inr fs \<Rightarrow> \<exists>vals ks prepared. made populate MakeValue vals K \<and> distinct ks \<and> set ks = K \<and>
          fs = List.map_filter (start_of populate MakeValue vals) ks @ prepared \<and>
          list_all2 (\<lambda>c f. Prepare c (slots_view (configPopulate c) vals) = Inr f) configs prepared)"

text \<open>
  When the slots of different dependencies are different and each dependency comes after those it
  asks for, every value is made, and every configuration prepared, with its slots filled.
\<close>

lemma made_and_prepared:
  fixes populate :: "'k \<Rightarrow> ('s \<times> 'k) list" and configPopulate :: "'c \<Rightarrow> ('s \<times> 'k) list"
    and MakeValue :: "'k \<Rightarrow> ('s \<rightharpoonup> 'v) \<Rightarrow> 'e + 'v \<times> 'f option" and Prepare :: "'c \<Rightarrow> ('s \<rightharpoonup> 'v) \<Rightarrow> 'e + 'f"
  assumes "distinct ks" and "set ks = K" and "topological (needs m) ks"
    and one: "\<And>i j. i \<noteq> j \<Longrightarrow> slots_at m i \<inter> slots_at m j = {}"
    and mine: "\<And>k. k \<in> K \<Longrightarrow> \<forall>(s, j) \<in> set (populate k). s \<in> slots_at m j \<and> (j, k) \<in> needs m"
    and ask: "\<And>c. c \<in> set configs \<Longrightarrow> \<forall>(s, j) \<in> set (configPopulate c). s \<in> slots_at m j \<and> j \<in> K"
    and "\<forall>k \<in> K. looks_at (fst ` set (populate k)) (MakeValue k)"
    and "\<forall>c \<in> set configs. looks_at (fst ` set (configPopulate c)) (Prepare c)"
  shows "put_together populate configPopulate MakeValue Prepare configs K (fill_and_prepare MakeValue Prepare m configs ks)"
proof -
  have none: "filled m Map.empty (undefined :: 'k \<Rightarrow> 'v) (set [])" "made populate MakeValue undefined (set [])"
    by (simp_all add: filled_def made_def)
  have making: "case make_values MakeValue m ks Map.empty [] of
      Inl err \<Rightarrow> cannot_make populate MakeValue K err
    | Inr (store', fs') \<Rightarrow> \<exists>vals'. filled m store' vals' K \<and> made populate MakeValue vals' K \<and>
        fs' = List.map_filter (start_of populate MakeValue vals') ks"
  proof -
    have "topological (needs m) ([] @ ks)" "distinct ([] @ ks)" using assms(1,3) by simp_all
    moreover have "\<forall>i \<in> set ([] @ ks). \<forall>j \<in> set ([] @ ks). i \<noteq> j \<longrightarrow> slots_at m i \<inter> slots_at m j = {}"
      using one by blast
    moreover have "\<forall>k \<in> set ks. (\<forall>(s, j) \<in> set (populate k). s \<in> slots_at m j \<and> (j, k) \<in> needs m) \<and>
        looks_at (fst ` set (populate k)) (MakeValue k)" using mine assms(2,7) by blast
    ultimately show ?thesis
      using make_values_ok [of "needs m" "[]" ks m populate MakeValue Map.empty undefined "[]", OF _ _ _ _ none] assms(2)
      by (simp split: sum.splits prod.splits)
  qed
  show ?thesis
  proof (cases "make_values MakeValue m ks Map.empty []")
    case (Inl err)
    then show ?thesis using making by (simp add: fill_and_prepare_def put_together_def)
  next
    case (Inr p)
    obtain store fs where p: "p = (store, fs)" by (cases p)
    obtain vals where vals: "filled m store vals K" "made populate MakeValue vals K"
      "fs = List.map_filter (start_of populate MakeValue vals) ks" using making Inr p by auto
    have view: "Prepare c store = Prepare c (slots_view (configPopulate c) vals)" if c: "c \<in> set configs" for c
      by (rule view_filled [OF vals(1) ask [OF c]]) (use c assms(8) in blast)
    have "list_all2 (\<lambda>c g. Prepare c store = Inr g) configs gs \<Longrightarrow>
        list_all2 (\<lambda>c g. Prepare c (slots_view (configPopulate c) vals) = Inr g) configs gs" for gs
      using view by (auto simp: list_all2_conv_all_nth)
    then show ?thesis using prepare_all_ok [where Prepare = Prepare and cs = configs and store = store and fs = fs] vals(2,3) view assms(1,2) Inr p
      by (cases "prepare_all Prepare configs store fs")
        (auto simp: fill_and_prepare_def put_together_def)
  qed
qed

text \<open>The dependencies that are collected, sorted.\<close>

lemma wired:
  fixes populate :: "'k \<Rightarrow> ('k, 's) request list" and configPopulate :: "'c \<Rightarrow> ('k, 's) request list"
    and MakeValue :: "'k \<Rightarrow> ('s \<rightharpoonup> 'v) \<Rightarrow> 'e + 'v \<times> 'f option" and Prepare :: "'c \<Rightarrow> ('s \<rightharpoonup> 'v) \<Rightarrow> 'e + 'f"
  defines "K \<equiv> \<lambda>configs. reached (asks \<circ> populate) (concat (map (asks \<circ> configPopulate) configs))"
    and "S \<equiv> \<lambda>configs. (\<Union>c \<in> set configs. set (asks (configPopulate c)))
      \<union> (\<Union>k \<in> reached (asks \<circ> populate) (concat (map (asks \<circ> configPopulate) configs)). set (asks (populate k)))"
  assumes "ordering_ok ord" and "finite (K configs)" and "inj_on fst (S configs)"
    and "\<forall>k \<in> K configs. looks_at (fst ` set (asks (populate k))) (MakeValue k)"
    and "\<forall>c \<in> set configs. looks_at (fst ` set (asks (configPopulate c))) (Prepare c)"
    and "collects (asks \<circ> populate) (asks (concat (map configPopulate configs))) no_dependencies d"
    and "dom (dpDeps d) \<subseteq> K configs"
  shows "if acyclic (wants (asks \<circ> populate) \<inter> K configs \<times> K configs)
    then \<exists>ks. deps_sort ord (dpDeps d) = Some (Returned ks) \<and>
      put_together (asks \<circ> populate) (asks \<circ> configPopulate) MakeValue Prepare configs (K configs)
        (fill_and_prepare MakeValue Prepare (dpDeps d) configs ks)
    else deps_sort ord (dpDeps d) = Some (Panic ''Circular dependencies'')"
proof -
  let ?p = "asks \<circ> populate" and ?rs = "concat (map (asks \<circ> configPopulate) configs)" and ?K = "K configs"
  have K: "reached ?p ?rs = ?K" by (simp add: K_def)
  note d = collected_graph [OF assms(8) [unfolded asks_concat] assms(9) [unfolded K_def], unfolded K]
  have closed: "snd ` set (?p k) \<subseteq> ?K" if "k \<in> ?K" for k using that reached_closed unfolding K_def by fast
  have "needs (dpDeps d) = (wants ?p \<inter> ?K \<times> ?K)\<inverse>" unfolding d(3) using closed by (auto simp: wants_def)
  then have acyclic: "acyclic (needs (dpDeps d)) = acyclic (wants ?p \<inter> ?K \<times> ?K)" by simp
  have sorted: "if acyclic (wants ?p \<inter> ?K \<times> ?K)
    then \<exists>ks. deps_sort ord (dpDeps d) = Some (Returned ks) \<and> distinct ks \<and> set ks = ?K \<and> topological (needs (dpDeps d)) ks
    else deps_sort ord (dpDeps d) = Some (Panic ''Circular dependencies'')"
    by (rule deps_sort_ok [OF assms(3), of "dpDeps d", unfolded acyclic d(1)]) (use assms(4) d(3) in auto)
  have at: "s \<in> slots_at (dpDeps d) k \<longleftrightarrow> (s, k) \<in> set ?rs \<or> (\<exists>w \<in> ?K. (s, k) \<in> set (?p w))" for s k
    unfolding slots_at_edges d(2) by (auto simp: asked_def)
  have member: "s \<in> slots_at (dpDeps d) k \<longleftrightarrow> (s, k) \<in> S configs" for s k
    unfolding at S_def K_def by auto
  have one: "slots_at (dpDeps d) i \<inter> slots_at (dpDeps d) j = {}" if "i \<noteq> j" for i j
    using that inj_onD [OF assms(5), of "(_, i)" "(_, j)"] member by auto
  have mine: "\<forall>(s, j) \<in> set (?p k). s \<in> slots_at (dpDeps d) j \<and> (j, k) \<in> needs (dpDeps d)" if "k \<in> ?K" for k
    using that unfolding at d(3) wants_def by force
  have ask: "\<forall>(s, j) \<in> set ((asks \<circ> configPopulate) c). s \<in> slots_at (dpDeps d) j \<and> j \<in> ?K" if "c \<in> set configs" for c
    using that unfolding at K_def reached_def by force
  show ?thesis
  proof (cases "acyclic (wants ?p \<inter> ?K \<times> ?K)")
    case True
    then obtain ks where ks: "deps_sort ord (dpDeps d) = Some (Returned ks)" "distinct ks" "set ks = ?K"
      "topological (needs (dpDeps d)) ks" using sorted by auto
    have "put_together ?p (asks \<circ> configPopulate) MakeValue Prepare configs ?K
        (fill_and_prepare MakeValue Prepare (dpDeps d) configs ks)"
      by (rule made_and_prepared [OF ks(2-4) one mine ask]) (use assms(6,7) in simp_all)
    then show ?thesis using True ks(1) by auto
  qed (use sorted in simp)
qed


text \<open>A program of one configuration that needs a store, which needs a client.\<close>

definition demo_populate :: "string \<Rightarrow> (string, nat) request list" where
  "demo_populate k = (if k = ''store'' then [Flag ''host-ttl'' (IntFlag 30), Ask 1 ''client''] else [])"

definition demo_make :: "flags \<Rightarrow> string \<Rightarrow> (nat \<rightharpoonup> string) \<Rightarrow> string + string \<times> string option" where
  "demo_make fs k m = (if k = ''store'' then (case m 1 of None \<Rightarrow> Inl ''no client'' | Some c \<Rightarrow> Inr (''store of '' @ c, Some ''heartbeat''))
     else Inr (k, None))"

definition demo_prepare :: "flags \<Rightarrow> unit \<Rightarrow> (nat \<rightharpoonup> string) \<Rightarrow> string + string" where
  "demo_prepare fs c m = (case m 0 of None \<Rightarrow> Inl ''no store'' | Some s \<Rightarrow> Inr (''agent with '' @ s))"

lemma demo_reached: "reached (asks \<circ> demo_populate) [(0, ''store'')] = {''store'', ''client''}"
proof
  show "reached (asks \<circ> demo_populate) [(0 :: nat, ''store'')] \<subseteq> {''store'', ''client''}"
    by (rule reached_least) (auto simp: demo_populate_def)
  have "(''store'', ''client'') \<in> wants (asks \<circ> demo_populate)" by (simp add: wants_def demo_populate_def)
  then show "{''store'', ''client''} \<subseteq> reached (asks \<circ> demo_populate) [(0, ''store'')]"
    unfolding reached_def by auto
qed

lemma demo_collected:
  "Dependency demo_populate [Ask 0 ''store''] no_dependencies
    = Some (Returned \<lparr>dpFlags = [''host-ttl'' \<mapsto> IntFlag 30],
        dpDeps = [''store'' \<mapsto> [\<lparr>dsSlot = 0, dsOwner = None\<rparr>], ''client'' \<mapsto> [\<lparr>dsSlot = 1, dsOwner = Some ''store''\<rparr>]],
        dpCurrent = None\<rparr>)"
  by (simp add: Dependency_simps Dependency.simps [of _ "_ # _"] no_dependencies_def demo_populate_def
      declare_flag_def add_slot_def fun_upd_twist)


end
