(* ===== verification/Supervisor.thy ===== *)
theory Supervisor
  imports Prelude
begin

text \<open>
  Starting, supervising and stopping components: \<open>common/daemon/component.go\<close>, \<open>tick.go\<close> and
  \<open>daemon.go\<close>. What the environment does (errors, stop requests, the clock, the scheduler) is
  the input of a run; what the supervisor does to the component it runs is a log.
\<close>

section \<open>Restart\<close>

text \<open>
  One round of the loop as the environment lets it happen: when the component is started and
  whether it is nil, what the first \<open>select\<close> receives (an error, or the stop signal) and when,
  when the \<open>Stop\<close> of the component returns, and whether the wait ends with the stop signal.
\<close>

record 'e round =
  rdStart :: int
  rdNil :: bool
  rdError :: "'e option"
  rdSelected :: int
  rdStopped :: int
  rdWaitStop :: bool

datatype 'e sup_event =
    Started int
  | LoggedError 'e
  | PostedToOldSink
  | Stopped

definition stop_timeout :: int where
  "stop_timeout = 10 * 1000000000"

text \<open>Stopping the component: a timeout is posted to the error sink of the round.\<close>

definition stop_component :: "'e round \<Rightarrow> 'e sup_event list" where
  "stop_component r =
     (if rdNil r then []
      else (if rdStopped r - rdSelected r > stop_timeout then [PostedToOldSink] else []) @ [Stopped])"

fun restart_loop :: "int \<Rightarrow> 'e round list \<Rightarrow> 'e sup_event list \<times> bool" where
  "restart_loop interval [] = ([], False)"
| "restart_loop interval (r # rs) =
     (let log = [Started (rdStart r)]
            @ (case rdError r of None \<Rightarrow> [] | Some err \<Rightarrow> [LoggedError err]) @ stop_component r;
          wait = rdStart r + interval - rdStopped r
      in if rdError r = None then (log, True)
         else if wait > 0 \<and> rdWaitStop r then (log, True)
         else case restart_loop interval rs of (log', finished) \<Rightarrow> (log @ log', finished))"

text \<open>A clock that runs forward, and timers that do not fire early.\<close>

fun clock_ok :: "int \<Rightarrow> 'e round list \<Rightarrow> bool" where
  "clock_ok interval [] \<longleftrightarrow> True"
| "clock_ok interval (r # rs) \<longleftrightarrow> rdStart r \<le> rdSelected r \<and> rdSelected r \<le> rdStopped r \<and>
     (case rs of [] \<Rightarrow> True
      | r' # _ \<Rightarrow> rdStopped r \<le> rdStart r' \<and>
          (rdStart r + interval - rdStopped r > 0 \<longrightarrow> rdStopped r + (rdStart r + interval - rdStopped r) \<le> rdStart r')) \<and>
     clock_ok interval rs"

section \<open>Reset\<close>

datatype reset_phase = AwaitFirst | Draining | Running | Done

datatype reset_event = Signalled | ResetStarted | ResetStopped

record reset_state =
  rtPhase :: reset_phase
  rtPending :: nat
  rtStop :: bool
  rtLog :: "reset_event list"

definition reset_init :: reset_state where
  "reset_init = \<lparr>rtPhase = AwaitFirst, rtPending = 0, rtStop = False, rtLog = []\<rparr>"

text \<open>
  The moves of the component; where two cases of a \<open>select\<close> are ready either may be taken.
  The signals that arrive are kept in a channel.
\<close>

inductive reset_move :: "reset_state \<Rightarrow> reset_state \<Rightarrow> bool" where
  first_stop: "rtPhase s = AwaitFirst \<Longrightarrow> rtStop s \<Longrightarrow> reset_move s (s\<lparr>rtPhase := Done\<rparr>)"
| first_reset: "rtPhase s = AwaitFirst \<Longrightarrow> rtPending s = Suc n \<Longrightarrow>
    reset_move s (s\<lparr>rtPhase := Draining, rtPending := n\<rparr>)"
| drain: "rtPhase s = Draining \<Longrightarrow> rtPending s = Suc n \<Longrightarrow> reset_move s (s\<lparr>rtPending := n\<rparr>)"
| start: "rtPhase s = Draining \<Longrightarrow> rtPending s = 0 \<Longrightarrow>
    reset_move s (s\<lparr>rtPhase := Running, rtLog := rtLog s @ [ResetStarted]\<rparr>)"
| run_stop: "rtPhase s = Running \<Longrightarrow> rtStop s \<Longrightarrow>
    reset_move s (s\<lparr>rtPhase := Done, rtLog := rtLog s @ [ResetStopped]\<rparr>)"
| run_reset: "rtPhase s = Running \<Longrightarrow> rtPending s = Suc n \<Longrightarrow>
    reset_move s (s\<lparr>rtPhase := Draining, rtPending := n, rtLog := rtLog s @ [ResetStopped]\<rparr>)"

text \<open>The environment: a signal is sent when the channel has room, the component is told to stop.\<close>

inductive reset_env :: "nat \<Rightarrow> reset_state \<Rightarrow> reset_state \<Rightarrow> bool" for cap where
  signal: "rtPending s < cap \<Longrightarrow>
    reset_env cap s (s\<lparr>rtPending := Suc (rtPending s), rtLog := rtLog s @ [Signalled]\<rparr>)"
| stop: "reset_env cap s (s\<lparr>rtStop := True\<rparr>)"

inductive reset_reach :: "nat \<Rightarrow> reset_state \<Rightarrow> bool" for cap where
  init: "reset_reach cap reset_init"
| env: "reset_reach cap s \<Longrightarrow> reset_env cap s t \<Longrightarrow> reset_reach cap t"
| move: "reset_reach cap s \<Longrightarrow> reset_move s t \<Longrightarrow> reset_reach cap t"

inductive_cases reset_envE: "reset_env cap s t"
inductive_cases reset_moveE: "reset_move s t"

section \<open>Several components at once\<close>

text \<open>
  \<open>Par\<close>: the functions that still run, the tokens they have left in the channel, and the tokens
  received; it returns when it has received as many as there are functions.
\<close>

record par_state =
  paRunning :: "nat set"
  paTokens :: nat
  paReceived :: nat

definition par_init :: "nat \<Rightarrow> par_state" where
  "par_init n = \<lparr>paRunning = {..<n}, paTokens = 0, paReceived = 0\<rparr>"

inductive par_reach :: "nat \<Rightarrow> par_state \<Rightarrow> bool" for n where
  start: "par_reach n (par_init n)"
| finish: "par_reach n s \<Longrightarrow> i \<in> paRunning s \<Longrightarrow>
    par_reach n (s\<lparr>paRunning := paRunning s - {i}, paTokens := Suc (paTokens s)\<rparr>)"
| receive: "par_reach n s \<Longrightarrow> paReceived s < n \<Longrightarrow> paTokens s = Suc t \<Longrightarrow>
    par_reach n (s\<lparr>paTokens := t, paReceived := Suc (paReceived s)\<rparr>)"

definition par_returned :: "nat \<Rightarrow> par_state \<Rightarrow> bool" where
  "par_returned n s \<longleftrightarrow> paReceived s = n"

text \<open>
  \<open>SimpleComponent\<close>: the body runs in a goroutine that closes \<open>finished\<close> when it returns; \<open>Stop\<close>
  closes the stop channel, the first time, and waits. Closing a channel twice would panic.
\<close>

record stopper =
  spOnce :: bool
  spCloses :: nat
  spFinished :: bool
  spWaiting :: nat
  spReturned :: nat

definition SimpleComponent :: stopper where
  "SimpleComponent = \<lparr>spOnce = False, spCloses = 0, spFinished = False, spWaiting = 0, spReturned = 0\<rparr>"

definition stopper_Stop :: "stopper \<Rightarrow> stopper" where
  "stopper_Stop s =
     (if spOnce s then s else s\<lparr>spOnce := True, spCloses := Suc (spCloses s)\<rparr>)\<lparr>spWaiting := Suc (spWaiting s)\<rparr>"

inductive stopper_reach :: "stopper \<Rightarrow> bool" where
  component_starts: "stopper_reach SimpleComponent"
| stop_is_called: "stopper_reach s \<Longrightarrow> stopper_reach (stopper_Stop s)"
| body_returns: "stopper_reach s \<Longrightarrow> stopper_reach (s\<lparr>spFinished := True\<rparr>)"
| stop_returns: "stopper_reach s \<Longrightarrow> spFinished s \<Longrightarrow> spWaiting s = Suc n \<Longrightarrow>
    stopper_reach (s\<lparr>spWaiting := n, spReturned := Suc (spReturned s)\<rparr>)"

text \<open>\<open>StopFunc\<close>: the function is called once, however often \<open>Stop\<close> is.\<close>

definition stop_once :: "('s \<Rightarrow> 's) \<Rightarrow> bool \<times> 's \<Rightarrow> bool \<times> 's" where
  "stop_once f st = (if fst st then st else (True, f (snd st)))"

text \<open>\<open>Aggregate\<close> starts all of them in order and stops all of them.\<close>

datatype agg_event = AggStart nat | AggStop nat

definition aggregate_start :: "nat \<Rightarrow> agg_event list" where
  "aggregate_start n = map AggStart [0..<n]"

section \<open>Ticker\<close>

datatype tick_input = TickerFires | TickStop

text \<open>How often the procedure is called before the ticker is told to stop.\<close>

fun ticker_loop :: "tick_input list \<Rightarrow> nat" where
  "ticker_loop [] = 0"
| "ticker_loop (TickStop # ins) = 0"
| "ticker_loop (TickerFires # ins) = Suc (ticker_loop ins)"

definition Ticker :: "tick_input list \<Rightarrow> nat" where
  "Ticker ins = Suc (ticker_loop ins)"

section \<open>The main loop\<close>

datatype signal = SIGINT | SIGTERM | SIGQUIT

datatype 'e daemon_input = DaemonError 'e | DaemonSignal signal

record daemon_exit =
  deDumps :: nat
  dePrinted :: bool
  deCode :: int
  deKilledBy :: "signal option"

text \<open>
  \<open>run\<close> of \<open>daemon.go\<close>: the loop returns when an error or a signal other than \<open>SIGQUIT\<close> is
  received. The variable of the signal keeps its value over \<open>goto again\<close>.
\<close>

fun daemon_loop :: "('e \<Rightarrow> bool) \<Rightarrow> signal option \<Rightarrow> nat \<Rightarrow> 'e daemon_input list \<Rightarrow> daemon_exit option" where
  "daemon_loop isHelp exitSignal dumps [] = None"
| "daemon_loop isHelp exitSignal dumps (DaemonError err # ins) =
     Some \<lparr>deDumps = dumps, dePrinted = (\<not> isHelp err), deCode = (if isHelp err then 0 else 1), deKilledBy = exitSignal\<rparr>"
| "daemon_loop isHelp exitSignal dumps (DaemonSignal sig # ins) =
     (if sig = SIGQUIT then daemon_loop isHelp (Some sig) (Suc dumps) ins
      else Some \<lparr>deDumps = dumps, dePrinted = False, deCode = 0, deKilledBy = Some sig\<rparr>)"

definition daemon_run :: "('e \<Rightarrow> bool) \<Rightarrow> 'e daemon_input list \<Rightarrow> daemon_exit option" where
  "daemon_run isHelp ins = daemon_loop isHelp None 0 ins"

end
