(* ===== verification/Balagent.thy ===== *)
theory Balagent
  imports Watch
begin

text \<open>
  The balancer agent (\<open>balancer/balagent/balagent.go\<close>): it keeps the services of the store by the
  updates of a watch, and whenever they change it renders them with a template into a file, which
  it replaces, and runs a command. The updater and the generator share a channel of one element.
  The template, the file system calls and the command are the environment: what they return is the
  input of a step. The file system is the map of the files and their contents.
\<close>

section \<open>The updater\<close>

type_synonym services_map = "string \<rightharpoonup> service_info"

definition apply_one :: "string \<Rightarrow> service_info option \<Rightarrow> services_map \<Rightarrow> services_map" where
  "apply_one name svc services =
     (case svc of None \<Rightarrow> services(name := None) | Some info \<Rightarrow> services(name \<mapsto> info))"

definition updater_apply :: "string ordering \<Rightarrow> service_update \<Rightarrow> services_map \<Rightarrow> services_map" where
  "updater_apply ord u services =
     (let services = (if suReset u then Map.empty else services) in
      for_keys (\<lambda>_. suServices u) apply_one (ord [''updates''] (dom (suServices u))) services)"

text \<open>The snapshot replaces the one the generator has not taken yet.\<close>

definition send_snapshot :: "services_map \<Rightarrow> services_map option \<Rightarrow> services_map option" where
  "send_snapshot services pending = Some services"

section \<open>The generator\<close>

datatype 'err gen_error =
    GenError 'err
  | ReloadTimedOut

record 'err gen_env =
  geTempFile :: "string + 'err"
  geClose :: "'err option"
  geRename :: "'err option"
  geRemove :: bool
  geReload :: "'err gen_error option"

definition runReloadCmd :: "string \<Rightarrow> 'err gen_env \<Rightarrow> 'err gen_error option" where
  "runReloadCmd reloadCmd env = (if reloadCmd = [] then None else geReload env)"

text \<open>The deferred function: the temporary file is removed if it is still there.\<close>

definition remove_temp :: "'err gen_env \<Rightarrow> string \<Rightarrow> (string \<rightharpoonup> string) \<Rightarrow> (string \<rightharpoonup> string)" where
  "remove_temp env tmpname fs = (if geRemove env then fs(tmpname := None) else fs)"

definition regenerate ::
  "(services_map \<Rightarrow> string \<times> 'err option) \<Rightarrow> string \<Rightarrow> string \<Rightarrow> 'err gen_env \<Rightarrow> services_map \<Rightarrow> (string \<rightharpoonup> string)
     \<Rightarrow> 'err gen_error option \<times> (string \<rightharpoonup> string)" where
  "regenerate template filename reloadCmd env services fs =
     (case geTempFile env of
        Inr err \<Rightarrow> (Some (GenError err), fs)
      | Inl tmpname \<Rightarrow>
          (case template services of
             (out, Some err) \<Rightarrow> (Some (GenError err), remove_temp env tmpname (fs(tmpname \<mapsto> out)))
           | (out, None) \<Rightarrow>
               (case geClose env of
                  Some err \<Rightarrow> (Some (GenError err), remove_temp env tmpname (fs(tmpname \<mapsto> out)))
                | None \<Rightarrow>
                    (case geRename env of
                       Some err \<Rightarrow> (Some (GenError err), remove_temp env tmpname (fs(tmpname \<mapsto> out)))
                     | None \<Rightarrow>
                         (runReloadCmd reloadCmd env, (fs(tmpname := None))(filename \<mapsto> out))))))"

section \<open>Both together\<close>

record 'err bal_state =
  baServices :: services_map
  baPending :: "services_map option"
  baTaken :: "services_map option"
  baResult :: "'err gen_error option"
  baPosted :: "'err gen_error list"
  baFiles :: "string \<rightharpoonup> string"

definition bal_init :: "(string \<rightharpoonup> string) \<Rightarrow> 'err bal_state" where
  "bal_init fs = \<lparr>baServices = Map.empty, baPending = None, baTaken = None, baResult = None, baPosted = [], baFiles = fs\<rparr>"

definition updater_step :: "string ordering \<Rightarrow> service_update \<Rightarrow> 'err bal_state \<Rightarrow> 'err bal_state" where
  "updater_step ord u st =
     (let services = updater_apply ord u (baServices st) in
      st\<lparr>baServices := services, baPending := send_snapshot services (baPending st)\<rparr>)"

definition generator_step ::
  "(services_map \<Rightarrow> string \<times> 'err option) \<Rightarrow> string \<Rightarrow> string \<Rightarrow> 'err gen_env \<Rightarrow> 'err bal_state \<Rightarrow> 'err bal_state" where
  "generator_step template filename reloadCmd env st =
     (case baPending st of
        None \<Rightarrow> st
      | Some services \<Rightarrow>
          (case regenerate template filename reloadCmd env services (baFiles st) of
             (err, fs) \<Rightarrow>
               st\<lparr>baPending := None, baTaken := Some services, baResult := err,
                  baPosted := baPosted st @ (case err of None \<Rightarrow> [] | Some e \<Rightarrow> [e]), baFiles := fs\<rparr>))"

datatype 'err bal_input =
    UpdaterInput "string ordering" service_update
  | GeneratorInput "'err gen_env"

fun bal_run ::
  "(services_map \<Rightarrow> string \<times> 'err option) \<Rightarrow> string \<Rightarrow> string \<Rightarrow> 'err bal_input list \<Rightarrow> 'err bal_state \<Rightarrow> 'err bal_state" where
  "bal_run template filename reloadCmd [] st = st"
| "bal_run template filename reloadCmd (UpdaterInput ord u # ins) st =
     bal_run template filename reloadCmd ins (updater_step ord u st)"
| "bal_run template filename reloadCmd (GeneratorInput env # ins) st =
     bal_run template filename reloadCmd ins (generator_step template filename reloadCmd env st)"

end
