(* ===== verification/BalagentProps.thy ===== *)
theory BalagentProps
  imports Balagent
begin

text \<open>
  The balancer agent follows the store: what it knows are the updates of the watch added up, the
  file it writes is always a complete rendering, and once it has nothing left to do and the last
  generation went well the file shows exactly what it knows.
\<close>

section \<open>Updates\<close>

lemma apply_one_upd: "apply_one name svc m = m(name := svc)"
  by (cases svc) (simp_all add: apply_one_def)

lemma for_keys_apply:
  "for_keys (\<lambda>_. U) apply_one ks m n = (if n \<in> set ks then (case U n of None \<Rightarrow> m n | Some x \<Rightarrow> x) else m n)"
  by (induction ks arbitrary: m) (auto simp: apply_one_upd split: option.split)

lemma updater_apply_eq:
  assumes "ordering_ok ord" and "finite (dom (suServices u))"
  shows "updater_apply ord u m = apply_services m u"
proof (rule ext)
  fix n
  show "updater_apply ord u m n = apply_services m u n"
    using assms by (cases "suServices u n")
      (auto simp: updater_apply_def Let_def for_keys_apply apply_services_def domIff)
qed

fun updates_in :: "'err bal_input list \<Rightarrow> service_update list" where
  "updates_in [] = []"
| "updates_in (UpdaterInput ord u # ins) = u # updates_in ins"
| "updates_in (GeneratorInput env # ins) = updates_in ins"

definition known :: "service_update list \<Rightarrow> services_map" where
  "known us = foldl apply_services Map.empty us"

text \<open>The temporary file is a new one, as \<open>ioutil.TempFile\<close> promises.\<close>

definition bal_input_ok :: "string \<Rightarrow> (string \<rightharpoonup> string) \<Rightarrow> 'err bal_input \<Rightarrow> bool" where
  "bal_input_ok filename fs0 inp =
     (case inp of
        UpdaterInput ord u \<Rightarrow> ordering_ok ord \<and> finite (dom (suServices u))
      | GeneratorInput env \<Rightarrow> (\<forall>tmp. geTempFile env = Inl tmp \<longrightarrow> tmp \<noteq> filename \<and> fs0 tmp = None))"

section \<open>Generation\<close>

definition rendered :: "(services_map \<Rightarrow> string \<times> 'err option) \<Rightarrow> services_map \<Rightarrow> string option \<Rightarrow> bool" where
  "rendered template m content \<longleftrightarrow> snd (template m) = None \<and> content = Some (fst (template m))"

lemma regenerate_ok:
  assumes "regenerate template filename cmd env m fs = (err, fs')"
    and "\<forall>tmp. geTempFile env = Inl tmp \<longrightarrow> tmp \<noteq> filename"
  shows "fs' filename = fs filename \<and> err \<noteq> None \<or> rendered template m (fs' filename)"
    and "f \<noteq> filename \<Longrightarrow> geTempFile env \<noteq> Inl f \<Longrightarrow> fs' f = fs f"
    and "geTempFile env = Inl tmp \<Longrightarrow> geRemove env \<Longrightarrow> fs' tmp = None"
  using assms
  by (auto simp: regenerate_def remove_temp_def rendered_def split: sum.splits prod.splits option.splits if_splits)

definition bal_inv ::
  "(services_map \<Rightarrow> string \<times> 'err option) \<Rightarrow> string \<Rightarrow> (string \<rightharpoonup> string) \<Rightarrow> service_update list \<Rightarrow> 'err bal_state \<Rightarrow> bool" where
  "bal_inv template filename fs0 us st \<longleftrightarrow>
     baServices st = known us \<and>
     (case baPending st of Some m \<Rightarrow> m = known us | None \<Rightarrow> us = [] \<or> baTaken st = Some (known us)) \<and>
     (\<forall>m. baTaken st = Some m \<longrightarrow> baResult st = None \<longrightarrow> rendered template m (baFiles st filename)) \<and>
     (baFiles st filename = fs0 filename \<or> (\<exists>k. rendered template (known (take k us)) (baFiles st filename))) \<and>
     (\<forall>f. f \<noteq> filename \<longrightarrow> fs0 f \<noteq> None \<longrightarrow> baFiles st f = fs0 f)"

lemma known_snoc: "known (us @ [u]) = apply_services (known us) u"
  by (simp add: known_def)

lemma updater_step_inv:
  fixes st :: "'err bal_state"
  assumes "bal_inv template filename fs0 us st" and "bal_input_ok filename fs0 (UpdaterInput ord u :: 'err bal_input)"
  shows "bal_inv template filename fs0 (us @ [u]) (updater_step ord u st)"
proof -
  have "updater_apply ord u (known us) = known (us @ [u])"
    using assms(2) by (simp add: bal_input_ok_def updater_apply_eq known_snoc)
  moreover have "\<exists>k'. known (take k' (us @ [u])) = known (take k us)" for k
    by (rule exI [of _ "min k (length us)"]) (simp add: min_def)
  ultimately show ?thesis using assms(1)
    unfolding bal_inv_def updater_step_def send_snapshot_def Let_def by (auto, metis)
qed

lemma generator_step_inv:
  assumes "bal_inv template filename fs0 us st" and "bal_input_ok filename fs0 (GeneratorInput env)"
  shows "bal_inv template filename fs0 us (generator_step template filename cmd env st)"
proof (cases "baPending st")
  case None
  then show ?thesis using assms(1) by (simp add: generator_step_def)
next
  case (Some m)
  obtain err fs' where r: "regenerate template filename cmd env m (baFiles st) = (err, fs')" by fastforce
  have tmp: "\<forall>tmp. geTempFile env = Inl tmp \<longrightarrow> tmp \<noteq> filename" "\<And>tmp. geTempFile env = Inl tmp \<Longrightarrow> fs0 tmp = None"
    using assms(2) by (auto simp: bal_input_ok_def)
  note ok = regenerate_ok [OF r tmp(1)]
  have m: "m = known us" using assms(1) Some by (simp add: bal_inv_def)
  have "known (take (length us) us) = m" by (simp add: m)
  then have "fs' filename = fs0 filename \<or> (\<exists>k. rendered template (known (take k us)) (fs' filename))"
    using ok(1) assms(1) unfolding bal_inv_def by metis
  moreover have "fs' f = fs0 f" if "f \<noteq> filename" "fs0 f \<noteq> None" for f
    using ok(2) [OF that(1)] tmp(2) that assms(1) unfolding bal_inv_def by metis
  moreover have "generator_step template filename cmd env st =
      st\<lparr>baPending := None, baTaken := Some m, baResult := err,
         baPosted := baPosted st @ (case err of None \<Rightarrow> [] | Some e \<Rightarrow> [e]), baFiles := fs'\<rparr>"
    using Some r by (simp add: generator_step_def)
  ultimately show ?thesis using assms(1) ok(1) m unfolding bal_inv_def by auto
qed

lemma bal_run_inv:
  assumes "bal_inv template filename fs0 us st" and "\<forall>inp \<in> set ins. bal_input_ok filename fs0 inp"
  shows "bal_inv template filename fs0 (us @ updates_in ins) (bal_run template filename cmd ins st)"
  using assms
proof (induction ins arbitrary: us st)
  case (Cons inp ins)
  show ?case
  proof (cases inp)
    case (UpdaterInput ord u)
    have "bal_inv template filename fs0 (us @ [u]) (updater_step ord u st)"
      by (rule updater_step_inv [OF Cons.prems(1)]) (use Cons.prems(2) UpdaterInput in simp)
    from Cons.IH [OF this] show ?thesis using UpdaterInput Cons.prems(2) by simp
  next
    case (GeneratorInput env)
    have "bal_inv template filename fs0 us (generator_step template filename cmd env st)"
      by (rule generator_step_inv [OF Cons.prems(1)]) (use Cons.prems(2) GeneratorInput in simp)
    from Cons.IH [OF this] show ?thesis using GeneratorInput Cons.prems(2) by simp
  qed
qed simp

lemma clean_files:
  assumes "\<forall>env. GeneratorInput env \<in> set ins \<longrightarrow> geRemove env" and "\<forall>inp \<in> set ins. bal_input_ok filename fs0 inp"
    and "\<forall>f. f \<noteq> filename \<longrightarrow> baFiles st f = fs0 f" and "f \<noteq> filename"
  shows "baFiles (bal_run template filename cmd ins st) f = fs0 f"
  using assms
proof (induction ins arbitrary: st)
  case (Cons inp ins)
  show ?case
  proof (cases inp)
    case (UpdaterInput ord u)
    then show ?thesis using Cons by (simp add: updater_step_def Let_def)
  next
    case (GeneratorInput env)
    have "baFiles (generator_step template filename cmd env st) g = fs0 g" if g: "g \<noteq> filename" for g
    proof (cases "baPending st")
      case None
      then show ?thesis using Cons.prems(3) g by (simp add: generator_step_def)
    next
      case (Some m)
      obtain err fs' where r: "regenerate template filename cmd env m (baFiles st) = (err, fs')" by fastforce
      have ok: "\<forall>tmp. geTempFile env = Inl tmp \<longrightarrow> tmp \<noteq> filename \<and> fs0 tmp = None" "geRemove env"
      proof -
        have "GeneratorInput env \<in> set (inp # ins)" using GeneratorInput by simp
        then show "geRemove env" using Cons.prems(1) by blast
        have "bal_input_ok filename fs0 inp" using Cons.prems(2) by simp
        then show "\<forall>tmp. geTempFile env = Inl tmp \<longrightarrow> tmp \<noteq> filename \<and> fs0 tmp = None"
          unfolding GeneratorInput bal_input_ok_def by simp
      qed
      have "fs' g = fs0 g"
      proof (cases "geTempFile env = Inl g")
        case True
        then show ?thesis using regenerate_ok(3) [OF r _ True ok(2)] ok(1) by simp
      next
        case False
        then show ?thesis using regenerate_ok(2) [OF r _ g False] ok(1) Cons.prems(3) g by simp
      qed
      then show ?thesis using Some r by (simp add: generator_step_def)
    qed
    then show ?thesis using Cons.IH [of "generator_step template filename cmd env st"] Cons.prems GeneratorInput by simp
  qed
qed simp

text \<open>
  C24: However updates and generations interleave, the agent knows exactly the updates added up;
  the file it writes holds what it held at first or a complete rendering of what the agent knew at
  some time, never a part of one, and other files are left alone; and when no snapshot is waiting
  and the last generation returned no error, the file is the rendering of what the agent knows.
\<close>

theorem balagent_file_follows:
  fixes template :: "services_map \<Rightarrow> string \<times> 'err option" and cmd :: string
  assumes "\<forall>inp \<in> set ins. bal_input_ok filename fs0 inp"
  defines "st \<equiv> bal_run template filename cmd ins (bal_init fs0)"
  shows "baServices st = foldl apply_services Map.empty (updates_in ins) \<and>
    (baFiles st filename = fs0 filename \<or> (\<exists>k. snd (template (foldl apply_services Map.empty (take k (updates_in ins)))) = None \<and>
       baFiles st filename = Some (fst (template (foldl apply_services Map.empty (take k (updates_in ins))))))) \<and>
    (\<forall>f. f \<noteq> filename \<and> (fs0 f \<noteq> None \<or> (\<forall>env. GeneratorInput env \<in> set ins \<longrightarrow> geRemove env)) \<longrightarrow> baFiles st f = fs0 f) \<and>
    (updates_in ins \<noteq> [] \<and> baPending st = None \<and> baResult st = None \<longrightarrow>
       baFiles st filename = Some (fst (template (baServices st))))"
proof -
  have "bal_inv template filename fs0 [] (bal_init fs0)" by (simp add: bal_inv_def bal_init_def known_def)
  from bal_run_inv [OF this assms(1), of cmd] have inv: "bal_inv template filename fs0 (updates_in ins) st"
    by (simp add: st_def)
  have "baFiles st f = fs0 f" if "f \<noteq> filename" "\<forall>env. GeneratorInput env \<in> set ins \<longrightarrow> geRemove env" for f
    unfolding st_def by (rule clean_files [OF that(2) assms(1) _ that(1)]) (simp add: bal_init_def)
  moreover have "baFiles st filename = Some (fst (template (baServices st)))"
    if "updates_in ins \<noteq> []" "baPending st = None" "baResult st = None"
    using inv that by (simp add: bal_inv_def rendered_def)
  ultimately show ?thesis using inv unfolding bal_inv_def rendered_def known_def by blast
qed

theorem balagent_file_follows_witness:
  "baFiles (bal_run (\<lambda>m. (if m ''web'' = None then ''none'' else ''web'', None :: string option)) ''/tmp/services'' []
     [UpdaterInput sorted_ordering \<lparr>suServices = [''web'' \<mapsto> Some \<lparr>Address = None, InstancePort = 80, Protocol = [],
        Instances = Map.empty, ContainerRules = Map.empty, IngressInstances = Map.empty\<rparr>], suReset = True\<rparr>,
      GeneratorInput \<lparr>geTempFile = Inl ''/tmp/services1'', geClose = None, geRename = None, geRemove = True, geReload = None\<rparr>]
     (bal_init Map.empty)) ''/tmp/services'' = Some ''web''"
proof -
  let ?info = "\<lparr>Address = None, InstancePort = 80, Protocol = [], Instances = Map.empty, ContainerRules = Map.empty,
     IngressInstances = Map.empty\<rparr> :: service_info"
  let ?u = "\<lparr>suServices = [''web'' \<mapsto> Some ?info], suReset = True\<rparr>"
  let ?env = "\<lparr>geTempFile = Inl ''/tmp/services1'', geClose = None, geRename = None, geRemove = True, geReload = None\<rparr> :: string gen_env"
  let ?ins = "[UpdaterInput sorted_ordering ?u, GeneratorInput ?env]"
  let ?t = "\<lambda>m :: services_map. (if m ''web'' = None then ''none'' else ''web'', None :: string option)"
  have ok: "\<forall>inp \<in> set ?ins. bal_input_ok ''/tmp/services'' Map.empty inp" by (simp add: bal_input_ok_def)
  have done': "baPending (bal_run ?t ''/tmp/services'' [] ?ins (bal_init Map.empty)) = None"
    "baResult (bal_run ?t ''/tmp/services'' [] ?ins (bal_init Map.empty)) = None"
    by (simp_all add: updater_step_def send_snapshot_def Let_def generator_step_def regenerate_def runReloadCmd_def bal_init_def
        split: prod.split)
  from balagent_file_follows [OF ok, of ?t "[]"] done' show ?thesis by (simp add: apply_services_def)
qed

end
