(* ===== verification/HttpShim.thy ===== *)
theory HttpShim
  imports Prelude
begin

text \<open>
  The HTTP shim (\<open>balancer/forwarder/http.go\<close>). Two goroutines share a connection: one reads the
  requests of the client and writes them to the server, the other reads the responses and writes
  them to the client. A request is handed from the first to the second over a channel without a
  buffer, before it is written to the server. The parsing of HTTP is a library: the requests the
  client sends, and how the stream ends, are given; what the server answers, which calls fail, how
  the goroutines interleave and how time passes is open.
\<close>

section \<open>State\<close>

datatype ('q, 'err) reader =
    ReadingRequest
  | Passing 'q int
  | WritingRequest 'q
  | PassingError 'err
  | RequestsClosed
  | ReaderExited

datatype ('q, 'a, 'err) responder =
    WaitingForRequest
  | ReadingResponse 'q int
  | WritingResponse 'q int 'a int
  | ShimReturned "'err option"

record ('q, 'a) exchange =
  exRequest :: 'q
  exResponse :: 'a
  exRoundTrip :: int
  exTotalTime :: int

record ('q, 'a, 'err) http_shim =
  hsInbound :: "'q list"
  hsInboundEnd :: "'err option"
  hsReader :: "('q, 'err) reader"
  hsResponder :: "('q, 'a, 'err) responder"
  hsSent :: "'q list"
  hsReplied :: "'a list"
  hsExchanges :: "('q, 'a) exchange list"
  hsNow :: int

definition http_init :: "'q list \<Rightarrow> 'err option \<Rightarrow> int \<Rightarrow> ('q, 'a, 'err) http_shim" where
  "http_init requests ending now =
     \<lparr>hsInbound = requests, hsInboundEnd = ending, hsReader = ReadingRequest, hsResponder = WaitingForRequest,
      hsSent = [], hsReplied = [], hsExchanges = [], hsNow = now\<rparr>"

text \<open>The response loop returns; the deferred calls close both connections and the done channel.\<close>

definition shim_done :: "('q, 'a, 'err) http_shim \<Rightarrow> bool" where
  "shim_done s \<longleftrightarrow> (\<exists>r. hsResponder s = ShimReturned r)"

section \<open>Steps\<close>

inductive request_step :: "('q, 'a, 'err) http_shim \<Rightarrow> ('q, 'a, 'err) http_shim \<Rightarrow> bool" where
  read_request: "hsReader s = ReadingRequest \<Longrightarrow> hsInbound s = q # qs \<Longrightarrow>
    request_step s (s\<lparr>hsInbound := qs, hsReader := Passing q (hsNow s)\<rparr>)"
| read_eof: "hsReader s = ReadingRequest \<Longrightarrow> hsInbound s = [] \<Longrightarrow> hsInboundEnd s = None \<Longrightarrow>
    request_step s (s\<lparr>hsReader := RequestsClosed\<rparr>)"
| read_fails: "hsReader s = ReadingRequest \<Longrightarrow> hsInbound s = [] \<Longrightarrow> hsInboundEnd s = Some err \<Longrightarrow>
    request_step s (s\<lparr>hsReader := PassingError err\<rparr>)"
| give_up: "hsReader s = Passing q t \<Longrightarrow> shim_done s \<Longrightarrow> request_step s (s\<lparr>hsReader := ReaderExited\<rparr>)"
| give_up_error: "hsReader s = PassingError err \<Longrightarrow> shim_done s \<Longrightarrow> request_step s (s\<lparr>hsReader := ReaderExited\<rparr>)"
| write_request: "hsReader s = WritingRequest q \<Longrightarrow>
    request_step s (s\<lparr>hsReader := ReadingRequest, hsSent := hsSent s @ [q]\<rparr>)"
| write_fails: "hsReader s = WritingRequest q \<Longrightarrow> request_step s (s\<lparr>hsReader := PassingError err\<rparr>)"

inductive response_step :: "('q, 'a, 'err) http_shim \<Rightarrow> ('q, 'a, 'err) http_shim \<Rightarrow> bool" where
  no_more: "hsResponder s = WaitingForRequest \<Longrightarrow> hsReader s = RequestsClosed \<Longrightarrow>
    response_step s (s\<lparr>hsResponder := ShimReturned None\<rparr>)"
| take_request: "hsResponder s = WaitingForRequest \<Longrightarrow> hsReader s = Passing q t \<Longrightarrow>
    response_step s (s\<lparr>hsReader := WritingRequest q, hsResponder := ReadingResponse q t\<rparr>)"
| take_error: "hsResponder s = WaitingForRequest \<Longrightarrow> hsReader s = PassingError err \<Longrightarrow>
    response_step s (s\<lparr>hsReader := ReaderExited, hsResponder := ShimReturned (Some err)\<rparr>)"
| read_response: "hsResponder s = ReadingResponse q t \<Longrightarrow>
    response_step s (s\<lparr>hsResponder := WritingResponse q t a (hsNow s)\<rparr>)"
| response_fails: "hsResponder s = ReadingResponse q t \<Longrightarrow>
    response_step s (s\<lparr>hsResponder := ShimReturned (Some err)\<rparr>)"
| write_response: "hsResponder s = WritingResponse q t a t' \<Longrightarrow>
    response_step s (s\<lparr>hsResponder := WaitingForRequest, hsReplied := hsReplied s @ [a],
      hsExchanges := hsExchanges s @ [\<lparr>exRequest = q, exResponse = a, exRoundTrip = t' - t, exTotalTime = hsNow s - t\<rparr>]\<rparr>)"
| reply_fails: "hsResponder s = WritingResponse q t a t' \<Longrightarrow>
    response_step s (s\<lparr>hsResponder := ShimReturned (Some err)\<rparr>)"

inductive http_reach :: "'q list \<Rightarrow> 'err option \<Rightarrow> ('q, 'a, 'err) http_shim \<Rightarrow> bool" for requests ending where
  http_start: "http_reach requests ending (http_init requests ending now)"
| http_time: "http_reach requests ending s \<Longrightarrow> hsNow s \<le> now \<Longrightarrow> http_reach requests ending (s\<lparr>hsNow := now\<rparr>)"
| http_request: "http_reach requests ending s \<Longrightarrow> request_step s t \<Longrightarrow> http_reach requests ending t"
| http_response: "http_reach requests ending s \<Longrightarrow> response_step s t \<Longrightarrow> http_reach requests ending t"

inductive_cases request_stepE: "request_step s t"
inductive_cases response_stepE: "response_step s t"

section \<open>Requests are answered in order\<close>

text \<open>The requests that are in the hands of the two goroutines.\<close>

fun answering :: "('q, 'a, 'err) responder \<Rightarrow> 'q list" where
  "answering (ReadingResponse q t) = [q]"
| "answering (WritingResponse q t a t') = [q]"
| "answering _ = []"

fun passing :: "('q, 'err) reader \<Rightarrow> 'q list" where
  "passing (Passing q t) = [q]"
| "passing _ = []"

fun writing :: "('q, 'err) reader \<Rightarrow> 'q list" where
  "writing (WritingRequest q) = [q]"
| "writing _ = []"

definition times_ok :: "('q, 'a, 'err) http_shim \<Rightarrow> bool" where
  "times_ok s \<longleftrightarrow> (\<forall>ex \<in> set (hsExchanges s). 0 \<le> exRoundTrip ex \<and> exRoundTrip ex \<le> exTotalTime ex) \<and>
     (case hsReader s of Passing q t \<Rightarrow> t \<le> hsNow s | _ \<Rightarrow> True) \<and>
     (case hsResponder s of ReadingResponse q t \<Rightarrow> t \<le> hsNow s
        | WritingResponse q t a t' \<Rightarrow> t \<le> t' \<and> t' \<le> hsNow s | _ \<Rightarrow> True)"

definition order_ok :: "'q list \<Rightarrow> 'err option \<Rightarrow> ('q, 'a, 'err) http_shim \<Rightarrow> bool" where
  "order_ok requests ending s \<longleftrightarrow>
     hsReplied s = map exResponse (hsExchanges s) \<and> hsInboundEnd s = ending \<and>
     (\<exists>rest. requests = map exRequest (hsExchanges s) @ answering (hsResponder s) @ rest) \<and>
     (\<not> shim_done s \<longrightarrow> hsReader s \<noteq> ReaderExited \<and>
        requests = map exRequest (hsExchanges s) @ answering (hsResponder s) @ passing (hsReader s) @ hsInbound s) \<and>
     (\<not> shim_done s \<and> (\<forall>err. hsReader s \<noteq> PassingError err) \<longrightarrow>
        map exRequest (hsExchanges s) @ answering (hsResponder s) = hsSent s @ writing (hsReader s)) \<and>
     (\<exists>rest. requests = hsSent s @ writing (hsReader s) @ rest) \<and>
     (hsReader s = RequestsClosed \<longrightarrow> hsInbound s = [] \<and> ending = None) \<and>
     (hsResponder s = ShimReturned None \<longrightarrow> map exRequest (hsExchanges s) = requests \<and> ending = None)"

lemma shim_done_upd [simp]:
  "shim_done (s\<lparr>hsReader := r\<rparr>) = shim_done s" "shim_done (s\<lparr>hsInbound := i\<rparr>) = shim_done s"
  "shim_done (s\<lparr>hsSent := l\<rparr>) = shim_done s" "shim_done (s\<lparr>hsNow := n\<rparr>) = shim_done s"
  by (simp_all add: shim_done_def)

lemma request_step_order: "request_step s t \<Longrightarrow> order_ok requests ending s \<Longrightarrow> order_ok requests ending t"
  by (elim request_stepE) (auto simp: order_ok_def)

lemma response_step_order: "response_step s t \<Longrightarrow> order_ok requests ending s \<Longrightarrow> order_ok requests ending t"
  by (elim response_stepE) (auto simp: order_ok_def shim_done_def)

lemma step_times: "request_step s t \<Longrightarrow> times_ok s \<Longrightarrow> times_ok t" "response_step s t \<Longrightarrow> times_ok s \<Longrightarrow> times_ok t"
  by (elim request_stepE; auto simp: times_ok_def split: reader.splits responder.splits)
    (elim response_stepE; auto simp: times_ok_def split: reader.splits responder.splits)

lemma http_reach_ok: "http_reach requests ending s \<Longrightarrow> order_ok requests ending s \<and> times_ok s"
proof (induction rule: http_reach.induct)
  case (http_start now)
  show ?case by (simp add: order_ok_def times_ok_def http_init_def shim_done_def)
next
  case (http_time s now)
  then show ?case by (auto simp: order_ok_def times_ok_def split: reader.splits responder.splits)
qed (simp_all add: request_step_order response_step_order step_times)

text \<open>
  C25: The exchanges the shim reports are the requests of the client in their order, each once,
  with the response that was sent back and times that are not negative and fit each other; the
  server is sent the requests in order; the shim returns without an error only when the client has
  closed its side and every request has been answered; and once it has returned, the goroutine
  that reads requests is not held up by the channel.
\<close>

theorem http_shim_exchanges:
  assumes "http_reach requests ending s"
  shows "(\<exists>rest. requests = map exRequest (hsExchanges s) @ rest) \<and> hsReplied s = map exResponse (hsExchanges s) \<and>
    (\<forall>ex \<in> set (hsExchanges s). 0 \<le> exRoundTrip ex \<and> exRoundTrip ex \<le> exTotalTime ex) \<and>
    (\<exists>rest. requests = hsSent s @ rest) \<and>
    (hsResponder s = ShimReturned None \<longrightarrow> ending = None \<and> map exRequest (hsExchanges s) = requests) \<and>
    (\<forall>r. hsResponder s = ShimReturned r \<longrightarrow> ((\<exists>q t. hsReader s = Passing q t) \<or> (\<exists>err. hsReader s = PassingError err)) \<longrightarrow>
       (\<exists>t. request_step s t \<and> hsReader t = ReaderExited))"
proof -
  note inv = http_reach_ok [OF assms, unfolded order_ok_def times_ok_def]
  have "\<exists>t. request_step s t \<and> hsReader t = ReaderExited"
    if "hsResponder s = ShimReturned r" "(\<exists>q t. hsReader s = Passing q t) \<or> (\<exists>err. hsReader s = PassingError err)" for r
    using that request_step.give_up request_step.give_up_error by (fastforce simp: shim_done_def)
  then show ?thesis using inv by blast
qed

text \<open>One request of a client that closes its side.\<close>

lemma demo_exchange:
  "http_reach [''GET /''] (None :: string option) \<lparr>hsInbound = [], hsInboundEnd = None, hsReader = WritingRequest ''GET /'',
     hsResponder = WaitingForRequest, hsSent = [], hsReplied = [''200''],
     hsExchanges = [\<lparr>exRequest = ''GET /'', exResponse = ''200'', exRoundTrip = 0, exTotalTime = 0\<rparr>], hsNow = 0\<rparr>"
proof -
  have "http_reach [''GET /''] (None :: string option) \<lparr>hsInbound = [], hsInboundEnd = None, hsReader = Passing ''GET /'' 0,
     hsResponder = WaitingForRequest, hsSent = [], hsReplied = [], hsExchanges = ([] :: (string, string) exchange list), hsNow = 0\<rparr>"
    using http_reach.http_request [OF http_reach.http_start request_step.read_request, of "[''GET /'']" None 0 "''GET /''" "[]"]
    by (simp add: http_init_def)
  then have "http_reach [''GET /''] (None :: string option) \<lparr>hsInbound = [], hsInboundEnd = None, hsReader = WritingRequest ''GET /'',
     hsResponder = ReadingResponse ''GET /'' 0, hsSent = [], hsReplied = [],
     hsExchanges = ([] :: (string, string) exchange list), hsNow = 0\<rparr>" (is "http_reach _ _ ?reading")
    using http_reach.http_response [OF _ response_step.take_request] by fastforce
  then have "http_reach [''GET /''] (None :: string option) \<lparr>hsInbound = [], hsInboundEnd = None, hsReader = WritingRequest ''GET /'',
     hsResponder = WritingResponse ''GET /'' 0 ''200'' 0, hsSent = [], hsReplied = [],
     hsExchanges = ([] :: (string, string) exchange list), hsNow = 0\<rparr>" (is "http_reach _ _ ?writing")
    using http_reach.http_response [OF _ response_step.read_response, of _ _ ?reading "''GET /''" 0 "''200''"] by simp
  then show ?thesis
    using http_reach.http_response [OF _ response_step.write_response, of _ _ ?writing "''GET /''" 0 "''200''" 0] by simp
qed

theorem http_shim_exchanges_witness:
  "\<exists>rest. [''GET /''] = map exRequest [\<lparr>exRequest = ''GET /'', exResponse = ''200'', exRoundTrip = 0, exTotalTime = 0\<rparr>] @ rest"
  using http_shim_exchanges [OF demo_exchange] by simp

end
