(* ===== verification/TcpShim.thy ===== *)
theory TcpShim
  imports Prelude
begin

text \<open>
  The TCP shim and the accept loop of the forwarder (\<open>balancer/forwarder/forwarder.go\<close>). Each
  direction of a connection is copied by a goroutine of its own; they meet over a channel of one
  element when both are done. What the two sides send, how their streams end, when writes fail and
  how the goroutines interleave is open. \<open>io.Copy\<close> reads chunks and writes them in order until the
  stream ends (\<open>None\<close>) or an error occurs.
\<close>

section \<open>The accept loop\<close>

datatype ('c, 'err) accept =
    Accepted 'c
  | AcceptFailed 'err

text \<open>
  \<open>stopped\<close> is what the flag is when the call to the listener fails. The result: the connections
  that are forwarded, whether the loop has returned, and the error that is posted.
\<close>

fun forwarder_run :: "bool \<Rightarrow> ('c, 'err) accept list \<Rightarrow> 'c list \<times> bool \<times> 'err option" where
  "forwarder_run stopped [] = ([], False, None)"
| "forwarder_run stopped (AcceptFailed err # rest) = ([], True, if stopped then None else Some err)"
| "forwarder_run stopped (Accepted conn # rest) =
     (case forwarder_run stopped rest of (conns, returned, err) \<Rightarrow> (conn # conns, returned, err))"

section \<open>State\<close>

datatype 'err copy_phase =
    Copying
  | Copied "'err option"
  | ReadClosed "'err option"
  | Finished "'err option"

record ('b, 'err) direction =
  drPending :: "'b list"
  drEnd :: "'err option"
  drDelivered :: "'b list"
  drPhase :: "'err copy_phase"

record ('b, 'err) tcp_shim =
  tsForward :: "('b, 'err) direction"
  tsBackward :: "('b, 'err) direction"
  tsReturned :: "'err option option"
  tsClosed :: bool

definition copy_start :: "'b list \<Rightarrow> 'err option \<Rightarrow> ('b, 'err) direction" where
  "copy_start chunks ending = \<lparr>drPending = chunks, drEnd = ending, drDelivered = [], drPhase = Copying\<rparr>"

definition tcp_init :: "'b list \<Rightarrow> 'err option \<Rightarrow> 'b list \<Rightarrow> 'err option \<Rightarrow> ('b, 'err) tcp_shim" where
  "tcp_init client clientEnd server serverEnd =
     \<lparr>tsForward = copy_start client clientEnd, tsBackward = copy_start server serverEnd,
      tsReturned = None, tsClosed = False\<rparr>"

section \<open>Steps\<close>

text \<open>One direction: the copy, then the reading end and the writing end are shut.\<close>

inductive copy_step :: "('b, 'err) direction \<Rightarrow> ('b, 'err) direction \<Rightarrow> bool" where
  copy_chunk: "drPhase d = Copying \<Longrightarrow> drPending d = x # xs \<Longrightarrow>
    copy_step d (d\<lparr>drPending := xs, drDelivered := drDelivered d @ [x]\<rparr>)"
| copy_ends: "drPhase d = Copying \<Longrightarrow> drPending d = [] \<Longrightarrow> copy_step d (d\<lparr>drPhase := Copied (drEnd d)\<rparr>)"
| copy_fails: "drPhase d = Copying \<Longrightarrow> drPending d = x # xs \<Longrightarrow>
    copy_step d (d\<lparr>drPending := xs, drPhase := Copied (Some err)\<rparr>)"
| close_read: "drPhase d = Copied r \<Longrightarrow> copy_step d (d\<lparr>drPhase := ReadClosed r\<rparr>)"
| close_write: "drPhase d = ReadClosed r \<Longrightarrow> copy_step d (d\<lparr>drPhase := Finished r\<rparr>)"

text \<open>The result of the shim: the error of the forward copy, or else that of the other.\<close>

definition shim_result :: "'err option \<Rightarrow> 'err option \<Rightarrow> 'err option" where
  "shim_result err1 err2 = (if err1 \<noteq> None then err1 else err2)"

inductive tcp_step :: "('b, 'err) tcp_shim \<Rightarrow> ('b, 'err) tcp_shim \<Rightarrow> bool" where
  forward_step: "copy_step (tsForward s) d \<Longrightarrow> tcp_step s (s\<lparr>tsForward := d\<rparr>)"
| backward_step: "copy_step (tsBackward s) d \<Longrightarrow> tcp_step s (s\<lparr>tsBackward := d\<rparr>)"
| both_done: "drPhase (tsForward s) = Finished err1 \<Longrightarrow> drPhase (tsBackward s) = Finished err2 \<Longrightarrow> tsReturned s = None \<Longrightarrow>
    tcp_step s (s\<lparr>tsReturned := Some (shim_result err1 err2), tsClosed := True\<rparr>)"

inductive_cases copy_stepE: "copy_step d e"
inductive_cases tcp_stepE: "tcp_step s t"

inductive tcp_reach :: "('b, 'err) tcp_shim \<Rightarrow> ('b, 'err) tcp_shim \<Rightarrow> bool" for init where
  tcp_start: "tcp_reach init init"
| tcp_next: "tcp_reach init s \<Longrightarrow> tcp_step s t \<Longrightarrow> tcp_reach init t"

section \<open>What has been delivered\<close>

fun phase_result :: "'err copy_phase \<Rightarrow> 'err option option" where
  "phase_result Copying = None"
| "phase_result (Copied r) = Some r"
| "phase_result (ReadClosed r) = Some r"
| "phase_result (Finished r) = Some r"

definition copy_inv :: "'b list \<Rightarrow> 'err option \<Rightarrow> ('b, 'err) direction \<Rightarrow> bool" where
  "copy_inv chunks ending d \<longleftrightarrow> drEnd d = ending \<and> (\<exists>rest. chunks = drDelivered d @ rest) \<and>
     (drPhase d = Copying \<longrightarrow> chunks = drDelivered d @ drPending d) \<and>
     (phase_result (drPhase d) = Some None \<longrightarrow> drDelivered d = chunks \<and> ending = None)"

lemma copy_step_inv: "copy_step d e \<Longrightarrow> copy_inv chunks ending d \<Longrightarrow> copy_inv chunks ending e"
  by (elim copy_stepE) (auto simp: copy_inv_def)

definition tcp_inv :: "'b list \<Rightarrow> 'err option \<Rightarrow> 'b list \<Rightarrow> 'err option \<Rightarrow> ('b, 'err) tcp_shim \<Rightarrow> bool" where
  "tcp_inv client clientEnd server serverEnd s \<longleftrightarrow>
     copy_inv client clientEnd (tsForward s) \<and> copy_inv server serverEnd (tsBackward s) \<and>
     (case tsReturned s of
        None \<Rightarrow> \<not> tsClosed s
      | Some r \<Rightarrow> tsClosed s \<and> (\<exists>err1 err2. drPhase (tsForward s) = Finished err1 \<and>
          drPhase (tsBackward s) = Finished err2 \<and> r = shim_result err1 err2))"

lemma finished_stuck: "drPhase d = Finished r \<Longrightarrow> \<not> copy_step d e"
  by (auto elim: copy_stepE)

lemma tcp_step_inv:
  assumes "tcp_step s t" and "tcp_inv client clientEnd server serverEnd s"
  shows "tcp_inv client clientEnd server serverEnd t"
  using assms(1)
proof (cases rule: tcp_step.cases)
  case (forward_step d)
  then show ?thesis using assms(2) copy_step_inv [OF forward_step(2)] finished_stuck [of "tsForward s"]
    by (auto simp: tcp_inv_def split: option.splits)
next
  case (backward_step d)
  then show ?thesis using assms(2) copy_step_inv [OF backward_step(2)] finished_stuck [of "tsBackward s"]
    by (auto simp: tcp_inv_def split: option.splits)
next
  case both_done
  then show ?thesis using assms(2) by (auto simp: tcp_inv_def)
qed

lemma tcp_reach_inv:
  assumes "tcp_reach (tcp_init client clientEnd server serverEnd) s"
  shows "tcp_inv client clientEnd server serverEnd s"
  using assms
proof (induction rule: tcp_reach.induct)
  case tcp_start
  then show ?case by (simp add: tcp_inv_def tcp_init_def copy_start_def copy_inv_def)
qed (rule tcp_step_inv)

section \<open>The shim always gets to an end\<close>

fun phase_left :: "'err copy_phase \<Rightarrow> nat" where
  "phase_left Copying = 3"
| "phase_left (Copied r) = 2"
| "phase_left (ReadClosed r) = 1"
| "phase_left (Finished r) = 0"

definition copy_left :: "('b, 'err) direction \<Rightarrow> nat" where
  "copy_left d = length (drPending d) + phase_left (drPhase d)"

definition tcp_left :: "('b, 'err) tcp_shim \<Rightarrow> nat" where
  "tcp_left s = copy_left (tsForward s) + copy_left (tsBackward s) + (if tsReturned s = None then 1 else 0)"

lemma copy_step_left: "copy_step d e \<Longrightarrow> copy_left e < copy_left d"
  by (elim copy_stepE) (auto simp: copy_left_def)

lemma tcp_step_left: "tcp_step s t \<Longrightarrow> tcp_left t < tcp_left s"
  by (elim tcp_stepE) (auto simp: tcp_left_def dest: copy_step_left)

lemma copy_can_step: "phase_result (drPhase d) = None \<or> (\<forall>r. drPhase d \<noteq> Finished r) \<Longrightarrow> \<exists>e. copy_step d e"
  by (cases "drPhase d"; cases "drPending d") (auto intro: copy_step.intros)

lemma tcp_can_step: "tsReturned s = None \<Longrightarrow> \<exists>t. tcp_step s t"
proof (cases "\<exists>r. drPhase (tsForward s) = Finished r"; cases "\<exists>r. drPhase (tsBackward s) = Finished r")
  assume "tsReturned s = None" "\<exists>r. drPhase (tsForward s) = Finished r" "\<exists>r. drPhase (tsBackward s) = Finished r"
  then show ?thesis by (blast intro: both_done)
qed (use copy_can_step in \<open>blast intro: forward_step backward_step\<close>)+

text \<open>When both streams end without an error the shim can deliver everything and return.\<close>

definition copied_all :: "'b list \<Rightarrow> ('b, 'err) direction" where
  "copied_all chunks = \<lparr>drPending = [], drEnd = None, drDelivered = chunks, drPhase = Finished None\<rparr>"

lemma copy_completes: "copy_step\<^sup>*\<^sup>* (copy_start chunks None) (copied_all chunks)"
proof -
  let ?d = "\<lambda>xs ys phase. \<lparr>drPending = xs, drEnd = None, drDelivered = ys, drPhase = phase\<rparr>"
  have "copy_step\<^sup>*\<^sup>* (?d xs ys Copying) (?d [] (ys @ xs) Copying)" for xs ys
  proof (induction xs arbitrary: ys)
    case (Cons x xs)
    have "copy_step (?d (x # xs) ys Copying) (?d xs (ys @ [x]) Copying)"
      using copy_chunk [of "?d (x # xs) ys Copying" x xs] by simp
    from converse_rtranclp_into_rtranclp [OF this Cons.IH] show ?case by simp
  qed simp
  moreover have "copy_step (?d [] chunks Copying) (?d [] chunks (Copied None))"
    using copy_ends [of "?d [] chunks Copying"] by simp
  moreover have "copy_step (?d [] chunks (Copied None)) (?d [] chunks (ReadClosed None))"
    using close_read [of "?d [] chunks (Copied None)" None] by simp
  moreover have "copy_step (?d [] chunks (ReadClosed None)) (?d [] chunks (Finished None))"
    using close_write [of "?d [] chunks (ReadClosed None)" None] by simp
  ultimately show ?thesis unfolding copy_start_def copied_all_def
    by (metis (no_types, lifting) append_Nil rtranclp.rtrancl_into_rtrancl)
qed

lemma tcp_forward_steps:
  assumes "copy_step\<^sup>*\<^sup>* (tsForward s) d" and "tcp_reach init s"
  shows "tcp_reach init (s\<lparr>tsForward := d\<rparr>)"
  using assms(1)
proof (induction rule: rtranclp_induct)
  case (step y z)
  then show ?case using tcp_next [OF step.IH forward_step [of "s\<lparr>tsForward := y\<rparr>" z]] by simp
qed (use assms(2) in simp)

lemma tcp_backward_steps:
  assumes "copy_step\<^sup>*\<^sup>* (tsBackward s) d" and "tcp_reach init s"
  shows "tcp_reach init (s\<lparr>tsBackward := d\<rparr>)"
  using assms(1)
proof (induction rule: rtranclp_induct)
  case (step y z)
  then show ?case using tcp_next [OF step.IH backward_step [of "s\<lparr>tsBackward := y\<rparr>" z]] by simp
qed (use assms(2) in simp)

lemma tcp_can_succeed: "\<exists>s. tcp_reach (tcp_init client None server None) s \<and> tsReturned s = Some None"
proof -
  let ?i = "tcp_init client None server None"
  let ?s = "?i\<lparr>tsForward := copied_all client, tsBackward := copied_all server\<rparr>"
  have "tcp_reach ?i (?i\<lparr>tsForward := copied_all client\<rparr>)"
    by (rule tcp_forward_steps [OF _ tcp_start]) (simp add: tcp_init_def copy_completes)
  then have "tcp_reach ?i ?s"
    by (rule tcp_backward_steps [rotated]) (simp add: tcp_init_def copy_completes)
  moreover have "tcp_step ?s (?s\<lparr>tsReturned := Some None, tsClosed := True\<rparr>)"
    using both_done [of ?s None None] by (simp add: copied_all_def tcp_init_def shim_result_def)
  ultimately show ?thesis using tcp_next by (intro exI conjI) (assumption | simp)+
qed

text \<open>
  C26: However the two copies of a TCP connection interleave: what a side has received is a prefix
  of what the other sent; the shim can always go on until it returns, and no sequence of steps is
  longer than what is left to do; when it returns both connections are closed, and when it returns
  without an error each side has received everything the other sent and both streams came to
  their end.
\<close>

theorem tcp_shim_delivers:
  assumes "tcp_reach (tcp_init client clientEnd server serverEnd) s"
  shows "(\<exists>rest. client = drDelivered (tsForward s) @ rest) \<and> (\<exists>rest. server = drDelivered (tsBackward s) @ rest) \<and>
    (tsReturned s = None \<longrightarrow> (\<exists>t. tcp_step s t)) \<and>
    (\<forall>t. tcp_step s t \<longrightarrow> tcp_left t < tcp_left s) \<and>
    (tsClosed s \<longleftrightarrow> tsReturned s \<noteq> None) \<and>
    (tsReturned s = Some None \<longrightarrow> drDelivered (tsForward s) = client \<and> drDelivered (tsBackward s) = server \<and>
       clientEnd = None \<and> serverEnd = None)"
proof -
  have inv: "tcp_inv client clientEnd server serverEnd s" by (rule tcp_reach_inv [OF assms])
  have "drDelivered (tsForward s) = client \<and> drDelivered (tsBackward s) = server \<and> clientEnd = None \<and> serverEnd = None"
    if "tsReturned s = Some None"
    using inv that by (auto simp: tcp_inv_def copy_inv_def shim_result_def split: if_splits)
  then show ?thesis using inv tcp_can_step tcp_step_left
    by (auto simp: tcp_inv_def copy_inv_def split: option.splits)
qed

theorem tcp_shim_delivers_witness:
  "\<exists>s :: (string, nat) tcp_shim. tsReturned s = Some None \<and> drDelivered (tsForward s) = [''GET''] \<and> drDelivered (tsBackward s) = [''200'', ''OK'']"
proof -
  obtain s :: "(string, nat) tcp_shim" where s: "tcp_reach (tcp_init [''GET''] None [''200'', ''OK''] None) s" "tsReturned s = Some None"
    using tcp_can_succeed by blast
  from tcp_shim_delivers [OF s(1)] s(2) show ?thesis by (intro exI [of _ s]) simp
qed

end
