(* ===== verification/WebApi.thy ===== *)
theory WebApi
  imports EtcdInstances
begin

text \<open>
  The web service (\<open>web/main.go\<close>): the routes, the list of the services as the page asks for it,
  and the proxy to Prometheus. The store, the HTTP client and server and the JSON encoder are
  libraries or other components: a response is its status, headers and what is written to its
  body, and a list of services is written as the values the encoder is given (an empty list is a
  nil slice in the code, and JSON \<open>null\<close>).
\<close>

section \<open>The values of the JSON\<close>

record web_ipport =
  wpIP :: "ip option"
  wpPort :: int

record web_instance =
  wiName :: string
  wiHost :: host
  wiContainerRule :: string
  wiAddress :: "web_ipport option"
  wiLabels :: label_map

record web_rule =
  wrName :: string
  wrRule :: container_rule

record web_service =
  wsName :: string
  wsAddress :: "web_ipport option"
  wsInstancePort :: int
  wsProtocol :: string
  wsInstances :: "web_instance list"
  wsContainerRules :: "web_rule list"

definition wrapIPPort :: "ipport option \<Rightarrow> web_ipport option" where
  "wrapIPPort addr =
     (case addr of None \<Rightarrow> None | Some a \<Rightarrow> Some \<lparr>wpIP = ipport_IP a, wpPort = ipPortNum a\<rparr>)"

definition wrapServiceInfo :: "string ordering \<Rightarrow> string \<Rightarrow> service_info \<Rightarrow> web_service" where
  "wrapServiceInfo ord name si =
     (let insts = for_keys (\<lambda>_. Instances si)
            (\<lambda>instName i insts. insts @ [\<lparr>wiName = instName, wiHost = instHost i, wiContainerRule = instContainerRule i,
               wiAddress = wrapIPPort (instAddress i), wiLabels = instLabels i\<rparr>])
            (ord [''instances'', name] (dom (Instances si))) [];
          rules = for_keys (\<lambda>_. ContainerRules si) (\<lambda>name cr rules. rules @ [\<lparr>wrName = name, wrRule = cr\<rparr>])
            (ord [''rules'', name] (dom (ContainerRules si))) []
      in \<lparr>wsName = name, wsAddress = wrapIPPort (Address si), wsInstancePort = InstancePort si,
          wsProtocol = Protocol si, wsInstances = insts, wsContainerRules = rules\<rparr>)"

definition wrapServiceInfos :: "string ordering \<Rightarrow> (string \<rightharpoonup> service_info) \<Rightarrow> web_service list" where
  "wrapServiceInfos ord svcs =
     for_keys (\<lambda>_. svcs) (\<lambda>name si res. res @ [wrapServiceInfo ord name si]) (ord [''services''] (dom svcs)) []"

section \<open>The handlers\<close>

datatype 'err web_part =
    ErrorText string 'err
  | Json "web_service list"

record 'err web_response =
  wsStatus :: int
  wsBody :: "'err web_part list"

text \<open>The first status written is the one that is sent; a body without one is sent with 200.\<close>

definition allServices ::
  "string ordering \<Rightarrow> (query_opts \<Rightarrow> (string \<rightharpoonup> service_info) \<times> 'err option) \<Rightarrow> 'err web_response" where
  "allServices ord getAll =
     (case getAll \<lparr>WithInstances = True, WithContainerRules = False, WithIngressInstances = False\<rparr> of
        (services, err) \<Rightarrow>
          let w = (case err of
                None \<Rightarrow> \<lparr>wsStatus = 200, wsBody = []\<rparr>
              | Some e \<Rightarrow> \<lparr>wsStatus = 500, wsBody = [ErrorText ''Error getting services from store: '' e]\<rparr>)
          in w\<lparr>wsBody := wsBody w @ [Json (wrapServiceInfos ord services)]\<rparr>)"

record http_reply =
  rpStatus :: int
  rpHeader :: "string \<rightharpoonup> string list"
  rpBody :: string

definition proxyStats ::
  "string ordering \<Rightarrow> (string \<Rightarrow> 'err + http_reply) \<Rightarrow> string \<Rightarrow> string \<Rightarrow> string \<Rightarrow> http_reply option" where
  "proxyStats ord get promURL urlPath rawQuery =
     (if length urlPath < length ''/stats'' then None
      else let path = drop (length ''/stats'') urlPath @ ''?'' @ rawQuery in
        case get (promURL @ path) of
          Inl err \<Rightarrow> Some \<lparr>rpStatus = 200, rpHeader = Map.empty, rpBody = []\<rparr>
        | Inr resp \<Rightarrow>
            Some \<lparr>rpStatus = rpStatus resp,
              rpHeader = for_keys (\<lambda>_. rpHeader resp) (\<lambda>k vs h. h(k \<mapsto> vs)) (ord [''header''] (dom (rpHeader resp))) Map.empty,
              rpBody = rpBody resp\<rparr>)"

section \<open>Routes\<close>

datatype web_handler = HomePage | HandleResource | AllServices | ProxyStats

definition starts_with :: "string \<Rightarrow> string \<Rightarrow> bool" where
  "starts_with p s \<longleftrightarrow> take (length p) s = p"

text \<open>The first route that matches the path.\<close>

definition web_router :: "string \<Rightarrow> web_handler option" where
  "web_router path =
     (if path = ''/'' \<or> path = ''/index.html'' then Some HomePage
      else if starts_with ''/assets/'' path then Some HandleResource
      else if path = ''/api/services'' then Some AllServices
      else if starts_with ''/stats/'' path then Some ProxyStats
      else None)"

definition resource_file :: "string \<Rightarrow> string" where
  "resource_file path = drop 1 path"

section \<open>What the page is told\<close>

lemma for_keys_append:
  assumes "distinct ks" and "set ks \<subseteq> dom m"
  shows "for_keys (\<lambda>_. m) (\<lambda>k v acc. acc @ [f k v]) ks acc = acc @ map (\<lambda>k. f k (the (m k))) ks"
  using assms by (induction ks arbitrary: acc) auto

lemma for_keys_copy:
  assumes "set ks \<subseteq> dom m"
  shows "for_keys (\<lambda>_. m) (\<lambda>k v h. h(k \<mapsto> v)) ks h = (\<lambda>k. if k \<in> set ks then m k else h k)"
  using assms by (induction ks arbitrary: h) (auto simp: fun_eq_iff)

text \<open>Reading a service back out of the JSON.\<close>

definition unwrapIPPort :: "web_ipport option \<Rightarrow> ipport option" where
  "unwrapIPPort w = map_option (\<lambda>w. newIPPort (case wpIP w of None \<Rightarrow> [] | Some a \<Rightarrow> a) (wpPort w)) w"

definition unwrap_instance :: "web_instance \<Rightarrow> string \<times> inst" where
  "unwrap_instance w = (wiName w, \<lparr>instHost = wiHost w, instContainerRule = wiContainerRule w,
     instAddress = unwrapIPPort (wiAddress w), instLabels = wiLabels w\<rparr>)"

definition unwrap_service :: "web_service \<Rightarrow> string \<times> service_info" where
  "unwrap_service w = (wsName w, \<lparr>Address = unwrapIPPort (wsAddress w), InstancePort = wsInstancePort w,
     Protocol = wsProtocol w, Instances = map_of (map unwrap_instance (wsInstances w)),
     ContainerRules = map_of (map (\<lambda>r. (wrName r, wrRule r)) (wsContainerRules w)), IngressInstances = Map.empty\<rparr>)"

lemma unwrap_wrap_IPPort [simp]: "unwrapIPPort (wrapIPPort a) = a"
  by (cases a) (simp_all add: unwrapIPPort_def wrapIPPort_def ipport_IP_def newIPPort_def)

lemma inst_fields [simp]:
  "\<lparr>instHost = instHost i, instContainerRule = instContainerRule i, instAddress = instAddress i, instLabels = instLabels i\<rparr> = i"
  by (cases i) simp

lemma map_of_keys:
  assumes "set ks = dom m"
  shows "map_of (map (\<lambda>k. (k, the (m k))) ks) = m"
proof
  fix k
  show "map_of (map (\<lambda>k. (k, the (m k))) ks) k = m k"
    using assms by (cases "m k") (auto simp: map_of_map_restrict restrict_map_def dom_def)
qed

lemma unwrap_wrap_service:
  assumes "ordering_ok ord" and "finite (dom (Instances si))" and "finite (dom (ContainerRules si))"
    and "IngressInstances si = Map.empty"
  shows "unwrap_service (wrapServiceInfo ord name si) = (name, si)"
    and "distinct (map wiName (wsInstances (wrapServiceInfo ord name si)))"
proof -
  let ?is = "ord [''instances'', name] (dom (Instances si))" and ?rs = "ord [''rules'', name] (dom (ContainerRules si))"
  let ?w = "wrapServiceInfo ord name si"
  have ks: "distinct ?is" "set ?is = dom (Instances si)" "distinct ?rs" "set ?rs = dom (ContainerRules si)"
    using assms by simp_all
  have i: "wsInstances ?w = map (\<lambda>k. \<lparr>wiName = k, wiHost = instHost (the (Instances si k)),
      wiContainerRule = instContainerRule (the (Instances si k)), wiAddress = wrapIPPort (instAddress (the (Instances si k))),
      wiLabels = instLabels (the (Instances si k))\<rparr>) ?is"
    and r: "wsContainerRules ?w = map (\<lambda>k. \<lparr>wrName = k, wrRule = the (ContainerRules si k)\<rparr>) ?rs"
    by (simp_all add: wrapServiceInfo_def for_keys_append ks)
  have "map_of (map unwrap_instance (wsInstances ?w)) = Instances si"
    using map_of_keys [OF ks(2)] by (simp add: i unwrap_instance_def comp_def)
  moreover have "map_of (map (\<lambda>r. (wrName r, wrRule r)) (wsContainerRules ?w)) = ContainerRules si"
    using map_of_keys [OF ks(4)] by (simp add: r comp_def)
  moreover have "wsName ?w = name" "wsAddress ?w = wrapIPPort (Address si)" "wsInstancePort ?w = InstancePort si"
    "wsProtocol ?w = Protocol si"
    by (simp_all add: wrapServiceInfo_def)
  ultimately show "unwrap_service ?w = (name, si)"
    using assms(4) by (cases si) (simp add: unwrap_service_def)
  show "distinct (map wiName (wsInstances ?w))" using ks(1) by (simp add: i comp_def)
qed

lemma wrap_no_rules:
  assumes "ordering_ok ord" and "ContainerRules si = Map.empty"
  shows "wsContainerRules (wrapServiceInfo ord name si) = []"
proof -
  have "set (ord [''rules'', name] {}) = {}" using assms(1) by simp
  then show ?thesis using assms(2) by (simp add: wrapServiceInfo_def)
qed

text \<open>What the page is told of any services that come without rules.\<close>

lemma web_lists:
  assumes "ordering_ok ord" and "finite (dom m)"
    and "\<forall>n si. m n = Some si \<longrightarrow>
      finite (dom (Instances si)) \<and> ContainerRules si = Map.empty \<and> IngressInstances si = Map.empty"
  defines "ws \<equiv> wrapServiceInfos ord m"
  shows "map_of (map unwrap_service ws) = m" and "distinct (map wsName ws)"
    and "\<forall>w \<in> set ws. distinct (map wiName (wsInstances w)) \<and> wsContainerRules w = []"
proof -
  let ?ks = "ord [''services''] (dom m)"
  have ks: "distinct ?ks" "set ?ks = dom m" by (rule ordering_okD [OF assms(1,2)])+
  have ws: "ws = map (\<lambda>k. wrapServiceInfo ord k (the (m k))) ?ks"
    by (simp add: ws_def wrapServiceInfos_def for_keys_append ks)
  have un: "unwrap_service (wrapServiceInfo ord k (the (m k))) = (k, the (m k)) \<and>
      distinct (map wiName (wsInstances (wrapServiceInfo ord k (the (m k))))) \<and>
      wsContainerRules (wrapServiceInfo ord k (the (m k))) = []" if k: "k \<in> set ?ks" for k
  proof -
    obtain si where si: "m k = Some si" using k unfolding ks(2) by blast
    then show ?thesis using unwrap_wrap_service [OF assms(1), of si k] assms(3) si
      wrap_no_rules [OF assms(1), of si k] by simp
  qed
  have "map unwrap_service ws = map (\<lambda>k. (k, the (m k))) ?ks" using un by (simp add: ws)
  then show "map_of (map unwrap_service ws) = m" using map_of_keys [OF ks(2)] by simp
  show "distinct (map wsName ws)" using ks(1) by (simp add: ws comp_def wrapServiceInfo_def)
  show "\<forall>w \<in> set ws. distinct (map wiName (wsInstances w)) \<and> wsContainerRules w = []"
    using un by (auto simp: ws)
qed

text \<open>
  C27: The page is told the services of the store, each once with each of its instances once, and
  everything the store was asked for can be read back from what it is told: the addresses, ports
  and protocols, and the instances of live sessions, in any order the runtime visits the maps. No
  rules are among it. When the store fails the status is 500, and a document without services
  follows the error message. This holds over every etcd that keeps its contract.
\<close>

theorem web_lists_services:
  assumes "etcd_contract client tree" and "ordering_ok gord" and "ordering_ok ord" and "etcd_ok cd names (tree e)"
  defines "opts \<equiv> \<lparr>WithInstances = True, WithContainerRules = False, WithIngressInstances = False\<rparr>"
  shows "\<exists>svcs. allServices ord (etcd_getAll gord cd names client e) = \<lparr>wsStatus = 200, wsBody = [Json svcs]\<rparr> \<and>
      map_of (map unwrap_service svcs)
        = (\<lambda>s. map_option (abs_info opts (sessions_of (tree e))) (abs_services cd names (tree e) s)) \<and>
      distinct (map wsName svcs) \<and>
      (\<forall>w \<in> set svcs. distinct (map wiName (wsInstances w)) \<and> wsContainerRules w = []) \<and>
      (\<forall>e2 err. etcd_GetAllServices gord cd names client opts e2 = Inl err \<longrightarrow>
        allServices ord (etcd_getAll gord cd names client e2)
          = \<lparr>wsStatus = 500, wsBody = [ErrorText ''Error getting services from store: '' err, Json []]\<rparr>)"
proof -
  let ?m = "\<lambda>s. map_option (abs_info opts (sessions_of (tree e))) (abs_services cd names (tree e) s)"
  have "dom ?m = dom (abs_services cd names (tree e))" by auto
  then have fin: "finite (dom ?m)" by (simp add: finite_abs_services)
  have info: "\<forall>n si. ?m n = Some si \<longrightarrow>
      finite (dom (Instances si)) \<and> ContainerRules si = Map.empty \<and> IngressInstances si = Map.empty"
    using finite_of_live by (auto simp: opts_def abs_info_def service.defs)
  note w = web_lists [OF assms(3) fin info]
  have "etcd_getAll gord cd names client e opts = (?m, None)"
    using etcd_contract.GetAllServices_ok [OF assms(1,2,4)] by (simp add: etcd_getAll_def)
  then have "allServices ord (etcd_getAll gord cd names client e)
      = \<lparr>wsStatus = 200, wsBody = [Json (wrapServiceInfos ord ?m)]\<rparr>"
    by (simp add: allServices_def opts_def [symmetric])
  moreover have "wrapServiceInfos ord Map.empty = []"
    using ordering_okD(2) [OF assms(3), of "{}" "[''services'']"] by (simp add: wrapServiceInfos_def)
  then have "allServices ord (etcd_getAll gord cd names client e2)
      = \<lparr>wsStatus = 500, wsBody = [ErrorText ''Error getting services from store: '' err, Json []]\<rparr>"
    if "etcd_GetAllServices gord cd names client opts e2 = Inl err" for e2 err
    using that by (simp add: allServices_def opts_def [symmetric] etcd_getAll_def)
  ultimately show ?thesis using w by blast
qed

text \<open>The proxy hands on the status, the headers and the body of the reply.\<close>

theorem proxy_stats_forwards:
  assumes "ordering_ok ord" and "finite (dom (rpHeader resp))"
    and "get (promURL @ rest @ ''?'' @ query) = Inr resp"
  shows "proxyStats ord get promURL (''/stats'' @ rest) query = Some resp"
proof -
  have "set (ord [''header''] (dom (rpHeader resp))) = dom (rpHeader resp)" using assms(1,2) by simp
  then have "for_keys (\<lambda>_. rpHeader resp) (\<lambda>k vs h. h(k \<mapsto> vs)) (ord [''header''] (dom (rpHeader resp))) Map.empty
      = rpHeader resp"
    by (simp only: for_keys_copy [OF equalityD1]) (auto simp: fun_eq_iff)
  then show ?thesis using assms(3) by (simp add: proxyStats_def)
qed

theorem proxy_stats_forwards_witness:
  "proxyStats sorted_ordering (\<lambda>url. Inr \<lparr>rpStatus = 404, rpHeader = [''A'' \<mapsto> [''b'']], rpBody = url\<rparr>) ''http://p''
     (''/stats'' @ ''/api'') ''q=1'' = Some \<lparr>rpStatus = 404, rpHeader = [''A'' \<mapsto> [''b'']], rpBody = ''http://p/api?q=1''\<rparr>"
  by (rule proxy_stats_forwards) simp_all

theorem web_lists_services_witness:
  "\<exists>svcs si. allServices sorted_ordering (etcd_getAll sorted_ordering demo_codec (\<lambda>_ _. None) tree_client demo_etcd)
      = \<lparr>wsStatus = 200, wsBody = [Json svcs]\<rparr> \<and>
    map_of (map unwrap_service svcs) ''web'' = Some si \<and> Instances si ''a1'' = Some demo_inst"
proof -
  let ?opts = "\<lparr>WithInstances = True, WithContainerRules = False, WithIngressInstances = False\<rparr>"
  have ok: "etcd_ok demo_codec (\<lambda>_ _. None) (id demo_etcd)" by (simp add: demo_etcd_ok)
  obtain svcs where s: "allServices sorted_ordering (etcd_getAll sorted_ordering demo_codec (\<lambda>_ _. None) tree_client demo_etcd)
      = \<lparr>wsStatus = 200, wsBody = [Json svcs]\<rparr>"
    "map_of (map unwrap_service svcs)
      = (\<lambda>s. map_option (abs_info ?opts (sessions_of demo_etcd)) (abs_services demo_codec (\<lambda>_ _. None) demo_etcd s))"
    using web_lists_services [OF demo_contract sorted_ordering_ok sorted_ordering_ok ok]
    unfolding id_apply by (elim exE conjE) (rule that)
  then show ?thesis
    by (intro exI [of _ svcs] exI [of _ "abs_info ?opts {''S1''} demo_abs"])
      (simp add: demo_services_abs demo_sessions abs_info_def service.defs of_live_def demo_abs_def)
qed

end
