(* ===== verification/Lease.thy ===== *)
theory Lease
  imports Main
begin

text \<open>
  Records with a time to live, as etcd keeps them: each write keeps the record until the time to
  live after it. Both the sessions of the hosts and the advertised metrics address are kept alive
  by writing them again.
\<close>

definition record_live :: "int \<Rightarrow> int list \<Rightarrow> int \<Rightarrow> bool" where
  "record_live ttl writes t \<longleftrightarrow> list_ex (\<lambda>w. w \<le> t \<and> t < w + ttl) writes"

text \<open>Writes that are at most the time to live apart keep the record without a gap.\<close>

fun writes_close :: "int \<Rightarrow> int list \<Rightarrow> bool" where
  "writes_close ttl (a # b # ws) \<longleftrightarrow> a \<le> b \<and> b \<le> a + ttl \<and> writes_close ttl (b # ws)"
| "writes_close ttl _ \<longleftrightarrow> True"

lemma writes_close_bounds:
  "writes_close ttl (w # ws) \<Longrightarrow> v \<in> set (w # ws) \<Longrightarrow> w \<le> v \<and> v \<le> last (w # ws)"
proof (induction ws arbitrary: w v)
  case (Cons b ws)
  have b: "w \<le> b" "writes_close ttl (b # ws)" using Cons.prems(1) by simp_all
  have "b \<le> last (b # ws)" using Cons.IH [OF b(2), of b] by simp
  then show ?case using Cons.IH [OF b(2), of v] b(1) Cons.prems(2) by (auto simp del: last.simps simp: last_ConsR)
qed simp

lemma record_live_between:
  assumes "writes_close ttl (w # ws)" and "w \<le> t" and "t < last (w # ws) + ttl"
  shows "record_live ttl (w # ws) t"
  using assms
proof (induction ws arbitrary: w)
  case (Cons b ws)
  show ?case
  proof (cases "t < b")
    case True
    then show ?thesis using Cons.prems by (simp add: record_live_def)
  next
    case False
    then have "record_live ttl (b # ws) t" using Cons by simp
    then show ?thesis by (simp add: record_live_def)
  qed
qed (simp add: record_live_def)

lemma record_live_iff:
  assumes "writes_close ttl (w # ws)"
  shows "record_live ttl (w # ws) t \<longleftrightarrow> w \<le> t \<and> t < last (w # ws) + ttl"
proof
  assume "record_live ttl (w # ws) t"
  then obtain v where "v \<in> set (w # ws)" "v \<le> t" "t < v + ttl" by (auto simp: record_live_def list_ex_iff)
  then show "w \<le> t \<and> t < last (w # ws) + ttl" using writes_close_bounds [OF assms] by (smt (verit))
qed (use record_live_between [OF assms] in blast)

end
