(* ===== verification/Wiring.thy ===== *)
theory Wiring
  imports StoreData Lease "HOL-Library.Word" "HOL-Library.Signed_Division"
begin

text \<open>
  How the components are put together: \<open>Prepare\<close> of the agent (\<open>agent/agent.go\<close>), of the
  balancer (\<open>balancer/balancer.go\<close>), of the server-side balancer
  (\<open>balancer/serverside/serverside.go\<close>) and of the balancer agent (\<open>balancer/balagent/balagent.go\<close>),
  the start functions of the store dependency (\<open>etcdstore/dep.go\<close>) with its heartbeat
  (\<open>common/heartbeat/heartbeat.go\<close>) and of the event handler
  (\<open>balancer/prometheus/eventhandler.go\<close>). A start function is a term: what it runs, with its
  configuration, and how it is supervised. A channel is named by the place that makes it.
  Durations are 64-bit integers, in nanoseconds. The client of etcd and the template are of any
  types \<open>'c\<close> and \<open>'t\<close>.
\<close>

section \<open>Start functions\<close>

type_synonym duration = "64 word"

datatype maker = ForMain | ForAgent | ForBalancer | ForServerSide | ForBalagent

datatype channel_name =
    ContainerUpdatesCh
  | ContainerUpdatesResetCh
  | ServiceUpdatesCh
  | ServiceUpdatesResetCh
  | InstanceUpdatesCh
  | InstanceUpdatesReadCh
  | InstanceUpdatesResetCh
  | UpdatesCh
  | UpdatesResetCh
  | ServicesCh

datatype channel = Made maker channel_name

record sync_conf =
  scContainerUpdates :: channel
  scContainerUpdatesReset :: channel
  scServiceUpdates :: channel
  scServiceUpdatesReset :: channel
  scInstanceUpdates :: channel
  scInstanceUpdatesReset :: channel
  scHostIP :: ip
  scNetwork :: string

text \<open>What the dependencies provide: a store on a client of etcd, and an event handler.\<close>

datatype 'c etcd_store = EtcdStore 'c

record 'c event_handler =
  ehListenAddr :: string
  ehAdvertiseAddr :: string
  ehEtcdClient :: 'c
  ehHostIP :: ip

record 'c set_conf =
  stHostIP :: ip
  stStore :: "'c etcd_store"
  stInstanceUpdates :: channel
  stInstanceUpdatesReset :: channel

text \<open>The configurations, first the fields that may be set before \<open>Populate\<close>.\<close>

record agent_preset =
  agInstanceUpdates :: "channel option"
  agInstanceUpdatesReset :: "channel option"
  agDockerClient :: bool
  agReconnectInterval :: duration

record 'c agent_config = agent_preset +
  agHostIP :: ip
  agNetwork :: string
  agStore :: "'c etcd_store"

record balancer_preset =
  blReconnectInterval :: duration

record 'c balancer_config = balancer_preset +
  blBridge :: string
  blChain :: string
  blDebug :: bool
  blStore :: "'c etcd_store"
  blEventHandler :: "'c event_handler"

record ss_preset =
  sfInstanceUpdates :: "channel option"
  sfInstanceUpdatesReset :: "channel option"
  sfServiceUpdates :: "channel option"
  sfServiceUpdatesReset :: "channel option"

record 'c ss_conf = ss_preset +
  sfStore :: "'c etcd_store"
  sfEventHandler :: "'c event_handler"
  sfHostIP :: ip

record balagent_preset =
  baReconnectInterval :: duration

record ('c, 't) balagent_config = balagent_preset +
  baFilename :: string
  baReloadCmd :: string
  baTemplate :: 't
  baStore :: "'c etcd_store"

datatype ('c, 't) activity =
    DockerListener channel
  | WatchServices "'c etcd_store" query_opts channel
  | WatchModel "'c etcd_store" bool channel
  | SyncInstances sync_conf
  | SetInstances "'c set_conf"
  | TeeTo channel "channel list"
  | StartBalancer "'c balancer_config" channel channel
  | ServerSideRun "'c ss_conf"
  | UpdaterRun channel channel
  | GeneratorRun "('c, 't) balagent_config" channel
  | HeartbeatOf "'c etcd_store" duration
  | Collection "'c etcd_store"
  | ListenPrometheus "'c event_handler"
  | AdvertisePrometheus "'c event_handler"

datatype ('c, 't) start_func =
    Run "('c, 't) activity"
  | NullStart
  | TickerOf duration "('c, 't) activity"
  | RestartOf duration "('c, 't) start_func"
  | ResetOf channel "('c, 't) start_func"
  | AggregateOf "('c, 't) start_func list"

text \<open>Go's division rounds towards zero.\<close>

definition quo :: "duration \<Rightarrow> int \<Rightarrow> duration" where
  "quo d n = word_of_int (sint d sdiv n)"

definition Second :: duration where
  "Second = 1000000000"

section \<open>The agent\<close>

datatype 'err prepare_error =
    UnknownNetworkMode string
  | DockerError 'err

definition isValidNetworkMode :: "string \<Rightarrow> bool" where
  "isValidNetworkMode mode \<longleftrightarrow> mode = ''global'' \<or> mode = ''local''"

definition default_interval :: "duration \<Rightarrow> duration" where
  "default_interval d = (if d = 0 then 10 * Second else d)"

text \<open>\<open>docker\<close> is the error of \<open>docker.NewClientFromEnv\<close>, if it fails.\<close>

definition agent_Prepare :: "'err option \<Rightarrow> 'c agent_config \<Rightarrow> 'err prepare_error + ('c, 't) start_func" where
  "agent_Prepare docker cf =
     (if \<not> isValidNetworkMode (agNetwork cf) then Inl (UnknownNetworkMode (agNetwork cf))
      else case (agDockerClient cf, docker) of
        (False, Some err) \<Rightarrow> Inl (DockerError err)
      | _ \<Rightarrow>
          let reconnectInterval = default_interval (agReconnectInterval cf);
              made = Made ForAgent;
              reset = (case agInstanceUpdatesReset cf of None \<Rightarrow> made InstanceUpdatesResetCh | Some c \<Rightarrow> c);
              containerUpdates = made ContainerUpdatesCh;
              containerUpdatesReset = made ContainerUpdatesResetCh;
              serviceUpdates = made ServiceUpdatesCh;
              serviceUpdatesReset = made ServiceUpdatesResetCh;
              instanceUpdates = made InstanceUpdatesCh;
              (instanceUpdatesRead, instanceUpdatesTee) =
                (case agInstanceUpdates cf of
                   None \<Rightarrow> (instanceUpdates, NullStart)
                 | Some c \<Rightarrow> (made InstanceUpdatesReadCh, Run (TeeTo instanceUpdates [c, made InstanceUpdatesReadCh])));
              syncInstConf = \<lparr>scContainerUpdates = containerUpdates, scContainerUpdatesReset = containerUpdatesReset,
                scServiceUpdates = serviceUpdates, scServiceUpdatesReset = serviceUpdatesReset,
                scInstanceUpdates = instanceUpdates, scInstanceUpdatesReset = reset,
                scHostIP = agHostIP cf, scNetwork = agNetwork cf\<rparr>;
              setInstConf = \<lparr>stHostIP = agHostIP cf, stStore = agStore cf, stInstanceUpdates = instanceUpdatesRead, stInstanceUpdatesReset = reset\<rparr>
          in Inr (AggregateOf
               [ResetOf containerUpdatesReset (RestartOf reconnectInterval (Run (DockerListener containerUpdates))),
                ResetOf serviceUpdatesReset (RestartOf reconnectInterval
                  (Run (WatchServices (agStore cf)
                    \<lparr>WithInstances = False, WithContainerRules = True, WithIngressInstances = False\<rparr> serviceUpdates))),
                RestartOf reconnectInterval (Run (SyncInstances syncInstConf)),
                RestartOf reconnectInterval (Run (SetInstances setInstConf)),
                instanceUpdatesTee]))"

section \<open>The balancers\<close>

definition balancer_Prepare :: "'c balancer_config \<Rightarrow> ('c, 't) start_func" where
  "balancer_Prepare cf0 =
     (let interval = default_interval (blReconnectInterval cf0);
          cf = cf0\<lparr>blReconnectInterval := interval\<rparr>;
          updates = Made ForBalancer UpdatesCh;
          updatesReset = Made ForBalancer UpdatesResetCh
      in AggregateOf
           [ResetOf updatesReset (RestartOf interval (Run (WatchModel (blStore cf) True updates))),
            RestartOf interval (Run (StartBalancer cf updates updatesReset))])"

text \<open>A list of one start function is that function.\<close>

definition aggregate :: "('c, 't) start_func list \<Rightarrow> ('c, 't) start_func" where
  "aggregate fs = (case fs of [f] \<Rightarrow> f | _ \<Rightarrow> AggregateOf fs)"

definition serverside_Prepare :: "'c ss_conf \<Rightarrow> ('c, 't) start_func" where
  "serverside_Prepare cf =
     (if sfServiceUpdates cf = None then
        (let serviceUpdates = Made ForServerSide ServiceUpdatesCh;
             serviceUpdatesReset = Made ForServerSide ServiceUpdatesResetCh;
             cf' = cf\<lparr>sfServiceUpdates := Some serviceUpdates, sfServiceUpdatesReset := Some serviceUpdatesReset\<rparr>
         in aggregate
              [Run (ServerSideRun cf'),
               ResetOf serviceUpdatesReset (RestartOf (10 * Second)
                 (Run (WatchServices (sfStore cf)
                   \<lparr>WithInstances = False, WithContainerRules = False, WithIngressInstances = False\<rparr> serviceUpdates)))])
      else aggregate [Run (ServerSideRun cf)])"

definition balagent_Prepare :: "('c, 't) balagent_config \<Rightarrow> ('c, 't) start_func" where
  "balagent_Prepare cf0 =
     (let interval = default_interval (baReconnectInterval cf0);
          cf = cf0\<lparr>baReconnectInterval := interval\<rparr>;
          updates = Made ForBalagent UpdatesCh;
          services = Made ForBalagent ServicesCh
      in AggregateOf
           [RestartOf interval
              (Run (WatchServices (baStore cf)
                \<lparr>WithInstances = True, WithContainerRules = False, WithIngressInstances = True\<rparr> updates)),
            Run (UpdaterRun updates services),
            Run (GeneratorRun cf services)])"

section \<open>The store dependency and the event handler\<close>

definition heartbeat_StartFunc :: "'c etcd_store \<Rightarrow> duration \<Rightarrow> ('c, 't) start_func" where
  "heartbeat_StartFunc st TTL = TickerOf (quo TTL 2) (HeartbeatOf st TTL)"

definition store_startFunc :: "'c etcd_store \<Rightarrow> 64 word \<Rightarrow> ('c, 't) start_func" where
  "store_startFunc st cfTtl =
     (let ttl = cfTtl * Second in
      AggregateOf
        [RestartOf (quo ttl 2) (heartbeat_StartFunc st ttl),
         RestartOf (ttl * 2) (TickerOf (ttl * 2) (Collection st))])"

text \<open>The record in etcd is kept by a component that is restarted after a tenth of its time to live.\<close>

definition prom_startFunc :: "'c event_handler \<Rightarrow> ('c, 't) start_func" where
  "prom_startFunc h =
     AggregateOf
       [Run (ListenPrometheus h),
        RestartOf (quo (5 * 60 * Second) 10) (Run (AdvertisePrometheus h))]"

text \<open>\<open>time.NewTicker\<close> panics for an interval that is not positive.\<close>

fun tickers_panic :: "('c, 't) start_func \<Rightarrow> bool" where
  "tickers_panic (TickerOf d a) \<longleftrightarrow> sint d \<le> 0"
| "tickers_panic (RestartOf d f) \<longleftrightarrow> tickers_panic f"
| "tickers_panic (ResetOf c f) \<longleftrightarrow> tickers_panic f"
| "tickers_panic (AggregateOf fs) \<longleftrightarrow> list_ex tickers_panic fs"
| "tickers_panic (Run a) \<longleftrightarrow> False"
| "tickers_panic NullStart \<longleftrightarrow> False"

section \<open>Channels\<close>

text \<open>
  The channels an activity receives from and sends to, as its code does: the updater takes back the
  snapshot that has not been read, which makes it no reader of it.
\<close>

fun receives :: "('c, 't) activity \<Rightarrow> channel list" where
  "receives (SyncInstances cf) = [scContainerUpdates cf, scServiceUpdates cf, scInstanceUpdatesReset cf]"
| "receives (SetInstances cf) = [stInstanceUpdates cf]"
| "receives (TeeTo c cs) = [c]"
| "receives (StartBalancer cf c r) = [c]"
| "receives (ServerSideRun cf) = List.map_filter id [sfServiceUpdates cf, sfInstanceUpdates cf]"
| "receives (UpdaterRun c d) = [c]"
| "receives (GeneratorRun cf c) = [c]"
| "receives _ = []"

fun sends :: "('c, 't) activity \<Rightarrow> channel list" where
  "sends (DockerListener c) = [c]"
| "sends (WatchServices st opts c) = [c]"
| "sends (WatchModel st b c) = [c]"
| "sends (SyncInstances cf) = [scContainerUpdatesReset cf, scServiceUpdatesReset cf, scInstanceUpdates cf]"
| "sends (SetInstances cf) = [stInstanceUpdatesReset cf]"
| "sends (TeeTo c cs) = cs"
| "sends (StartBalancer cf c r) = [r]"
| "sends (ServerSideRun cf) = List.map_filter id [sfServiceUpdatesReset cf, sfInstanceUpdatesReset cf]"
| "sends (UpdaterRun c d) = [d]"
| "sends _ = []"

fun activities :: "('c, 't) start_func \<Rightarrow> ('c, 't) activity list" where
  "activities (Run a) = [a]"
| "activities NullStart = []"
| "activities (TickerOf d a) = [a]"
| "activities (RestartOf d f) = activities f"
| "activities (ResetOf c f) = activities f"
| "activities (AggregateOf fs) = concat (map activities fs)"

fun resets :: "('c, 't) start_func \<Rightarrow> (channel \<times> ('c, 't) start_func) list" where
  "resets (RestartOf d f) = resets f"
| "resets (ResetOf c f) = (c, f) # resets f"
| "resets (AggregateOf fs) = concat (map resets fs)"
| "resets _ = []"

definition readers :: "('c, 't) start_func \<Rightarrow> channel list" where
  "readers p = concat (map receives (activities p)) @ map fst (resets p)"

definition writers :: "('c, 't) start_func \<Rightarrow> channel list" where
  "writers p = concat (map sends (activities p))"

text \<open>
  A program is well wired when every channel has one reader and is written to, and a source that
  is reset on a signal gets the signal from the one activity that reads what it sends.
\<close>

definition well_wired :: "('c, 't) start_func \<Rightarrow> bool" where
  "well_wired p \<longleftrightarrow> distinct (readers p) \<and> set (readers p) = set (writers p) \<and>
     (\<forall>(c, f) \<in> set (resets p). \<forall>a \<in> set (activities f). \<forall>d \<in> set (sends a).
        length (filter (\<lambda>b. d \<in> set (receives b) \<and> c \<in> set (sends b)) (activities p)) = 1)"

definition unconnected :: "('c, 't) start_func \<Rightarrow> bool" where
  "unconnected f \<longleftrightarrow> resets f = [] \<and> (\<forall>a \<in> set (activities f). receives a = [] \<and> sends a = [])"

lemma activities_aggregate [simp]: "activities (aggregate fs) = concat (map activities fs)"
  by (auto simp: aggregate_def split: list.split)

lemma resets_aggregate [simp]: "resets (aggregate fs) = concat (map resets fs)"
  by (auto simp: aggregate_def split: list.split)

lemma unconnected_lists:
  assumes "\<forall>f \<in> set deps. unconnected f"
  shows "concat (map resets deps) = []" and "concat (map receives (concat (map activities deps))) = []"
    and "concat (map sends (concat (map activities deps))) = []"
    and "filter (\<lambda>b. d \<in> set (receives b) \<and> c \<in> set (sends b)) (concat (map activities deps)) = []"
  using assms by (auto simp: unconnected_def filter_empty_conv)

lemma well_wired_deps:
  assumes "\<forall>f \<in> set deps. unconnected f" and "well_wired (AggregateOf fs)"
  shows "well_wired (aggregate (deps @ fs))"
proof -
  note e = unconnected_lists [OF assms(1)]
  have "readers (aggregate (deps @ fs)) = readers (AggregateOf fs)"
    by (simp add: readers_def e(1,2) del: concat_eq_Nil_conv map_concat)
  moreover have "writers (aggregate (deps @ fs)) = writers (AggregateOf fs)"
    by (simp add: writers_def e(3) del: concat_eq_Nil_conv map_concat)
  moreover have "resets (aggregate (deps @ fs)) = resets (AggregateOf fs)" by (simp add: e(1))
  moreover have "filter (\<lambda>b. d \<in> set (receives b) \<and> c \<in> set (sends b)) (activities (aggregate (deps @ fs)))
      = filter (\<lambda>b. d \<in> set (receives b) \<and> c \<in> set (sends b)) (activities (AggregateOf fs))" for c d
    by (simp add: e(4))
  ultimately show ?thesis using assms(2) by (simp add: well_wired_def)
qed

text \<open>The two programs, whatever their configurations; the agent passes its updates on to the server-side balancer.\<close>

lemma fluxd_wired:
  assumes "agent_Prepare docker ag = Inr agent" and "agInstanceUpdates ag = Some (Made ForMain InstanceUpdatesCh)"
    and "agInstanceUpdatesReset ag = Some (Made ForMain InstanceUpdatesResetCh)"
    and "sfInstanceUpdates ss = Some (Made ForMain InstanceUpdatesCh)"
    and "sfInstanceUpdatesReset ss = Some (Made ForMain InstanceUpdatesResetCh)" and "sfServiceUpdates ss = None"
  shows "well_wired (AggregateOf [agent, balancer_Prepare bl, serverside_Prepare ss])"
  using assms(1) [symmetric] assms(2-)
  by (auto simp: agent_Prepare_def Let_def balancer_Prepare_def serverside_Prepare_def well_wired_def readers_def
      writers_def map_filter_simps split: option.splits bool.splits if_splits)

lemma balagent_wired: "well_wired (AggregateOf [balagent_Prepare cf])"
  by (simp add: balagent_Prepare_def Let_def well_wired_def readers_def writers_def)

lemma dependencies_unconnected: "unconnected (store_startFunc st n)" "unconnected (prom_startFunc h)"
  by (simp_all add: unconnected_def store_startFunc_def heartbeat_StartFunc_def prom_startFunc_def Let_def)

lemma agent_Prepare_error:
  "agent_Prepare docker ag = Inl err \<longleftrightarrow>
     \<not> isValidNetworkMode (agNetwork ag) \<and> err = UnknownNetworkMode (agNetwork ag) \<or>
     isValidNetworkMode (agNetwork ag) \<and> \<not> agDockerClient ag \<and> (\<exists>e. docker = Some e \<and> err = DockerError e)"
  by (auto simp: agent_Prepare_def Let_def split: option.splits bool.splits)

section \<open>The durations of the store dependency\<close>

text \<open>The option is in seconds, and the largest whose double fits a duration is about 146 years.\<close>

definition max_ttl :: int where
  "max_ttl = 4611686018"

lemma sint_word_of_int64:
  "- (2 ^ 63) \<le> k \<Longrightarrow> k < 2 ^ 63 \<Longrightarrow> sint (word_of_int k :: 64 word) = k"
  using signed_take_bit_int_eq_self [of 63 k] by (simp add: signed_of_int)

lemma ttl_duration: "(word_of_int n :: 64 word) * Second = word_of_int (n * 1000000000)"
  by (simp add: Second_def wi_hom_syms)

lemma ttl_exact:
  assumes "1 \<le> n" and "n \<le> max_ttl"
  shows "sint (word_of_int n * Second) = n * 1000000000"
    and "sint (quo (word_of_int n * Second) 2) = n * 500000000"
    and "sint (word_of_int n * Second * 2) = n * 2000000000"
proof -
  have n: "1 \<le> n" "n \<le> 4611686018" using assms by (simp_all add: max_ttl_def)
  show 1: "sint (word_of_int n * Second) = n * 1000000000"
    unfolding ttl_duration by (rule sint_word_of_int64) (use n in simp_all)
  have "sint (word_of_int n * Second) sdiv 2 = n * 500000000"
  proof -
    have "n * 1000000000 = 2 * (n * 500000000)" by simp
    moreover have "0 < n * 1000000000" using n by simp
    ultimately show ?thesis unfolding 1 by (simp only: signed_divide_int_def) simp
  qed
  then show "sint (quo (word_of_int n * Second) 2) = n * 500000000"
    unfolding quo_def by (simp only:) (rule sint_word_of_int64, use n in simp_all)
  have "word_of_int n * Second * 2 = word_of_int (n * 2000000000)"
    by (simp add: Second_def wi_hom_syms)
  then show "sint (word_of_int n * Second * 2) = n * 2000000000"
    by (simp only:) (rule sint_word_of_int64, use n in simp_all)
qed

text \<open>Beyond it the period of the collection wraps around to a negative one.\<close>

lemma sint_wrapped:
  assumes "2 ^ 63 \<le> k" and "k < 2 ^ 64"
  shows "sint (word_of_int k :: 64 word) = k - 2 ^ 64"
proof -
  have "(word_of_int k :: 64 word) = word_of_int (k - 2 ^ 64)"
    by (simp add: wi_hom_syms [symmetric] word_of_int_eq_iff take_bit_eq_mod)
  then show ?thesis using assms by (simp only:) (rule sint_word_of_int64, simp_all)
qed

theorem store_tickers:
  assumes "0 \<le> n" and "n \<le> 2 * max_ttl"
  shows "tickers_panic (store_startFunc st (word_of_int n)) \<longleftrightarrow> n = 0 \<or> max_ttl < n"
proof (cases "1 \<le> n \<and> n \<le> max_ttl")
  case True
  then show ?thesis using ttl_exact [of n] by (simp add: store_startFunc_def heartbeat_StartFunc_def Let_def)
next
  case False
  then consider "n = 0" | "max_ttl < n" using assms by linarith
  then show ?thesis
  proof cases
    case 1
    then show ?thesis by (simp add: store_startFunc_def heartbeat_StartFunc_def Let_def quo_def)
  next
    case 2
    have "word_of_int n * Second * 2 = word_of_int (n * 2000000000)"
      by (simp add: Second_def wi_hom_syms)
    moreover have "sint (word_of_int (n * 2000000000) :: 64 word) = n * 2000000000 - 2 ^ 64"
      by (rule sint_wrapped) (use 2 assms in \<open>simp_all add: max_ttl_def\<close>)
    ultimately have "sint (word_of_int n * Second * 2) \<le> 0" using assms by (simp add: max_ttl_def)
    then show ?thesis using 2 by (simp add: store_startFunc_def Let_def)
  qed
qed

theorem store_tickers_witness:
  "tickers_panic (store_startFunc (EtcdStore ()) 0 :: (unit, unit) start_func) \<and>
   \<not> tickers_panic (store_startFunc (EtcdStore ()) 30 :: (unit, unit) start_func)"
  using store_tickers [of 0 "EtcdStore ()"] store_tickers [of 30 "EtcdStore ()"] by (simp add: max_ttl_def)

text \<open>The heartbeats that are tried, and whether they succeed: a failed one is followed by another.\<close>

fun attempts_ok :: "int \<Rightarrow> (int \<times> bool) list \<Rightarrow> bool" where
  "attempts_ok d ((a, ok) # (b, ok') # bs) \<longleftrightarrow> a \<le> b \<and> b \<le> a + d \<and> (ok \<or> ok') \<and> attempts_ok d ((b, ok') # bs)"
| "attempts_ok d _ \<longleftrightarrow> True"

definition heartbeats :: "(int \<times> bool) list \<Rightarrow> int list" where
  "heartbeats bs = map fst (filter snd bs)"

lemma attempts_close:
  assumes "attempts_ok d ((a, True) # bs)" and "2 * d \<le> ttl" and "0 \<le> d"
  shows "writes_close ttl (a # heartbeats bs)"
  using assms(1)
proof (induction "length bs" arbitrary: a bs rule: less_induct)
  case less
  show ?case
  proof (cases bs)
    case (Cons x cs)
    obtain b ok where x: "x = (b, ok)" by (cases x)
    have b: "a \<le> b" "b \<le> a + d" "attempts_ok d ((b, ok) # cs)" using less.prems Cons x by auto
    show ?thesis
    proof (cases ok)
      case True
      then have "writes_close ttl (b # heartbeats cs)" using less.hyps [of cs b] b(3) Cons by simp
      then show ?thesis using b(1,2) assms(2,3) True Cons x by (simp add: heartbeats_def)
    next
      case False
      show ?thesis
      proof (cases cs)
        case Nil
        then show ?thesis using False Cons x by (simp add: heartbeats_def)
      next
        case c: (Cons y ds)
        obtain e ok' where y: "y = (e, ok')" by (cases y)
        have e: "b \<le> e" "e \<le> b + d" "ok'" "attempts_ok d ((e, True) # ds)" using b(3) False c y by auto
        have "writes_close ttl (e # heartbeats ds)" using less.hyps [of ds e] e(4) Cons c by simp
        then show ?thesis using b(1,2) e(1-3) assms(2) False Cons x c y by (simp add: heartbeats_def)
      qed
    qed
  qed (simp add: heartbeats_def)
qed

text \<open>
  C20: A host's session stays in the store, without a gap, from its first heartbeat until the time
  to live after the last one that succeeded, and not longer, although heartbeats may fail, as long
  as no two fail in a row and each is tried within half the time to live of the one before. Half is
  the period of the ticker and the interval of the restarts, and no ticker panics, for every time to
  live the option can give up to 146 years.
\<close>

theorem session_kept_alive:
  fixes st :: "'c etcd_store" and collector :: "('c, 't) start_func"
  assumes "1 \<le> n" and "n \<le> max_ttl"
    and "store_startFunc st (word_of_int n) = AggregateOf [RestartOf restart (TickerOf period (HeartbeatOf st ttl)), collector]"
    and "attempts_ok d ((t0, True) # bs)" and "d = sint period \<or> d = sint restart"
  shows "\<not> tickers_panic (store_startFunc st (word_of_int n) :: ('c, 't) start_func) \<and> sint ttl = n * 1000000000 \<and>
    (record_live (sint ttl) (heartbeats ((t0, True) # bs)) t
      \<longleftrightarrow> t0 \<le> t \<and> t < last (heartbeats ((t0, True) # bs)) + sint ttl)"
proof -
  note e = ttl_exact [OF assms(1,2)]
  have p: "ttl = word_of_int n * Second" "period = quo (word_of_int n * Second) 2" "restart = quo (word_of_int n * Second) 2"
    using assms(3) by (auto simp: store_startFunc_def heartbeat_StartFunc_def Let_def)
  have d: "2 * d \<le> sint ttl" "0 \<le> d" using assms(1,5) by (auto simp: p e)
  have "\<not> tickers_panic (store_startFunc st (word_of_int n) :: ('c, 't) start_func)"
    using assms(1) e by (simp add: store_startFunc_def heartbeat_StartFunc_def Let_def)
  then show ?thesis using record_live_iff [OF attempts_close [OF assms(4) d]]
    by (simp add: p e heartbeats_def del: last.simps)
qed

theorem session_kept_alive_witness:
  "record_live 30000000000 [0, 30000000000] 59999999999 \<and> \<not> record_live 30000000000 [0, 30000000000] 60000000000"
proof -
  let ?ttl = "word_of_int 30 * Second" and ?h = "quo (word_of_int 30 * Second) 2"
  have s: "(store_startFunc (EtcdStore ()) (word_of_int 30) :: (unit, unit) start_func) = AggregateOf [RestartOf ?h (TickerOf ?h (HeartbeatOf (EtcdStore ()) ?ttl)),
      RestartOf (?ttl * 2) (TickerOf (?ttl * 2) (Collection (EtcdStore ())))]"
    by (simp add: store_startFunc_def heartbeat_StartFunc_def Let_def)
  have "sint ?h = 15000000000" using ttl_exact(2) [of 30] by (simp add: max_ttl_def)
  moreover from this have "attempts_ok (sint ?h) [(0, True), (15000000000, False), (30000000000, True)]" by simp
  moreover have "sint ?ttl = 30000000000" using ttl_exact(1) [of 30] by (simp add: max_ttl_def)
  ultimately show ?thesis
    using session_kept_alive [of 30 "EtcdStore ()" ?h ?h ?ttl _ "sint ?h" 0 "[(15000000000, False), (30000000000, True)]" 59999999999, OF _ _ s]
      session_kept_alive [of 30 "EtcdStore ()" ?h ?h ?ttl _ "sint ?h" 0 "[(15000000000, False), (30000000000, True)]" 60000000000, OF _ _ s]
    by (simp add: max_ttl_def heartbeats_def)
qed

end
