(* ===== verification/Metrics.thy ===== *)
theory Metrics
  imports NetUtil Lease
begin

text \<open>
  The address of the host (\<open>common/netutil/hostip.go\<close>) and the Prometheus event handler
  (\<open>balancer/prometheus/eventhandler.go\<close>): the address it advertises, what it counts, how it
  keeps its record in etcd alive, and how it serves its counters. The resolver of host names and the Prometheus client are
  libraries: a vector of counters or summaries is a map from label values.
\<close>

section \<open>The address of the host\<close>

datatype host_ip_source =
    FromOption
  | FromEnvironment
  | FromHostname string

datatype 'err host_ip_error =
    BadHostIP string host_ip_source
  | NoHostIP 'err

definition findHostIP ::
  "string \<Rightarrow> string \<Rightarrow> string + 'err \<Rightarrow> (string \<Rightarrow> ip + 'err) \<Rightarrow> 'err host_ip_error + ip \<times> host_ip_source" where
  "findHostIP option environment hostname resolve =
     (let (source, hostIP) = (if option = [] then (FromEnvironment, environment) else (FromOption, option)) in
      if hostIP \<noteq> [] then
        (case parseIP hostIP of
           None \<Rightarrow> Inl (BadHostIP hostIP source)
         | Some a \<Rightarrow> Inr (a, source))
      else
        (case hostname of
           Inr err \<Rightarrow> Inl (NoHostIP err)
         | Inl name \<Rightarrow>
             (case resolve name of
                Inr err \<Rightarrow> Inl (NoHostIP err)
              | Inl a \<Rightarrow> Inr (a, FromHostname name))))"

section \<open>The address that is advertised\<close>

text \<open>\<open>None\<close> is an error.\<close>

definition prom_advertiseAddr ::
  "(string \<Rightarrow> string \<Rightarrow> int option) \<Rightarrow> string \<Rightarrow> string \<Rightarrow> ip \<Rightarrow> string option" where
  "prom_advertiseAddr names listenAddr advertiseAddr hostIP =
     (if advertiseAddr = [] then
        (case splitHostPort listenAddr of
           None \<Rightarrow> None
         | Some (_, port) \<Rightarrow> Some (ip_String hostIP @ '':'' @ port))
      else NormalizeHostPort names advertiseAddr ''tcp'' False)"

section \<open>Counting\<close>

record prom_handler =
  phConnections :: "string list \<Rightarrow> nat"
  phHttp :: "string list \<Rightarrow> nat"
  phRoundtrip :: "string list \<Rightarrow> int list"
  phTotal :: "string list \<Rightarrow> int list"

record prom_connection =
  pcServiceName :: string
  pcInstance :: string
  pcInbound :: ip
  pcAddr :: ipport
  pcProtocol :: string

record prom_exchange =
  peConnection :: prom_connection
  peMethod :: string
  peStatus :: int
  peRoundTrip :: int
  peTotalTime :: int

definition addr_text :: "ipport \<Rightarrow> string" where
  "addr_text a = ip_String (ipBytes a)"

definition prom_Connection :: "prom_connection \<Rightarrow> prom_handler \<Rightarrow> prom_handler" where
  "prom_Connection ev h =
     (let labels = [pcInstance ev, ip_String (pcInbound ev), addr_text (pcAddr ev), pcProtocol ev] in
      h\<lparr>phConnections := (phConnections h)(labels := Suc (phConnections h labels))\<rparr>)"

text \<open>Durations are nanoseconds; Go's division rounds towards zero.\<close>

definition microseconds :: "int \<Rightarrow> int" where
  "microseconds d = sgn d * (\<bar>d\<bar> div 1000)"

definition prom_HttpExchange :: "prom_exchange \<Rightarrow> prom_handler \<Rightarrow> prom_handler" where
  "prom_HttpExchange ev h =
     (let c = peConnection ev;
          labels = [pcInstance c, ip_String (pcInbound c), addr_text (pcAddr c), peMethod ev, itoa (peStatus ev)]
      in h\<lparr>phHttp := (phHttp h)(labels := Suc (phHttp h labels)),
           phRoundtrip := (phRoundtrip h)(labels := phRoundtrip h labels @ [microseconds (peRoundTrip ev)]),
           phTotal := (phTotal h)(labels := phTotal h labels @ [microseconds (peTotalTime ev)])\<rparr>)"

section \<open>Keeping the record alive\<close>

definition prom_TTL :: int where
  "prom_TTL = 5 * 60 * 1000000000"

text \<open>
  The rounds of the loop: when the ticker fires (or the stop signal comes), and what etcd answers.
  The result is the times of the writes that succeeded and the error that ended the loop.
\<close>

datatype 'err advertise_input =
    AdvertiseStop
  | AdvertiseTick int "'err option"

fun advertise_loop :: "'err advertise_input list \<Rightarrow> int list \<times> 'err option" where
  "advertise_loop [] = ([], None)"
| "advertise_loop (AdvertiseStop # ins) = ([], None)"
| "advertise_loop (AdvertiseTick t (Some err) # ins) = ([], Some err)"
| "advertise_loop (AdvertiseTick t None # ins) =
     (case advertise_loop ins of (writes, err) \<Rightarrow> (t # writes, err))"

definition advertise_run :: "int \<Rightarrow> 'err option \<Rightarrow> 'err advertise_input list \<Rightarrow> int list \<times> 'err option" where
  "advertise_run t created ins =
     (case created of
        Some err \<Rightarrow> ([], Some err)
      | None \<Rightarrow> (case advertise_loop ins of (writes, err) \<Rightarrow> (t # writes, err)))"

section \<open>Serving the metrics\<close>

text \<open>
  The collectors are registered with the Prometheus library, whose registry is a set of names
  that refuses a name it has, and served on a port. The error sink holds the first error posted.
\<close>

definition prom_collectors :: "string list" where
  "prom_collectors =
     [''flux_connections_total'', ''flux_http_total'', ''flux_http_roundtrip_usec'', ''flux_http_total_usec'']"

datatype 'err listen_error =
    AlreadyRegistered string
  | ListenFailed 'err
  | ServeFailed 'err
  | CloseFailed 'err

record 'err listen_state =
  lsRegistered :: "string set"
  lsListening :: bool
  lsStopped :: bool
  lsPosted :: "'err listen_error option"

definition post_error :: "'err listen_error option \<Rightarrow> 'err listen_state \<Rightarrow> 'err listen_state" where
  "post_error err st = (if lsPosted st = None then st\<lparr>lsPosted := err\<rparr> else st)"

definition prom_register :: "string \<Rightarrow> 'err listen_state \<Rightarrow> 'err listen_state" where
  "prom_register c st =
     (if c \<in> lsRegistered st then post_error (Some (AlreadyRegistered c)) st
      else st\<lparr>lsRegistered := insert c (lsRegistered st)\<rparr>)"

text \<open>\<open>listenErr\<close> is the error of \<open>net.Listen\<close>, if it fails; \<open>registered\<close> what the registry holds.\<close>

definition listen_start :: "'err option \<Rightarrow> string set \<Rightarrow> 'err listen_state" where
  "listen_start listenErr registered =
     (let st = fold prom_register prom_collectors
            \<lparr>lsRegistered = registered, lsListening = False, lsStopped = False, lsPosted = None\<rparr>;
          st1 = post_error (map_option ListenFailed listenErr) st
      in st1\<lparr>lsListening := listenErr = None\<rparr>)"

definition serve_ends :: "'err \<Rightarrow> 'err listen_state \<Rightarrow> 'err listen_state" where
  "serve_ends err st = (if lsStopped st then st else post_error (Some (ServeFailed err)) st)"

definition listen_stop :: "'err option \<Rightarrow> 'err listen_state \<Rightarrow> 'err listen_state" where
  "listen_stop closeErr st =
     (let st1 = st\<lparr>lsStopped := True\<rparr>;
          st2 = (if lsListening st1 then post_error (map_option CloseFailed closeErr) st1 else st1)
      in st2\<lparr>lsRegistered := lsRegistered st2 - set prom_collectors\<rparr>)"

lemma registered_all:
  assumes "set cs \<inter> lsRegistered st = {}" and "distinct cs"
  shows "fold prom_register cs st = st\<lparr>lsRegistered := lsRegistered st \<union> set cs\<rparr>"
  using assms by (induction cs arbitrary: st) (auto simp: prom_register_def insert_commute)

lemma distinct_collectors: "distinct prom_collectors"
  by (simp add: prom_collectors_def)

text \<open>
  After a stop the registry is as before the start, however the listener fared, so that the
  handler can be started again; and nothing is posted when nothing failed before the stop.
\<close>

theorem listener_restarts:
  fixes listenErr closeErr :: "'err option" and err :: 'err
  assumes "set prom_collectors \<inter> registered = {}"
  shows "lsRegistered (listen_stop closeErr (listen_start listenErr registered)) = registered"
    and "lsPosted (listen_start listenErr registered) = map_option ListenFailed listenErr"
    and "lsPosted (serve_ends err (listen_stop None (listen_start None registered))) = None"
    and "lsRegistered (listen_start listenErr registered) = registered \<union> set prom_collectors"
proof -
  have st: "listen_start listenErr registered
      = \<lparr>lsRegistered = registered \<union> set prom_collectors, lsListening = listenErr = None, lsStopped = False,
         lsPosted = map_option ListenFailed listenErr\<rparr>" for listenErr :: "'err option"
  proof -
    let ?st = "\<lparr>lsRegistered = registered, lsListening = False, lsStopped = False, lsPosted = None\<rparr> :: 'err listen_state"
    have "fold prom_register prom_collectors ?st = ?st\<lparr>lsRegistered := registered \<union> set prom_collectors\<rparr>"
      using registered_all [OF _ distinct_collectors, of ?st] assms by simp
    then show ?thesis unfolding listen_start_def Let_def by (simp add: post_error_def)
  qed
  show "lsRegistered (listen_start listenErr registered) = registered \<union> set prom_collectors" by (simp add: st)
  show "lsRegistered (listen_stop closeErr (listen_start listenErr registered)) = registered"
    using assms by (auto simp: st listen_stop_def post_error_def Let_def)
  show "lsPosted (listen_start listenErr registered) = map_option ListenFailed listenErr" by (simp add: st)
  show "lsPosted (serve_ends err (listen_stop None (listen_start None registered))) = None"
    by (simp add: st serve_ends_def listen_stop_def post_error_def Let_def)
qed

section \<open>The advertised address\<close>

lemma splitHostPort_port:
  assumes "splitHostPort hp = Some (host, port)"
  shows "CHR '':'' \<notin> set port \<and> CHR ''['' \<notin> set port \<and> CHR '']'' \<notin> set port"
proof -
  have "lastIndex CHR '':'' hp \<noteq> -1" using assms by (auto simp: splitHostPort_def Let_def)
  then obtain a b where hp: "hp = a @ CHR '':'' # b" "CHR '':'' \<notin> set b"
      "lastIndex CHR '':'' hp = int (length a)"
    using lastIndex_split by metis
  have "port = b \<and> (CHR ''['' \<notin> set b \<and> CHR '']'' \<notin> set b)"
  proof (cases "hd hp = CHR ''[''")
    case True
    let ?e = "length (takeWhile (\<lambda>c. c \<noteq> CHR '']'') hp)"
    from assms True hp(3) have e: "length a = ?e + 1" and port: "port = drop (?e + 2) hp"
      and no: "CHR ''['' \<notin> set (drop 1 hp)" "CHR '']'' \<notin> set (drop (?e + 1) hp)"
      by (auto simp: splitHostPort_def Let_def split: if_splits)
    have "drop (?e + 1) hp = CHR '':'' # b" using hp(1) e by simp
    moreover have "drop (?e + 2) hp = drop 1 (drop (?e + 1) hp)" by simp
    moreover have "set b \<subseteq> set (drop 1 hp)" using hp(1) e by (cases a) auto
    ultimately show ?thesis using port no by auto
  next
    case False
    then show ?thesis using assms hp by (auto simp: splitHostPort_def Let_def split: if_splits)
  qed
  then show ?thesis using hp(2) by simp
qed

lemma parseIPv4_bytes_length: "parseIPv4_bytes k s out = Some b \<Longrightarrow> length b = length out + k"
  by (induction k arbitrary: s out) (auto split: if_splits option.splits list.splits simp: Let_def)

lemma parseIPv4_length: "parseIPv4 s = Some a \<Longrightarrow> length a = 16"
  by (auto simp: parseIPv4_def dest: parseIPv4_bytes_length)

lemma parseIPv6_loop_length:
  assumes "parseIPv6_loop k s out ell = Some (rest, out', ell')"
    and "length out + 2 * k = 16" and "case ell of None \<Rightarrow> True | Some e \<Rightarrow> e \<le> length out"
  shows "length out' \<le> 16 \<and> (case ell' of None \<Rightarrow> True | Some e \<Rightarrow> e \<le> length out')"
  using assms
proof (induction k arbitrary: s out ell)
  case (Suc k)
  consider (ends) x y where "out' = out @ [x, y]" "ell' = ell \<or> ell' = Some (length out + 2)"
    | (v4) b where "out' = out @ b" "ell' = ell" "length out + 4 \<le> 16" "parseIPv4_bytes 4 s [] = Some b"
    | (more) t x y l where "parseIPv6_loop k t (out @ [x, y]) l = Some (rest, out', ell')"
        "l = ell \<or> l = Some (length out + 2)"
    using Suc.prems(1) by (auto simp: Let_def split: if_splits option.splits list.splits)
  then show ?case
  proof cases
    case ends
    then show ?thesis using Suc.prems(2,3) by (auto split: option.splits)
  next
    case v4
    then show ?thesis using Suc.prems(3) parseIPv4_bytes_length [OF v4(4)] by (auto split: option.splits)
  next
    case more
    have "case l of None \<Rightarrow> True | Some e \<Rightarrow> e \<le> length (out @ [x, y])"
      using more(2) Suc.prems(3) by (auto split: option.splits)
    then show ?thesis using Suc.IH [OF more(1)] Suc.prems(2) by simp
  qed
qed (auto split: option.splits)

lemma parseIPv6_expand_length:
  assumes "parseIPv6_expand (rest, out, ell) = Some a"
    and "length out \<le> 16 \<and> (case ell of None \<Rightarrow> True | Some e \<Rightarrow> e \<le> length out)"
  shows "length a = 16"
  using assms by (auto simp: parseIPv6_expand_def split: if_splits option.splits)

lemma parseIPv6_length: "parseIPv6 s = Some a \<Longrightarrow> length a = 16"
  by (auto simp: parseIPv6_def bind_eq_Some_conv split: if_splits
      dest!: parseIPv6_loop_length parseIPv6_expand_length)

lemma parseIP_length: "parseIP s = Some a \<Longrightarrow> length a = 16"
proof -
  have "parseIP_scan s t = Some a \<Longrightarrow> length a = 16" for t
    by (induction t) (auto split: if_splits dest: parseIPv4_length parseIPv6_length)
  then show "parseIP s = Some a \<Longrightarrow> length a = 16" by (simp add: parseIP_def)
qed

lemma ip_String_colon:
  assumes "length a = 16"
  shows "CHR '':'' \<in> set (ip_String a) \<longleftrightarrow> to4 a = None"
  using assms ipv6_string_colon [of a] ipv4_string_chars(1)
  by (cases "to4 a") (auto simp: ip_String_def)

lemma splitHostPort_unbracketed:
  assumes "CHR ''['' \<notin> set host" "CHR '']'' \<notin> set host" "CHR ''%'' \<notin> set host" "host \<noteq> []"
    and "CHR '':'' \<notin> set port" "CHR ''['' \<notin> set port" "CHR '']'' \<notin> set port"
  shows "splitHostPort (host @ CHR '':'' # port) = (if CHR '':'' \<in> set host then None else Some (host, port))"
proof -
  have "lastIndex CHR '':'' (host @ CHR '':'' # port) = int (length host)" by (rule lastIndex_sep [OF assms(5)])
  moreover have "hd (host @ CHR '':'' # port) \<noteq> CHR ''[''" using assms(1,4) by (cases host) auto
  ultimately show ?thesis using assms by (simp add: splitHostPort_def)
qed

text \<open>
  The address the metrics are advertised at by default is the host's with the port that is
  listened on. When the host's address was given by the option or the environment and is an IPv4
  address, the advertised text splits into exactly the two. When it is an IPv6 address the text
  has no brackets, and no reader that splits it into host and port succeeds.
\<close>

theorem advertised_address:
  assumes "findHostIP opt env hostname resolve = Inr (a, source)" and "opt \<noteq> [] \<or> env \<noteq> []"
    and "splitHostPort listen = Some (h, port)"
  shows "Option.bind (prom_advertiseAddr names listen [] a) splitHostPort
      = (if to4 a = None then None else Some (ip_String a, port)) \<and>
    prom_advertiseAddr names listen [] a \<noteq> None"
proof -
  have "length a = 16"
    using assms(1,2) by (auto simp: findHostIP_def Let_def split: if_splits option.splits dest: parseIP_length)
  note chars = ip_String_chars [OF this] ip_String_colon [OF this]
  note p = splitHostPort_port [OF assms(3)]
  have "splitHostPort (ip_String a @ CHR '':'' # port) = (if to4 a = None then None else Some (ip_String a, port))"
    using splitHostPort_unbracketed [of "ip_String a" port] chars p by simp
  then show ?thesis using assms(3) by (simp add: prom_advertiseAddr_def)
qed

section \<open>The record in etcd\<close>

lemma advertise_loop_ticks:
  "advertise_loop (List.map (\<lambda>t. AdvertiseTick t None) ts) = (ts, None)"
  by (induction ts) auto

text \<open>
  While etcd accepts the writes and the ticker is never later than the time to live, the
  record of the metrics address is in etcd at every moment from its creation until the time to
  live after the last write, and not longer; the ticker's period is half of that.
\<close>

theorem record_kept_alive:
  assumes "advertise_run t0 None (List.map (\<lambda>t. AdvertiseTick t None) ts :: 'err advertise_input list) = (writes, err)"
    and "writes_close prom_TTL (t0 # ts)"
  shows "err = None \<and> (record_live prom_TTL writes t \<longleftrightarrow> t0 \<le> t \<and> t < last (t0 # ts) + prom_TTL)"
proof -
  have "writes = t0 # ts" "err = None" using assms(1) by (auto simp: advertise_run_def advertise_loop_ticks)
  then show ?thesis using record_live_iff [OF assms(2)] by simp
qed

theorem record_kept_alive_witness:
  "record_live prom_TTL [0, prom_TTL div 2] 449999999999 \<and> \<not> record_live prom_TTL [0, prom_TTL div 2] 450000000000"
  using record_kept_alive [of 0 "[prom_TTL div 2]" "[0, prom_TTL div 2]" None 449999999999]
    record_kept_alive [of 0 "[prom_TTL div 2]" "[0, prom_TTL div 2]" None 450000000000]
  by (simp add: advertise_run_def prom_TTL_def)

theorem advertised_address_witness:
  "Option.bind (prom_advertiseAddr (\<lambda>_ _. None) '':9000'' [] (v4InV6Prefix @ List.map char_of [10, 0, 0, 1 :: nat]))
      splitHostPort = Some (ipv4_string (List.map char_of [10, 0, 0, 1 :: nat]), ''9000'')"
proof -
  let ?b = "List.map char_of [10, 0, 0, 1 :: nat]"
  have "parseIP (ipv4_string ?b) = Some (v4InV6Prefix @ ?b)" by (rule parseIP_ipv4_string) simp
  moreover have ne: "ipv4_string ?b \<noteq> []" by (simp add: ipv4_string_def)
  ultimately have ip: "findHostIP (ipv4_string ?b) [] (Inr ()) (\<lambda>_. Inr ()) = Inr (v4InV6Prefix @ ?b, FromOption)"
    by (simp add: findHostIP_def)
  have listen: "splitHostPort '':9000'' = Some ([], ''9000'')" by (simp add: splitHostPort_def)
  have "to4 (v4InV6Prefix @ ?b) = Some ?b" by (simp add: to4_def)
  then show ?thesis using advertised_address [OF ip disjI1 [OF ne] listen, of "\<lambda>_ _. None"]
    by (simp add: ip_String_def v4InV6Prefix_def)
qed

end
