(* ===== verification/Configure.thy ===== *)
theory Configure
  imports DepsCorrect Wiring Metrics
begin

text \<open>
  The configurations of the two daemons (\<open>cmd/fluxd/main.go\<close>, \<open>cmd/balagent/main.go\<close>): the flags
  and slots that each configuration and each dependency declares, the values of the dependencies
  (\<open>common/etcdutil\<close>, \<open>etcdstore/dep.go\<close>, \<open>common/netutil/hostip.go\<close>,
  \<open>balancer/prometheus/eventhandler.go\<close>, the template file of \<open>balancer/balagent\<close>) and the
  components they are prepared into, from the command line to the start functions.

  A slot is the field of a configuration that it points to. The type assertion of \<open>Assign\<close> is
  left to the reader of the slot: \<open>NotAssigned\<close> is a slot that is nil or holds a value of another
  type, which the last section shows never to be read.
\<close>

section \<open>The environment\<close>

text \<open>
  What a daemon finds outside: the environment variables (empty when not set), the name of the
  host and its address, the ports of services, and what the libraries return for a client of etcd,
  a client of Docker and a template file.
\<close>

record ('c, 't, 'err) environment =
  evEtcdAddress :: string
  evHostIP :: string
  evHostname :: "string + 'err"
  evResolve :: "string \<Rightarrow> ip + 'err"
  evPortNames :: "string \<Rightarrow> string \<Rightarrow> int option"
  evEtcdNew :: "string list \<Rightarrow> 'err + 'c"
  evDockerError :: "'err option"
  evParseFiles :: "string \<Rightarrow> 'err + 't"

datatype slot =
    AgentStore
  | AgentHostIP
  | BalancerStore
  | BalancerEventHandler
  | ServerSideStore
  | ServerSideEventHandler
  | ServerSideHostIP
  | BalagentTemplate
  | BalagentStore
  | StoreClient
  | HandlerClient
  | HandlerHostIP

datatype 'err start_error =
    NoEtcdAddress
  | EtcdError 'err
  | HostIPError "'err host_ip_error"
  | BadAdvertiseAddr
  | BadTemplateFile string 'err
  | PrepareError "'err prepare_error"
  | NotAssigned slot

section \<open>The client of etcd\<close>

definition NewClient :: "('c, 't, 'err) environment \<Rightarrow> string list \<Rightarrow> 'err start_error + 'c" where
  "NewClient env endpoints = map_sum EtcdError id (evEtcdNew env endpoints)"

definition NewClientFromEnv :: "('c, 't, 'err) environment \<Rightarrow> 'err start_error + 'c" where
  "NewClientFromEnv env =
     (let addr = evEtcdAddress env in
      if addr = [] then Inl NoEtcdAddress else NewClient env [addr])"

text \<open>
  The programs without dependencies: \<open>fluxctl\<close> makes its store from the environment alone, and the
  web service also asks etcd for an answer before it serves. \<open>ping\<close> is the error of the request.
\<close>

definition etcd_NewFromEnv :: "('c, 't, 'err) environment \<Rightarrow> 'err start_error + 'c etcd_store" where
  "etcd_NewFromEnv env = map_sum id EtcdStore (NewClientFromEnv env)"

datatype 'err web_exit =
    NoPrometheusAddress
  | WebStoreError "'err start_error"
  | PingError 'err

definition web_main ::
  "('c, 't, 'err) environment \<Rightarrow> string \<Rightarrow> ('c etcd_store \<Rightarrow> 'err option) \<Rightarrow> 'err web_exit + 'c etcd_store \<times> string" where
  "web_main env prom ping =
     (if prom = [] then Inl NoPrometheusAddress
      else case etcd_NewFromEnv env of
        Inl err \<Rightarrow> Inl (WebStoreError err)
      | Inr st \<Rightarrow> (case ping st of Some err \<Rightarrow> Inl (PingError err) | None \<Rightarrow> Inr (st, prom)))"

section \<open>What is declared\<close>

text \<open>The key of a template file is its slot, so that each has its own.\<close>

datatype dep_key =
    EtcdClientKey
  | StoreKey
  | HostIPKey
  | EventHandlerKey
  | TemplateFileKey slot

fun slot_Key :: "slot \<Rightarrow> dep_key" where
  "slot_Key AgentStore = StoreKey"
| "slot_Key AgentHostIP = HostIPKey"
| "slot_Key BalancerStore = StoreKey"
| "slot_Key BalancerEventHandler = EventHandlerKey"
| "slot_Key ServerSideStore = StoreKey"
| "slot_Key ServerSideEventHandler = EventHandlerKey"
| "slot_Key ServerSideHostIP = HostIPKey"
| "slot_Key BalagentTemplate = TemplateFileKey BalagentTemplate"
| "slot_Key BalagentStore = StoreKey"
| "slot_Key StoreClient = EtcdClientKey"
| "slot_Key HandlerClient = EtcdClientKey"
| "slot_Key HandlerHostIP = HostIPKey"

type_synonym decls = "(dep_key, slot) request list"

abbreviation ask :: "slot \<Rightarrow> (dep_key, slot) request" where
  "ask s \<equiv> Ask s (slot_Key s)"

definition hostip_Populate :: decls where
  "hostip_Populate = [Flag ''host-ip'' (StringFlag [])]"

definition store_Populate :: decls where
  "store_Populate = [Flag ''host-ttl'' (IntFlag 30), ask StoreClient]"

definition handler_Populate :: decls where
  "handler_Populate =
     [Flag ''listen-prometheus'' (StringFlag '':9000''), Flag ''advertise-prometheus'' (StringFlag []),
      ask HandlerClient, ask HandlerHostIP]"

definition template_Populate :: decls where
  "template_Populate = [Flag ''i'' (StringFlag ''nginx.tmpl'')]"

fun dep_Populate :: "dep_key \<Rightarrow> decls" where
  "dep_Populate EtcdClientKey = []"
| "dep_Populate StoreKey = store_Populate"
| "dep_Populate HostIPKey = hostip_Populate"
| "dep_Populate EventHandlerKey = handler_Populate"
| "dep_Populate (TemplateFileKey s) = template_Populate"

datatype config =
    AgentConf agent_preset
  | BalancerConf balancer_preset
  | ServerSideConf ss_preset
  | BalagentConf balagent_preset

definition agent_Populate :: decls where
  "agent_Populate = [Flag ''network-mode'' (StringFlag ''local''), ask AgentStore, ask AgentHostIP]"

definition balancer_Populate :: decls where
  "balancer_Populate =
     [Flag ''bridge'' (StringFlag ''docker0''), Flag ''chain'' (StringFlag ''FLUX''), Flag ''debug'' (BoolFlag False),
      ask BalancerStore, ask BalancerEventHandler]"

definition serverside_Populate :: decls where
  "serverside_Populate = [ask ServerSideStore, ask ServerSideEventHandler, ask ServerSideHostIP]"

definition balagent_Populate :: decls where
  "balagent_Populate =
     [Flag ''o'' (StringFlag ''/tmp/services''), Flag ''c'' (StringFlag []), ask BalagentTemplate, ask BalagentStore]"

fun config_Populate :: "config \<Rightarrow> decls" where
  "config_Populate (AgentConf pre) = agent_Populate"
| "config_Populate (BalancerConf pre) = balancer_Populate"
| "config_Populate (ServerSideConf pre) = serverside_Populate"
| "config_Populate (BalagentConf pre) = balagent_Populate"

section \<open>The values\<close>

text \<open>The variables that the flags set.\<close>

definition string_flag :: "flags \<Rightarrow> string \<Rightarrow> string" where
  "string_flag fs name = (case fs name of Some (StringFlag s) \<Rightarrow> s | _ \<Rightarrow> [])"

definition int_flag :: "flags \<Rightarrow> string \<Rightarrow> 64 word" where
  "int_flag fs name = (case fs name of Some (IntFlag i) \<Rightarrow> i | _ \<Rightarrow> 0)"

definition bool_flag :: "flags \<Rightarrow> string \<Rightarrow> bool" where
  "bool_flag fs name = (case fs name of Some (BoolFlag b) \<Rightarrow> b | _ \<Rightarrow> False)"

datatype ('c, 't) dep_value =
    ClientValue 'c
  | StoreValue "'c etcd_store"
  | HostIPValue ip
  | HandlerValue "'c event_handler"
  | TemplateValue 't

type_synonym ('c, 't) slots = "slot \<rightharpoonup> ('c, 't) dep_value"

definition client_in :: "('c, 't) slots \<Rightarrow> slot \<Rightarrow> 'err start_error + 'c" where
  "client_in m s = (case m s of Some (ClientValue c) \<Rightarrow> Inr c | _ \<Rightarrow> Inl (NotAssigned s))"

definition store_in :: "('c, 't) slots \<Rightarrow> slot \<Rightarrow> 'err start_error + 'c etcd_store" where
  "store_in m s = (case m s of Some (StoreValue st) \<Rightarrow> Inr st | _ \<Rightarrow> Inl (NotAssigned s))"

definition hostip_in :: "('c, 't) slots \<Rightarrow> slot \<Rightarrow> 'err start_error + ip" where
  "hostip_in m s = (case m s of Some (HostIPValue a) \<Rightarrow> Inr a | _ \<Rightarrow> Inl (NotAssigned s))"

definition handler_in :: "('c, 't) slots \<Rightarrow> slot \<Rightarrow> 'err start_error + 'c event_handler" where
  "handler_in m s = (case m s of Some (HandlerValue h) \<Rightarrow> Inr h | _ \<Rightarrow> Inl (NotAssigned s))"

definition template_in :: "('c, 't) slots \<Rightarrow> slot \<Rightarrow> 'err start_error + 't" where
  "template_in m s = (case m s of Some (TemplateValue t) \<Rightarrow> Inr t | _ \<Rightarrow> Inl (NotAssigned s))"

text \<open>The first error is the result.\<close>

definition sum_bind :: "'e + 'a \<Rightarrow> ('a \<Rightarrow> 'e + 'b) \<Rightarrow> 'e + 'b" where
  "sum_bind r f = (case r of Inl err \<Rightarrow> Inl err | Inr x \<Rightarrow> f x)"

definition client_MakeValue where
  "client_MakeValue env = map_sum id (\<lambda>client. (ClientValue client, None)) (NewClientFromEnv env)"

definition store_MakeValue where
  "store_MakeValue fs m =
     sum_bind (client_in m StoreClient) (\<lambda>client.
       let st = EtcdStore client in Inr (StoreValue st, Some (store_startFunc st (int_flag fs ''host-ttl''))))"

definition hostip_MakeValue where
  "hostip_MakeValue env fs =
     (case findHostIP (string_flag fs ''host-ip'') (evHostIP env) (evHostname env) (evResolve env) of
        Inl err \<Rightarrow> Inl (HostIPError err)
      | Inr (hostIP, source) \<Rightarrow> Inr (HostIPValue hostIP, None))"

definition handler_MakeValue where
  "handler_MakeValue env fs m =
     sum_bind (hostip_in m HandlerHostIP) (\<lambda>hostIP.
     sum_bind (client_in m HandlerClient) (\<lambda>client.
       let listenAddr = string_flag fs ''listen-prometheus'' in
       case prom_advertiseAddr (evPortNames env) listenAddr (string_flag fs ''advertise-prometheus'') hostIP of
         None \<Rightarrow> Inl BadAdvertiseAddr
       | Some advertiseAddr \<Rightarrow>
           (let h = \<lparr>ehListenAddr = listenAddr, ehAdvertiseAddr = advertiseAddr, ehEtcdClient = client, ehHostIP = hostIP\<rparr>
            in Inr (HandlerValue h, Some (prom_startFunc h)))))"

definition template_MakeValue where
  "template_MakeValue env fs =
     (case evParseFiles env (string_flag fs ''i'') of
        Inl err \<Rightarrow> Inl (BadTemplateFile (string_flag fs ''i'') err)
      | Inr tmpl \<Rightarrow> Inr (TemplateValue tmpl, None))"

fun dep_MakeValue ::
  "('c, 't, 'err) environment \<Rightarrow> flags \<Rightarrow> dep_key \<Rightarrow> ('c, 't) slots \<Rightarrow>
     'err start_error + ('c, 't) dep_value \<times> ('c, 't) start_func option" where
  "dep_MakeValue env fs EtcdClientKey m = client_MakeValue env"
| "dep_MakeValue env fs StoreKey m = store_MakeValue fs m"
| "dep_MakeValue env fs HostIPKey m = hostip_MakeValue env fs"
| "dep_MakeValue env fs EventHandlerKey m = handler_MakeValue env fs m"
| "dep_MakeValue env fs (TemplateFileKey s) m = template_MakeValue env fs"

section \<open>The components\<close>

definition agent_conf :: "flags \<Rightarrow> agent_preset \<Rightarrow> 'c etcd_store \<Rightarrow> ip \<Rightarrow> 'c agent_config" where
  "agent_conf fs pre st hostIP =
     agent_preset.extend pre \<lparr>agHostIP = hostIP, agNetwork = string_flag fs ''network-mode'', agStore = st\<rparr>"

definition balancer_conf :: "flags \<Rightarrow> balancer_preset \<Rightarrow> 'c etcd_store \<Rightarrow> 'c event_handler \<Rightarrow> 'c balancer_config" where
  "balancer_conf fs pre st h =
     balancer_preset.extend pre \<lparr>blBridge = string_flag fs ''bridge'', blChain = string_flag fs ''chain'',
       blDebug = bool_flag fs ''debug'', blStore = st, blEventHandler = h\<rparr>"

definition serverside_conf :: "ss_preset \<Rightarrow> 'c etcd_store \<Rightarrow> 'c event_handler \<Rightarrow> ip \<Rightarrow> 'c ss_conf" where
  "serverside_conf pre st h hostIP =
     ss_preset.extend pre \<lparr>sfStore = st, sfEventHandler = h, sfHostIP = hostIP\<rparr>"

definition balagent_conf :: "flags \<Rightarrow> balagent_preset \<Rightarrow> 't \<Rightarrow> 'c etcd_store \<Rightarrow> ('c, 't) balagent_config" where
  "balagent_conf fs pre tmpl st =
     balagent_preset.extend pre \<lparr>baFilename = string_flag fs ''o'', baReloadCmd = string_flag fs ''c'',
       baTemplate = tmpl, baStore = st\<rparr>"

fun config_Prepare ::
  "('c, 't, 'err) environment \<Rightarrow> flags \<Rightarrow> config \<Rightarrow> ('c, 't) slots \<Rightarrow> 'err start_error + ('c, 't) start_func" where
  "config_Prepare env fs (AgentConf pre) m =
     sum_bind (store_in m AgentStore) (\<lambda>st.
     sum_bind (hostip_in m AgentHostIP) (\<lambda>hostIP.
       map_sum PrepareError id (agent_Prepare (evDockerError env) (agent_conf fs pre st hostIP))))"
| "config_Prepare env fs (BalancerConf pre) m =
     sum_bind (store_in m BalancerStore) (\<lambda>st.
     sum_bind (handler_in m BalancerEventHandler) (\<lambda>h.
       Inr (balancer_Prepare (balancer_conf fs pre st h))))"
| "config_Prepare env fs (ServerSideConf pre) m =
     sum_bind (store_in m ServerSideStore) (\<lambda>st.
     sum_bind (handler_in m ServerSideEventHandler) (\<lambda>h.
     sum_bind (hostip_in m ServerSideHostIP) (\<lambda>hostIP.
       Inr (serverside_Prepare (serverside_conf pre st h hostIP)))))"
| "config_Prepare env fs (BalagentConf pre) m =
     sum_bind (template_in m BalagentTemplate) (\<lambda>tmpl.
     sum_bind (store_in m BalagentStore) (\<lambda>st.
       Inr (balagent_Prepare (balagent_conf fs pre tmpl st))))"

section \<open>The daemons\<close>

definition daemon_start ::
  "dep_key ordering \<Rightarrow> ('c, 't, 'err) environment \<Rightarrow> string list \<Rightarrow> config list \<Rightarrow>
     ('err start_error daemon_error + ('c, 't) start_func list) outcome option" where
  "daemon_start ord env args configs =
     configsToStartFuncs ord dep_Populate config_Populate (dep_MakeValue env) (config_Prepare env) args configs"

text \<open>\<open>Main\<close>: an error is printed and the process exits with status 1, otherwise the program runs.\<close>

datatype ('c, 't, 'err) main_result =
    ExitStatus1 "'err start_error daemon_error"
  | RunProgram "('c, 't) start_func"

definition daemon_Main ::
  "dep_key ordering \<Rightarrow> ('c, 't, 'err) environment \<Rightarrow> string list \<Rightarrow> config list \<Rightarrow> ('c, 't, 'err) main_result outcome option" where
  "daemon_Main ord env args configs =
     map_option (\<lambda>r. case r of
         Panic m \<Rightarrow> Panic m
       | Returned (Inl err) \<Rightarrow> Returned (ExitStatus1 err)
       | Returned (Inr sfs) \<Rightarrow> Returned (RunProgram (aggregate sfs)))
       (daemon_start ord env args configs)"

definition fluxd_agent :: agent_preset where
  "fluxd_agent = \<lparr>agInstanceUpdates = Some (Made ForMain InstanceUpdatesCh),
     agInstanceUpdatesReset = Some (Made ForMain InstanceUpdatesResetCh), agDockerClient = False, agReconnectInterval = 0\<rparr>"

definition fluxd_balancer :: balancer_preset where
  "fluxd_balancer = \<lparr>blReconnectInterval = 0\<rparr>"

definition fluxd_serverside :: ss_preset where
  "fluxd_serverside = \<lparr>sfInstanceUpdates = Some (Made ForMain InstanceUpdatesCh),
     sfInstanceUpdatesReset = Some (Made ForMain InstanceUpdatesResetCh),
     sfServiceUpdates = None, sfServiceUpdatesReset = None\<rparr>"

definition fluxd_configs :: "config list" where
  "fluxd_configs = [AgentConf fluxd_agent, BalancerConf fluxd_balancer, ServerSideConf fluxd_serverside]"

definition balagent_configs :: "config list" where
  "balagent_configs = [BalagentConf \<lparr>baReconnectInterval = 0\<rparr>]"

end
