(* ===== verification/ConfigureProps.thy ===== *)
theory ConfigureProps
  imports Configure
begin

text \<open>
  From the command line to the components: neither daemon declares a flag twice or has circular
  dependencies, so each ends with an error of the command line, of the environment or of a
  configuration, or with the start functions of its dependencies and components, every one with
  the store, the event handler and the address it asked for.
\<close>

section \<open>What is collected\<close>

lemmas populate_defs = agent_Populate_def balancer_Populate_def serverside_Populate_def balagent_Populate_def
  store_Populate_def hostip_Populate_def handler_Populate_def template_Populate_def

definition fluxd_flags :: flags where
  "fluxd_flags = [''network-mode'' \<mapsto> StringFlag ''local'', ''host-ttl'' \<mapsto> IntFlag 30, ''host-ip'' \<mapsto> StringFlag [],
     ''bridge'' \<mapsto> StringFlag ''docker0'', ''chain'' \<mapsto> StringFlag ''FLUX'', ''debug'' \<mapsto> BoolFlag False,
     ''listen-prometheus'' \<mapsto> StringFlag '':9000'', ''advertise-prometheus'' \<mapsto> StringFlag []]"

definition balagent_flags :: flags where
  "balagent_flags = [''o'' \<mapsto> StringFlag ''/tmp/services'', ''c'' \<mapsto> StringFlag [], ''i'' \<mapsto> StringFlag ''nginx.tmpl'',
     ''host-ttl'' \<mapsto> IntFlag 30]"

lemma fluxd_collected:
  obtains d where "Dependency dep_Populate (concat (map config_Populate fluxd_configs)) no_dependencies = Some (Returned d)"
    and "dpFlags d = fluxd_flags"
proof -
  have "\<exists>d. Dependency dep_Populate (concat (map config_Populate fluxd_configs)) no_dependencies = Some (Returned d) \<and>
      dpFlags d = fluxd_flags"
    by (simp add: fluxd_configs_def populate_defs fluxd_flags_def no_dependencies_def
        Dependency_simps(1,2) Dependency.simps [of _ "Ask _ _ # _"] declare_flag_def add_slot_def)
  then show ?thesis using that by blast
qed

lemma balagent_collected:
  obtains d where "Dependency dep_Populate (concat (map config_Populate balagent_configs)) no_dependencies = Some (Returned d)"
    and "dpFlags d = balagent_flags"
proof -
  have "\<exists>d. Dependency dep_Populate (concat (map config_Populate balagent_configs)) no_dependencies = Some (Returned d) \<and>
      dpFlags d = balagent_flags"
    by (simp add: balagent_configs_def populate_defs balagent_flags_def no_dependencies_def
        Dependency_simps(1,2) Dependency.simps [of _ "Ask _ _ # _"] declare_flag_def add_slot_def)
  then show ?thesis using that by blast
qed

section \<open>The graph\<close>

abbreviation dep_asks :: "dep_key \<Rightarrow> (slot \<times> dep_key) list" where
  "dep_asks \<equiv> asks \<circ> dep_Populate"

abbreviation config_asks :: "config \<Rightarrow> (slot \<times> dep_key) list" where
  "config_asks \<equiv> asks \<circ> config_Populate"

lemma dep_asks_Key: "(s, k) \<in> set (dep_asks w) \<Longrightarrow> k = slot_Key s"
  by (cases w) (auto simp: populate_defs)

lemma config_asks_Key: "(s, k) \<in> set (config_asks c) \<Longrightarrow> k = slot_Key s"
  by (cases c) (auto simp: populate_defs)

lemma slots_inj:
  "inj_on fst ((\<Union>c \<in> set configs. set (asks (config_Populate c))) \<union> (\<Union>k \<in> K. set (asks (dep_Populate k))))"
proof (rule inj_on_subset)
  show "inj_on fst {(s, k). k = slot_Key s}" by (auto intro: inj_onI)
  show "(\<Union>c \<in> set configs. set (asks (config_Populate c))) \<union> (\<Union>k \<in> K. set (asks (dep_Populate k)))
      \<subseteq> {(s, k). k = slot_Key s}"
    using dep_asks_Key config_asks_Key by auto
qed

text \<open>No value needs another that is as far from the client of etcd.\<close>

fun dep_rank :: "dep_key \<Rightarrow> nat" where
  "dep_rank StoreKey = 1"
| "dep_rank EventHandlerKey = 1"
| "dep_rank _ = 0"

lemma dep_acyclic: "acyclic (wants dep_asks \<inter> A)"
proof (rule acyclicI_order [where f = dep_rank])
  fix w k assume "(w, k) \<in> wants dep_asks \<inter> A"
  then show "dep_rank k < dep_rank w" by (cases w) (auto simp: wants_def populate_defs)
qed

lemma fluxd_reached:
  "reached dep_asks (concat (map config_asks fluxd_configs)) = {EtcdClientKey, StoreKey, HostIPKey, EventHandlerKey}"
proof
  show "reached dep_asks (concat (map config_asks fluxd_configs)) \<subseteq> {EtcdClientKey, StoreKey, HostIPKey, EventHandlerKey}"
    by (rule reached_least) (auto simp: fluxd_configs_def populate_defs)
  have roots: "{StoreKey, HostIPKey, EventHandlerKey} \<subseteq> reached dep_asks (concat (map config_asks fluxd_configs))"
    by (force simp: reached_def fluxd_configs_def populate_defs)
  then have "snd ` set (dep_asks StoreKey) \<subseteq> reached dep_asks (concat (map config_asks fluxd_configs))"
    using reached_closed by fast
  then show "{EtcdClientKey, StoreKey, HostIPKey, EventHandlerKey} \<subseteq> reached dep_asks (concat (map config_asks fluxd_configs))"
    using roots by (simp add: populate_defs)
qed

lemma balagent_reached:
  "reached dep_asks (concat (map config_asks balagent_configs)) = {EtcdClientKey, StoreKey, TemplateFileKey BalagentTemplate}"
proof
  show "reached dep_asks (concat (map config_asks balagent_configs)) \<subseteq> {EtcdClientKey, StoreKey, TemplateFileKey BalagentTemplate}"
    by (rule reached_least) (auto simp: balagent_configs_def populate_defs)
  have roots: "{StoreKey, TemplateFileKey BalagentTemplate} \<subseteq> reached dep_asks (concat (map config_asks balagent_configs))"
    by (force simp: reached_def balagent_configs_def populate_defs)
  then have "snd ` set (dep_asks StoreKey) \<subseteq> reached dep_asks (concat (map config_asks balagent_configs))"
    using reached_closed by fast
  then show "{EtcdClientKey, StoreKey, TemplateFileKey BalagentTemplate} \<subseteq> reached dep_asks (concat (map config_asks balagent_configs))"
    using roots by (simp add: populate_defs)
qed

section \<open>What the methods look at\<close>

lemmas slot_readers = client_in_def store_in_def hostip_in_def handler_in_def template_in_def

lemmas make_defs = client_MakeValue_def store_MakeValue_def hostip_MakeValue_def handler_MakeValue_def
  template_MakeValue_def

lemma MakeValue_looks: "looks_at (fst ` set (asks (dep_Populate k))) (dep_MakeValue env fs k)"
  unfolding looks_at_def
  by (cases k) (simp_all add: populate_defs make_defs slot_readers)

lemma Prepare_looks: "looks_at (fst ` set (asks (config_Populate c))) (config_Prepare env fs c)"
  unfolding looks_at_def
  by (cases c) (simp_all add: populate_defs slot_readers)

text \<open>So the start of a daemon is the general one, with these dependencies.\<close>

lemma daemon_started:
  fixes env :: "('c, 't, 'err) environment"
  assumes "ordering_ok ord" and "finite (reached dep_asks (concat (map config_asks configs)))"
    and d: "Dependency dep_Populate (concat (map config_Populate configs)) no_dependencies = Some (Returned d)"
  shows "case flag_parse (dpFlags d) args of
      Inl err \<Rightarrow> daemon_start ord env args configs = Some (Returned (Inl (FlagError err)))
    | Inr (fs, rest) \<Rightarrow>
        if rest \<noteq> [] then daemon_start ord env args configs = Some (Returned (Inl ExcessArguments))
        else \<exists>r. daemon_start ord env args configs = Some (Returned (map_sum Failed id r)) \<and>
          put_together dep_asks config_asks (dep_MakeValue env fs) (config_Prepare env fs) configs
            (reached dep_asks (concat (map config_asks configs))) r"
proof -
  let ?K = "reached dep_asks (concat (map config_asks configs))"
  have closed: "\<forall>k \<in> ?K. snd ` set (asks (dep_Populate k)) \<subseteq> ?K"
    using reached_closed [of _ dep_asks] by simp
  have roots: "snd ` set (asks (concat (map config_Populate configs))) \<subseteq> ?K"
    unfolding asks_concat reached_def by blast
  obtain r where r: "Dependency dep_Populate (concat (map config_Populate configs)) no_dependencies = Some r"
    "collection dep_asks (reached dep_asks (concat (map config_asks configs))) (concat (map config_asks configs)) no_dependencies r"
    using Dependency_collects [OF assms(2) closed roots, of no_dependencies] unfolding asks_concat by blast
  then have c: "collects dep_asks (asks (concat (map config_Populate configs))) no_dependencies d"
    "dom (dpDeps d) \<subseteq> reached dep_asks (concat (map config_asks configs))"
    using d by (auto simp: collection_def asks_concat no_dependencies_def)
  show ?thesis
  proof (cases "flag_parse (dpFlags d) args")
    case (Inl err)
    then show ?thesis using d by (simp add: daemon_start_def configsToStartFuncs_def)
  next
    case (Inr p)
    obtain fs rest where p: "p = (fs, rest)" by (cases p)
    obtain ks where ks: "deps_sort ord (dpDeps d) = Some (Returned ks)"
      "put_together dep_asks config_asks (dep_MakeValue env fs) (config_Prepare env fs) configs
        (reached dep_asks (concat (map config_asks configs)))
        (fill_and_prepare (dep_MakeValue env fs) (config_Prepare env fs) (dpDeps d) configs ks)"
      using wired [OF assms(1,2) slots_inj _ _ c, of "dep_MakeValue env fs" "config_Prepare env fs"]
        MakeValue_looks [of _ env fs] Prepare_looks [of _ env fs] dep_acyclic by auto
    then have "rest = [] \<Longrightarrow> daemon_start ord env args configs
        = Some (Returned (map_sum Failed id
            (fill_and_prepare (dep_MakeValue env fs) (config_Prepare env fs) (dpDeps d) configs ks)))"
      using d Inr p by (simp add: daemon_start_def configsToStartFuncs_def)
    moreover have "rest \<noteq> [] \<Longrightarrow> daemon_start ord env args configs = Some (Returned (Inl ExcessArguments))"
      using d Inr p by (simp add: daemon_start_def configsToStartFuncs_def)
    ultimately show ?thesis using ks(2) Inr p by auto
  qed
qed

section \<open>What the daemons become\<close>

lemma map_filter_start:
  assumes "distinct ks" and "\<And>k. k \<in> set ks \<Longrightarrow> f k \<noteq> None \<longleftrightarrow> k \<in> A"
  shows "\<exists>js. List.map_filter f ks = map (the \<circ> f) js \<and> distinct js \<and> set js = set ks \<inter> A"
proof (intro exI conjI)
  show "List.map_filter f ks = map (the \<circ> f) (filter (\<lambda>k. f k \<noteq> None) ks)" by (simp add: map_filter_def)
  show "distinct (filter (\<lambda>k. f k \<noteq> None) ks)" using assms(1) by simp
  show "set (filter (\<lambda>k. f k \<noteq> None) ks) = set ks \<inter> A" using assms(2) by (simp only: set_filter) blast
qed

lemma distinct_one: "distinct xs \<Longrightarrow> set xs = {p} \<Longrightarrow> xs = [p]"
  by (cases xs; cases "tl xs") auto

lemma distinct_two: "distinct xs \<Longrightarrow> set xs = {p, q} \<Longrightarrow> p \<noteq> q \<Longrightarrow> xs = [p, q] \<or> xs = [q, p]"
proof (cases xs)
  case (Cons x ys)
  assume d: "distinct xs" "set xs = {p, q}" "p \<noteq> q"
  then have ys: "distinct ys" "set ys = {p, q} - {x}" and x: "x = p \<or> x = q" using Cons by auto
  from x show ?thesis
  proof
    assume "x = p"
    then have "ys = [q]" by (intro distinct_one) (use ys d(3) in auto)
    then show ?thesis using Cons \<open>x = p\<close> by simp
  next
    assume "x = q"
    then have "ys = [p]" by (intro distinct_one) (use ys d(3) in auto)
    then show ?thesis using Cons \<open>x = q\<close> by simp
  qed
qed simp

text \<open>The values that are made from an environment, when they can be.\<close>

lemma madeD: "made P M vals K \<Longrightarrow> k \<in> K \<Longrightarrow> \<exists>f. M k (slots_view (P k) vals) = Inr (vals k, f)"
  by (simp add: made_def)

lemma made_client:
  "made dep_asks (dep_MakeValue env fs) vals K \<Longrightarrow> EtcdClientKey \<in> K \<Longrightarrow>
     \<exists>client. NewClientFromEnv env = Inr client \<and> vals EtcdClientKey = ClientValue client"
  by (drule (1) madeD) (cases "NewClientFromEnv env"; simp add: client_MakeValue_def)

lemma made_hostip:
  "made dep_asks (dep_MakeValue env fs) vals K \<Longrightarrow> HostIPKey \<in> K \<Longrightarrow>
     \<exists>hostIP source. findHostIP (string_flag fs ''host-ip'') (evHostIP env) (evHostname env) (evResolve env) = Inr (hostIP, source) \<and>
       vals HostIPKey = HostIPValue hostIP"
  by (drule (1) madeD) (simp add: hostip_MakeValue_def split: sum.splits prod.splits)

lemma made_template:
  "made dep_asks (dep_MakeValue env fs) vals K \<Longrightarrow> TemplateFileKey s \<in> K \<Longrightarrow>
     \<exists>tmpl. evParseFiles env (string_flag fs ''i'') = Inr tmpl \<and> vals (TemplateFileKey s) = TemplateValue tmpl"
  by (drule (1) madeD) (simp add: template_MakeValue_def split: sum.splits)

lemma made_store:
  assumes "made dep_asks (dep_MakeValue env fs) vals K" and "StoreKey \<in> K" and "vals EtcdClientKey = ClientValue client"
  shows "vals StoreKey = StoreValue (EtcdStore client)"
    and "start_of dep_asks (dep_MakeValue env fs) vals StoreKey
      = Some (store_startFunc (EtcdStore client) (int_flag fs ''host-ttl''))"
  using madeD [OF assms(1,2)] assms(3)
  by (simp_all add: start_of_def store_MakeValue_def store_Populate_def slots_view_def client_in_def sum_bind_def Let_def)

lemma made_handler:
  assumes "made dep_asks (dep_MakeValue env fs) vals K" and "EventHandlerKey \<in> K"
    and "vals EtcdClientKey = ClientValue client" and "vals HostIPKey = HostIPValue hostIP"
  obtains advertised where "prom_advertiseAddr (evPortNames env) (string_flag fs ''listen-prometheus'')
      (string_flag fs ''advertise-prometheus'') hostIP = Some advertised"
    and "vals EventHandlerKey = HandlerValue \<lparr>ehListenAddr = string_flag fs ''listen-prometheus'', ehAdvertiseAddr = advertised,
      ehEtcdClient = client, ehHostIP = hostIP\<rparr>"
    and "start_of dep_asks (dep_MakeValue env fs) vals EventHandlerKey
      = Some (prom_startFunc \<lparr>ehListenAddr = string_flag fs ''listen-prometheus'', ehAdvertiseAddr = advertised,
          ehEtcdClient = client, ehHostIP = hostIP\<rparr>)"
  using madeD [OF assms(1,2)] assms(3,4)
  by (simp add: start_of_def handler_MakeValue_def handler_Populate_def slots_view_def
      client_in_def hostip_in_def sum_bind_def Let_def split: option.splits)

lemma no_start:
  "start_of dep_asks (dep_MakeValue env fs) vals EtcdClientKey = None"
  "start_of dep_asks (dep_MakeValue env fs) vals HostIPKey = None"
  "start_of dep_asks (dep_MakeValue env fs) vals (TemplateFileKey s) = None"
  by (cases "NewClientFromEnv env"; simp add: start_of_def make_defs split: sum.split prod.split)+

text \<open>Why a daemon cannot be started, after its command line is parsed.\<close>

definition client_fails :: "('c, 't, 'err) environment \<Rightarrow> 'err start_error \<Rightarrow> bool" where
  "client_fails env err \<longleftrightarrow> NewClientFromEnv env = Inl err"

definition handler_fails :: "('c, 't, 'err) environment \<Rightarrow> flags \<Rightarrow> 'err start_error \<Rightarrow> bool" where
  "handler_fails env fs err \<longleftrightarrow>
     (case findHostIP (string_flag fs ''host-ip'') (evHostIP env) (evHostname env) (evResolve env) of
        Inl e \<Rightarrow> err = HostIPError e
      | Inr (hostIP, source) \<Rightarrow> err = BadAdvertiseAddr \<and>
          prom_advertiseAddr (evPortNames env) (string_flag fs ''listen-prometheus'')
            (string_flag fs ''advertise-prometheus'') hostIP = None)"

definition agent_fails :: "('c, 't, 'err) environment \<Rightarrow> flags \<Rightarrow> 'err start_error \<Rightarrow> bool" where
  "agent_fails env fs err \<longleftrightarrow>
     (if isValidNetworkMode (string_flag fs ''network-mode'')
      then \<exists>e. evDockerError env = Some e \<and> err = PrepareError (DockerError e)
      else err = PrepareError (UnknownNetworkMode (string_flag fs ''network-mode'')))"

definition template_fails :: "('c, 't, 'err) environment \<Rightarrow> flags \<Rightarrow> 'err start_error \<Rightarrow> bool" where
  "template_fails env fs err \<longleftrightarrow>
     (\<exists>e. evParseFiles env (string_flag fs ''i'') = Inl e \<and> err = BadTemplateFile (string_flag fs ''i'') e)"

lemma cannot_make_reason:
  assumes "cannot_make dep_asks (dep_MakeValue env fs) K err"
  shows "EtcdClientKey \<in> K \<and> client_fails env err \<or> {HostIPKey, EventHandlerKey} \<inter> K \<noteq> {} \<and> handler_fails env fs err \<or>
    (\<exists>s. TemplateFileKey s \<in> K) \<and> template_fails env fs err"
proof -
  obtain k vals where k: "k \<in> K" "made dep_asks (dep_MakeValue env fs) vals (snd ` set (dep_asks k))"
    "dep_MakeValue env fs k (slots_view (dep_asks k) vals) = Inl err"
    using assms unfolding cannot_make_def by blast
  show ?thesis
  proof (cases k)
    case EtcdClientKey
    then show ?thesis using k(1,3) by (cases "NewClientFromEnv env") (auto simp: client_fails_def client_MakeValue_def)
  next
    case StoreKey
    then have "\<exists>client. vals EtcdClientKey = ClientValue client"
      using made_client [OF k(2)] by (auto simp: store_Populate_def)
    then show ?thesis using k(3) StoreKey
      by (auto simp: store_MakeValue_def store_Populate_def slots_view_def client_in_def sum_bind_def Let_def)
  next
    case HostIPKey
    then show ?thesis using k(1,3) by (auto simp: handler_fails_def hostip_MakeValue_def split: sum.splits)
  next
    case EventHandlerKey
    then obtain client hostIP source where "vals EtcdClientKey = ClientValue client" "vals HostIPKey = HostIPValue hostIP"
      "findHostIP (string_flag fs ''host-ip'') (evHostIP env) (evHostname env) (evResolve env) = Inr (hostIP, source)"
      using made_client [OF k(2)] made_hostip [OF k(2)] by (auto simp: handler_Populate_def)
    then show ?thesis using k(1,3) EventHandlerKey
      by (auto simp: handler_fails_def handler_MakeValue_def handler_Populate_def slots_view_def client_in_def hostip_in_def
          sum_bind_def Let_def split: option.splits)
  next
    case (TemplateFileKey s)
    then show ?thesis using k(1,3) by (auto simp: template_fails_def template_MakeValue_def split: sum.splits)
  qed
qed

text \<open>The components of \<open>fluxd\<close>, and of the balancer agent.\<close>

definition fluxd_components ::
  "('c, 't, 'err) environment \<Rightarrow> flags \<Rightarrow> ('c, 't) start_func list \<Rightarrow> bool" where
  "fluxd_components env fs sfs \<longleftrightarrow>
     (\<exists>client hostIP source advertised agent deps.
        NewClientFromEnv env = Inr client \<and>
        findHostIP (string_flag fs ''host-ip'') (evHostIP env) (evHostname env) (evResolve env) = Inr (hostIP, source) \<and>
        prom_advertiseAddr (evPortNames env) (string_flag fs ''listen-prometheus'')
          (string_flag fs ''advertise-prometheus'') hostIP = Some advertised \<and>
        (let st = EtcdStore client;
             h = \<lparr>ehListenAddr = string_flag fs ''listen-prometheus'', ehAdvertiseAddr = advertised,
               ehEtcdClient = client, ehHostIP = hostIP\<rparr>;
             storeStart = store_startFunc st (int_flag fs ''host-ttl'')
         in agent_Prepare (evDockerError env) (agent_conf fs fluxd_agent st hostIP) = Inr agent \<and>
            deps \<in> {[storeStart, prom_startFunc h], [prom_startFunc h, storeStart]} \<and>
            sfs = deps @ [agent, balancer_Prepare (balancer_conf fs fluxd_balancer st h),
              serverside_Prepare (serverside_conf fluxd_serverside st h hostIP)]))"

definition balagent_components ::
  "('c, 't, 'err) environment \<Rightarrow> flags \<Rightarrow> ('c, 't) start_func list \<Rightarrow> bool" where
  "balagent_components env fs sfs \<longleftrightarrow>
     (\<exists>client tmpl.
        NewClientFromEnv env = Inr client \<and> evParseFiles env (string_flag fs ''i'') = Inr tmpl \<and>
        sfs = [store_startFunc (EtcdStore client) (int_flag fs ''host-ttl''),
          balagent_Prepare (balagent_conf fs \<lparr>baReconnectInterval = 0\<rparr> tmpl (EtcdStore client))])"

lemma map_sum_Inl: "map_sum f g x = Inl y \<longleftrightarrow> (\<exists>e. x = Inl e \<and> y = f e)"
  by (cases x) auto

lemma map_sum_Inr: "map_sum f g x = Inr y \<longleftrightarrow> (\<exists>z. x = Inr z \<and> y = g z)"
  by (cases x) auto

lemma fluxd_put_together:
  fixes r :: "'e start_error + ('a, 'b) start_func list"
  assumes "put_together dep_asks config_asks (dep_MakeValue env fs) (config_Prepare env fs) fluxd_configs
      {EtcdClientKey, StoreKey, HostIPKey, EventHandlerKey} r"
  shows "case r of
      Inl err \<Rightarrow> client_fails env err \<or> handler_fails env fs err \<or> agent_fails env fs err
    | Inr sfs \<Rightarrow> fluxd_components env fs sfs"
proof -
  let ?K = "{EtcdClientKey, StoreKey, HostIPKey, EventHandlerKey}"
  note prepare = store_in_def hostip_in_def handler_in_def sum_bind_def slots_view_def
    agent_Populate_def balancer_Populate_def serverside_Populate_def
  show ?thesis
  proof (cases "\<exists>err. r = Inl err \<and> cannot_make dep_asks (dep_MakeValue env fs) ?K err")
    case True
    then show ?thesis using cannot_make_reason by fastforce
  next
    case False
    then obtain vals where m: "made dep_asks (dep_MakeValue env fs) vals ?K"
      "case r of
         Inl err \<Rightarrow> \<exists>c \<in> set fluxd_configs. config_Prepare env fs c (slots_view (config_asks c) vals) = Inl err
       | Inr sfs \<Rightarrow> \<exists>ks prepared. distinct ks \<and> set ks = ?K \<and>
           sfs = List.map_filter (start_of dep_asks (dep_MakeValue env fs) vals) ks @ prepared \<and>
           list_all2 (\<lambda>c f. config_Prepare env fs c (slots_view (config_asks c) vals) = Inr f) fluxd_configs prepared"
      using assms unfolding put_together_def by (cases r) auto
    obtain client where client: "NewClientFromEnv env = Inr client" "vals EtcdClientKey = ClientValue client"
      using made_client [OF m(1)] by auto
    obtain hostIP source where hostIP: "vals HostIPKey = HostIPValue hostIP"
      "findHostIP (string_flag fs ''host-ip'') (evHostIP env) (evHostname env) (evResolve env) = Inr (hostIP, source)"
      using made_hostip [OF m(1)] by auto
    note store = made_store [OF m(1) _ client(2)]
    obtain advertised where adv: "prom_advertiseAddr (evPortNames env) (string_flag fs ''listen-prometheus'')
        (string_flag fs ''advertise-prometheus'') hostIP = Some advertised"
      "vals EventHandlerKey = HandlerValue \<lparr>ehListenAddr = string_flag fs ''listen-prometheus'', ehAdvertiseAddr = advertised,
        ehEtcdClient = client, ehHostIP = hostIP\<rparr>"
      "start_of dep_asks (dep_MakeValue env fs) vals EventHandlerKey
        = Some (prom_startFunc \<lparr>ehListenAddr = string_flag fs ''listen-prometheus'', ehAdvertiseAddr = advertised,
            ehEtcdClient = client, ehHostIP = hostIP\<rparr>)"
      by (rule made_handler [OF m(1) _ client(2) hostIP(1)]) auto
    show ?thesis
    proof (cases r)
      case (Inl err)
      have "map_sum PrepareError id (agent_Prepare (evDockerError env) (agent_conf fs fluxd_agent (EtcdStore client) hostIP)
          :: _ + ('a, 'b) start_func) = Inl err"
        using m(2) Inl store(1) hostIP adv(2) by (auto simp: fluxd_configs_def prepare)
      then show ?thesis using Inl
        by (auto simp: map_sum_Inl agent_fails_def agent_Prepare_error agent_conf_def fluxd_agent_def agent_preset.defs)
    next
      case (Inr sfs)
      then obtain ks prepared where k: "distinct ks" "set ks = ?K"
        "sfs = List.map_filter (start_of dep_asks (dep_MakeValue env fs) vals) ks @ prepared"
        "list_all2 (\<lambda>c f. config_Prepare env fs c (slots_view (config_asks c) vals) = Inr f) fluxd_configs prepared"
        using m(2) by auto
      have starts: "start_of dep_asks (dep_MakeValue env fs) vals j \<noteq> None \<longleftrightarrow> j \<in> {StoreKey, EventHandlerKey}"
        if "j \<in> set ks" for j using that k(2) no_start [of env fs vals] store(2) adv(3) by auto
      obtain js where js: "List.map_filter (start_of dep_asks (dep_MakeValue env fs) vals) ks
          = map (the \<circ> start_of dep_asks (dep_MakeValue env fs) vals) js" "distinct js" "set js = {StoreKey, EventHandlerKey}"
        using map_filter_start [OF k(1) starts] k(2) by auto
      have "js = [StoreKey, EventHandlerKey] \<or> js = [EventHandlerKey, StoreKey]" by (rule distinct_two [OF js(2,3)]) simp
      then show ?thesis using k(3,4) js(1) Inr client hostIP store adv unfolding fluxd_components_def
        by (auto simp: fluxd_configs_def prepare list_all2_Cons1 map_sum_Inr Let_def)
    qed
  qed
qed

lemma balagent_put_together:
  fixes r :: "'e start_error + ('a, 'b) start_func list"
  assumes "put_together dep_asks config_asks (dep_MakeValue env fs) (config_Prepare env fs) balagent_configs
      {EtcdClientKey, StoreKey, TemplateFileKey BalagentTemplate} r"
  shows "case r of
      Inl err \<Rightarrow> client_fails env err \<or> template_fails env fs err
    | Inr sfs \<Rightarrow> balagent_components env fs sfs"
proof -
  let ?K = "{EtcdClientKey, StoreKey, TemplateFileKey BalagentTemplate}"
  show ?thesis
  proof (cases "\<exists>err. r = Inl err \<and> cannot_make dep_asks (dep_MakeValue env fs) ?K err")
    case True
    then show ?thesis using cannot_make_reason by fastforce
  next
    case False
    then obtain vals where m: "made dep_asks (dep_MakeValue env fs) vals ?K"
      "case r of
         Inl err \<Rightarrow> \<exists>c \<in> set balagent_configs. config_Prepare env fs c (slots_view (config_asks c) vals) = Inl err
       | Inr sfs \<Rightarrow> \<exists>ks prepared. distinct ks \<and> set ks = ?K \<and>
           sfs = List.map_filter (start_of dep_asks (dep_MakeValue env fs) vals) ks @ prepared \<and>
           list_all2 (\<lambda>c f. config_Prepare env fs c (slots_view (config_asks c) vals) = Inr f) balagent_configs prepared"
      using assms unfolding put_together_def by (cases r) auto
    obtain client where client: "NewClientFromEnv env = Inr client" "vals EtcdClientKey = ClientValue client"
      using made_client [OF m(1)] by auto
    obtain tmpl where tmpl: "evParseFiles env (string_flag fs ''i'') = Inr tmpl"
      "vals (TemplateFileKey BalagentTemplate) = TemplateValue tmpl" using made_template [OF m(1)] by auto
    note store = made_store [OF m(1) _ client(2)]
    have prepared: "config_Prepare env fs (BalagentConf pre) (slots_view (config_asks (BalagentConf pre)) vals)
        = Inr (balagent_Prepare (balagent_conf fs pre tmpl (EtcdStore client)))" for pre
      using store(1) tmpl(2)
      by (simp add: template_in_def store_in_def sum_bind_def slots_view_def balagent_Populate_def)
    show ?thesis
    proof (cases r)
      case (Inr sfs)
      then obtain ks gs where k: "distinct ks" "set ks = ?K"
        "sfs = List.map_filter (start_of dep_asks (dep_MakeValue env fs) vals) ks @ gs"
        "list_all2 (\<lambda>c f. config_Prepare env fs c (slots_view (config_asks c) vals) = Inr f) balagent_configs gs"
        using m(2) by auto
      have starts: "start_of dep_asks (dep_MakeValue env fs) vals j \<noteq> None \<longleftrightarrow> j \<in> {StoreKey}"
        if "j \<in> set ks" for j using that k(2) no_start [of env fs vals] store(2) by auto
      obtain js where js: "List.map_filter (start_of dep_asks (dep_MakeValue env fs) vals) ks
          = map (the \<circ> start_of dep_asks (dep_MakeValue env fs) vals) js" "distinct js" "set js = {StoreKey}"
        using map_filter_start [OF k(1) starts] k(2) by auto
      have "js = [StoreKey]" by (rule distinct_one [OF js(2,3)])
      then show ?thesis using k(3,4) js(1) Inr client tmpl(1) store prepared unfolding balagent_components_def
        by (simp add: balagent_configs_def list_all2_Cons1 del: config_Prepare.simps)
    qed (use m(2) prepared in \<open>simp add: balagent_configs_def del: config_Prepare.simps\<close>)
  qed
qed

lemma daemon_outcome:
  fixes env :: "('c, 't, 'err) environment"
  assumes "ordering_ok ord" and "reached dep_asks (concat (map config_asks configs)) = K" and "finite K"
    and "Dependency dep_Populate (concat (map config_Populate configs)) no_dependencies = Some (Returned d)"
    and "\<And>fs r. put_together dep_asks config_asks (dep_MakeValue env fs) (config_Prepare env fs) configs K r \<Longrightarrow> P fs r"
  shows "case flag_parse (dpFlags d) args of
      Inl err \<Rightarrow> daemon_start ord env args configs = Some (Returned (Inl (FlagError err)))
    | Inr (fs, rest) \<Rightarrow>
        if rest \<noteq> [] then daemon_start ord env args configs = Some (Returned (Inl ExcessArguments))
        else \<exists>r. daemon_start ord env args configs = Some (Returned (map_sum Failed id r)) \<and> P fs r"
  using daemon_started [OF assms(1) _ assms(4), where args = args and env = env, unfolded assms(2)] assms(3,5)
  by (auto split: sum.splits prod.splits if_splits)

lemma fluxd_started:
  assumes "ordering_ok ord"
  shows "case flag_parse fluxd_flags args of
      Inl err \<Rightarrow> daemon_start ord env args fluxd_configs = Some (Returned (Inl (FlagError err)))
    | Inr (fs, rest) \<Rightarrow>
        if rest \<noteq> [] then daemon_start ord env args fluxd_configs = Some (Returned (Inl ExcessArguments))
        else \<exists>r. daemon_start ord env args fluxd_configs = Some (Returned (map_sum Failed id r)) \<and>
          (case r of
             Inl err \<Rightarrow> client_fails env err \<or> handler_fails env fs err \<or> agent_fails env fs err
           | Inr sfs \<Rightarrow> fluxd_components env fs sfs)"
proof -
  obtain d where d: "Dependency dep_Populate (concat (map config_Populate fluxd_configs)) no_dependencies = Some (Returned d)"
    "dpFlags d = fluxd_flags" by (rule fluxd_collected)
  show ?thesis
    by (rule daemon_outcome [OF assms fluxd_reached _ d(1), unfolded d(2)]) (simp_all add: fluxd_put_together)
qed

lemma balagent_started:
  assumes "ordering_ok ord"
  shows "case flag_parse balagent_flags args of
      Inl err \<Rightarrow> daemon_start ord env args balagent_configs = Some (Returned (Inl (FlagError err)))
    | Inr (fs, rest) \<Rightarrow>
        if rest \<noteq> [] then daemon_start ord env args balagent_configs = Some (Returned (Inl ExcessArguments))
        else \<exists>r. daemon_start ord env args balagent_configs = Some (Returned (map_sum Failed id r)) \<and>
          (case r of
             Inl err \<Rightarrow> client_fails env err \<or> template_fails env fs err
           | Inr sfs \<Rightarrow> balagent_components env fs sfs)"
proof -
  obtain d where d: "Dependency dep_Populate (concat (map config_Populate balagent_configs)) no_dependencies = Some (Returned d)"
    "dpFlags d = balagent_flags" by (rule balagent_collected)
  show ?thesis
    by (rule daemon_outcome [OF assms balagent_reached _ d(1), unfolded d(2)]) (simp_all add: balagent_put_together)
qed

section \<open>The daemons from their command lines\<close>

text \<open>
  C17: Whatever its command line and environment, neither daemon panics while it is put together,
  for no flag is declared twice and no dependencies are circular. A command line that does not
  parse or has arguments left over is an error. Otherwise the daemon fails because there is no
  client of etcd, no address of the host or to advertise, no template, or because the agent's
  network mode or Docker client is wrong, and for no other reason; or it gets the start functions
  of the store (with the time to live given) and the event handler, in some order, and of its
  components, all with the same client, store, event handler and host address.
\<close>

theorem daemons_from_command_line:
  assumes "ordering_ok ord"
  shows "(case flag_parse fluxd_flags args of
      Inl err \<Rightarrow> daemon_start ord env args fluxd_configs = Some (Returned (Inl (FlagError err)))
    | Inr (fs, rest) \<Rightarrow>
        if rest \<noteq> [] then daemon_start ord env args fluxd_configs = Some (Returned (Inl ExcessArguments))
        else \<exists>r. daemon_start ord env args fluxd_configs = Some (Returned (map_sum Failed id r)) \<and>
          (case r of
             Inl err \<Rightarrow> client_fails env err \<or> handler_fails env fs err \<or> agent_fails env fs err
           | Inr sfs \<Rightarrow> fluxd_components env fs sfs)) \<and>
    (case flag_parse balagent_flags args of
      Inl err \<Rightarrow> daemon_start ord env args balagent_configs = Some (Returned (Inl (FlagError err)))
    | Inr (fs, rest) \<Rightarrow>
        if rest \<noteq> [] then daemon_start ord env args balagent_configs = Some (Returned (Inl ExcessArguments))
        else \<exists>r. daemon_start ord env args balagent_configs = Some (Returned (map_sum Failed id r)) \<and>
          (case r of
             Inl err \<Rightarrow> client_fails env err \<or> template_fails env fs err
           | Inr sfs \<Rightarrow> balagent_components env fs sfs))"
  by (intro conjI fluxd_started [OF assms] balagent_started [OF assms])

text \<open>Keys in an order, so that they can be visited in it.\<close>

fun slot_index :: "slot \<Rightarrow> nat" where
  "slot_index AgentStore = 0" | "slot_index AgentHostIP = 1" | "slot_index BalancerStore = 2"
| "slot_index BalancerEventHandler = 3" | "slot_index ServerSideStore = 4" | "slot_index ServerSideEventHandler = 5"
| "slot_index ServerSideHostIP = 6" | "slot_index BalagentTemplate = 7" | "slot_index BalagentStore = 8"
| "slot_index StoreClient = 9" | "slot_index HandlerClient = 10" | "slot_index HandlerHostIP = 11"

fun key_index :: "dep_key \<Rightarrow> nat" where
  "key_index EtcdClientKey = 0" | "key_index StoreKey = 1" | "key_index HostIPKey = 2"
| "key_index EventHandlerKey = 3" | "key_index (TemplateFileKey s) = 4 + slot_index s"

lemma slot_index_inj: "slot_index s = slot_index t \<Longrightarrow> s = t"
  by (cases s; cases t) simp_all

lemma key_index_inj: "key_index k = key_index l \<Longrightarrow> k = l"
  by (cases k; cases l) (auto dest: slot_index_inj)

instantiation dep_key :: linorder
begin

definition less_eq_dep_key :: "dep_key \<Rightarrow> dep_key \<Rightarrow> bool" where
  "less_eq_dep_key k l \<longleftrightarrow> key_index k \<le> key_index l"

definition less_dep_key :: "dep_key \<Rightarrow> dep_key \<Rightarrow> bool" where
  "less_dep_key k l \<longleftrightarrow> key_index k < key_index l"

instance
  by standard (auto simp: less_eq_dep_key_def less_dep_key_def intro: key_index_inj)

end

text \<open>An environment in which everything works.\<close>

definition demo_host :: ip where
  "demo_host = v4InV6Prefix @ map char_of [10, 0, 0, 1 :: nat]"

definition demo_env :: "(string list, string, string) environment" where
  "demo_env = \<lparr>evEtcdAddress = ''http://etcd:4001'', evHostIP = [], evHostname = Inl ''host'',
     evResolve = (\<lambda>_. Inl demo_host), evPortNames = (\<lambda>_ _. None), evEtcdNew = Inr, evDockerError = None,
     evParseFiles = (\<lambda>_. Inr ''template'')\<rparr>"

lemma demo_env_parts:
  "NewClientFromEnv demo_env = Inr [''http://etcd:4001'']"
  "agent_fails demo_env fs err \<longleftrightarrow> \<not> isValidNetworkMode (string_flag fs ''network-mode'') \<and>
     err = PrepareError (UnknownNetworkMode (string_flag fs ''network-mode''))"
  "template_fails demo_env fs err \<longleftrightarrow> False" "client_fails demo_env err \<longleftrightarrow> False"
  by (simp_all add: demo_env_def NewClientFromEnv_def NewClient_def agent_fails_def template_fails_def client_fails_def)

lemma demo_itoa: "itoa 60 = ''60''"
  by code_simp

lemma demo_parse:
  "flag_parse fluxd_flags [''-host-ttl=60''] = Inr (fluxd_flags(''host-ttl'' \<mapsto> IntFlag 60), [])"
proof -
  have "fluxd_flags ''host-ttl'' = Some (IntFlag 30)" by (simp add: fluxd_flags_def)
  then show ?thesis using flag_parse_int [where fs = fluxd_flags and name = "''host-ttl''" and i = 60 and args = "[]"]
    by (simp add: demo_itoa flag_parse.simps [of _ "[]"] parseOne_def)
qed

theorem daemons_from_command_line_witness:
  "\<exists>r. daemon_start sorted_ordering demo_env [''-host-ttl=60''] fluxd_configs = Some (Returned (map_sum Failed id r)) \<and>
     (\<forall>sfs. r = Inr sfs \<longrightarrow> store_startFunc (EtcdStore [''http://etcd:4001'']) 60 \<in> set sfs)"
proof -
  let ?fs = "fluxd_flags(''host-ttl'' \<mapsto> IntFlag 60)"
  obtain r where r: "daemon_start sorted_ordering demo_env [''-host-ttl=60''] fluxd_configs = Some (Returned (map_sum Failed id r))"
    "case r of
       Inl err \<Rightarrow> client_fails demo_env err \<or> handler_fails demo_env ?fs err \<or> agent_fails demo_env ?fs err
     | Inr sfs \<Rightarrow> fluxd_components demo_env ?fs sfs"
    using daemons_from_command_line [OF sorted_ordering_ok, where args = "[''-host-ttl=60'']" and env = demo_env,
      THEN conjunct1, unfolded demo_parse] by (simp only: sum.case prod.case simp_thms if_False) blast
  then show ?thesis
    by (intro exI [of _ r]) (auto simp: fluxd_components_def demo_env_parts int_flag_def Let_def)
qed

lemma outcome_runs:
  assumes "case parsed of
      Inl err \<Rightarrow> D = Some (Returned (Inl (FlagError err)))
    | Inr (fs, rest) \<Rightarrow>
        if rest \<noteq> [] then D = Some (Returned (Inl ExcessArguments))
        else \<exists>r. D = Some (Returned (map_sum Failed id r)) \<and> (case r of Inl err \<Rightarrow> F fs err | Inr sfs \<Rightarrow> C fs sfs)"
    and "D = Some (Returned (Inr sfs))"
  shows "\<exists>fs. C fs sfs"
proof (cases parsed)
  case (Inr p)
  obtain fs rest where p: "p = (fs, rest)" by (cases p)
  then have "rest = []" using assms Inr by (auto split: if_splits)
  then obtain r where r: "map_sum Failed id r = Inr sfs" "case r of Inl err \<Rightarrow> F fs err | Inr sfs \<Rightarrow> C fs sfs"
    using assms Inr p by auto
  then show ?thesis by (cases r) auto
qed (use assms in simp)

lemma daemon_Main_runs:
  assumes "daemon_Main ord env args configs = Some (Returned (RunProgram p))"
  shows "\<exists>sfs. daemon_start ord env args configs = Some (Returned (Inr sfs)) \<and> p = aggregate sfs"
proof (cases "daemon_start ord env args configs")
  case (Some x)
  show ?thesis
  proof (cases x)
    case (Returned y)
    then show ?thesis using assms Some by (cases y) (simp_all add: daemon_Main_def)
  qed (use assms Some in \<open>simp add: daemon_Main_def\<close>)
qed (use assms in \<open>simp add: daemon_Main_def\<close>)

text \<open>
  C21: Both daemons are put together right, whatever their command line and environment: in the
  program that runs each channel has exactly one reader and someone who writes to it, so that no
  update is lost to a second reader and none blocks for ever, and the listener and the watches are
  restarted by whoever reads their updates.
\<close>

theorem daemons_well_wired:
  assumes "ordering_ok ord" and "configs \<in> {fluxd_configs, balagent_configs}"
    and "daemon_Main ord env args configs = Some (Returned (RunProgram p))"
  shows "well_wired p"
proof -
  obtain sfs where sfs: "daemon_start ord env args configs = Some (Returned (Inr sfs))" "p = aggregate sfs"
    using assms(3) daemon_Main_runs by blast
  consider "configs = fluxd_configs" | "configs = balagent_configs" using assms(2) by blast
  then show ?thesis
  proof cases
    case 1
    then obtain fs where "fluxd_components env fs sfs"
      using outcome_runs [OF fluxd_started [OF assms(1), where args = args and env = env]] sfs(1) by auto
    then obtain client hostIP agent deps where
      "agent_Prepare (evDockerError env) (agent_conf fs fluxd_agent (EtcdStore client) hostIP) = Inr agent"
      "\<exists>h. set deps = {store_startFunc (EtcdStore client) (int_flag fs ''host-ttl''), prom_startFunc h} \<and>
        sfs = deps @ [agent, balancer_Prepare (balancer_conf fs fluxd_balancer (EtcdStore client) h),
          serverside_Prepare (serverside_conf fluxd_serverside (EtcdStore client) h hostIP)]"
      unfolding fluxd_components_def Let_def by fastforce
    then obtain h where c: "agent_Prepare (evDockerError env) (agent_conf fs fluxd_agent (EtcdStore client) hostIP) = Inr agent"
      "\<forall>f \<in> set deps. unconnected f"
      "sfs = deps @ [agent, balancer_Prepare (balancer_conf fs fluxd_balancer (EtcdStore client) h),
        serverside_Prepare (serverside_conf fluxd_serverside (EtcdStore client) h hostIP)]"
      by (auto simp: dependencies_unconnected)
    show ?thesis unfolding sfs(2) c(3)
      by (rule well_wired_deps [OF c(2) fluxd_wired [OF c(1)]])
        (simp_all add: agent_conf_def serverside_conf_def fluxd_agent_def fluxd_serverside_def agent_preset.defs ss_preset.defs)
  next
    case 2
    then obtain fs where "balagent_components env fs sfs"
      using outcome_runs [OF balagent_started [OF assms(1), where args = args and env = env]] sfs(1) by auto
    then obtain deps cf where "sfs = deps @ [balagent_Prepare cf]" "\<forall>f \<in> set deps. unconnected f"
      unfolding balagent_components_def by (auto simp: dependencies_unconnected intro: that [of "[_]"])
    then show ?thesis using well_wired_deps [OF _ balagent_wired] sfs(2) by simp
  qed
qed

lemma demo_port: "splitHostPort '':9000'' = Some ([], ''9000'')"
  by code_simp

lemma demo_advertise: "\<exists>a. prom_advertiseAddr names '':9000'' [] hostIP = Some a"
  by (simp add: prom_advertiseAddr_def demo_port)

theorem daemons_well_wired_witness:
  "\<exists>p. daemon_Main sorted_ordering demo_env [] fluxd_configs = Some (Returned (RunProgram p)) \<and> well_wired p"
proof -
  have parse: "flag_parse fluxd_flags [] = Inr (fluxd_flags, [])" by (simp add: flag_parse.simps parseOne_def)
  have flags: "string_flag fluxd_flags ''network-mode'' = ''local''" "string_flag fluxd_flags ''host-ip'' = []"
    "string_flag fluxd_flags ''listen-prometheus'' = '':9000''" "string_flag fluxd_flags ''advertise-prometheus'' = []"
    by (simp_all add: string_flag_def fluxd_flags_def)
  have "\<not> agent_fails demo_env fluxd_flags err" "\<not> client_fails demo_env err" for err
    by (simp_all add: demo_env_parts flags isValidNetworkMode_def)
  moreover have "\<not> handler_fails demo_env fluxd_flags err" for err
    using demo_advertise [of "\<lambda>_ _. None" demo_host]
    unfolding handler_fails_def flags by (auto simp: demo_env_def findHostIP_def)
  moreover obtain r where r: "daemon_start sorted_ordering demo_env [] fluxd_configs = Some (Returned (map_sum Failed id r))"
    "case r of
       Inl err \<Rightarrow> client_fails demo_env err \<or> handler_fails demo_env fluxd_flags err \<or> agent_fails demo_env fluxd_flags err
     | Inr sfs \<Rightarrow> fluxd_components demo_env fluxd_flags sfs"
    using fluxd_started [OF sorted_ordering_ok, where args = "[]" and env = demo_env, unfolded parse]
    by (simp only: sum.case prod.case simp_thms if_False) blast
  ultimately obtain sfs where "r = Inr sfs" by (cases r) auto
  then have main: "daemon_Main sorted_ordering demo_env [] fluxd_configs = Some (Returned (RunProgram (aggregate sfs)))"
    using r(1) by (simp add: daemon_Main_def)
  moreover have "well_wired (aggregate sfs)" by (rule daemons_well_wired [OF sorted_ordering_ok _ main]) simp
  ultimately show ?thesis by blast
qed

end
