(* ===== verification/Fluxd.thy ===== *)
theory Fluxd
  imports AgentProps EtcdInstances ServerSideProps
begin

text \<open>
  The daemon \<open>fluxd\<close> (\<open>cmd/fluxd/main.go\<close>) runs the agent and the server-side balancer in one
  process. The instance updates of the matcher go to both the writer of the store and the
  server-side balancer, over \<open>Tee\<close> (\<open>agent/tee.go\<close>). This theory models \<open>Tee\<close> and puts the
  pieces together: from the containers and services to the instances in the store and the ingress
  instances that are announced.
\<close>

section \<open>Tee\<close>

text \<open>The types \<open>Tee\<close> looks at before it starts; \<open>None\<close> is a panic.\<close>

record go_type =
  gtChan :: bool
  gtRecv :: bool
  gtSend :: bool
  gtElem :: string

definition Tee :: "go_type \<Rightarrow> go_type list \<Rightarrow> unit option" where
  "Tee inT outTs =
     (if \<not> gtChan inT \<or> \<not> gtRecv inT then None
      else if list_ex (\<lambda>outT. \<not> gtChan outT \<or> \<not> gtSend outT \<or> gtElem outT \<noteq> gtElem inT) outTs then None
      else Some ())"

text \<open>
  The component: the values its sender has not handed over yet (the channel has no buffer) and
  whether the channel is closed after them, the value that is being sent on and the number of
  outputs that have it, and what the outputs have received.
\<close>

record 'a tee_state =
  teIn :: "'a list"
  teClosed :: bool
  teHolding :: "('a \<times> nat) option"
  teOuts :: "'a list list"
  teErrors :: nat
  teStopped :: bool

definition tee_init :: "nat \<Rightarrow> 'a list \<Rightarrow> bool \<Rightarrow> 'a tee_state" where
  "tee_init n ins closed =
     \<lparr>teIn = ins, teClosed = closed, teHolding = None, teOuts = replicate n [], teErrors = 0, teStopped = False\<rparr>"

text \<open>A receive from a closed channel gives the zero value of its type.\<close>

inductive tee_step :: "'a \<Rightarrow> 'a tee_state \<Rightarrow> 'a tee_state \<Rightarrow> bool" for zero where
  tee_receive: "\<not> teStopped t \<Longrightarrow> teHolding t = None \<Longrightarrow> teIn t = x # xs \<Longrightarrow>
    tee_step zero t (t\<lparr>teIn := xs, teHolding := Some (x, 0)\<rparr>)"
| tee_closed: "\<not> teStopped t \<Longrightarrow> teHolding t = None \<Longrightarrow> teIn t = [] \<Longrightarrow> teClosed t \<Longrightarrow>
    tee_step zero t (t\<lparr>teHolding := Some (zero, 0), teErrors := Suc (teErrors t)\<rparr>)"
| tee_stop: "\<not> teStopped t \<Longrightarrow> teHolding t = None \<Longrightarrow> tee_step zero t (t\<lparr>teStopped := True\<rparr>)"
| tee_send: "teHolding t = Some (x, i) \<Longrightarrow> i < length (teOuts t) \<Longrightarrow>
    tee_step zero t (t\<lparr>teOuts := (teOuts t)[i := teOuts t ! i @ [x]], teHolding := Some (x, Suc i)\<rparr>)"
| tee_loop: "teHolding t = Some (x, length (teOuts t)) \<Longrightarrow> tee_step zero t (t\<lparr>teHolding := None\<rparr>)"

inductive_cases tee_stepE: "tee_step zero t u"

inductive tee_reach :: "'a \<Rightarrow> nat \<Rightarrow> 'a list \<Rightarrow> bool \<Rightarrow> 'a tee_state \<Rightarrow> bool" for zero n ins closed where
  tee_start: "tee_reach zero n ins closed (tee_init n ins closed)"
| tee_next: "tee_reach zero n ins closed t \<Longrightarrow> tee_step zero t u \<Longrightarrow> tee_reach zero n ins closed u"

text \<open>
  Every output has received what has been taken from the input; the value being sent on is the
  last of it, and only the outputs before the current one have it.
\<close>

definition tee_inv :: "nat \<Rightarrow> 'a list \<Rightarrow> 'a tee_state \<Rightarrow> bool" where
  "tee_inv n ins t \<longleftrightarrow> length (teOuts t) = n \<and> \<not> teClosed t \<and> teErrors t = 0 \<and>
     (\<exists>taken. ins = taken @ (case teHolding t of None \<Rightarrow> [] | Some (x, i) \<Rightarrow> [x]) @ teIn t \<and>
        (\<forall>j < n. teOuts t ! j = taken @ (case teHolding t of None \<Rightarrow> [] | Some (x, i) \<Rightarrow> if j < i then [x] else [])) \<and>
        (\<forall>x i. teHolding t = Some (x, i) \<longrightarrow> i \<le> n))"

lemma tee_step_inv:
  assumes "tee_step zero t u" and "tee_inv n ins t"
  shows "tee_inv n ins u"
  using assms(1)
proof (cases rule: tee_step.cases)
  case (tee_send x i)
  then show ?thesis using assms(2) by (auto simp: tee_inv_def nth_list_update less_Suc_eq)
qed (use assms(2) in \<open>auto simp: tee_inv_def\<close>)

lemma tee_reach_inv: "tee_reach zero n ins False t \<Longrightarrow> tee_inv n ins t"
proof (induction rule: tee_reach.induct)
  case tee_start
  then show ?case by (simp add: tee_inv_def tee_init_def)
qed (rule tee_step_inv)

text \<open>When the input is used up and nothing is held, each output has all of it, in order.\<close>

lemma tee_delivers:
  assumes "tee_reach zero n ins False t" and "teIn t = []" and "teHolding t = None" and "j < n"
  shows "teOuts t ! j = ins"
  using tee_reach_inv [OF assms(1)] assms(2-4) by (auto simp: tee_inv_def)

text \<open>Until then an output is at most the value being sent behind another.\<close>

lemma tee_prefix:
  assumes "tee_reach zero n ins False t" and "j < n" and "k < n"
  shows "\<exists>rest. ins = teOuts t ! j @ rest" and "length (teOuts t ! j) \<le> Suc (length (teOuts t ! k))"
  using tee_reach_inv [OF assms(1)] assms(2,3) by (auto simp: tee_inv_def split: option.splits)

lemma tee_reach_steps:
  assumes "(tee_step zero)\<^sup>*\<^sup>* t u" and "tee_reach zero n ins closed t"
  shows "tee_reach zero n ins closed u"
  using assms by (induction rule: rtranclp_induct) (auto intro: tee_next)

lemma tee_send_all:
  assumes "teHolding t = Some (x, i)" and "i \<le> n" and "length (teOuts t) = n"
  shows "\<exists>u. (tee_step zero)\<^sup>*\<^sup>* t u \<and> teHolding u = None \<and>
      teOuts u = take i (teOuts t) @ map (\<lambda>l. l @ [x]) (drop i (teOuts t)) \<and> teIn u = teIn t \<and>
      teClosed u = teClosed t \<and> teErrors u = teErrors t \<and> teStopped u = teStopped t"
  using assms
proof (induction "n - i" arbitrary: i t)
  case 0
  then have "teHolding t = Some (x, length (teOuts t))" by simp
  then have "tee_step zero t (t\<lparr>teHolding := None\<rparr>)" by (rule tee_loop)
  then show ?case using 0 by (intro exI [of _ "t\<lparr>teHolding := None\<rparr>"]) auto
next
  case (Suc d)
  let ?t = "t\<lparr>teOuts := (teOuts t)[i := teOuts t ! i @ [x]], teHolding := Some (x, Suc i)\<rparr>"
  have i: "i < length (teOuts t)" using Suc.hyps(2) Suc.prems(3) by simp
  have step: "tee_step zero t ?t" by (rule tee_send [OF Suc.prems(1) i])
  have "d = n - Suc i" "teHolding ?t = Some (x, Suc i)" "Suc i \<le> n" "length (teOuts ?t) = n"
    using Suc.hyps(2) Suc.prems by simp_all
  from Suc.hyps(1) [OF this] obtain u where "(tee_step zero)\<^sup>*\<^sup>* ?t u" "teHolding u = None"
    "teOuts u = take (Suc i) (teOuts ?t) @ map (\<lambda>l. l @ [x]) (drop (Suc i) (teOuts ?t))" "teIn u = teIn t"
    "teClosed u = teClosed t" "teErrors u = teErrors t" "teStopped u = teStopped t" by auto
  moreover have "take (Suc i) (teOuts ?t) @ map (\<lambda>l. l @ [x]) (drop (Suc i) (teOuts ?t))
      = take i (teOuts t) @ map (\<lambda>l. l @ [x]) (drop i (teOuts t))"
    using i by (simp add: take_Suc_conv_app_nth Cons_nth_drop_Suc [symmetric])
  ultimately show ?case using step by (metis converse_rtranclp_into_rtranclp)
qed

text \<open>Whatever is sent can be delivered to every output.\<close>

lemma tee_can_deliver: "\<exists>t. tee_reach zero n ins False t \<and> teIn t = [] \<and> teHolding t = None"
proof -
  have "\<exists>t. tee_reach zero n (done' @ rest) False t \<and> teIn t = rest \<and> teHolding t = None \<and>
      \<not> teStopped t \<and> length (teOuts t) = n" for done' rest
  proof (induction done' arbitrary: rest rule: rev_induct)
    case Nil
    show ?case by (intro exI [of _ "tee_init n rest False"]) (simp add: tee_init_def tee_start [unfolded tee_init_def])
  next
    case (snoc x done')
    then obtain t where t: "tee_reach zero n (done' @ x # rest) False t" "teIn t = x # rest" "teHolding t = None"
      "\<not> teStopped t" "length (teOuts t) = n" by blast
    let ?t = "t\<lparr>teIn := rest, teHolding := Some (x, 0)\<rparr>"
    have step: "tee_step zero t ?t" by (rule tee_receive [OF t(4,3,2)])
    have "teHolding ?t = Some (x, 0)" "0 \<le> n" "length (teOuts ?t) = n" using t(5) by simp_all
    from tee_send_all [OF this, of zero] obtain u where "(tee_step zero)\<^sup>*\<^sup>* ?t u" "teHolding u = None"
      "length (teOuts u) = n" "teIn u = rest" "\<not> teStopped u" using t(4,5) by auto
    then show ?case using tee_reach_steps [OF _ tee_next [OF t(1) step]] by auto
  qed
  from this [of ins "[]"] show ?thesis by auto
qed

text \<open>
  When the input channel is closed the error that is posted does not end the loop: zero values are
  sent on for ever, to every output.
\<close>

theorem tee_closed_floods:
  "\<exists>t. tee_reach zero n [] True t \<and> teErrors t = m \<and> teOuts t = replicate n (replicate m zero)"
proof -
  have "\<exists>t. tee_reach zero n [] True t \<and> teErrors t = m \<and> teOuts t = replicate n (replicate m zero) \<and>
      teHolding t = None \<and> teIn t = [] \<and> teClosed t \<and> \<not> teStopped t"
  proof (induction m)
    case 0
    then show ?case by (intro exI [of _ "tee_init n [] True"] conjI tee_start) (simp_all add: tee_init_def)
  next
    case (Suc m)
    then obtain t where t: "tee_reach zero n [] True t" "teErrors t = m" "teOuts t = replicate n (replicate m zero)"
      "teHolding t = None" "teIn t = []" "teClosed t" "\<not> teStopped t" by blast
    let ?t = "t\<lparr>teHolding := Some (zero, 0), teErrors := Suc (teErrors t)\<rparr>"
    have step: "tee_step zero t ?t" by (rule tee_closed [OF t(7,4,5,6)])
    have "teHolding ?t = Some (zero, 0)" "0 \<le> n" "length (teOuts ?t) = n" using t(3) by simp_all
    from tee_send_all [OF this, of zero] obtain u where u: "(tee_step zero)\<^sup>*\<^sup>* ?t u" "teHolding u = None"
      "teOuts u = map (\<lambda>l. l @ [zero]) (teOuts t)" "teIn u = []" "teClosed u" "teErrors u = Suc m" "\<not> teStopped u"
      using t by auto
    then show ?case using tee_reach_steps [OF u(1) tee_next [OF t(1) step]] t(3)
      by (intro exI [of _ u]) (simp add: replicate_append_same [symmetric])
  qed
  then show ?thesis by blast
qed

section \<open>The instances as the server-side balancer sees them\<close>

text \<open>The instance updates among the events of the server-side balancer, and the service updates.\<close>

fun instance_updates :: "ss_event list \<Rightarrow> instance_update list" where
  "instance_updates [] = []"
| "instance_updates (InstancesChanged u # evs) = u # instance_updates evs"
| "instance_updates (ServicesChanged u # evs) = instance_updates evs"

fun service_updates :: "ss_event list \<Rightarrow> service_update list" where
  "service_updates [] = []"
| "service_updates (InstancesChanged u # evs) = service_updates evs"
| "service_updates (ServicesChanged u # evs) = u # service_updates evs"

lemma fold_spec_event:
  "fold spec_event evs x = (fold spec_services (service_updates evs) (fst x), fold spec_instances (instance_updates evs) (snd x))"
  by (induction evs arbitrary: x rule: instance_updates.induct) (simp_all add: spec_event_def)

lemma in_instance_updates: "InstancesChanged u \<in> set evs \<Longrightarrow> u \<in> set (instance_updates evs)"
  by (induction evs rule: instance_updates.induct) auto

lemma in_service_updates: "ServicesChanged u \<in> set evs \<Longrightarrow> u \<in> set (service_updates evs)"
  by (induction evs rule: service_updates.induct) auto

text \<open>When every instance has an address, the two consumers of an update read the same out of it.\<close>

definition addressed :: "instance_update \<Rightarrow> bool" where
  "addressed u \<longleftrightarrow> (\<forall>k i. iuInstances u k = Some (Some i) \<longrightarrow> instAddress i \<noteq> None)"

definition addr_view :: "(instance_key \<rightharpoonup> inst) \<Rightarrow> string \<Rightarrow> string \<rightharpoonup> ipport" where
  "addr_view v n c = Option.bind (v (n, c)) instAddress"

lemma spec_instances_addressed:
  assumes "addressed u"
  shows "spec_instances u (addr_view v) = addr_view (apply_update v u)"
proof (intro ext)
  fix n c
  show "spec_instances u (addr_view v) n c = addr_view (apply_update v u) n c"
  proof (cases "iuInstances u (n, c)")
    case (Some x)
    have "\<exists>a. instAddress i = Some a" if "x = Some i" for i
      using assms Some that by (auto simp: addressed_def)
    then show ?thesis using Some
      by (cases x) (auto simp: spec_instances_def addr_view_def apply_update_def split: option.split)
  qed (simp add: spec_instances_def addr_view_def apply_update_def)
qed

lemma fold_spec_instances:
  "\<forall>u \<in> set us. addressed u \<Longrightarrow> fold spec_instances us (addr_view v) = addr_view (foldl apply_update v us)"
  by (induction us arbitrary: v) (simp_all add: spec_instances_addressed)

lemma foldl_addressed:
  assumes "\<forall>u \<in> set us. addressed u" and "\<forall>k i. v k = Some i \<longrightarrow> instAddress i \<noteq> None"
  shows "\<forall>k i. foldl apply_update v us k = Some i \<longrightarrow> instAddress i \<noteq> None"
  using assms
proof (induction us arbitrary: v)
  case (Cons u us)
  have "\<forall>k i. apply_update v u k = Some i \<longrightarrow> instAddress i \<noteq> None"
    using Cons.prems by (auto simp: apply_update_def addressed_def split: option.splits if_splits)
  then show ?case using Cons by simp
qed simp

section \<open>From containers to the store and the ingress\<close>

lemma agent_server_side:
  assumes "run_ok evs" and "sync_run evs (sync_start hostIP network) = Some (st, outs)"
    and "siServices st \<noteq> None" and "siContainers st \<noteq> None" and "\<forall>(ord, ev) \<in> set evs. event_ids_ok ev"
    and "\<forall>u \<in> set outs. addressed u"
    and "instance_updates (map snd sevs) = outs" and "\<forall>u \<in> set (service_updates (map snd sevs)). finite (dom (suServices u))"
    and "ordering_ok ord" and "ordering_ok kord" and "\<forall>(env, ev) \<in> set sevs. listens env"
  defines "S \<equiv> fold spec_services (service_updates (map snd sevs)) (\<lambda>_. None)"
  shows "\<exists>sst. ss_run ord kord hostIP sevs ss_start = Some sst \<and>
    (\<forall>n a w. replay_calls (svCalls sst) (n, a) = Some w \<longrightarrow>
       S n \<noteq> None \<and> w = int (card {c. inst_view st (n, c) \<noteq> None}) \<and> w \<noteq> 0) \<and>
    (\<forall>n. S n \<noteq> None \<and> {c. inst_view st (n, c) \<noteq> None} \<noteq> {} \<longrightarrow> (\<exists>a. replay_calls (svCalls sst) (n, a) \<noteq> None))"
proof -
  have ev: "ss_event_ok ev \<and> (True \<longrightarrow> listens env)" if "(env, ev) \<in> set sevs" for env ev
  proof -
    have mem: "ev \<in> set (map snd sevs)" using that by force
    have "ss_event_ok ev"
    proof (cases ev)
      case (ServicesChanged u)
      then show ?thesis using assms(8) in_service_updates mem by (auto simp: ss_event_ok_def)
    next
      case (InstancesChanged u)
      then have u: "u \<in> set outs" using in_instance_updates mem assms(7) by metis
      have "iuReset u \<Longrightarrow> no_nil u" by (rule sync_run_reset [OF assms(2) sync_start_inv(1) assms(1,5) u])
      then show ?thesis using sync_run_small [OF assms(2) u] InstancesChanged
        by (auto simp: ss_event_ok_def no_nil_def)
    qed
    then show ?thesis using that assms(11) by auto
  qed
  then have evs: "\<forall>(env, ev) \<in> set sevs. ss_event_ok ev \<and> (True \<longrightarrow> listens env)" by blast
  from ss_run_ok [OF assms(9,10) ss_start_good evs, of hostIP] obtain sst where
    sst: "ss_run ord kord hostIP sevs ss_start = Some sst" "ss_good True hostIP sst"
    "ss_inputs sst = fold spec_event (map snd sevs) (\<lambda>_. None, \<lambda>_. Map.empty)"
    unfolding ss_start_inputs by blast
  have fin: "foldl apply_update Map.empty outs = inst_view st"
    using run_inv [OF assms(2,1)] assms(3,4) by (simp add: synced_def)
  have "addr_view Map.empty = (\<lambda>_. Map.empty)" by (simp add: addr_view_def fun_eq_iff)
  then have inputs: "ss_inputs sst = (S, addr_view (inst_view st))"
    using fold_spec_instances [OF assms(6), of Map.empty] fin
    by (simp add: sst(3) fold_spec_event S_def assms(7))
  have "\<forall>k i. inst_view st k = Some i \<longrightarrow> instAddress i \<noteq> None"
    using foldl_addressed [OF assms(6), of Map.empty] fin by simp
  then have dom: "dom (addr_view (inst_view st) n) = {c. inst_view st (n, c) \<noteq> None}" for n
    by (auto simp: addr_view_def bind_eq_Some_conv)
  have view: "ss_view sst n = (S n, addr_view (inst_view st) n)" for n
    using inputs by (simp add: ss_inputs_def prod_eq_iff fun_eq_iff)
  note ann = ss_good_announces [OF sst(2), unfolded view fst_conv snd_conv dom]
  have ne: "addr_view (inst_view st) n \<noteq> Map.empty \<longleftrightarrow> {c. inst_view st (n, c) \<noteq> None} \<noteq> {}" for n
    using dom [of n] dom_eq_empty_conv by metis
  have finite: "finite {c. inst_view st (n, c) \<noteq> None}" if r: "replay_calls (svCalls sst) (n, a) = Some w" for n a w
  proof -
    obtain svc where "svServices sst n = Some svc" "dom (ssInstances svc) = {c. inst_view st (n, c) \<noteq> None}"
      using ann(1) [OF r] view [of n] dom [of n] by (auto simp: ss_view_def split: option.splits)
    moreover from this have "finite (dom (ssInstances svc))"
      using sst(2) unfolding ss_good_def ss_inv_def ss_entry_ok_def by blast
    ultimately show ?thesis by simp
  qed
  have 1: "S n \<noteq> None \<and> w = int (card {c. inst_view st (n, c) \<noteq> None}) \<and> w \<noteq> 0"
    if "replay_calls (svCalls sst) (n, a) = Some w" for n a w
    using ann(1) [OF that] finite [OF that] unfolding ne by (metis card_0_eq of_nat_eq_0_iff)
  have 2: "\<exists>a. replay_calls (svCalls sst) (n, a) \<noteq> None" if "S n \<noteq> None" "{c. inst_view st (n, c) \<noteq> None} \<noteq> {}" for n
    by (rule ann(2) [OF TrueI that(1)]) (use that(2) ne in blast)
  show ?thesis using sst(1) 1 2 by blast
qed

text \<open>
  C1: The daemon end to end, over every etcd that keeps its contract. Once the matcher knows the
  services and the containers and \<open>Tee\<close> has delivered its updates, the instances of this host that
  queries of the etcd store show are exactly the containers that the rules of the services select,
  and the server-side balancer announces an ingress instance for exactly the services that are
  defined and have such an instance, weighted by their number. (Every instance has an address, the
  services are in the store, the session of the host is live, the names are names etcd lists, JSON
  keeps the instances, no other host uses the same keys, and the listening sockets can be opened.)
\<close>

theorem fluxd_end_to_end:
  assumes "run_ok evs" and "sync_run evs (sync_start hostIP network) = Some (st, outs)"
    and "siServices st \<noteq> None" and "siContainers st \<noteq> None" and "\<forall>(ord, ev) \<in> set evs. event_ids_ok ev"
    and "\<forall>u \<in> set outs. addressed u"
    and "tee_reach empty_update 2 outs False t" and "teIn t = []" and "teHolding t = None"
    and "map (\<lambda>x. snd (snd x)) us = teOuts t ! 0" and "\<forall>(ord, kord, u) \<in> set us. ordering_ok ord \<and> ordering_ok kord"
    and "etcd_contract client tree" and "ordering_ok gord" and "etcd_instances_ok cd names sess (tree e)"
    and "\<forall>u \<in> set outs. \<forall>k i. iuInstances u k = Some (Some i) \<longrightarrow>
      abs_services cd names (tree e) (fst k) \<noteq> None \<and> encodes (encInstance cd) (decInstance cd) (i, sess)"
    and "\<forall>u \<in> set outs. \<forall>k \<in> dom (iuInstances u).
      listed_key k \<and> etcd_view cd names (tree e) k = published hostIP (etcd_view cd names (tree e)) k"
    and "instance_updates (map snd sevs) = teOuts t ! 1"
    and "\<forall>u \<in> set (service_updates (map snd sevs)). finite (dom (suServices u))"
    and "ordering_ok ord" and "ordering_ok kord" and "\<forall>(env, ev) \<in> set sevs. listens env"
  defines "S \<equiv> fold spec_services (service_updates (map snd sevs)) (\<lambda>_. None)"
  shows "\<exists>errs e' sst. set_instances (etcd_instance_ops gord cd names client sess) hostIP us ([], e) = Some (errs, e') \<and>
    ss_run ord kord hostIP sevs ss_start = Some sst \<and>
    (\<forall>n c. published hostIP (etcd_view cd names (tree e')) (n, c) \<noteq> None \<longleftrightarrow> selected st n c) \<and>
    (\<forall>n a w. replay_calls (svCalls sst) (n, a) = Some w \<longrightarrow>
       S n \<noteq> None \<and> w = int (card {c. selected st n c}) \<and> w \<noteq> 0) \<and>
    (\<forall>n. S n \<noteq> None \<and> (\<exists>c. selected st n c) \<longrightarrow> (\<exists>a. replay_calls (svCalls sst) (n, a) \<noteq> None))"
proof -
  have outs: "teOuts t ! 0 = outs" "teOuts t ! 1 = outs" using tee_delivers [OF assms(7-9)] by simp_all
  from instance_store.agent_publishes [OF etcd_instance_store [OF assms(12,13)] assms(1-4,10) [unfolded outs] assms(11,14-16)]
  obtain errs e' where
    e': "set_instances (etcd_instance_ops gord cd names client sess) hostIP us ([], e) = Some (errs, e')"
    "published hostIP (etcd_view cd names (tree e')) = inst_view st" by blast
  have sel: "inst_view st (n, c) \<noteq> None \<longleftrightarrow> selected st n c" for n c
    using run_inv [OF assms(2,1)] unfolding sync_inv_def candidate_def selected_def by blast
  show ?thesis
    using agent_server_side [OF assms(1-6,17) [unfolded outs] assms(18-21)] e'(1) sel
    unfolding S_def e'(2) [symmetric] by (intro exI [of _ errs] exI [of _ e']) (simp del: not_None_eq)
qed

theorem fluxd_end_to_end_witness:
  "\<exists>us errs e' sst a w. map (\<lambda>x. snd (snd x)) us = [demo_out] \<and>
    set_instances (etcd_instance_ops sorted_ordering agent_codec (\<lambda>_ _. None) tree_client ''S1'') demo_ip us ([], demo_etcd)
      = Some (errs, e') \<and>
    published demo_ip (etcd_view agent_codec (\<lambda>_ _. None) e') (''web'', ''c1'') \<noteq> None \<and>
    ss_run sorted_ordering sorted_ordering demo_ip
      [(ss_demo_env, ServicesChanged \<lparr>suServices = [''web'' \<mapsto> Some ss_demo_service], suReset = True\<rparr>),
       (ss_demo_env, InstancesChanged demo_out)] ss_start = Some sst \<and>
    replay_calls (svCalls sst) (''web'', a) = Some w \<and> w \<noteq> 0"
proof -
  let ?us = "[(sorted_ordering :: string ordering, sorted_ordering :: instance_key ordering, demo_out)]"
  let ?sevs = "[(ss_demo_env, ServicesChanged \<lparr>suServices = [''web'' \<mapsto> Some ss_demo_service], suReset = True\<rparr>),
       (ss_demo_env, InstancesChanged demo_out)]"
  let ?view = "etcd_view agent_codec (\<lambda>_ _. None)"
  obtain t where t: "tee_reach empty_update 2 [demo_out] False t" "teIn t = []" "teHolding t = None"
    using tee_can_deliver [of empty_update 2 "[demo_out]"] by (elim exE conjE) (rule that)
  have outs: "teOuts t ! 0 = [demo_out]" "teOuts t ! 1 = [demo_out]" using tee_delivers [OF t] by simp_all
  have st: "siServices demo_final \<noteq> None" "siContainers demo_final \<noteq> None" by (simp_all add: demo_state_def)
  have "inst_view demo_final (''web'', ''c1'') = Some demo_instance"
    by (simp add: demo_state_def inst_view_def service_instances_def services_map_def)
  then have sel: "selected demo_final ''web'' ''c1''"
    using run_inv [OF demo_run demo_run_ok] unfolding sync_inv_def candidate_def selected_def by blast
  have addr: "\<forall>u \<in> set [demo_out]. addressed u" by (simp add: addressed_def demo_instance_def)
  have us: "map (\<lambda>x. snd (snd x)) ?us = teOuts t ! 0" "\<forall>(ord, kord, u) \<in> set ?us. ordering_ok ord \<and> ordering_ok kord"
    by (simp_all add: outs)
  have "listed_name ''c1''" by (simp add: listed_name_def plain_name_def name_ok_def visible_def)
  then have store: "\<forall>u \<in> set [demo_out]. \<forall>k i. iuInstances u k = Some (Some i) \<longrightarrow>
      abs_services agent_codec (\<lambda>_ _. None) (id demo_etcd) (fst k) \<noteq> None \<and>
      encodes (encInstance agent_codec) (decInstance agent_codec) (i, ''S1'')"
    "\<forall>u \<in> set [demo_out]. \<forall>k \<in> dom (iuInstances u). listed_key k \<and> ?view (id demo_etcd) k = published demo_ip (?view (id demo_etcd)) k"
    using demo_listed(1) agent_encodes by (auto simp: agent_services agent_view published_def listed_key_def)
  have ok: "etcd_instances_ok agent_codec (\<lambda>_ _. None) ''S1'' (id demo_etcd)" by (simp add: agent_etcd_ok)
  have evs: "instance_updates (map snd ?sevs) = teOuts t ! 1"
    "\<forall>u \<in> set (service_updates (map snd ?sevs)). finite (dom (suServices u))"
    "\<forall>(env, ev) \<in> set ?sevs. listens env"
    unfolding outs by (simp_all add: listens_def ss_demo_env_def)
  have def: "fold spec_services (service_updates (map snd ?sevs)) (\<lambda>_. None) ''web'' \<noteq> None"
    by (simp add: spec_services_def)
  from fluxd_end_to_end [OF demo_run_ok demo_run st demo_ids_ok addr t us demo_contract sorted_ordering_ok
      ok store evs(1,2) sorted_ordering_ok sorted_ordering_ok evs(3)]
  obtain errs e' sst where r:
    "set_instances (etcd_instance_ops sorted_ordering agent_codec (\<lambda>_ _. None) tree_client ''S1'') demo_ip ?us ([], demo_etcd)
      = Some (errs, e')"
    "ss_run sorted_ordering sorted_ordering demo_ip ?sevs ss_start = Some sst"
    "\<And>n c. published demo_ip (?view e') (n, c) \<noteq> None \<longleftrightarrow> selected demo_final n c"
    "\<And>n a w. replay_calls (svCalls sst) (n, a) = Some w \<Longrightarrow> w \<noteq> 0"
    "\<And>n. fold spec_services (service_updates (map snd ?sevs)) (\<lambda>_. None) n \<noteq> None \<Longrightarrow>
       (\<exists>c. selected demo_final n c) \<Longrightarrow> \<exists>a. replay_calls (svCalls sst) (n, a) \<noteq> None"
    unfolding id_apply by blast
  have pub: "published demo_ip (?view e') (''web'', ''c1'') \<noteq> None" using r(3) sel by blast
  obtain a w where "replay_calls (svCalls sst) (''web'', a) = Some w" using r(5) [OF def] sel by blast
  then show ?thesis using r(1,2) r(4) pub
    by (intro exI [of _ ?us] exI [of _ errs] exI [of _ e'] exI [of _ sst] exI [of _ a] exI [of _ w]) simp
qed

end
