(* ===== verification/EtcdRefine.thy ===== *)
theory EtcdRefine
  imports EtcdInstances
begin

text \<open>
  The operations of the etcd store (\<open>common/store/etcdstore/etcdstore.go\<close>) as one step function, which
  refines the updates of the abstract services.
\<close>

section \<open>Operations\<close>

text \<open>
  What a store can do to services. An instance or ingress instance is added under the session of
  the store that adds it, and \<open>Beat\<close> renews a session.
\<close>

datatype service_op =
    PutService string service
  | DropService string
  | DropServices
  | PutRule string string container_rule
  | DropRule string string
  | PutInstance string string string inst
  | DropInstance string string
  | PutIngress string string ipport ingress_instance
  | DropIngress string ipport
  | Beat string int

fun etcd_op :: "codec \<Rightarrow> 'e etcd_client \<Rightarrow> service_op \<Rightarrow> 'e \<Rightarrow> (etcd_error option \<times> 'e) option" where
  "etcd_op cd client (PutService s d) e = Some (etcd_AddService cd client s d e)"
| "etcd_op cd client (DropService s) e = Some (etcd_RemoveService client s e)"
| "etcd_op cd client DropServices e = Some (etcd_RemoveAllServices client e)"
| "etcd_op cd client (PutRule s n r) e = Some (etcd_SetContainerRule cd client s n r e)"
| "etcd_op cd client (DropRule s n) e = Some (etcd_RemoveContainerRule client s n e)"
| "etcd_op cd client (PutInstance sess s n i) e = etcd_AddInstance cd client (Some sess) s n i e"
| "etcd_op cd client (DropInstance s n) e = Some (etcd_RemoveInstance client s n e)"
| "etcd_op cd client (PutIngress sess s a g) e = etcd_AddIngressInstance cd client (Some sess) s a g e"
| "etcd_op cd client (DropIngress s a) e = Some (etcd_RemoveIngressInstance client s a e)"
| "etcd_op cd client (Beat sess ttl) e =
     (case etcd_Heartbeat client sess ttl (Some sess, e) of (err, _, e') \<Rightarrow> Some (err, e'))"

text \<open>The operations as updates of the abstract services.\<close>

fun abs_op :: "service_op \<Rightarrow> (string \<rightharpoonup> abs_service) \<Rightarrow> (string \<rightharpoonup> abs_service)" where
  "abs_op (PutService s d) M =
     M(s \<mapsto> (case M s of None \<Rightarrow> new_service d | Some A \<Rightarrow> A\<lparr>asService := d\<rparr>))"
| "abs_op (DropService s) M = M(s := None)"
| "abs_op DropServices M = Map.empty"
| "abs_op (PutRule s n r) M = M(s := map_option (\<lambda>A. A\<lparr>asRules := (asRules A)(n \<mapsto> r)\<rparr>) (M s))"
| "abs_op (DropRule s n) M = M(s := map_option (\<lambda>A. A\<lparr>asRules := (asRules A)(n := None)\<rparr>) (M s))"
| "abs_op (PutInstance sess s n i) M =
     M(s := map_option (\<lambda>A. A\<lparr>asInstances := (asInstances A)(n \<mapsto> (i, sess))\<rparr>) (M s))"
| "abs_op (DropInstance s n) M = M(s := map_option (\<lambda>A. A\<lparr>asInstances := (asInstances A)(n := None)\<rparr>) (M s))"
| "abs_op (PutIngress sess s a g) M =
     M(s := map_option (\<lambda>A. A\<lparr>asIngress := (asIngress A)(a \<mapsto> (g, sess))\<rparr>) (M s))"
| "abs_op (DropIngress s a) M = M(s := map_option (\<lambda>A. A\<lparr>asIngress := (asIngress A)(a := None)\<rparr>) (M s))"
| "abs_op (Beat sess ttl) M = M"

text \<open>
  The operations that the refinement covers: names that etcd lists, values that JSON keeps, records
  of services that are there, and heartbeats of sessions that are live.
\<close>

fun etcd_op_ok ::
  "codec \<Rightarrow> (string \<Rightarrow> string \<Rightarrow> int option) \<Rightarrow> etcd_dir \<Rightarrow> service_op \<Rightarrow> bool" where
  "etcd_op_ok cd names d (PutService s x) = (listed_name s \<and> encodes (encService cd) (decService cd) x)"
| "etcd_op_ok cd names d (DropService s) = listed_name s"
| "etcd_op_ok cd names d DropServices = True"
| "etcd_op_ok cd names d (PutRule s n r) =
     (abs_services cd names d s \<noteq> None \<and> listed_name n \<and> encodes (encRule cd) (decRule cd) r)"
| "etcd_op_ok cd names d (DropRule s n) = (listed_name s \<and> listed_name n)"
| "etcd_op_ok cd names d (PutInstance sess s n i) =
     (abs_services cd names d s \<noteq> None \<and> listed_name n \<and> encodes (encInstance cd) (decInstance cd) (i, sess))"
| "etcd_op_ok cd names d (DropInstance s n) = (listed_name s \<and> listed_name n)"
| "etcd_op_ok cd names d (PutIngress sess s a g) =
     (abs_services cd names d s \<noteq> None \<and> length (ipBytes a) = 16 \<and> \<not> ip_IsUnspecified (ipBytes a) \<and>
      0 \<le> ipPortNum a \<and> ipPortNum a \<le> 65535 \<and> encodes (encIngress cd) (decIngress cd) (g, sess))"
| "etcd_op_ok cd names d (DropIngress s a) =
     (listed_name s \<and> length (ipBytes a) = 16 \<and> \<not> ip_IsUnspecified (ipBytes a) \<and>
      0 \<le> ipPortNum a \<and> ipPortNum a \<le> 65535)"
| "etcd_op_ok cd names d (Beat sess ttl) = (listed_name sess \<and> sess \<in> sessions_of d)"

text \<open>The call an operation makes: the action etcd performs and the key it performs it on.\<close>

fun op_change :: "service_op \<Rightarrow> string \<times> string" where
  "op_change (PutService s d) = (''set'', serviceKey s)"
| "op_change (DropService s) = (''delete'', serviceRootKey s)"
| "op_change DropServices = (''delete'', SERVICE_ROOT)"
| "op_change (PutRule s n r) = (''set'', ruleKey s n)"
| "op_change (DropRule s n) = (''delete'', ruleKey s n)"
| "op_change (PutInstance sess s n i) = (''set'', instanceKey s n)"
| "op_change (DropInstance s n) = (''delete'', instanceKey s n)"
| "op_change (PutIngress sess s a g) = (''set'', ingressInstanceKey s a)"
| "op_change (DropIngress s a) = (''delete'', ingressInstanceKey s a)"
| "op_change (Beat sess ttl) = (''set'', sessionKey sess)"

text \<open>The service whose records an operation changes.\<close>

fun op_record :: "service_op \<Rightarrow> string option" where
  "op_record (PutRule s n r) = Some s"
| "op_record (DropRule s n) = Some s"
| "op_record (PutInstance sess s n i) = Some s"
| "op_record (DropInstance s n) = Some s"
| "op_record (PutIngress sess s a g) = Some s"
| "op_record (DropIngress s a) = Some s"
| "op_record _ = None"

lemma drop_absent:
  "asInstances A n = None \<Longrightarrow> A\<lparr>asInstances := (asInstances A)(n := None)\<rparr> = A"
  "asRules A n = None \<Longrightarrow> A\<lparr>asRules := (asRules A)(n := None)\<rparr> = A"
  "asIngress A a = None \<Longrightarrow> A\<lparr>asIngress := (asIngress A)(a := None)\<rparr> = A"
  by (cases A; simp add: fun_upd_idem)+

context etcd_contract
begin

text \<open>
  The outcome of an operation in etcd: its change is made, to a service that is there if it changes
  a record, and the abstract services are updated as \<open>abs_op\<close> says; or nothing changes, where nothing
  was to be removed.
\<close>

definition op_outcome :: "codec \<Rightarrow> (string \<Rightarrow> string \<Rightarrow> int option) \<Rightarrow> service_op \<Rightarrow> 'e \<Rightarrow> etcd_error option \<Rightarrow> 'e \<Rightarrow> bool" where
  "op_outcome cd names op e err e' \<longleftrightarrow> etcd_op cd client op e = Some (err, e') \<and>
     (if err = None
      then becomes cd names (tree e) (abs_op op (abs_services cd names (tree e))) (tree e') \<and>
        (\<forall>s. op_record op = Some s \<longrightarrow> abs_services cd names (tree e) s \<noteq> None)
      else fst (op_change op) = ''delete'' \<and> tree e' = tree e \<and>
        abs_op op (abs_services cd names (tree e)) = abs_services cd names (tree e))"

lemma RemoveAllServices_ok:
  assumes "etcd_ok cd names (tree e)"
  shows "\<exists>err e'. etcd_RemoveAllServices client e = (err, e') \<and>
    (if err = None then becomes cd names (tree e) Map.empty (tree e')
     else tree e' = tree e \<and> abs_services cd names (tree e) = Map.empty)"
proof -
  have r: "roots_ok (tree e)" using assms by (simp add: etcd_ok_def)
  have nl: "no_leaf [''weave-flux''] (tree e)" using r by (simp add: roots_ok_def split: option.splits etcd_tree.splits)
  have path: "key_path SERVICE_ROOT = [''weave-flux''] @ [''service'']" by (simp add: key_path_roots)
  have plain: "plain_key SERVICE_ROOT" by (simp add: plain_key_def key_path_roots)
  show ?thesis
  proof (cases "fmlookup (dir_at [''weave-flux''] (tree e)) ''service''")
    case None
    then have "tree_delete True (key_path SERVICE_ROOT) (tree e) = None"
      unfolding path by (rule tree_delete_missing [OF nl])
    moreover have "services_of (tree e) = fmempty" using None by (simp add: services_of_def subdir_def)
    then have "abs_services cd names (tree e) = Map.empty" by (simp add: abs_services_def fun_eq_iff)
    moreover obtain m e' where "clDelete client SERVICE_ROOT True e = (Some m, e')" "tree e' = tree e"
      using delete_fails [OF plain, of True e] calculation(1) by blast
    ultimately show ?thesis by (simp add: etcd_RemoveAllServices_def deleteRecursive_def)
  next
    case (Some t)
    let ?d = "modify_at [''weave-flux''] (fmdrop ''service'') (tree e)"
    have "tree_delete True (key_path SERVICE_ROOT) (tree e) = Some ?d"
      unfolding path by (rule tree_delete_modify [OF nl]) (use Some in simp_all)
    from delete_ok [OF plain this] obtain e' where e': "clDelete client SERVICE_ROOT True e = (None, e')" "tree e' = ?d" by blast
    have s: "services_of ?d = fmempty" "sessions_of ?d = sessions_of (tree e)"
      by (simp_all add: services_of_def sessions_of_def subdir_def)
    have "roots_ok ?d" using r by (simp add: roots_ok_def subdir_def)
    then have "becomes cd names (tree e) Map.empty ?d"
      by (simp add: becomes_def etcd_ok_def s abs_services_def fun_eq_iff del: modify_at.simps)
    then show ?thesis using e' by (auto simp: etcd_RemoveAllServices_def deleteRecursive_def simp del: modify_at.simps)
  qed
qed

lemma outcome_done:
  assumes "\<exists>e'. r = (None, e') \<and> becomes cd names (tree e) M (tree e')"
    and "etcd_op cd client op e = Some r" and "abs_op op (abs_services cd names (tree e)) = M"
    and "\<forall>s. op_record op = Some s \<longrightarrow> abs_services cd names (tree e) s \<noteq> None"
  shows "\<exists>err e'. op_outcome cd names op e err e'"
proof -
  obtain e' where "r = (None, e')" "becomes cd names (tree e) M (tree e')" using assms(1) by blast
  then show ?thesis using assms(2-4) unfolding op_outcome_def by (intro exI [of _ None] exI [of _ e']) simp
qed

text \<open>A record is removed, or it was not there.\<close>

lemma outcome_drop:
  assumes "etcd_ok cd names (tree e)" and "fst (op_change op) = ''delete''"
    and "etcd_op cd client op e = Some (deleteRecursive client key e)"
    and "plain_key key" and "key_path key = service_dir @ [s, sub, n]"
    and "abs_op op (abs_services cd names (tree e)) = (abs_services cd names (tree e))(s := map_option upd (abs_services cd names (tree e) s))"
    and "\<And>A. abs_services cd names (tree e) s = Some A \<Longrightarrow> (if absent A
      then \<exists>m e'. deleteRecursive client key e = (Some m, e') \<and> tree e' = tree e
      else \<exists>e'. deleteRecursive client key e = (None, e') \<and>
        becomes cd names (tree e) ((abs_services cd names (tree e))(s \<mapsto> upd A)) (tree e'))"
    and "\<And>A. absent A \<Longrightarrow> upd A = A" and "op_record op = Some s"
  shows "\<exists>err e'. op_outcome cd names op e err e'"
proof -
  let ?M = "abs_services cd names (tree e)"
  have same: "\<exists>err e'. op_outcome cd names op e err e'"
    if "deleteRecursive client key e = (Some m, e')" "tree e' = tree e" "map_option upd (?M s) = ?M s" for m e'
    using that assms(2,3,6) unfolding op_outcome_def
    by (intro exI [of _ "Some m"] exI [of _ e']) (simp add: fun_upd_idem)
  show ?thesis
  proof (cases "?M s")
    case None
    then show ?thesis using delete_missing [OF assms(1) None assms(4,5)] same by auto
  next
    case (Some A)
    show ?thesis
    proof (cases "absent A")
      case True
      then show ?thesis using assms(7) [OF Some] assms(8) [OF True] same Some by auto
    next
      case False
      then have "\<exists>e'. deleteRecursive client key e = (None, e') \<and> becomes cd names (tree e) (?M(s \<mapsto> upd A)) (tree e')"
        using assms(7) [OF Some] by simp
      then show ?thesis by (rule outcome_done) (use assms(3,6,9) Some in simp_all)
    qed
  qed
qed

lemma Beat_ok:
  assumes "etcd_ok cd names (tree e)" and "listed_name sess" and "sess \<in> sessions_of (tree e)"
  shows "\<exists>err e'. op_outcome cd names (Beat sess ttl) e err e'"
proof -
  obtain e' where e': "etcd_Heartbeat client sess ttl (Some sess, e) = (None, Some sess, e')" "etcd_ok cd names (tree e')"
    "sessions_of (tree e') = insert sess (sessions_of (tree e))"
    "abs_services cd names (tree e') = abs_services cd names (tree e)"
    using Heartbeat_ok [of cd names e sess "Some sess" ttl] assms by auto
  show ?thesis
    by (rule outcome_done [of "(None, e')" _ _ _ "abs_services cd names (tree e)"])
      (use e' assms(3) in \<open>auto simp: becomes_def\<close>)
qed

lemma op_refines:
  assumes "etcd_ok cd names (tree e)" and "etcd_op_ok cd names (tree e) op"
  shows "\<exists>err e'. op_outcome cd names op e err e'"
proof (cases op)
  case (PutService s x)
  then have "listed_name s" "encodes (encService cd) (decService cd) x" using assms(2) by simp_all
  from AddService_ok [OF assms(1) this] show ?thesis by (rule outcome_done) (simp_all add: PutService)
next
  case (DropService s)
  then have s: "listed_name s" using assms(2) by simp
  show ?thesis
  proof (cases "abs_services cd names (tree e) s = None")
    case True
    then obtain m e' where "etcd_RemoveService client s e = (Some m, e')" "tree e' = tree e"
      using RemoveService_ok [OF assms(1) s] by auto
    then show ?thesis using DropService True unfolding op_outcome_def
      by (intro exI [of _ "Some m"] exI [of _ e']) (simp add: fun_upd_idem)
  next
    case False
    with RemoveService_ok [OF assms(1) s] have "\<exists>e'. etcd_RemoveService client s e = (None, e') \<and>
      becomes cd names (tree e) ((abs_services cd names (tree e))(s := None)) (tree e')" by simp
    then show ?thesis by (rule outcome_done) (simp_all add: DropService)
  qed
next
  case DropServices
  obtain err e' where "etcd_RemoveAllServices client e = (err, e')"
    "if err = None then becomes cd names (tree e) Map.empty (tree e')
     else tree e' = tree e \<and> abs_services cd names (tree e) = Map.empty"
    using RemoveAllServices_ok [OF assms(1)] by blast
  then show ?thesis using DropServices unfolding op_outcome_def
    by (intro exI [of _ err] exI [of _ e']) (simp split: if_splits)
next
  case (PutRule s n x)
  then obtain A where A: "abs_services cd names (tree e) s = Some A" using assms(2) by auto
  then have s: "listed_name s" using abs_services_listed [OF assms(1)] by simp
  have "listed_name n" and "encodes (encRule cd) (decRule cd) x" using assms(2) PutRule by simp_all
  from SetContainerRule_ok [OF assms(1) A s this] show ?thesis
    by (rule outcome_done) (simp_all add: PutRule A)
next
  case (PutInstance sess s n i)
  then obtain A where A: "abs_services cd names (tree e) s = Some A" using assms(2) by auto
  then have s: "listed_name s" using abs_services_listed [OF assms(1)] by simp
  have "listed_name n" and "encodes (encInstance cd) (decInstance cd) (i, sess)" using assms(2) PutInstance by simp_all
  from AddInstance_ok [OF assms(1) A s this] obtain e'
    where e': "etcd_AddInstance cd client (Some sess) s n i e = Some (None, e')" "becomes cd names (tree e)
      ((abs_services cd names (tree e))(s \<mapsto> A\<lparr>asInstances := (asInstances A)(n \<mapsto> (i, sess))\<rparr>)) (tree e')" by blast
  show ?thesis by (rule outcome_done [of "(None, e')"]) (use e' A in \<open>simp_all add: PutInstance\<close>)
next
  case (PutIngress sess s a g)
  then obtain A where A: "abs_services cd names (tree e) s = Some A" using assms(2) by auto
  then have s: "listed_name s" using abs_services_listed [OF assms(1)] by simp
  have "address_ok names a" and "encodes (encIngress cd) (decIngress cd) (g, sess)"
    using address_ok_specified PutIngress assms(2) by simp_all
  from AddIngressInstance_ok [OF assms(1) A s this] obtain e'
    where e': "etcd_AddIngressInstance cd client (Some sess) s a g e = Some (None, e')" "becomes cd names (tree e)
      ((abs_services cd names (tree e))(s \<mapsto> A\<lparr>asIngress := (asIngress A)(a \<mapsto> (g, sess))\<rparr>)) (tree e')" by blast
  show ?thesis by (rule outcome_done [of "(None, e')"]) (use e' A in \<open>simp_all add: PutIngress\<close>)
next
  case (DropRule s n)
  then have n: "listed_name s" "listed_name n" using assms(2) by simp_all
  show ?thesis unfolding DropRule
    by (rule outcome_drop [where absent = "\<lambda>A. asRules A n = None"
          and upd = "\<lambda>A. A\<lparr>asRules := (asRules A)(n := None)\<rparr>", OF assms(1) _ _ record_key_path(3,1) [OF n] _
          RemoveContainerRule_ok [OF assms(1) _ n, unfolded etcd_RemoveContainerRule_def]])
      (simp_all add: etcd_RemoveContainerRule_def drop_absent)
next
  case (DropInstance s n)
  then have n: "listed_name s" "listed_name n" using assms(2) by simp_all
  show ?thesis unfolding DropInstance
    by (rule outcome_drop [where absent = "\<lambda>A. asInstances A n = None"
          and upd = "\<lambda>A. A\<lparr>asInstances := (asInstances A)(n := None)\<rparr>", OF assms(1) _ _ record_key_path(4,2) [OF n] _
          RemoveInstance_ok [OF assms(1) _ n, unfolded etcd_RemoveInstance_def]])
      (simp_all add: etcd_RemoveInstance_def drop_absent)
next
  case (DropIngress s a)
  then have n: "listed_name s" "address_ok names a" using assms(2) address_ok_specified by simp_all
  show ?thesis unfolding DropIngress
    by (rule outcome_drop [where absent = "\<lambda>A. asIngress A a = None"
          and upd = "\<lambda>A. A\<lparr>asIngress := (asIngress A)(a := None)\<rparr>", OF assms(1) _ _ address_key_path(2,1) [OF n] _
          RemoveIngressInstance_ok [OF assms(1) _ n, unfolded etcd_RemoveIngressInstance_def]])
      (simp_all add: etcd_RemoveIngressInstance_def drop_absent)
next
  case (Beat sess ttl)
  then show ?thesis using Beat_ok [OF assms(1)] assms(2) by simp
qed

end

end
