(* ===== verification/EtcdWatch.thy ===== *)
theory EtcdWatch
  imports EtcdRefine
begin

text \<open>
  A service watch over the etcd store: the changes etcd tells a watcher of, the handler of
  \<open>WatchServices\<close> (\<open>common/store/etcdstore/etcdstore.go\<close>) that turns them into notifications, and the
  watch of \<open>common/store/watch.go\<close> on top of it. The consumer of the watch follows the store.
\<close>

section \<open>What etcd tells a watcher\<close>

text \<open>
  The change of a key below the root of the services, as the response a recursive watcher of the
  root gets; other changes are not told.
\<close>

definition told :: "string \<times> string \<Rightarrow> etcd_response list" where
  "told c = (if take 2 (key_path (snd c)) = service_dir
     then [\<lparr>reAction = fst c, reKey = path_key (key_path (snd c))\<rparr>] else [])"

text \<open>
  \<open>index\<close> is the index of the store, which each \<open>Get\<close> returns, and \<open>changes i\<close> the responses that a
  watcher of the services gets that starts after the index \<open>i\<close>. The law covers keys below the
  root of the store, not the root itself.
\<close>

locale etcd_history = etcd_contract client tree for client :: "'e etcd_client" and tree +
  fixes index :: "'e \<Rightarrow> nat" and changes :: "nat \<Rightarrow> 'e \<Rightarrow> etcd_response list"
  assumes got_index: "clGet client key r e = GotNode n i \<Longrightarrow> i = index e"
    and missing_index: "clGet client key r e = KeyNotFound i \<Longrightarrow> i = index e"
    and none_since: "changes (index e) e = []"
    and set_told: "plain_key key \<Longrightarrow> 2 \<le> length (key_path key) \<Longrightarrow> clSet client key v ttl e = (err, e') \<Longrightarrow>
      i \<le> index e \<Longrightarrow> index e \<le> index e' \<and>
      changes i e' = changes i e @ (if err = None then told (''set'', key) else [])"
    and delete_told: "plain_key key \<Longrightarrow> 2 \<le> length (key_path key) \<Longrightarrow> clDelete client key rec e = (err, e') \<Longrightarrow>
      i \<le> index e \<Longrightarrow> index e \<le> index e' \<and>
      changes i e' = changes i e @ (if err = None then told (''delete'', key) else [])"

text \<open>The reference tree with a log of its changes keeps the contract.\<close>

definition logged_client :: "(etcd_dir \<times> etcd_response list) etcd_client" where
  "logged_client =
     \<lparr>clGet = (\<lambda>key r e. case tree_get (key_path key) (fst e) of
          None \<Rightarrow> KeyNotFound (length (snd e))
        | Some t \<Rightarrow> GotNode ((if r then full_node t else shallow_node t) (key_path key)) (length (snd e))),
      clSet = (\<lambda>key v ttl e. case tree_set (key_path key) v (fst e) of
          None \<Rightarrow> (Some ''error'', e)
        | Some d \<Rightarrow> (None, (d, snd e @ told (''set'', key)))),
      clDelete = (\<lambda>key r e. case tree_delete r (key_path key) (fst e) of
          None \<Rightarrow> (Some ''error'', e)
        | Some d \<Rightarrow> (None, (d, snd e @ told (''delete'', key))))\<rparr>"

interpretation logged_etcd: etcd_history logged_client fst "\<lambda>e. length (snd e)" "\<lambda>i e. drop i (snd e)"
  by unfold_locales (auto simp: logged_client_def split: option.splits)

section \<open>The changes of an operation\<close>

lemma op_key:
  assumes "etcd_ok cd names d" and "etcd_op_ok cd names d op"
  shows "plain_key (snd (op_change op))" and "2 \<le> length (key_path (snd (op_change op)))"
proof -
  have l: "abs_services cd names d s \<noteq> None \<Longrightarrow> listed_name s" for s by (rule abs_services_listed [OF assms(1)])
  have root: "plain_key SERVICE_ROOT" by (simp add: plain_key_def key_path_roots)
  show "plain_key (snd (op_change op))" "2 \<le> length (key_path (snd (op_change op)))"
    using assms(2) root
    by (cases op; auto simp: listed_nameD l plain_keys key_path_keys key_path_roots record_key_path
        address_key_path address_ok_specified tree_etcd.session_key_path)+
qed

context etcd_history
begin

lemma setJSON_told:
  assumes "setJSON client key enc e = (err, e')" and "plain_key key" and "2 \<le> length (key_path key)" and "i \<le> index e"
  shows "index e \<le> index e' \<and> changes i e' = changes i e @ (if err = None then told (''set'', key) else [])"
  using assms set_told [OF assms(2,3) _ assms(4)]
  by (auto simp: setJSON_def split: option.splits prod.splits)

lemma deleteRecursive_told:
  assumes "deleteRecursive client key e = (err, e')" and "plain_key key" and "2 \<le> length (key_path key)" and "i \<le> index e"
  shows "index e \<le> index e' \<and> changes i e' = changes i e @ (if err = None then told (''delete'', key) else [])"
  using assms delete_told [OF assms(2,3) _ assms(4)]
  by (auto simp: deleteRecursive_def split: prod.splits)

lemma op_told:
  assumes "etcd_ok cd names (tree e)" and "etcd_op_ok cd names (tree e) op"
    and "etcd_op cd client op e = Some (err, e')" and "i \<le> index e"
  shows "index e \<le> index e' \<and> changes i e' = changes i e @ (if err = None then told (op_change op) else [])"
proof -
  note k = op_key [OF assms(1,2)]
  have set: ?thesis if "setJSON client (snd (op_change op)) enc e = (err, e')" "fst (op_change op) = ''set''" for enc
    using setJSON_told [OF that(1) k assms(4)] that(2) by (metis prod.collapse)
  have del: ?thesis if "deleteRecursive client (snd (op_change op)) e = (err, e')" "fst (op_change op) = ''delete''"
    using deleteRecursive_told [OF that(1) k assms(4)] that(2) by (metis prod.collapse)
  show ?thesis
  proof (cases op)
    case (Beat sess ttl)
    then show ?thesis using assms(3) k set_told [OF k _ assms(4)]
      by (auto simp: etcd_Heartbeat_def split: prod.splits)
  qed (use assms(3) set del in \<open>auto simp: etcd_AddService_def etcd_RemoveService_def etcd_RemoveAllServices_def
      etcd_SetContainerRule_def etcd_RemoveContainerRule_def etcd_AddInstance_def etcd_RemoveInstance_def
      etcd_AddIngressInstance_def etcd_RemoveIngressInstance_def with_session_def\<close>)
qed

end

section \<open>What the handler makes of them\<close>

text \<open>The notifications of an operation that is done, and the services the handler then knows.\<close>

fun op_events :: "string ordering \<Rightarrow> query_opts \<Rightarrow> service_op \<Rightarrow> string set \<Rightarrow> service_change list \<times> string set" where
  "op_events ord opts (PutService s d) svcs = ([\<lparr>scName = s, scServiceDeleted = False\<rparr>], insert s svcs)"
| "op_events ord opts (DropService s) svcs = ([\<lparr>scName = s, scServiceDeleted = True\<rparr>], svcs - {s})"
| "op_events ord opts DropServices svcs =
     (List.map (\<lambda>s. \<lparr>scName = s, scServiceDeleted = True\<rparr>) (ord [''svcs''] svcs), {})"
| "op_events ord opts (PutRule s n r) svcs =
     (if WithContainerRules opts then [\<lparr>scName = s, scServiceDeleted = False\<rparr>] else [], svcs)"
| "op_events ord opts (DropRule s n) svcs =
     (if WithContainerRules opts then [\<lparr>scName = s, scServiceDeleted = False\<rparr>] else [], svcs)"
| "op_events ord opts (PutInstance sess s n i) svcs =
     (if WithInstances opts then [\<lparr>scName = s, scServiceDeleted = False\<rparr>] else [], svcs)"
| "op_events ord opts (DropInstance s n) svcs =
     (if WithInstances opts then [\<lparr>scName = s, scServiceDeleted = False\<rparr>] else [], svcs)"
| "op_events ord opts (PutIngress sess s a g) svcs =
     (if WithIngressInstances opts then [\<lparr>scName = s, scServiceDeleted = False\<rparr>] else [], svcs)"
| "op_events ord opts (DropIngress s a) svcs =
     (if WithIngressInstances opts then [\<lparr>scName = s, scServiceDeleted = False\<rparr>] else [], svcs)"
| "op_events ord opts (Beat sess ttl) svcs = ([], svcs)"

lemma path_of_keys:
  "path_key [''weave-flux'', ''service''] = ''/weave-flux/service''"
  "path_key [''weave-flux'', ''service'', s] = serviceRootKey s"
  "path_key [''weave-flux'', ''service'', s, DETAIL_PATH] = serviceKey s"
  "path_key [''weave-flux'', ''service'', s, RULE_PATH, n] = ruleKey s n"
  "path_key [''weave-flux'', ''service'', s, INSTANCE_PATH, n] = instanceKey s n"
  "path_key [''weave-flux'', ''service'', s, INGRESS_INSTANCE_PATH, ipport_String a] = ingressInstanceKey s a"
  by (simp_all add: serviceRootKey_def serviceKey_def ruleKey_def instanceKey_def ingressInstanceKey_def
      SERVICE_ROOT_def ROOT_def)

lemma told_keys:
  assumes "listed_name s"
  shows "told (act, serviceRootKey s) = [\<lparr>reAction = act, reKey = serviceRootKey s\<rparr>]"
    and "told (act, serviceKey s) = [\<lparr>reAction = act, reKey = serviceKey s\<rparr>]"
    and "listed_name n \<Longrightarrow> told (act, ruleKey s n) = [\<lparr>reAction = act, reKey = ruleKey s n\<rparr>]"
    and "listed_name n \<Longrightarrow> told (act, instanceKey s n) = [\<lparr>reAction = act, reKey = instanceKey s n\<rparr>]"
    and "address_ok names a \<Longrightarrow> told (act, ingressInstanceKey s a) = [\<lparr>reAction = act, reKey = ingressInstanceKey s a\<rparr>]"
  using key_path_keys [OF listed_nameD(3) [OF assms]] record_key_path [OF assms] address_key_path [OF assms]
  by (simp_all add: told_def path_of_keys del: path_key.simps)

lemma told_roots:
  "told (act, SERVICE_ROOT) = [\<lparr>reAction = act, reKey = ''/weave-flux/service''\<rparr>]"
  "listed_name sess \<Longrightarrow> told (act, sessionKey sess) = []"
  by (simp_all add: told_def key_path_roots path_of_keys tree_etcd.session_key_path del: path_key.simps)

lemma handled:
  assumes "etcd_ok cd names d" and "etcd_op_ok cd names d op"
  shows "watch_services_run ord opts (told (op_change op)) svcs = op_events ord opts op svcs"
proof -
  have l: "abs_services cd names d s \<noteq> None \<Longrightarrow> listed_name s" for s by (rule abs_services_listed [OF assms(1)])
  have k: "parseKey (serviceRootKey s) = Some (ParsedServiceRootKey s)"
    "parseKey (serviceKey s) = Some (ParsedServiceKey s)"
    "listed_name n \<Longrightarrow> parseKey (ruleKey s n) = Some (ParsedRuleKey s n)"
    "listed_name n \<Longrightarrow> parseKey (instanceKey s n) = Some (ParsedInstanceKey s n)"
    "length (ipBytes a) = 16 \<Longrightarrow> 0 \<le> ipPortNum a \<Longrightarrow>
      parseKey (ingressInstanceKey s a) = Some (ParsedIngressInstanceKey s (ipport_String a))"
    if "listed_name s" for s n and a :: ipport
  proof -
    let ?a = "\<lparr>ipBytes = replicate 16 CHR 0x00, ipPortNum = 0\<rparr> :: ipport"
    note p = parsed_keys [OF listed_nameD(3) [OF that]]
    show "parseKey (serviceRootKey s) = Some (ParsedServiceRootKey s)" "parseKey (serviceKey s) = Some (ParsedServiceKey s)"
      using p(1,2) [of "[]" ?a] by simp_all
    show "parseKey (ruleKey s n) = Some (ParsedRuleKey s n)" "parseKey (instanceKey s n) = Some (ParsedInstanceKey s n)"
      if "listed_name n" using p(3,4) [of n ?a] listed_nameD(4) [OF that] by simp_all
    show "parseKey (ingressInstanceKey s a) = Some (ParsedIngressInstanceKey s (ipport_String a))"
      if "length (ipBytes a) = 16" "0 \<le> ipPortNum a" using p(5) [of "[]" a] that by simp
  qed
  have root: "parseKey ''/weave-flux/service'' = Some ParsedRootKey"
    by (simp add: parseKey_def SERVICE_ROOT_def ROOT_def)
  show ?thesis using assms(2)
    by (cases op) (auto simp: handle_service_response_def relevant_change_def relevantTo_def Let_def told_keys told_roots
        k l root address_ok_specified)
qed

lemma watch_services_run_append:
  "watch_services_run ord opts (rs @ rs') svcs =
     (case watch_services_run ord opts rs svcs of (out, svcs1) \<Rightarrow>
        case watch_services_run ord opts rs' svcs1 of (out', svcs2) \<Rightarrow> (out @ out', svcs2))"
  by (induction rs arbitrary: svcs) (simp_all split: prod.split)

text \<open>The notifications are those the abstract update calls for.\<close>

lemma op_events_tell:
  assumes "ordering_ok ord" and "finite svcs" and "dom M \<subseteq> svcs"
    and "\<forall>s. op_record op = Some s \<longrightarrow> M s \<noteq> None"
    and "op_events ord opts op svcs = (out, svcs')"
  shows "map_option (abs_info opts live) (abs_op op M n) \<noteq> map_option (abs_info opts live) (M n) \<Longrightarrow>
      \<exists>c \<in> set out. scName c = n"
    and "c \<in> set out \<Longrightarrow> scServiceDeleted c \<longleftrightarrow> abs_op op M (scName c) = None"
    and "finite svcs' \<and> dom (abs_op op M) \<subseteq> svcs'"
proof -
  have all: "set (ord [''svcs''] svcs) = svcs" using assms(1,2) by simp
  show "\<exists>c \<in> set out. scName c = n"
    if "map_option (abs_info opts live) (abs_op op M n) \<noteq> map_option (abs_info opts live) (M n)"
  proof (cases op)
    case DropServices
    then have "n \<in> svcs" using that assms(3) by auto
    then show ?thesis using DropServices assms(5) all by auto
  qed (use that assms(4,5) in \<open>auto simp: abs_info_def split: if_splits option.splits\<close>)
  show "scServiceDeleted c \<longleftrightarrow> abs_op op M (scName c) = None" if "c \<in> set out"
    using that assms(4,5) all by (cases c; cases op) (auto split: if_splits)
  show "finite svcs' \<and> dom (abs_op op M) \<subseteq> svcs'"
    using assms(2-5) by (cases op) (auto split: if_splits option.splits)
qed

lemma op_events_named:
  assumes "ordering_ok ord" and "finite svcs" and "dom M \<subseteq> svcs" and "\<forall>s \<in> svcs. listed_name s"
    and "\<forall>s. op_record op = Some s \<longrightarrow> M s \<noteq> None" and "etcd_op_ok cd names d op"
    and "op_events ord opts op svcs = (out, svcs')"
  shows "(\<forall>s \<in> svcs'. listed_name s) \<and> (\<forall>c \<in> set out. listed_name (scName c))"
proof -
  have "set (ord [''svcs''] svcs) = svcs" using assms(1,2) by simp
  then show ?thesis using assms(3-7) by (cases op) (auto split: if_splits)
qed

section \<open>The watch\<close>

text \<open>A step of the store: an operation of one of its clients.\<close>

definition etcd_steps ::
  "codec \<Rightarrow> (string \<Rightarrow> string \<Rightarrow> int option) \<Rightarrow> 'e etcd_client \<Rightarrow> ('e \<Rightarrow> etcd_dir) \<Rightarrow> 'e \<Rightarrow> 'e \<Rightarrow> bool" where
  "etcd_steps cd names client tree e e' \<longleftrightarrow>
     (\<exists>op err. etcd_op_ok cd names (tree e) op \<and> etcd_op cd client op e = Some (err, e'))"

text \<open>
  What a watch that starts at \<open>e0\<close> has sent, and the services it knows, when the store is at \<open>e\<close>: its
  goroutine handles the responses in order. A response that still waits in the watcher counts as
  handled and its notification as waiting in the channel.
\<close>

definition watch_output ::
  "string ordering \<Rightarrow> query_opts \<Rightarrow> 'e etcd_client \<Rightarrow> (nat \<Rightarrow> 'e \<Rightarrow> etcd_response list) \<Rightarrow> 'e \<Rightarrow> 'e \<Rightarrow>
     service_change list \<times> string set" where
  "watch_output ord opts client changes e0 e =
     (case watch_services_start client e0 of
        Inl err \<Rightarrow> ([], {})
      | Inr (svcs, i) \<Rightarrow> watch_services_run ord opts (changes i e) svcs)"

text \<open>It is what the goroutine sends while no \<open>Next\<close> fails.\<close>

lemma watch_services_loop_run:
  "watch_services_loop ord opts (map NextResponse rs) svcs = (fst (watch_services_run ord opts rs svcs), None)"
  by (induction rs arbitrary: svcs) (auto split: prod.splits)

lemma watch_output_sent:
  assumes "watch_services_start client e0 = Inr (svcs, i)"
  shows "etcd_WatchServices ord opts client (\<lambda>i. map NextResponse (changes i e)) e0
    = (fst (watch_output ord opts client changes e0 e), None)"
  using assms by (simp add: etcd_WatchServices_def watch_output_def watch_services_loop_run)

definition watch_events ::
  "string ordering \<Rightarrow> query_opts \<Rightarrow> 'e etcd_client \<Rightarrow> (nat \<Rightarrow> 'e \<Rightarrow> etcd_response list) \<Rightarrow> 'e \<Rightarrow> 'e \<Rightarrow> 'e \<Rightarrow>
     service_change list" where
  "watch_events ord opts client changes e0 e e' =
     drop (length (fst (watch_output ord opts client changes e0 e))) (fst (watch_output ord opts client changes e0 e'))"

context etcd_history
begin

lemma watch_starts:
  assumes "etcd_ok cd names (tree e)"
  shows "watch_services_start client e = Inr (dom (abs_services cd names (tree e)), index e)"
proof -
  have roots: "roots_ok (tree e)" and kids: "\<And>s t. fmlookup (services_of (tree e)) s = Some t \<Longrightarrow>
      plain_name s \<and> visible s \<and> (\<exists>m. t = Branch m \<and> service_dir_ok cd names m)"
    using assms by (auto simp: etcd_ok_def)
  have plain: "names_plain (services_of (tree e))" using kids by (auto simp: names_plain_def plain_name_def name_ok_def)
  have p: "plain_key SERVICE_ROOT" by (simp add: plain_key_def key_path_roots)
  obtain n i where n: "getDirNode client SERVICE_ROOT True False e = Inr (n, i)"
    and nodes: "nodeNodes n = nodeNodes (shallow_node (Branch (services_of (tree e))) service_dir)"
    using getDirNode_missing_ok [OF p, of e False] roots
    by (auto simp: roots_ok_def key_path_roots services_of_def simp del: dir_at.simps)
  have "i = index e" using n got_index missing_index
    by (auto simp: getDirNode_def split: get_result.splits if_splits)
  moreover have "dom (indexDir (Some n)) = dom (abs_services cd names (tree e))"
    unfolding indexDir_cong [OF nodes] indexDir_shallow [OF plain]
    using kids by (fastforce simp: abs_services_def split: if_splits option.splits etcd_tree.splits)
  ultimately show ?thesis using n by (simp add: watch_services_start_def)
qed

definition watch_ok ::
  "codec \<Rightarrow> (string \<Rightarrow> string \<Rightarrow> int option) \<Rightarrow> string ordering \<Rightarrow> query_opts \<Rightarrow> 'e \<Rightarrow> 'e \<Rightarrow> bool" where
  "watch_ok cd names ord opts e0 e \<longleftrightarrow> etcd_ok cd names (tree e0) \<and> etcd_ok cd names (tree e) \<and> index e0 \<le> index e \<and>
     (let svcs = snd (watch_output ord opts client changes e0 e) in
      finite svcs \<and> dom (abs_services cd names (tree e)) \<subseteq> svcs \<and> (\<forall>s \<in> svcs. listed_name s))"

lemma watch_ok_start:
  assumes "etcd_ok cd names (tree e)"
  shows "watch_ok cd names ord opts e e"
  using assms abs_services_listed [OF assms] finite_abs_services [of cd names "tree e"]
  by (auto simp: watch_ok_def watch_output_def watch_starts none_since)

lemma op_output:
  assumes "etcd_ok cd names (tree e0)" and "etcd_ok cd names (tree e)" and "index e0 \<le> index e"
    and "etcd_op_ok cd names (tree e) op" and "etcd_op cd client op e = Some (err, e')"
    and "watch_output ord opts client changes e0 e = (out, svcs)"
  shows "index e \<le> index e'" and "watch_output ord opts client changes e0 e' = (if err = None
      then case op_events ord opts op svcs of (out', svcs') \<Rightarrow> (out @ out', svcs') else (out, svcs))"
  using op_told [OF assms(2,4,5,3)] assms(6) handled [OF assms(2,4), of ord opts svcs]
  by (auto simp: watch_output_def watch_starts [OF assms(1)] watch_services_run_append split: prod.split)

text \<open>One operation, as the watch and the abstract services see it.\<close>

lemma watch_step:
  assumes "ordering_ok ord" and "watch_ok cd names ord opts e0 e" and "etcd_steps cd names client tree e e'"
  shows "watch_ok cd names ord opts e0 e'"
    and "sessions_of (tree e') = sessions_of (tree e)"
    and "map_option (abs_info opts live) (abs_services cd names (tree e') n)
        \<noteq> map_option (abs_info opts live) (abs_services cd names (tree e) n) \<Longrightarrow>
      \<exists>c \<in> set (watch_events ord opts client changes e0 e e'). scName c = n"
    and "c \<in> set (watch_events ord opts client changes e0 e e') \<Longrightarrow>
      listed_name (scName c) \<and> (scServiceDeleted c \<longleftrightarrow> abs_services cd names (tree e') (scName c) = None)"
proof -
  let ?M = "\<lambda>e. abs_services cd names (tree e)"
  have ok: "etcd_ok cd names (tree e0)" "etcd_ok cd names (tree e)" and i: "index e0 \<le> index e"
    using assms(2) by (simp_all add: watch_ok_def)
  obtain svcs out where run: "watch_output ord opts client changes e0 e = (out, svcs)" "finite svcs" "dom (?M e) \<subseteq> svcs"
    "\<forall>s \<in> svcs. listed_name s" using assms(2) unfolding watch_ok_def by (cases "watch_output ord opts client changes e0 e") auto
  obtain op err where op: "etcd_op_ok cd names (tree e) op" "etcd_op cd client op e = Some (err, e')"
    using assms(3) unfolding etcd_steps_def by blast
  then have o: "op_outcome cd names op e err e'" using op_refines [OF ok(2) op(1)] by (auto simp: op_outcome_def)
  have ch: "index e \<le> index e'" and out: "watch_output ord opts client changes e0 e' = (if err = None
      then case op_events ord opts op svcs of (out', svcs') \<Rightarrow> (out @ out', svcs') else (out, svcs))"
    using op_output [OF ok i op run(1)] by simp_all
  show sess: "sessions_of (tree e') = sessions_of (tree e)"
    using o by (auto simp: op_outcome_def becomes_def split: if_splits)
  show "watch_ok cd names ord opts e0 e'"
    and "map_option (abs_info opts live) (?M e' n) \<noteq> map_option (abs_info opts live) (?M e n) \<Longrightarrow>
      \<exists>c \<in> set (watch_events ord opts client changes e0 e e'). scName c = n"
    and "c \<in> set (watch_events ord opts client changes e0 e e') \<Longrightarrow>
      listed_name (scName c) \<and> (scServiceDeleted c \<longleftrightarrow> ?M e' (scName c) = None)"
  proof (atomize (full), cases "err = None")
    case False
    then have "tree e' = tree e" "watch_output ord opts client changes e0 e' = (out, svcs)"
      using o out by (auto simp: op_outcome_def split: if_splits)
    then show "watch_ok cd names ord opts e0 e' \<and>
      (map_option (abs_info opts live) (?M e' n) \<noteq> map_option (abs_info opts live) (?M e n) \<longrightarrow>
        (\<exists>c \<in> set (watch_events ord opts client changes e0 e e'). scName c = n)) \<and>
      (c \<in> set (watch_events ord opts client changes e0 e e') \<longrightarrow>
        listed_name (scName c) \<and> (scServiceDeleted c \<longleftrightarrow> ?M e' (scName c) = None))"
      using ok i ch run by (auto simp: watch_ok_def watch_events_def)
  next
    case True
    then have M: "?M e' = abs_op op (?M e)" "etcd_ok cd names (tree e')" "\<forall>s. op_record op = Some s \<longrightarrow> ?M e s \<noteq> None"
      using o by (auto simp: op_outcome_def becomes_def)
    obtain out' svcs' where ev: "op_events ord opts op svcs = (out', svcs')" by fastforce
    have out2: "watch_output ord opts client changes e0 e' = (out @ out', svcs')" using out True ev by simp
    have events: "watch_events ord opts client changes e0 e e' = out'" by (simp add: watch_events_def run(1) out2)
    note tell = op_events_tell [OF assms(1) run(2,3) M(3) ev]
    note named = op_events_named [OF assms(1) run(2-4) M(3) op(1) ev]
    have "watch_ok cd names ord opts e0 e'"
      using ok(1) M(2) i ch tell(3) named by (simp add: watch_ok_def out2 M(1))
    then show "watch_ok cd names ord opts e0 e' \<and>
      (map_option (abs_info opts live) (?M e' n) \<noteq> map_option (abs_info opts live) (?M e n) \<longrightarrow>
        (\<exists>c \<in> set (watch_events ord opts client changes e0 e e'). scName c = n)) \<and>
      (c \<in> set (watch_events ord opts client changes e0 e e') \<longrightarrow>
        listed_name (scName c) \<and> (scServiceDeleted c \<longleftrightarrow> ?M e' (scName c) = None))"
      unfolding events M(1) using tell(1,2) named by blast
  qed
qed

lemma getAll_view:
  assumes "ordering_ok gord" and "etcd_ok cd names (tree e)"
  shows "etcd_getAll gord cd names client e opts =
    (\<lambda>n. map_option (abs_info opts (sessions_of (tree e))) (abs_services cd names (tree e) n), None)"
  using GetAllServices_ok [OF assms] by (simp add: etcd_getAll_def)

lemma getOne_view:
  assumes "ordering_ok gord" and "etcd_ok cd names (tree e)" and "listed_name n"
  shows "etcd_getOne gord cd names client e n opts =
    (case abs_services cd names (tree e) n of
       None \<Rightarrow> (None, Some NotFound)
     | Some A \<Rightarrow> (Some (abs_info opts (sessions_of (tree e)) A), None))"
proof -
  have "roots_ok (tree e)" and "\<forall>t. fmlookup (services_of (tree e)) n = Some t \<longrightarrow>
      (\<exists>m. t = Branch m \<and> service_dir_ok cd names m)"
    using assms(2) by (auto simp: etcd_ok_def)
  from GetService_ok [OF assms(1) this(1) listed_nameD(1) [OF assms(3)] this(2)] show ?thesis
    by (simp add: etcd_getOne_def split: option.split)
qed

lemma watched:
  assumes "ordering_ok gord" and "ordering_ok ord"
  shows "watched_store (\<lambda>e. etcd_getAll gord cd names client e opts) (\<lambda>n e. etcd_getOne gord cd names client e n opts)
    (watch_ok cd names ord opts e0) listed_name (etcd_steps cd names client tree) (watch_events ord opts client changes e0)"
proof (unfold_locales, goal_cases)
  case (1 e e')
  then show ?case using watch_step(1) [OF assms(2)] by blast
next
  case (2 e n svc)
  then have "etcd_ok cd names (tree e)" by (simp add: watch_ok_def)
  then show ?case using 2(2,3) by (simp add: getAll_view [OF assms(1)] getOne_view [OF assms(1)] split: option.splits)
next
  case (3 e e' n)
  have "etcd_ok cd names (tree e)" "etcd_ok cd names (tree e')"
    using 3(1) watch_step(1) [OF assms(2) 3(1,2)] by (simp_all add: watch_ok_def)
  then show ?case using 3(3) watch_step(3) [OF assms(2) 3(1,2)]
    by (simp add: getAll_view [OF assms(1)] watch_step(2) [OF assms(2) 3(1,2)])
next
  case (4 e e' c)
  have "etcd_ok cd names (tree e')" using watch_step(1) [OF assms(2) 4(1,2)] by (simp add: watch_ok_def)
  then show ?case using watch_step(4) [OF assms(2) 4] by (simp add: getAll_view [OF assms(1)])
qed

lemma watch_drained:
  assumes "ordering_ok gord" and "ordering_ok ord" and "etcd_ok cd names (tree e0)"
    and "watch_reach (\<lambda>e. etcd_getAll gord cd names client e opts) (\<lambda>n e. etcd_getOne gord cd names client e n opts)
      (\<lambda>e. e = e0) (etcd_steps cd names client tree) (watch_events ord opts client changes e0) e (Some v) []"
  shows "v = (\<lambda>n. map_option (abs_info opts (sessions_of (tree e))) (abs_services cd names (tree e) n))"
proof -
  note w = watched [OF assms(1,2), of cd names opts e0]
  have init: "watch_ok cd names ord opts e0 e'" if "e' = e0" for e' unfolding that by (rule watch_ok_start [OF assms(3)])
  have "etcd_ok cd names (tree e)"
    using watched_store.reach_inv [OF w assms(4) init] by (simp add: watch_ok_def)
  then show ?thesis using watched_store.drained [OF w assms(4) init] by (simp add: getAll_view [OF assms(1)])
qed

end

interpretation logged_watch: watched_store "\<lambda>e. etcd_getAll sorted_ordering cd names logged_client e opts"
    "\<lambda>n e. etcd_getOne sorted_ordering cd names logged_client e n opts" "logged_etcd.watch_ok cd names sorted_ordering opts e0"
    listed_name "etcd_steps cd names logged_client fst"
    "watch_events sorted_ordering opts logged_client (\<lambda>i e. drop i (snd e)) e0" for cd names opts e0
  by (rule logged_etcd.watched [OF sorted_ordering_ok sorted_ordering_ok])

section \<open>The properties\<close>




definition logged_demo :: "etcd_dir \<times> etcd_response list" where
  "logged_demo = (demo_etcd, [])"

definition rule_opts :: query_opts where
  "rule_opts = \<lparr>WithInstances = True, WithContainerRules = True, WithIngressInstances = False\<rparr>"


end
