(* ===== verification/StoreSuite.thy ===== *)
theory StoreSuite
  imports StoreData NetUtil
begin

text \<open>
  The tests that every store has to pass (\<open>common/store/test/suite.go\<close>), as a program over the interface
  \<open>store.Store\<close>: a test is a list of statements, each of which makes a call and checks what comes
  back. \<open>None\<close> is a test that fails: a requirement that does not hold, a panic or a call that does
  not return. The suite does not tell a nil map from an empty one.
\<close>

section \<open>The store under test\<close>

text \<open>The calls of \<open>store.Store\<close> that change a store.\<close>

datatype store_call =
    CallAddService string service
  | CallRemoveService string
  | CallRemoveAllServices
  | CallSetContainerRule string string container_rule
  | CallRemoveContainerRule string string
  | CallAddInstance string string inst
  | CallRemoveInstance string string
  | CallAddIngressInstance string ipport ingress_instance
  | CallRemoveIngressInstance string ipport
  | CallHeartbeat int
  | CallEndSession
  | CallRegisterHost string host
  | CallDeregisterHost string

text \<open>
  The interface with \<open>Reset\<close>. A watch is started, what its goroutine has sent by the time the test
  looks at it is a function of the watch and the store (\<open>None\<close> if the goroutine panics), and the watch
  is cancelled. The tests wait before they look: everything that is under way has arrived.
\<close>

record ('err, 'w, 's) testable_store =
  tsReset :: "'s \<Rightarrow> 's option"
  tsPing :: "'s \<Rightarrow> 'err option"
  tsCheckRegisteredService :: "string \<Rightarrow> 's \<Rightarrow> 'err option"
  tsGetService :: "string \<Rightarrow> query_opts \<Rightarrow> 's \<Rightarrow> 'err + service_info"
  tsGetAllServices :: "query_opts \<Rightarrow> 's \<Rightarrow> 'err + (string \<rightharpoonup> service_info)"
  tsGetHosts :: "'s \<Rightarrow> 'err + host list"
  tsCall :: "store_call \<Rightarrow> 's \<Rightarrow> ('err option \<times> 's) option"
  tsWatchServices :: "query_opts \<Rightarrow> 's \<Rightarrow> 'w \<times> 's"
  tsServiceChanges :: "'w \<Rightarrow> 's \<Rightarrow> service_change list"
  tsWatchHosts :: "'s \<Rightarrow> 'w \<times> 's"
  tsHostChanges :: "'w \<Rightarrow> 's \<Rightarrow> host_change list option"
  tsCancel :: "'w \<Rightarrow> 's \<Rightarrow> 's"

section \<open>Statements\<close>

type_synonym 's statement = "'s \<Rightarrow> 's option"

fun steps :: "'s statement list \<Rightarrow> 's statement" where
  "steps [] s = Some s"
| "steps (f # fs) s = Option.bind (f s) (steps fs)"

text \<open>A call that has to succeed, and one whose error is not looked at.\<close>

definition call :: "('err, 'w, 's) testable_store \<Rightarrow> store_call \<Rightarrow> 's statement" where
  "call ts c s = (case tsCall ts c s of Some (None, s') \<Rightarrow> Some s' | _ \<Rightarrow> None)"

definition call_unchecked :: "('err, 'w, 's) testable_store \<Rightarrow> store_call \<Rightarrow> 's statement" where
  "call_unchecked ts c s = map_option snd (tsCall ts c s)"

definition require :: "('s \<Rightarrow> bool) \<Rightarrow> 's statement" where
  "require P s = (if P s then Some s else None)"

definition require_value :: "('s \<Rightarrow> 'err + 'a) \<Rightarrow> ('a \<Rightarrow> bool) \<Rightarrow> 's statement" where
  "require_value f P = require (\<lambda>s. case f s of Inl err \<Rightarrow> False | Inr x \<Rightarrow> P x)"

text \<open>The maps the tests build from \<open>GetAllServices\<close>, with the names of two levels in one key.\<close>

definition flatten_names ::
  "string ordering \<Rightarrow> 'k ordering \<Rightarrow> ('k \<Rightarrow> string) \<Rightarrow> (service_info \<Rightarrow> 'k \<rightharpoonup> 'v) \<Rightarrow> (string \<rightharpoonup> service_info) \<Rightarrow>
     string \<rightharpoonup> 'v" where
  "flatten_names ord kord str get svcs =
     for_keys (\<lambda>_. svcs) (\<lambda>svcName svc insts.
         for_keys (\<lambda>_. get svc) (\<lambda>k i insts. insts(svcName @ '' '' @ str k \<mapsto> i))
           (kord [''insts'', svcName] (dom (get svc))) insts)
       (ord [''svcs''] (dom svcs)) Map.empty"

section \<open>The values of the tests\<close>

definition ParseIPPortPtr :: "(string \<Rightarrow> string \<Rightarrow> int option) \<Rightarrow> string \<Rightarrow> ipport" where
  "ParseIPPortPtr names addrPort = (case ParseIPPort names addrPort of None \<Rightarrow> newIPPort [] 0 | Some a \<Rightarrow> a)"

definition testService :: "(string \<Rightarrow> string \<Rightarrow> int option) \<Rightarrow> service" where
  "testService names =
     \<lparr>Address = Some (ParseIPPortPtr names ''1.2.3.4:1234''), InstancePort = 0, Protocol = ''tcp''\<rparr>"

definition testRule :: container_rule where
  "testRule = \<lparr>Selector = [''foo'' \<mapsto> ''bar''], ruleInstancePort = 0\<rparr>"

definition testInst :: "(string \<Rightarrow> string \<Rightarrow> int option) \<Rightarrow> inst" where
  "testInst names =
     \<lparr>instHost = \<lparr>hostAddr = []\<rparr>, instContainerRule = ''group'',
      instAddress = Some (ParseIPPortPtr names ''1.2.3.4:12345''), instLabels = [''key'' \<mapsto> ''val'']\<rparr>"

definition testIngressInstanceAddr :: "(string \<Rightarrow> string \<Rightarrow> int option) \<Rightarrow> ipport" where
  "testIngressInstanceAddr names = ParseIPPortPtr names ''1.2.3.4:1234''"

definition testIngressInstance :: ingress_instance where
  "testIngressInstance = \<lparr>Weight = 42\<rparr>"

definition host_at :: "string \<Rightarrow> host" where
  "host_at a = \<lparr>hostAddr = (case parseIP a of None \<Rightarrow> [] | Some ip \<Rightarrow> ip)\<rparr>"

definition no_opts :: query_opts where
  "no_opts = \<lparr>WithInstances = False, WithContainerRules = False, WithIngressInstances = False\<rparr>"

abbreviation svc_changed :: "bool \<Rightarrow> service_change" where
  "svc_changed deleted \<equiv> \<lparr>scName = ''svc'', scServiceDeleted = deleted\<rparr>"

section \<open>The tests\<close>

definition testPing :: "('err, 'w, 's) testable_store \<Rightarrow> 's statement" where
  "testPing ts = require (\<lambda>s. tsPing ts s = None)"

definition require_services :: "('err, 'w, 's) testable_store \<Rightarrow> (string \<rightharpoonup> service) \<Rightarrow> 's statement" where
  "require_services ts M =
     require_value (tsGetAllServices ts no_opts) (\<lambda>ss. (\<lambda>name. map_option service.truncate (ss name)) = M)"

definition testServices :: "(string \<Rightarrow> string \<Rightarrow> int option) \<Rightarrow> ('err, 'w, 's) testable_store \<Rightarrow> 's statement" where
  "testServices names ts = steps
     [call ts (CallAddService ''svc'' (testService names)),
      require_value (tsGetService ts ''svc'' no_opts) (\<lambda>svc2. service.truncate svc2 = testService names),
      require (\<lambda>s. tsCheckRegisteredService ts ''svc'' s = None),
      require_services ts [''svc'' \<mapsto> testService names],
      call ts (CallRemoveService ''svc''),
      require_services ts Map.empty,
      call ts (CallAddService ''svc'' (testService names)),
      call ts CallRemoveAllServices,
      require_services ts Map.empty]"

definition require_rules :: "('err, 'w, 's) testable_store \<Rightarrow> (string \<rightharpoonup> container_rule) \<Rightarrow> 's statement" where
  "require_rules ts M =
     require_value (tsGetService ts ''svc'' (no_opts\<lparr>WithContainerRules := True\<rparr>)) (\<lambda>svc. ContainerRules svc = M)"

definition testRules :: "(string \<Rightarrow> string \<Rightarrow> int option) \<Rightarrow> ('err, 'w, 's) testable_store \<Rightarrow> 's statement" where
  "testRules names ts = steps
     [call ts (CallAddService ''svc'' (testService names)),
      call ts (CallSetContainerRule ''svc'' ''group'' testRule),
      require_rules ts [''group'' \<mapsto> testRule],
      call ts (CallRemoveContainerRule ''svc'' ''group''),
      require_rules ts Map.empty]"

definition require_instances :: "('err, 'w, 's) testable_store \<Rightarrow> (string \<rightharpoonup> inst) \<Rightarrow> 's statement" where
  "require_instances ts M =
     require_value (tsGetService ts ''svc'' (no_opts\<lparr>WithInstances := True\<rparr>)) (\<lambda>svc. Instances svc = M)"

definition require_service_instances ::
  "string ordering \<Rightarrow> ('err, 'w, 's) testable_store \<Rightarrow> (string \<rightharpoonup> inst) \<Rightarrow> 's statement" where
  "require_service_instances ord ts M =
     require_value (tsGetAllServices ts (no_opts\<lparr>WithInstances := True\<rparr>)) (\<lambda>svcs. flatten_names ord ord id Instances svcs = M)"

definition testInstances ::
  "string ordering \<Rightarrow> (string \<Rightarrow> string \<Rightarrow> int option) \<Rightarrow> ('err, 'w, 's) testable_store \<Rightarrow> 's statement" where
  "testInstances ord names ts = steps
     [call_unchecked ts (CallHeartbeat 10000000000),
      call ts (CallAddService ''svc'' (testService names)),
      call ts (CallAddInstance ''svc'' ''inst'' (testInst names)),
      require_instances ts [''inst'' \<mapsto> testInst names],
      require_service_instances ord ts [''svc inst'' \<mapsto> testInst names],
      call ts (CallRemoveInstance ''svc'' ''inst''),
      require_instances ts Map.empty,
      require_service_instances ord ts Map.empty,
      call ts (CallAddInstance ''svc'' ''inst'' (testInst names)),
      require_instances ts [''inst'' \<mapsto> testInst names],
      call_unchecked ts CallEndSession,
      require_instances ts Map.empty]"

definition require_ingress :: "('err, 'w, 's) testable_store \<Rightarrow> (ipport \<rightharpoonup> ingress_instance) \<Rightarrow> 's statement" where
  "require_ingress ts M =
     require_value (tsGetService ts ''svc'' (no_opts\<lparr>WithIngressInstances := True\<rparr>)) (\<lambda>svc. IngressInstances svc = M)"

definition require_service_ingress ::
  "string ordering \<Rightarrow> ipport ordering \<Rightarrow> ('err, 'w, 's) testable_store \<Rightarrow> (string \<rightharpoonup> ingress_instance) \<Rightarrow> 's statement" where
  "require_service_ingress ord aord ts M =
     require_value (tsGetAllServices ts (no_opts\<lparr>WithIngressInstances := True\<rparr>))
       (\<lambda>svcs. flatten_names ord aord ipport_String IngressInstances svcs = M)"

definition testIngressInstances ::
  "string ordering \<Rightarrow> ipport ordering \<Rightarrow> (string \<Rightarrow> string \<Rightarrow> int option) \<Rightarrow> ('err, 'w, 's) testable_store \<Rightarrow> 's statement" where
  "testIngressInstances ord aord names ts =
     (let addr = testIngressInstanceAddr names in steps
       [call_unchecked ts (CallHeartbeat 10000000000),
        call ts (CallAddService ''svc'' (testService names)),
        call ts (CallAddIngressInstance ''svc'' addr testIngressInstance),
        require_ingress ts [addr \<mapsto> testIngressInstance],
        require_service_ingress ord aord ts [''svc 1.2.3.4:1234'' \<mapsto> testIngressInstance],
        call ts (CallRemoveIngressInstance ''svc'' addr),
        require_ingress ts Map.empty,
        require_service_ingress ord aord ts Map.empty,
        call ts (CallAddIngressInstance ''svc'' addr testIngressInstance),
        require_ingress ts [addr \<mapsto> testIngressInstance],
        call_unchecked ts CallEndSession,
        require_ingress ts Map.empty])"

text \<open>A check of a watch: it is started, the body runs, and it is stopped and looked at.\<close>

definition check_services ::
  "('err, 'w, 's) testable_store \<Rightarrow> query_opts \<Rightarrow> 's statement list \<Rightarrow> service_change list \<Rightarrow> 's statement" where
  "check_services ts opts body changes s =
     (case tsWatchServices ts opts s of (w, s1) \<Rightarrow>
        steps [steps body,
               require (\<lambda>s. tsServiceChanges ts w s = changes),
               (\<lambda>s. Some (tsCancel ts w s)),
               call ts CallRemoveAllServices] s1)"

definition testWatchServices ::
  "(string \<Rightarrow> string \<Rightarrow> int option) \<Rightarrow> ('err, 'w, 's) testable_store \<Rightarrow> 's statement" where
  "testWatchServices names ts =
     (let add = call ts (CallAddService ''svc'' (testService names));
          addr = testIngressInstanceAddr names;
          check = check_services ts
      in steps
       [check no_opts [add] [svc_changed False],
        add,
        check no_opts [call ts CallRemoveAllServices, add, call ts (CallRemoveService ''svc'')]
          [svc_changed True, svc_changed False, svc_changed True],
        add,
        check no_opts [call ts (CallAddInstance ''svc'' ''inst'' (testInst names))] [],
        add,
        check (no_opts\<lparr>WithInstances := True\<rparr>)
          [call ts (CallAddInstance ''svc'' ''inst'' (testInst names)), call ts (CallRemoveInstance ''svc'' ''inst'')]
          [svc_changed False, svc_changed False],
        add,
        check no_opts [call ts (CallSetContainerRule ''svc'' ''group'' testRule)] [],
        add,
        check (no_opts\<lparr>WithContainerRules := True\<rparr>)
          [call ts (CallSetContainerRule ''svc'' ''group'' testRule), call ts (CallRemoveContainerRule ''svc'' ''group'')]
          [svc_changed False, svc_changed False],
        add,
        check no_opts [call ts (CallAddIngressInstance ''svc'' addr testIngressInstance)] [],
        add,
        check (no_opts\<lparr>WithIngressInstances := True\<rparr>)
          [call ts (CallAddIngressInstance ''svc'' addr testIngressInstance), call ts (CallRemoveIngressInstance ''svc'' addr)]
          [svc_changed False, svc_changed False]])"

definition require_hosts :: "('err, 'w, 's) testable_store \<Rightarrow> host list \<Rightarrow> 's statement" where
  "require_hosts ts hs = require_value (tsGetHosts ts) (\<lambda>hosts. hosts = hs)"

definition testHosts :: "('err, 'w, 's) testable_store \<Rightarrow> 's statement" where
  "testHosts ts =
     (let hostID = ''foo host''; hostData = host_at ''192.168.1.65'' in steps
       [call_unchecked ts (CallHeartbeat 10000000000),
        call ts (CallRegisterHost hostID hostData),
        require_hosts ts [hostData],
        call ts (CallDeregisterHost hostID),
        require_hosts ts [],
        call ts (CallRegisterHost hostID hostData),
        require_hosts ts [hostData],
        call_unchecked ts CallEndSession,
        require_hosts ts []])"

definition check_hosts ::
  "('err, 'w, 's) testable_store \<Rightarrow> 's statement list \<Rightarrow> host_change list \<Rightarrow> 's statement" where
  "check_hosts ts body changes s =
     (case tsWatchHosts ts s of (w, s1) \<Rightarrow>
        steps [steps body, require (\<lambda>s. tsHostChanges ts w s = Some changes), (\<lambda>s. Some (tsCancel ts w s))] s1)"

definition testHostWatch :: "('err, 'w, 's) testable_store \<Rightarrow> 's statement" where
  "testHostWatch ts =
     (let hostID = ''host number three'' in steps
       [check_hosts ts
          [call ts (CallHeartbeat 5000000000),
           call ts (CallRegisterHost hostID (host_at ''192.168.3.89'')),
           call ts (CallDeregisterHost hostID)]
          [\<lparr>hcName = hostID, hcHostDeparted = False\<rparr>, \<lparr>hcName = hostID, hcHostDeparted = True\<rparr>],
        tsReset ts,
        require_hosts ts []])"

definition RunStoreTestSuite ::
  "string ordering \<Rightarrow> ipport ordering \<Rightarrow> (string \<Rightarrow> string \<Rightarrow> int option) \<Rightarrow> ('err, 'w, 's) testable_store \<Rightarrow> 's statement" where
  "RunStoreTestSuite ord aord names ts = steps
     [tsReset ts, testPing ts,
      tsReset ts, testServices names ts,
      tsReset ts, testRules names ts,
      tsReset ts, testInstances ord names ts,
      tsReset ts, testIngressInstances ord aord names ts,
      tsReset ts, testWatchServices names ts,
      tsReset ts, testHosts ts,
      tsReset ts, testHostWatch ts]"

end
