(* ===== verification/StoreConforms.thy ===== *)
theory StoreConforms
  imports StoreSuite
begin

text \<open>
  The promises of \<open>store.Store\<close> that the tests of \<open>common/store/test/suite.go\<close> rely on, as a contract
  (\<open>conforming_store\<close>): a store simulates a view, which is what its clients see of it, and every
  store that keeps the contract passes the tests.
\<close>

section \<open>The view\<close>

text \<open>
  The session of the store has not begun since the last reset, it is alive, or it has ended. What
  a store shows of the records of a session that has not begun is left open.
\<close>

datatype session_mode = NotBegun | Alive | Ended

text \<open>
  \<open>vwStarted\<close>: a heartbeat has been sent, before the reset perhaps. \<open>vwMade\<close>: a service has been
  added since the reset or the last removal of all.
\<close>

record suite_view =
  vwServices :: "string \<rightharpoonup> service_info"
  vwHosts :: "string \<rightharpoonup> host"
  vwSession :: session_mode
  vwStarted :: bool
  vwMade :: bool

definition reset_view :: "suite_view \<Rightarrow> suite_view" where
  "reset_view V = V\<lparr>vwServices := Map.empty, vwHosts := Map.empty, vwSession := NotBegun, vwMade := False\<rparr>"

definition plain_service :: "service \<Rightarrow> service_info" where
  "plain_service d = service.extend d \<lparr>Instances = Map.empty, ContainerRules = Map.empty, IngressInstances = Map.empty\<rparr>"

definition change_service :: "string \<Rightarrow> (service_info \<Rightarrow> service_info) \<Rightarrow> suite_view \<Rightarrow> suite_view" where
  "change_service n f V = V\<lparr>vwServices := (vwServices V)(n := map_option f (vwServices V n))\<rparr>"

fun effect :: "store_call \<Rightarrow> suite_view \<Rightarrow> suite_view" where
  "effect (CallAddService n d) V = V\<lparr>vwServices := (vwServices V)(n \<mapsto> plain_service d), vwMade := True\<rparr>"
| "effect (CallRemoveService n) V = V\<lparr>vwServices := (vwServices V)(n := None)\<rparr>"
| "effect CallRemoveAllServices V = V\<lparr>vwServices := Map.empty, vwMade := False\<rparr>"
| "effect (CallSetContainerRule n r c) V = change_service n (\<lambda>i. i\<lparr>ContainerRules := (ContainerRules i)(r \<mapsto> c)\<rparr>) V"
| "effect (CallRemoveContainerRule n r) V =
     change_service n (\<lambda>i. i\<lparr>ContainerRules := (ContainerRules i)(r := None)\<rparr>) V"
| "effect (CallAddInstance n k x) V = change_service n (\<lambda>i. i\<lparr>Instances := (Instances i)(k \<mapsto> x)\<rparr>) V"
| "effect (CallRemoveInstance n k) V = change_service n (\<lambda>i. i\<lparr>Instances := (Instances i)(k := None)\<rparr>) V"
| "effect (CallAddIngressInstance n a x) V =
     change_service n (\<lambda>i. i\<lparr>IngressInstances := (IngressInstances i)(a \<mapsto> x)\<rparr>) V"
| "effect (CallRemoveIngressInstance n a) V =
     change_service n (\<lambda>i. i\<lparr>IngressInstances := (IngressInstances i)(a := None)\<rparr>) V"
| "effect (CallHeartbeat ttl) V = V\<lparr>vwSession := Alive, vwStarted := True\<rparr>"
| "effect CallEndSession V = V\<lparr>vwSession := Ended\<rparr>"
| "effect (CallRegisterHost h d) V = V\<lparr>vwHosts := (vwHosts V)(h \<mapsto> d)\<rparr>"
| "effect (CallDeregisterHost h) V = V\<lparr>vwHosts := (vwHosts V)(h := None)\<rparr>"

text \<open>The calls that the contract speaks of: what is removed is there, and what is added is not.\<close>

definition service_with :: "suite_view \<Rightarrow> string \<Rightarrow> (service_info \<Rightarrow> bool) \<Rightarrow> bool" where
  "service_with V n P \<longleftrightarrow> (\<exists>i. vwServices V n = Some i \<and> P i)"

abbreviation in_session :: "suite_view \<Rightarrow> bool" where
  "in_session V \<equiv> vwStarted V \<and> vwSession V \<noteq> Ended"

fun allowed :: "store_call \<Rightarrow> suite_view \<Rightarrow> bool" where
  "allowed (CallAddService n d) V \<longleftrightarrow> vwServices V n = None"
| "allowed (CallRemoveService n) V \<longleftrightarrow> vwServices V n \<noteq> None"
| "allowed CallRemoveAllServices V \<longleftrightarrow> vwMade V \<and> (\<exists>n. dom (vwServices V) \<subseteq> {n})"
| "allowed (CallSetContainerRule n r c) V \<longleftrightarrow> service_with V n (\<lambda>i. True)"
| "allowed (CallRemoveContainerRule n r) V \<longleftrightarrow> service_with V n (\<lambda>i. ContainerRules i r \<noteq> None)"
| "allowed (CallAddInstance n k x) V \<longleftrightarrow> in_session V \<and> service_with V n (\<lambda>i. True)"
| "allowed (CallRemoveInstance n k) V \<longleftrightarrow> in_session V \<and> service_with V n (\<lambda>i. Instances i k \<noteq> None)"
| "allowed (CallAddIngressInstance n a x) V \<longleftrightarrow> in_session V \<and> service_with V n (\<lambda>i. True)"
| "allowed (CallRemoveIngressInstance n a) V \<longleftrightarrow> in_session V \<and> service_with V n (\<lambda>i. IngressInstances i a \<noteq> None)"
| "allowed (CallHeartbeat ttl) V \<longleftrightarrow> vwSession V = NotBegun"
| "allowed CallEndSession V \<longleftrightarrow> vwSession V = Alive"
| "allowed (CallRegisterHost h d) V \<longleftrightarrow> in_session V"
| "allowed (CallDeregisterHost h) V \<longleftrightarrow> in_session V \<and> vwHosts V h \<noteq> None"

text \<open>What a query shows.\<close>

definition shown :: "query_opts \<Rightarrow> suite_view \<Rightarrow> service_info \<Rightarrow> service_info" where
  "shown opts V i = i
     \<lparr>Instances := if WithInstances opts \<and> vwSession V = Alive then Instances i else Map.empty,
      ContainerRules := if WithContainerRules opts then ContainerRules i else Map.empty,
      IngressInstances := if WithIngressInstances opts \<and> vwSession V = Alive then IngressInstances i else Map.empty\<rparr>"

definition can_show :: "query_opts \<Rightarrow> suite_view \<Rightarrow> bool" where
  "can_show opts V \<longleftrightarrow> (WithInstances opts \<or> WithIngressInstances opts \<longrightarrow> vwSession V \<noteq> NotBegun)"

definition shown_hosts :: "suite_view \<Rightarrow> string \<rightharpoonup> host" where
  "shown_hosts V = (if vwSession V = Ended then Map.empty else vwHosts V)"

section \<open>Watches\<close>

datatype 'w suite_watch =
    ServiceWatch 'w query_opts "service_change list"
  | HostWatch 'w "host_change list"

fun watch_handle :: "'w suite_watch \<Rightarrow> 'w" where
  "watch_handle (ServiceWatch w opts cs) = w"
| "watch_handle (HostWatch w cs) = w"

text \<open>What a watch is told of a call.\<close>

fun service_notices :: "query_opts \<Rightarrow> store_call \<Rightarrow> suite_view \<Rightarrow> service_change list" where
  "service_notices opts (CallAddService n d) V = [\<lparr>scName = n, scServiceDeleted = False\<rparr>]"
| "service_notices opts (CallRemoveService n) V = [\<lparr>scName = n, scServiceDeleted = True\<rparr>]"
| "service_notices opts CallRemoveAllServices V =
     List.map (\<lambda>n. \<lparr>scName = n, scServiceDeleted = True\<rparr>) (sorted_list_of_set (dom (vwServices V)))"
| "service_notices opts (CallSetContainerRule n r c) V =
     (if WithContainerRules opts then [\<lparr>scName = n, scServiceDeleted = False\<rparr>] else [])"
| "service_notices opts (CallRemoveContainerRule n r) V =
     (if WithContainerRules opts then [\<lparr>scName = n, scServiceDeleted = False\<rparr>] else [])"
| "service_notices opts (CallAddInstance n k x) V =
     (if WithInstances opts then [\<lparr>scName = n, scServiceDeleted = False\<rparr>] else [])"
| "service_notices opts (CallRemoveInstance n k) V =
     (if WithInstances opts then [\<lparr>scName = n, scServiceDeleted = False\<rparr>] else [])"
| "service_notices opts (CallAddIngressInstance n a x) V =
     (if WithIngressInstances opts then [\<lparr>scName = n, scServiceDeleted = False\<rparr>] else [])"
| "service_notices opts (CallRemoveIngressInstance n a) V =
     (if WithIngressInstances opts then [\<lparr>scName = n, scServiceDeleted = False\<rparr>] else [])"
| "service_notices opts _ V = []"

fun host_notices :: "store_call \<Rightarrow> host_change list" where
  "host_notices (CallRegisterHost h d) = [\<lparr>hcName = h, hcHostDeparted = False\<rparr>]"
| "host_notices (CallDeregisterHost h) = [\<lparr>hcName = h, hcHostDeparted = True\<rparr>]"
| "host_notices _ = []"

fun hear :: "store_call \<Rightarrow> suite_view \<Rightarrow> 'w suite_watch \<Rightarrow> 'w suite_watch" where
  "hear c V (ServiceWatch w opts cs) = ServiceWatch w opts (cs @ service_notices opts c V)"
| "hear c V (HostWatch w cs) = HostWatch w (cs @ host_notices c)"

text \<open>The calls of the tests.\<close>

definition suite_calls :: "(string \<Rightarrow> string \<Rightarrow> int option) \<Rightarrow> store_call set" where
  "suite_calls names =
     {CallAddService ''svc'' (testService names), CallRemoveService ''svc'', CallRemoveAllServices,
      CallSetContainerRule ''svc'' ''group'' testRule, CallRemoveContainerRule ''svc'' ''group'',
      CallAddInstance ''svc'' ''inst'' (testInst names), CallRemoveInstance ''svc'' ''inst'',
      CallAddIngressInstance ''svc'' (testIngressInstanceAddr names) testIngressInstance,
      CallRemoveIngressInstance ''svc'' (testIngressInstanceAddr names),
      CallHeartbeat 10000000000, CallHeartbeat 5000000000, CallEndSession,
      CallRegisterHost ''foo host'' (host_at ''192.168.1.65''), CallDeregisterHost ''foo host'',
      CallRegisterHost ''host number three'' (host_at ''192.168.3.89''), CallDeregisterHost ''host number three''}"

section \<open>The values and maps of the tests\<close>

lemmas suite_simps = reset_view_def can_show_def no_opts_def change_service_def service_with_def shown_def
  plain_service_def service.defs shown_hosts_def

lemma ordering_one: "ordering_ok ord \<Longrightarrow> ord l {x} = [x]" "ordering_ok ord \<Longrightarrow> ord l {} = []"
proof -
  assume ord: "ordering_ok ord"
  then show "ord l {} = []" by (metis finite.emptyI ordering_okD(2) set_empty)
  have "distinct (ord l {x})" "set (ord l {x}) = {x}" using ord by simp_all
  then show "ord l {x} = [x]" by (cases "ord l {x}"; cases "tl (ord l {x})") auto
qed

lemma flatten_names_one:
  assumes "ordering_ok ord" and "ordering_ok kord" and "svcs = [n \<mapsto> i]"
  shows "get i = Map.empty \<Longrightarrow> flatten_names ord kord str get svcs = Map.empty"
    and "get i = [k \<mapsto> x] \<Longrightarrow> flatten_names ord kord str get svcs = [n @ '' '' @ str k \<mapsto> x]"
  using assms(1,2) by (simp_all add: assms(3) flatten_names_def ordering_one)

text \<open>The addresses of the tests.\<close>

definition test_ip :: ip where
  "test_ip = v4InV6Prefix @ List.map char_of [1, 2, 3, 4 :: nat]"

lemma test_ip_specified: "length test_ip = 16" "\<not> ip_IsUnspecified test_ip"
proof -
  have "List.map char_of [1, 2, 3, 4 :: nat] \<noteq> replicate 4 (char_of (0::nat))"
  proof
    assume "List.map char_of [1, 2, 3, 4 :: nat] = replicate 4 (char_of (0::nat))"
    then have "of_char (hd (List.map char_of [1, 2, 3, 4 :: nat])) = (of_char (hd (replicate 4 (char_of (0::nat)))) :: nat)"
      by (rule arg_cong)
    then show False by simp
  qed
  then show "\<not> ip_IsUnspecified test_ip" unfolding test_ip_def by (subst IsUnspecified_v4(2)) simp_all
qed (simp add: test_ip_def)

lemma digits: "digit_char 1 = CHR ''1''" "digit_char 2 = CHR ''2''" "digit_char 3 = CHR ''3''"
  "digit_char 4 = CHR ''4''" "digit_char 5 = CHR ''5''"
  by code_simp+

lemma test_ip_String: "ip_String test_ip = ''1.2.3.4''"
  using digits by (simp add: test_ip_def ip_String_def to4_def ipv4_string_def nat_to_dec.simps)

lemma test_ip_text: 
  "ipport_String (newIPPort test_ip 1234) = ''1.2.3.4:1234''" "ipport_String (newIPPort test_ip 12345) = ''1.2.3.4:12345''"
  using test_ip_specified digits by (simp_all add: ipport_String_def newIPPort_def joinHostPort_def test_ip_String itoa_def nat_to_dec.simps)
lemma ParsedPtr: "ParseIPPortPtr names ''1.2.3.4:1234'' = newIPPort test_ip 1234"
  "ParseIPPortPtr names ''1.2.3.4:12345'' = newIPPort test_ip 12345"
  using ParseIPPort_String [of "newIPPort test_ip 1234" names] ParseIPPort_String [of "newIPPort test_ip 12345" names] test_ip_text test_ip_specified
  by (simp_all add: ParseIPPortPtr_def newIPPort_def)

section \<open>The contract\<close>

text \<open>
  \<open>sim V W s\<close>: the store \<open>s\<close> shows the view \<open>V\<close>, while the watch \<open>W\<close>, if there is one, has heard what
  it says. \<open>covers\<close> are the calls the store takes: names and values may have to be of a certain form.
\<close>

locale conforming_store =
  fixes ts :: "('err, 'w, 's) testable_store" and covers :: "store_call \<Rightarrow> bool"
    and sim :: "suite_view \<Rightarrow> 'w suite_watch option \<Rightarrow> 's \<Rightarrow> bool"
  assumes reset_sim: "sim V None s \<Longrightarrow> \<exists>s'. tsReset ts s = Some s' \<and> sim (reset_view V) None s'"
    and ping_sim: "sim V W s \<Longrightarrow> tsPing ts s = None"
    and check_sim: "sim V W s \<Longrightarrow> vwServices V n \<noteq> None \<Longrightarrow> tsCheckRegisteredService ts n s = None"
    and get_sim: "sim V W s \<Longrightarrow> can_show opts V \<Longrightarrow> vwServices V n = Some i \<Longrightarrow>
      tsGetService ts n opts s = Inr (shown opts V i)"
    and all_sim: "sim V W s \<Longrightarrow> can_show opts V \<Longrightarrow>
      tsGetAllServices ts opts s = Inr (\<lambda>n. map_option (shown opts V) (vwServices V n))"
    and hosts_sim: "sim V W s \<Longrightarrow> vwSession V = NotBegun \<longrightarrow> vwHosts V = Map.empty \<Longrightarrow>
      \<exists>hs. distinct hs \<and> set hs = dom (shown_hosts V) \<and>
        tsGetHosts ts s = Inr (List.map (\<lambda>h. the (vwHosts V h)) hs)"
    and call_sim: "sim V W s \<Longrightarrow> covers c \<Longrightarrow> allowed c V \<Longrightarrow> c = CallEndSession \<longrightarrow> W = None \<Longrightarrow>
      \<exists>s'. tsCall ts c s = Some (None, s') \<and> sim (effect c V) (map_option (hear c V) W) s'"
    and watch_services_sim: "sim V None s \<Longrightarrow> tsWatchServices ts opts s = (w, s') \<Longrightarrow>
      sim V (Some (ServiceWatch w opts [])) s'"
    and service_changes_sim: "sim V (Some (ServiceWatch w opts cs)) s \<Longrightarrow> tsServiceChanges ts w s = cs"
    and watch_hosts_sim: "sim V None s \<Longrightarrow> tsWatchHosts ts s = (w, s') \<Longrightarrow> sim V (Some (HostWatch w [])) s'"
    and host_changes_sim: "sim V (Some (HostWatch w hcs)) s \<Longrightarrow> tsHostChanges ts w s = Some hcs"
    and cancel_sim: "sim V (Some x) s \<Longrightarrow> sim V None (tsCancel ts (watch_handle x) s)"
begin

text \<open>A statement that takes every store that shows one view to a store that shows another.\<close>

definition leads :: "suite_view \<times> 'w suite_watch option \<Rightarrow> 's statement \<Rightarrow> suite_view \<times> 'w suite_watch option \<Rightarrow> bool" where
  "leads x f y \<longleftrightarrow> (\<forall>s. sim (fst x) (snd x) s \<longrightarrow> (\<exists>s'. f s = Some s' \<and> sim (fst y) (snd y) s'))"

lemma leads_steps:
  "leads x (steps []) x" "leads x f y \<Longrightarrow> leads y (steps fs) z \<Longrightarrow> leads x (steps (f # fs)) z"
  unfolding leads_def by fastforce+

lemma leads_call:
  assumes "covers c" and "allowed c V" and "c = CallEndSession \<longrightarrow> W = None"
    and "V' = effect c V" and "W' = map_option (hear c V) W"
  shows "leads (V, W) (call ts c) (V', W')" and "leads (V, W) (call_unchecked ts c) (V', W')"
  using call_sim [OF _ assms(1-3)] assms(4,5) unfolding leads_def call_def call_unchecked_def by fastforce+

lemma leads_reset: "V' = reset_view V \<Longrightarrow> leads (V, None) (tsReset ts) (V', None)"
  using reset_sim unfolding leads_def by fastforce

lemma leads_require: "(\<And>s. sim V W s \<Longrightarrow> P s) \<Longrightarrow> leads (V, W) (require P) (V, W)"
  by (auto simp: leads_def require_def)

lemma leads_value: "(\<And>s. sim V W s \<Longrightarrow> \<exists>x. f s = Inr x \<and> P x) \<Longrightarrow> leads (V, W) (require_value f P) (V, W)"
  unfolding require_value_def by (rule leads_require) fastforce

lemma leads_get:
  assumes "can_show opts V" and "vwServices V n = Some i" and "P (shown opts V i)"
  shows "leads (V, W) (require_value (tsGetService ts n opts) P) (V, W)"
  by (rule leads_value) (use get_sim [OF _ assms(1,2)] assms(3) in blast)

lemma leads_all:
  assumes "can_show opts V" and "P (\<lambda>n. map_option (shown opts V) (vwServices V n))"
  shows "leads (V, W) (require_value (tsGetAllServices ts opts) P) (V, W)"
  by (rule leads_value) (use all_sim [OF _ assms(1)] assms(2) in blast)

lemma leads_hosts:
  assumes "vwSession V = NotBegun \<longrightarrow> vwHosts V = Map.empty" and "shown_hosts V = Map.empty"
  shows "leads (V, W) (require_hosts ts []) (V, W)"
  unfolding require_hosts_def by (rule leads_value) (use hosts_sim [OF _ assms(1)] assms(2) in fastforce)

lemma leads_host:
  assumes "vwSession V \<noteq> NotBegun" and "shown_hosts V = [h \<mapsto> d]" and "vwHosts V h = Some d"
  shows "leads (V, W) (require_hosts ts [d]) (V, W)"
  unfolding require_hosts_def
proof (rule leads_value)
  fix s assume "sim V W s"
  then obtain hs where "distinct hs" "set hs = {h}" "tsGetHosts ts s = Inr (List.map (\<lambda>h. the (vwHosts V h)) hs)"
    using hosts_sim [of V W s] assms(1,2) by auto
  moreover from this have "hs = [h]" by (cases hs; cases "tl hs") auto
  ultimately show "\<exists>x. tsGetHosts ts s = Inr x \<and> x = [d]" using assms(3) by simp
qed

lemma leads_check_services:
  assumes "\<And>w. leads (V, Some (ServiceWatch w opts [])) (steps body) (V1, Some (ServiceWatch w opts changes))"
    and "covers CallRemoveAllServices" and "allowed CallRemoveAllServices V1" and "V' = effect CallRemoveAllServices V1"
  shows "leads (V, None) (check_services ts opts body changes) (V', None)"
  unfolding leads_def
proof (intro allI impI)
  fix s assume s: "sim (fst (V, None)) (snd (V, None)) s"
  obtain w s1 where w: "tsWatchServices ts opts s = (w, s1)" by (cases "tsWatchServices ts opts s")
  then have "sim V (Some (ServiceWatch w opts [])) s1" using watch_services_sim s by simp
  then obtain s2 where s2: "steps body s1 = Some s2" "sim V1 (Some (ServiceWatch w opts changes)) s2"
    using assms(1) by (auto simp: leads_def)
  have "sim V1 None (tsCancel ts w s2)" using cancel_sim [OF s2(2)] by simp
  then obtain s3 where "call ts CallRemoveAllServices (tsCancel ts w s2) = Some s3" "sim V' None s3"
    using leads_call(1) [OF assms(2,3) _ assms(4), of None None] by (auto simp: leads_def)
  then show "\<exists>s'. check_services ts opts body changes s = Some s' \<and> sim (fst (V', None)) (snd (V', None)) s'"
    using w s2 service_changes_sim [OF s2(2)] by (simp add: check_services_def require_def)
qed

lemma leads_check_hosts:
  assumes "\<And>w. leads (V, Some (HostWatch w [])) (steps body) (V', Some (HostWatch w changes))"
  shows "leads (V, None) (check_hosts ts body changes) (V', None)"
  unfolding leads_def
proof (intro allI impI)
  fix s assume s: "sim (fst (V, None)) (snd (V, None)) s"
  obtain w s1 where w: "tsWatchHosts ts s = (w, s1)" by (cases "tsWatchHosts ts s")
  then have "sim V (Some (HostWatch w [])) s1" using watch_hosts_sim s by simp
  then obtain s2 where s2: "steps body s1 = Some s2" "sim V' (Some (HostWatch w changes)) s2"
    using assms by (auto simp: leads_def)
  have "sim V' None (tsCancel ts w s2)" using cancel_sim [OF s2(2)] by simp
  then show "\<exists>s'. check_hosts ts body changes s = Some s' \<and> sim (fst (V', None)) (snd (V', None)) s'"
    using w s2(1) host_changes_sim [OF s2(2)] by (simp add: check_hosts_def require_def)
qed

text \<open>The tests, statement by statement.\<close>

lemma covered:
  assumes "suite_calls names \<subseteq> Collect covers"
  shows "covers (CallAddService ''svc'' (testService names))" "covers (CallRemoveService ''svc'')"
    "covers CallRemoveAllServices" "covers (CallSetContainerRule ''svc'' ''group'' testRule)"
    "covers (CallRemoveContainerRule ''svc'' ''group'')" "covers (CallAddInstance ''svc'' ''inst'' (testInst names))"
    "covers (CallRemoveInstance ''svc'' ''inst'')"
    "covers (CallAddIngressInstance ''svc'' (testIngressInstanceAddr names) testIngressInstance)"
    "covers (CallRemoveIngressInstance ''svc'' (testIngressInstanceAddr names))"
    "covers (CallHeartbeat 10000000000)" "covers (CallHeartbeat 5000000000)" "covers CallEndSession"
    "covers (CallRegisterHost ''foo host'' (host_at ''192.168.1.65''))" "covers (CallDeregisterHost ''foo host'')"
    "covers (CallRegisterHost ''host number three'' (host_at ''192.168.3.89''))"
    "covers (CallDeregisterHost ''host number three'')"
  using assms by (simp_all add: suite_calls_def)

lemma then_call:
  assumes "covers c" and "allowed c V" and "c = CallEndSession \<longrightarrow> W = None"
    and "leads (effect c V, map_option (hear c V) W) (steps fs) z"
  shows "leads (V, W) (steps (call ts c # fs)) z" and "leads (V, W) (steps (call_unchecked ts c # fs)) z"
  using leads_steps(2) [OF leads_call(1) [OF assms(1-3) refl refl] assms(4)]
    leads_steps(2) [OF leads_call(2) [OF assms(1-3) refl refl] assms(4)] by simp_all

lemma then_get:
  assumes "can_show opts V" and "vwServices V n = Some i" and "P (shown opts V i)" and "leads (V, W) (steps fs) z"
  shows "leads (V, W) (steps (require_value (tsGetService ts n opts) P # fs)) z"
  by (rule leads_steps(2) [OF leads_get [where i = i and P = P, OF assms(1-3)] assms(4)])

lemma then_all:
  assumes "can_show opts V" and "P (\<lambda>n. map_option (shown opts V) (vwServices V n))" and "leads (V, W) (steps fs) z"
  shows "leads (V, W) (steps (require_value (tsGetAllServices ts opts) P # fs)) z"
  by (rule leads_steps(2) [OF leads_all [where P = P, OF assms(1,2)] assms(3)])

lemma then_checked:
  assumes "vwServices V n \<noteq> None" and "leads (V, W) (steps fs) z"
  shows "leads (V, W) (steps (require (\<lambda>s. tsCheckRegisteredService ts n s = None) # fs)) z"
  by (rule leads_steps(2) [OF leads_require assms(2)]) (rule check_sim [OF _ assms(1)])

lemma then_hosts:
  assumes "vwSession V = NotBegun \<longrightarrow> vwHosts V = Map.empty" and "shown_hosts V = Map.empty" and "leads (V, W) (steps fs) z"
  shows "leads (V, W) (steps (require_hosts ts [] # fs)) z"
  by (rule leads_steps(2) [OF leads_hosts [OF assms(1,2)] assms(3)])

lemma then_host:
  assumes "vwSession V \<noteq> NotBegun" and "shown_hosts V = [h \<mapsto> d]" and "vwHosts V h = Some d" and "leads (V, W) (steps fs) z"
  shows "leads (V, W) (steps (require_hosts ts [d] # fs)) z"
  by (rule leads_steps(2) [OF leads_host [OF assms(1-3)] assms(4)])

lemma then_reset:
  assumes "leads (reset_view V, None) (steps fs) z"
  shows "leads (V, None) (steps (tsReset ts # fs)) z"
  by (rule leads_steps(2) [OF leads_reset [OF refl] assms])

lemma then_flatten:
  assumes "ordering_ok ord" and "ordering_ok kord" and "can_show opts V" and "vwServices V = [n \<mapsto> i]"
    and "get (shown opts V i) = M" and "leads (V, W) (steps fs) z"
  shows "M = Map.empty \<Longrightarrow>
      leads (V, W) (steps (require_value (tsGetAllServices ts opts) (\<lambda>svcs. flatten_names ord kord str get svcs = Map.empty) # fs)) z"
    and "M = [k \<mapsto> x] \<Longrightarrow> n @ '' '' @ str k = nk \<Longrightarrow>
      leads (V, W) (steps (require_value (tsGetAllServices ts opts) (\<lambda>svcs. flatten_names ord kord str get svcs = [nk \<mapsto> x]) # fs)) z"
proof -
  have "(\<lambda>m. map_option (shown opts V) (vwServices V m)) = [n \<mapsto> shown opts V i]"
    using assms(4) by (simp add: fun_eq_iff)
  note one = flatten_names_one [where get = get and str = str, OF assms(1,2) this, unfolded assms(5)]
  show "M = Map.empty \<Longrightarrow>
      leads (V, W) (steps (require_value (tsGetAllServices ts opts) (\<lambda>svcs. flatten_names ord kord str get svcs = Map.empty) # fs)) z"
    by (rule then_all [OF assms(3) _ assms(6)]) (rule one(1))
  show "M = [k \<mapsto> x] \<Longrightarrow> n @ '' '' @ str k = nk \<Longrightarrow>
      leads (V, W) (steps (require_value (tsGetAllServices ts opts) (\<lambda>svcs. flatten_names ord kord str get svcs = [nk \<mapsto> x]) # fs)) z"
    by (rule then_all [OF assms(3) _ assms(6)]) (use one(2) in blast)
qed

text \<open>A test passes from a view.\<close>

definition passes :: "suite_view \<Rightarrow> 's statement \<Rightarrow> bool \<Rightarrow> bool" where
  "passes V f started \<longleftrightarrow> (\<exists>V'. leads (V, None) f (V', None) \<and> (vwStarted V \<or> started \<longrightarrow> vwStarted V'))"

lemma passesI: "leads (V, None) f (V', None) \<Longrightarrow> vwStarted V \<or> started \<longrightarrow> vwStarted V' \<Longrightarrow> passes V f started"
  by (auto simp: passes_def)

lemmas then_rules = then_flatten then_call then_get then_all then_checked leads_steps(1)


lemma testServices_passes:
  assumes "suite_calls names \<subseteq> Collect covers"
  shows "passes (reset_view V) (testServices names ts) False"
proof -
  note [simp] = covered [OF assms]
  show ?thesis
    unfolding testServices_def require_services_def
    by (rule passesI then_rules | simp add: suite_simps fun_eq_iff)+
qed

lemma testRules_passes:
  assumes "suite_calls names \<subseteq> Collect covers"
  shows "passes (reset_view V) (testRules names ts) False"
proof -
  note [simp] = covered [OF assms]
  show ?thesis
    unfolding testRules_def require_rules_def
    by (rule passesI then_rules | simp add: suite_simps)+
qed

lemma testInstances_passes:
  assumes "suite_calls names \<subseteq> Collect covers" and "ordering_ok ord"
  shows "passes (reset_view V) (testInstances ord names ts) True"
proof -
  note [simp] = covered [OF assms(1)]
  show ?thesis
    unfolding testInstances_def require_instances_def require_service_instances_def
    by (rule passesI then_rules assms(2) | simp add: suite_simps)+
qed

lemma testHosts_passes:
  assumes "suite_calls names \<subseteq> Collect covers"
  shows "passes (reset_view V) (testHosts ts) True"
proof -
  note [simp] = covered [OF assms(1)]
  show ?thesis
    unfolding testHosts_def Let_def 
    by (rule passesI then_host then_hosts then_rules | simp add: suite_simps)+
qed

lemma testIngressInstances_passes:
  assumes "suite_calls names \<subseteq> Collect covers" and "ordering_ok ord" and "ordering_ok aord"
  shows "passes (reset_view V) (testIngressInstances ord aord names ts) True"
proof -
  note [simp] = covered [OF assms(1)]
  have [simp]: "ipport_String (testIngressInstanceAddr names) = ''1.2.3.4:1234''"
    by (simp add: testIngressInstanceAddr_def ParsedPtr test_ip_text)
  show ?thesis
    unfolding testIngressInstances_def require_ingress_def require_service_ingress_def Let_def
    by (rule passesI then_rules assms(2,3) | simp add: suite_simps)+
qed

lemma then_check:
  assumes "\<And>w. leads (V, Some (ServiceWatch w opts [])) (steps body) (V1, Some (ServiceWatch w opts changes))"
    and "covers CallRemoveAllServices" and "allowed CallRemoveAllServices V1" 
    and "leads (effect CallRemoveAllServices V1, None) (steps fs) z"
  shows "leads (V, None) (steps (check_services ts opts body changes # fs)) z"
  by (rule leads_steps(2) [OF leads_check_services [OF assms(1-3) refl] assms(4)])

lemma testWatchServices_passes:
  assumes "suite_calls names \<subseteq> Collect covers" and "vwStarted V"
  shows "passes (reset_view V) (testWatchServices names ts) True"
proof -
  note [simp] = covered [OF assms(1)]
  show ?thesis
    unfolding testWatchServices_def Let_def
    by (rule passesI then_check then_rules | simp add: suite_simps assms(2) split: if_splits)+
qed

lemma then_check_hosts:
  assumes "\<And>w. leads (V, Some (HostWatch w [])) (steps body) (V1, Some (HostWatch w changes))"
    and "leads (V1, None) (steps fs) z"
  shows "leads (V, None) (steps (check_hosts ts body changes # fs)) z"
  by (rule leads_steps(2) [OF leads_check_hosts [OF assms(1)] assms(2)])

lemma testHostWatch_passes:
  assumes "suite_calls names \<subseteq> Collect covers"
  shows "passes (reset_view V) (testHostWatch ts) True"
proof -
  note [simp] = covered [OF assms(1)]
  show ?thesis
    unfolding testHostWatch_def Let_def
    by (rule passesI then_check_hosts then_hosts then_reset then_rules | simp add: suite_simps)+
qed

lemma testPing_passes: "passes V (testPing ts) False"
  unfolding testPing_def by (rule passesI [OF leads_require]) (simp_all add: ping_sim)

text \<open>The tests one after another, each after a reset.\<close>

definition well_run :: "bool \<Rightarrow> 's \<Rightarrow> bool" where
  "well_run started s \<longleftrightarrow> (\<exists>V. sim V None s \<and> (started \<longrightarrow> vwStarted V))"

lemma then_test:
  assumes "well_run started s" and "\<And>V. (started \<longrightarrow> vwStarted V) \<Longrightarrow> passes (reset_view V) f started'"
    and "\<And>s. well_run (started \<or> started') s \<Longrightarrow> \<exists>s'. steps fs s = Some s'"
  shows "\<exists>s'. steps (tsReset ts # f # fs) s = Some s'"
proof -
  obtain V where V: "sim V None s" "started \<longrightarrow> vwStarted V" using assms(1) by (auto simp: well_run_def)
  obtain s1 where s1: "tsReset ts s = Some s1" "sim (reset_view V) None s1" using reset_sim [OF V(1)] by blast
  obtain V2 where V2: "leads (reset_view V, None) f (V2, None)" "vwStarted V \<or> started' \<longrightarrow> vwStarted V2"
    using assms(2) [OF V(2)] by (auto simp: passes_def reset_view_def)
  obtain s2 where s2: "f s1 = Some s2" "sim V2 None s2" using V2(1) s1(2) by (auto simp: leads_def)
  have "well_run (started \<or> started') s2" using s2(2) V(2) V2(2) by (auto simp: well_run_def)
  from assms(3) [OF this] show ?thesis using s1(1) s2(1) by simp
qed

lemma suite_passes:
  assumes "sim V None s" and "suite_calls names \<subseteq> Collect covers" and "ordering_ok ord" and "ordering_ok aord"
  shows "\<exists>s'. RunStoreTestSuite ord aord names ts s = Some s'"
proof -
  have "well_run False s" using assms(1) by (auto simp: well_run_def)
  then show ?thesis
    unfolding RunStoreTestSuite_def
    by (elim then_test [OF _ testPing_passes] then_test [OF _ testServices_passes [OF assms(2)]]
        then_test [OF _ testRules_passes [OF assms(2)]] then_test [OF _ testInstances_passes [OF assms(2,3)]]
        then_test [OF _ testIngressInstances_passes [OF assms(2-4)]] then_test [OF _ testWatchServices_passes [OF assms(2)]]
        then_test [OF _ testHosts_passes [OF assms(2)]] then_test [OF _ testHostWatch_passes [OF assms(2)]]) simp_all
qed

end

end
