(* ===== verification/InmemSuite.thy ===== *)
theory InmemSuite
  imports StoreConforms InmemCorrect
begin

text \<open>
  The in-memory store under the tests of \<open>common/store/test/suite.go\<close>, as \<open>common/store/inmem/inmem_test.go\<close>
  runs them: each reset makes a new store, with the session \<open>test session\<close>. It keeps the contract of
  the tests.
\<close>

section \<open>The store as the tests use it\<close>

definition test_session :: string where
  "test_session = ''test session''"

fun inmem_call ::
  "string ordering \<Rightarrow> ipport ordering \<Rightarrow> store_call \<Rightarrow> in_mem \<Rightarrow> (store_error option \<times> in_mem) option" where
  "inmem_call ord aord (CallAddService n d) s = Some (AddService n d s)"
| "inmem_call ord aord (CallRemoveService n) s = Some (RemoveService n s)"
| "inmem_call ord aord CallRemoveAllServices s = Some (RemoveAllServices ord s)"
| "inmem_call ord aord (CallSetContainerRule n r c) s = Some (SetContainerRule n r c s)"
| "inmem_call ord aord (CallRemoveContainerRule n r) s = Some (RemoveContainerRule n r s)"
| "inmem_call ord aord (CallAddInstance n k x) s = AddInstance test_session n k x s"
| "inmem_call ord aord (CallRemoveInstance n k) s = Some (RemoveInstance n k s)"
| "inmem_call ord aord (CallAddIngressInstance n a x) s = AddIngressInstance test_session n a x s"
| "inmem_call ord aord (CallRemoveIngressInstance n a) s = Some (RemoveIngressInstance n a s)"
| "inmem_call ord aord (CallHeartbeat ttl) s = Some (None, Heartbeat test_session ttl s)"
| "inmem_call ord aord CallEndSession s = Some (None, EndSession ord aord test_session s)"
| "inmem_call ord aord (CallRegisterHost h d) s = Some (None, RegisterHost test_session h d s)"
| "inmem_call ord aord (CallDeregisterHost h) s = Some (None, DeregisterHost h s)"

text \<open>What arrived on a channel.\<close>

definition services_heard :: "nat \<Rightarrow> store_event list \<Rightarrow> service_change list" where
  "services_heard ch log =
     List.map_filter (\<lambda>e. case e of ServiceChanged c ev \<Rightarrow> if c = ch then Some ev else None | _ \<Rightarrow> None) log"

definition hosts_heard :: "nat \<Rightarrow> store_event list \<Rightarrow> host_change list" where
  "hosts_heard ch log =
     List.map_filter (\<lambda>e. case e of HostChanged c ev \<Rightarrow> if c = ch then Some ev else None | _ \<Rightarrow> None) log"

text \<open>The state has the number of the next channel that a test makes.\<close>

definition inmem_testable ::
  "string ordering \<Rightarrow> ipport ordering \<Rightarrow> (store_error, watcher, nat \<times> in_mem) testable_store" where
  "inmem_testable ord aord =
     \<lparr>tsReset = (\<lambda>(n, s). Some (n, NewInMem)),
      tsPing = (\<lambda>(n, s). Ping s),
      tsCheckRegisteredService = (\<lambda>name (n, s). CheckRegisteredService name s),
      tsGetService = (\<lambda>name opts (n, s). case GetService name opts s of
          (Some i, None) \<Rightarrow> Inr i | (_, Some err) \<Rightarrow> Inl err | (None, None) \<Rightarrow> Inl (NotFound name)),
      tsGetAllServices = (\<lambda>opts (n, s). case GetAllServices opts s of
          (m, None) \<Rightarrow> Inr m | (_, Some err) \<Rightarrow> Inl err),
      tsGetHosts = (\<lambda>(n, s). Inr (GetHosts ord s)),
      tsCall = (\<lambda>c (n, s). map_option (map_prod id (Pair n)) (inmem_call ord aord c s)),
      tsWatchServices = (\<lambda>opts (n, s). (ServiceWatcher n opts, (Suc n, WatchServices n opts s))),
      tsServiceChanges = (\<lambda>w (n, s). services_heard (watcher_chan w) (imLog s)),
      tsWatchHosts = (\<lambda>(n, s). (HostWatcher n, (Suc n, WatchHosts n s))),
      tsHostChanges = (\<lambda>w (n, s). Some (hosts_heard (watcher_chan w) (imLog s))),
      tsCancel = (\<lambda>w (n, s). (n, discardWatcher w s))\<rparr>"

section \<open>What it shows\<close>

definition shows_view :: "suite_view \<Rightarrow> in_mem \<Rightarrow> bool" where
  "shows_view V s \<longleftrightarrow> store_ok s \<and> imInjected s = None \<and>
     imServices s = (\<lambda>n. map_option service.truncate (vwServices V n)) \<and>
     imGroupSpecs s = (\<lambda>n. map_option ContainerRules (vwServices V n)) \<and>
     imInstances s = (\<lambda>n. map_option (\<lambda>i k. if vwSession V = Ended then None
       else map_option (\<lambda>x. \<lparr>seInstance = x, seSession = test_session\<rparr>) (Instances i k)) (vwServices V n)) \<and>
     imIngress s = (\<lambda>n. map_option (\<lambda>i a. if vwSession V = Ended then None
       else map_option (\<lambda>x. \<lparr>sgInstance = x, sgSession = test_session\<rparr>) (IngressInstances i a)) (vwServices V n)) \<and>
     imHosts s = (\<lambda>h. if vwSession V = Ended then None
       else map_option (\<lambda>d. \<lparr>shHost = d, shSession = test_session\<rparr>) (vwHosts V h))"

lemma shows_view_watchers [simp]: "shows_view V (s\<lparr>imWatchers := ws\<rparr>) = shows_view V s"
  by (simp add: shows_view_def store_ok_def)

fun event_chan :: "store_event \<Rightarrow> nat" where
  "event_chan (ServiceChanged ch ev) = ch"
| "event_chan (HostChanged ch ev) = ch"
| "event_chan (ErrorPosted ch err) = ch"

fun watch_heard :: "nat \<Rightarrow> watcher suite_watch option \<Rightarrow> in_mem \<Rightarrow> bool" where
  "watch_heard n None s \<longleftrightarrow> imWatchers s = []"
| "watch_heard n (Some (ServiceWatch w opts cs)) s \<longleftrightarrow> (\<exists>ch. ch < n \<and> w = ServiceWatcher ch opts \<and>
     imWatchers s = [w] \<and> services_heard ch (imLog s) = cs)"
| "watch_heard n (Some (HostWatch w cs)) s \<longleftrightarrow> (\<exists>ch. ch < n \<and> w = HostWatcher ch \<and>
     imWatchers s = [w] \<and> hosts_heard ch (imLog s) = cs)"

definition log_below :: "nat \<Rightarrow> store_event list \<Rightarrow> bool" where
  "log_below n log \<longleftrightarrow> (\<forall>e \<in> set log. event_chan e < n)"

definition inmem_sim :: "suite_view \<Rightarrow> watcher suite_watch option \<Rightarrow> nat \<times> in_mem \<Rightarrow> bool" where
  "inmem_sim V W x \<longleftrightarrow> (case x of (n, s) \<Rightarrow> shows_view V s \<and> watch_heard n W s \<and> log_below n (imLog s))"

lemma heard_simps [simp]:
  "services_heard ch [] = []" "services_heard ch (l @ l') = services_heard ch l @ services_heard ch l'"
  "services_heard ch [ServiceChanged c ev] = (if c = ch then [ev] else [])" "services_heard ch [HostChanged c hev] = []"
  "hosts_heard ch [] = []" "hosts_heard ch (l @ l') = hosts_heard ch l @ hosts_heard ch l'"
  "hosts_heard ch [HostChanged c hev] = (if c = ch then [hev] else [])" "hosts_heard ch [ServiceChanged c ev] = []"
  by (simp_all add: services_heard_def hosts_heard_def map_filter_def)

lemma log_below_simps [simp]:
  "log_below n []" "log_below n (l @ l') \<longleftrightarrow> log_below n l \<and> log_below n l'"
  "log_below n [e] \<longleftrightarrow> event_chan e < n"
  by (auto simp: log_below_def)

lemma fresh_heard: "log_below n l \<Longrightarrow> services_heard n l = []" "log_below n l \<Longrightarrow> hosts_heard n l = []"
  by (auto simp: log_below_def services_heard_def hosts_heard_def map_filter_def filter_empty_conv split: store_event.splits)

lemma log_below_Suc: "log_below n l \<Longrightarrow> log_below (Suc n) l"
  by (auto simp: log_below_def intro: less_SucI)

text \<open>A change of a service is sent to the watch if its filter lets it pass.\<close>

lemma heard_fire:
  assumes "watch_heard n W s" and "imWatchers s' = imWatchers s" and "imLog s' = imLog s"
    and "\<And>opts. service_notices opts c V = (if (case filt of None \<Rightarrow> True | Some f \<Rightarrow> f opts)
      then [\<lparr>scName = name, scServiceDeleted = deleted\<rparr>] else [])" and "host_notices c = []"
  shows "watch_heard n (map_option (hear c V) W) (fireServiceChange name deleted filt s')"
proof (cases W)
  case (Some x)
  then show ?thesis using assms by (cases x; cases filt) (auto simp: fireServiceChange_def)
qed (use assms in \<open>simp add: fireServiceChange_def\<close>)

lemma heard_fire_host:
  assumes "watch_heard n W s" and "imWatchers s' = imWatchers s" and "imLog s' = imLog s"
    and "\<And>opts. service_notices opts c V = []" and "host_notices c = [\<lparr>hcName = name, hcHostDeparted = departed\<rparr>]"
  shows "watch_heard n (map_option (hear c V) W) (fireHostChange name departed s')"
proof (cases W)
  case (Some x)
  then show ?thesis using assms by (cases x) (auto simp: fireHostChange_def)
qed (use assms in \<open>simp add: fireHostChange_def\<close>)

lemma log_below_fire:
  assumes "watch_heard n W s" and "log_below n (imLog s)" and "imWatchers s' = imWatchers s" and "imLog s' = imLog s"
  shows "log_below n (imLog (fireServiceChange name deleted filt s'))"
    and "log_below n (imLog (fireHostChange name departed s'))"
proof -
  consider "W = None" | w opts cs where "W = Some (ServiceWatch w opts cs)" | w hcs where "W = Some (HostWatch w hcs)"
    by (metis not_None_eq suite_watch.exhaust)
  then show "log_below n (imLog (fireServiceChange name deleted filt s'))"
    "log_below n (imLog (fireHostChange name departed s'))"
    using assms by (cases; auto simp: fireServiceChange_def fireHostChange_def)+
qed

lemma heard_same:
  assumes "watch_heard n W s" and "imWatchers s' = imWatchers s" and "imLog s' = imLog s"
    and "\<And>opts. service_notices opts c V = []" and "host_notices c = []"
  shows "watch_heard n (map_option (hear c V) W) s'"
proof (cases W)
  case (Some x)
  then show ?thesis using assms by (cases x) auto
qed (use assms in simp)

section \<open>The calls\<close>

fun call_op :: "store_call \<Rightarrow> store_op" where
  "call_op (CallAddService n d) = OpAddService n d"
| "call_op (CallRemoveService n) = OpRemoveService n"
| "call_op CallRemoveAllServices = OpRemoveAllServices"
| "call_op (CallSetContainerRule n r c) = OpSetContainerRule n r c"
| "call_op (CallRemoveContainerRule n r) = OpRemoveContainerRule n r"
| "call_op (CallAddInstance n k x) = OpAddInstance test_session n k x"
| "call_op (CallRemoveInstance n k) = OpRemoveInstance n k"
| "call_op (CallAddIngressInstance n a x) = OpAddIngressInstance test_session n a x"
| "call_op (CallRemoveIngressInstance n a) = OpRemoveIngressInstance n a"
| "call_op (CallHeartbeat ttl) = OpHeartbeat test_session ttl"
| "call_op CallEndSession = OpEndSession test_session"
| "call_op (CallRegisterHost h d) = OpRegisterHost test_session h d"
| "call_op (CallDeregisterHost h) = OpDeregisterHost h"

lemma inmem_call_step: "inmem_call ord aord c s = Some (err, s') \<Longrightarrow> store_step ord aord (call_op c) s = Some s'"
  by (cases c) auto

lemma shows_viewD:
  assumes "shows_view V s"
  shows "imServices s n = map_option service.truncate (vwServices V n)"
    and "imGroupSpecs s n = map_option ContainerRules (vwServices V n)"
    and "imInstances s n = map_option (\<lambda>i k. if vwSession V = Ended then None
       else map_option (\<lambda>x. \<lparr>seInstance = x, seSession = test_session\<rparr>) (Instances i k)) (vwServices V n)"
    and "imIngress s n = map_option (\<lambda>i a. if vwSession V = Ended then None
       else map_option (\<lambda>x. \<lparr>sgInstance = x, sgSession = test_session\<rparr>) (IngressInstances i a)) (vwServices V n)"
    and "imHosts s h = (if vwSession V = Ended then None
       else map_option (\<lambda>d. \<lparr>shHost = d, shSession = test_session\<rparr>) (vwHosts V h))"
    and "imInjected s = None" and "store_ok s"
  using assms by (simp_all add: shows_view_def)

lemma call_shows:
  assumes "ordering_ok ord" and "ordering_ok aord" and "shows_view V s" and "allowed c V" and "c \<noteq> CallEndSession" and "c \<noteq> CallRemoveAllServices"
  shows "\<exists>s'. inmem_call ord aord c s = Some (None, s') \<and> shows_view (effect c V) s'"
proof -
  note sv = shows_viewD [OF assms(3)]
  have "\<exists>s'. inmem_call ord aord c s = Some (None, s') \<and> (store_ok s' \<longrightarrow> shows_view (effect c V) s')"
  proof (cases c)
    case (CallAddService n d)
    then show ?thesis using sv(6) assms(3)
      by (simp add: AddService_def Let_def shows_view_def fun_eq_iff plain_service_def service.defs)
  next
    case (CallRemoveService n)
    then show ?thesis using sv(6) assms(3)
      by (simp add: RemoveService_def Let_def shows_view_def fun_eq_iff)
  next
    case (CallSetContainerRule n r x)
    then show ?thesis using sv(2,6) assms(3,4)
      by (auto simp: SetContainerRule_def Let_def shows_view_def fun_eq_iff change_service_def service_with_def service.defs)
  next
    case (CallRemoveContainerRule n r)
    then show ?thesis using sv(2,6) assms(3,4)
      by (auto simp: RemoveContainerRule_def Let_def shows_view_def fun_eq_iff change_service_def service_with_def service.defs)
  next
    case (CallAddInstance n k x)
    then show ?thesis using sv(3,6) assms(3,4)
      by (auto simp: AddInstance_def Let_def shows_view_def fun_eq_iff change_service_def service_with_def service.defs)
  next
    case (CallRemoveInstance n k)
    then show ?thesis using sv(3,6) assms(3,4)
      by (auto simp: RemoveInstance_def Let_def shows_view_def fun_eq_iff change_service_def service_with_def service.defs)
  next
    case (CallAddIngressInstance n a x)
    then show ?thesis using sv(4,6) assms(3,4)
      by (auto simp: AddIngressInstance_def Let_def shows_view_def fun_eq_iff change_service_def service_with_def service.defs)
  next
    case (CallRemoveIngressInstance n a)
    then show ?thesis using sv(4,6) assms(3,4)
      by (auto simp: RemoveIngressInstance_def Let_def shows_view_def fun_eq_iff change_service_def service_with_def service.defs)
  next
    case (CallHeartbeat ttl)
    then show ?thesis using assms(3,4) by (simp add: Heartbeat_def Let_def shows_view_def)
  next
    case (CallRegisterHost h d)
    then show ?thesis using assms(3,4) by (auto simp: RegisterHost_def shows_view_def fun_eq_iff)
  next
    case (CallDeregisterHost h)
    then show ?thesis using assms(3,4) by (auto simp: DeregisterHost_def deleteHost_def shows_view_def fun_eq_iff)
  qed (use assms(5,6) in simp_all)
  then show ?thesis using store_step_ok [OF assms(1,2) sv(7)] inmem_call_step by blast
qed

lemma call_heard:
  assumes "watch_heard n W s" and "log_below n (imLog s)" and "inmem_call ord aord c s = Some (None, s')"
    and "c \<noteq> CallEndSession" and "c \<noteq> CallRemoveAllServices"
  shows "watch_heard n (map_option (hear c V) W) s' \<and> log_below n (imLog s')"
proof -
  note filters = WithInstanceChanges_def WithRuleChanges_def WithIngressInstanceChanges_def
  note fire = heard_fire [OF assms(1)] heard_fire_host [OF assms(1)] log_below_fire [OF assms(1,2)]
  show ?thesis
  proof (cases c)
    case (CallAddService m d)
    then show ?thesis using assms(3) by (auto simp: AddService_def Let_def intro!: fire)
  next
    case (CallRemoveService m)
    then show ?thesis using assms(3) by (auto simp: RemoveService_def Let_def intro!: fire)
  next
    case (CallSetContainerRule m r x)
    then show ?thesis using assms(3)
      by (auto simp: SetContainerRule_def Let_def filters intro!: fire split: option.splits)
  next
    case (CallRemoveContainerRule m r)
    then show ?thesis using assms(3)
      by (auto simp: RemoveContainerRule_def Let_def filters intro!: fire split: option.splits)
  next
    case (CallAddInstance m k x)
    then show ?thesis using assms(3) by (auto simp: AddInstance_def Let_def filters intro!: fire split: option.splits)
  next
    case (CallRemoveInstance m k)
    then show ?thesis using assms(3)
      by (auto simp: RemoveInstance_def Let_def filters intro!: fire split: option.splits if_splits)
  next
    case (CallAddIngressInstance m a x)
    then show ?thesis using assms(3)
      by (auto simp: AddIngressInstance_def Let_def filters intro!: fire split: option.splits)
  next
    case (CallRemoveIngressInstance m a)
    then show ?thesis using assms(3)
      by (auto simp: RemoveIngressInstance_def Let_def filters intro!: fire split: option.splits if_splits)
  next
    case (CallHeartbeat ttl)
    then show ?thesis using assms(2,3) by (auto simp: Heartbeat_def Let_def intro!: heard_same [OF assms(1)])
  next
    case (CallRegisterHost h d)
    then show ?thesis using assms(3) by (auto simp: RegisterHost_def intro!: fire)
  next
    case (CallDeregisterHost h)
    then show ?thesis using assms(3) by (auto simp: DeregisterHost_def deleteHost_def intro!: fire)
  qed (use assms(4,5) in simp_all)
qed

lemma remove_all_shows:
  assumes "ordering_ok ord" and "shows_view V s" and "allowed CallRemoveAllServices V" and "watch_heard n W s"
    and "log_below n (imLog s)"
  shows "\<exists>s'. inmem_call ord aord CallRemoveAllServices s = Some (None, s') \<and> shows_view (effect CallRemoveAllServices V) s' \<and>
    watch_heard n (map_option (hear CallRemoveAllServices V) W) s' \<and> log_below n (imLog s')"
proof -
  have dom: "dom (imServices s) = dom (vwServices V)" using shows_viewD(1) [OF assms(2)] by auto
  have drop: "shows_view (V\<lparr>vwServices := Map.empty, vwMade := False\<rparr>) s'"
    if "shows_view (V\<lparr>vwServices := Map.empty\<rparr>) s'" for s'
    using that by (simp add: shows_view_def fun_eq_iff)
  consider "vwServices V = Map.empty" | m where "dom (vwServices V) = {m}"
    using assms(3) by (auto simp: subset_singleton_iff)
  then show ?thesis
  proof cases
    case 1
    then have "V\<lparr>vwServices := Map.empty\<rparr> = V" by simp
    moreover have "watch_heard n (map_option (hear CallRemoveAllServices V) W) s"
      by (rule heard_same [OF assms(4)]) (simp_all add: 1)
    moreover have "shows_view (V\<lparr>vwServices := Map.empty\<rparr>) s" using assms(2) calculation(1) by simp
    ultimately show ?thesis using assms(5) dom 1 drop [of s] shows_viewD(6) [OF assms(2)]
      by (simp add: RemoveAllServices_def ordering_one [OF assms(1)] del: watch_heard.simps)
  next
    case (2 m)
    have V: "(vwServices V)(m := None) = Map.empty" using 2 by (auto simp: fun_eq_iff)
    obtain d where d: "imServices s m = Some d" using 2 dom by blast
    let ?s = "snd (RemoveService m s)"
    have step: "inmem_call ord ord' (CallRemoveService m) s = Some (None, ?s)" for ord'
      using shows_viewD(6) [OF assms(2)] by (simp add: RemoveService_def Let_def)
    have "shows_view (effect (CallRemoveService m) V) ?s"
      using call_shows [OF sorted_ordering_ok sorted_ordering_ok assms(2), of "CallRemoveService m"] 2
      by (auto simp: RemoveService_def Let_def)
    then have view: "shows_view (effect CallRemoveAllServices V) ?s" using drop V by simp
    have heard: "watch_heard n (map_option (hear CallRemoveAllServices V) W) ?s" "log_below n (imLog ?s)"
      unfolding RemoveService_def Let_def snd_conv
      by (rule heard_fire [OF assms(4)]; simp add: 2) (rule log_below_fire [OF assms(4,5)]; simp)
    moreover have "inmem_call ord aord CallRemoveAllServices s = Some (None, ?s)"
      using dom 2 d shows_viewD(6) [OF assms(2)]
      by (simp add: RemoveAllServices_def ordering_one [OF assms(1)] RemoveService_def Let_def)
    ultimately show ?thesis using view by blast
  qed
qed

lemma end_session_shows:
  assumes "ordering_ok ord" and "ordering_ok aord" and "shows_view V s" and "imWatchers s = []"
  shows "shows_view (effect CallEndSession V) (EndSession ord aord test_session s) \<and>
    imWatchers (EndSession ord aord test_session s) = [] \<and> imLog (EndSession ord aord test_session s) = imLog s"
proof -
  let ?s = "EndSession ord aord test_session s"
  note sv = shows_viewD [OF assms(3)]
  obtain l where l: "?s = s\<lparr>imInstances := (\<lambda>svc. map_option (keep_others seSession test_session) (imInstances s svc)),
        imIngress := (\<lambda>svc. map_option (keep_others sgSession test_session) (imIngress s svc)),
        imHosts := keep_others shSession test_session (imHosts s),
        imTimers := (imTimers s)(test_session := None), imLog := imLog s @ l\<rparr>"
    "set l = {}" using EndSession_spec [OF assms(1,2) sv(7), of test_session] assms(4) by (auto simp: session_changes_def)
  have "store_ok ?s" using store_step_ok [OF assms(1,2) sv(7), of "OpEndSession test_session"] by simp
  moreover have "keep_others seSession test_session (\<lambda>k. if b then None else map_option (\<lambda>x. \<lparr>seInstance = x, seSession = test_session\<rparr>) (m k)) = Map.empty"
    for b and m :: "string \<rightharpoonup> inst" by (auto simp: keep_others_def fun_eq_iff split: option.splits)
  moreover have "keep_others sgSession test_session (\<lambda>k. if b then None else map_option (\<lambda>x. \<lparr>sgInstance = x, sgSession = test_session\<rparr>) (m k)) = Map.empty"
    for b and m :: "ipport \<rightharpoonup> ingress_instance" by (auto simp: keep_others_def fun_eq_iff split: option.splits)
  moreover have "keep_others shSession test_session (\<lambda>k. if b then None else map_option (\<lambda>x. \<lparr>shHost = x, shSession = test_session\<rparr>) (m k)) = Map.empty"
    for b and m :: "string \<rightharpoonup> host" by (auto simp: keep_others_def fun_eq_iff split: option.splits)
  ultimately show ?thesis using assms(3,4) l unfolding shows_view_def by (simp add: option.map_comp comp_def)
qed

section \<open>The contract of the tests\<close>

lemma hosts_list:
  assumes "ordering_ok ord" and "shows_view V s"
  shows "\<exists>hs. distinct hs \<and> set hs = dom (shown_hosts V) \<and> GetHosts ord s = List.map (\<lambda>h. the (vwHosts V h)) hs"
proof -
  note sv = shows_viewD [OF assms(2)]
  have "finite (dom (imHosts s))" using sv(7) by (simp add: store_ok_def)
  moreover have "dom (imHosts s) = dom (shown_hosts V)" using sv(5) by (auto simp: shown_hosts_def split: if_splits)
  moreover have "shHost (the (imHosts s h)) = the (vwHosts V h)" if "h \<in> dom (imHosts s)" for h
    using that sv(5) [of h] by (cases "vwHosts V h") (auto split: if_splits)
  ultimately show ?thesis using assms(1)
    by (intro exI [of _ "ord [''hosts''] (dom (imHosts s))"]) (auto simp: GetHosts_def)
qed

lemma query_shows:
  assumes "shows_view V s" and "can_show opts V" and "vwServices V n = Some i"
  shows "makeServiceInfo n (service.truncate i) opts s = shown opts V i"
proof -
  note sv = shows_viewD [OF assms(1)]
  show ?thesis using assms(2,3) sv(2-4)
    by (cases i; cases "vwSession V") (auto simp: makeServiceInfo_def shown_def can_show_def service.defs fun_eq_iff option.map_comp comp_def option.map_ident)
qed

lemma inmem_conforms:
  assumes "ordering_ok ord" and "ordering_ok aord"
  shows "conforming_store (inmem_testable ord aord) (\<lambda>_. True) inmem_sim"
proof (unfold_locales, goal_cases)
  case (1 V s)
  have "shows_view (reset_view V) NewInMem"
    using NewInMem_ok by (simp add: shows_view_def reset_view_def NewInMem_def)
  then show ?case by (cases s) (simp add: inmem_testable_def inmem_sim_def NewInMem_def)
next
  case (2 V W s)
  then show ?case by (auto simp: inmem_testable_def inmem_sim_def Ping_def dest: shows_viewD(6))
next
  case (3 V W s n)
  then show ?case
    using shows_viewD(1) [of V "snd s" n] shows_viewD(6) [of V "snd s"]
    by (cases s) (auto simp: inmem_testable_def inmem_sim_def CheckRegisteredService_def)
next
  case (4 V W s opts n i)
  then have "shows_view V (snd s)" by (auto simp: inmem_sim_def split: prod.splits)
  then show ?case using 4(2,3) query_shows shows_viewD(1,6)
    by (cases s) (fastforce simp: inmem_testable_def GetService_def)
next
  case (5 V W s opts)
  then have sv: "shows_view V (snd s)" by (auto simp: inmem_sim_def split: prod.splits)
  have "map_option (\<lambda>svc. makeServiceInfo n svc opts (snd s)) (imServices (snd s) n) = map_option (shown opts V) (vwServices V n)" for n
    using query_shows [OF sv 5(2)] shows_viewD(1) [OF sv, of n] by (cases "vwServices V n") simp_all
  then show ?case using shows_viewD(6) [OF sv] by (cases s) (simp add: inmem_testable_def GetAllServices_def)
next
  case (6 V W s)
  then have "shows_view V (snd s)" by (auto simp: inmem_sim_def split: prod.splits)
  from hosts_list [OF assms(1) this] show ?case by (cases s) (auto simp: inmem_testable_def)
next
  case (7 V W s c)
  obtain n m where s: "s = (n, m)" by (cases s)
  then have sim: "shows_view V m" "watch_heard n W m" "log_below n (imLog m)" using 7(1) by (simp_all add: inmem_sim_def)
  have "\<exists>m'. inmem_call ord aord c m = Some (None, m') \<and> inmem_sim (effect c V) (map_option (hear c V) W) (n, m')"
  proof (cases "c = CallEndSession \<or> c = CallRemoveAllServices")
    case True
    then show ?thesis
      using remove_all_shows [OF assms(1) sim(1) _ sim(2,3)] end_session_shows [OF assms sim(1)] 7(3,4) sim(2,3)
      by (auto simp: inmem_sim_def)
  next
    case False
    then obtain m' where "inmem_call ord aord c m = Some (None, m')" "shows_view (effect c V) m'"
      using call_shows [OF assms sim(1) 7(3)] by blast
    then show ?thesis using call_heard [OF sim(2,3)] False by (auto simp: inmem_sim_def)
  qed
  then show ?case by (auto simp: s inmem_testable_def)
next
  case (8 V s opts w s')
  then have "imInjected (snd s) = None" using shows_viewD(6) by (auto simp: inmem_sim_def split: prod.splits)
  then show ?case using 8
    by (auto simp: inmem_testable_def inmem_sim_def WatchServices_def addWatcher_def log_below_Suc fresh_heard)
next
  case (9 V w opts cs s)
  then show ?case by (auto simp: inmem_testable_def inmem_sim_def watcher_chan_def)
next
  case (10 V s w s')
  then show ?case
    by (auto simp: inmem_testable_def inmem_sim_def WatchHosts_def addWatcher_def log_below_Suc fresh_heard)
next
  case (11 V w cs s)
  then show ?case by (auto simp: inmem_testable_def inmem_sim_def watcher_chan_def)
next
  case (12 V x s)
  then show ?case
    by (cases x) (auto simp: inmem_testable_def inmem_sim_def discardWatcher_def)
qed

interpretation inmem_suite: conforming_store "inmem_testable sorted_ordering sorted_ordering" "\<lambda>_. True" inmem_sim
  by (rule inmem_conforms) simp_all

end
