(* ===== verification/EtcdHosts.thy ===== *)
theory EtcdHosts
  imports EtcdGC EtcdWatch
begin

text \<open>
  The hosts in the etcd store (\<open>common/store/etcdstore/etcdstore.go\<close>): registering and removing a host
  and listing the hosts of live sessions, as operations on the abstract hosts \<open>abs_hosts\<close>; and what
  every operation leaves alone: the services do not depend on the hosts, nor the hosts on them.
\<close>

section \<open>Changes of the hosts\<close>

lemma hosts_changed:
  assumes "etcd_ok cd names d"
  shows "etcd_ok cd names (modify_at host_dir f d)"
    and "abs_services cd names (modify_at host_dir f d) = abs_services cd names d"
    and "sessions_of (modify_at host_dir f d) = sessions_of d"
    and "services_of (modify_at host_dir f d) = services_of d"
proof -
  show S: "services_of (modify_at host_dir f d) = services_of d" by (simp add: services_of_def subdir_def)
  have s: "dir_at session_dir (modify_at host_dir f d) = dir_at session_dir d" by (simp add: subdir_def)
  have "roots_ok (modify_at host_dir f d)"
    using assms unfolding etcd_ok_def roots_ok_def s by (auto simp: subdir_def)
  then show "etcd_ok cd names (modify_at host_dir f d)" using assms unfolding etcd_ok_def S by blast
  show "abs_services cd names (modify_at host_dir f d) = abs_services cd names d" unfolding abs_services_def S ..
  show "sessions_of (modify_at host_dir f d) = sessions_of d" unfolding sessions_of_def s ..
qed

lemma host_key_path:
  assumes "listed_name h"
  shows "key_path (hostKey h) = host_dir @ [h]" and "plain_key (hostKey h)" and "HOST_ROOT @ h = path_key (host_dir @ [h])"
  using listed_nameD [OF assms] assms
  by (auto simp: hostKey_def HOST_ROOT_alt key_path_append key_path_roots key_path_name plain_key_def plain_name_def
      simp del: append.simps) (simp add: HOST_ROOT_def ROOT_def)

text \<open>A write below another directory of the store leaves the hosts alone.\<close>

lemma tree_set_below:
  assumes "tree_set (r # x # p) v d = Some d'" and "x \<noteq> y"
  shows "fmlookup (subdir r d') y = fmlookup (subdir r d) y" and "\<exists>b. fmlookup d' r = Some (Branch b)"
proof -
  have sub: "fmlookup b' y = fmlookup b y" if "tree_set (x # p) v b = Some b'" for b b'
    using that assms(2) by (cases p) (auto split: option.splits etcd_tree.splits)
  show "fmlookup (subdir r d') y = fmlookup (subdir r d) y" "\<exists>b. fmlookup d' r = Some (Branch b)"
    using assms(1) sub by (auto simp: tree_set_Cons subdir_def split: option.splits etcd_tree.splits)
qed

lemma tree_delete_below:
  assumes "tree_delete rec (r # x # p) d = Some d'" and "x \<noteq> y"
  shows "fmlookup (subdir r d') y = fmlookup (subdir r d) y" and "\<exists>b. fmlookup d' r = Some (Branch b)"
proof -
  have sub: "fmlookup b' y = fmlookup b y" if "tree_delete rec (x # p) b = Some b'" for b b'
    using that assms(2) by (cases p) (auto split: option.splits etcd_tree.splits if_splits)
  show "fmlookup (subdir r d') y = fmlookup (subdir r d) y" "\<exists>b. fmlookup d' r = Some (Branch b)"
    using assms(1) sub by (auto simp: tree_delete_Cons subdir_def split: option.splits etcd_tree.splits)
qed

definition same_hosts :: "etcd_dir \<Rightarrow> etcd_dir \<Rightarrow> bool" where
  "same_hosts d d' \<longleftrightarrow> dir_at host_dir d' = dir_at host_dir d \<and> (no_leaf host_dir d \<longrightarrow> no_leaf host_dir d')"

lemma same_hosts_below:
  assumes "fmlookup (subdir ''weave-flux'' d') ''host'' = fmlookup (subdir ''weave-flux'' d) ''host''"
    and "\<exists>b. fmlookup d' ''weave-flux'' = Some (Branch b)"
  shows "same_hosts d d'"
  using assms by (auto simp: same_hosts_def subdir_def)

lemma same_hostsD:
  assumes "same_hosts d d'"
  shows "abs_hosts cd d' = abs_hosts cd d" and "hosts_ok cd d \<Longrightarrow> hosts_ok cd d'"
  using assms by (auto simp: same_hosts_def abs_hosts_def hosts_ok_def simp del: dir_at.simps no_leaf.simps)

lemma same_hosts_refl [simp]: "same_hosts d d"
  by (simp add: same_hosts_def)

lemma abs_hosts_modify:
  assumes "hosts_ok cd d"
  shows "visible h \<Longrightarrow> CHR ''/'' \<notin> set h \<Longrightarrow> decHost cd v = Some x \<Longrightarrow> hosts_ok cd (modify_at host_dir (fmupd h (Leaf v)) d)"
    and "decHost cd v = Some x \<Longrightarrow> abs_hosts cd (modify_at host_dir (fmupd h (Leaf v)) d) = (abs_hosts cd d)(h \<mapsto> x)"
    and "hosts_ok cd (modify_at host_dir (fmdrop h) d)"
    and "abs_hosts cd (modify_at host_dir (fmdrop h) d) = (abs_hosts cd d)(h := None)"
proof -
  have D: "dir_at host_dir (modify_at host_dir f d) = f (dir_at host_dir d)" for f by (rule dir_at_modify)
  have L: "no_leaf host_dir (modify_at host_dir f d)" for f by (rule no_leaf_modify)
  show "visible h \<Longrightarrow> CHR ''/'' \<notin> set h \<Longrightarrow> decHost cd v = Some x \<Longrightarrow> hosts_ok cd (modify_at host_dir (fmupd h (Leaf v)) d)"
    using assms unfolding hosts_ok_def D by (simp add: L dir_ok_upd del: modify_at.simps no_leaf.simps dir_at.simps)
  show "hosts_ok cd (modify_at host_dir (fmdrop h) d)"
    using assms unfolding hosts_ok_def D by (simp add: L del: modify_at.simps no_leaf.simps dir_at.simps)
  show "decHost cd v = Some x \<Longrightarrow> abs_hosts cd (modify_at host_dir (fmupd h (Leaf v)) d) = (abs_hosts cd d)(h \<mapsto> x)"
    unfolding abs_hosts_def D by (simp add: fun_eq_iff del: dir_at.simps)
  show "abs_hosts cd (modify_at host_dir (fmdrop h) d) = (abs_hosts cd d)(h := None)"
    unfolding abs_hosts_def D by (simp add: fun_eq_iff del: dir_at.simps)
qed

section \<open>The operations\<close>

lemma live_hosts_ok:
  assumes "\<forall>n \<in> set ns. decHost cd (nodeValue n) \<noteq> None"
  shows "live_hosts cd live ns hs =
    Inr (hs @ List.map (\<lambda>n. fst (the (decHost cd (nodeValue n))))
      (filter (\<lambda>n. snd (the (decHost cd (nodeValue n))) \<in> live) ns))"
  using assms by (induction ns arbitrary: hs) auto

context etcd_contract
begin

lemma RegisterHost_ok:
  assumes "etcd_ok cd names (tree e)" and "hosts_ok cd (tree e)" and "listed_name h"
    and "encodes (encHost cd) (decHost cd) (d, s)"
  shows "\<exists>e'. etcd_RegisterHost cd client (Some s) h d e = Some (None, e') \<and>
    becomes cd names (tree e) (abs_services cd names (tree e)) (tree e') \<and> services_of (tree e') = services_of (tree e) \<and>
    hosts_ok cd (tree e') \<and> abs_hosts cd (tree e') = (abs_hosts cd (tree e))(h \<mapsto> (d, s))"
proof -
  obtain v where v: "encHost cd (d, s) = Some v" "decHost cd v = Some (d, s)" using assms(4) by (auto simp: encodes_def)
  have "no_leaf host_dir (tree e)" "no_branch (dir_at host_dir (tree e)) h"
    using assms(2) by (auto simp: hosts_ok_def no_branch_def dir_ok_def simp del: dir_at.simps no_leaf.simps)
  from tree_set_modify [OF this, of v] set_ok [OF host_key_path(2) [OF assms(3)], of v e] obtain e'
    where e': "clSet client (hostKey h) v None e = (None, e')" "tree e' = modify_at host_dir (fmupd h (Leaf v)) (tree e)"
    unfolding host_key_path(1) [OF assms(3)] by blast
  have h: "visible h" "CHR ''/'' \<notin> set h" using listed_nameD [OF assms(3)] by simp_all
  have "becomes cd names (tree e) (abs_services cd names (tree e)) (tree e')"
    unfolding becomes_def e'(2) by (intro conjI hosts_changed [OF assms(1)])
  moreover have "etcd_RegisterHost cd client (Some s) h d e = Some (None, e')"
    by (simp add: etcd_RegisterHost_def with_session_def setJSON_ok [OF v(1)] e'(1))
  moreover have "services_of (tree e') = services_of (tree e)" unfolding e'(2) by (rule hosts_changed(4) [OF assms(1)])
  moreover have "hosts_ok cd (tree e')" unfolding e'(2) by (rule abs_hosts_modify(1) [OF assms(2) h v(2)])
  moreover have "abs_hosts cd (tree e') = (abs_hosts cd (tree e))(h \<mapsto> (d, s))"
    unfolding e'(2) by (rule abs_hosts_modify(2) [OF assms(2) v(2)])
  ultimately show ?thesis by blast
qed

lemma DeregisterHost_ok:
  assumes "etcd_ok cd names (tree e)" and "hosts_ok cd (tree e)" and "listed_name h" and "abs_hosts cd (tree e) h \<noteq> None"
  shows "\<exists>e'. etcd_DeregisterHost client h e = (None, e') \<and>
    becomes cd names (tree e) (abs_services cd names (tree e)) (tree e') \<and> services_of (tree e') = services_of (tree e) \<and>
    hosts_ok cd (tree e') \<and> abs_hosts cd (tree e') = (abs_hosts cd (tree e))(h := None)"
proof -
  have "no_leaf host_dir (tree e)" "fmlookup (dir_at host_dir (tree e)) h \<noteq> None"
    using assms(2,4) by (auto simp: hosts_ok_def abs_hosts_def leaf_map_def bind_eq_Some_conv simp del: dir_at.simps no_leaf.simps
        split: option.splits)
  from tree_delete_modify [OF this, of True] delete_ok [OF host_key_path(2) [OF assms(3)], of True e] obtain e'
    where e': "clDelete client (hostKey h) True e = (None, e')" "tree e' = modify_at host_dir (fmdrop h) (tree e)"
    unfolding host_key_path(1) [OF assms(3)] by blast
  have "becomes cd names (tree e) (abs_services cd names (tree e)) (tree e')"
    unfolding becomes_def e'(2) by (intro conjI hosts_changed [OF assms(1)])
  moreover have "etcd_DeregisterHost client h e = (None, e')"
    by (simp add: etcd_DeregisterHost_def deleteRecursive_def e'(1))
  moreover have "services_of (tree e') = services_of (tree e)" unfolding e'(2) by (rule hosts_changed(4) [OF assms(1)])
  moreover have "hosts_ok cd (tree e')" "abs_hosts cd (tree e') = (abs_hosts cd (tree e))(h := None)"
    unfolding e'(2) by (rule abs_hosts_modify(3,4) [OF assms(2)])+
  ultimately show ?thesis by blast
qed

lemma host_nodes:
  assumes "hosts_ok cd (tree e)"
  shows "\<exists>n index. getDirNode client HOST_ROOT True False e = Inr (n, index) \<and>
    nodeNodes n = List.map (\<lambda>c. EtcdNode (path_key (host_dir @ [c])) False (the (leaf_map (dir_at host_dir (tree e)) c)) [])
      (visible_names (dir_at host_dir (tree e)))"
proof -
  let ?H = "dir_at host_dir (tree e)"
  have "bare_node (the (fmlookup ?H c)) p = EtcdNode (path_key p) False (the (leaf_map ?H c)) []"
    if "c \<in> set (visible_names ?H)" for c p
  proof -
    have "fmlookup ?H c \<noteq> None" using that by (simp del: dir_at.simps)
    then obtain v where "fmlookup ?H c = Some (Leaf v)" using assms unfolding hosts_ok_def dir_ok_def by blast
    then show ?thesis by (simp add: bare_node_def leaf_map_def)
  qed
  then have "nodeNodes (shallow_node (Branch ?H) (key_path HOST_ROOT))
      = List.map (\<lambda>c. EtcdNode (path_key (host_dir @ [c])) False (the (leaf_map ?H c)) []) (visible_names ?H)"
    unfolding key_path_roots by (simp add: shallow_node_def del: dir_at.simps path_key.simps append.simps)
  moreover have "plain_key HOST_ROOT" by (simp add: plain_key_def key_path_roots)
  moreover have "no_leaf (key_path HOST_ROOT) (tree e)" using assms by (simp add: hosts_ok_def key_path_roots)
  ultimately show ?thesis using getDirNode_missing_ok [of HOST_ROOT e False] by (simp add: key_path_roots del: dir_at.simps)
qed

lemma GetHosts_ok:
  assumes "roots_ok (tree e)" and "hosts_ok cd (tree e)"
  shows "\<exists>hs. distinct hs \<and> set hs = dom (of_live (sessions_of (tree e)) (abs_hosts cd (tree e))) \<and>
    etcd_GetHosts cd client e = Inr (List.map (\<lambda>h. fst (the (abs_hosts cd (tree e) h))) hs)"
proof -
  let ?H = "dir_at host_dir (tree e)" and ?live = "sessions_of (tree e)"
  let ?hs = "filter (\<lambda>c. snd (the (abs_hosts cd (tree e) c)) \<in> ?live) (visible_names ?H)"
  have leaf: "\<exists>v x. leaf_map ?H c = Some v \<and> decHost cd v = Some x \<and> abs_hosts cd (tree e) c = Some x"
    if "fmlookup ?H c \<noteq> None" for c
    using that assms(2) by (fastforce simp: hosts_ok_def dir_ok_def abs_hosts_def leaf_map_def simp del: dir_at.simps no_leaf.simps)
  obtain n index where n: "getDirNode client HOST_ROOT True False e = Inr (n, index)"
    "nodeNodes n = List.map (\<lambda>c. EtcdNode (path_key (host_dir @ [c])) False (the (leaf_map ?H c)) []) (visible_names ?H)"
    using host_nodes [OF assms(2)] by blast
  have dec: "\<forall>m \<in> set (nodeNodes n). decHost cd (nodeValue m) \<noteq> None" unfolding n(2) using leaf by fastforce
  have same: "decHost cd (the (leaf_map ?H c)) = abs_hosts cd (tree e) c" if "c \<in> set (visible_names ?H)" for c
    using leaf [of c] that by auto
  have "?hs = filter (\<lambda>c. snd (the (decHost cd (the (leaf_map ?H c)))) \<in> ?live) (visible_names ?H)"
    by (rule filter_cong) (simp_all add: same del: dir_at.simps)
  moreover have "List.map (\<lambda>c. fst (the (decHost cd (the (leaf_map ?H c))))) ?hs = List.map (\<lambda>h. fst (the (abs_hosts cd (tree e) h))) ?hs"
    by (rule map_cong) (simp_all add: same del: dir_at.simps)
  moreover have "etcd_GetHosts cd client e = Inr (List.map (\<lambda>c. fst (the (decHost cd (the (leaf_map ?H c)))))
      (filter (\<lambda>c. snd (the (decHost cd (the (leaf_map ?H c)))) \<in> ?live) (visible_names ?H)))"
    by (simp add: etcd_GetHosts_def liveSessions_ok [OF assms(1)] n(1) live_hosts_ok [OF dec] del: dir_at.simps)
      (simp add: n(2) filter_map comp_def del: dir_at.simps)
  ultimately have "etcd_GetHosts cd client e = Inr (List.map (\<lambda>h. fst (the (abs_hosts cd (tree e) h))) ?hs)"
    by (simp only:)
  moreover have "set ?hs = dom (of_live ?live (abs_hosts cd (tree e)))"
  proof (rule set_eqI)
    fix c
    have "fmlookup ?H c \<noteq> None \<and> visible c" if "abs_hosts cd (tree e) c \<noteq> None"
      using that assms(2) by (auto simp: abs_hosts_def leaf_map_def hosts_ok_def dir_ok_def bind_eq_Some_conv simp del: dir_at.simps
          split: option.splits etcd_tree.splits)
    then show "c \<in> set ?hs \<longleftrightarrow> c \<in> dom (of_live ?live (abs_hosts cd (tree e)))"
      using leaf [of c] by (auto simp: of_live_def split: option.splits if_splits)
  qed
  ultimately show ?thesis by (intro exI [of _ ?hs]) simp
qed

end

end
