(* ===== verification/EtcdSuite.thy ===== *)
theory EtcdSuite
  imports StoreConforms EtcdHosts FluxCorrect
begin

text \<open>
  The etcd store under the tests of \<open>common/store/test/suite.go\<close>, as \<open>common/store/etcdstore/etcdstore_test.go\<close>
  runs them: a reset deletes the root of the store. Over every etcd server that keeps its contract
  it keeps the contract of the tests.
\<close>

section \<open>The server\<close>

text \<open>
  The change of a key below the root of the hosts, as the recursive watcher of that root gets it.
\<close>

definition told_host :: "string \<times> string \<Rightarrow> etcd_response list" where
  "told_host c = (if take 2 (key_path (snd c)) = host_dir
     then [\<lparr>reAction = fst c, reKey = path_key (key_path (snd c))\<rparr>] else [])"

text \<open>
  What the tests need of etcd beyond \<open>etcd_history\<close>: the watcher of the hosts is told of changes like
  that of the services, the deletion of a key that is missing fails with the code that says so, and
  the members of the cluster can be listed.
\<close>

locale etcd_server = etcd_history client tree index changes
  for client :: "'e etcd_client" and tree and index :: "'e \<Rightarrow> nat" and changes +
  fixes host_changes :: "nat \<Rightarrow> 'e \<Rightarrow> etcd_response list" and key_not_found :: "string \<Rightarrow> bool"
    and members :: "'e \<Rightarrow> string option"
  assumes hosts_none_since: "host_changes (index e) e = []"
    and set_told_host: "plain_key key \<Longrightarrow> 2 \<le> length (key_path key) \<Longrightarrow> clSet client key v ttl e = (err, e') \<Longrightarrow>
      i \<le> index e \<Longrightarrow> host_changes i e' = host_changes i e @ (if err = None then told_host (''set'', key) else [])"
    and delete_told_host: "plain_key key \<Longrightarrow> 2 \<le> length (key_path key) \<Longrightarrow> clDelete client key rec e = (err, e') \<Longrightarrow>
      i \<le> index e \<Longrightarrow> host_changes i e' = host_changes i e @ (if err = None then told_host (''delete'', key) else [])"
    and missing_code: "plain_key key \<Longrightarrow> tree_delete True (key_path key) (tree e) = None \<Longrightarrow>
      clDelete client key True e = (Some m, e') \<Longrightarrow> key_not_found m"
    and members_listed: "members e = None"

text \<open>The reference tree with a journal of the changes of its keys.\<close>

definition journal_client :: "(etcd_dir \<times> (string \<times> string) list) etcd_client" where
  "journal_client =
     \<lparr>clGet = (\<lambda>key r e. case tree_get (key_path key) (fst e) of
          None \<Rightarrow> KeyNotFound (length (snd e))
        | Some t \<Rightarrow> GotNode ((if r then full_node t else shallow_node t) (key_path key)) (length (snd e))),
      clSet = (\<lambda>key v ttl e. case tree_set (key_path key) v (fst e) of
          None \<Rightarrow> (Some ''not a file'', e)
        | Some d \<Rightarrow> (None, (d, snd e @ [(''set'', key)]))),
      clDelete = (\<lambda>key r e. case tree_delete r (key_path key) (fst e) of
          None \<Rightarrow> (Some ''key not found'', e)
        | Some d \<Rightarrow> (None, (d, snd e @ [(''delete'', key)])))\<rparr>"

interpretation journal: etcd_server journal_client fst "\<lambda>e. length (snd e)" "\<lambda>i e. concat (map told (drop i (snd e)))"
  "\<lambda>i e. concat (map told_host (drop i (snd e)))" "\<lambda>m. m = ''key not found''" "\<lambda>e. None"
  by unfold_locales (auto simp: journal_client_def split: option.splits)

section \<open>The store as the tests use it\<close>

definition etcd_Ping :: "('e \<Rightarrow> string option) \<Rightarrow> 'e \<Rightarrow> etcd_error option" where
  "etcd_Ping members e = map_option ClientError (members e)"

definition etcd_Reset ::
  "'e etcd_client \<Rightarrow> (string \<Rightarrow> bool) \<Rightarrow> etcd_session \<times> 'e \<Rightarrow> (etcd_session \<times> 'e) option" where
  "etcd_Reset client key_not_found x =
     (case x of (session, e) \<Rightarrow>
        case deleteRecursive client ROOT e of
          (None, e') \<Rightarrow> Some (session, e')
        | (Some (ClientError m), e') \<Rightarrow> if key_not_found m then Some (session, e') else None
        | (Some _, e') \<Rightarrow> None)"

fun etcd_call ::
  "codec \<Rightarrow> 'e etcd_client \<Rightarrow> string \<Rightarrow> store_call \<Rightarrow> etcd_session \<times> 'e \<Rightarrow>
     (etcd_error option \<times> etcd_session \<times> 'e) option" where
  "etcd_call cd client fresh (CallAddService n d) (se, e) = Some (map_prod id (Pair se) (etcd_AddService cd client n d e))"
| "etcd_call cd client fresh (CallRemoveService n) (se, e) = Some (map_prod id (Pair se) (etcd_RemoveService client n e))"
| "etcd_call cd client fresh CallRemoveAllServices (se, e) = Some (map_prod id (Pair se) (etcd_RemoveAllServices client e))"
| "etcd_call cd client fresh (CallSetContainerRule n r c) (se, e) =
     Some (map_prod id (Pair se) (etcd_SetContainerRule cd client n r c e))"
| "etcd_call cd client fresh (CallRemoveContainerRule n r) (se, e) =
     Some (map_prod id (Pair se) (etcd_RemoveContainerRule client n r e))"
| "etcd_call cd client fresh (CallAddInstance n k x) (se, e) =
     map_option (map_prod id (Pair se)) (etcd_AddInstance cd client se n k x e)"
| "etcd_call cd client fresh (CallRemoveInstance n k) (se, e) =
     Some (map_prod id (Pair se) (etcd_RemoveInstance client n k e))"
| "etcd_call cd client fresh (CallAddIngressInstance n a x) (se, e) =
     map_option (map_prod id (Pair se)) (etcd_AddIngressInstance cd client se n a x e)"
| "etcd_call cd client fresh (CallRemoveIngressInstance n a) (se, e) =
     Some (map_prod id (Pair se) (etcd_RemoveIngressInstance client n a e))"
| "etcd_call cd client fresh (CallHeartbeat ttl) (se, e) = Some (etcd_Heartbeat client fresh ttl (se, e))"
| "etcd_call cd client fresh CallEndSession (se, e) = Some (map_prod id (Pair se) (etcd_EndSession client se e))"
| "etcd_call cd client fresh (CallRegisterHost h d) (se, e) =
     map_option (map_prod id (Pair se)) (etcd_RegisterHost cd client se h d e)"
| "etcd_call cd client fresh (CallDeregisterHost h) (se, e) =
     Some (map_prod id (Pair se) (etcd_DeregisterHost client h e))"

text \<open>
  The watches get the responses of the server in order, and their context is cancelled in the end.
\<close>

definition etcd_testable ::
  "string ordering \<Rightarrow> codec \<Rightarrow> (string \<Rightarrow> string \<Rightarrow> int option) \<Rightarrow> 'e etcd_client \<Rightarrow> (nat \<Rightarrow> 'e \<Rightarrow> etcd_response list) \<Rightarrow>
     (nat \<Rightarrow> 'e \<Rightarrow> etcd_response list) \<Rightarrow> (string \<Rightarrow> bool) \<Rightarrow> ('e \<Rightarrow> string option) \<Rightarrow> string \<Rightarrow>
     (etcd_error, query_opts \<times> 'e, etcd_session \<times> 'e) testable_store" where
  "etcd_testable ord cd names client changes host_changes key_not_found members fresh =
     \<lparr>tsReset = etcd_Reset client key_not_found,
      tsPing = (\<lambda>(se, e). etcd_Ping members e),
      tsCheckRegisteredService = (\<lambda>n (se, e). etcd_CheckRegisteredService client n e),
      tsGetService = (\<lambda>n opts (se, e). etcd_GetService ord cd names client n opts e),
      tsGetAllServices = (\<lambda>opts (se, e). etcd_GetAllServices ord cd names client opts e),
      tsGetHosts = (\<lambda>(se, e). etcd_GetHosts cd client e),
      tsCall = etcd_call cd client fresh,
      tsWatchServices = (\<lambda>opts (se, e). ((opts, e), (se, e))),
      tsServiceChanges = (\<lambda>(opts, e0) (se, e). fst (etcd_WatchServices ord opts client
         (\<lambda>i. map NextResponse (changes i e) @ [NextCanceled :: string watch_next]) e0)),
      tsWatchHosts = (\<lambda>(se, e). ((no_opts, e), (se, e))),
      tsHostChanges = (\<lambda>(opts, e0) (se, e). map_option fst (etcd_WatchHosts client
         (\<lambda>i. map NextResponse (host_changes i e) @ [NextCanceled :: string watch_next]) e0)),
      tsCancel = (\<lambda>w s. s)\<rparr>"

lemma services_canceled:
  "watch_services_loop ord opts (map NextResponse rs @ [NextCanceled]) svcs = (fst (watch_services_run ord opts rs svcs), None)"
  by (induction rs arbitrary: svcs) (auto split: prod.splits)

lemma hosts_canceled_snoc:
  assumes "\<And>hosts. \<exists>hosts'. handle_host_response r hosts = Some (out, hosts')"
    and "watch_hosts_loop (map NextResponse rs @ [NextCanceled :: 'w watch_next]) hosts = Some (cs, None)"
  shows "watch_hosts_loop (map NextResponse (rs @ [r]) @ [NextCanceled :: 'w watch_next]) hosts = Some (cs @ out, None)"
  using assms(2)
proof (induction rs arbitrary: hosts cs)
  case Nil
  then show ?case using assms(1) [of hosts] by auto
next
  case (Cons x rs)
  then obtain o1 h1 where x: "handle_host_response x hosts = Some (o1, h1)" by (auto split: option.splits)
  with Cons.prems obtain o2 where "cs = o1 @ o2" "watch_hosts_loop (map NextResponse rs @ [NextCanceled :: 'w watch_next]) h1 = Some (o2, None)"
    by auto
  with Cons.IH [of h1 o2] x show ?case by simp
qed

section \<open>What it shows\<close>

definition tagged :: "string \<Rightarrow> service_info \<Rightarrow> abs_service" where
  "tagged sess i =
     \<lparr>asService = service.truncate i, asInstances = (\<lambda>k. map_option (\<lambda>x. (x, sess)) (Instances i k)),
      asRules = ContainerRules i, asIngress = (\<lambda>a. map_option (\<lambda>x. (x, sess)) (IngressInstances i a))\<rparr>"

definition lift_view :: "string \<Rightarrow> suite_view \<Rightarrow> string \<rightharpoonup> abs_service" where
  "lift_view sess V = (\<lambda>n. map_option (tagged sess) (vwServices V n))"

definition services_made :: "etcd_dir \<Rightarrow> bool" where
  "services_made d \<longleftrightarrow> fmlookup (subdir ''weave-flux'' d) ''service'' \<noteq> None"

definition tree_shows :: "codec \<Rightarrow> (string \<Rightarrow> string \<Rightarrow> int option) \<Rightarrow> string \<Rightarrow> suite_view \<Rightarrow> etcd_dir \<Rightarrow> bool" where
  "tree_shows cd names sess V d \<longleftrightarrow> etcd_ok cd names d \<and> hosts_ok cd d \<and>
     (sess \<in> sessions_of d \<longleftrightarrow> vwSession V = Alive) \<and> abs_services cd names d = lift_view sess V \<and>
     abs_hosts cd d = (\<lambda>h. map_option (\<lambda>x. (x, sess)) (vwHosts V h)) \<and> (vwMade V \<longrightarrow> services_made d)"

definition session_shows :: "string \<Rightarrow> suite_view \<Rightarrow> etcd_session \<Rightarrow> bool" where
  "session_shows sess V se \<longleftrightarrow> (se = None \<or> se = Some sess) \<and> (vwStarted V \<longrightarrow> se = Some sess) \<and>
     (vwSession V = Alive \<longrightarrow> vwStarted V)"

definition etcd_covers :: "codec \<Rightarrow> (string \<Rightarrow> string \<Rightarrow> int option) \<Rightarrow> string \<Rightarrow> store_call \<Rightarrow> bool" where
  "etcd_covers cd names sess c \<longleftrightarrow>
     (case c of
        CallAddService n d \<Rightarrow> listed_name n \<and> encodes (encService cd) (decService cd) d
      | CallSetContainerRule n r x \<Rightarrow> listed_name r \<and> encodes (encRule cd) (decRule cd) x
      | CallRemoveContainerRule n r \<Rightarrow> listed_name r
      | CallAddInstance n k x \<Rightarrow> listed_name k \<and> encodes (encInstance cd) (decInstance cd) (x, sess)
      | CallRemoveInstance n k \<Rightarrow> listed_name k
      | CallAddIngressInstance n a x \<Rightarrow> length (ipBytes a) = 16 \<and> \<not> ip_IsUnspecified (ipBytes a) \<and>
          0 \<le> ipPortNum a \<and> ipPortNum a \<le> 65535 \<and> encodes (encIngress cd) (decIngress cd) (x, sess)
      | CallRemoveIngressInstance n a \<Rightarrow> length (ipBytes a) = 16 \<and> \<not> ip_IsUnspecified (ipBytes a) \<and>
          0 \<le> ipPortNum a \<and> ipPortNum a \<le> 65535
      | CallRegisterHost h d \<Rightarrow> listed_name h \<and> encodes (encHost cd) (decHost cd) (d, sess)
      | CallDeregisterHost h \<Rightarrow> listed_name h
      | _ \<Rightarrow> True)"

text \<open>The calls on services as operations of the refinement.\<close>

fun service_call :: "string \<Rightarrow> store_call \<Rightarrow> service_op option" where
  "service_call sess (CallAddService n d) = Some (PutService n d)"
| "service_call sess (CallRemoveService n) = Some (DropService n)"
| "service_call sess CallRemoveAllServices = Some DropServices"
| "service_call sess (CallSetContainerRule n r x) = Some (PutRule n r x)"
| "service_call sess (CallRemoveContainerRule n r) = Some (DropRule n r)"
| "service_call sess (CallAddInstance n k x) = Some (PutInstance sess n k x)"
| "service_call sess (CallRemoveInstance n k) = Some (DropInstance n k)"
| "service_call sess (CallAddIngressInstance n a x) = Some (PutIngress sess n a x)"
| "service_call sess (CallRemoveIngressInstance n a) = Some (DropIngress n a)"
| "service_call sess _ = None"

lemma service_call_update:
  assumes "service_call sess c = Some op" and "allowed c V"
  shows "abs_op op (lift_view sess V) = lift_view sess (effect c V)"
proof -
  have field: "tagged sess (i\<lparr>ContainerRules := R\<rparr>) = (tagged sess i)\<lparr>asRules := R\<rparr>"
    "tagged sess (i\<lparr>Instances := I\<rparr>) = (tagged sess i)\<lparr>asInstances := (\<lambda>k. map_option (\<lambda>x. (x, sess)) (I k))\<rparr>"
    "tagged sess (i\<lparr>IngressInstances := A\<rparr>) = (tagged sess i)\<lparr>asIngress := (\<lambda>a. map_option (\<lambda>x. (x, sess)) (A a))\<rparr>"
    for i R I A by (simp_all add: tagged_def service.defs)
  have new: "tagged sess (plain_service d) = new_service d" for d
    by (simp add: tagged_def plain_service_def new_service_def service.defs)
  have upd: "(\<lambda>k. map_option (\<lambda>x. (x, sess)) ((m(n := v)) k)) = (\<lambda>k. map_option (\<lambda>x. (x, sess)) (m k))(n := map_option (\<lambda>x. (x, sess)) v)"
    for m :: "'k \<rightharpoonup> 'v" and n v by (simp add: fun_eq_iff)
  have sel: "asRules (tagged sess i) = ContainerRules i" "asInstances (tagged sess i) = (\<lambda>k. map_option (\<lambda>x. (x, sess)) (Instances i k))"
    "asIngress (tagged sess i) = (\<lambda>a. map_option (\<lambda>x. (x, sess)) (IngressInstances i a))" for i by (simp_all add: tagged_def)
  show ?thesis using assms
    by (cases c) (auto simp: lift_view_def change_service_def service_with_def field new upd sel fun_eq_iff)
qed

lemma service_call_notices:
  assumes "service_call sess c = Some op" and "allowed c V" and "ordering_ok ord"
  shows "op_events ord opts op (dom (vwServices V)) = (service_notices opts c V, dom (vwServices (effect c V)))"
proof (cases "c = CallRemoveAllServices")
  case True
  then have "dom (vwServices V) = {} \<or> (\<exists>m. dom (vwServices V) = {m})" using assms(2) by (auto simp: subset_singleton_iff)
  then show ?thesis using True assms(1) ordering_one [OF assms(3)] by (auto simp del: dom_eq_empty_conv)
qed (use assms(1,2) in \<open>cases c; auto simp: change_service_def service_with_def insert_absorb dom_def\<close>)

lemma service_call_ok:
  assumes "service_call sess c = Some op" and "allowed c V" and "etcd_covers cd names sess c"
    and "etcd_ok cd names d" and "abs_services cd names d = lift_view sess V"
  shows "etcd_op_ok cd names d op"
  using assms abs_services_listed [OF assms(4)]
  by (cases c) (auto simp: service_with_def etcd_covers_def lift_view_def)

lemma service_call_runs:
  assumes "service_call sess c = Some op" and "allowed c V" and "session_shows sess V se"
    and "etcd_op cd client op e = Some (None, e')"
  shows "etcd_call cd client sess c (se, e) = Some (None, se, e')"
  using assms by (cases c) (auto simp: session_shows_def etcd_AddInstance_def etcd_AddIngressInstance_def with_session_def)

section \<open>What the server makes of a call\<close>

lemma empty_store:
  assumes "fmlookup d ''weave-flux'' = None"
  shows "etcd_ok cd names d" and "hosts_ok cd d" and "sessions_of d = {}" and "abs_services cd names d = Map.empty"
    and "abs_hosts cd d = Map.empty"
proof -
  have sub: "subdir ''weave-flux'' d = fmempty" using assms by (simp add: subdir_def)
  have S: "services_of d = fmempty" by (simp add: services_of_def sub)
  show "etcd_ok cd names d" by (simp add: etcd_ok_def roots_ok_def S sub assms names_plain_def)
  show "hosts_ok cd d" by (simp add: hosts_ok_def sub assms)
  show "sessions_of d = {}" by (simp add: sessions_of_def sub)
  show "abs_services cd names d = Map.empty" by (simp add: abs_services_def S fun_eq_iff)
  show "abs_hosts cd d = Map.empty" by (simp add: abs_hosts_def sub fun_eq_iff)
qed

context etcd_server
begin

lemma set_writes:
  assumes "plain_key key" and "clSet client key v ttl e = (err, e')"
  shows "tree e' = tree e \<or> tree_set (key_path key) v (tree e) = Some (tree e')"
  using set_ok [OF assms(1), of v e _ ttl] set_fails [OF assms(1), of v e ttl] assms(2)
  by (cases "tree_set (key_path key) v (tree e)") fastforce+

lemma delete_writes:
  assumes "plain_key key" and "clDelete client key rec e = (err, e')"
  shows "tree e' = tree e \<or> tree_delete rec (key_path key) (tree e) = Some (tree e')"
  using delete_ok [OF assms(1), of rec e] delete_fails [OF assms(1), of rec e] assms(2)
  by (cases "tree_delete rec (key_path key) (tree e)") fastforce+

text \<open>A call that writes below the services or the sessions leaves the hosts alone, and their watch.\<close>

definition quiet_for_hosts :: "'e \<Rightarrow> 'e \<Rightarrow> bool" where
  "quiet_for_hosts e e' \<longleftrightarrow> same_hosts (tree e) (tree e') \<and>
     (\<forall>i. i \<le> index e \<longrightarrow> index e \<le> index e' \<and> host_changes i e' = host_changes i e)"

lemma told_host_other: "key_path key = r # x # p \<Longrightarrow> x \<noteq> ''host'' \<Longrightarrow> told_host (a, key) = []"
  by (simp add: told_host_def)

lemma set_quiet:
  assumes "plain_key key" and "key_path key = ''weave-flux'' # x # p" and "x \<noteq> ''host''" and "clSet client key v ttl e = (err, e')"
  shows "quiet_for_hosts e e'"
proof -
  have "same_hosts (tree e) (tree e')"
  proof (cases "tree e' = tree e")
    case False
    then have "tree_set (''weave-flux'' # x # p) v (tree e) = Some (tree e')"
      using set_writes [OF assms(1,4)] unfolding assms(2) by simp
    from tree_set_below [OF this assms(3)] show ?thesis by (rule same_hosts_below)
  qed simp
  then show ?thesis
    using set_told_host [OF assms(1) _ assms(4)] set_told [OF assms(1) _ assms(4)] assms(2) told_host_other [OF assms(2,3)]
    by (simp add: quiet_for_hosts_def)
qed

lemma delete_quiet:
  assumes "plain_key key" and "key_path key = ''weave-flux'' # x # p" and "x \<noteq> ''host''" and "clDelete client key rec e = (err, e')"
  shows "quiet_for_hosts e e'"
proof -
  have "same_hosts (tree e) (tree e')"
  proof (cases "tree e' = tree e")
    case False
    then have "tree_delete rec (''weave-flux'' # x # p) (tree e) = Some (tree e')"
      using delete_writes [OF assms(1,4)] unfolding assms(2) by simp
    from tree_delete_below [OF this assms(3)] show ?thesis by (rule same_hosts_below)
  qed simp
  then show ?thesis
    using delete_told_host [OF assms(1) _ assms(4)] delete_told [OF assms(1) _ assms(4)] assms(2) told_host_other [OF assms(2,3)]
    by (simp add: quiet_for_hosts_def)
qed

lemma quiet_refl: "quiet_for_hosts e e"
  by (simp add: quiet_for_hosts_def)

lemma setJSON_quiet:
  assumes "plain_key key" and "key_path key = ''weave-flux'' # x # p" and "x \<noteq> ''host''" and "setJSON client key enc e = (err, e')"
  shows "quiet_for_hosts e e'"
  using assms(4) set_quiet [OF assms(1-3)] quiet_refl by (auto simp: setJSON_def split: option.splits prod.splits)

lemma deleteRecursive_quiet:
  assumes "plain_key key" and "key_path key = ''weave-flux'' # x # p" and "x \<noteq> ''host''" and "deleteRecursive client key e = (err, e')"
  shows "quiet_for_hosts e e'"
  using assms(4) delete_quiet [OF assms(1-3)] by (auto simp: deleteRecursive_def split: prod.splits)

lemma op_path:
  assumes "etcd_ok cd names d" and "etcd_op_ok cd names d op"
  shows "\<exists>x p. key_path (snd (op_change op)) = ''weave-flux'' # x # p \<and> x \<in> {''service'', ''session''}"
proof -
  have l: "abs_services cd names d s \<noteq> None \<Longrightarrow> listed_name s" for s by (rule abs_services_listed [OF assms(1)])
  show ?thesis using assms(2)
    by (cases op; auto simp: listed_nameD l key_path_keys key_path_roots record_key_path address_key_path
        address_ok_specified tree_etcd.session_key_path)
qed

lemma op_quiet:
  assumes "etcd_ok cd names (tree e)" and "etcd_op_ok cd names (tree e) op" and "etcd_op cd client op e = Some (err, e')"
  shows "quiet_for_hosts e e'"
proof -
  obtain x p where k: "key_path (snd (op_change op)) = ''weave-flux'' # x # p" "x \<noteq> ''host''"
    using op_path [OF assms(1,2)] by auto
  note pl = op_key(1) [OF assms(1,2)]
  have set: ?thesis if "setJSON client (snd (op_change op)) enc e = (err, e')" for enc
    by (rule setJSON_quiet [OF pl k that])
  have del: ?thesis if "deleteRecursive client (snd (op_change op)) e = (err, e')"
    by (rule deleteRecursive_quiet [OF pl k that])
  show ?thesis
  proof (cases op)
    case (Beat sess ttl)
    then show ?thesis using assms(3) set_quiet [OF pl k] by (auto simp: etcd_Heartbeat_def split: prod.splits)
  qed (use assms(3) set del in \<open>auto simp: etcd_AddService_def etcd_RemoveService_def etcd_RemoveAllServices_def
      etcd_SetContainerRule_def etcd_RemoveContainerRule_def etcd_AddInstance_def etcd_RemoveInstance_def
      etcd_AddIngressInstance_def etcd_RemoveIngressInstance_def with_session_def\<close>)
qed

section \<open>The calls on services\<close>

lemma made_services: "abs_services cd names (tree e) n \<noteq> None \<Longrightarrow> services_made (tree e)"
  by (auto simp: abs_services_def services_of_def services_made_def subdir_def split: option.splits etcd_tree.splits)

lemma removal_succeeds:
  assumes "services_made (tree e)" and "etcd_ok cd names (tree e)"
  shows "fst (etcd_RemoveAllServices client e) = None"
proof -
  have "no_leaf [''weave-flux''] (tree e)" using assms(2) by (auto simp: etcd_ok_def roots_ok_def)
  moreover have "fmlookup (dir_at [''weave-flux''] (tree e)) ''service'' \<noteq> None" using assms(1) by (simp add: services_made_def)
  ultimately have "\<exists>d. tree_delete True (key_path SERVICE_ROOT) (tree e) = Some d"
    using tree_delete_modify [of "[''weave-flux'']" "tree e" "''service''" True] by (simp add: key_path_roots)
  moreover have "plain_key SERVICE_ROOT" by (simp add: plain_key_def key_path_roots)
  ultimately show ?thesis using delete_ok [of SERVICE_ROOT True e] by (auto simp: etcd_RemoveAllServices_def deleteRecursive_def)
qed

lemma removed_service_made:
  assumes "services_made (tree e)" and "listed_name n" and "etcd_RemoveService client n e = (err, e')"
  shows "services_made (tree e')"
proof -
  have kp: "key_path (serviceRootKey n) = [''weave-flux'', ''service'', n]" and pk: "plain_key (serviceRootKey n)"
    using key_path_keys(1) [OF listed_nameD(3) [OF assms(2)]] plain_keys(1) [OF listed_nameD(1) [OF assms(2)]] by simp_all
  have "services_made d'" if "tree_delete True [''weave-flux'', ''service'', n] d = Some d'" for d d'
    using that by (auto simp: services_made_def subdir_def split: option.splits etcd_tree.splits)
  then show ?thesis using delete_writes [OF pk, of True e] assms(1,3) unfolding kp
    by (auto simp: etcd_RemoveService_def deleteRecursive_def split: prod.splits)
qed

lemma refused_changes_nothing:
  assumes "service_call sess c = Some op" and "allowed c V" and "fst (op_change op) = ''delete''"
    and "lift_view sess (effect c V) = lift_view sess V"
  shows "c = CallRemoveAllServices"
proof (rule ccontr)
  assume c: "c \<noteq> CallRemoveAllServices"
  have inj: "map_option (\<lambda>x. (x, sess)) a = map_option (\<lambda>x. (x, sess)) b \<longleftrightarrow> a = b" for a b :: "'v option"
    by (cases a; cases b) auto
  have "tagged sess i = tagged sess j \<Longrightarrow> i = j" for i j
    by (cases i; cases j) (auto simp: tagged_def service.defs fun_eq_iff inj)
  then have "x = y" if "map_option (tagged sess) x = map_option (tagged sess) y" for x y
    using that by (cases x; cases y) auto
  then have "vwServices (effect c V) n = vwServices V n" for n
    using fun_cong [OF assms(4), of n] by (simp add: lift_view_def)
  then have "vwServices (effect c V) = vwServices V" by (rule ext)
  moreover have noop: "i = i\<lparr>ContainerRules := (ContainerRules i)(r := None)\<rparr> \<longleftrightarrow> ContainerRules i r = None"
    "i = i\<lparr>Instances := (Instances i)(k := None)\<rparr> \<longleftrightarrow> Instances i k = None"
    "i = i\<lparr>IngressInstances := (IngressInstances i)(a := None)\<rparr> \<longleftrightarrow> IngressInstances i a = None"
    for i :: service_info and r k a
    by (cases i; auto simp: fun_eq_iff)+
  ultimately show False using assms(1-3) c
    by (cases c) (auto simp: change_service_def service_with_def fun_upd_idem_iff dest: noop [THEN iffD1])
qed

lemma service_call_sim:
  assumes "service_call sess c = Some op" and "allowed c V" and "etcd_covers cd names sess c"
    and "tree_shows cd names sess V (tree e)"
  shows "\<exists>e'. etcd_op cd client op e = Some (None, e') \<and> tree_shows cd names sess (effect c V) (tree e') \<and> quiet_for_hosts e e'"
proof -
  have ok: "etcd_ok cd names (tree e)" and view: "abs_services cd names (tree e) = lift_view sess V"
    using assms(4) by (simp_all add: tree_shows_def)
  note op_ok = service_call_ok [OF assms(1-3) ok view]
  obtain err e' where out: "op_outcome cd names op e err e'" using op_refines [OF ok op_ok] by blast
  then have run: "etcd_op cd client op e = Some (err, e')" by (simp add: op_outcome_def)
  have "err = None"
  proof (rule ccontr)
    assume "err \<noteq> None"
    then have "fst (op_change op) = ''delete''" "abs_op op (lift_view sess V) = lift_view sess V"
      using out view by (auto simp: op_outcome_def)
    then have "c = CallRemoveAllServices"
      using refused_changes_nothing [OF assms(1,2)] service_call_update [OF assms(1,2)] by simp
    then have "services_made (tree e)" "op = DropServices" using assms(1,2,4) by (auto simp: tree_shows_def)
    then show False using removal_succeeds [OF _ ok] run \<open>err \<noteq> None\<close> by (metis etcd_op.simps(3) fst_conv option.inject)
  qed
  then have b: "becomes cd names (tree e) (lift_view sess (effect c V)) (tree e')"
    using out service_call_update [OF assms(1,2)] view by (simp add: op_outcome_def)
  have quiet: "quiet_for_hosts e e'" by (rule op_quiet [OF ok op_ok run])
  have keep: "vwSession (effect c V) = vwSession V" "vwHosts (effect c V) = vwHosts V"
    using assms(1) by (cases c; simp add: change_service_def)+
  have made: "services_made (tree e')" if m: "vwMade (effect c V)"
  proof (cases "\<exists>n. vwServices (effect c V) n \<noteq> None")
    case True
    then obtain n where "abs_services cd names (tree e') n \<noteq> None" using b by (auto simp: becomes_def lift_view_def)
    then show ?thesis by (rule made_services)
  next
    case False
    then obtain n where c: "c = CallRemoveService n" "op = DropService n"
      using assms(1,2) m by (cases c) (auto simp: change_service_def service_with_def split: if_splits)
    have "abs_services cd names (tree e) n \<noteq> None" using assms(2) c view by (auto simp: lift_view_def)
    then have "services_made (tree e)" "listed_name n" using made_services abs_services_listed [OF ok] by blast+
    then show ?thesis using removed_service_made run c by auto
  qed
  have "tree_shows cd names sess (effect c V) (tree e')"
    using b made quiet keep assms(4) same_hostsD by (auto simp: tree_shows_def becomes_def quiet_for_hosts_def)
  then show ?thesis using run \<open>err = None\<close> quiet by blast
qed

section \<open>The watches\<close>

definition heard ::
  "codec \<Rightarrow> (string \<Rightarrow> string \<Rightarrow> int option) \<Rightarrow> string ordering \<Rightarrow> suite_view \<Rightarrow> (query_opts \<times> 'e) suite_watch option \<Rightarrow> 'e \<Rightarrow> bool" where
  "heard cd names ord V W e \<longleftrightarrow>
     (case W of
        None \<Rightarrow> True
      | Some (ServiceWatch (o', e0) opts cs) \<Rightarrow> o' = opts \<and> etcd_ok cd names (tree e0) \<and> index e0 \<le> index e \<and>
          watch_output ord opts client changes e0 e = (cs, dom (vwServices V))
      | Some (HostWatch (o', e0) hcs) \<Rightarrow> hosts_ok cd (tree e0) \<and> index e0 \<le> index e \<and>
          (\<forall>hosts. watch_hosts_loop (map NextResponse (host_changes (index e0) e) @ [NextCanceled :: string watch_next]) hosts
             = Some (hcs, None)))"

definition quiet_for_services :: "'e \<Rightarrow> 'e \<Rightarrow> bool" where
  "quiet_for_services e e' \<longleftrightarrow> (\<forall>i. i \<le> index e \<longrightarrow> index e \<le> index e' \<and> changes i e' = changes i e)"

lemma watch_output_quiet:
  assumes "quiet_for_services e e'" and "etcd_ok cd names (tree e0)" and "index e0 \<le> index e"
  shows "watch_output ord opts client changes e0 e' = watch_output ord opts client changes e0 e" and "index e0 \<le> index e'"
  using assms(1,3) by (auto simp: quiet_for_services_def watch_output_def watch_starts [OF assms(2)])

lemma heard_service_call:
  assumes "service_call sess c = Some op" and "allowed c V" and "etcd_covers cd names sess c" and "ordering_ok ord"
    and "tree_shows cd names sess V (tree e)" and "heard cd names ord V W e"
    and "etcd_op cd client op e = Some (None, e')" and "quiet_for_hosts e e'"
  shows "heard cd names ord (effect c V) (map_option (hear c V) W) e'"
proof -
  have ok: "etcd_ok cd names (tree e)" and view: "abs_services cd names (tree e) = lift_view sess V"
    using assms(5) by (simp_all add: tree_shows_def)
  note op_ok = service_call_ok [OF assms(1-3) ok view]
  have none: "host_notices c = []" using assms(1) by (cases c) simp_all
  show ?thesis
  proof (cases W)
    case (Some x)
    show ?thesis
    proof (cases x)
      case (ServiceWatch w opts cs)
      then obtain e0 where w: "w = (opts, e0)" "etcd_ok cd names (tree e0)" "index e0 \<le> index e"
        "watch_output ord opts client changes e0 e = (cs, dom (vwServices V))"
        using assms(6) Some by (cases w) (auto simp: heard_def)
      from op_output [OF w(2) ok w(3) op_ok assms(7) w(4)] show ?thesis
        using service_call_notices [OF assms(1,2,4), of opts] Some ServiceWatch w(1-3) by (simp add: heard_def)
    next
      case (HostWatch w hcs)
      then obtain o' e0 where "w = (o', e0)" "index e0 \<le> index e" using assms(6) Some by (cases w) (auto simp: heard_def)
      then show ?thesis using assms(6,8) Some HostWatch none by (fastforce simp: heard_def quiet_for_hosts_def)
    qed
  qed (simp add: heard_def)
qed

lemma heard_quiet:
  assumes "heard cd names ord V W e" and "quiet_for_services e e'" and "quiet_for_hosts e e'"
    and "\<And>opts. service_notices opts c V = []" and "host_notices c = []" and "vwServices (effect c V) = vwServices V"
  shows "heard cd names ord (effect c V) (map_option (hear c V) W) e'"
proof (cases W)
  case (Some x)
  show ?thesis
  proof (cases x)
    case (ServiceWatch w opts cs)
    then show ?thesis using assms(1,4,6) Some watch_output_quiet [OF assms(2)] by (cases w) (auto simp: heard_def)
  next
    case (HostWatch w hcs)
    then obtain o' e0 where "w = (o', e0)" "index e0 \<le> index e" using assms(1) Some by (cases w) (auto simp: heard_def)
    then show ?thesis using assms(1,3,5) Some HostWatch by (fastforce simp: heard_def quiet_for_hosts_def)
  qed
qed (simp add: heard_def)

lemma heard_host_call:
  assumes "heard cd names ord V W e" and "quiet_for_services e e'"
    and "\<And>i. i \<le> index e \<Longrightarrow> host_changes i e' = host_changes i e @ [r]"
    and "\<And>hosts. \<exists>hosts'. handle_host_response r hosts = Some (host_notices c, hosts')"
    and "\<And>opts. service_notices opts c V = []" and "vwServices (effect c V) = vwServices V"
  shows "heard cd names ord (effect c V) (map_option (hear c V) W) e'"
proof (cases W)
  case (Some x)
  show ?thesis
  proof (cases x)
    case (ServiceWatch w opts cs)
    then show ?thesis using assms(1,5,6) Some watch_output_quiet [OF assms(2)] by (cases w) (auto simp: heard_def)
  next
    case (HostWatch w hcs)
    then obtain o' e0 where w: "w = (o', e0)" "hosts_ok cd (tree e0)" "index e0 \<le> index e"
      "\<And>hosts. watch_hosts_loop (map NextResponse (host_changes (index e0) e) @ [NextCanceled :: string watch_next]) hosts
        = Some (hcs, None)" using assms(1) Some by (cases w) (auto simp: heard_def)
    have "index e0 \<le> index e'" using assms(2) w(3) by (fastforce simp: quiet_for_services_def)
    moreover have "watch_hosts_loop (map NextResponse (host_changes (index e0) e') @ [NextCanceled :: string watch_next]) hosts
        = Some (hcs @ host_notices c, None)" for hosts
      unfolding assms(3) [OF w(3)] by (rule hosts_canceled_snoc [OF assms(4) w(4)])
    ultimately show ?thesis using Some HostWatch w(1,2) by (simp add: heard_def)
  qed
qed (simp add: heard_def)

lemma other_quiet:
  assumes "plain_key key" and "key_path key = ''weave-flux'' # x # p" and "x \<noteq> ''service''"
  shows "clSet client key v ttl e = (err, e') \<Longrightarrow> quiet_for_services e e'"
    and "clDelete client key rec e = (err, e') \<Longrightarrow> quiet_for_services e e'"
  using set_told [OF assms(1) _ _, of v ttl e err e'] delete_told [OF assms(1) _ _, of rec e err e'] assms(2,3)
  by (auto simp: quiet_for_services_def told_def)

section \<open>The calls on sessions and hosts\<close>

lemma Heartbeat_sim:
  assumes "tree_shows cd names sess V (tree e)" and "heard cd names ord V W e" and "session_shows sess V se" and "listed_name sess"
    and "c = CallHeartbeat ttl"
  shows "\<exists>e'. etcd_call cd client sess c (se, e) = Some (None, Some sess, e') \<and>
    tree_shows cd names sess (effect c V) (tree e') \<and> heard cd names ord (effect c V) (map_option (hear c V) W) e'"
proof -
  have i: "(case se of None \<Rightarrow> sess | Some i \<Rightarrow> i) = sess" "\<forall>i. se = Some i \<longrightarrow> listed_name i"
    using assms(3,4) by (auto simp: session_shows_def)
  have ok: "etcd_ok cd names (tree e)" using assms(1) by (simp add: tree_shows_def)
  obtain e' where e': "etcd_Heartbeat client sess ttl (se, e) = (None, Some sess, e')" "etcd_ok cd names (tree e')"
    "sessions_of (tree e') = insert sess (sessions_of (tree e))" "abs_services cd names (tree e') = abs_services cd names (tree e)"
    using Heartbeat_ok [OF ok assms(4) i(2), of ttl] unfolding i(1) by blast
  have set: "clSet client (sessionKey sess) sess (Some ttl) e = (None, e')"
    using e'(1) i(1) by (auto simp: etcd_Heartbeat_def split: prod.splits)
  note k = session_key_path [OF assms(4)]
  have q: "quiet_for_hosts e e'" "quiet_for_services e e'"
    using set_quiet [OF k(2) _ _ set, of "''session''"] other_quiet(1) [OF k(2) _ _ set, of "''session''"] k(1) by simp_all
  have "services_made (tree e')" if "services_made (tree e)"
    using set_writes [OF k(2) set] that tree_set_below(1) [of "''weave-flux''" "''session''" _ _ _ _ "''service''"] k(1)
    by (auto simp: services_made_def)
  then have "tree_shows cd names sess (effect c V) (tree e')"
    using assms(1,5) e'(2-4) q(1) same_hostsD by (auto simp: tree_shows_def quiet_for_hosts_def lift_view_def)
  then show ?thesis using heard_quiet [OF assms(2) q(2,1), of c] assms(5) e'(1) by simp
qed

lemma EndSession_sim:
  assumes "tree_shows cd names sess V (tree e)" and "session_shows sess V se" and "listed_name sess" and "vwSession V = Alive"
  shows "\<exists>e'. etcd_call cd client sess CallEndSession (se, e) = Some (None, se, e') \<and>
    tree_shows cd names sess (effect CallEndSession V) (tree e')"
proof -
  have se: "se = Some sess" using assms(2,4) by (simp add: session_shows_def)
  have ok: "etcd_ok cd names (tree e)" "sess \<in> sessions_of (tree e)" using assms(1,4) by (simp_all add: tree_shows_def)
  obtain e' where e': "etcd_EndSession client (Some sess) e = (None, e')" "etcd_ok cd names (tree e')"
    "sessions_of (tree e') = sessions_of (tree e) - {sess}" "abs_services cd names (tree e') = abs_services cd names (tree e)"
    using EndSession_ok [OF ok(1) assms(3) ok(2)] by blast
  have del: "clDelete client (sessionKey sess) False e = (None, e')"
    using e'(1) by (auto simp: etcd_EndSession_def split: prod.splits)
  note k = session_key_path [OF assms(3)]
  have q: "quiet_for_hosts e e'" using delete_quiet [OF k(2) _ _ del, of "''session''"] k(1) by simp
  have "services_made (tree e')" if "services_made (tree e)"
    using delete_writes [OF k(2) del] that tree_delete_below(1) [of False "''weave-flux''" "''session''" _ _ _ "''service''"] k(1)
    by (auto simp: services_made_def)
  then have "tree_shows cd names sess (effect CallEndSession V) (tree e')"
    using assms(1,4) e'(2-4) q same_hostsD by (auto simp: tree_shows_def quiet_for_hosts_def lift_view_def)
  then show ?thesis using e'(1) se by simp
qed

lemma host_told:
  assumes "listed_name h"
  shows "told_host (a, hostKey h) = [\<lparr>reAction = a, reKey = hostKey h\<rparr>]" and "told (a, hostKey h) = []"
  unfolding told_host_def told_def fst_conv snd_conv host_key_path(1) [OF assms] path_keys(3) by simp_all

lemma host_quiet:
  assumes "listed_name h"
  shows "clSet client (hostKey h) v ttl e = (err, e') \<Longrightarrow> quiet_for_services e e'"
    and "clDelete client (hostKey h) rec e = (err, e') \<Longrightarrow> quiet_for_services e e'"
  using other_quiet [OF host_key_path(2) [OF assms]] host_key_path(1) [OF assms] by simp_all

lemma host_tree_shows:
  assumes "tree_shows cd names sess V (tree e)" and "becomes cd names (tree e) (abs_services cd names (tree e)) (tree e')"
    and "services_of (tree e') = services_of (tree e)" and "hosts_ok cd (tree e')"
    and "abs_hosts cd (tree e') = (\<lambda>h. map_option (\<lambda>x. (x, sess)) (vwHosts V' h))"
    and "vwServices V' = vwServices V" "vwSession V' = vwSession V" "vwMade V' = vwMade V" and "services_made (tree e) \<Longrightarrow> services_made (tree e')"
  shows "tree_shows cd names sess V' (tree e')"
  using assms by (auto simp: tree_shows_def becomes_def lift_view_def)

lemma RegisterHost_sim:
  assumes "tree_shows cd names sess V (tree e)" and "heard cd names ord V W e" and "etcd_covers cd names sess c"
    and "c = CallRegisterHost h d"
  shows "\<exists>e'. etcd_call cd client sess c (Some sess, e) = Some (None, Some sess, e') \<and>
    tree_shows cd names sess (effect c V) (tree e') \<and> heard cd names ord (effect c V) (map_option (hear c V) W) e'"
proof -
  have h: "listed_name h" "encodes (encHost cd) (decHost cd) (d, sess)" using assms(3,4) by (simp_all add: etcd_covers_def)
  have ok: "etcd_ok cd names (tree e)" "hosts_ok cd (tree e)" using assms(1) by (simp_all add: tree_shows_def)
  obtain e' where e': "etcd_RegisterHost cd client (Some sess) h d e = Some (None, e')"
    "becomes cd names (tree e) (abs_services cd names (tree e)) (tree e')" "services_of (tree e') = services_of (tree e)"
    "hosts_ok cd (tree e')" "abs_hosts cd (tree e') = (abs_hosts cd (tree e))(h \<mapsto> (d, sess))"
    using RegisterHost_ok [OF ok h] by blast
  obtain v where set: "clSet client (hostKey h) v None e = (None, e')"
    using e'(1) by (auto simp: etcd_RegisterHost_def with_session_def setJSON_def split: option.splits prod.splits)
  note k = host_key_path [OF h(1)]
  have made: "services_made (tree e) \<Longrightarrow> services_made (tree e')"
    using set_writes [OF k(2) set] tree_set_below(1) [of "''weave-flux''" "''host''" _ _ _ _ "''service''"] k(1)
    by (auto simp: services_made_def)
  have "tree_shows cd names sess (effect c V) (tree e')"
    by (rule host_tree_shows [OF assms(1) e'(2-4)]) (use e'(5) assms(1,4) made in \<open>auto simp: tree_shows_def fun_eq_iff\<close>)
  moreover have "heard cd names ord (effect c V) (map_option (hear c V) W) e'"
  proof (rule heard_host_call [OF assms(2)])
    show "host_changes i e' = host_changes i e @ [\<lparr>reAction = ''set'', reKey = hostKey h\<rparr>]" if "i \<le> index e" for i
      using set_told_host [OF k(2) _ set that] k(1) host_told(1) [OF h(1)] by simp
  qed (use host_quiet(1) [OF h(1) set] etcd_host_watch_panics assms(4) in auto)
  ultimately show ?thesis using e'(1) assms(4) by simp
qed

lemma DeregisterHost_sim:
  assumes "tree_shows cd names sess V (tree e)" and "heard cd names ord V W e" and "etcd_covers cd names sess c"
    and "c = CallDeregisterHost h" and "vwHosts V h \<noteq> None"
  shows "\<exists>e'. etcd_call cd client sess c (se, e) = Some (None, se, e') \<and>
    tree_shows cd names sess (effect c V) (tree e') \<and> heard cd names ord (effect c V) (map_option (hear c V) W) e'"
proof -
  have h: "listed_name h" using assms(3,4) by (simp add: etcd_covers_def)
  have ok: "etcd_ok cd names (tree e)" "hosts_ok cd (tree e)" "abs_hosts cd (tree e) h \<noteq> None"
    using assms(1,5) by (simp_all add: tree_shows_def)
  obtain e' where e': "etcd_DeregisterHost client h e = (None, e')"
    "becomes cd names (tree e) (abs_services cd names (tree e)) (tree e')" "services_of (tree e') = services_of (tree e)"
    "hosts_ok cd (tree e')" "abs_hosts cd (tree e') = (abs_hosts cd (tree e))(h := None)"
    using DeregisterHost_ok [OF ok(1,2) h ok(3)] by blast
  have del: "clDelete client (hostKey h) True e = (None, e')"
    using e'(1) by (auto simp: etcd_DeregisterHost_def deleteRecursive_def split: prod.splits)
  note k = host_key_path [OF h]
  have made: "services_made (tree e) \<Longrightarrow> services_made (tree e')"
    using delete_writes [OF k(2) del] tree_delete_below(1) [of True "''weave-flux''" "''host''" _ _ _ "''service''"] k(1)
    by (auto simp: services_made_def)
  have "tree_shows cd names sess (effect c V) (tree e')"
    by (rule host_tree_shows [OF assms(1) e'(2-4)]) (use e'(5) assms(1,4) made in \<open>auto simp: tree_shows_def fun_eq_iff\<close>)
  moreover have "heard cd names ord (effect c V) (map_option (hear c V) W) e'"
  proof (rule heard_host_call [OF assms(2)])
    show "host_changes i e' = host_changes i e @ [\<lparr>reAction = ''delete'', reKey = hostKey h\<rparr>]" if "i \<le> index e" for i
      using delete_told_host [OF k(2) _ del that] k(1) host_told(1) [OF h] by simp
  qed (use host_quiet(2) [OF h del] etcd_host_watch_panics assms(4) in auto)
  ultimately show ?thesis using e'(1) assms(4) by simp
qed

section \<open>The contract of the tests\<close>

definition etcd_sim ::
  "codec \<Rightarrow> (string \<Rightarrow> string \<Rightarrow> int option) \<Rightarrow> string ordering \<Rightarrow> string \<Rightarrow> suite_view \<Rightarrow>
     (query_opts \<times> 'e) suite_watch option \<Rightarrow> etcd_session \<times> 'e \<Rightarrow> bool" where
  "etcd_sim cd names ord sess V W x \<longleftrightarrow>
     (case x of (se, e) \<Rightarrow> tree_shows cd names sess V (tree e) \<and> session_shows sess V se \<and> heard cd names ord V W e)"

lemma Reset_sim:
  assumes "etcd_sim cd names ord sess V None (se, e)"
  shows "\<exists>e'. etcd_Reset client key_not_found (se, e) = Some (se, e') \<and> etcd_sim cd names ord sess (reset_view V) None (se, e')"
proof -
  have "key_path (''/weave-flux'' @ CHR ''/'' # []) = [''weave-flux'']"
    using key_path_append [of "[]" "''weave-flux''"] unfolding key_path_append by (simp add: key_path_def)
  then have kp: "key_path ROOT = [''weave-flux'']" by (simp add: ROOT_def)
  have pk: "plain_key ROOT" by (simp add: plain_key_def kp)
  have shows_empty: "etcd_sim cd names ord sess (reset_view V) None (se, e')" if "fmlookup (tree e') ''weave-flux'' = None" for e'
    using assms empty_store [OF that]
    by (auto simp: etcd_sim_def tree_shows_def session_shows_def reset_view_def lift_view_def heard_def fun_eq_iff)
  show ?thesis
  proof (cases "tree_delete True (key_path ROOT) (tree e)")
    case None
    then have gone: "fmlookup (tree e) ''weave-flux'' = None" unfolding kp by (auto split: option.splits etcd_tree.splits)
    obtain m e' where d: "clDelete client ROOT True e = (Some m, e')" "tree e' = tree e" using delete_fails [OF pk None] by blast
    then have "etcd_Reset client key_not_found (se, e) = Some (se, e')"
      using missing_code [OF pk None d(1)] by (simp add: etcd_Reset_def deleteRecursive_def)
    then show ?thesis using shows_empty [of e'] gone d(2) by simp
  next
    case (Some d)
    then have gone: "fmlookup d ''weave-flux'' = None" unfolding kp by (auto split: option.splits etcd_tree.splits)
    obtain e' where d: "clDelete client ROOT True e = (None, e')" "tree e' = d" using delete_ok [OF pk Some] by blast
    then have "etcd_Reset client key_not_found (se, e) = Some (se, e')" by (simp add: etcd_Reset_def deleteRecursive_def)
    then show ?thesis using shows_empty [of e'] gone d(2) by simp
  qed
qed

lemma of_live_tagged:
  "of_live live (\<lambda>k. map_option (\<lambda>x. (x, sess)) (M k)) = (if sess \<in> live then M else Map.empty)"
  by (auto simp: of_live_def fun_eq_iff split: option.splits)

lemma view_shows:
  assumes "tree_shows cd names sess V d"
  shows "abs_info opts (sessions_of d) (tagged sess i) = shown opts V i"
  using assms by (cases i) (simp add: abs_info_def tagged_def shown_def service.defs of_live_tagged tree_shows_def)

lemma call_sim_etcd:
  assumes "ordering_ok ord" and "listed_name sess" and "etcd_sim cd names ord sess V W (se, e)"
    and "etcd_covers cd names sess c" and "allowed c V" and "c = CallEndSession \<longrightarrow> W = None"
  shows "\<exists>s'. etcd_call cd client sess c (se, e) = Some (None, s') \<and>
    etcd_sim cd names ord sess (effect c V) (map_option (hear c V) W) s'"
proof -
  have sim: "tree_shows cd names sess V (tree e)" "session_shows sess V se" "heard cd names ord V W e"
    using assms(3) by (simp_all add: etcd_sim_def)
  have finish: "\<exists>s'. etcd_call cd client sess c (se, e) = Some (None, s') \<and>
      etcd_sim cd names ord sess (effect c V) (map_option (hear c V) W) s'"
    if "\<exists>e'. etcd_call cd client sess c (se, e) = Some (None, se', e') \<and>
      tree_shows cd names sess (effect c V) (tree e') \<and> heard cd names ord (effect c V) (map_option (hear c V) W) e'"
      "session_shows sess (effect c V) se'" for se'
    using that by (auto simp: etcd_sim_def)
  show ?thesis
  proof (cases "service_call sess c")
    case (Some op)
    obtain e' where e': "etcd_op cd client op e = Some (None, e')" "tree_shows cd names sess (effect c V) (tree e')" "quiet_for_hosts e e'"
      using service_call_sim [OF Some assms(5,4) sim(1)] by blast
    have "session_shows sess (effect c V) se"
      using sim(2) Some by (cases c; simp add: session_shows_def change_service_def)
    then show ?thesis
      using finish [of se] service_call_runs [OF Some assms(5) sim(2) e'(1)] e'(2)
        heard_service_call [OF Some assms(5,4,1) sim(1,3) e'(1,3)] by blast
  next
    case None
    then consider (beat) ttl where "c = CallHeartbeat ttl" | (over) "c = CallEndSession"
      | (reg) h d where "c = CallRegisterHost h d" | (dereg) h where "c = CallDeregisterHost h" by (cases c) auto
    then show ?thesis
    proof cases
      case (beat ttl)
      show ?thesis by (rule finish [OF Heartbeat_sim [OF sim(1,3,2) assms(2) beat]]) (simp add: session_shows_def beat)
    next
      case over
      then show ?thesis using EndSession_sim [OF sim(1,2) assms(2)] assms(5,6) sim(2)
        by (intro finish [of se]) (auto simp: heard_def session_shows_def)
    next
      case (reg h d)
      then have "se = Some sess" using assms(5) sim(2) by (simp add: session_shows_def)
      then show ?thesis using RegisterHost_sim [OF sim(1,3) assms(4) reg] sim(2) reg
        by (intro finish [of se]) (simp_all add: session_shows_def)
    next
      case (dereg h)
      then show ?thesis using DeregisterHost_sim [OF sim(1,3) assms(4) dereg, of se] assms(5) sim(2)
        by (intro finish [of se]) (simp_all add: session_shows_def)
    qed
  qed
qed

lemma services_watched:
  assumes "etcd_ok cd names (tree e0)" and "watch_output ord opts client changes e0 e = (cs, svcs)"
  shows "fst (etcd_WatchServices ord opts client (\<lambda>i. map NextResponse (changes i e) @ [NextCanceled :: string watch_next]) e0) = cs"
  using assms by (simp add: etcd_WatchServices_def watch_output_def watch_starts services_canceled)

lemma hosts_watched:
  assumes "hosts_ok cd (tree e0)"
    and "\<forall>hosts. watch_hosts_loop (map NextResponse (host_changes (index e0) e) @ [NextCanceled :: string watch_next]) hosts
      = Some (hcs, None)"
  shows "map_option fst (etcd_WatchHosts client (\<lambda>i. map NextResponse (host_changes i e) @ [NextCanceled :: string watch_next]) e0)
    = Some hcs"
proof -
  obtain n i where n: "getDirNode client HOST_ROOT True False e0 = Inr (n, i)" using host_nodes [OF assms(1)] by blast
  then have "i = index e0" using got_index missing_index by (auto simp: getDirNode_def split: get_result.splits if_splits)
  then show ?thesis using n assms(2) by (simp add: etcd_WatchHosts_def)
qed

lemma etcd_conforms:
  assumes "ordering_ok ord" and "listed_name sess"
  shows "conforming_store (etcd_testable ord cd names client changes host_changes key_not_found members sess)
    (etcd_covers cd names sess) (etcd_sim cd names ord sess)"
proof (unfold_locales, goal_cases)
  case (1 V s)
  then show ?case using Reset_sim by (cases s) (fastforce simp: etcd_testable_def)
next
  case (2 V W s)
  then show ?case by (cases s) (simp add: etcd_testable_def etcd_Ping_def members_listed)
next
  case (3 V W s n)
  obtain se e where s: "s = (se, e)" by (cases s)
  then have ok: "etcd_ok cd names (tree e)" and "abs_services cd names (tree e) n \<noteq> None"
    using 3 by (simp_all add: etcd_sim_def tree_shows_def lift_view_def)
  then show ?case using CheckRegisteredService_ok [OF ok] abs_services_listed [OF ok] s by (simp add: etcd_testable_def)
next
  case (4 V W s opts n i)
  obtain se e where s: "s = (se, e)" by (cases s)
  then have sh: "tree_shows cd names sess V (tree e)" using 4(1) by (simp add: etcd_sim_def)
  then have ok: "etcd_ok cd names (tree e)" and n: "abs_services cd names (tree e) n = Some (tagged sess i)"
    using 4(3) by (simp_all add: tree_shows_def lift_view_def)
  have "plain_name n" using abs_services_listed [OF ok] n listed_nameD(1) by simp
  then show ?case using GetService_ok [OF assms(1) _ _, of e n cd names opts] ok n view_shows [OF sh] s
    by (simp add: etcd_testable_def etcd_ok_def)
next
  case (5 V W s opts)
  obtain se e where s: "s = (se, e)" by (cases s)
  then have sh: "tree_shows cd names sess V (tree e)" using 5(1) by (simp add: etcd_sim_def)
  then have ok: "etcd_ok cd names (tree e)" and v: "abs_services cd names (tree e) = lift_view sess V"
    by (simp_all add: tree_shows_def)
  show ?case using GetAllServices_ok [OF assms(1) ok] v view_shows [OF sh] s
    by (simp add: etcd_testable_def lift_view_def option.map_comp comp_def)
next
  case (6 V W s)
  obtain se e where s: "s = (se, e)" by (cases s)
  then have sh: "tree_shows cd names sess V (tree e)" using 6(1) by (simp add: etcd_sim_def)
  then have ok: "roots_ok (tree e)" "hosts_ok cd (tree e)"
    and v: "abs_hosts cd (tree e) = (\<lambda>h. map_option (\<lambda>x. (x, sess)) (vwHosts V h))" "sess \<in> sessions_of (tree e) \<longleftrightarrow> vwSession V = Alive"
    by (simp_all add: tree_shows_def etcd_ok_def)
  obtain hs where hs: "distinct hs" "set hs = dom (of_live (sessions_of (tree e)) (abs_hosts cd (tree e)))"
    "etcd_GetHosts cd client e = Inr (List.map (\<lambda>h. fst (the (abs_hosts cd (tree e) h))) hs)"
    using GetHosts_ok [OF ok] by blast
  have "of_live (sessions_of (tree e)) (abs_hosts cd (tree e)) = shown_hosts V"
    unfolding v(1) of_live_tagged v(2) using 6(2) by (cases "vwSession V") (simp_all add: shown_hosts_def)
  moreover have "fst (the (abs_hosts cd (tree e) h)) = the (vwHosts V h)" if "h \<in> dom (shown_hosts V)" for h
    using that by (auto simp: v(1) shown_hosts_def split: if_splits)
  ultimately show ?case using hs s by (intro exI [of _ hs]) (simp add: etcd_testable_def)
next
  case (7 V W s c)
  then show ?case using call_sim_etcd [OF assms] by (cases s) (fastforce simp: etcd_testable_def)
next
  case (8 V s opts w s')
  then show ?case
    by (cases s) (auto simp: etcd_testable_def etcd_sim_def heard_def tree_shows_def lift_view_def watch_output_def watch_starts
        none_since dom_map_option_comp)
next
  case (9 V w opts cs s)
  then show ?case using services_watched
    by (cases s; cases w) (auto simp: etcd_testable_def etcd_sim_def heard_def)
next
  case (10 V s w s')
  then show ?case
    by (cases s) (auto simp: etcd_testable_def etcd_sim_def heard_def tree_shows_def hosts_none_since)
next
  case (11 V w hcs s)
  then show ?case using hosts_watched
    by (cases s; cases w) (auto simp: etcd_testable_def etcd_sim_def heard_def)
next
  case (12 V x s)
  then show ?case by (cases s) (simp add: etcd_testable_def etcd_sim_def heard_def)
qed

text \<open>A store on an empty server, before its first heartbeat.\<close>

lemma fresh_store:
  assumes "fmlookup (tree e) ''weave-flux'' = None"
  shows "etcd_sim cd names ord sess
    \<lparr>vwServices = Map.empty, vwHosts = Map.empty, vwSession = NotBegun, vwStarted = False, vwMade = False\<rparr> None (None, e)"
  using empty_store [OF assms]
  by (simp add: etcd_sim_def tree_shows_def session_shows_def lift_view_def heard_def fun_eq_iff)

end

interpretation journal_suite: conforming_store
  "etcd_testable sorted_ordering cd names journal_client (\<lambda>i e. concat (map told (drop i (snd e))))
     (\<lambda>i e. concat (map told_host (drop i (snd e)))) (\<lambda>m. m = ''key not found'') (\<lambda>e. None) ''S1''"
  "etcd_covers cd names ''S1''" "journal.etcd_sim cd names sorted_ordering ''S1''"
  by (rule journal.etcd_conforms) (simp_all add: demo_listed)

end
