(* ===== verification/SuiteProps.thy ===== *)
theory SuiteProps
  imports InmemSuite EtcdSuite
begin

text \<open>
  The two stores of the program pass the tests that the repository has for stores
  (\<open>common/store/test/suite.go\<close>), because each keeps the contract of the tests.
\<close>

section \<open>The values of the tests in etcd\<close>

definition suite_encodes :: "codec \<Rightarrow> (string \<Rightarrow> string \<Rightarrow> int option) \<Rightarrow> string \<Rightarrow> bool" where
  "suite_encodes cd names sess \<longleftrightarrow>
     encodes (encService cd) (decService cd) (testService names) \<and> encodes (encRule cd) (decRule cd) testRule \<and>
     encodes (encInstance cd) (decInstance cd) (testInst names, sess) \<and>
     encodes (encIngress cd) (decIngress cd) (testIngressInstance, sess) \<and>
     encodes (encHost cd) (decHost cd) (host_at ''192.168.1.65'', sess) \<and>
     encodes (encHost cd) (decHost cd) (host_at ''192.168.3.89'', sess)"

lemma suite_covered:
  assumes "suite_encodes cd names sess"
  shows "suite_calls names \<subseteq> Collect (etcd_covers cd names sess)"
proof -
  have names: "listed_name ''svc''" "listed_name ''group''" "listed_name ''inst''" "listed_name ''foo host''"
    "listed_name ''host number three''"
    by (simp_all add: listed_name_def plain_name_def name_ok_def visible_def)
  have addr: "testIngressInstanceAddr names = newIPPort test_ip 1234" by (simp add: testIngressInstanceAddr_def ParsedPtr)
  show ?thesis using assms names test_ip_specified
    by (auto simp: suite_calls_def etcd_covers_def suite_encodes_def addr newIPPort_def)
qed

text \<open>
  C30: Both stores of the program pass all tests of the store test suite: the in-memory store, and
  the etcd store over every server that keeps the contract of etcd, starting empty, when JSON
  keeps the values of the tests. The tests never panic and never wait for ever, whatever the order
  in which maps are iterated over.
\<close>

theorem store_suite_passes:
  assumes "ordering_ok ord" and "ordering_ok aord" and "ordering_ok ord'" and "ordering_ok aord'"
    and "etcd_server client tree index changes host_changes key_not_found members" and "fmlookup (tree e) ''weave-flux'' = None"
    and "listed_name sess" and "suite_encodes cd names sess"
  shows "(\<exists>s'. RunStoreTestSuite ord aord names (inmem_testable ord' aord') (0, NewInMem) = Some s') \<and>
    (\<exists>s'. RunStoreTestSuite ord aord names
       (etcd_testable ord' cd names client changes host_changes key_not_found members sess) (None, e) = Some s')"
proof
  have "inmem_sim \<lparr>vwServices = Map.empty, vwHosts = Map.empty, vwSession = NotBegun, vwStarted = False, vwMade = False\<rparr> None
      (0, NewInMem)"
    using NewInMem_ok by (simp add: inmem_sim_def shows_view_def NewInMem_def)
  from conforming_store.suite_passes [OF inmem_conforms [OF assms(3,4)] this _ assms(1,2)]
  show "\<exists>s'. RunStoreTestSuite ord aord names (inmem_testable ord' aord') (0, NewInMem) = Some s'" by simp
  show "\<exists>s'. RunStoreTestSuite ord aord names
       (etcd_testable ord' cd names client changes host_changes key_not_found members sess) (None, e) = Some s'"
    by (rule conforming_store.suite_passes [OF etcd_server.etcd_conforms [OF assms(5,3,7)]
          etcd_server.fresh_store [OF assms(5,6)] suite_covered [OF assms(8)] assms(1,2)])
qed

definition suite_codec :: "(string \<Rightarrow> string \<Rightarrow> int option) \<Rightarrow> codec" where
  "suite_codec names =
     \<lparr>encService = (\<lambda>_. Some ''service''), decService = (\<lambda>_. Some (testService names)),
      encInstance = (\<lambda>(i, s). Some s), decInstance = (\<lambda>s. Some (testInst names, s)),
      encRule = (\<lambda>_. Some ''rule''), decRule = (\<lambda>_. Some testRule),
      encIngress = (\<lambda>(i, s). Some s), decIngress = (\<lambda>s. Some (testIngressInstance, s)),
      encHost = (\<lambda>(h, s). Some ((if h = host_at ''192.168.1.65'' then CHR ''1'' else CHR ''3'') # s)),
      decHost = (\<lambda>v. Some (host_at (if hd v = CHR ''1'' then ''192.168.1.65'' else ''192.168.3.89''), tl v)),
      decSession = Some\<rparr>"

theorem store_suite_passes_witness:
  "(\<exists>s'. RunStoreTestSuite sorted_ordering sorted_ordering (\<lambda>_ _. None) (inmem_testable sorted_ordering sorted_ordering)
      (0, NewInMem) = Some s') \<and>
    (\<exists>s'. RunStoreTestSuite sorted_ordering sorted_ordering (\<lambda>_ _. None)
      (etcd_testable sorted_ordering (suite_codec (\<lambda>_ _. None)) (\<lambda>_ _. None) journal_client
        (\<lambda>i e. concat (map told (drop i (snd e)))) (\<lambda>i e. concat (map told_host (drop i (snd e))))
        (\<lambda>m. m = ''key not found'') (\<lambda>e. None) ''S1'') (None, (fmempty, [])) = Some s')"
proof -
  have "suite_encodes (suite_codec (\<lambda>_ _. None)) (\<lambda>_ _. None) ''S1''"
    by (simp add: suite_encodes_def encodes_def suite_codec_def)
  then show ?thesis
    using store_suite_passes [OF sorted_ordering_ok sorted_ordering_ok sorted_ordering_ok sorted_ordering_ok
        journal.etcd_server_axioms, of "(fmempty, [])" "''S1''" "suite_codec (\<lambda>_ _. None)" "\<lambda>_ _. None"] demo_listed(5)
    by simp
qed

end
