(* ===== verification/Spec2Isabelle.thy ===== *)
theory Spec2Isabelle
  imports AgentProps BalancerProps EtcdProps ServerSideProps DockerListener EtcdGC FluxProps DepsCorrect
    SupervisorProps BalagentProps HttpShim TcpShim WebApi ConfigureProps Fluxd EtcdWatch SuiteProps
begin

text \<open>
  A verification development of Flux.

  \<^bold>\<open>The program.\<close> Flux balances the connections to services over the containers that provide
  them. A \<^emph>\<open>store\<close> (\<open>common/store\<close>, kept in etcd or in memory) holds the services, the rules that
  say which containers are instances of a service, and the instances. On every host the \<^emph>\<open>agent\<close>
  (\<open>agent\<close>) listens to Docker and to the store, matches the containers of the host against the
  rules, and writes the instances that result to the store. The \<^emph>\<open>balancer\<close> (\<open>balancer\<close>) watches
  the services of the store and redirects connections, by iptables rules, to a \<^emph>\<open>forwarder\<close> that
  picks an instance from a pool and copies the connection. The \<^emph>\<open>server-side balancer\<close>
  (\<open>balancer/serverside\<close>) runs forwarders for the instances of its own host and announces them in
  the store as ingress instances. The \<^emph>\<open>balancer agent\<close> (\<open>balancer/balagent\<close>) writes the services to
  the configuration file of another proxy. \<open>fluxctl\<close> is the command line tool that defines and
  shows services, \<open>web\<close> shows them on a page. \<open>common/daemon\<close> wires the parts of a process together
  and supervises them.

  The components of a process talk over channels: Docker events go from the listener to the
  matcher, instance updates from the matcher over \<open>Tee\<close> to the writer of the store and to the
  server-side balancer, service updates from a watch of the store to the matcher and to the
  balancers. Here a component is a function over the sequence of what it receives, returning its
  state and what it sends, or a step relation where goroutines interleave within the component. The
  theorems hold for every sequence or interleaving.

  \<^bold>\<open>Conventions.\<close> A Go panic is \<open>None\<close>, an \<open>error\<close> a value. A Go map is a partial function; each
  \<open>range\<close> over one takes its order from an argument, and theorems hold for every order
  (\<open>ordering_ok\<close>). Strings and byte slices are lists of characters. Integers are \<open>int\<close> with the
  wrap-around written out where the code can reach it, and words where the width matters (times to
  live, byte arithmetic). What is not code of the repository is an argument of the definitions that
  use it: the etcd client and the iptables program under a contract (\<open>etcd_contract\<close>
  and its extensions \<open>etcd_history\<close> and \<open>etcd_server\<close>, \<open>iptables_contract\<close>, each interpreted by a concrete instance), Docker, the network, the clock,
  JSON, templates, the file system and HTTP as functions or as inputs of a step. The Go library's
  \<open>strings\<close>, \<open>strconv\<close>, \<open>net\<close> and \<open>container/heap\<close> are modelled as far as the program uses them.

  \<^bold>\<open>The theories.\<close>

  \<^item> \<open>Prelude\<close>, \<open>GoStrings\<close>, \<open>GoNet\<close>, \<open>GoHeap\<close>: panics, maps and their orders; strings and numbers; IP
    addresses; heaps, correct for every structure that keeps the promises of \<open>heap_client\<close>.
  \<^item> \<open>NetUtil\<close> (\<open>common/netutil\<close>): the text of addresses and ports, which parses back.
  \<^item> \<open>StoreData\<close> (\<open>common/store/data.go\<close>): services, rules, instances, selectors, query options.
  \<^item> \<open>Inmem\<close>, \<open>InmemCorrect\<close>, \<open>Watch\<close>, \<open>StoreProps\<close> (\<open>common/store/inmem\<close>, \<open>common/store/watch.go\<close>): the
    store in memory, with sessions and watchers; its tables stay in step and every visible change
    is reported. \<open>watch_reach\<close> interleaves the operations of a store (\<open>watched_store\<close>) with a
    watch; the consumer ends up with the services of the store.
  \<^item> \<open>EtcdKeys\<close>, \<open>EtcdTree\<close>, \<open>EtcdStore\<close>, \<open>EtcdCorrect\<close>, \<open>EtcdOps\<close>, \<open>EtcdProps\<close>, \<open>EtcdRefine\<close>, \<open>EtcdWatch\<close>,
    \<open>EtcdGC\<close> (\<open>common/store/etcdstore\<close>): the keys and their parser, the tree etcd keeps, the operations
    as calls of the client, and the refinement: a well-formed tree (\<open>etcd_ok\<close>) stands for the abstract
    services \<open>abs_services\<close>, queries show them and each operation refines its update \<open>abs_op\<close> of them.
    \<open>etcd_history\<close> adds to the contract of etcd what a watcher is told; with it the etcd store is a
    \<open>watched_store\<close> too. The collector asks for the deletion of exactly the records of dead sessions.
    \<open>EtcdHosts\<close> adds the hosts (\<open>abs_hosts\<close>), which no operation on services touches.
  \<^item> \<open>StoreSuite\<close>, \<open>StoreConforms\<close>, \<open>InmemSuite\<close>, \<open>EtcdSuite\<close>, \<open>SuiteProps\<close> (\<open>common/store/test/suite.go\<close> and the
    tests that run it): the tests of the repository for stores, as a program. Every store that keeps
    the contract \<open>conforming_store\<close>, a simulation of what its clients see, passes them; both stores
    of the program keep it.
  \<^item> \<open>Extract\<close>, \<open>SyncInstances\<close>, \<open>SyncCorrect\<close>, \<open>SyncProps\<close>, \<open>SyncWitness\<close> (\<open>agent/sync_instances.go\<close>):
    the matcher. Its invariant \<open>sync_inv\<close> says that the instances are those the rules select; the
    updates it emits add up to the instances it holds.
  \<^item> \<open>SetInstances\<close>, \<open>EtcdInstances\<close>, \<open>AgentProps\<close> (\<open>agent/set_instances.go\<close>): the writer of the store,
    correct over every store that keeps \<open>instance_store\<close>, which both stores of the program do, and
    the agent from containers to the store.
  \<^item> \<open>DockerListener\<close> (\<open>agent/docker_listener.go\<close>): events, the listing and the buffer; the matcher
    hears of exactly the running containers.
  \<^item> \<open>Fluxd\<close> (\<open>agent/tee.go\<close>): \<open>Tee\<close>, and the daemon end to end, over every etcd that keeps its contract.
  \<^item> \<open>Pool\<close>, \<open>PoolCorrect\<close>, \<open>PoolProps\<close>, \<open>Forwarder\<close>, \<open>TcpShim\<close>, \<open>HttpShim\<close> (\<open>balancer/forwarder\<close>): the
    pool with its retry heap and timer, the attempts of a connection, the accept loop, the copies in
    both directions with their half-closes, and the pairing of HTTP requests and responses.
  \<^item> \<open>IPTables\<close>, \<open>IPTablesCorrect\<close>, \<open>IPTablesProps\<close>, \<open>Services\<close>, \<open>ServicesCorrect\<close>, \<open>Balancer\<close>,
    \<open>BalancerProps\<close> (\<open>balancer/iptables.go\<close>, \<open>services.go\<close>, \<open>model\<close>, \<open>balancer.go\<close>): the chains, the
    service table with its states, and the balancer from an update of the store to the kernel: the
    rules in the chains are those of the table, as multisets.
  \<^item> \<open>ServerSide\<close>, \<open>ServerSideCorrect\<close>, \<open>ServerSideProps\<close> (\<open>balancer/serverside\<close>): its announcements are
    what the updates call for.
  \<^item> \<open>Balagent\<close>, \<open>BalagentProps\<close> (\<open>balancer/balagent\<close>): the updater, the generator and the file.
  \<^item> \<open>Flags\<close>, \<open>Deps\<close>, \<open>DepsCorrect\<close> (\<open>common/daemon/deps.go\<close>, with what it uses of the package \<open>flag\<close>):
    the command line, and collecting, sorting and making the dependencies.
  \<^item> \<open>Supervisor\<close>, \<open>SupervisorProps\<close> (\<open>common/daemon/component.go\<close>, \<open>tick.go\<close>, \<open>daemon.go\<close>): restart, reset,
    stop and the main loop.
  \<^item> \<open>Lease\<close>, \<open>Wiring\<close> (\<open>Prepare\<close> of every component, \<open>etcdstore/dep.go\<close>, \<open>common/heartbeat\<close>): which
    channels connect what, how each part is supervised, and the durations of the heartbeat.
  \<^item> \<open>Configure\<close>, \<open>ConfigureProps\<close> (\<open>Populate\<close> and \<open>MakeValue\<close> of every configuration, \<open>common/etcdutil\<close>,
    \<open>cmd\<close>): the two daemons from their command line and environment to the program they run.
  \<^item> \<open>Fluxctl\<close>, \<open>FluxShow\<close>, \<open>FluxCorrect\<close>, \<open>FluxProps\<close> (\<open>fluxctl\<close>): the commands, correct over every store
    that keeps \<open>flux_store\<close>, which both stores of the program do.
  \<^item> \<open>Metrics\<close> (\<open>balancer/prometheus\<close>, \<open>common/netutil/hostip.go\<close>) and \<open>WebApi\<close> (\<open>web/main.go\<close>): the address
    of the host, what is counted, advertised and served; the JSON the page gets.

  \<^bold>\<open>Loops.\<close> Recursion over what a goroutine receives is structural: the sequence of inputs bounds it.
  Loops that the code does not bound are partial functions to \<open>option\<close>, and that they return is a
  theorem of its own: \<open>deleteChainRule\<close> (one rule less in each round), the collection of the
  dependencies (when finitely many keys can be reached) and their sort (one configuration less in
  each round, or a panic). The loops of the heap and of the retry queue have measures. No fuel is
  used. Where goroutines are scheduled freely a step relation has its invariants by rule induction,
  and separate theorems show that the end can be reached (\<open>tee_can_deliver\<close>, \<open>tcp_shim_delivers\<close>,
  \<open>reset_loses_no_signal\<close>).

  \<^bold>\<open>Not modelled.\<close> The parsing of the command line of \<open>fluxctl\<close> by \<open>cobra\<close>, and the texts of usage
  messages; what the etcd client does to connect; log lines, the event
  logger and the version banner; the text of the Prometheus endpoint, which its library writes;
  mutexes, since each critical section is one step; the other tests, the embedded etcd server they
  run and vendored packages; the JavaScript of the page, the nginx configuration and the site.
\<close>

end
